(* ===== verification/Adbi_Prelude.thy ===== *)
theory Adbi_Prelude
  imports Main "HOL-Library.Word"
begin

text \<open>
  Shared vocabulary of the development: the machine types of the server, the result type in
  which every assertion, out-of-range access and unreachable branch of the C code is a value,
  little-endian byte lists, and the generic lemmas on words and lists that the component
  theories rely on.
\<close>

unbundle bit_operations_syntax

section \<open>Machine types\<close>

type_synonym u8 = "8 word"
type_synonym u16 = "16 word"
type_synonym u32 = "32 word"
type_synonym u64 = "64 word"
type_synonym bytes = "8 word list"

text \<open>Instruction codes are 32 bits wide on both architectures.\<close>

type_synonym insn_t = "32 word"

section \<open>Faults and results\<close>

text \<open>
  \<open>Assertion\<close> is a failed \<^verbatim>\<open>assert\<close> or \<^verbatim>\<open>adbi_assure\<close> (\<^verbatim>\<open>util/common.h\<close>; both abort the server, which
  is built without \<^verbatim>\<open>NDEBUG\<close>), \<open>Out_Of_Bounds\<close> an access outside the object a pointer points into,
  \<open>Dangling\<close> an access to an object that was freed, \<open>Undefined_Shift\<close> a shift by a negative number, \<open>Unreachable\<close> a call of \<^verbatim>\<open>adbi_bug_unrechable\<close>,
  \<open>Diverges\<close> a loop that does not end.
\<close>

datatype fault = Assertion | Out_Of_Bounds | Null_Pointer | Dangling | Undefined_Shift | Unreachable | Diverges

type_synonym 'a res = "fault + 'a"

definition adbi_assure :: "bool \<Rightarrow> 'a res \<Rightarrow> 'a res" where
  "adbi_assure cond k = (if cond then k else Inl Assertion)"

definition res_bind :: "'a res \<Rightarrow> ('a \<Rightarrow> 'b res) \<Rightarrow> 'b res" where
  "res_bind m f = (case m of Inl e \<Rightarrow> Inl e | Inr x \<Rightarrow> f x)"

definition res_of_option :: "'a option \<Rightarrow> 'a res" where
  "res_of_option x = (case x of None \<Rightarrow> Inl Diverges | Some y \<Rightarrow> Inr y)"

named_theorems res_simps \<open>evaluation rules of the result type\<close>
named_theorems word_bits \<open>bit-level characterisations of the word operations of the code\<close>

lemma adbi_assure_True [simp, res_simps]: "adbi_assure True k = k"
  by (simp add: adbi_assure_def)

lemma adbi_assure_False [simp, res_simps]: "adbi_assure False k = Inl Assertion"
  by (simp add: adbi_assure_def)

lemma adbi_assure_eq_Inr [simp]: "adbi_assure c k = Inr x \<longleftrightarrow> c \<and> k = Inr x"
  by (simp add: adbi_assure_def)

lemma adbi_assure_cong [cong, fundef_cong]: "c = c' \<Longrightarrow> (c' \<Longrightarrow> k = k') \<Longrightarrow> adbi_assure c k = adbi_assure c' k'"
  by (simp add: adbi_assure_def)

lemma res_of_option_simps [simp, res_simps]:
  "res_of_option None = Inl Diverges" "res_of_option (Some x) = Inr x"
  by (simp_all add: res_of_option_def)

lemma res_bind_Inl [simp, res_simps]: "res_bind (Inl e) f = Inl e"
  by (simp add: res_bind_def)

lemma res_bind_Inr [simp, res_simps]: "res_bind (Inr x) f = f x"
  by (simp add: res_bind_def)

lemma res_bind_cong [fundef_cong]:
  "m = m' \<Longrightarrow> (\<And>x. m' = Inr x \<Longrightarrow> f x = f' x) \<Longrightarrow> res_bind m f = res_bind m' f'"
  by (cases m') simp_all

lemma res_bind_eq_Inr: "res_bind m f = Inr y \<longleftrightarrow> (\<exists>x. m = Inr x \<and> f x = Inr y)"
  by (cases m) auto

text \<open>A computation that ends without a fault.\<close>

definition no_fault :: "'a res \<Rightarrow> bool" where
  "no_fault m \<longleftrightarrow> (\<exists>x. m = Inr x)"

named_theorems no_fault_intros \<open>structural rules for \<open>no_fault\<close>\<close>

lemma no_fault_Inr [simp, no_fault_intros]: "no_fault (Inr x)"
  by (simp add: no_fault_def)

lemma no_fault_Inl [simp]: "\<not> no_fault (Inl e)"
  by (simp add: no_fault_def)

lemma no_fault_if [no_fault_intros]:
  "(b \<Longrightarrow> no_fault x) \<Longrightarrow> (\<not> b \<Longrightarrow> no_fault y) \<Longrightarrow> no_fault (if b then x else y)"
  by simp

lemma no_fault_assure [no_fault_intros]: "c \<Longrightarrow> (c \<Longrightarrow> no_fault k) \<Longrightarrow> no_fault (adbi_assure c k)"
  by (simp add: adbi_assure_def)

lemma no_fault_bind [no_fault_intros]:
  "no_fault m \<Longrightarrow> (\<And>x. m = Inr x \<Longrightarrow> no_fault (f x)) \<Longrightarrow> no_fault (res_bind m f)"
  by (auto simp: no_fault_def)

text \<open>Conditions that may fault themselves (an inline function with an assertion) and the short-circuit
  operators of C on them.\<close>

definition res_if :: "bool res \<Rightarrow> 'a res \<Rightarrow> 'a res \<Rightarrow> 'a res" where
  "res_if c a b = res_bind c (\<lambda>x. if x then a else b)"

definition res_or :: "bool res \<Rightarrow> bool res \<Rightarrow> bool res" where
  "res_or a b = res_bind a (\<lambda>x. if x then Inr True else b)"

definition res_and :: "bool res \<Rightarrow> bool res \<Rightarrow> bool res" where
  "res_and a b = res_bind a (\<lambda>x. if x then b else Inr False)"

definition res_not :: "bool res \<Rightarrow> bool res" where
  "res_not a = res_bind a (\<lambda>x. Inr (\<not> x))"

lemma res_not_Inr [simp, res_simps]: "res_not (Inr x) = Inr (\<not> x)"
  by (simp add: res_not_def)

lemma no_fault_res_not [no_fault_intros]: "no_fault a \<Longrightarrow> no_fault (res_not a)"
  by (auto simp: no_fault_def)

lemma res_if_Inr [simp, res_simps]: "res_if (Inr c) a b = (if c then a else b)"
  by (simp add: res_if_def)

lemma res_or_Inr [simp, res_simps]: "res_or (Inr x) (Inr y) = Inr (x \<or> y)"
  by (simp add: res_or_def)

lemma res_and_Inr [simp, res_simps]: "res_and (Inr x) (Inr y) = Inr (x \<and> y)"
  by (simp add: res_and_def)

lemma no_fault_res_if [no_fault_intros]:
  "no_fault c \<Longrightarrow> (c = Inr True \<Longrightarrow> no_fault a) \<Longrightarrow> (c = Inr False \<Longrightarrow> no_fault b) \<Longrightarrow> no_fault (res_if c a b)"
  by (auto simp: no_fault_def)

lemma no_fault_res_or [no_fault_intros]: "no_fault a \<Longrightarrow> no_fault b \<Longrightarrow> no_fault (res_or a b)"
  by (auto simp: no_fault_def)

lemma no_fault_res_and [no_fault_intros]: "no_fault a \<Longrightarrow> no_fault b \<Longrightarrow> no_fault (res_and a b)"
  by (auto simp: no_fault_def)

text \<open>A chain of tests never gives a value that no branch gives.\<close>

lemma if_neqI: "x \<noteq> z \<Longrightarrow> y \<noteq> z \<Longrightarrow> (if b then x else y) \<noteq> z"
  by simp

lemma res_if_neqI: "x \<noteq> Inr z \<Longrightarrow> y \<noteq> Inr z \<Longrightarrow> res_if c x y \<noteq> Inr z"
  by (cases c) (auto simp: res_if_def)

lemma assure_neqI: "k \<noteq> Inr z \<Longrightarrow> adbi_assure c k \<noteq> Inr z"
  by simp

lemmas branch_neqI = if_neqI res_if_neqI assure_neqI

section \<open>Words\<close>

text \<open>Truth values as C integers.\<close>

definition of_cond :: "bool \<Rightarrow> 'a::len word" where
  "of_cond b = (if b then 1 else 0)"

lemma of_cond_simps [simp]: "of_cond True = 1" "of_cond False = 0"
  by (simp_all add: of_cond_def)

lemma bit_of_cond [word_bits]: "bit (of_cond b) n \<longleftrightarrow> b \<and> n = 0"
  by (cases n) (simp_all add: of_cond_def bit_simps)

lemma exp_minus_one_eq_mask: "(2 ^ n :: 'a::len word) - 1 = mask n"
  by (simp add: mask_eq_decr_exp)

lemma and_exp_eq: "(w :: 'a::len word) AND 2 ^ n = (if bit w n then 2 ^ n else 0)"
  by (rule bit_word_eqI) (auto simp: bit_simps)

lemma and_exp_eq_0_iff [simp]: "(w :: 'a::len word) AND 2 ^ n = 0 \<longleftrightarrow> \<not> bit w n"
  using bit_imp_le_length [of w n] by (auto simp: and_exp_eq)

lemma nibble_le_15: "(\<And>i. bit w i \<Longrightarrow> i < 4) \<Longrightarrow> w \<le> (15 :: 'a::len word)"
proof -
  assume a: "\<And>i. bit w i \<Longrightarrow> i < 4"
  have "w = w AND mask 4" by (rule bit_word_eqI) (auto simp: bit_simps dest: a)
  then have "w \<le> mask 4" by (metis word_and_le1)
  then show ?thesis by (simp add: mask_eq_exp_minus_1)
qed

lemma nibble_eq_15_iff:
  assumes "\<And>i. bit w i \<Longrightarrow> i < 4"
  shows "w = (15 :: 32 word) \<longleftrightarrow> bit w 3 \<and> bit w 2 \<and> bit w 1 \<and> bit w 0"
proof -
  have "w = mask 4 \<longleftrightarrow> (\<forall>i < 4. bit w i)"
  proof
    assume r: "\<forall>i < 4. bit w i"
    show "w = mask 4"
    proof (rule bit_word_eqI)
      fix i show "bit w i = bit (mask 4 :: 32 word) i" using r assms [of i] by (auto simp: bit_simps)
    qed
  qed (simp add: bit_simps)
  then show ?thesis by (auto simp: mask_eq_exp_minus_1 numeral_eq_Suc All_less_Suc)
qed

section \<open>Little-endian byte lists\<close>

text \<open>
  The bytes of an object as \<^verbatim>\<open>memcpy\<close> of its address copies them on the little-endian targets of
  the server, and the value an object of that size has.
\<close>

definition le_bytes :: "nat \<Rightarrow> 'a::len word \<Rightarrow> bytes" where
  "le_bytes n w = map (\<lambda>i. ucast (drop_bit (8 * i) w)) [0..<n]"

fun le_word :: "bytes \<Rightarrow> 'a::len word" where
  "le_word [] = 0"
| "le_word (b # bs) = ucast b OR push_bit 8 (le_word bs)"

lemma length_le_bytes [simp]: "length (le_bytes n w) = n"
  by (simp add: le_bytes_def)

lemma le_bytes_eq_Nil [simp]: "le_bytes n w = [] \<longleftrightarrow> n = 0"
  by (simp add: le_bytes_def)

lemma le_bytes_nth: "i < n \<Longrightarrow> le_bytes n w ! i = ucast (drop_bit (8 * i) w)"
  by (simp add: le_bytes_def)

lemma bit_le_word:
  "bit (le_word bs :: 'a::len word) i \<longleftrightarrow>
     i < LENGTH('a) \<and> i div 8 < length bs \<and> bit (bs ! (i div 8)) (i mod 8)"
proof (induction bs arbitrary: i)
  case Nil
  then show ?case by simp
next
  case (Cons b bs)
  show ?case
  proof (cases "i < 8")
    case True
    then show ?thesis by (auto simp: bit_simps)
  next
    case False
    then obtain j where i: "i = j + 8" by (metis add.commute le_Suc_ex not_less)
    then have "\<not> bit b i" using bit_imp_le_length [of b i] by auto
    moreover have "(j + 8) div 8 = Suc (j div 8)" by simp
    ultimately show ?thesis using i by (auto simp: bit_simps Cons.IH)
  qed
qed

lemma le_word_le_bytes:
  assumes "LENGTH('a) \<le> 8 * n"
  shows "(le_word (le_bytes n (w :: 'a word)) :: 'a::len word) = w"
proof (rule bit_word_eqI)
  fix i assume "i < LENGTH('a)"
  moreover from this assms have "i div 8 < n" by auto
  moreover have "8 * (i div 8) + i mod 8 = i" by simp
  ultimately show "bit (le_word (le_bytes n w) :: 'a word) i = bit w i"
    by (simp add: bit_le_word le_bytes_nth bit_simps)
qed

lemma le_bytes_le_word:
  assumes "length bs = n" "8 * n \<le> LENGTH('a)"
  shows "le_bytes n (le_word bs :: 'a::len word) = bs"
proof (rule nth_equalityI)
  show "length (le_bytes n (le_word bs :: 'a word)) = length bs"
    using assms by simp
  fix i assume "i < length (le_bytes n (le_word bs :: 'a word))"
  then have i: "i < n" by simp
  show "le_bytes n (le_word bs :: 'a word) ! i = bs ! i"
  proof (rule bit_word_eqI)
    fix k assume k: "k < LENGTH(8)"
    then have "8 * i + k < LENGTH('a)" using i assms(2) by simp
    moreover have "(8 * i + k) div 8 = i" "(8 * i + k) mod 8 = k" using k by auto
    ultimately show "bit (le_bytes n (le_word bs :: 'a word) ! i) k = bit (bs ! i) k"
      using i k assms(1) by (simp add: le_bytes_nth bit_simps bit_le_word)
  qed
qed

section \<open>Lists\<close>

lemma take_drop_append_exact [simp]:
  "length xs = n \<Longrightarrow> take n (xs @ ys) = xs" "length xs = n \<Longrightarrow> drop n (xs @ ys) = ys"
  by simp_all

lemma takeWhile_append_stop:
  "(\<forall>x \<in> set xs. P x) \<Longrightarrow> \<not> P y \<Longrightarrow> takeWhile P (xs @ y # ys) = xs"
  by (simp add: takeWhile_tail)

end
