(* ===== verification/Template.thy ===== *)
theory Template
  imports Adbi_Prelude
begin

text \<open>
  Instances of trampoline templates, \<^verbatim>\<open>tracepoint/template.c\<close>: a template is a block of code with a
  list of fields to fill in; an instance is a copy of the block into which values are written at
  the offsets of the fields. The loop over the fields and its contract, shared by the two
  architectures, is a locale.
\<close>

section \<open>Definitions\<close>

text \<open>\<^verbatim>\<open>template_instance_t\<close> is \<^verbatim>\<open>bindata_t\<close>: \<open>size\<close> is the length of the list. Offsets are signed.\<close>

type_synonym template_instance_t = bytes

record 'f template_field_t =
  field :: 'f
  offset :: int

record 'f template_t =
  bindata :: bytes
  template_fields :: "'f template_field_t list"
  template_name :: string

definition template_instatiate :: "'f template_t \<Rightarrow> template_instance_t" where
  "template_instatiate t = bindata t"

fun insert_bits_loop :: "template_instance_t \<Rightarrow> nat \<Rightarrow> bytes \<Rightarrow> bytes \<Rightarrow> template_instance_t" where
  "insert_bits_loop inst p (d # ds) (m # ms) =
     insert_bits_loop (inst[p := (inst ! p AND NOT m) OR (d AND m)]) (Suc p) ds ms"
| "insert_bits_loop inst p _ _ = inst"

definition template_insert_bits :: "template_instance_t \<Rightarrow> int \<Rightarrow> bytes \<Rightarrow> bytes \<Rightarrow> template_instance_t res" where
  "template_insert_bits inst off data m =
     adbi_assure (off \<ge> 0)
     (adbi_assure (int (length inst) > off)
     (adbi_assure (int (length inst) \<ge> off + int (length data))
     (Inr (insert_bits_loop inst (nat off) data m))))"

definition memcpy_at :: "bytes \<Rightarrow> int \<Rightarrow> bytes \<Rightarrow> bytes res" where
  "memcpy_at dst off src =
     (if 0 \<le> off \<and> off + int (length src) \<le> int (length dst)
      then Inr (take (nat off) dst @ src @ drop (nat off + length src) dst)
      else Inl Out_Of_Bounds)"

definition template_insert_bytes :: "template_instance_t \<Rightarrow> int \<Rightarrow> bytes \<Rightarrow> template_instance_t res" where
  "template_insert_bytes i off data =
     adbi_assure (int (length i) > off)
     (adbi_assure (int (length i) \<ge> off + int (length data))
     (memcpy_at i off data))"

definition template_insert_u16 :: "template_instance_t \<Rightarrow> int \<Rightarrow> u16 \<Rightarrow> template_instance_t res" where
  "template_insert_u16 i off v = template_insert_bytes i off (le_bytes 2 v)"

definition template_insert_u16_bits :: "template_instance_t \<Rightarrow> int \<Rightarrow> u16 \<Rightarrow> u16 \<Rightarrow> template_instance_t res" where
  "template_insert_u16_bits i off v m = template_insert_bits i off (le_bytes 2 v) (le_bytes 2 m)"

definition template_insert_u32 :: "template_instance_t \<Rightarrow> int \<Rightarrow> u32 \<Rightarrow> template_instance_t res" where
  "template_insert_u32 i off v = template_insert_bytes i off (le_bytes 4 v)"

definition template_insert_u32_bits :: "template_instance_t \<Rightarrow> int \<Rightarrow> u32 \<Rightarrow> u32 \<Rightarrow> template_instance_t res" where
  "template_insert_u32_bits i off v m = template_insert_bits i off (le_bytes 4 v) (le_bytes 4 m)"

definition template_insert_u64 :: "template_instance_t \<Rightarrow> int \<Rightarrow> u64 \<Rightarrow> template_instance_t res" where
  "template_insert_u64 i off v = template_insert_bytes i off (le_bytes 8 v)"

definition template_insert_u64_bits :: "template_instance_t \<Rightarrow> int \<Rightarrow> u64 \<Rightarrow> u64 \<Rightarrow> template_instance_t res" where
  "template_insert_u64_bits i off v m = template_insert_bits i off (le_bytes 8 v) (le_bytes 8 m)"

text \<open>A read of \<open>n\<close> bytes through a pointer into the instance.\<close>

definition window :: "bytes \<Rightarrow> int \<Rightarrow> nat \<Rightarrow> bytes" where
  "window i off n = take n (drop (nat off) i)"

definition read_u16 :: "template_instance_t \<Rightarrow> int \<Rightarrow> u16 res" where
  "read_u16 i off =
     (if 0 \<le> off \<and> off + 2 \<le> int (length i) then Inr (le_word (window i off 2)) else Inl Out_Of_Bounds)"

definition read_u32 :: "template_instance_t \<Rightarrow> int \<Rightarrow> u32 res" where
  "read_u32 i off =
     (if 0 \<le> off \<and> off + 4 \<le> int (length i) then Inr (le_word (window i off 4)) else Inl Out_Of_Bounds)"

text \<open>
  \<^verbatim>\<open>for (field = template->fields; field->field; ++field)\<close>: the list ends with a field whose
  identifier is \<^verbatim>\<open>TF_NULL\<close>; running past the end without finding it is an access out of bounds.
\<close>

fun fields_loop :: "('f \<Rightarrow> bool) \<Rightarrow> ('f template_field_t \<Rightarrow> 's \<Rightarrow> 's res)
    \<Rightarrow> 'f template_field_t list \<Rightarrow> 's \<Rightarrow> 's res" where
  "fields_loop is_null step [] s = Inl Out_Of_Bounds"
| "fields_loop is_null step (f # fs) s =
     (if is_null (field f) then Inr s else res_bind (step f s) (fields_loop is_null step fs))"

section \<open>Insertion changes its window only\<close>

definition same_outside :: "int \<Rightarrow> nat \<Rightarrow> bytes \<Rightarrow> bytes \<Rightarrow> bool" where
  "same_outside off n i i' \<longleftrightarrow>
     length i' = length i \<and> (\<forall>k < length i. \<not> (off \<le> int k \<and> int k < off + int n) \<longrightarrow> i' ! k = i ! k)"

lemma same_outside_mono: "same_outside off m i i' \<Longrightarrow> m \<le> n \<Longrightarrow> same_outside off n i i'"
  by (force simp: same_outside_def)

lemma length_insert_bits_loop [simp]: "length (insert_bits_loop i p d m) = length i"
  by (induction i p d m rule: insert_bits_loop.induct) simp_all

lemma insert_bits_loop_nth:
  "length d = length m \<Longrightarrow> p + length d \<le> length i \<Longrightarrow> k < length i \<Longrightarrow>
   insert_bits_loop i p d m ! k =
     (if p \<le> k \<and> k < p + length d then (i ! k AND NOT (m ! (k - p))) OR (d ! (k - p) AND m ! (k - p)) else i ! k)"
proof (induction i p d m rule: insert_bits_loop.induct)
  case (1 i p d ds m ms)
  show ?case using 1(2-4) by (subst insert_bits_loop.simps, subst 1(1)) (auto simp: nth_Cons' Suc_le_eq)
qed auto

lemma insert_bits_frame:
  assumes "template_insert_bits i off d m = Inr i'" "length d = length m"
  shows "same_outside off (length d) i i'"
  using assms by (auto simp: template_insert_bits_def same_outside_def insert_bits_loop_nth)

lemma memcpy_at_frame: "memcpy_at i off d = Inr i' \<Longrightarrow> same_outside off (length d) i i'"
  by (auto simp: memcpy_at_def same_outside_def nth_append split: if_splits)

lemma insert_bytes_frame: "template_insert_bytes i off d = Inr i' \<Longrightarrow> same_outside off (length d) i i'"
  by (auto simp: template_insert_bytes_def memcpy_at_frame)

lemmas insert_defs =
  template_insert_u16_def template_insert_u32_def template_insert_u64_def
  template_insert_u16_bits_def template_insert_u32_bits_def template_insert_u64_bits_def

lemma insert_frames:
  "template_insert_u16 i off v16 = Inr i' \<Longrightarrow> same_outside off 8 i i'"
  "template_insert_u32 i off v32 = Inr i' \<Longrightarrow> same_outside off 8 i i'"
  "template_insert_u64 i off v64 = Inr i' \<Longrightarrow> same_outside off 8 i i'"
  "template_insert_u16_bits i off v16 m16 = Inr i' \<Longrightarrow> same_outside off 8 i i'"
  "template_insert_u32_bits i off v32 m32 = Inr i' \<Longrightarrow> same_outside off 8 i i'"
  "template_insert_u64_bits i off v64 m64 = Inr i' \<Longrightarrow> same_outside off 8 i i'"
  by (auto simp: insert_defs dest!: insert_bytes_frame insert_bits_frame elim: same_outside_mono)

lemma window_memcpy: "memcpy_at i off d = Inr i' \<Longrightarrow> window i' off (length d) = d"
  by (auto simp: memcpy_at_def window_def split: if_splits)

text \<open>Reading back a masked 32-bit insertion.\<close>

lemma length_window: "0 \<le> off \<Longrightarrow> off + int n \<le> int (length i) \<Longrightarrow> length (window i off n) = n"
  by (simp add: window_def)

lemma window_nth: "0 \<le> off \<Longrightarrow> off + int n \<le> int (length i) \<Longrightarrow> k < n \<Longrightarrow> window i off n ! k = i ! (nat off + k)"
  by (simp add: window_def)

lemma window_insert_bits:
  assumes "template_insert_bits i off d m = Inr i'" "length d = n" "length m = n" "k < n"
  shows "window i' off n ! k = (window i off n ! k AND NOT (m ! k)) OR (d ! k AND m ! k)"
  using assms by (auto simp: template_insert_bits_def window_nth insert_bits_loop_nth)

lemma read_insert_u32_bits:
  assumes "template_insert_u32_bits i off v m = Inr i'" "read_u32 i off = Inr w"
  shows "read_u32 i' off = Inr ((w AND NOT m) OR (v AND m))"
proof -
  have off: "0 \<le> off" "off + 4 \<le> int (length i)" and w: "w = le_word (window i off 4)"
    using assms(2) by (auto simp: read_u32_def split: if_splits)
  have len: "length i' = length i" using assms(1) insert_frames(5) by (auto simp: same_outside_def)
  have "(le_word (window i' off 4) :: u32) = (w AND NOT m) OR (v AND m)"
  proof (rule bit_word_eqI)
    fix j assume "j < LENGTH(32)"
    then have k: "j div 8 < 4" by simp
    have "bit (window i' off 4 ! (j div 8)) (j mod 8) \<longleftrightarrow>
        (bit (window i off 4 ! (j div 8)) (j mod 8) \<and> \<not> bit m j) \<or> (bit v j \<and> bit m j)"
      using window_insert_bits [OF assms(1) [unfolded template_insert_u32_bits_def], of 4 "j div 8"] k
      by (auto simp: bit_simps le_bytes_nth)
    then show "bit (le_word (window i' off 4) :: u32) j = bit ((w AND NOT m) OR (v AND m)) j"
      using off len \<open>j < LENGTH(32)\<close> by (auto simp: bit_le_word w bit_simps length_window)
  qed
  then show ?thesis using off len by (simp add: read_u32_def)
qed

lemma insert_u32_bits_ok:
  "read_u32 i off = Inr w \<Longrightarrow> \<exists>i'. template_insert_u32_bits i off v m = Inr i'"
  by (auto simp: read_u32_def template_insert_u32_bits_def template_insert_bits_def split: if_splits)

section \<open>The contract of a template filler\<close>

text \<open>\<open>code\<close> is the instance within the state of the loop.\<close>

locale template_filler =
  fixes is_null :: "'f \<Rightarrow> bool"
    and step :: "'f template_field_t \<Rightarrow> 's \<Rightarrow> 's res"
    and code :: "'s \<Rightarrow> template_instance_t"
    and width :: "'f \<Rightarrow> nat"
  assumes step_frame: "step f s = Inr s' \<Longrightarrow> same_outside (offset f) (width (field f)) (code s) (code s')"
begin

text \<open>Filling in a template changes no byte outside the windows of its fields.\<close>

lemma fields_loop_frame:
  assumes "fields_loop is_null step fs s = Inr s'" "k < length (code s)"
    and "\<And>f. f \<in> set fs \<Longrightarrow> \<not> is_null (field f) \<Longrightarrow> \<not> (offset f \<le> int k \<and> int k < offset f + int (width (field f)))"
  shows "length (code s') = length (code s) \<and> code s' ! k = code s ! k"
  using assms
proof (induction fs arbitrary: s)
  case Nil
  then show ?case by simp
next
  case (Cons f fs)
  show ?case
  proof (cases "is_null (field f)")
    case True
    then show ?thesis using Cons.prems by simp
  next
    case False
    then obtain t where t: "step f s = Inr t" "fields_loop is_null step fs t = Inr s'"
      using Cons.prems(1) by (auto simp: res_bind_eq_Inr)
    have "length (code t) = length (code s)" "code t ! k = code s ! k"
      using step_frame [OF t(1)] Cons.prems(2,3) False by (auto simp: same_outside_def)
    then show ?thesis using Cons.IH [OF t(2)] Cons.prems(2,3) by auto
  qed
qed

text \<open>The fields after the end marker are not used.\<close>

lemma fields_loop_append:
  "is_null (field f) \<Longrightarrow> fields_loop is_null step (fs @ f # gs) s = fields_loop is_null step (fs @ [f]) s"
  by (induction fs arbitrary: s) (auto simp: res_bind_def split: sum.splits)

end

end
