(* ===== verification/Bitops.thy ===== *)
theory Bitops
  imports Adbi_Prelude
begin

text \<open>
  Bit manipulation helpers of \<^verbatim>\<open>util/bitops.h\<close> on \<^verbatim>\<open>bitops_t\<close> (32 bits). The assertions on the
  arguments are the separate predicates \<open>bits_pre\<close>, \<open>sign_extend_pre\<close> and \<open>bit_mask_pre\<close>;
  callers that pass anything but literals assure them. A C shift by the width of the operand
  (\<open>get_bits_by_mask\<close> starts at bit 32) gives 0, as the register shifts of the target do.
\<close>

section \<open>Definitions\<close>

definition bits_pre :: "nat \<Rightarrow> nat \<Rightarrow> bool" where
  "bits_pre low high \<longleftrightarrow> low < 32 \<and> high < 32 \<and> low \<le> high"

definition bits :: "u32 \<Rightarrow> nat \<Rightarrow> nat \<Rightarrow> u32" where
  "bits value low high =
     (let bit_count = (1 + high - low) AND 31;
          m = push_bit bit_count 1 - 1
      in drop_bit low value AND m)"

definition bit_c :: "u32 \<Rightarrow> nat \<Rightarrow> u32" where
  "bit_c value n = bits value n n"

definition sign_extend_pre :: "nat \<Rightarrow> bool" where
  "sign_extend_pre msb \<longleftrightarrow> msb > 0"

definition sign_extend :: "u32 \<Rightarrow> nat \<Rightarrow> u32" where
  "sign_extend value msb =
     (let m = push_bit (msb - 1) 1;
          v = value AND (push_bit msb 1 - 1)
      in (v XOR m) - m)"

text \<open>The loop of \<^verbatim>\<open>bits_count\<close> clears the lowest set bit of \<open>value\<close> until it is zero.\<close>

lemma and_minus_one_less: "(w :: 'a::len word) \<noteq> 0 \<Longrightarrow> unat (w AND (w - 1)) < unat w"
proof -
  assume "w \<noteq> 0"
  then have "w - 1 < w" by (simp add: measure_unat word_less_nat_alt)
  moreover have "w AND (w - 1) \<le> w - 1" by (rule word_and_le1)
  ultimately show ?thesis by (simp add: word_less_nat_alt [symmetric])
qed

function bits_count_loop :: "u32 \<Rightarrow> u32 \<Rightarrow> u32" where
  "bits_count_loop c value =
     (if value = 0 then c else bits_count_loop (c + 1) (value AND (value - 1)))"
  by pat_completeness auto
termination
  by (relation "measure (\<lambda>(c, v). unat v)") (auto simp: and_minus_one_less)

definition bits_count :: "u32 \<Rightarrow> u32" where
  "bits_count value = bits_count_loop 0 value"

text \<open>\<^verbatim>\<open>while (value >>= 1) ++c\<close>.\<close>

lemma drop_bit_one_less: "drop_bit (Suc 0) (w :: 'a::len word) \<noteq> 0 \<Longrightarrow> unat (drop_bit (Suc 0) w) < unat w"
proof -
  assume "drop_bit (Suc 0) w \<noteq> 0"
  then have "w \<noteq> 0" by auto
  then have "0 < unat w" by (simp add: unat_gt_0)
  then show ?thesis by (simp add: unat_div drop_bit_Suc)
qed

function get_msb_loop :: "u32 \<Rightarrow> u32 \<Rightarrow> u32" where
  "get_msb_loop c value =
     (let value' = drop_bit (Suc 0) value
      in if value' \<noteq> 0 then get_msb_loop (c + 1) value' else c)"
  by pat_completeness auto
termination
  by (relation "measure (\<lambda>(c, v). unat v)") (auto simp: drop_bit_one_less)

definition get_msb :: "u32 \<Rightarrow> u32" where
  "get_msb value = get_msb_loop 0 value"

text \<open>
  One iteration of \<^verbatim>\<open>get_bits_by_mask\<close> at bit \<open>sh\<close>, and the loop from \<open>sh\<close> down to 0.
\<close>

definition get_bits_step :: "u32 \<Rightarrow> u32 \<Rightarrow> nat \<Rightarrow> u32 \<Rightarrow> u32" where
  "get_bits_step val m sh ret =
     (if m AND push_bit sh 1 \<noteq> 0
      then push_bit 1 ret OR (if val AND push_bit sh 1 \<noteq> 0 then 1 else 0)
      else ret)"

primrec get_bits_loop :: "u32 \<Rightarrow> u32 \<Rightarrow> nat \<Rightarrow> u32 \<Rightarrow> u32" where
  "get_bits_loop val m 0 ret = get_bits_step val m 0 ret"
| "get_bits_loop val m (Suc sh) ret = get_bits_loop val m sh (get_bits_step val m (Suc sh) ret)"

definition get_bits_by_mask :: "u32 \<Rightarrow> u32 \<Rightarrow> u32" where
  "get_bits_by_mask val m = get_bits_loop val m 32 0"

text \<open>
  \<^verbatim>\<open>set_bits_by_mask\<close> runs until \<open>val\<close> is used up; with fewer bits in the mask than \<open>val\<close> has it
  never stops, which is the value \<open>None\<close>.
\<close>

partial_function (option) set_bits_loop :: "u32 \<Rightarrow> nat \<Rightarrow> u32 \<Rightarrow> u32 \<Rightarrow> u32 option" where
  "set_bits_loop m sh val ret =
     (if val = 0 then Some ret
      else if m AND push_bit sh 1 \<noteq> 0
      then set_bits_loop m (Suc sh) (drop_bit 1 val) (ret OR push_bit sh (val AND 1))
      else set_bits_loop m (Suc sh) val ret)"

definition set_bits_by_mask :: "u32 \<Rightarrow> u32 \<Rightarrow> u32 option" where
  "set_bits_by_mask val m = set_bits_loop m 0 val 0"

definition bit_mask_pre :: "nat \<Rightarrow> nat \<Rightarrow> bool" where
  "bit_mask_pre low high \<longleftrightarrow> low \<le> high"

definition bit_mask :: "nat \<Rightarrow> nat \<Rightarrow> u32" where
  "bit_mask low high = push_bit low (push_bit (high - low + 1) 1 - 1)"

section \<open>Bit-level characterisations\<close>

lemma bits_eq:
  "bits v l h = drop_bit l v AND mask ((1 + h - l) mod 32)"
proof -
  have "(1 + h - l) AND 31 = (1 + h - l) mod 32"
    using take_bit_eq_mask [of 5 "1 + h - l"] by (simp add: mask_eq_exp_minus_1 take_bit_eq_mod)
  then show ?thesis by (simp add: bits_def Let_def exp_minus_one_eq_mask)
qed

lemma bit_bits [word_bits]:
  assumes "l \<le> h" "h - l < 31"
  shows "bit (bits v l h) i \<longleftrightarrow> i \<le> h - l \<and> bit v (l + i)"
proof -
  have "(1 + h - l) mod 32 = Suc (h - l)" using assms by simp
  then show ?thesis
    by (auto simp: bits_eq bit_simps dest: bit_imp_le_length)
qed


lemma bits_less: "l \<le> h \<Longrightarrow> h - l < 31 \<Longrightarrow> unat (bits v l h) < 2 ^ Suc (h - l)"
  using take_bit_nat_less_exp [of "Suc (h - l)" "unat (drop_bit l v)"]
  by (simp add: bits_eq take_bit_eq_mask [symmetric] unsigned_take_bit_eq Suc_diff_le del: power_Suc)

lemma bit_bit_c [word_bits]: "bit (bit_c v n) i \<longleftrightarrow> i = 0 \<and> bit v n"
  by (auto simp: bit_c_def bit_bits)

lemma bit_c_eq: "bit_c v n = (if bit v n then 1 else 0)"
  by (rule bit_word_eqI) (auto simp: bit_bit_c bit_simps)

lemma bit_c_eq_0_iff [simp]: "bit_c v n = 0 \<longleftrightarrow> \<not> bit v n"
  by (simp add: bit_c_eq)

lemma bit_bit_mask [word_bits]:
  "bit (bit_mask l h) i \<longleftrightarrow> l \<le> i \<and> i \<le> l + (h - l) \<and> i < 32"
  using exp_minus_one_eq_mask [where 'a = 32, of "Suc (h - l)"]
  by (auto simp: bit_mask_def bit_simps)

text \<open>\<^verbatim>\<open>sign_extend\<close> is two's complement sign extension from \<open>msb\<close> bits.\<close>

lemma sign_extend_eq:
  assumes "0 < n" "n < 32"
  shows "sign_extend v n = signed_take_bit (n - 1) v"
proof -
  define k where "k = n - 1"
  then have n: "n = Suc k" "k < 32" using assms by auto
  let ?t = "take_bit k v"
  have v: "v AND mask n = (if bit v k then ?t OR 2 ^ k else ?t)"
    by (rule bit_word_eqI) (use n in \<open>auto simp: bit_simps less_Suc_eq\<close>)
  have t: "\<not> bit ?t k" by (simp add: bit_simps)
  have "sign_extend v n = (v AND mask n XOR 2 ^ k) - 2 ^ k"
    using exp_minus_one_eq_mask [where 'a = 32, of n] n by (simp add: sign_extend_def Let_def)
  also have "\<dots> = signed_take_bit k v"
  proof (cases "bit v k")
    case True
    have "(?t OR 2 ^ k) XOR 2 ^ k = ?t"
      by (rule bit_word_eqI) (use t in \<open>auto simp: bit_simps\<close>)
    moreover have "?t - 2 ^ k = ?t + NOT (mask k)"
      by (simp add: minus_exp_eq_not_mask [symmetric])
    moreover have "?t + NOT (mask k) = ?t OR NOT (mask k)"
      by (rule disjunctive_add) (auto simp: bit_simps)
    ultimately show ?thesis
      using True v by (simp add: signed_take_bit_eq_if_negative)
  next
    case False
    have "?t XOR 2 ^ k = ?t + 2 ^ k"
      using t by (simp add: disjunctive_add_eq_xor)
    then show ?thesis
      using False v by (simp add: signed_take_bit_eq_if_positive)
  qed
  finally show ?thesis by (simp add: n)
qed

section \<open>Counting bits\<close>

text \<open>Clearing the lowest set bit: \<open>w AND (w - 1)\<close> removes exactly the least bit of \<open>w\<close>.\<close>

lemma and_minus_one_bits:
  fixes w :: "'a::len word"
  assumes "bit w k" "\<And>j. j < k \<Longrightarrow> \<not> bit w j"
  shows "bit (w AND (w - 1)) i \<longleftrightarrow> bit w i \<and> i \<noteq> k"
proof -
  let ?u = "w AND NOT (2 ^ k)"
  have k: "k < LENGTH('a)" using assms(1) by (rule bit_imp_le_length)
  have u: "bit ?u j \<longleftrightarrow> bit w j \<and> j \<noteq> k" for j
    using k by (auto simp: bit_simps dest: bit_imp_le_length)
  have "w = ?u OR 2 ^ k"
    by (rule bit_word_eqI) (use assms(1) in \<open>auto simp: bit_simps\<close>)
  also have "\<dots> = ?u + 2 ^ k"
    by (rule disjunctive_add_eq_or [symmetric]) (simp add: and.assoc)
  finally have "w - 1 = ?u + (2 ^ k - 1)" by (simp add: algebra_simps)
  also have "\<dots> = ?u + mask k" by (simp add: mask_eq_decr_exp)
  also have "\<dots> = ?u OR mask k"
  proof (rule disjunctive_add_eq_or, rule bit_word_eqI)
    fix j show "bit (?u AND mask k) j = bit (0 :: 'a word) j"
      using assms(2) by (auto simp: bit_and_iff bit_mask_iff u)
  qed
  finally have "w - 1 = ?u OR mask k" .
  then show ?thesis
    using assms(2) u [of i] by (auto simp: bit_and_iff bit_or_iff bit_mask_iff dest: bit_imp_le_length)
qed

lemma card_bits_and_minus_one:
  fixes w :: "'a::len word"
  assumes "w \<noteq> 0"
  shows "card {i. bit w i} = Suc (card {i. bit (w AND (w - 1)) i})"
proof -
  have fin: "finite {i. bit w i}"
    by (rule finite_subset [of _ "{..<LENGTH('a)}"]) (auto dest: bit_imp_le_length)
  from assms obtain j where "bit w j" by (auto simp: bit_eq_iff)
  define k where "k = (LEAST j. bit w j)"
  have k: "bit w k" unfolding k_def using \<open>bit w j\<close> by (rule LeastI)
  have least: "\<And>j. j < k \<Longrightarrow> \<not> bit w j" unfolding k_def by (rule not_less_Least)
  have "{i. bit (w AND (w - 1)) i} = {i. bit w i} - {k}"
    using and_minus_one_bits [OF k least] by auto
  then show ?thesis using fin k card_Suc_Diff1 [of "{i. bit w i}" k] by simp
qed

lemma bits_count_loop_eq: "bits_count_loop c v = c + of_nat (card {i. bit v i})"
proof (induction c v rule: bits_count_loop.induct)
  case (1 c v)
  show ?case
  proof (cases "v = 0")
    case True
    then show ?thesis by simp
  next
    case False
    with 1 show ?thesis
      by (simp add: bits_count_loop.simps [of c v] card_bits_and_minus_one del: bits_count_loop.simps)
  qed
qed

declare bits_count_loop.simps [simp del] get_msb_loop.simps [simp del]

lemma bits_count_eq_card: "bits_count v = of_nat (card {i. bit v i})"
  by (simp add: bits_count_def bits_count_loop_eq)

lemma card_bits_le: "card {i. bit (v :: u32) i} \<le> 32"
proof -
  have "{i. bit v i} \<subseteq> {..<32}" by (auto dest: bit_imp_le_length)
  then have "card {i. bit v i} \<le> card {..<32::nat}" by (intro card_mono) auto
  then show ?thesis by simp
qed

lemma unat_bits_count: "unat (bits_count v) = card {i. bit v i}"
proof -
  have "card {i. bit v i} < 2 ^ LENGTH(32)" using card_bits_le [of v] by simp
  then show ?thesis by (simp add: bits_count_eq_card unat_of_nat)
qed

section \<open>Collecting and scattering bits\<close>

text \<open>The bits of \<open>v\<close> at the positions \<open>\<ge> k\<close> of the mask, packed together.\<close>

function collected :: "u32 \<Rightarrow> u32 \<Rightarrow> nat \<Rightarrow> nat" where
  "collected v m k =
     (if 32 \<le> k then 0
      else if bit m k then 2 * collected v m (Suc k) + of_bool (bit v k)
      else collected v m (Suc k))"
  by pat_completeness auto
termination
  by (relation "measure (\<lambda>(v, m, k). 32 - k)") auto

declare collected.simps [simp del]

lemma collected_top [simp]: "32 \<le> k \<Longrightarrow> collected v m k = 0"
  by (simp add: collected.simps)

lemma collected_in: "k < 32 \<Longrightarrow> bit m k \<Longrightarrow>
    collected v m k = 2 * collected v m (Suc k) + of_bool (bit v k)"
  by (simp add: collected.simps [of v m k])

lemma collected_out: "\<not> bit m k \<Longrightarrow> collected v m k = collected v m (Suc k)"
  by (cases "k < 32") (simp_all add: collected.simps [of v m k])

lemma collected_less: "collected v m k < 2 ^ (32 - k)"
proof (induction v m k rule: collected.induct)
  case (1 v m k)
  show ?case
  proof (cases "k < 32")
    case False
    then show ?thesis by simp
  next
    case True
    then have "32 - k = Suc (32 - Suc k)" by simp
    with 1 True show ?thesis
      by (cases "bit m k") (auto simp: collected_in collected_out)
  qed
qed

lemma collected_eq_0: "collected v m k = 0 \<Longrightarrow> k \<le> i \<Longrightarrow> bit m i \<Longrightarrow> \<not> bit v i"
proof (induction v m k arbitrary: i rule: collected.induct)
  case (1 v m k)
  have i: "i < 32" using \<open>bit m i\<close> bit_imp_le_length [of m i] by simp
  with 1(4) have k: "\<not> 32 \<le> k" by simp
  show ?case
  proof (cases "bit m k")
    case True
    with 1(3) k have z: "collected v m (Suc k) = 0" "\<not> bit v k"
      by (auto simp: collected_in)
    then show ?thesis using "1.IH"(1) [OF k True z(1)] 1(4,5) by (cases "i = k") auto
  next
    case False
    with 1(3) have "collected v m (Suc k) = 0" by (simp add: collected_out)
    moreover have "i \<noteq> k" using False 1(5) by auto
    ultimately show ?thesis using "1.IH"(2) [OF k False] 1(4,5) by simp
  qed
qed

lemma get_bits_step_collected:
  assumes "k < 32"
  shows "get_bits_step v m k (of_nat (collected v m (Suc k))) = of_nat (collected v m k)"
proof (cases "bit m k")
  case True
  have "push_bit 1 (w :: u32) OR (if b then 1 else 0) = 2 * w + of_bool b" for w b
  proof -
    have "(push_bit 1 w) AND (if b then 1 else 0) = 0"
      by (rule bit_word_eqI) (auto simp: bit_simps simp del: push_bit_of_Suc_0 push_bit_Suc)
    then have "push_bit 1 w OR (if b then 1 else 0) = push_bit 1 w + (if b then 1 else 0)"
      by (rule disjunctive_add_eq_or [symmetric])
    then show ?thesis by simp
  qed
  then show ?thesis using True assms by (simp add: get_bits_step_def collected_in)
next
  case False
  then show ?thesis by (simp add: get_bits_step_def collected_out)
qed

lemma get_bits_loop_collected:
  "k < 32 \<Longrightarrow> get_bits_loop v m k (of_nat (collected v m (Suc k))) = of_nat (collected v m 0)"
proof (induction k)
  case 0
  then show ?case using get_bits_step_collected [of 0 v m] by simp
next
  case (Suc k)
  then show ?case using get_bits_step_collected [of "Suc k" v m] by simp
qed

lemma get_bits_by_mask_collected: "get_bits_by_mask v m = of_nat (collected v m 0)"
proof -
  have "get_bits_step v m 32 0 = 0"
    using bit_imp_le_length [of m 32] by (auto simp: get_bits_step_def simp del: push_bit_of_1)
  then have "get_bits_by_mask v m = get_bits_loop v m 31 0"
    by (simp add: get_bits_by_mask_def numeral_eq_Suc)
  then show ?thesis using get_bits_loop_collected [of 31 v m] by simp
qed

lemma set_bits_loop_collected:
  "k \<le> 32 \<Longrightarrow> set_bits_loop m k (of_nat (collected v m k)) ret = Some (ret OR (v AND m AND NOT (mask k)))"
proof (induction v m k arbitrary: ret rule: collected.induct)
  case (1 v m k)
  let ?c = "collected v m k"
  have lt: "?c < 2 ^ 32" using collected_less [of v m k] power_increasing [of "32 - k" 32 "2::nat"] by linarith
  show ?case
  proof (cases "?c = 0")
    case True
    have "bit m i \<Longrightarrow> bit v i \<Longrightarrow> i < k" for i
      using collected_eq_0 [OF True] leI by blast
    then have "v AND m AND NOT (mask k) = 0"
      by (intro bit_word_eqI) (auto simp: bit_simps)
    with True show ?thesis by (simp add: set_bits_loop.simps)
  next
    case False
    then have k: "\<not> 32 \<le> k" using collected_top [of k v m] by linarith
    have nz: "(of_nat ?c :: u32) \<noteq> 0"
      using False lt by (simp add: word_of_nat_eq_0_iff nat_dvd_not_less)
    show ?thesis
    proof (cases "bit m k")
      case True
      let ?c' = "collected v m (Suc k)"
      have c: "?c = 2 * ?c' + of_bool (bit v k)" using k True by (simp add: collected_in)
      have drop: "drop_bit 1 (of_nat ?c :: u32) = of_nat ?c'"
      proof (rule unsigned_word_eqI)
        have lt': "?c' < 2 ^ 32" using lt c by linarith
        have "unat (drop_bit 1 (of_nat ?c :: u32)) = ?c div 2"
          using lt by (simp add: unat_div drop_bit_Suc unat_of_nat)
        also have "\<dots> = ?c'" using c by simp
        finally show "unat (drop_bit 1 (of_nat ?c :: u32)) = unat (of_nat ?c' :: u32)"
          using lt' by (simp add: unat_of_nat)
      qed
      have low: "(of_nat ?c :: u32) AND 1 = of_bool (bit v k)"
        using c by (simp add: and_one_eq mod_2_eq_odd)
      have "set_bits_loop m k (of_nat ?c) ret =
          set_bits_loop m (Suc k) (of_nat ?c') (ret OR push_bit k (of_bool (bit v k)))"
        using nz True by (subst set_bits_loop.simps) (simp add: drop [unfolded One_nat_def] low)
      also have "\<dots> = Some (ret OR push_bit k (of_bool (bit v k)) OR (v AND m AND NOT (mask (Suc k))))"
        using "1.IH"(1) [OF k True] k by (simp add: or.assoc)
      also have "ret OR push_bit k (of_bool (bit v k)) OR (v AND m AND NOT (mask (Suc k)))
          = ret OR (v AND m AND NOT (mask k))"
        by (rule bit_word_eqI) (use True in \<open>auto simp: bit_simps less_Suc_eq\<close>)
      finally show ?thesis .
    next
      case False
      have "set_bits_loop m k (of_nat ?c) ret = set_bits_loop m (Suc k) (of_nat (collected v m (Suc k))) ret"
        using nz False by (subst set_bits_loop.simps) (simp add: collected_out)
      also have "\<dots> = Some (ret OR (v AND m AND NOT (mask (Suc k))))"
        using "1.IH"(2) [OF k False] k by simp
      also have "ret OR (v AND m AND NOT (mask (Suc k))) = ret OR (v AND m AND NOT (mask k))"
        by (rule bit_word_eqI) (use False in \<open>auto simp: bit_simps less_Suc_eq\<close>)
      finally show ?thesis .
    qed
  qed
qed

text \<open>
  Scattering inverts collecting: the round trip through a mask keeps exactly the masked bits.
\<close>

lemma set_get_bits_by_mask:
  "set_bits_by_mask (get_bits_by_mask v m) m = Some (v AND m)"
  using set_bits_loop_collected [of 0 m v 0]
  by (simp add: set_bits_by_mask_def get_bits_by_mask_collected)

lemma collected_cong:
  "(\<And>i. k \<le> i \<Longrightarrow> bit m i \<Longrightarrow> bit v i = bit w i) \<Longrightarrow> collected v m k = collected w m k"
proof (induction v m k rule: collected.induct)
  case (1 v m k)
  then show ?case
    by (cases "32 \<le> k"; cases "bit m k") (auto simp: collected_in collected_out)
qed

lemma collected_surj:
  "x < 2 ^ card {i. k \<le> i \<and> bit m i} \<Longrightarrow> \<exists>v. collected v m k = x"
proof (induction v \<equiv> "0 :: u32" m k arbitrary: x rule: collected.induct)
  case (1 m k)
  have fin: "finite {i. j \<le> i \<and> bit m i}" for j
    by (rule finite_subset [of _ "{..<32}"]) (auto dest: bit_imp_le_length)
  show ?case
  proof (cases "32 \<le> k")
    case True
    then have none: "{i. k \<le> i \<and> bit m i} = {}" by (auto dest: bit_imp_le_length)
    have "x = 0" using "1.prems" unfolding none by simp
    then show ?thesis using True by auto
  next
    case k: False
    show ?thesis
    proof (cases "bit m k")
      case True
      have "{i. k \<le> i \<and> bit m i} = insert k {i. Suc k \<le> i \<and> bit m i}" using True by auto
      then have "card {i. k \<le> i \<and> bit m i} = Suc (card {i. Suc k \<le> i \<and> bit m i})"
        using fin [of "Suc k"] by simp
      with "1.prems" have "x div 2 < 2 ^ card {i. Suc k \<le> i \<and> bit m i}" by auto
      then obtain v where v: "collected v m (Suc k) = x div 2" using "1.hyps"(1) [OF k True] by blast
      define w where "w = (if odd x then set_bit k v else unset_bit k v)"
      have "collected w m (Suc k) = collected v m (Suc k)"
        by (rule collected_cong) (simp add: w_def bit_simps)
      moreover have "bit w k \<longleftrightarrow> odd x" using k by (simp add: w_def bit_simps)
      ultimately have "collected w m k = x" using k True v by (auto simp: collected_in)
      then show ?thesis by blast
    next
      case False
      have "{i. k \<le> i \<and> bit m i} = {i. Suc k \<le> i \<and> bit m i}"
        using False le_eq_less_or_eq by (auto simp: Suc_le_eq)
      with "1.prems" obtain v where "collected v m (Suc k) = x" using "1.hyps"(2) [OF k False] by auto
      then show ?thesis using False by (auto simp: collected_out)
    qed
  qed
qed

text \<open>
  A value that fits into the mask is scattered into the mask bits only, and collecting it again
  returns it; in particular the loop stops.
\<close>

lemma set_bits_by_mask_fits:
  assumes "unat x < 2 ^ card {i. bit m i}"
  shows "\<exists>r. set_bits_by_mask x m = Some r \<and> r AND NOT m = 0 \<and> get_bits_by_mask r m = x"
proof -
  obtain v where v: "collected v m 0 = unat x" using collected_surj [of "unat x" 0 m] assms by auto
  then have get: "get_bits_by_mask v m = x" by (simp add: get_bits_by_mask_collected)
  have "collected (v AND m) m 0 = collected v m 0"
    by (rule collected_cong) (simp add: bit_simps)
  then have "get_bits_by_mask (v AND m) m = x" using get by (simp add: get_bits_by_mask_collected)
  moreover have "set_bits_by_mask x m = Some (v AND m)" using set_get_bits_by_mask [of v m] get by simp
  moreover have "(v AND m) AND NOT m = 0" by (simp add: and.assoc)
  ultimately show ?thesis by blast
qed

lemma collected_less_card: "collected v m k < 2 ^ card {i. k \<le> i \<and> bit m i}"
proof (induction v m k rule: collected.induct)
  case (1 v m k)
  have fin: "finite {i. j \<le> i \<and> bit m i}" for j
    by (rule finite_subset [of _ "{..<32}"]) (auto dest: bit_imp_le_length)
  show ?case
  proof (cases "32 \<le> k")
    case True
    then show ?thesis by simp
  next
    case k: False
    show ?thesis
    proof (cases "bit m k")
      case True
      have "{i. k \<le> i \<and> bit m i} = insert k {i. Suc k \<le> i \<and> bit m i}" using True by auto
      then have "card {i. k \<le> i \<and> bit m i} = Suc (card {i. Suc k \<le> i \<and> bit m i})"
        using fin [of "Suc k"] by simp
      with 1(1) [OF k True] k True show ?thesis by (auto simp: collected_in)
    next
      case False
      have "{i. k \<le> i \<and> bit m i} = {i. Suc k \<le> i \<and> bit m i}"
        using False le_eq_less_or_eq by (auto simp: Suc_le_eq)
      with 1(2) [OF k False] False show ?thesis by (simp add: collected_out)
    qed
  qed
qed

lemma unat_get_bits_by_mask: "unat (get_bits_by_mask v m) = collected v m 0"
proof -
  have "collected v m 0 < 2 ^ LENGTH(32)" using collected_less [of v m 0] by simp
  then show ?thesis by (simp add: get_bits_by_mask_collected unat_of_nat)
qed

lemma get_bits_by_mask_less: "unat (get_bits_by_mask v m) < 2 ^ card {i. bit m i}"
  using collected_less_card [of v m 0] by (simp add: unat_get_bits_by_mask)

end
