(* ===== verification/Match.thy ===== *)
theory Match
  imports Bitops
begin

text \<open>
  The instruction patterns of \<^verbatim>\<open>arch/arm/match.h\<close> (\<^verbatim>\<open>arch/arm64/match.h\<close> is the same file): a
  pattern is a string of the characters \<^verbatim>\<open>0\<close>, \<^verbatim>\<open>1\<close> and \<^verbatim>\<open>-\<close>, most significant bit first, and a
  value matches when it agrees with the pattern wherever the pattern is not \<^verbatim>\<open>-\<close>.
\<close>

section \<open>Definitions\<close>

definition match_get_bit :: "string \<Rightarrow> nat \<Rightarrow> char" where
  "match_get_bit pattern n =
     (if n < length pattern then pattern ! (length pattern - n - 1) else CHR ''-'')"

definition match_mask_bit :: "string \<Rightarrow> nat \<Rightarrow> u32" where
  "match_mask_bit pattern n = push_bit n (if match_get_bit pattern n \<noteq> CHR ''-'' then 1 else 0)"

definition match_mask :: "string \<Rightarrow> u32" where
  "match_mask pattern = foldr (\<lambda>n acc. match_mask_bit pattern n OR acc) [0..<32] 0"

definition match_val_bit :: "string \<Rightarrow> nat \<Rightarrow> u32" where
  "match_val_bit pattern n = push_bit n (if match_get_bit pattern n = CHR ''1'' then 1 else 0)"

definition match_val :: "string \<Rightarrow> u32" where
  "match_val pattern = foldr (\<lambda>n acc. match_val_bit pattern n OR acc) [0..<32] 0"

definition match :: "u32 \<Rightarrow> string \<Rightarrow> bool" where
  "match value pattern \<longleftrightarrow> value AND match_mask pattern = match_val pattern"

section \<open>Matching is agreement with the pattern\<close>

lemma bit_foldr_or:
  "bit (foldr (\<lambda>n acc. f n OR acc) ns (0 :: 'a::len word)) i \<longleftrightarrow> (\<exists>n \<in> set ns. bit (f n) i)"
  by (induction ns) (auto simp: bit_simps)

lemma bit_match_mask: "bit (match_mask p) i \<longleftrightarrow> i < 32 \<and> match_get_bit p i \<noteq> CHR ''-''"
  by (auto simp: match_mask_def bit_foldr_or match_mask_bit_def bit_simps split: if_splits)

lemma bit_match_val: "bit (match_val p) i \<longleftrightarrow> i < 32 \<and> match_get_bit p i = CHR ''1''"
  by (auto simp: match_val_def bit_foldr_or match_val_bit_def bit_simps split: if_splits)

lemma match_iff:
  "match v p \<longleftrightarrow> (\<forall>i < 32. match_get_bit p i \<noteq> CHR ''-'' \<longrightarrow> bit v i = (match_get_bit p i = CHR ''1''))"
  by (auto simp: match_def bit_eq_iff bit_simps bit_match_mask bit_match_val)

text \<open>The same, reading the pattern from its most significant character.\<close>

fun match_at :: "u32 \<Rightarrow> nat \<Rightarrow> string \<Rightarrow> bool" where
  "match_at v n [] = True"
| "match_at v n (c # cs) =
     ((c = CHR ''-'' \<or> bit v (n - 1) = (c = CHR ''1'')) \<and> match_at v (n - 1) cs)"

lemma match_at_iff:
  "n = length p \<Longrightarrow> match_at v n p \<longleftrightarrow>
     (\<forall>i < length p. match_get_bit p i \<noteq> CHR ''-'' \<longrightarrow> bit v i = (match_get_bit p i = CHR ''1''))"
proof (induction p arbitrary: n)
  case Nil
  then show ?case by simp
next
  case (Cons c cs)
  have hd: "match_get_bit (c # cs) (length cs) = c" by (simp add: match_get_bit_def)
  have tl: "i < length cs \<Longrightarrow> match_get_bit (c # cs) i = match_get_bit cs i" for i
    by (auto simp: match_get_bit_def nth_Cons' less_diff_conv)
  show ?case using Cons by (auto simp: hd tl less_Suc_eq)
qed

lemma match_eq_match_at:
  assumes "length p \<le> 32"
  shows "match v p \<longleftrightarrow> match_at v (length p) p"
proof -
  have "match_get_bit p i = CHR ''-''" if "\<not> i < length p" for i
    using that by (simp add: match_get_bit_def)
  then show ?thesis using assms by (auto simp: match_iff match_at_iff)
qed

lemma match_by_length:
  "length p = n \<Longrightarrow> n \<le> 32 \<Longrightarrow> match v p \<longleftrightarrow> match_at v n p"
  using match_eq_match_at by blast

text \<open>Rules that turn a literal pattern into the conjunction of the bits it fixes.\<close>

lemmas match_bits =
  match_by_length [where n = 2] match_by_length [where n = 3] match_by_length [where n = 4]
  match_by_length [where n = 5] match_by_length [where n = 6] match_by_length [where n = 7]
  match_by_length [where n = 16] match_by_length [where n = 32]

text \<open>Comparison of a bit field with a constant.\<close>

lemma bits_eq_iff:
  assumes "l \<le> h" "h - l < 31"
  shows "bits v l h = c \<longleftrightarrow>
    take_bit (1 + h - l) c = c \<and> (\<forall>i < 1 + h - l. bit v (l + i) = bit c i)"
proof -
  have "take_bit (Suc (h - l)) (bits v l h) = bits v l h"
    by (rule bit_word_eqI) (use assms in \<open>auto simp: bit_simps bit_bits\<close>)
  moreover have "take_bit (Suc (h - l)) (bits v l h) = take_bit (Suc (h - l)) c \<longleftrightarrow>
      (\<forall>i < Suc (h - l). bit v (l + i) = bit c i)"
  proof
    assume eq: "take_bit (Suc (h - l)) (bits v l h) = take_bit (Suc (h - l)) c"
    show "\<forall>i < Suc (h - l). bit v (l + i) = bit c i"
    proof (intro allI impI)
      fix i assume "i < Suc (h - l)"
      then show "bit v (l + i) = bit c i"
        using arg_cong [OF eq, of "\<lambda>w. bit w i"] assms by (simp add: bit_take_bit_iff bit_bits)
    qed
  next
    assume "\<forall>i < Suc (h - l). bit v (l + i) = bit c i"
    then show "take_bit (Suc (h - l)) (bits v l h) = take_bit (Suc (h - l)) c"
      by (intro bit_word_eqI) (use assms in \<open>auto simp: bit_take_bit_iff bit_bits\<close>)
  qed
  ultimately show ?thesis using assms by (metis Suc_diff_le plus_1_eq_Suc)
qed

fun field_agrees :: "u32 \<Rightarrow> nat \<Rightarrow> u32 \<Rightarrow> nat \<Rightarrow> bool" where
  "field_agrees v l c 0 = True"
| "field_agrees v l c (Suc n) = (bit v (l + n) = bit c n \<and> field_agrees v l c n)"

lemma field_agrees_iff: "field_agrees v l c n \<longleftrightarrow> (\<forall>i < n. bit v (l + i) = bit c i)"
  by (induction n) (auto simp: less_Suc_eq)

lemma field_agrees_numeral:
  "field_agrees v l c (numeral k) \<longleftrightarrow>
     bit v (l + pred_numeral k) = bit c (pred_numeral k) \<and> field_agrees v l c (pred_numeral k)"
  by (simp add: numeral_eq_Suc)

lemma bits_eq_field_agrees:
  "l \<le> h \<Longrightarrow> h - l < 31 \<Longrightarrow>
     bits v l h = c \<longleftrightarrow> take_bit (1 + h - l) c = c \<and> field_agrees v l c (1 + h - l)"
  by (simp only: bits_eq_iff field_agrees_iff)

lemmas field_bits = bits_eq_field_agrees field_agrees_numeral

end
