(* ===== verification/Arch_Arm.thy ===== *)
theory Arch_Arm
  imports Match
begin

text \<open>
  The 32-bit ARM layer of \<^verbatim>\<open>arch/arm/include/arch.h\<close>: instruction kinds, halfword handling of
  Thumb-2, alignment, the range check and the encoding of the relative branch that the server
  writes over a traced instruction. \<^verbatim>\<open>address_t\<close> is \<^verbatim>\<open>unsigned long\<close> and \<^verbatim>\<open>offset_t\<close> is \<^verbatim>\<open>off_t\<close>,
  both 32 bits wide on this target; an offset is read with \<open>sint\<close> where the C code compares it.
\<close>

section \<open>Definitions\<close>

type_synonym address32 = "32 word"

datatype insn_kind_t = INSN_KIND_THUMB | INSN_KIND_THUMB2 | INSN_KIND_ARM

definition BREAKPOINT_INSN_ARM :: insn_t where "BREAKPOINT_INSN_ARM = 0xe1200070"
definition BREAKPOINT_INSN_THUMB :: insn_t where "BREAKPOINT_INSN_THUMB = 0xde00"
definition BREAKPOINT_INSN_THUMB2 :: insn_t where "BREAKPOINT_INSN_THUMB2 = 0xf7f0a000"
definition BRANCH_INSN_ARM :: insn_t where "BRANCH_INSN_ARM = 0xea000000"
definition BRANCH_INSN_THUMB :: insn_t where "BRANCH_INSN_THUMB = 0xe000"
definition BRANCH_INSN_THUMB2 :: insn_t where "BRANCH_INSN_THUMB2 = 0xf0009000"

definition is_thumb2_halfword :: "insn_t \<Rightarrow> bool res" where
  "is_thumb2_halfword insn = adbi_assure (insn \<le> 0xffff) (Inr (insn AND 0xf800 \<ge> 0xe800))"

definition thumb2_first_halfowrd :: "insn_t \<Rightarrow> insn_t" where
  "thumb2_first_halfowrd insn = drop_bit 16 insn"

definition thumb2_last_halfowrd :: "insn_t \<Rightarrow> insn_t" where
  "thumb2_last_halfowrd insn = insn AND 0xffff"

definition thumb2_swap_halfwords :: "insn_t \<Rightarrow> insn_t" where
  "thumb2_swap_halfwords insn = push_bit 16 (insn AND 0xffff) OR drop_bit 16 insn"

definition get_breakpoint_insn :: "insn_kind_t \<Rightarrow> insn_t" where
  "get_breakpoint_insn kind =
     (case kind of INSN_KIND_ARM \<Rightarrow> BREAKPOINT_INSN_ARM
      | INSN_KIND_THUMB \<Rightarrow> BREAKPOINT_INSN_THUMB
      | INSN_KIND_THUMB2 \<Rightarrow> BREAKPOINT_INSN_THUMB2)"

definition arm_pc_to_address :: "insn_kind_t \<Rightarrow> address32 \<Rightarrow> address32" where
  "arm_pc_to_address kind addr = (if kind = INSN_KIND_ARM then addr - 8 else addr - 4)"

definition arm_address_to_pc :: "insn_kind_t \<Rightarrow> address32 \<Rightarrow> address32" where
  "arm_address_to_pc kind addr = (if kind = INSN_KIND_ARM then addr + 8 else addr + 4)"

definition arm_check_relative_jump_kind :: "insn_kind_t \<Rightarrow> address32 \<Rightarrow> address32 \<Rightarrow> bool" where
  "arm_check_relative_jump_kind kind addr0 dest =
     (let addr = arm_address_to_pc kind addr0;
          distance = (if addr < dest then dest - addr else addr - dest)
      in if distance > 33554432 then False
         else let jump = sint (dest - addr)
              in case kind of
                   INSN_KIND_ARM \<Rightarrow> -33554432 \<le> jump \<and> jump \<le> 33554428
                 | INSN_KIND_THUMB \<Rightarrow> -2048 \<le> jump \<and> jump \<le> 2046
                 | INSN_KIND_THUMB2 \<Rightarrow> -16777216 \<le> jump \<and> jump \<le> 16777214)"

definition arch_check_relative_jump :: "address32 \<Rightarrow> address32 \<Rightarrow> bool" where
  "arch_check_relative_jump addr dest = arm_check_relative_jump_kind INSN_KIND_ARM addr dest"

definition thumb2_branch :: "32 word \<Rightarrow> insn_t" where
  "thumb2_branch jump =
     (let S = jump AND 0x01000000 \<noteq> 0;
          I1 = jump AND 0x00800000 \<noteq> 0;
          I2 = jump AND 0x00400000 \<noteq> 0;
          J1 = (I1 = S);
          J2 = (I2 = S);
          imm10 = push_bit 4 (jump AND 0x003ff000);
          imm11 = drop_bit 1 (jump AND 0xffe)
      in BRANCH_INSN_THUMB2 OR push_bit 26 (of_cond S) OR imm10 OR push_bit 13 (of_cond J1)
         OR push_bit 11 (of_cond J2) OR imm11)"

definition arm_get_relative_jump_insn :: "insn_kind_t \<Rightarrow> address32 \<Rightarrow> address32 \<Rightarrow> insn_t res" where
  "arm_get_relative_jump_insn kind addr0 dest =
     (let addr = arm_address_to_pc kind addr0
      in adbi_assure ((if addr < dest then dest - addr else addr - dest) \<le> 33554432)
           (let jump = dest - addr
            in Inr (case kind of
                 INSN_KIND_ARM \<Rightarrow> BRANCH_INSN_ARM OR (signed_drop_bit 2 jump AND 0xffffff)
               | INSN_KIND_THUMB \<Rightarrow> BRANCH_INSN_THUMB OR (signed_drop_bit 1 jump AND 0x7ff)
               | INSN_KIND_THUMB2 \<Rightarrow> thumb2_branch jump)))"

text \<open>
  \<^verbatim>\<open>arm_check_insn\<close> returns its flag and may correct the kind; \<open>None\<close> is the return value 0.
\<close>

definition arm_check_insn :: "insn_t \<Rightarrow> insn_kind_t \<Rightarrow> insn_kind_t option res" where
  "arm_check_insn insn kind =
     (case kind of
        INSN_KIND_ARM \<Rightarrow> Inr (Some kind)
      | _ \<Rightarrow>
          if insn < 0xe800 then Inr (Some INSN_KIND_THUMB)
          else res_bind (is_thumb2_halfword (thumb2_first_halfowrd insn))
                 (\<lambda>b. Inr (if b then Some INSN_KIND_THUMB2 else None)))"

definition arm_align_bits :: "insn_kind_t \<Rightarrow> address32" where
  "arm_align_bits kind =
     (case kind of INSN_KIND_ARM \<Rightarrow> 0x03 | INSN_KIND_THUMB2 \<Rightarrow> 0x01 | INSN_KIND_THUMB \<Rightarrow> 0x01)"

definition arm_check_align :: "address32 \<Rightarrow> insn_kind_t \<Rightarrow> bool" where
  "arm_check_align address kind \<longleftrightarrow> address AND arm_align_bits kind = 0"

definition arm_align_address_kind :: "address32 \<Rightarrow> insn_kind_t \<Rightarrow> address32" where
  "arm_align_address_kind address kind = address AND NOT (arm_align_bits kind)"

definition arm_detect_kind_from_unaligned_address :: "address32 \<Rightarrow> insn_kind_t" where
  "arm_detect_kind_from_unaligned_address address =
     (if address AND 0x1 \<noteq> 0 then INSN_KIND_THUMB else INSN_KIND_ARM)"

section \<open>Halfwords\<close>

lemma mask_numerals:
  "(0xffff :: 32 word) = mask 16" "(0xffffff :: 32 word) = mask 24" "(0x7ff :: 32 word) = mask 11"
  "(0xff :: 32 word) = mask 8"
  by (simp_all add: mask_eq_exp_minus_1)

lemma first_halfword_le: "thumb2_first_halfowrd insn \<le> 0xffff"
proof -
  have "unat (drop_bit 16 insn) = unat insn div 2 ^ 16"
    by (simp add: unat_div drop_bit_eq_div)
  then show ?thesis
    using unsigned_less [of insn, where 'a = nat] by (simp add: thumb2_first_halfowrd_def word_le_nat_alt)
qed

lemma swap_halfwords_swap: "thumb2_swap_halfwords (thumb2_swap_halfwords insn) = insn"
  by (rule bit_word_eqI)
    (auto simp: thumb2_swap_halfwords_def mask_numerals bit_simps)

section \<open>Signed ranges and sign bits\<close>

lemma bit_signed_range:
  fixes w :: "'a::len word"
  assumes "- (2 ^ n) \<le> sint w" "sint w < 2 ^ n" "n \<le> i" "i < LENGTH('a)"
  shows "bit w i = bit w (LENGTH('a) - 1)"
proof -
  have "signed_take_bit n (sint w) = sint w"
    using assms(1,2) by (simp add: signed_take_bit_int_eq_self)
  then have "bit (sint w) i = bit (sint w) (LENGTH('a) - 1)"
    using assms(3,4) by (metis bit_signed_take_bit_iff le_trans min_def nat_le_linear possible_bit_int
        One_nat_def Suc_pred' diff_le_self len_gt_0 less_Suc_eq_le)
  then show ?thesis using assms(4) by (simp add: bit_sint_iff)
qed

end
