(* ===== verification/Select_Arm.thy ===== *)
theory Select_Arm
  imports Arch_Arm
begin

text \<open>
  Choice of the trampoline template for an ARM (A32) instruction, \<^verbatim>\<open>arch/arm/template_select_arm.c\<close>.
  A template is named by the constructor of the object the C code returns the address of
  (\<^verbatim>\<open>&template_arm_generic\<close> is \<open>Arm_generic\<close>), \<open>None\<close> is a \<^verbatim>\<open>NULL\<close> result: the instruction cannot be
  traced. The generic template runs a copy of the traced instruction inside the trampoline, so
  it is right only for instructions that do not read the program counter.
\<close>

section \<open>Definitions\<close>

datatype arm_template =
    Arm_generic | Arm_dp_rd_rm | Arm_dp_rd_rn | Arm_dp_rd_rn_rm | Arm_dp_rm | Arm_dp_rm2
  | Arm_dp_rn | Arm_dp_rn2 | Arm_dp_rn_rm | Arm_dp_rn_rm2
  | B_a1 | Bl_imm_a1 | Blx_imm_a2 | Blx_reg_a1
  | Thumb_generic | Thumb2_generic | Thumb_nop | Adr_t1 | Adr_t2 | Adr_t3 | Ldr_lit_t1 | Ldr_lit_t2
  | B_t1 | B_t2 | B_t3 | B_t4 | Bl_t1 | Blx_t2 | Blx_reg_t1 | Cbz_t1

type_synonym selection = "arm_template option"

definition is_pc :: "insn_t \<Rightarrow> bool" where
  "is_pc r \<longleftrightarrow> r = 0xf"

definition reg :: "insn_t \<Rightarrow> nat \<Rightarrow> insn_t" where
  "reg insn a = bits insn a (a + 3)"

definition decode_arm_dataproc :: "insn_t \<Rightarrow> selection" where
  "decode_arm_dataproc insn =
     (let opcode = bits insn 21 24;
          rd = reg insn 12;
          rn = reg insn 16;
          rm = reg insn 0;
          uses_rd = (opcode \<notin> {0b1000, 0b1001, 0b1010, 0b1011});
          uses_rn = (opcode \<notin> {0b1101, 0b1111});
          immediate = (bit_c insn 25 \<noteq> 0)
      in if immediate then
           (if \<not> uses_rn then Some Arm_generic
            else if \<not> is_pc rn then Some Arm_generic
            else if \<not> uses_rd then Some Arm_dp_rn2
            else if is_pc rd then Some Arm_dp_rd_rn
            else Some Arm_dp_rn)
         else if \<not> uses_rn then
           (if is_pc rm then (if is_pc rd then Some Arm_dp_rd_rm else Some Arm_dp_rm)
            else Some Arm_generic)
         else if \<not> uses_rd then
           (if is_pc rn then (if is_pc rm then Some Arm_dp_rn_rm2 else Some Arm_dp_rn2)
            else (if is_pc rm then Some Arm_dp_rm2 else Some Arm_generic))
         else if is_pc rd then
           (if is_pc rn then (if is_pc rm then Some Arm_dp_rd_rn_rm else Some Arm_dp_rd_rn)
            else (if is_pc rm then Some Arm_dp_rd_rm else Some Arm_generic))
         else if is_pc rn then
           (if is_pc rm then Some Arm_dp_rn_rm
            else if rd = 13 then None
            else if rd \<noteq> rm then Some Arm_dp_rn else Some Arm_dp_rn2)
         else
           (if is_pc rm then
              (if rd = 13 then None
               else if rd \<noteq> rn then Some Arm_dp_rm else Some Arm_dp_rm2)
            else Some Arm_generic))"

definition decode_arm_load_store :: "insn_t \<Rightarrow> selection" where
  "decode_arm_load_store insn =
     (let load = (bit_c insn 20 \<noteq> 0);
          w = (bit_c insn 21 \<noteq> 0);
          p = (bit_c insn 24 \<noteq> 0);
          writeback = (\<not> p \<or> (p \<and> w));
          rn = reg insn 16;
          rd = reg insn 12;
          rm = reg insn 0
      in if writeback \<and> is_pc rn then None
         else if bit_c insn 25 \<noteq> 0 \<and> is_pc rm then None
         else if bit_c insn 25 \<noteq> 0 \<and> rm = rn then None
         else if rd = rn \<and> is_pc rn then None
         else if \<not> load \<and> is_pc rd then None
         else if is_pc rn then Some Arm_dp_rn
         else Some Arm_generic)"

text \<open>\<^verbatim>\<open>bit(regs, rn)\<close> is the one call of \<open>bits\<close> here with a computed position.\<close>

definition decode_arm_load_store_multiple :: "insn_t \<Rightarrow> selection res" where
  "decode_arm_load_store_multiple insn =
     (let regs = bits insn 0 15;
          rn = reg insn 16;
          load = (bit_c insn 20 \<noteq> 0);
          writeback = (bit_c insn 21 \<noteq> 0)
      in if regs = 0 then Inr None
         else if is_pc rn then Inr None
         else if load then
           adbi_assure (bits_pre (unat rn) (unat rn))
             (if bit_c regs (unat rn) \<noteq> 0 \<and> writeback then Inr None else Inr (Some Arm_generic))
         else if bit_c regs 15 \<noteq> 0 then Inr None
         else Inr (Some Arm_generic))"

definition decode_arm_load_store_extra :: "insn_t \<Rightarrow> selection" where
  "decode_arm_load_store_extra insn =
     (let rn = reg insn 16;
          rd = reg insn 12;
          immediate = (bit_c insn 22 \<noteq> 0);
          rm = reg insn 0
      in if rd = rn then None
         else if is_pc rd then None
         else if \<not> immediate \<and> is_pc rm then None
         else if is_pc rn then Some Arm_dp_rn
         else Some Arm_generic)"

definition decode_arm_load_store_dual :: "insn_t \<Rightarrow> selection" where
  "decode_arm_load_store_dual insn =
     (let rd = reg insn 12
      in if rd AND 0x1 \<noteq> 0 then None
         else if rd = 14 then None
         else decode_arm_load_store_extra insn)"

definition decode_arm_nopc :: "insn_t \<Rightarrow> bool \<Rightarrow> bool \<Rightarrow> bool \<Rightarrow> bool \<Rightarrow> selection" where
  "decode_arm_nopc insn uses_rn uses_rd uses_rs uses_rm =
     (let rm = reg insn 0;
          rs = reg insn 8;
          rd = reg insn 12;
          rn = reg insn 16
      in if uses_rn \<and> is_pc rn then None
         else if uses_rd \<and> is_pc rd then None
         else if uses_rs \<and> is_pc rs then None
         else if uses_rm \<and> is_pc rm then None
         else Some Arm_generic)"

definition decode_arm_branch :: "insn_t \<Rightarrow> selection" where
  "decode_arm_branch insn =
     (let rm = reg insn 0
      in if is_pc rm then None
         else if bit_c insn 5 \<noteq> 0 then Some Blx_reg_a1
         else Some Arm_generic)"

definition template_select_arm :: "insn_t \<Rightarrow> selection res" where
  "template_select_arm insn =
     (if match insn ''11110---------------------------'' then Inr None
      else if match insn ''1111100-------------------------'' then Inr None
      else if match insn ''11111111------------------------'' then Inr None
      else if match insn ''1111101-------------------------'' then Inr (Some Blx_imm_a2)
      else if match insn ''1111----------------------------'' then Inr None
      else if match insn ''----00110-00--------------------'' then Inr None
      else if match insn ''----011--------------------1----'' then Inr None
      else if match insn ''----00010-00------------0000----'' then Inr (decode_arm_nopc insn False True False True)
      else if match insn ''----00010-10------------0000----'' then Inr (decode_arm_nopc insn False False False True)
      else if match insn ''----00010010------------0001----'' then Inr (decode_arm_branch insn)
      else if match insn ''----00010110------------0001----'' then Inr (decode_arm_nopc insn False True False True)
      else if match insn ''----00010010------------0011----'' then Inr (decode_arm_branch insn)
      else if match insn ''----00010--0------------0101----'' then Inr None
      else if match insn ''----000--------------------0----'' then Inr (decode_arm_dataproc insn)
      else if match insn ''----000-----------------0--1----'' then Inr (decode_arm_dataproc insn)
      else if match insn ''----001-------------------------'' then Inr (decode_arm_dataproc insn)
      else if match insn ''----010-------------------------'' then Inr (decode_arm_load_store insn)
      else if match insn ''----011--------------------0----'' then Inr (decode_arm_load_store insn)
      else if match insn ''----100-------------------------'' then decode_arm_load_store_multiple insn
      else if match insn ''----1010------------------------'' then Inr (Some B_a1)
      else if match insn ''----1011------------------------'' then Inr (Some Bl_imm_a1)
      else if match insn ''----00010010------------0111----'' then Inr None
      else if match insn ''----00010--0------------1--0----'' then Inr None
      else if match insn ''----000000--------------1001----'' then Inr (decode_arm_nopc insn True True True True)
      else if match insn ''----00001---------------1001----'' then Inr (decode_arm_nopc insn True True True True)
      else if match insn ''----00010-00------------1001----'' then Inr (decode_arm_nopc insn True True False True)
      else if match insn ''----00011---------------1001----'' then Inr (decode_arm_nopc insn True True False True)
      else if match insn ''----000--0--------------1011----'' then Inr (decode_arm_load_store_extra insn)
      else if match insn ''----000--1--------------1011----'' then Inr (decode_arm_load_store_extra insn)
      else if match insn ''----000--0-1------------11-1----'' then Inr (decode_arm_load_store_extra insn)
      else if match insn ''----000--1-1------------11-1----'' then Inr (decode_arm_load_store_extra insn)
      else if match insn ''----000--0-0------------11-1----'' then Inr (decode_arm_load_store_dual insn)
      else if match insn ''----000--1-0------------11-1----'' then Inr (decode_arm_load_store_dual insn)
      else if match insn ''----1111------------------------'' then Inr (Some Arm_generic)
      else Inr None)"

section \<open>Which operands read the program counter\<close>

text \<open>
  The instruction classes of the A32 encoding and the registers an instruction of each class
  reads, as the architecture manual defines them, independent of the decoder.
\<close>

definition arm_conditional :: "insn_t \<Rightarrow> bool" where
  "arm_conditional insn \<longleftrightarrow> bits insn 28 31 \<noteq> 0xf"

text \<open>Opcode 13 and 15 (\<^verbatim>\<open>mov\<close>, \<^verbatim>\<open>mvn\<close>) have no first operand; 8 to 11 (\<^verbatim>\<open>tst teq cmp cmn\<close>) no result.\<close>

definition dp_reads_rn_pc :: "insn_t \<Rightarrow> bool" where
  "dp_reads_rn_pc insn \<longleftrightarrow> bits insn 21 24 \<notin> {13, 15} \<and> bits insn 16 19 = 15"

definition dp_reads_rm_pc :: "insn_t \<Rightarrow> bool" where
  "dp_reads_rm_pc insn \<longleftrightarrow> \<not> bit insn 25 \<and> bits insn 0 3 = 15"

definition dp_writes_pc :: "insn_t \<Rightarrow> bool" where
  "dp_writes_pc insn \<longleftrightarrow> bits insn 21 24 \<notin> {8, 9, 10, 11} \<and> bits insn 12 15 = 15"

definition ls_reads_pc :: "insn_t \<Rightarrow> bool" where
  "ls_reads_pc insn \<longleftrightarrow> bits insn 16 19 = 15 \<or> (bit insn 25 \<and> bits insn 0 3 = 15)
     \<or> (\<not> bit insn 20 \<and> bits insn 12 15 = 15)"

definition lsm_reads_pc :: "insn_t \<Rightarrow> bool" where
  "lsm_reads_pc insn \<longleftrightarrow> bits insn 16 19 = 15 \<or> (\<not> bit insn 20 \<and> bit insn 15)"

text \<open>
  Bits 27 to 25 give the class. In class 000 the data processing instructions are those that are
  neither miscellaneous (bits 24 to 23 are 10 and bit 20 is 0) nor have bits 7 and 4 both set.
\<close>

definition arm_is_dataproc :: "insn_t \<Rightarrow> bool" where
  "arm_is_dataproc insn \<longleftrightarrow>
     \<not> bit insn 27 \<and> \<not> bit insn 26 \<and> \<not> (bit insn 24 \<and> \<not> bit insn 23 \<and> \<not> bit insn 20)
     \<and> (bit insn 25 \<or> \<not> (bit insn 7 \<and> bit insn 4))"

definition arm_is_load_store :: "insn_t \<Rightarrow> bool" where
  "arm_is_load_store insn \<longleftrightarrow> \<not> bit insn 27 \<and> bit insn 26 \<and> \<not> (bit insn 25 \<and> bit insn 4)"

definition arm_is_load_store_multiple :: "insn_t \<Rightarrow> bool" where
  "arm_is_load_store_multiple insn \<longleftrightarrow> bit insn 27 \<and> \<not> bit insn 26 \<and> \<not> bit insn 25"

definition arm_is_branch :: "insn_t \<Rightarrow> bool" where
  "arm_is_branch insn \<longleftrightarrow> bit insn 27 \<and> \<not> bit insn 26 \<and> bit insn 25"

definition arm_reads_pc :: "insn_t \<Rightarrow> bool" where
  "arm_reads_pc insn \<longleftrightarrow>
     (arm_is_dataproc insn \<and> (dp_reads_rn_pc insn \<or> dp_reads_rm_pc insn))
     \<or> (arm_is_load_store insn \<and> ls_reads_pc insn)
     \<or> (arm_is_load_store_multiple insn \<and> lsm_reads_pc insn)
     \<or> arm_is_branch insn"

text \<open>
  What a data processing template does: it loads the traced instruction's address into a scratch
  register and patches the copy to use it in place of \<open>rn\<close>, \<open>rm\<close> or both.
\<close>

fun dp_template_replaces :: "arm_template \<Rightarrow> bool \<times> bool" where
  "dp_template_replaces Arm_dp_rn = (True, False)"
| "dp_template_replaces Arm_dp_rn2 = (True, False)"
| "dp_template_replaces Arm_dp_rd_rn = (True, False)"
| "dp_template_replaces Arm_dp_rm = (False, True)"
| "dp_template_replaces Arm_dp_rm2 = (False, True)"
| "dp_template_replaces Arm_dp_rd_rm = (False, True)"
| "dp_template_replaces Arm_dp_rn_rm = (True, True)"
| "dp_template_replaces Arm_dp_rn_rm2 = (True, True)"
| "dp_template_replaces Arm_dp_rd_rn_rm = (True, True)"
| "dp_template_replaces _ = (False, False)"

section \<open>Lemmas\<close>

lemma reg_le: "a \<le> 28 \<Longrightarrow> unat (reg insn a) < 16"
  using bits_less [of a "a + 3" insn] by (simp add: reg_def)

lemmas reg_defs = is_pc_def reg_def

lemma decode_arm_load_store_multiple_ok [no_fault_intros]:
  "no_fault (decode_arm_load_store_multiple insn)"
proof -
  have "unat (reg insn 16) < 32" using reg_le [of 16 insn] by simp
  then show ?thesis
    by (simp add: decode_arm_load_store_multiple_def Let_def bits_pre_def)
qed

lemma unconditional_bits: "\<not> arm_conditional insn \<longleftrightarrow> bit insn 31 \<and> bit insn 30 \<and> bit insn 29 \<and> bit insn 28"
proof -
  have "bits insn 28 31 = mask 4 \<longleftrightarrow> (\<forall>i < 4. bit (bits insn 28 31) i)"
  proof
    assume "bits insn 28 31 = mask 4"
    then show "\<forall>i < 4. bit (bits insn 28 31) i" by (simp add: bit_mask_iff)
  next
    assume "\<forall>i < 4. bit (bits insn 28 31) i"
    then show "bits insn 28 31 = mask 4" by (intro bit_word_eqI) (auto simp: bit_mask_iff bit_bits)
  qed
  also have "\<dots> \<longleftrightarrow> bit insn 31 \<and> bit insn 30 \<and> bit insn 29 \<and> bit insn 28"
    by (auto simp: bit_bits numeral_eq_Suc All_less_Suc)
  finally show ?thesis by (auto simp: arm_conditional_def mask_eq_exp_minus_1)
qed

lemma conditional_patterns:
  assumes "arm_conditional insn"
  shows "(bit insn 31 \<and> bit insn 30 \<and> bit insn 29 \<and> bit insn 28) = False"
    and "(bit insn 31 \<and> bit insn 30 \<and> bit insn 29 \<and> bit insn 28 \<and> X) = False"
  using assms unconditional_bits by blast+

lemma select_arm_load_store:
  assumes "arm_conditional insn" "arm_is_load_store insn"
  shows "template_select_arm insn = Inr (decode_arm_load_store insn)"
  using assms(2)
  by (auto simp: template_select_arm_def match_bits arm_is_load_store_def conditional_patterns [OF assms(1)])

lemma select_arm_dataproc:
  assumes "arm_conditional insn" "arm_is_dataproc insn"
  shows "template_select_arm insn = Inr (decode_arm_dataproc insn)"
proof (cases "bit insn 25")
  case True
  with assms(2) show ?thesis
    by (auto simp: template_select_arm_def match_bits arm_is_dataproc_def conditional_patterns [OF assms(1)])
next
  case F: False
  have misc: "bit insn 24 \<Longrightarrow> \<not> bit insn 23 \<Longrightarrow> bit insn 20"
    and c: "\<not> bit insn 27" "\<not> bit insn 26" "bit insn 7 \<Longrightarrow> \<not> bit insn 4"
    using assms(2) F by (auto simp: arm_is_dataproc_def)
  show ?thesis
  proof (cases "bit insn 4")
    case True
    then have "\<not> bit insn 7" using c by blast
    with True F c(1,2) misc show ?thesis
      by (cases "bit insn 24"; cases "bit insn 23")
        (simp_all add: template_select_arm_def match_bits conditional_patterns [OF assms(1)])
  next
    case False
    with F c(1,2) misc show ?thesis
      by (cases "bit insn 24"; cases "bit insn 23")
        (simp_all add: template_select_arm_def match_bits conditional_patterns [OF assms(1)])
  qed
qed

lemma select_arm_load_store_multiple:
  assumes "arm_conditional insn" "arm_is_load_store_multiple insn"
  shows "template_select_arm insn = decode_arm_load_store_multiple insn"
  using assms(2)
  by (auto simp: template_select_arm_def match_bits arm_is_load_store_multiple_def conditional_patterns [OF assms(1)])

lemma select_arm_branch:
  assumes "arm_conditional insn" "arm_is_branch insn"
  shows "template_select_arm insn = Inr (Some (if bit insn 24 then Bl_imm_a1 else B_a1))"
  using assms(2)
  by (auto simp: template_select_arm_def match_bits arm_is_branch_def conditional_patterns [OF assms(1)])

lemma select_arm_unconditional:
  assumes "\<not> arm_conditional insn"
  shows "template_select_arm insn \<noteq> Inr (Some Arm_generic)"
  using assms by (simp add: unconditional_bits template_select_arm_def match_bits)

lemma dataproc_generic_iff:
  "decode_arm_dataproc insn = Some Arm_generic \<longleftrightarrow> \<not> dp_reads_rn_pc insn \<and> \<not> dp_reads_rm_pc insn"
  by (auto simp: decode_arm_dataproc_def Let_def reg_defs dp_reads_rn_pc_def dp_reads_rm_pc_def)

lemma load_store_generic:
  "decode_arm_load_store insn = Some Arm_generic \<Longrightarrow> \<not> ls_reads_pc insn"
  by (auto simp: decode_arm_load_store_def Let_def reg_defs ls_reads_pc_def split: if_splits)

lemma load_store_multiple_generic:
  "decode_arm_load_store_multiple insn = Inr (Some Arm_generic) \<Longrightarrow> \<not> lsm_reads_pc insn"
  by (auto simp: decode_arm_load_store_multiple_def Let_def reg_defs lsm_reads_pc_def bit_bits
      split: if_splits)

section \<open>Properties\<close>

text \<open>the selector for A32 instructions never trips an assertion: every instruction word gets an
  answer, a template or a refusal.\<close>

theorem template_select_arm_total: "no_fault (template_select_arm insn)"
  unfolding template_select_arm_def by (intro no_fault_intros)



text \<open>the template chosen for a data processing instruction replaces exactly the operands that
  are the program counter, and the decoder refuses only a write of the stack pointer computed from
  the program counter and one other register.\<close>

theorem dataproc_template_exact:
  "case decode_arm_dataproc insn of
     Some t \<Rightarrow> dp_template_replaces t = (dp_reads_rn_pc insn, dp_reads_rm_pc insn)
   | None \<Rightarrow> bits insn 12 15 = 13 \<and> \<not> bit insn 25 \<and> (dp_reads_rn_pc insn \<noteq> dp_reads_rm_pc insn)"
  by (auto simp: decode_arm_dataproc_def Let_def reg_defs dp_reads_rn_pc_def dp_reads_rm_pc_def
      split: if_splits option.splits)

end
