(* ===== verification/Select_Thumb.thy ===== *)
theory Select_Thumb
  imports Select_Arm
begin

text \<open>
  Choice of the trampoline template for a 16-bit Thumb instruction,
  \<^verbatim>\<open>arch/arm/template_select_thumb.c\<close>. The register predicates assert that their argument is a
  register number; the assertions are kept as faults.
\<close>

section \<open>Definitions\<close>

definition thumb_is_pc :: "insn_t \<Rightarrow> bool res" where
  "thumb_is_pc r = adbi_assure (r \<le> 0xf) (Inr (r = 0xf))"

definition thumb_is_high :: "insn_t \<Rightarrow> bool res" where
  "thumb_is_high r = adbi_assure (r \<le> 0xf) (Inr (r \<ge> 0x8))"

definition thumb_is_low :: "insn_t \<Rightarrow> bool res" where
  "thumb_is_low r = adbi_assure (r \<le> 0xf) (res_bind (thumb_is_high r) (\<lambda>h. Inr (\<not> h)))"

text \<open>The list of an \<^verbatim>\<open>ldm\<close> or \<^verbatim>\<open>stm\<close> is eight bits wide; the code looks at the lower four only.\<close>

definition decode_thumb_ldm_stm :: "insn_t \<Rightarrow> selection" where
  "decode_thumb_ldm_stm insn =
     (let register_list = insn AND 0xf;
          rn = drop_bit 8 insn AND 0x7
      in if register_list = 0 then None
         else if register_list AND push_bit (unat rn) 1 \<noteq> 0 then None
         else Some Thumb_generic)"

definition decode_thumb_dp_hr_branch :: "insn_t \<Rightarrow> selection res" where
  "decode_thumb_dp_hr_branch insn =
     (let opcode = bits insn 8 9;
          rm = bits insn 3 6;
          rn = bits insn 0 2 OR push_bit 3 (bit_c insn 7)
      in if opcode = 0b00 then
           res_if (res_and (thumb_is_pc rn) (thumb_is_pc rm)) (Inr None)
             (res_if (res_and (res_not (thumb_is_pc rn)) (res_not (thumb_is_pc rm)))
               (Inr (Some Thumb_generic)) (Inr None))
         else if opcode = 0b01 then
           res_if (res_or (thumb_is_pc rn) (thumb_is_pc rm)) (Inr None)
             (res_if (res_and (thumb_is_low rn) (thumb_is_low rm)) (Inr None)
               (Inr (Some Thumb_generic)))
         else if opcode = 0b10 then
           res_if (thumb_is_pc rm) (Inr None) (Inr (Some Thumb_generic))
         else if opcode = 0b11 then
           (if bits insn 0 2 \<noteq> 0 then Inr None
            else if bit_c opcode 7 \<noteq> 0 then Inr (Some Blx_reg_t1)
            else Inr (Some Thumb_generic))
         else Inl Unreachable)"

definition template_select_thumb :: "insn_t \<Rightarrow> selection res" where
  "template_select_thumb insn =
     (if match insn ''00--------------'' then Inr (Some Thumb_generic)
      else if match insn ''010000----------'' then Inr (Some Thumb_generic)
      else if match insn ''010001----------'' then decode_thumb_dp_hr_branch insn
      else if match insn ''01001-----------'' then Inr (Some Ldr_lit_t1)
      else if match insn ''0101------------'' then Inr (Some Thumb_generic)
      else if match insn ''011-------------'' then Inr (Some Thumb_generic)
      else if match insn ''100-------------'' then Inr (Some Thumb_generic)
      else if match insn ''10101-----------'' then Inr (Some Thumb_generic)
      else if match insn ''10100-----------'' then Inr (Some Adr_t1)
      else if match insn ''1011------------'' then
        (if match insn ''10110000--------'' then Inr (Some Thumb_generic)
         else if match insn ''1011-10---------'' then Inr (Some Thumb_generic)
         else if match insn ''10111110--------'' then Inr (Some Thumb_generic)
         else if match insn ''1011-0-1--------'' then Inr (Some Cbz_t1)
         else Inr None)
      else if match insn ''1100------------'' then Inr (decode_thumb_ldm_stm insn)
      else if match insn ''1101------------'' then
        (if match insn ''11011111--------'' then Inr (Some Thumb_generic)
         else if match insn ''11011110--------'' then Inr None
         else Inr (Some B_t1))
      else if match insn ''11101----------1'' then Inr None
      else if match insn ''11100-----------'' then Inr (Some B_t2)
      else res_if (is_thumb2_halfword insn) (Inr None) (Inr None))"

section \<open>Instructions that depend on the program counter\<close>

text \<open>
  The 16-bit Thumb instructions whose effect depends on the address they run at, from the
  architecture manual: literal loads, \<^verbatim>\<open>adr\<close>, branches, compare-and-branch, the high register
  operations with the program counter as an operand that is read, \<^verbatim>\<open>bx pc\<close>, and \<^verbatim>\<open>blx\<close>, which
  stores the return address.
\<close>

definition thumb_hr_class :: "insn_t \<Rightarrow> bool" where
  "thumb_hr_class insn \<longleftrightarrow>
     \<not> bit insn 15 \<and> bit insn 14 \<and> \<not> bit insn 13 \<and> \<not> bit insn 12 \<and> \<not> bit insn 11 \<and> bit insn 10"

definition thumb_rm_pc :: "insn_t \<Rightarrow> bool" where
  "thumb_rm_pc insn \<longleftrightarrow> bit insn 6 \<and> bit insn 5 \<and> bit insn 4 \<and> bit insn 3"

definition thumb_rn_pc :: "insn_t \<Rightarrow> bool" where
  "thumb_rn_pc insn \<longleftrightarrow> bit insn 7 \<and> bit insn 2 \<and> bit insn 1 \<and> bit insn 0"

definition thumb_bx_pc_or_blx :: "insn_t \<Rightarrow> bool" where
  "thumb_bx_pc_or_blx insn \<longleftrightarrow>
     thumb_hr_class insn \<and> bit insn 9 \<and> bit insn 8 \<and> (bit insn 7 \<or> thumb_rm_pc insn)"

definition thumb_depends_on_pc :: "insn_t \<Rightarrow> bool" where
  "thumb_depends_on_pc insn \<longleftrightarrow>
     (thumb_hr_class insn \<and> \<not> (bit insn 9 \<and> bit insn 8)
        \<and> (thumb_rm_pc insn \<or> (\<not> bit insn 9 \<and> thumb_rn_pc insn)))
     \<or> thumb_bx_pc_or_blx insn
     \<or> match insn ''01001-----------'' \<or> match insn ''10100-----------''
     \<or> match insn ''1011-0-1--------'' \<or> match insn ''11100-----------''
     \<or> (match insn ''1101------------'' \<and> \<not> match insn ''1101111---------'')"

section \<open>Lemmas\<close>

lemma bit_bits_width: "lo \<le> hi \<Longrightarrow> hi < lo + 4 \<Longrightarrow> hi < 32 \<Longrightarrow> bit (bits insn lo hi) i \<Longrightarrow> i < 4"
  by (auto simp: bit_bits)

lemma hr_rn_width: "bit (bits insn 0 2 OR push_bit 3 (bit_c insn 7)) i \<Longrightarrow> i < 4"
  by (auto simp: bit_simps bit_bits bit_bit_c)

lemma bits_le_15: "lo \<le> hi \<Longrightarrow> hi < lo + 4 \<Longrightarrow> hi < 32 \<Longrightarrow> bits insn lo hi \<le> 0xf"
  by (rule nibble_le_15) (rule bit_bits_width)

lemma hr_rn_le_15: "bits insn 0 2 OR push_bit 3 (bit_c insn 7) \<le> (0xf :: u32)"
  by (rule nibble_le_15) (rule hr_rn_width)

lemma thumb_is_low_eq: "r \<le> 0xf \<Longrightarrow> thumb_is_low r = Inr (r < 8)"
  by (simp add: thumb_is_low_def thumb_is_high_def not_le)

lemma thumb_is_pc_eq: "r \<le> 0xf \<Longrightarrow> thumb_is_pc r = Inr (r = 0xf)"
  by (simp add: thumb_is_pc_def)

lemma hr_rn_eq_15: "bits insn 0 2 OR push_bit 3 (bit_c insn 7) = 0xf \<longleftrightarrow> thumb_rn_pc insn"
  by (subst nibble_eq_15_iff) (auto simp: thumb_rn_pc_def bit_simps bit_bits bit_bit_c numeral_2_eq_2)

lemma hr_rm_eq_15: "bits insn 3 6 = 0xf \<longleftrightarrow> thumb_rm_pc insn"
  by (simp add: field_bits thumb_rm_pc_def)

lemma hr_opcode_bits:
  "bits insn 8 9 = 0 \<longleftrightarrow> \<not> bit insn 9 \<and> \<not> bit insn 8"
  "bits insn 8 9 = 1 \<longleftrightarrow> \<not> bit insn 9 \<and> bit insn 8"
  "bits insn 8 9 = 2 \<longleftrightarrow> bit insn 9 \<and> \<not> bit insn 8"
  "bits insn 8 9 = 3 \<longleftrightarrow> bit insn 9 \<and> bit insn 8"
  by (simp_all add: field_bits conj_commute)

lemma decode_hr_branch_eq:
  "decode_thumb_dp_hr_branch insn =
     Inr (if bit insn 9 \<and> bit insn 8 then (if bits insn 0 2 = 0 then Some Thumb_generic else None)
          else if bit insn 9 then (if thumb_rm_pc insn then None else Some Thumb_generic)
          else if thumb_rn_pc insn \<or> thumb_rm_pc insn then None
          else if \<not> bit insn 8 then Some Thumb_generic
          else if bits insn 0 2 OR push_bit 3 (bit_c insn 7) < 8 \<and> bits insn 3 6 < 8 then None
          else Some Thumb_generic)"
  by (cases "bit insn 9"; cases "bit insn 8")
    (simp_all add: decode_thumb_dp_hr_branch_def Let_def thumb_is_pc_eq hr_rn_le_15 bits_le_15
      thumb_is_low_eq hr_rn_eq_15 hr_rm_eq_15 hr_opcode_bits bit_bits)

lemmas thumb_match_bits = match_bits match_by_length [where n = 8] match_by_length [where n = 12]

lemma select_thumb_pc_classes:
  "match insn ''01001-----------'' \<Longrightarrow> template_select_thumb insn = Inr (Some Ldr_lit_t1)"
  "match insn ''10100-----------'' \<Longrightarrow> template_select_thumb insn = Inr (Some Adr_t1)"
  "match insn ''1011-0-1--------'' \<Longrightarrow> template_select_thumb insn = Inr (Some Cbz_t1)"
  "match insn ''11100-----------'' \<Longrightarrow> template_select_thumb insn = Inr (Some B_t2)"
  "match insn ''1101------------'' \<Longrightarrow> \<not> match insn ''1101111---------'' \<Longrightarrow>
     template_select_thumb insn = Inr (Some B_t1)"
  by (simp_all add: template_select_thumb_def thumb_match_bits) blast

section \<open>Properties\<close>

text \<open>the selector for 16-bit Thumb instructions gives an answer for every halfword: no register
  assertion fails and the unreachable default of the opcode switch is not reached.\<close>

theorem template_select_thumb_total:
  assumes "insn \<le> 0xffff"
  shows "no_fault (template_select_thumb insn)"
  using assms unfolding template_select_thumb_def decode_hr_branch_eq is_thumb2_halfword_def
  by (intro no_fault_intros)

theorem template_select_thumb_total_witness:
  "(0x4778 :: insn_t) \<le> 0xffff \<and> no_fault (template_select_thumb 0x4778)"
  using template_select_thumb_total by simp

text \<open>C22: a 16-bit Thumb instruction that gets the generic template, which runs a copy of it at another
  address, does not depend on the program counter, with exactly two exceptions: \<^verbatim>\<open>bx pc\<close> and
  \<^verbatim>\<open>blx\<close>. The decoder tests bit 7 of the two-bit opcode instead of bit 7 of the instruction, so
  the template made for \<^verbatim>\<open>blx\<close> is never chosen.\<close>

theorem thumb_generic_depends_on_pc_iff:
  assumes "template_select_thumb insn = Inr (Some Thumb_generic)"
  shows "thumb_depends_on_pc insn \<longleftrightarrow> thumb_bx_pc_or_blx insn"
proof (cases "thumb_hr_class insn")
  case True
  then have "template_select_thumb insn = decode_thumb_dp_hr_branch insn"
    by (simp add: thumb_hr_class_def template_select_thumb_def thumb_match_bits)
  with True assms show ?thesis
    by (auto simp: decode_hr_branch_eq thumb_depends_on_pc_def thumb_hr_class_def thumb_match_bits
        split: if_splits)
next
  case False
  then show ?thesis using assms select_thumb_pc_classes [of insn]
    by (auto simp: thumb_depends_on_pc_def thumb_bx_pc_or_blx_def)
qed

text \<open>Witness: \<^verbatim>\<open>bx pc\<close>, the first instruction of the usual Thumb-to-ARM veneer.\<close>

theorem thumb_generic_depends_on_pc_iff_witness:
  "template_select_thumb 0x4778 = Inr (Some Thumb_generic) \<and> thumb_depends_on_pc 0x4778"
proof -
  have "template_select_thumb 0x4778 = Inr (Some Thumb_generic)"
    by (simp add: template_select_thumb_def thumb_match_bits decode_hr_branch_eq field_bits)
  moreover have "thumb_bx_pc_or_blx 0x4778"
    by (simp add: thumb_bx_pc_or_blx_def thumb_hr_class_def thumb_rm_pc_def)
  ultimately show ?thesis using thumb_generic_depends_on_pc_iff by blast
qed

text \<open>no halfword selects the template for \<^verbatim>\<open>blx\<close> with a register.\<close>

theorem blx_reg_t1_never_selected: "template_select_thumb insn \<noteq> Inr (Some Blx_reg_t1)"
  unfolding template_select_thumb_def decode_hr_branch_eq
  by (intro branch_neqI) (simp_all add: decode_thumb_ldm_stm_def Let_def)

end
