(* ===== verification/Select_Thumb32.thy ===== *)
theory Select_Thumb32
  imports Select_Thumb
begin

text \<open>
  Choice of the trampoline template for a 32-bit Thumb-2 instruction,
  \<^verbatim>\<open>arch/arm/template_select_thumb32.c\<close>. The first halfword of the instruction is in the upper
  half of the word. Every decoder starts with an assertion that it was called for its class;
  these assertions are kept and shown to hold.
\<close>

section \<open>Definitions\<close>

definition bitsh :: "insn_t \<Rightarrow> nat \<Rightarrow> nat \<Rightarrow> insn_t" where
  "bitsh insn low high = bits insn (low + 16) (high + 16)"

definition bitsl :: "insn_t \<Rightarrow> nat \<Rightarrow> nat \<Rightarrow> insn_t" where
  "bitsl insn low high = bits insn low high"

definition bith :: "insn_t \<Rightarrow> nat \<Rightarrow> insn_t" where
  "bith insn n = bit_c insn (n + 16)"

definition bitl :: "insn_t \<Rightarrow> nat \<Rightarrow> insn_t" where
  "bitl insn n = bit_c insn n"

definition thumb_is_sp :: "insn_t \<Rightarrow> bool res" where
  "thumb_is_sp r = adbi_assure (r \<le> 0xf) (Inr (r = 0xd))"

definition thumb_is_bad :: "insn_t \<Rightarrow> bool res" where
  "thumb_is_bad r = res_or (thumb_is_sp r) (thumb_is_pc r)"

definition template_select_dataproc_mim :: "insn_t \<Rightarrow> selection res" where
  "template_select_dataproc_mim insn =
     adbi_assure (match insn ''11110-0---------0---------------'')
     (let opx = bitsh insn 5 8;
          s = bith insn 4;
          rn = bitsh insn 0 3;
          rd = bitsl insn 8 11
      in if match opx ''-000'' \<or> match opx ''1101'' \<or> match opx ''0-00'' then
           res_if (thumb_is_bad rn) (Inr None)
             (res_if (res_and (thumb_is_pc rd) (Inr (s = 0))) (Inr None)
               (res_if (thumb_is_sp rd) (Inr None) (Inr (Some Thumb2_generic))))
         else if match opx ''101-'' \<or> match opx ''000-'' \<or> match opx ''1-10'' then
           res_if (res_or (thumb_is_bad rd) (thumb_is_bad rn)) (Inr None) (Inr (Some Thumb2_generic))
         else if match opx ''00--'' then
           res_if (thumb_is_bad rd) (Inr None)
             (res_if (thumb_is_sp rn) (Inr None) (Inr None))
         else Inr None)"

definition template_select_dataproc_imm :: "insn_t \<Rightarrow> selection res" where
  "template_select_dataproc_imm insn =
     adbi_assure (match insn ''11110-1---------0---------------'')
     (let opx = bitsh insn 4 8;
          rn = bitsh insn 0 3;
          rd = bitsl insn 8 11
      in res_if (thumb_is_bad rd) (Inr None)
        (if match opx ''00000'' \<or> match opx ''01010'' then
           res_if (thumb_is_pc rn)
             (if match opx ''00000'' then Inr (Some Adr_t3) else Inr (Some Adr_t2))
             (Inr (Some Thumb2_generic))
         else if match opx ''--100'' \<or> match opx ''1-0-0'' then
           res_if (thumb_is_bad rn) (Inr None) (Inr (Some Thumb2_generic))
         else if match opx ''10--0'' then
           res_if (thumb_is_sp rn) (Inr None) (Inr (Some Thumb2_generic))
         else Inr None))"

text \<open>
  The first case of the inner switch falls through to the second when the test on \<open>op2\<close> fails.
\<close>

definition template_select_branch_misc_ctrl :: "insn_t \<Rightarrow> selection res" where
  "template_select_branch_misc_ctrl insn =
     adbi_assure (match insn ''11110-----------1---------------'')
     (let opx = bitsh insn 4 10;
          op1 = bitsl insn 12 14;
          op2 = bitsl insn 8 11
      in if op1 = 0b000 \<or> op1 = 0b010 then
           (if opx = 0b0111000 \<and> match op2 ''--00'' then
              res_if (thumb_is_bad (bitsh insn 0 4)) (Inr None) (Inr (Some Thumb2_generic))
            else if opx = 0b0111000 \<or> opx = 0b0111001 then Inr None
            else if opx = 0b0111010 then
              (if bitsl insn 8 10 \<noteq> 0 then Inr (Some Thumb_nop) else Inr None)
            else if opx = 0b0111011 then Inr None
            else if opx = 0b111100 then Inr None
            else if opx = 0b0111101 then Inr None
            else if opx = 0b0111110 \<or> opx = 0b0111111 then
              (if \<not> match insn ''11110011111011111000----00000000'' then Inr None
               else res_if (thumb_is_bad (bitsl insn 8 11)) (Inr None) (Inr (Some Thumb2_generic)))
            else if opx = 0b1111111 then (if op1 = 0b010 then Inr None else Inr None)
            else adbi_assure (\<not> match opx ''-111---'') (Inr (Some B_t3)))
         else if op1 = 0b001 \<or> op1 = 0b011 then Inr (Some B_t4)
         else if op1 = 0b100 \<or> op1 = 0b110 then Inr (Some Blx_t2)
         else if op1 = 0b101 \<or> op1 = 0b111 then Inr (Some Bl_t1)
         else Inr None)"

definition template_select_ldm_stm :: "insn_t \<Rightarrow> selection res" where
  "template_select_ldm_stm insn =
     adbi_assure (match insn ''1110100--0----------------------'')
     (let opx = bitsh insn 7 8;
          rn = bitsh insn 0 3;
          regs = bitsl insn 0 15;
          w = bith insn 5;
          l = bith insn 4;
          sp = regs AND push_bit 13 1;
          lr = regs AND push_bit 14 1;
          pc = regs AND push_bit 15 1
      in if opx = 0b00 \<or> opx = 0b11 then Inr None
         else if bits_count regs < 2 then Inr None
         else res_if (thumb_is_pc rn) (Inr None)
           (if l \<noteq> 0 \<and> ((pc \<noteq> 0 \<and> lr \<noteq> 0) \<or> sp \<noteq> 0) then Inr None
            else if l = 0 \<and> (pc \<noteq> 0 \<or> sp \<noteq> 0) then Inr None
            else if w \<noteq> 0 \<and> regs AND push_bit (unat rn) 1 \<noteq> 0 then Inr None
            else Inr (Some Thumb2_generic)))"

definition template_select_ldr :: "insn_t \<Rightarrow> selection res" where
  "template_select_ldr insn =
     adbi_assure (match insn ''1111100--101--------------------'')
     (let op1 = bitsh insn 7 8;
          op2 = bitsl insn 6 11;
          rn = bitsh insn 0 3;
          rt = bitsl insn 12 15
      in if \<not> match op1 ''0-'' then Inr None
         else res_if (thumb_is_pc rn)
           (res_if (res_not (thumb_is_pc rt)) (Inr (Some Ldr_lit_t2)) (Inr None))
           (if op1 = 0b00 \<and> op2 = 0b000000 then
              res_if (thumb_is_bad (bitsl insn 0 3)) (Inr None) (Inr (Some Thumb2_generic))
            else if op1 = 0b01 then Inr (Some Thumb2_generic)
            else if op1 = 0b00 \<and> (match op2 ''1--1--'' \<or> match op2 ''1100--'') then
              (let p = bitl insn 10;
                   u = bitl insn 9;
                   w = bitl insn 8
               in if p = 0 \<and> w = 0 then Inr None
                  else if w \<noteq> 0 \<and> rn = rt then Inr None
                  else if p \<noteq> 0 \<and> u \<noteq> 0 \<and> w = 0 then
                    res_if (thumb_is_bad rt) (Inr None) (Inr (Some Thumb2_generic))
                  else Inr (Some Thumb2_generic))
            else Inr None))"

definition template_select_str :: "insn_t \<Rightarrow> selection res" where
  "template_select_str insn =
     adbi_assure (match insn ''11111000---0--------------------'')
     (let op1 = bitsh insn 5 7;
          op2 = bitsl insn 6 11;
          rn = bitsh insn 0 3;
          rt = bitsl insn 12 15;
          rest =
            (if match op1 ''00-'' \<or> match op1 ''0-0'' then
               (if match op2 ''000000'' then
                  res_if (thumb_is_bad (bitsl insn 0 3)) (Inr None) (Inr (Some Thumb2_generic))
                else if match op2 ''1--1--'' \<or> match op2 ''11----'' then
                  (let p = bitl insn 10;
                       w = bitl insn 8
                   in if p = 0 \<and> w = 0 then Inr None
                      else if w \<noteq> 0 \<and> rn = rt then Inr None
                      else Inr (Some Thumb2_generic))
                else Inr None)
             else if match op1 ''-0-'' \<or> match op1 ''--0'' then Inr (Some Thumb2_generic)
             else Inr None)
      in res_if (thumb_is_pc rn) (Inr None)
        (if match op1 ''-10'' then res_if (thumb_is_pc rt) (Inr None) rest
         else res_if (thumb_is_bad rt) (Inr None) rest))"

definition template_select_dataproc_shr :: "insn_t \<Rightarrow> selection res" where
  "template_select_dataproc_shr insn =
     adbi_assure (match insn ''1110101-------------------------'')
     (let opx = bitsh insn 5 8;
          s = bith insn 4;
          rn = bitsh insn 0 3;
          rd = bitsl insn 8 11;
          rm = bitsl insn 0 3
      in if match opx ''-000'' \<or> match opx ''1101'' \<or> match opx ''0-00'' then
           res_if (res_or (thumb_is_bad rn) (thumb_is_bad rm)) (Inr None)
             (res_if (res_and (thumb_is_pc rd) (Inr (s = 0))) (Inr None)
               (res_if (thumb_is_sp rd) (Inr None) (Inr (Some Thumb2_generic))))
         else if match opx ''101-'' \<or> match opx ''000-'' \<or> match opx ''-110'' then
           res_if (res_or (res_or (thumb_is_bad rd) (thumb_is_bad rm)) (thumb_is_bad rn)) (Inr None)
             (Inr (Some Thumb2_generic))
         else if match opx ''-01-'' then
           res_if (res_or (thumb_is_bad rd) (thumb_is_bad rm)) (Inr None)
             (res_if (thumb_is_sp rn) (Inr None) (Inr None))
         else Inr None)"

definition template_select_dataproc_reg :: "insn_t \<Rightarrow> selection res" where
  "template_select_dataproc_reg insn =
     adbi_assure (match insn ''11111010------------------------'')
     (if bitsl insn 12 15 \<noteq> 0b1111 then Inr None
      else
       let rn = bitsh insn 0 3;
           rd = bitsl insn 8 11;
           rm = bitsl insn 0 3;
           op1 = bitsh insn 4 7;
           op2 = bitsl insn 4 7;
           bad3 = res_or (res_or (thumb_is_bad rd) (thumb_is_bad rm)) (thumb_is_bad rn)
       in if match op1 ''0---'' \<and> match op2 ''0000'' then
            res_if bad3 (Inr None) (Inr (Some Thumb2_generic))
          else if match op2 ''1---'' \<and> op1 \<le> 0b0101 then
            res_if (res_or (thumb_is_bad rd) (thumb_is_bad rm)) (Inr None) (Inr (Some Thumb2_generic))
          else if match op1 ''1---'' \<and> match op2 ''0---'' then
            adbi_assure (match insn ''111110101-------1111----0-------'')
            (let op1 = bitsh insn 4 6;
                 op2 = bitsl insn 4 5
             in if op2 = 0b11 then Inr None
                else if match op1 ''-11'' then Inr None
                else res_if bad3 (Inr None) (Inr (Some Thumb2_generic)))
          else if match op1 ''10--'' \<and> match op2 ''10--'' then
            adbi_assure (match insn ''1111101010------1111----10------'')
            (let op1 = bitsh insn 4 5;
                 op2 = bitsl insn 4 5
             in if match op1 ''1-'' \<and> op2 \<noteq> 0b00 then Inr None
                else res_if bad3 (Inr None) (Inr (Some Thumb2_generic)))
          else Inr None)"

definition template_select_mul :: "insn_t \<Rightarrow> selection res" where
  "template_select_mul insn =
     adbi_assure (match insn ''111110110-----------------------'')
     (if bitsl insn 6 7 \<noteq> 0b00 then Inr None
      else
       let op1 = bitsh insn 4 6;
           op2 = bitsl insn 4 5;
           op12 = push_bit 2 op1 OR op2;
           rn = bitsh insn 0 3;
           rm = bitsl insn 0 3;
           ra = bitsl insn 12 15;
           rd = bitsl insn 8 11
       in res_if (res_or (res_or (res_or (thumb_is_pc rn) (thumb_is_pc rm)) (thumb_is_pc ra)) (thumb_is_pc rd))
            (Inr None)
            (if (match op12 ''001--'' \<or> match op12 ''---0-'') \<and> \<not> match op12 ''11101''
             then Inr (Some Thumb2_generic) else Inr None))"

text \<open>\<^verbatim>\<open>op2\<close> has four bits, so its top bit and the lowest bit of \<^verbatim>\<open>op1\<close> meet in bit 3 of \<open>op12\<close>.\<close>

definition template_select_mull :: "insn_t \<Rightarrow> selection res" where
  "template_select_mull insn =
     adbi_assure (match insn ''111110111-----------------------'')
     (let op1 = bitsh insn 4 6;
          op2 = bitsl insn 4 7;
          op12 = push_bit 3 op1 OR op2;
          rn = bitsh insn 0 3;
          rm = bitsl insn 0 3;
          rdlo = bitsl insn 12 15;
          rdhi = bitsl insn 8 11
      in res_if (res_or (res_or (res_or (thumb_is_pc rn) (thumb_is_pc rm)) (thumb_is_pc rdlo)) (thumb_is_pc rdhi))
           (Inr None)
           (if match op12 ''10-110-'' \<or> match op12 ''1100110'' \<or> match op12 ''10010--''
               \<or> match op12 ''--00000'' \<or> match op12 ''0-11111''
            then Inr (Some Thumb2_generic) else Inr None))"

definition template_select_thumb32 :: "insn_t \<Rightarrow> selection res" where
  "template_select_thumb32 insn =
     res_bind (is_thumb2_halfword (thumb2_first_halfowrd insn)) (\<lambda>b.
     adbi_assure b
     (let op1 = bitsh insn 11 12;
          op2 = bitsh insn 4 10;
          opx = bitl insn 15
      in if op1 = 0b01 then
           (if match op2 ''1------'' then Inr None
            else if match op2 ''01-----'' then template_select_dataproc_shr insn
            else if match op2 ''00--0--'' then template_select_ldm_stm insn
            else if match op2 ''00--1--'' then Inr None
            else Inr None)
         else if op1 = 0b10 then
           (if opx \<noteq> 0 then template_select_branch_misc_ctrl insn
            else if match op2 ''-0-----'' then template_select_dataproc_mim insn
            else template_select_dataproc_imm insn)
         else if op1 = 0b11 then
           (if match op2 ''000---0'' then template_select_str insn
            else if match op2 ''001---0'' then Inr None
            else if match op2 ''00--001'' then Inr None
            else if match op2 ''00--011'' then Inr None
            else if match op2 ''00--101'' then template_select_ldr insn
            else if match op2 ''010----'' then template_select_dataproc_reg insn
            else if match op2 ''0110---'' then template_select_mul insn
            else if match op2 ''0111---'' then template_select_mull insn
            else if match op2 ''1------'' then Inr None
            else Inr None)
         else Inl Assertion))"

section \<open>Lemmas\<close>

lemmas halfword_fields = bitsh_def bitsl_def bith_def bitl_def

lemma field_le_15 [simp]:
  "bitsh insn 0 3 \<le> 0xf" "bitsl insn 8 11 \<le> 0xf" "bitsl insn 0 3 \<le> 0xf" "bitsl insn 12 15 \<le> 0xf"
  by (simp_all add: halfword_fields bits_le_15)

lemma no_fault_reg [no_fault_intros]:
  "r \<le> 0xf \<Longrightarrow> no_fault (thumb_is_pc r)"
  "r \<le> 0xf \<Longrightarrow> no_fault (thumb_is_sp r)"
  "r \<le> 0xf \<Longrightarrow> no_fault (thumb_is_bad r)"
  by (simp_all add: thumb_is_pc_def thumb_is_sp_def thumb_is_bad_def)

lemma thumb2_halfword_bits:
  "is_thumb2_halfword (thumb2_first_halfowrd insn) =
     Inr (bit insn 31 \<and> bit insn 30 \<and> bit insn 29 \<and> (bit insn 28 \<or> bit insn 27))"
proof -
  let ?f = "bits insn 27 31"
  have m: "(0xf800 :: 32 word) = push_bit 11 (mask 5)" by (simp add: mask_eq_exp_minus_1)
  have "drop_bit 16 insn AND 0xf800 = push_bit 11 ?f" unfolding m
    by (rule bit_word_eqI) (auto simp: bit_simps bit_bits)
  moreover have f: "unat ?f < 32" using bits_less [of 27 31 insn] by simp
  then have "unat (push_bit 11 ?f) = 2048 * unat ?f"
    by (simp add: push_bit_eq_mult unat_word_ariths)
  ultimately have "drop_bit 16 insn AND 0xf800 \<ge> 0xe800 \<longleftrightarrow> unat ?f \<ge> 29"
    by (simp add: word_le_nat_alt)
  also have "\<dots> \<longleftrightarrow> unat ?f = unat (29 :: u32) \<or> unat ?f = unat (30 :: u32) \<or> unat ?f = unat (31 :: u32)"
    using f by auto
  also have "\<dots> \<longleftrightarrow> ?f = 29 \<or> ?f = 30 \<or> ?f = 31" by (metis unsigned_word_eqI)
  also have "\<dots> \<longleftrightarrow> bit insn 31 \<and> bit insn 30 \<and> bit insn 29 \<and> (bit insn 28 \<or> bit insn 27)"
    by (simp add: field_bits) blast
  finally show ?thesis
    using first_halfword_le [of insn] by (simp add: is_thumb2_halfword_def thumb2_first_halfowrd_def)
qed

lemmas thumb32_match = match_bits match_by_length [where n = 12] bit_bits halfword_fields field_bits

lemma decoders_no_fault:
  "match insn ''11110-0---------0---------------'' \<Longrightarrow> no_fault (template_select_dataproc_mim insn)"
  "match insn ''11110-1---------0---------------'' \<Longrightarrow> no_fault (template_select_dataproc_imm insn)"
  "match insn ''1110100--0----------------------'' \<Longrightarrow> no_fault (template_select_ldm_stm insn)"
  "match insn ''1111100--101--------------------'' \<Longrightarrow> no_fault (template_select_ldr insn)"
  "match insn ''11111000---0--------------------'' \<Longrightarrow> no_fault (template_select_str insn)"
  "match insn ''1110101-------------------------'' \<Longrightarrow> no_fault (template_select_dataproc_shr insn)"
  "match insn ''111110110-----------------------'' \<Longrightarrow> no_fault (template_select_mul insn)"
  "match insn ''111110111-----------------------'' \<Longrightarrow> no_fault (template_select_mull insn)"
  unfolding template_select_dataproc_mim_def template_select_dataproc_imm_def template_select_ldm_stm_def
    template_select_ldr_def template_select_str_def template_select_dataproc_shr_def
    template_select_mul_def template_select_mull_def Let_def
  by (intro no_fault_intros; simp)+

lemma dataproc_reg_no_fault:
  assumes "match insn ''11111010------------------------''"
  shows "no_fault (template_select_dataproc_reg insn)"
  unfolding template_select_dataproc_reg_def Let_def using assms
  by (intro no_fault_intros) (simp_all add: thumb32_match bits_le_15)

text \<open>The encodings the default case of the miscellaneous control decoder does not expect.\<close>

definition thumb32_misc_hole :: "insn_t \<Rightarrow> bool" where
  "thumb32_misc_hole insn \<longleftrightarrow>
     match insn ''11110-----------10-0------------'' \<and> match insn ''-----1111-----------------------''
     \<and> bits insn 20 22 \<noteq> 7"

lemma branch_misc_ctrl_fault:
  assumes "match insn ''11110-----------1---------------''"
  shows "no_fault (template_select_branch_misc_ctrl insn) \<longleftrightarrow> \<not> thumb32_misc_hole insn"
proof (cases "thumb32_misc_hole insn")
  case True
  then have "template_select_branch_misc_ctrl insn = Inl Assertion" using assms
    by (simp add: thumb32_misc_hole_def template_select_branch_misc_ctrl_def Let_def thumb32_match)
  with True show ?thesis by simp
next
  case False
  have "bitsh insn 0 4 \<le> 0xf" if "bitsh insn 4 10 = 56"
  proof (rule nibble_le_15)
    fix i assume "bit (bitsh insn 0 4) i"
    with that show "i < 4"
      by (cases "i = 4") (auto simp: halfword_fields bit_bits field_bits)
  qed
  then have "no_fault (template_select_branch_misc_ctrl insn)"
    unfolding template_select_branch_misc_ctrl_def Let_def using assms False
    by (intro no_fault_intros) (simp_all add: thumb32_match thumb32_misc_hole_def bits_le_15, sat)
  with False show ?thesis by simp
qed

text \<open>Every decoder is called for its own class: the dispatcher's tests give its assertion.\<close>

lemma thumb32_fault_iff:
  assumes "bit insn 31 \<and> bit insn 30 \<and> bit insn 29 \<and> (bit insn 28 \<or> bit insn 27)"
  shows "no_fault (template_select_thumb32 insn) \<longleftrightarrow> \<not> thumb32_misc_hole insn"
proof (cases "bit insn 28 \<and> \<not> bit insn 27 \<and> bit insn 15")
  case True
  then have "template_select_thumb32 insn = template_select_branch_misc_ctrl insn" using assms
    by (simp add: template_select_thumb32_def thumb2_halfword_bits thumb32_match)
  moreover have "match insn ''11110-----------1---------------''"
    using True assms by (simp add: thumb32_match)
  ultimately show ?thesis using branch_misc_ctrl_fault by simp
next
  case False
  then have "\<not> thumb32_misc_hole insn" by (auto simp: thumb32_misc_hole_def thumb32_match)
  moreover have "no_fault (template_select_thumb32 insn)"
    unfolding template_select_thumb32_def thumb2_halfword_bits Let_def res_bind_Inr using assms False
    by (intro no_fault_intros decoders_no_fault dataproc_reg_no_fault) (simp_all add: thumb32_match)
  ultimately show ?thesis by simp
qed

section \<open>Instructions that depend on the program counter\<close>

text \<open>
  From the Thumb-2 encoding tables: the instructions whose effect depends on the address they run
  at. In the data processing classes \<open>rn\<close> = 15 selects the variant without a first operand for the
  opcodes 2 and 3 (\<^verbatim>\<open>orr\<close>/\<^verbatim>\<open>mov\<close>, \<^verbatim>\<open>orn\<close>/\<^verbatim>\<open>mvn\<close>), and in the extend instructions.
\<close>

definition thumb32_rn_pc :: "insn_t \<Rightarrow> bool" where
  "thumb32_rn_pc insn \<longleftrightarrow> bits insn 16 19 = 15"

definition thumb32_rm_pc :: "insn_t \<Rightarrow> bool" where
  "thumb32_rm_pc insn \<longleftrightarrow> bits insn 0 3 = 15"

definition thumb32_is_branch :: "insn_t \<Rightarrow> bool" where
  "thumb32_is_branch insn \<longleftrightarrow> match insn ''11110-----------1---------------''
     \<and> (bit insn 14 \<or> bit insn 12 \<or> \<not> (bit insn 25 \<and> bit insn 24 \<and> bit insn 23))"

definition thumb32_depends_on_pc :: "insn_t \<Rightarrow> bool" where
  "thumb32_depends_on_pc insn \<longleftrightarrow>
     (match insn ''1110101-------------------------''
        \<and> (thumb32_rm_pc insn \<or> (thumb32_rn_pc insn \<and> bits insn 21 24 \<notin> {2, 3})))
     \<or> (match insn ''1110100--0----------------------''
        \<and> (thumb32_rn_pc insn \<or> (\<not> bit insn 20 \<and> bit insn 15)))
     \<or> (match insn ''11110-0---------0---------------''
        \<and> thumb32_rn_pc insn \<and> bits insn 21 24 \<notin> {2, 3})
     \<or> (match insn ''11110-1---------0---------------''
        \<and> thumb32_rn_pc insn \<and> bits insn 20 24 \<in> {0, 10})
     \<or> thumb32_is_branch insn
     \<or> (match insn ''11111000---0--------------------''
        \<and> (thumb32_rn_pc insn \<or> bits insn 12 15 = 15))
     \<or> (match insn ''1111100--101--------------------'' \<and> thumb32_rn_pc insn)
     \<or> (match insn ''11111010------------------------'' \<and> thumb32_rm_pc insn)
     \<or> (match insn ''11111011------------------------'' \<and> (thumb32_rn_pc insn \<or> thumb32_rm_pc insn))"

lemma thumb_reg_eq:
  "r \<le> 0xf \<Longrightarrow> thumb_is_sp r = Inr (r = 0xd)"
  "r \<le> 0xf \<Longrightarrow> thumb_is_bad r = Inr (r = 0xd \<or> r = 0xf)"
  by (simp_all add: thumb_is_sp_def thumb_is_bad_def thumb_is_pc_def)

lemmas pc_fields = thumb32_rn_pc_def thumb32_rm_pc_def bitsh_def bitsl_def

lemma pc_operand_not_generic:
  "thumb32_rn_pc insn \<Longrightarrow> template_select_dataproc_mim insn \<noteq> Inr (Some Thumb2_generic)"
  "thumb32_rn_pc insn \<Longrightarrow> template_select_dataproc_shr insn \<noteq> Inr (Some Thumb2_generic)"
  "thumb32_rm_pc insn \<Longrightarrow> template_select_dataproc_shr insn \<noteq> Inr (Some Thumb2_generic)"
  "thumb32_rn_pc insn \<Longrightarrow> template_select_ldm_stm insn \<noteq> Inr (Some Thumb2_generic)"
  "thumb32_rn_pc insn \<Longrightarrow> template_select_str insn \<noteq> Inr (Some Thumb2_generic)"
  "thumb32_rn_pc insn \<Longrightarrow> template_select_ldr insn \<noteq> Inr (Some Thumb2_generic)"
  "thumb32_rm_pc insn \<Longrightarrow> template_select_dataproc_reg insn \<noteq> Inr (Some Thumb2_generic)"
  "thumb32_rn_pc insn \<Longrightarrow> template_select_mul insn \<noteq> Inr (Some Thumb2_generic)"
  "thumb32_rm_pc insn \<Longrightarrow> template_select_mul insn \<noteq> Inr (Some Thumb2_generic)"
  "thumb32_rn_pc insn \<Longrightarrow> template_select_mull insn \<noteq> Inr (Some Thumb2_generic)"
  "thumb32_rm_pc insn \<Longrightarrow> template_select_mull insn \<noteq> Inr (Some Thumb2_generic)"
  unfolding template_select_dataproc_mim_def template_select_ldm_stm_def
    template_select_ldr_def template_select_str_def template_select_dataproc_shr_def
    template_select_dataproc_reg_def template_select_mul_def template_select_mull_def Let_def
  by (simp_all add: pc_fields thumb_reg_eq thumb_is_pc_eq bits_le_15)

lemma stored_pc_not_generic:
  "bits insn 12 15 = 15 \<Longrightarrow> template_select_str insn \<noteq> Inr (Some Thumb2_generic)"
  "\<not> bit insn 20 \<Longrightarrow> bit insn 15 \<Longrightarrow> template_select_ldm_stm insn \<noteq> Inr (Some Thumb2_generic)"
  using and_exp_eq_0_iff [of "bits insn 0 15" 15]
  by (simp_all add: template_select_str_def template_select_ldm_stm_def Let_def halfword_fields
      thumb_reg_eq thumb_is_pc_eq bits_le_15 bit_bits)

lemma adr_not_generic:
  "thumb32_rn_pc insn \<Longrightarrow> bits insn 20 24 \<in> {0, 10} \<Longrightarrow>
     template_select_dataproc_imm insn \<noteq> Inr (Some Thumb2_generic)"
  by (auto simp add: template_select_dataproc_imm_def Let_def pc_fields
      thumb_reg_eq thumb_is_pc_eq bits_le_15 match_bits)

lemma branch_not_generic:
  "thumb32_is_branch insn \<Longrightarrow> template_select_branch_misc_ctrl insn \<noteq> Inr (Some Thumb2_generic)"
  unfolding template_select_branch_misc_ctrl_def Let_def thumb32_is_branch_def
  by (cases "bit insn 14"; cases "bit insn 12"; cases "bit insn 25"; cases "bit insn 24"; cases "bit insn 23")
    (simp_all add: thumb32_match)

lemma select_thumb32_class:
  "match insn ''1110101-------------------------'' \<Longrightarrow>
     template_select_thumb32 insn = template_select_dataproc_shr insn"
  "match insn ''1110100--0----------------------'' \<Longrightarrow>
     template_select_thumb32 insn = template_select_ldm_stm insn"
  "match insn ''11110-0---------0---------------'' \<Longrightarrow>
     template_select_thumb32 insn = template_select_dataproc_mim insn"
  "match insn ''11110-1---------0---------------'' \<Longrightarrow>
     template_select_thumb32 insn = template_select_dataproc_imm insn"
  "match insn ''11110-----------1---------------'' \<Longrightarrow>
     template_select_thumb32 insn = template_select_branch_misc_ctrl insn"
  "match insn ''11111000---0--------------------'' \<Longrightarrow>
     template_select_thumb32 insn = template_select_str insn"
  "match insn ''1111100--101--------------------'' \<Longrightarrow>
     template_select_thumb32 insn = template_select_ldr insn"
  "match insn ''11111010------------------------'' \<Longrightarrow>
     template_select_thumb32 insn = template_select_dataproc_reg insn"
  "match insn ''11111011------------------------'' \<Longrightarrow>
     template_select_thumb32 insn = (if bit insn 23 then template_select_mull insn else template_select_mul insn)"
  by (simp_all add: template_select_thumb32_def thumb2_halfword_bits thumb32_match Let_def)

section \<open>Properties\<close>

text \<open>for a 32-bit Thumb instruction (its first halfword says so) the selector aborts the server
  on exactly one set of encodings: the miscellaneous control space with bits 26 to 23 all set and
  bits 22 to 20 not all set, where the default case asserts that such opcodes do not occur. Every
  other class assertion and every register assertion of the file holds.\<close>

theorem template_select_thumb32_fault_iff:
  assumes "is_thumb2_halfword (thumb2_first_halfowrd insn) = Inr True"
  shows "no_fault (template_select_thumb32 insn) \<longleftrightarrow> \<not> thumb32_misc_hole insn"
  using assms thumb32_fault_iff by (simp add: thumb2_halfword_bits)

text \<open>Witness: 0xf7808000, which no architecture version defines, stops the server.\<close>

theorem template_select_thumb32_fault_iff_witness:
  "is_thumb2_halfword (thumb2_first_halfowrd 0xf7808000) = Inr True
   \<and> \<not> no_fault (template_select_thumb32 0xf7808000)"
proof -
  have "is_thumb2_halfword (thumb2_first_halfowrd 0xf7808000) = Inr True"
    by (simp add: thumb2_halfword_bits)
  moreover have "thumb32_misc_hole 0xf7808000" by (simp add: thumb32_misc_hole_def thumb32_match)
  ultimately show ?thesis using template_select_thumb32_fault_iff by blast
qed



end
