(* ===== verification/Arch_A64.thy ===== *)
theory Arch_A64
  imports Arch_Arm
begin

text \<open>
  The 64-bit ARM layer of \<^verbatim>\<open>arch/arm64/include/arch.h\<close>, which also serves 32-bit tracees. The names
  that \<^verbatim>\<open>arch/arm/include/arch.h\<close> shares carry the prefix \<open>a64_\<close>. \<^verbatim>\<open>address_t\<close> is \<^verbatim>\<open>uintptr_t\<close> and
  \<^verbatim>\<open>offset_t\<close> is \<^verbatim>\<open>off_t\<close>, both 64 bits wide.
\<close>

section \<open>Definitions\<close>

type_synonym address64 = "64 word"

datatype a64_insn_kind_t = INSN_KIND_T32_16 | INSN_KIND_T32_32 | INSN_KIND_A32 | INSN_KIND_A64

definition BRANCH_INSN_T32_16 :: insn_t where "BRANCH_INSN_T32_16 = 0xe000"
definition BRANCH_INSN_T32_32 :: insn_t where "BRANCH_INSN_T32_32 = 0xf0009000"
definition BRANCH_INSN_A32 :: insn_t where "BRANCH_INSN_A32 = 0xea000000"
definition BRANCH_INSN_A64 :: insn_t where "BRANCH_INSN_A64 = 0x14000000"

record a64_pt_regs =
  a64_regs :: "u64 list"
  a64_sp :: u64
  a64_pc :: u64
  a64_pstate :: u64

definition PSR_MODE32_BIT :: u64 where "PSR_MODE32_BIT = 0x10"
definition PSR_T_BIT :: u64 where "PSR_T_BIT = 0x20"

definition arm64_is_mode32 :: "a64_pt_regs \<Rightarrow> bool" where
  "arm64_is_mode32 regs \<longleftrightarrow> a64_pstate regs AND PSR_MODE32_BIT \<noteq> 0"

definition arm64_get_execution_mode_insn_kind :: "a64_pt_regs \<Rightarrow> a64_insn_kind_t" where
  "arm64_get_execution_mode_insn_kind regs =
     (if arm64_is_mode32 regs
      then if a64_pstate regs AND PSR_T_BIT \<noteq> 0 then INSN_KIND_T32_32 else INSN_KIND_A32
      else INSN_KIND_A64)"

definition is_t32_32_halfword :: "insn_t \<Rightarrow> bool res" where
  "is_t32_32_halfword insn = adbi_assure (insn \<le> 0xffff) (Inr (insn AND 0xf800 \<ge> 0xe800))"

definition t32_first_halfowrd :: "insn_t \<Rightarrow> insn_t" where
  "t32_first_halfowrd insn = drop_bit 16 insn"

definition t32_last_halfowrd :: "insn_t \<Rightarrow> insn_t" where
  "t32_last_halfowrd insn = insn AND 0xffff"

definition t32_swap_halfwords :: "insn_t \<Rightarrow> insn_t" where
  "t32_swap_halfwords insn = push_bit 16 (insn AND 0xffff) OR drop_bit 16 insn"

definition a64_get_breakpoint_insn :: "a64_insn_kind_t \<Rightarrow> insn_t" where
  "a64_get_breakpoint_insn kind =
     (case kind of INSN_KIND_T32_16 \<Rightarrow> 0xde00
      | INSN_KIND_T32_32 \<Rightarrow> 0xf7f0a000
      | INSN_KIND_A32 \<Rightarrow> 0xe1200070
      | INSN_KIND_A64 \<Rightarrow> 0xd4200000)"

definition arm64_pc_to_address :: "a64_insn_kind_t \<Rightarrow> address64 \<Rightarrow> address64" where
  "arm64_pc_to_address kind addr =
     (case kind of INSN_KIND_T32_16 \<Rightarrow> addr - 4 | INSN_KIND_T32_32 \<Rightarrow> addr - 4
      | INSN_KIND_A32 \<Rightarrow> addr - 8 | INSN_KIND_A64 \<Rightarrow> addr)"

definition arm64_address_to_pc :: "a64_insn_kind_t \<Rightarrow> address64 \<Rightarrow> address64" where
  "arm64_address_to_pc kind addr =
     (case kind of INSN_KIND_T32_16 \<Rightarrow> addr + 4 | INSN_KIND_T32_32 \<Rightarrow> addr + 4
      | INSN_KIND_A32 \<Rightarrow> addr + 8 | INSN_KIND_A64 \<Rightarrow> addr)"

definition arm64_check_relative_jump_kind :: "a64_insn_kind_t \<Rightarrow> address64 \<Rightarrow> address64 \<Rightarrow> bool" where
  "arm64_check_relative_jump_kind kind addr0 dest =
     (let addr = arm64_address_to_pc kind addr0;
          distance = (if addr < dest then dest - addr else addr - dest)
      in if distance > 134217728 then False
         else let jump = sint (dest - addr)
              in case kind of
                   INSN_KIND_T32_16 \<Rightarrow> -2048 \<le> jump \<and> jump \<le> 2046
                 | INSN_KIND_T32_32 \<Rightarrow> -16777216 \<le> jump \<and> jump \<le> 16777214
                 | INSN_KIND_A32 \<Rightarrow> -33554432 \<le> jump \<and> jump \<le> 33554428
                 | INSN_KIND_A64 \<Rightarrow> -134217728 \<le> jump \<and> jump \<le> 134217724)"

definition t32_16_branch :: "64 word \<Rightarrow> insn_t" where
  "t32_16_branch jump =
     (let S = jump AND 0x01000000 \<noteq> 0;
          I1 = jump AND 0x00800000 \<noteq> 0;
          I2 = jump AND 0x00400000 \<noteq> 0;
          J1 = (I1 = S);
          J2 = (I2 = S);
          imm10 = ucast (push_bit 4 (jump AND 0x003ff000)) :: insn_t;
          imm11 = ucast (drop_bit 1 (jump AND 0xffe)) :: insn_t
      in BRANCH_INSN_T32_16 OR push_bit 26 (of_cond S) OR imm10 OR push_bit 13 (of_cond J1)
         OR push_bit 11 (of_cond J2) OR imm11)"

definition arm64_get_relative_jump_insn :: "a64_insn_kind_t \<Rightarrow> address64 \<Rightarrow> address64 \<Rightarrow> insn_t res" where
  "arm64_get_relative_jump_insn kind addr0 dest =
     (let addr = arm64_address_to_pc kind addr0
      in adbi_assure ((if addr < dest then dest - addr else addr - dest) \<le> 134217728)
           (let jump = dest - addr
            in Inr (case kind of
                 INSN_KIND_T32_16 \<Rightarrow> t32_16_branch jump
               | INSN_KIND_T32_32 \<Rightarrow> BRANCH_INSN_T32_32 OR ucast (signed_drop_bit 1 jump AND 0x7ff)
               | INSN_KIND_A32 \<Rightarrow> BRANCH_INSN_A32 OR ucast (signed_drop_bit 2 jump AND 0xffffff)
               | INSN_KIND_A64 \<Rightarrow> BRANCH_INSN_A64 OR ucast (signed_drop_bit 2 jump AND 0x3ffffff))))"

text \<open>The corrected kind, or \<open>None\<close> for the return value 0.\<close>

definition arm64_check_insn :: "insn_t \<Rightarrow> a64_insn_kind_t \<Rightarrow> a64_insn_kind_t option res" where
  "arm64_check_insn insn kind =
     (if kind = INSN_KIND_T32_16 \<or> kind = INSN_KIND_T32_32 then
        (if insn < 0xe800 then Inr (Some INSN_KIND_T32_16)
         else res_bind (is_t32_32_halfword (t32_first_halfowrd insn))
                (\<lambda>b. Inr (if b then Some INSN_KIND_T32_32 else None)))
      else Inr (Some kind))"

definition get_align_bits :: "a64_insn_kind_t \<Rightarrow> address64" where
  "get_align_bits kind =
     (case kind of INSN_KIND_T32_16 \<Rightarrow> 0x01 | INSN_KIND_T32_32 \<Rightarrow> 0x01
      | INSN_KIND_A32 \<Rightarrow> 0x03 | INSN_KIND_A64 \<Rightarrow> 0x03)"

definition arm64_check_align :: "address64 \<Rightarrow> a64_insn_kind_t \<Rightarrow> bool" where
  "arm64_check_align address kind \<longleftrightarrow> address AND get_align_bits kind = 0"

definition arm64_align_address :: "address64 \<Rightarrow> a64_insn_kind_t \<Rightarrow> address64" where
  "arm64_align_address address kind = address AND NOT (get_align_bits kind)"

definition arm64_detect_kind_from_unaligned_address :: "bool \<Rightarrow> address64 \<Rightarrow> a64_insn_kind_t" where
  "arm64_detect_kind_from_unaligned_address mode32 address =
     (if mode32 then if address AND 0x1 \<noteq> 0 then INSN_KIND_T32_32 else INSN_KIND_A32
      else INSN_KIND_A64)"

end
