(* ===== verification/Relative_Jump.thy ===== *)
theory Relative_Jump
  imports Arch_A64
begin

text \<open>
  The contract between the code that writes a jump over a traced instruction and the
  architecture layer, as a locale: when the range check accepts a pair of addresses, the encoder
  gives an unconditional branch instruction whose architectural target is the destination. It is interpreted for every
  instruction kind whose encoder meets it, with the branch target defined as the architecture
  manual does, independent of the encoder.
\<close>

section \<open>The interface\<close>

locale relative_jump =
  fixes align_ok :: "'a::len word \<Rightarrow> bool"
    and check_jump :: "'a word \<Rightarrow> 'a word \<Rightarrow> bool"
    and jump_insn :: "'a word \<Rightarrow> 'a word \<Rightarrow> insn_t res"
    and branch :: "insn_t \<Rightarrow> 'a word \<Rightarrow> 'a word option"
  assumes jump_reaches:
    "align_ok a \<Longrightarrow> align_ok d \<Longrightarrow> check_jump a d \<Longrightarrow> \<exists>i. jump_insn a d = Inr i \<and> branch i a = Some d"
begin

lemma jump_insn_target:
  "align_ok a \<Longrightarrow> align_ok d \<Longrightarrow> check_jump a d \<Longrightarrow> jump_insn a d = Inr i \<Longrightarrow> branch i a = Some d"
  using jump_reaches [of a d] by auto

lemma jump_insn_no_fault:
  "align_ok a \<Longrightarrow> align_ok d \<Longrightarrow> check_jump a d \<Longrightarrow> no_fault (jump_insn a d)"
  using jump_reaches [of a d] by (auto simp: no_fault_def)

text \<open>Jumps from one place to different destinations are different instructions.\<close>

lemma jump_insn_inj:
  assumes "align_ok a" "align_ok d" "align_ok d'" "check_jump a d" "check_jump a d'"
    and "jump_insn a d = jump_insn a d'"
  shows "d = d'"
  using assms jump_reaches [of a d] jump_reaches [of a d'] by auto

end

section \<open>Architectural branch targets\<close>

definition a1_target :: "insn_t \<Rightarrow> address32 \<Rightarrow> address32" where
  "a1_target insn addr = addr + 8 + signed_take_bit 25 (push_bit 2 (insn AND mask 24))"

definition t2_target :: "insn_t \<Rightarrow> address32 \<Rightarrow> address32" where
  "t2_target insn addr = addr + 4 + signed_take_bit 11 (push_bit 1 (insn AND mask 11))"

text \<open>Encoding T4: \<open>imm32 = SignExtend(S:I1:I2:imm10:imm11:0)\<close> with \<open>I1 = NOT(J1 EOR S)\<close> and \<open>I2 = NOT(J2 EOR S)\<close>.\<close>

definition t4_offset :: "insn_t \<Rightarrow> address32" where
  "t4_offset insn = signed_take_bit 24
     (push_bit 24 (of_cond (bit insn 26)) OR push_bit 23 (of_cond (bit insn 13 = bit insn 26))
      OR push_bit 22 (of_cond (bit insn 11 = bit insn 26))
      OR push_bit 12 (drop_bit 16 insn AND mask 10) OR push_bit 1 (insn AND mask 11))"

definition t4_target :: "insn_t \<Rightarrow> address32 \<Rightarrow> address32" where
  "t4_target insn addr = addr + 4 + t4_offset insn"

definition a64_b_target :: "insn_t \<Rightarrow> address64 \<Rightarrow> address64" where
  "a64_b_target insn addr = addr + signed_take_bit 27 (push_bit 2 (ucast (insn AND mask 26)))"

text \<open>
  The instruction as the processor decodes it: \<open>Some\<close> target if its opcode is that of an unconditional branch without link (encodings A1 with
  the condition AL, T2, T4 and the A64 \<^verbatim>\<open>b\<close>), \<open>None\<close> for any other instruction.
\<close>

definition a1_branch :: "insn_t \<Rightarrow> address32 \<Rightarrow> address32 option" where
  "a1_branch insn addr = (if insn AND 0xff000000 = 0xea000000 then Some (a1_target insn addr) else None)"

definition t2_branch :: "insn_t \<Rightarrow> address32 \<Rightarrow> address32 option" where
  "t2_branch insn addr = (if insn AND 0xfffff800 = 0xe000 then Some (t2_target insn addr) else None)"

definition t4_branch :: "insn_t \<Rightarrow> address32 \<Rightarrow> address32 option" where
  "t4_branch insn addr =
     (if bit insn 31 \<and> bit insn 30 \<and> bit insn 29 \<and> bit insn 28 \<and> \<not> bit insn 27 \<and> bit insn 15 \<and> \<not> bit insn 14 \<and> bit insn 12
      then Some (t4_target insn addr) else None)"

definition a64_branch :: "insn_t \<Rightarrow> address64 \<Rightarrow> address64 option" where
  "a64_branch insn addr = (if insn AND 0xfc000000 = 0x14000000 then Some (a64_b_target insn addr) else None)"

section \<open>Lemmas\<close>

lemma or_opcode: "x AND m = 0 \<Longrightarrow> b AND m = v \<Longrightarrow> (b OR x) AND m = v" for b x m :: "'a::len word"
  by (simp add: bit.conj_disj_distrib2)

lemma take_bit_diff_0:
  "take_bit k a = 0 \<Longrightarrow> take_bit k b = 0 \<Longrightarrow> take_bit k (a - b :: 'a::len word) = 0"
  by (simp add: take_bit_eq_0_iff)

lemma not_bit_take_bit_0: "take_bit k (w :: 'a::len word) = 0 \<Longrightarrow> i < k \<Longrightarrow> \<not> bit w i"
  by (metis bit_0_eq bit_take_bit_iff bot_apply bot_bool_def)

lemma offset_field_roundtrip:
  fixes j :: "'a::len word"
  assumes r: "- (2 ^ n) \<le> sint j" "sint j < 2 ^ n" and k: "take_bit k j = 0" "k \<le> n" and n: "n < LENGTH('a)"
  shows "signed_take_bit n (push_bit k (signed_drop_bit k j AND mask (Suc n - k))) = j"
proof (rule bit_word_eqI)
  fix i assume i: "i < LENGTH('a)"
  have low: "\<not> bit j i" if "i < k" using not_bit_take_bit_0 [OF k(1)] that .
  have high: "bit j i = bit j n" if "n \<le> i"
    using bit_signed_range [OF r, of i] bit_signed_range [OF r, of n] that i n by simp
  show "bit (signed_take_bit n (push_bit k (signed_drop_bit k j AND mask (Suc n - k)))) i = bit j i"
    using i k(2) n low high
    by (cases "i < k"; cases "n \<le> i")
      (auto simp: bit_signed_take_bit_iff bit_push_bit_iff bit_and_iff bit_mask_iff bit_signed_drop_bit_iff min_def)
qed

lemma aligned_mask:
  "w AND 3 = 0 \<longleftrightarrow> take_bit 2 (w :: 'a::len word) = 0" "w AND 1 = 0 \<longleftrightarrow> take_bit 1 (w :: 'a::len word) = 0"
  by (simp_all add: take_bit_eq_mask mask_eq_exp_minus_1)

lemma or_field:
  "b AND mask n = 0 \<Longrightarrow> (b OR (x AND mask n)) AND mask n = x AND mask n" for b x :: "'a::len word"
  by (simp add: bit.conj_disj_distrib2 and.assoc)

lemma arm_check_a1:
  assumes "arm_check_align a INSN_KIND_ARM" "arm_check_align d INSN_KIND_ARM"
    and "arm_check_relative_jump_kind INSN_KIND_ARM a d"
  shows "\<exists>i. arm_get_relative_jump_insn INSN_KIND_ARM a d = Inr i \<and> a1_branch i a = Some d"
proof -
  let ?j = "d - (a + 8)"
  have "take_bit 2 (8 :: address32) = 0" by simp
  then have al: "take_bit 2 ?j = 0"
    using assms(1,2) take_bit_diff_0 [of 2 d a] take_bit_diff_0 [of 2 "d - a" 8]
    by (simp add: arm_check_align_def arm_align_bits_def aligned_mask diff_diff_eq)
  have r: "- (2 ^ 25) \<le> sint ?j" "sint ?j < 2 ^ 25"
    and dist: "(if a + 8 < d then ?j else a + 8 - d) \<le> 33554432"
    using assms(3) by (auto simp: arm_check_relative_jump_kind_def arm_address_to_pc_def Let_def split: if_splits)
  have "(BRANCH_INSN_ARM OR (signed_drop_bit 2 ?j AND mask 24)) AND mask 24 = signed_drop_bit 2 ?j AND mask 24"
    by (rule or_field) (simp add: BRANCH_INSN_ARM_def mask_eq_exp_minus_1)
  then have "a1_target (BRANCH_INSN_ARM OR (signed_drop_bit 2 ?j AND mask 24)) a = a + 8 + ?j"
    using offset_field_roundtrip [OF r al] by (simp add: a1_target_def)
  moreover have "(BRANCH_INSN_ARM OR (signed_drop_bit 2 ?j AND mask 24)) AND 0xff000000 = 0xea000000"
    by (rule or_opcode) (simp_all add: BRANCH_INSN_ARM_def mask_eq_exp_minus_1 and.assoc)
  ultimately show ?thesis using dist
    by (simp add: arm_get_relative_jump_insn_def arm_address_to_pc_def mask_numerals Let_def a1_branch_def)
qed

lemma arm_check_t2:
  assumes "arm_check_align a INSN_KIND_THUMB" "arm_check_align d INSN_KIND_THUMB"
    and "arm_check_relative_jump_kind INSN_KIND_THUMB a d"
  shows "\<exists>i. arm_get_relative_jump_insn INSN_KIND_THUMB a d = Inr i \<and> t2_branch i a = Some d"
proof -
  let ?j = "d - (a + 4)"
  have "take_bit 1 (4 :: address32) = 0" by simp
  then have al: "take_bit 1 ?j = 0"
    using assms(1,2) take_bit_diff_0 [of 1 d a] take_bit_diff_0 [of 1 "d - a" 4]
    by (simp add: arm_check_align_def arm_align_bits_def aligned_mask diff_diff_eq del: One_nat_def)
  have r: "- (2 ^ 11) \<le> sint ?j" "sint ?j < 2 ^ 11"
    and dist: "(if a + 4 < d then ?j else a + 4 - d) \<le> 33554432"
    using assms(3) by (auto simp: arm_check_relative_jump_kind_def arm_address_to_pc_def Let_def split: if_splits)
  have "(BRANCH_INSN_THUMB OR (signed_drop_bit 1 ?j AND mask 11)) AND mask 11 = signed_drop_bit 1 ?j AND mask 11"
    by (rule or_field) (simp add: BRANCH_INSN_THUMB_def mask_eq_exp_minus_1)
  then have "t2_target (BRANCH_INSN_THUMB OR (signed_drop_bit 1 ?j AND mask 11)) a = a + 4 + ?j"
    using offset_field_roundtrip [OF r al] by (simp add: t2_target_def)
  moreover have "(BRANCH_INSN_THUMB OR (signed_drop_bit 1 ?j AND mask 11)) AND 0xfffff800 = 0xe000"
    by (rule or_opcode) (simp_all add: BRANCH_INSN_THUMB_def mask_eq_exp_minus_1 and.assoc)
  ultimately show ?thesis using dist
    by (simp add: arm_get_relative_jump_insn_def arm_address_to_pc_def mask_numerals Let_def t2_branch_def)
qed

lemma arm64_check_a64:
  assumes "arm64_check_align a INSN_KIND_A64" "arm64_check_align d INSN_KIND_A64"
    and "arm64_check_relative_jump_kind INSN_KIND_A64 a d"
  shows "\<exists>i. arm64_get_relative_jump_insn INSN_KIND_A64 a d = Inr i \<and> a64_branch i a = Some d"
proof -
  let ?j = "d - a"
  let ?f = "signed_drop_bit 2 ?j AND mask 26"
  have al: "take_bit 2 ?j = 0"
    using assms(1,2) take_bit_diff_0 [of 2 d a]
    by (simp add: arm64_check_align_def get_align_bits_def aligned_mask)
  have r: "- (2 ^ 27) \<le> sint ?j" "sint ?j < 2 ^ 27"
    and dist: "(if a < d then ?j else a - d) \<le> 134217728"
    using assms(3) by (auto simp: arm64_check_relative_jump_kind_def arm64_address_to_pc_def Let_def split: if_splits)
  have m: "0x3ffffff = (mask 26 :: u64)" by (simp add: mask_eq_exp_minus_1)
  have "(BRANCH_INSN_A64 OR ucast ?f) AND mask 26 = (ucast ?f :: insn_t)"
  proof -
    have "(ucast ?f :: insn_t) = ucast (signed_drop_bit 2 ?j) AND mask 26"
      by (rule bit_word_eqI) (auto simp: bit_simps)
    moreover have "(BRANCH_INSN_A64 OR (ucast (signed_drop_bit 2 ?j) AND mask 26)) AND mask 26
        = ucast (signed_drop_bit 2 ?j) AND mask 26"
      by (rule or_field) (simp add: BRANCH_INSN_A64_def mask_eq_exp_minus_1)
    ultimately show ?thesis by simp
  qed
  moreover have "ucast (ucast ?f :: insn_t) = ?f"
    by (rule bit_word_eqI) (auto simp: bit_simps)
  ultimately have "a64_b_target (BRANCH_INSN_A64 OR ucast ?f) a = a + ?j"
    using offset_field_roundtrip [OF r al] by (simp add: a64_b_target_def)
  moreover have "(BRANCH_INSN_A64 OR ucast ?f) AND 0xfc000000 = 0x14000000"
  proof (rule or_opcode)
    have "(ucast ?f :: insn_t) = ucast (signed_drop_bit 2 ?j) AND mask 26" by (rule bit_word_eqI) (auto simp: bit_simps)
    then show "(ucast ?f :: insn_t) AND 0xfc000000 = 0" by (simp add: mask_eq_exp_minus_1 and.assoc)
  qed (simp add: BRANCH_INSN_A64_def)
  ultimately show ?thesis using dist
    by (simp add: arm64_get_relative_jump_insn_def arm64_address_to_pc_def Let_def m a64_branch_def)
qed

text \<open>The bits of a Thumb-2 branch, and the offset read back from them.\<close>

lemma thumb2_branch_masks:
  "(0x003ff000 :: 32 word) = push_bit 12 (mask 10)" "(0xffe :: 32 word) = push_bit 1 (mask 11)"
  by (simp_all add: mask_eq_exp_minus_1)

lemma thumb2_branch_base:
  "\<not> bit BRANCH_INSN_THUMB2 26" "\<not> bit BRANCH_INSN_THUMB2 13" "\<not> bit BRANCH_INSN_THUMB2 11"
  "k < 10 \<Longrightarrow> \<not> bit BRANCH_INSN_THUMB2 (16 + k)" "k < 11 \<Longrightarrow> \<not> bit BRANCH_INSN_THUMB2 k"
proof -
  have "field_agrees BRANCH_INSN_THUMB2 16 0 10" "field_agrees BRANCH_INSN_THUMB2 0 0 11"
    by (simp_all add: BRANCH_INSN_THUMB2_def field_agrees_numeral)
  then show "k < 10 \<Longrightarrow> \<not> bit BRANCH_INSN_THUMB2 (16 + k)" "k < 11 \<Longrightarrow> \<not> bit BRANCH_INSN_THUMB2 k"
    by (simp_all add: field_agrees_iff)
qed (simp_all add: BRANCH_INSN_THUMB2_def)

lemma and_single_bits:
  "j AND 0x01000000 = 0 \<longleftrightarrow> \<not> bit (j :: 32 word) 24"
  "j AND 0x00800000 = 0 \<longleftrightarrow> \<not> bit j 23" "j AND 0x00400000 = 0 \<longleftrightarrow> \<not> bit j 22"
  using and_exp_eq_0_iff [of j 24] and_exp_eq_0_iff [of j 23] and_exp_eq_0_iff [of j 22] by simp_all

lemma bit_thumb2_branch:
  "bit (thumb2_branch j) 26 = bit j 24"
  "bit (thumb2_branch j) 13 = (bit j 23 = bit j 24)"
  "bit (thumb2_branch j) 11 = (bit j 22 = bit j 24)"
  "k < 10 \<Longrightarrow> bit (thumb2_branch j) (16 + k) = bit j (12 + k)"
  "k < 11 \<Longrightarrow> bit (thumb2_branch j) k = bit j (Suc k)"
  unfolding thumb2_branch_def Let_def thumb2_branch_masks and_single_bits
  by (simp_all add: bit_simps bit_of_cond thumb2_branch_base del: push_bit_of_1 push_bit_Suc drop_bit_Suc)

lemma thumb2_branch_opcode:
  "bit (thumb2_branch j) 31" "bit (thumb2_branch j) 30" "bit (thumb2_branch j) 29" "bit (thumb2_branch j) 28"
  "\<not> bit (thumb2_branch j) 27" "bit (thumb2_branch j) 15" "\<not> bit (thumb2_branch j) 14" "bit (thumb2_branch j) 12"
  unfolding thumb2_branch_def Let_def thumb2_branch_masks
  by (simp_all add: bit_simps bit_of_cond BRANCH_INSN_THUMB2_def del: push_bit_of_1 push_bit_Suc drop_bit_Suc)

lemma t4_offset_thumb2_branch:
  assumes r: "- (2 ^ 24) \<le> sint j" "sint j < 2 ^ 24" and "\<not> bit j 0"
  shows "t4_offset (thumb2_branch j) = j"
proof (rule bit_word_eqI)
  fix i assume i: "i < LENGTH(32)"
  have high: "bit j i = bit j 24" if "24 \<le> i"
    using bit_signed_range [OF r, of i] bit_signed_range [OF r, of 24] that i by simp
  have mid: "bit (thumb2_branch j) (4 + i) = bit j i" if "12 \<le> i" "i < 22"
    using bit_thumb2_branch(4) [of "i - 12" j] that by simp
  consider "i = 0" | "0 < i" "i < 12" | "12 \<le> i" "i < 22" | "i = 22" | "i = 23" | "24 \<le> i" by linarith
  then show "bit (t4_offset (thumb2_branch j)) i = bit j i" using i high mid assms(3)
    by cases (auto simp: t4_offset_def bit_thumb2_branch bit_signed_take_bit_iff bit_simps bit_of_cond min_def
        simp del: push_bit_Suc)
qed

lemma arm_check_t4:
  assumes "arm_check_align a INSN_KIND_THUMB2" "arm_check_align d INSN_KIND_THUMB2"
    and "arm_check_relative_jump_kind INSN_KIND_THUMB2 a d"
  shows "\<exists>i. arm_get_relative_jump_insn INSN_KIND_THUMB2 a d = Inr i \<and> t4_branch i a = Some d"
proof -
  let ?j = "d - (a + 4)"
  have "take_bit 1 (4 :: address32) = 0" by simp
  then have "take_bit 1 ?j = 0"
    using assms(1,2) take_bit_diff_0 [of 1 d a] take_bit_diff_0 [of 1 "d - a" 4]
    by (simp add: arm_check_align_def arm_align_bits_def aligned_mask diff_diff_eq del: One_nat_def)
  then have al: "\<not> bit ?j 0" by (rule not_bit_take_bit_0) simp
  have r: "- (2 ^ 24) \<le> sint ?j" "sint ?j < 2 ^ 24"
    and dist: "(if a + 4 < d then ?j else a + 4 - d) \<le> 33554432"
    using assms(3) by (auto simp: arm_check_relative_jump_kind_def arm_address_to_pc_def Let_def split: if_splits)
  then show ?thesis using t4_offset_thumb2_branch [OF r al] thumb2_branch_opcode [of ?j]
    by (simp add: arm_get_relative_jump_insn_def arm_address_to_pc_def Let_def t4_target_def t4_branch_def)
qed

section \<open>The encoders meet the interface\<close>

interpretation a1: relative_jump "\<lambda>a. arm_check_align a INSN_KIND_ARM"
  "arm_check_relative_jump_kind INSN_KIND_ARM" "arm_get_relative_jump_insn INSN_KIND_ARM" a1_branch
  by unfold_locales (rule arm_check_a1)

interpretation t2: relative_jump "\<lambda>a. arm_check_align a INSN_KIND_THUMB"
  "arm_check_relative_jump_kind INSN_KIND_THUMB" "arm_get_relative_jump_insn INSN_KIND_THUMB" t2_branch
  by unfold_locales (rule arm_check_t2)

interpretation t4: relative_jump "\<lambda>a. arm_check_align a INSN_KIND_THUMB2"
  "arm_check_relative_jump_kind INSN_KIND_THUMB2" "arm_get_relative_jump_insn INSN_KIND_THUMB2" t4_branch
  by unfold_locales (rule arm_check_t4)

interpretation a64: relative_jump "\<lambda>a. arm64_check_align a INSN_KIND_A64"
  "arm64_check_relative_jump_kind INSN_KIND_A64" "arm64_get_relative_jump_insn INSN_KIND_A64" a64_branch
  by unfold_locales (rule arm64_check_a64)

section \<open>Properties\<close>

text \<open>Decoding of an unconditional branch of each 32-bit kind.\<close>

definition arm_branch :: "insn_kind_t \<Rightarrow> insn_t \<Rightarrow> address32 \<Rightarrow> address32 option" where
  "arm_branch kind =
     (case kind of INSN_KIND_ARM \<Rightarrow> a1_branch | INSN_KIND_THUMB \<Rightarrow> t2_branch | INSN_KIND_THUMB2 \<Rightarrow> t4_branch)"

lemma arm_jump_reaches:
  assumes "arm_check_align a kind" "arm_check_align d kind" "arm_check_relative_jump_kind kind a d"
  shows "\<exists>insn. arm_get_relative_jump_insn kind a d = Inr insn \<and> arm_branch kind insn a = Some d"
  using assms a1.jump_reaches t2.jump_reaches t4.jump_reaches by (cases kind) (simp_all add: arm_branch_def)

text \<open>C13: on 32-bit ARM, for every instruction kind: when source and destination are aligned and the
  range check accepts them, the encoder returns an instruction that the processor decodes as an unconditional branch without link and, executing it
  at the source address, jumps exactly to the destination.\<close>

theorem arm_relative_jump_reaches:
  assumes "arm_check_align addr kind" "arm_check_align dest kind"
    and "arm_check_relative_jump_kind kind addr dest"
  shows "\<exists>insn. arm_get_relative_jump_insn kind addr dest = Inr insn \<and> arm_branch kind insn addr = Some dest"
  using assms by (rule arm_jump_reaches)

text \<open>Witness: a backward Thumb-2 branch over 15 MB.\<close>

theorem arm_relative_jump_reaches_witness:
  "\<exists>insn. arm_get_relative_jump_insn INSN_KIND_THUMB2 0x1000000 0x100000 = Inr insn
     \<and> arm_branch INSN_KIND_THUMB2 insn 0x1000000 = Some 0x100000"
  by (rule arm_relative_jump_reaches)
    (simp_all add: arm_check_align_def arm_align_bits_def arm_check_relative_jump_kind_def arm_address_to_pc_def)

text \<open>the same for A64: an accepted pair of word-aligned 64-bit addresses gets a \<^verbatim>\<open>b\<close> instruction
  whose target is the destination.\<close>

theorem a64_relative_jump_reaches:
  assumes "arm64_check_align addr INSN_KIND_A64" "arm64_check_align dest INSN_KIND_A64"
    and "arm64_check_relative_jump_kind INSN_KIND_A64 addr dest"
  shows "\<exists>insn. arm64_get_relative_jump_insn INSN_KIND_A64 addr dest = Inr insn \<and> a64_branch insn addr = Some dest"
  using assms by (rule a64.jump_reaches)

theorem a64_relative_jump_reaches_witness:
  "\<exists>insn. arm64_get_relative_jump_insn INSN_KIND_A64 0x7f0000000000 0x7efff8000000 = Inr insn
     \<and> a64_branch insn 0x7f0000000000 = Some 0x7efff8000000"
  by (rule a64_relative_jump_reaches)
    (simp_all add: arm64_check_align_def get_align_bits_def arm64_check_relative_jump_kind_def
      arm64_address_to_pc_def)

end
