(* ===== verification/Template_Arm.thy ===== *)
theory Template_Arm
  imports Template Select_Thumb32 Relative_Jump
begin

text \<open>
  Filling in the trampoline templates on 32-bit ARM, \<^verbatim>\<open>arch/arm/template.c\<close>: the values computed from
  the traced instruction and its address (branch targets, literal addresses), and the patching of
  register fields of the instructions inside the template.
\<close>

section \<open>Definitions\<close>

datatype arm_field_id =
    TF_NULL | TF_INSN | TF_HANDLER_ADDRESS | TF_ORIG_PC | TF_READ_PC | TF_NEXT_PC | TF_PATCH_COND
  | TF_PATCH_RD2RD | TF_PATCH_RD2RT | TF_PATCH_RD2RM | TF_PATCH_RD2RN
  | TF_PATCH_RT2RD | TF_PATCH_RT2RT | TF_PATCH_RT2RM | TF_PATCH_RT2RN
  | TF_PATCH_RM2RD | TF_PATCH_RM2RT | TF_PATCH_RM2RM | TF_PATCH_RM2RN
  | TF_PATCH_RN2RD | TF_PATCH_RN2RT | TF_PATCH_RN2RM | TF_PATCH_RN2RN
  | TF_PATCH_RD2RS | TF_PATCH_RT2RS | TF_PATCH_RM2RS | TF_PATCH_RN2RS
  | TF_ADR_T1_VAL | TF_ADR_T2_VAL | TF_ADR_T3_VAL | TF_LDR_LIT_T1_ADDRESS | TF_LDR_LIT_T2_ADDRESS
  | TF_B_T1_TARGET | TF_B_T2_TARGET | TF_CBZ_T1_TARGET | TF_B_T3_TARGET | TF_B_T4_TARGET
  | TF_BL_T1_TARGET | TF_BLX_T2_TARGET | TF_B_A1_TARGET | TF_BL_IMM_A1_TARGET | TF_BLX_IMM_A2_TARGET

record template_values_t =
  handler_address :: address32
  v_pc :: address32
  v_next_pc :: address32
  v_insn :: insn_t
  v_insn_kind :: insn_kind_t

record insn_masks_t =
  m_cond :: insn_t
  m_rd :: insn_t
  m_rt :: insn_t
  m_rm :: insn_t
  m_rn :: insn_t

definition no_masks :: insn_masks_t where
  "no_masks = \<lparr>m_cond = 0, m_rd = 0, m_rt = 0, m_rm = 0, m_rn = 0\<rparr>"

definition get_insn_masks :: "insn_t \<Rightarrow> insn_kind_t \<Rightarrow> insn_masks_t" where
  "get_insn_masks insn kind =
     (case kind of
        INSN_KIND_ARM \<Rightarrow>
          (let c = bit_mask 28 31;
               c = (if c = 0xf then 0 else c)
           in \<lparr>m_cond = c, m_rd = bit_mask 12 15, m_rt = bit_mask 12 15, m_rm = bit_mask 0 3,
               m_rn = bit_mask 16 19\<rparr>)
      | INSN_KIND_THUMB2 \<Rightarrow>
          \<lparr>m_cond = (if match insn ''11110-----------10-0------------'' then bit_mask 22 25 else 0),
           m_rd = bit_mask 8 11, m_rt = bit_mask 12 15, m_rm = bit_mask 0 3, m_rn = bit_mask 16 19\<rparr>
      | INSN_KIND_THUMB \<Rightarrow>
          (let opcode = bits insn 11 15
           in if match opcode ''1101-'' then no_masks\<lparr>m_cond := bit_mask 8 11\<rparr>
              else if match insn ''1011-0-1--------'' then
                no_masks\<lparr>m_cond := bit_mask 11 11, m_rn := bit_mask 0 2\<rparr>
              else if match opcode ''1001-'' \<or> match opcode ''1010-'' \<or> match opcode ''1100-''
                \<or> match opcode ''01001'' \<or> match opcode ''001--'' then
                no_masks\<lparr>m_rd := bit_mask 8 10, m_rn := bit_mask 8 10, m_rt := bit_mask 8 10\<rparr>
              else if match opcode ''00011'' \<or> match opcode ''1000-'' \<or> match opcode ''0101-''
                \<or> match opcode ''011--'' then
                no_masks\<lparr>m_rd := bit_mask 0 2, m_rn := bit_mask 3 5, m_rm := bit_mask 6 8, m_rt := bit_mask 0 2\<rparr>
              else if match opcode ''000--'' \<or> match opcode ''01000'' then
                no_masks\<lparr>m_rd := bit_mask 0 2, m_rn := bit_mask 0 2, m_rm := bit_mask 3 5\<rparr>
              else no_masks))"

definition patch_by_mask :: "insn_t \<Rightarrow> insn_t \<Rightarrow> insn_t \<Rightarrow> insn_t \<Rightarrow> insn_t res" where
  "patch_by_mask src dst mask1 mask2 =
     adbi_assure (bits_count mask1 = bits_count mask2)
     (res_bind (res_of_option (set_bits_by_mask (get_bits_by_mask src mask1) mask2)) (\<lambda>v.
        Inr ((dst AND NOT mask2) OR v)))"

text \<open>All four registers are guarded by \<^verbatim>\<open>masks->rd\<close>, as in the code.\<close>

definition select_temporary_reg :: "insn_t \<Rightarrow> insn_masks_t \<Rightarrow> insn_t res" where
  "select_temporary_reg insn masks =
     (let rd = (if m_rd masks \<noteq> 0 then get_bits_by_mask insn (m_rd masks) else 0xf);
          rt = (if m_rd masks \<noteq> 0 then get_bits_by_mask insn (m_rt masks) else 0xf);
          rn = (if m_rd masks \<noteq> 0 then get_bits_by_mask insn (m_rn masks) else 0xf);
          rm = (if m_rd masks \<noteq> 0 then get_bits_by_mask insn (m_rm masks) else 0xf)
      in case find (\<lambda>rc. rc \<noteq> rd \<and> rc \<noteq> rt \<and> rc \<noteq> rn \<and> rc \<noteq> rm) [0, 1, 2, 3, 4, 5, 6, 7] of
           Some rc \<Rightarrow> Inr rc
         | None \<Rightarrow> Inl Unreachable)"

text \<open>
  The cases of the macro \<^verbatim>\<open>MC(n, s, d)\<close>: mask in the traced instruction and mask in the template's
  instruction; then the cases that insert a free register.
\<close>

fun mc_masks :: "arm_field_id \<Rightarrow> insn_masks_t \<Rightarrow> insn_masks_t \<Rightarrow> (insn_t \<times> insn_t) option" where
  "mc_masks TF_PATCH_COND src dst = Some (m_cond src, m_cond dst)"
| "mc_masks TF_PATCH_RD2RD src dst = Some (m_rd src, m_rd dst)"
| "mc_masks TF_PATCH_RT2RD src dst = Some (m_rd src, m_rt dst)"
| "mc_masks TF_PATCH_RN2RD src dst = Some (m_rd src, m_rn dst)"
| "mc_masks TF_PATCH_RM2RD src dst = Some (m_rd src, m_rm dst)"
| "mc_masks TF_PATCH_RD2RT src dst = Some (m_rt src, m_rd dst)"
| "mc_masks TF_PATCH_RT2RT src dst = Some (m_rt src, m_rt dst)"
| "mc_masks TF_PATCH_RN2RT src dst = Some (m_rt src, m_rn dst)"
| "mc_masks TF_PATCH_RM2RT src dst = Some (m_rt src, m_rm dst)"
| "mc_masks TF_PATCH_RD2RN src dst = Some (m_rn src, m_rd dst)"
| "mc_masks TF_PATCH_RT2RN src dst = Some (m_rn src, m_rt dst)"
| "mc_masks TF_PATCH_RN2RN src dst = Some (m_rn src, m_rn dst)"
| "mc_masks TF_PATCH_RM2RN src dst = Some (m_rn src, m_rm dst)"
| "mc_masks TF_PATCH_RD2RM src dst = Some (m_rm src, m_rd dst)"
| "mc_masks TF_PATCH_RT2RM src dst = Some (m_rm src, m_rt dst)"
| "mc_masks TF_PATCH_RN2RM src dst = Some (m_rm src, m_rn dst)"
| "mc_masks TF_PATCH_RM2RM src dst = Some (m_rm src, m_rm dst)"
| "mc_masks _ src dst = None"

fun rs_mask :: "arm_field_id \<Rightarrow> insn_masks_t \<Rightarrow> insn_t option" where
  "rs_mask TF_PATCH_RD2RS dst = Some (m_rd dst)"
| "rs_mask TF_PATCH_RT2RS dst = Some (m_rt dst)"
| "rs_mask TF_PATCH_RM2RS dst = Some (m_rm dst)"
| "rs_mask TF_PATCH_RN2RS dst = Some (m_rn dst)"
| "rs_mask _ dst = None"

definition patch_by_temporary_reg :: "insn_t \<Rightarrow> insn_masks_t \<Rightarrow> insn_t \<Rightarrow> insn_t \<Rightarrow> insn_t res" where
  "patch_by_temporary_reg insn masks dst_insn m =
     res_bind (select_temporary_reg insn masks) (\<lambda>r.
     adbi_assure (bits_count m \<noteq> 0)
     (patch_by_mask r dst_insn (bit_mask 0 (unat (bits_count m) - 1)) m))"

text \<open>The instruction of the template at the field, and its kind.\<close>

definition patched_insn :: "insn_kind_t \<Rightarrow> template_instance_t \<Rightarrow> int \<Rightarrow> (insn_t \<times> insn_kind_t) res" where
  "patched_insn kind inst off =
     (if kind = INSN_KIND_ARM then
        res_bind (read_u32 inst off) (\<lambda>w. Inr (w, INSN_KIND_ARM))
      else
        res_bind (read_u16 inst off) (\<lambda>h.
        if h \<ge> 0xe800 then res_bind (read_u32 inst off) (\<lambda>w. Inr (thumb2_swap_halfwords w, INSN_KIND_THUMB2))
        else Inr (ucast h, INSN_KIND_THUMB)))"

definition store_patched :: "insn_kind_t \<Rightarrow> template_instance_t \<Rightarrow> int \<Rightarrow> insn_t \<Rightarrow> insn_t \<Rightarrow> template_instance_t res" where
  "store_patched dst_kind inst off dst_insn m =
     (case dst_kind of
        INSN_KIND_THUMB \<Rightarrow> template_insert_u16_bits inst off (ucast dst_insn) (ucast m)
      | INSN_KIND_THUMB2 \<Rightarrow>
          template_insert_u32_bits inst off (thumb2_swap_halfwords dst_insn) (thumb2_swap_halfwords m)
      | INSN_KIND_ARM \<Rightarrow> template_insert_u32_bits inst off dst_insn m)"

definition patch_insn ::
    "arm_field_id template_field_t \<Rightarrow> template_instance_t \<Rightarrow> template_values_t \<Rightarrow> template_instance_t res" where
  "patch_insn f inst values =
     res_bind (patched_insn (v_insn_kind values) inst (offset f)) (\<lambda>(dst_insn, dst_kind).
     let src = get_insn_masks (v_insn values) (v_insn_kind values);
         dst = get_insn_masks dst_insn dst_kind
     in case mc_masks (field f) src dst of
          Some (ms, md) \<Rightarrow>
            res_bind (patch_by_mask (v_insn values) dst_insn ms md)
              (\<lambda>r. store_patched dst_kind inst (offset f) r md)
        | None \<Rightarrow>
            (case rs_mask (field f) dst of
               Some md \<Rightarrow>
                 res_bind (patch_by_temporary_reg (v_insn values) dst dst_insn md)
                   (\<lambda>r. store_patched dst_kind inst (offset f) r md)
             | None \<Rightarrow> Inl Assertion))"

definition thumb2_branch_decode :: "insn_t \<Rightarrow> insn_t" where
  "thumb2_branch_decode insn =
     (let imm10 = bits insn 16 25;
          imm11 = bits insn 0 10;
          s = bit_c insn 26;
          j1 = bit_c insn 13;
          j2 = bit_c insn 11;
          i1 = of_cond (s XOR j1 = 0);
          i2 = of_cond (s XOR j2 = 0);
          imm32 = 0 OR push_bit 1 imm11 OR push_bit 12 imm10 OR push_bit 22 i2 OR push_bit 23 i1 OR push_bit 24 s
      in sign_extend imm32 24)"

text \<open>The value that a field of the helper group receives, with the assertions on the instruction.\<close>

definition adr_t23_val :: "insn_t \<Rightarrow> address32 \<Rightarrow> address32 res" where
  "adr_t23_val insn pc =
     (let t2 = match insn ''11110-10101011110---------------'';
          t3 = match insn ''11110-10000011110---------------''
      in adbi_assure (t2 \<or> t3)
         (let imm8 = bits insn 0 7;
              imm3 = bits insn 12 14;
              i = bit_c insn 26;
              imm32 = push_bit 11 i OR push_bit 8 imm3 OR imm8;
              addr = (pc + 4) AND 0xfffffffc
          in Inr (if t2 then addr - imm32 else addr + imm32)))"

fun helper_value :: "arm_field_id \<Rightarrow> insn_t \<Rightarrow> address32 \<Rightarrow> address32 res" where
  "helper_value TF_CBZ_T1_TARGET insn pc =
     adbi_assure (match insn ''1011-0-1--------'')
     (let imm5 = drop_bit 3 insn AND 0x1f;
          i = drop_bit 9 insn AND 0x1;
          imm32 = push_bit 1 (push_bit 5 i OR imm5)
      in Inr ((pc + 4 + imm32) OR 0x1))"
| "helper_value TF_ADR_T1_VAL insn pc =
     adbi_assure (match insn ''10100-----------'')
     (let imm8 = insn AND 0xff
      in Inr (((pc + 4) AND 0xfffffffc) + push_bit 2 imm8))"
| "helper_value TF_ADR_T2_VAL insn pc = adr_t23_val insn pc"
| "helper_value TF_ADR_T3_VAL insn pc = adr_t23_val insn pc"
| "helper_value TF_LDR_LIT_T1_ADDRESS insn pc =
     adbi_assure (match insn ''01001-----------'')
     (let imm8 = insn AND 0xff
      in Inr (((pc + 4) AND 0xfffffffc) + imm8 * 4))"
| "helper_value TF_LDR_LIT_T2_ADDRESS insn pc =
     adbi_assure (match insn ''11111000-1011111----------------'')
     (let imm32 = bits insn 0 11;
          addr = (pc + 4) AND 0xfffffffc
      in Inr (if bit_c insn 23 \<noteq> 0 then addr + imm32 else addr - imm32))"
| "helper_value TF_B_T1_TARGET insn pc =
     adbi_assure (match insn ''1101------------'')
     (adbi_assure (\<not> match insn ''1101111---------'')
     (let imm8 = bits insn 0 7;
          imm32 = sign_extend (push_bit 1 imm8) 9
      in Inr ((pc + 4 + imm32) OR 0x1)))"
| "helper_value TF_B_T2_TARGET insn pc =
     adbi_assure (match insn ''11100-----------'')
     (let imm11 = bits insn 0 10;
          imm32 = sign_extend (push_bit 1 imm11) 12
      in Inr ((pc + 4 + imm32) OR 0x1))"
| "helper_value TF_B_T3_TARGET insn pc =
     adbi_assure (match insn ''11110-----------10-0------------'')
     (let imm11 = bits insn 0 10;
          s = bit_c insn 26;
          j1 = bit_c insn 13;
          j2 = bit_c insn 11;
          imm32 = sign_extend (push_bit 1 (imm11 OR push_bit 11 j1 OR push_bit 12 j2 OR push_bit 13 s)) 14
      in Inr ((pc + 4 + imm32) OR 0x1))"
| "helper_value TF_B_T4_TARGET insn pc = Inr ((pc + 4 + thumb2_branch_decode insn) OR 0x1)"
| "helper_value TF_BL_T1_TARGET insn pc = Inr ((pc + 4 + thumb2_branch_decode insn) OR 0x1)"
| "helper_value TF_BLX_T2_TARGET insn pc =
     adbi_assure (match insn ''11110-----------11--------------'')
     (let target = ((pc + 4) AND 0xfffffffc) + thumb2_branch_decode insn
      in adbi_assure (insn AND 1 = 0) (adbi_assure (target AND 3 = 0) (Inr target)))"
| "helper_value TF_B_A1_TARGET insn pc =
     (let imm24 = insn AND 0x00ffffff
      in Inr (pc + 8 + sign_extend (push_bit 2 imm24) 26))"
| "helper_value TF_BL_IMM_A1_TARGET insn pc =
     (let imm24 = insn AND 0x00ffffff
      in Inr (pc + 8 + sign_extend (push_bit 2 imm24) 26))"
| "helper_value TF_BLX_IMM_A2_TARGET insn pc =
     (let imm24 = insn AND 0x00ffffff;
          h = insn AND push_bit 24 1;
          imm32 = sign_extend (push_bit 2 imm24 OR (if h \<noteq> 0 then 0x2 else 0x0)) 26
      in Inr ((pc + 8 + imm32) OR 0x1))"
| "helper_value _ insn pc = Inl Unreachable"

fun is_helper :: "arm_field_id \<Rightarrow> bool" where
  "is_helper TF_CBZ_T1_TARGET = True" | "is_helper TF_ADR_T1_VAL = True" | "is_helper TF_ADR_T2_VAL = True"
| "is_helper TF_ADR_T3_VAL = True" | "is_helper TF_LDR_LIT_T1_ADDRESS = True"
| "is_helper TF_LDR_LIT_T2_ADDRESS = True" | "is_helper TF_B_T1_TARGET = True" | "is_helper TF_B_T2_TARGET = True"
| "is_helper TF_B_T3_TARGET = True" | "is_helper TF_B_T4_TARGET = True" | "is_helper TF_BL_T1_TARGET = True"
| "is_helper TF_BLX_T2_TARGET = True" | "is_helper TF_B_A1_TARGET = True" | "is_helper TF_BL_IMM_A1_TARGET = True"
| "is_helper TF_BLX_IMM_A2_TARGET = True" | "is_helper _ = False"

text \<open>One iteration of the loop of \<^verbatim>\<open>template_fillout\<close>.\<close>

definition fillout_field ::
    "template_values_t \<Rightarrow> arm_field_id template_field_t \<Rightarrow> template_instance_t \<Rightarrow> template_instance_t res" where
  "fillout_field values f inst =
     (if field f = TF_HANDLER_ADDRESS then template_insert_u32 inst (offset f) (handler_address values)
      else if field f = TF_ORIG_PC then
        template_insert_u32 inst (offset f)
          (if v_insn_kind values \<noteq> INSN_KIND_ARM then v_pc values OR 0x01 else v_pc values)
      else if field f = TF_READ_PC then
        template_insert_u32 inst (offset f)
          (if v_insn_kind values = INSN_KIND_ARM then v_pc values + 8 else v_pc values + 4)
      else if field f = TF_NEXT_PC then
        template_insert_u32 inst (offset f)
          (if v_insn_kind values \<noteq> INSN_KIND_ARM then v_next_pc values OR 0x01 else v_next_pc values)
      else if field f = TF_INSN then
        (if v_insn_kind values = INSN_KIND_THUMB then
           adbi_assure (drop_bit 16 (v_insn values) = 0)
             (template_insert_u16 inst (offset f) (ucast (v_insn values)))
         else template_insert_u32 inst (offset f)
           (if v_insn_kind values \<noteq> INSN_KIND_ARM then thumb2_swap_halfwords (v_insn values) else v_insn values))
      else if is_helper (field f) then
        res_bind (helper_value (field f) (v_insn values) (v_pc values)) (template_insert_u32 inst (offset f))
      else patch_insn f inst values)"

definition template_fillout :: "arm_field_id template_t \<Rightarrow> template_values_t \<Rightarrow> template_instance_t res" where
  "template_fillout t values =
     fields_loop (\<lambda>x. x = TF_NULL) (fillout_field values) (template_fields t) (template_instatiate t)"

definition template_get_handler ::
    "arm_field_id template_t \<Rightarrow> address32 \<Rightarrow> address32 \<Rightarrow> insn_t \<Rightarrow> insn_kind_t \<Rightarrow> template_instance_t res" where
  "template_get_handler t insn_address handler insn kind =
     template_fillout t
       \<lparr>handler_address = handler, v_pc = insn_address,
        v_next_pc = (if kind = INSN_KIND_THUMB then insn_address + 2 else insn_address + 4),
        v_insn = insn, v_insn_kind = kind\<rparr>"

definition template_select :: "insn_t \<Rightarrow> insn_kind_t \<Rightarrow> selection res" where
  "template_select insn kind =
     (case kind of INSN_KIND_THUMB \<Rightarrow> template_select_thumb insn
      | INSN_KIND_THUMB2 \<Rightarrow> template_select_thumb32 insn
      | INSN_KIND_ARM \<Rightarrow> template_select_arm insn)"

section \<open>Patching by masks\<close>

lemma get_bits_by_mask_cong: "v AND m = w AND m \<Longrightarrow> get_bits_by_mask v m = get_bits_by_mask w m"
proof -
  assume eq: "v AND m = w AND m"
  have "collected v m 0 = collected w m 0"
  proof (rule collected_cong)
    fix i assume "bit m i"
    then show "bit v i = bit w i" using arg_cong [OF eq, of "\<lambda>x. bit x i"] by (simp add: bit_simps)
  qed
  then show ?thesis by (simp add: get_bits_by_mask_collected)
qed

lemma patch_by_mask_ok:
  assumes "bits_count m1 = bits_count m2"
  shows "\<exists>r. patch_by_mask src dst m1 m2 = Inr r \<and> get_bits_by_mask r m2 = get_bits_by_mask src m1
    \<and> r AND NOT m2 = dst AND NOT m2"
proof -
  have "card {i. bit m1 i} = card {i. bit m2 i}" using assms by (simp flip: unat_bits_count)
  then have "unat (get_bits_by_mask src m1) < 2 ^ card {i. bit m2 i}"
    using get_bits_by_mask_less [of src m1] by simp
  then obtain v where v: "set_bits_by_mask (get_bits_by_mask src m1) m2 = Some v" "v AND NOT m2 = 0"
    "get_bits_by_mask v m2 = get_bits_by_mask src m1" using set_bits_by_mask_fits by blast
  let ?r = "(dst AND NOT m2) OR v"
  have "?r AND m2 = v AND m2" by (simp add: bit.conj_disj_distrib2 and.assoc)
  moreover have "?r AND NOT m2 = dst AND NOT m2" using v(2) by (simp add: bit.conj_disj_distrib2 and.assoc)
  ultimately show ?thesis using v assms get_bits_by_mask_cong [of ?r m2 v]
    by (auto simp: patch_by_mask_def)
qed

lemma card_bit_mask: "l \<le> h \<Longrightarrow> h < 32 \<Longrightarrow> bits_count (bit_mask l h) = of_nat (Suc (h - l))"
proof -
  assume "l \<le> h" "h < 32"
  then have "{i. bit (bit_mask l h) i} = {l..h}" by (auto simp: bit_bit_mask)
  then show ?thesis using \<open>l \<le> h\<close> by (simp add: bits_count_eq_card Suc_diff_le del: of_nat_Suc)
qed

definition arm_masks :: insn_masks_t where
  "arm_masks = get_insn_masks 0 INSN_KIND_ARM"

lemma arm_masks_any: "get_insn_masks insn INSN_KIND_ARM = arm_masks"
  by (simp add: arm_masks_def get_insn_masks_def)

lemma arm_masks_eq:
  "arm_masks = \<lparr>m_cond = bit_mask 28 31, m_rd = bit_mask 12 15, m_rt = bit_mask 12 15, m_rm = bit_mask 0 3,
     m_rn = bit_mask 16 19\<rparr>"
  by (simp add: arm_masks_def get_insn_masks_def bit_mask_def Let_def)

lemma arm_mc_masks_count:
  "mc_masks f arm_masks arm_masks = Some (ms, md) \<Longrightarrow> bits_count ms = bits_count md"
  by (cases f) (auto simp: arm_masks_eq card_bit_mask)

text \<open>Of the eight low registers at most four are taken.\<close>

lemma find_free_reg:
  "\<exists>r. find (\<lambda>rc. rc \<noteq> a \<and> rc \<noteq> b \<and> rc \<noteq> c \<and> rc \<noteq> d) [0, 1, 2, 3, 4, 5, 6, 7 :: insn_t] = Some r
     \<and> r < 8 \<and> r \<notin> {a, b, c, d}"
proof (cases "find (\<lambda>rc. rc \<noteq> a \<and> rc \<noteq> b \<and> rc \<noteq> c \<and> rc \<noteq> d) [0, 1, 2, 3, 4, 5, 6, 7 :: insn_t]")
  case None
  then have "set [0, 1, 2, 3, 4, 5, 6, 7] \<subseteq> {a, b, c, d}" unfolding find_None_iff by blast
  then have "card (set [0, 1, 2, 3, 4, 5, 6, 7 :: insn_t]) \<le> card {a, b, c, d}" by (intro card_mono) simp_all
  moreover have "card {a, b, c, d} \<le> 4" using card_insert_le_m1 [of 4 "{b, c, d}" a]
      card_insert_le_m1 [of 3 "{c, d}" b] card_insert_le_m1 [of 2 "{d}" c] by simp
  ultimately show ?thesis by simp
next
  case (Some r)
  then have "r \<in> {0, 1, 2, 3, 4, 5, 6, 7}" "r \<notin> {a, b, c, d}"
    by (auto simp: find_Some_iff nth_Cons' split: if_splits)
  then show ?thesis using Some by auto
qed

lemma select_temporary_reg_spec:
  "\<exists>r. select_temporary_reg insn masks = Inr r \<and> r < 8
     \<and> (m_rd masks \<noteq> 0 \<longrightarrow> r \<notin> get_bits_by_mask insn ` {m_rd masks, m_rt masks, m_rn masks, m_rm masks})"
proof (cases "m_rd masks = 0")
  case True
  then show ?thesis using find_free_reg [of "0xf" "0xf" "0xf" "0xf"]
    by (auto simp: select_temporary_reg_def)
next
  case False
  then show ?thesis
    using find_free_reg [of "get_bits_by_mask insn (m_rd masks)" "get_bits_by_mask insn (m_rt masks)"
        "get_bits_by_mask insn (m_rn masks)" "get_bits_by_mask insn (m_rm masks)"]
    by (force simp: select_temporary_reg_def Let_def)
qed

section \<open>Branch offsets\<close>

lemma bit_push_one: "bit (push_bit 1 (w :: 'a::len word)) i \<longleftrightarrow> 0 < i \<and> i < LENGTH('a) \<and> bit w (i - 1)"
  by (simp only: bit_push_bit_iff) (auto simp: Suc_le_eq)

lemma bits_eq_and_mask: "h < 31 \<Longrightarrow> bits v 0 h = v AND mask (Suc h)"
  by (simp add: bits_eq)

text \<open>The value that \<^verbatim>\<open>thumb2_branch_decode\<close> extends is the architecture's 25-bit offset.\<close>

definition t4_raw :: "insn_t \<Rightarrow> insn_t" where
  "t4_raw insn =
     push_bit 24 (of_cond (bit insn 26)) OR push_bit 23 (of_cond (bit insn 13 = bit insn 26))
      OR push_bit 22 (of_cond (bit insn 11 = bit insn 26))
      OR push_bit 12 (drop_bit 16 insn AND mask 10) OR push_bit 1 (insn AND mask 11)"

lemma thumb2_branch_decode_eq: "thumb2_branch_decode insn = signed_take_bit 23 (t4_raw insn)"
proof -
  have "bits insn 16 25 = drop_bit 16 insn AND mask 10" by (simp add: bits_eq)
  moreover have "bit_c insn 26 = of_cond (bit insn 26)" by (simp add: bit_c_eq)
  moreover have "(bit_c insn 26 XOR bit_c insn n = 0) = (bit insn n = bit insn 26)" for n
    by (simp add: bit_c_eq)
  ultimately show ?thesis
    by (simp add: thumb2_branch_decode_def Let_def sign_extend_eq bits_eq_and_mask t4_raw_def ac_simps
        del: push_bit_Suc push_bit_of_1)
qed

lemma t4_offset_raw: "t4_offset insn = signed_take_bit 24 (t4_raw insn)"
  by (simp add: t4_offset_def t4_raw_def)

lemma bit_t4_raw:
  "bit (t4_raw insn) 24 = bit insn 26" "bit (t4_raw insn) 23 = (bit insn 13 = bit insn 26)"
  by (auto simp: t4_raw_def bit_simps bit_of_cond simp del: push_bit_Suc push_bit_of_1)

lemma signed_take_bit_step:
  fixes w :: "'a::len word"
  assumes "Suc n < LENGTH('a)"
  shows "signed_take_bit n w = signed_take_bit (Suc n) w \<longleftrightarrow> bit w n = bit w (Suc n)"
proof
  assume "signed_take_bit n w = signed_take_bit (Suc n) w"
  from arg_cong [OF this, of "\<lambda>x. bit x (Suc n)"] show "bit w n = bit w (Suc n)"
    using assms by (simp add: bit_signed_take_bit_iff min_def)
next
  assume eq: "bit w n = bit w (Suc n)"
  show "signed_take_bit n w = signed_take_bit (Suc n) w"
  proof (rule bit_word_eqI)
    fix i assume "i < LENGTH('a)"
    consider "i \<le> n" | "i = Suc n" | "Suc n < i" by linarith
    then show "bit (signed_take_bit n w) i = bit (signed_take_bit (Suc n) w) i"
      using eq by cases (auto simp: bit_signed_take_bit_iff min_def)
  qed
qed

text \<open>Filling in one field stays inside a window of eight bytes at its offset.\<close>

lemma store_patched_frame:
  "store_patched k inst off r md = Inr inst' \<Longrightarrow> same_outside off 8 inst inst'"
  by (auto simp: store_patched_def dest: insert_frames split: insn_kind_t.splits)

lemma patch_insn_frame: "patch_insn f inst values = Inr inst' \<Longrightarrow> same_outside (offset f) 8 inst inst'"
  by (auto simp: patch_insn_def res_bind_eq_Inr Let_def dest: store_patched_frame split: option.splits)

lemma fillout_field_frame:
  "fillout_field values f inst = Inr inst' \<Longrightarrow> same_outside (offset f) 8 inst inst'"
  by (auto simp: fillout_field_def res_bind_eq_Inr dest: insert_frames patch_insn_frame split: if_splits)

interpretation arm_filler: template_filler "\<lambda>x. x = TF_NULL" "fillout_field vals" "\<lambda>i. i" "\<lambda>_. 8" for vals
  by unfold_locales (rule fillout_field_frame)

text \<open>Branch targets by the architecture manual: the encodings T1, T3 and A2 (the others are above).\<close>

definition t1_target :: "insn_t \<Rightarrow> address32 \<Rightarrow> address32" where
  "t1_target insn pc = pc + 4 + signed_take_bit 8 (push_bit 1 (insn AND mask 8))"

definition a2_target :: "insn_t \<Rightarrow> address32 \<Rightarrow> address32" where
  "a2_target insn pc = pc + 8 + signed_take_bit 25 (push_bit 2 (insn AND mask 24) OR push_bit 1 (of_cond (bit insn 24)))"

definition t3_raw :: "insn_t \<Rightarrow> address32" where
  "t3_raw insn =
     push_bit 20 (of_cond (bit insn 26)) OR push_bit 19 (of_cond (bit insn 11)) OR push_bit 18 (of_cond (bit insn 13))
     OR push_bit 12 (drop_bit 16 insn AND mask 6) OR push_bit 1 (insn AND mask 11)"

definition t3_target :: "insn_t \<Rightarrow> address32 \<Rightarrow> address32" where
  "t3_target insn pc = pc + 4 + signed_take_bit 20 (t3_raw insn)"

text \<open>The code's T3 offset, bit by bit, beside the architecture's.\<close>

definition t3_code :: "insn_t \<Rightarrow> address32" where
  "t3_code insn = push_bit 1 (bits insn 0 10 OR push_bit 11 (bit_c insn 13) OR push_bit 12 (bit_c insn 11)
     OR push_bit 13 (bit_c insn 26))"

lemma bit_t3_code:
  "i < 32 \<Longrightarrow> bit (signed_take_bit 13 (t3_code insn)) i \<longleftrightarrow>
     (if i = 0 then False else if i < 12 then bit insn (i - 1) else if i = 12 then bit insn 13 else bit insn 11)"
  by (auto simp: t3_code_def bit_signed_take_bit_iff bit_push_one bit_bits bit_bit_c bit_or_iff
      bit_push_bit_iff min_def simp del: push_bit_Suc One_nat_def)

lemma bit_t3_raw:
  "i < 32 \<Longrightarrow> bit (signed_take_bit 20 (t3_raw insn)) i \<longleftrightarrow>
     (if i = 0 then False else if i < 12 then bit insn (i - 1) else if i < 18 then bit insn (4 + i)
      else if i = 18 then bit insn 13 else if i = 19 then bit insn 11 else bit insn 26)"
  by (auto simp: t3_raw_def bit_signed_take_bit_iff bit_push_one bit_of_cond bit_or_iff bit_and_iff
      bit_drop_bit_eq bit_mask_iff bit_push_bit_iff min_def simp del: push_bit_Suc One_nat_def)

lemma t3_offsets_eq_iff:
  "signed_take_bit 13 (t3_code insn) = signed_take_bit 20 (t3_raw insn) \<longleftrightarrow>
     (\<forall>k \<in> {11, 13, 16, 17, 18, 19, 20, 21}. bit insn k = bit insn 26)" (is "?c = ?r \<longleftrightarrow> ?all")
proof
  assume eq: "?c = ?r"
  have "bit ?c i = bit ?r i" for i using eq by simp
  from this [of 12] this [of 13] this [of 14] this [of 15] this [of 16] this [of 17] this [of 18] this [of 20]
  show ?all by (simp add: bit_t3_code bit_t3_raw)
next
  assume all: ?all
  show "?c = ?r"
  proof (rule bit_word_eqI)
    fix i assume "i < LENGTH(32)"
    moreover have "i < 12 \<or> i \<in> {12, 13, 14, 15, 16, 17} \<or> 18 \<le> i" by auto
    ultimately show "bit ?c i = bit ?r i" using all by (auto simp: bit_t3_code bit_t3_raw)
  qed
qed

lemma or_1_inj:
  fixes x y :: "'a::len word"
  assumes "even x = even y"
  shows "x OR 1 = y OR 1 \<longleftrightarrow> x = y"
proof
  assume eq: "x OR 1 = y OR 1"
  show "x = y"
  proof (rule bit_word_eqI)
    fix i assume "i < LENGTH('a)"
    then show "bit x i = bit y i"
      using arg_cong [OF eq, of "\<lambda>w. bit w i"] assms by (cases i) (auto simp: bit_simps bit_0)
  qed
qed simp

section \<open>Properties\<close>

text \<open>C23: the branch targets inserted into the trampolines of \<^verbatim>\<open>b\<close> and \<^verbatim>\<open>bl\<close> (A1), \<^verbatim>\<open>blx\<close> (A2) and of the
  16-bit branches T1 and T2 are the targets the architecture defines, with the Thumb bit set where
  execution continues in Thumb state.\<close>

theorem branch_targets_correct:
  "helper_value TF_B_A1_TARGET insn pc = Inr (a1_target insn pc)
   \<and> helper_value TF_BL_IMM_A1_TARGET insn pc = Inr (a1_target insn pc)
   \<and> helper_value TF_BLX_IMM_A2_TARGET insn pc = Inr (a2_target insn pc OR 1)
   \<and> (match insn ''11100-----------'' \<longrightarrow> helper_value TF_B_T2_TARGET insn pc = Inr (t2_target insn pc OR 1))
   \<and> (match insn ''1101------------'' \<and> \<not> match insn ''1101111---------''
        \<longrightarrow> helper_value TF_B_T1_TARGET insn pc = Inr (t1_target insn pc OR 1))"
  using and_exp_eq_0_iff [of insn 24]
  by (simp add: a1_target_def a2_target_def t1_target_def t2_target_def sign_extend_eq mask_numerals
      bits_eq_and_mask Let_def del: push_bit_Suc push_bit_and)

text \<open>Witness: a backward 16-bit branch.\<close>

theorem branch_targets_correct_witness:
  "match 0xe7fe ''11100-----------'' \<and> helper_value TF_B_T2_TARGET 0xe7fe 0x8000 = Inr (t2_target 0xe7fe 0x8000 OR 1)"
  using branch_targets_correct [of "0xe7fe" "0x8000"] by (simp add: match_bits)

text \<open>the target of a conditional Thumb-2 branch (T3) is computed from the wrong fields: bits 16 to 21
  of the instruction are left out and the sign is taken from the wrong place, so the target is right
  exactly when all of the bits \<open>S\<close>, \<open>J1\<close>, \<open>J2\<close> and \<open>imm6\<close> are equal (jumps of less than 4 KB).\<close>

theorem b_t3_target_correct_iff:
  assumes "match insn ''11110-----------10-0------------''"
  shows "helper_value TF_B_T3_TARGET insn pc = Inr (t3_target insn pc OR 1) \<longleftrightarrow>
    (\<forall>k \<in> {11, 13, 16, 17, 18, 19, 20, 21}. bit insn k = bit insn 26)"
proof -
  have "even (signed_take_bit 13 (t3_code insn))" "even (signed_take_bit 20 (t3_raw insn))"
    using bit_t3_code [of 0 insn] bit_t3_raw [of 0 insn] by (auto simp: bit_0)
  then have "(pc + 4 + signed_take_bit 13 (t3_code insn)) OR 1 = t3_target insn pc OR 1 \<longleftrightarrow>
      signed_take_bit 13 (t3_code insn) = signed_take_bit 20 (t3_raw insn)"
    by (simp add: t3_target_def or_1_inj)
  moreover have "helper_value TF_B_T3_TARGET insn pc = Inr ((pc + 4 + signed_take_bit 13 (t3_code insn)) OR 1)"
    using assms by (simp add: Let_def sign_extend_eq t3_code_def del: push_bit_Suc push_bit_or One_nat_def)
  ultimately show ?thesis by (simp add: t3_offsets_eq_iff)
qed

text \<open>Witness: \<^verbatim>\<open>beq.w\<close> over 8 KB, whose trampoline jumps to a wrong place.\<close>

theorem b_t3_target_correct_iff_witness:
  "match 0xf0028000 ''11110-----------10-0------------''
   \<and> helper_value TF_B_T3_TARGET 0xf0028000 0x8000 \<noteq> Inr (t3_target 0xf0028000 0x8000 OR 1)"
  using b_t3_target_correct_iff [of "0xf0028000" "0x8000"] by (simp add: match_bits)

text \<open>patching a field of an instruction: with masks of the same number of bits, the result holds
  in the destination field exactly the bits of the source field, and every bit outside the
  destination mask is unchanged. In particular the scatter loop ends.\<close>

theorem patch_by_mask_correct:
  assumes "bits_count mask1 = bits_count mask2"
  shows "\<exists>r. patch_by_mask src dst mask1 mask2 = Inr r
    \<and> get_bits_by_mask r mask2 = get_bits_by_mask src mask1 \<and> r AND NOT mask2 = dst AND NOT mask2"
  using assms by (rule patch_by_mask_ok)

text \<open>Witness: the \<open>rd\<close> field of an ARM instruction copied into the \<open>rm\<close> field of another.\<close>

theorem patch_by_mask_correct_witness:
  "\<exists>r. patch_by_mask 0xe0810002 0xe1a00000 (bit_mask 12 15) (bit_mask 0 3) = Inr r
    \<and> get_bits_by_mask r (bit_mask 0 3) = get_bits_by_mask 0xe0810002 (bit_mask 12 15)
    \<and> r AND NOT (bit_mask 0 3) = 0xe1a00000 AND NOT (bit_mask 0 3)"
  by (rule patch_by_mask_correct) (simp add: card_bit_mask)

text \<open>patching an ARM instruction inside a template. For every register-to-register field the
  function succeeds, the word read back holds the source field in the place of the destination
  field, agrees with the old word elsewhere, and no other byte of the instance changes.\<close>

theorem patch_insn_arm:
  assumes "v_insn_kind values = INSN_KIND_ARM" "read_u32 inst (offset f) = Inr w"
    and "mc_masks (field f) arm_masks arm_masks = Some (ms, md)"
  shows "\<exists>inst' w'. patch_insn f inst values = Inr inst' \<and> read_u32 inst' (offset f) = Inr w'
    \<and> get_bits_by_mask w' md = get_bits_by_mask (v_insn values) ms \<and> w' AND NOT md = w AND NOT md
    \<and> same_outside (offset f) 4 inst inst'"
proof -
  obtain r where r: "patch_by_mask (v_insn values) w ms md = Inr r"
    "get_bits_by_mask r md = get_bits_by_mask (v_insn values) ms" "r AND NOT md = w AND NOT md"
    using patch_by_mask_ok [OF arm_mc_masks_count [OF assms(3)]] by blast
  obtain inst' where i: "template_insert_u32_bits inst (offset f) r md = Inr inst'"
    using insert_u32_bits_ok [OF assms(2)] by blast
  have "patch_insn f inst values = Inr inst'"
    using assms r(1) i by (simp add: patch_insn_def patched_insn_def arm_masks_any store_patched_def)
  moreover have "read_u32 inst' (offset f) = Inr ((w AND NOT md) OR (r AND md))"
    using read_insert_u32_bits [OF i assms(2)] .
  moreover have "(w AND NOT md) OR (r AND md) = r" using r(3) [symmetric]
    by (simp flip: bit.conj_disj_distrib)
  moreover have "same_outside (offset f) 4 inst inst'"
    using insert_bits_frame i by (fastforce simp: template_insert_u32_bits_def)
  ultimately show ?thesis using r(2,3) by auto
qed

text \<open>Witness: \<open>rn\<close> of \<^verbatim>\<open>add r0, r1, r2\<close> copied into \<open>rn\<close> of the second instruction of a template.\<close>

theorem patch_insn_arm_witness:
  "\<exists>inst' w'.
    patch_insn \<lparr>field = TF_PATCH_RN2RN, offset = 4\<rparr> (replicate 12 0)
      \<lparr>handler_address = 0, v_pc = 0x8000, v_next_pc = 0x8004, v_insn = 0xe0810002, v_insn_kind = INSN_KIND_ARM\<rparr>
      = Inr inst'
    \<and> read_u32 inst' 4 = Inr w' \<and> get_bits_by_mask w' (bit_mask 16 19) = get_bits_by_mask 0xe0810002 (bit_mask 16 19)"
proof -
  let ?f = "\<lparr>field = TF_PATCH_RN2RN, offset = 4\<rparr>"
  let ?v = "\<lparr>handler_address = 0, v_pc = 0x8000, v_next_pc = 0x8004, v_insn = 0xe0810002, v_insn_kind = INSN_KIND_ARM\<rparr>"
  have "read_u32 (replicate 12 0) 4 = Inr 0" by (simp add: read_u32_def window_def numeral_eq_Suc)
  then show ?thesis
    using patch_insn_arm [of ?v "replicate 12 0" ?f 0 "bit_mask 16 19" "bit_mask 16 19"]
    by (auto simp: arm_masks_eq)
qed

text \<open>the offset of a Thumb-2 branch (\<^verbatim>\<open>b.w\<close>, \<^verbatim>\<open>bl\<close>, \<^verbatim>\<open>blx\<close>) computed for the trampoline is the
  architectural one exactly when the bit \<open>J1\<close> of the instruction is set, that is, for jumps of less
  than 8 MB; the code extends the sign from bit 23 of a 25-bit offset.\<close>

theorem thumb2_branch_decode_correct_iff:
  "thumb2_branch_decode insn = t4_offset insn \<longleftrightarrow> bit insn 13"
  using signed_take_bit_step [of 23 "t4_raw insn"]
  by (auto simp: thumb2_branch_decode_eq t4_offset_raw bit_t4_raw)

text \<open>a filled-in trampoline has the size of its template, and every byte that is not within eight
  bytes of the start of a field is the template's own code.\<close>

theorem template_get_handler_frame:
  assumes "template_get_handler t insn_address handler insn kind = Inr inst" "n < length (bindata t)"
    and "\<And>f. f \<in> set (template_fields t) \<Longrightarrow> field f \<noteq> TF_NULL \<Longrightarrow> \<not> (offset f \<le> int n \<and> int n < offset f + 8)"
  shows "length inst = length (bindata t) \<and> inst ! n = bindata t ! n"
  using arm_filler.fields_loop_frame [OF assms(1) [unfolded template_get_handler_def template_fillout_def]] assms(2,3)
  by (simp add: template_instatiate_def)

text \<open>Witness: a template with one field, the handler address at offset 8.\<close>

theorem template_get_handler_frame_witness:
  "\<exists>inst. template_get_handler
       \<lparr>bindata = replicate 16 7, template_fields = [\<lparr>field = TF_HANDLER_ADDRESS, offset = 8\<rparr>, \<lparr>field = TF_NULL, offset = 0\<rparr>],
        template_name = ''t''\<rparr> 0x8000 0x12345678 0xe0810002 INSN_KIND_ARM = Inr inst
     \<and> length inst = 16 \<and> inst ! 0 = 7"
proof -
  let ?t = "\<lparr>bindata = replicate 16 (7 :: u8),
    template_fields = [\<lparr>field = TF_HANDLER_ADDRESS, offset = 8\<rparr>, \<lparr>field = TF_NULL, offset = 0\<rparr>], template_name = ''t''\<rparr>"
  obtain inst where i: "template_get_handler ?t 0x8000 0x12345678 0xe0810002 INSN_KIND_ARM = Inr inst"
    by (simp add: template_get_handler_def template_fillout_def template_instatiate_def fillout_field_def
        template_insert_u32_def template_insert_bytes_def memcpy_at_def)
  moreover have "length inst = length (bindata ?t) \<and> inst ! 0 = bindata ?t ! 0"
    using i by (rule template_get_handler_frame) auto
  ultimately show ?thesis by auto
qed

text \<open>the register chosen as a temporary exists for every instruction (the unreachable end of the
  search is not reached), is one of \<^verbatim>\<open>r0\<close> to \<^verbatim>\<open>r7\<close>, and, when the masks name a destination register,
  differs from all four registers of the instruction.\<close>

theorem select_temporary_reg_free:
  "\<exists>r. select_temporary_reg insn masks = Inr r \<and> r < 8
     \<and> (m_rd masks \<noteq> 0 \<longrightarrow> r \<notin> get_bits_by_mask insn ` {m_rd masks, m_rt masks, m_rn masks, m_rm masks})"
  by (rule select_temporary_reg_spec)

theorem select_temporary_reg_free_witness:
  "m_rd (get_insn_masks 0xe0810002 INSN_KIND_ARM) \<noteq> 0
   \<and> (\<exists>r. select_temporary_reg 0xe0810002 (get_insn_masks 0xe0810002 INSN_KIND_ARM) = Inr r \<and> r < 8)"
proof -
  have "m_rd (get_insn_masks 0xe0810002 INSN_KIND_ARM) \<noteq> 0"
    by (simp add: arm_masks_any arm_masks_eq bit_mask_def)
  then show ?thesis using select_temporary_reg_free [of "0xe0810002" "get_insn_masks 0xe0810002 INSN_KIND_ARM"]
    by blast
qed

end
