(* ===== verification/Select_A64.thy ===== *)
theory Select_A64
  imports Relative_Jump
begin

text \<open>
  Choice of the trampoline template for an A64 instruction, \<^verbatim>\<open>arch/arm64/template_select.c\<close>.
\<close>

section \<open>Definitions\<close>

datatype a64_template =
    A64_generic | A64_adrp | A64_b | A64_bl | A64_b_cond | A64_cbnz | A64_tbnz | A64_br | A64_blr
  | A64_blr_x30 | A64_ldr_literal | A64_ldrsw_literal

definition decode_a64_data_processing_immediate :: "insn_t \<Rightarrow> a64_template option" where
  "decode_a64_data_processing_immediate insn =
     (if match insn ''---10000------------------------'' then Some A64_adrp else Some A64_generic)"

definition decode_a64_branch_exception_system :: "insn_t \<Rightarrow> a64_template option" where
  "decode_a64_branch_exception_system insn =
     (if match insn ''-00101--------------------------'' then
        (if bit_c insn 31 \<noteq> 0 then Some A64_bl else Some A64_b)
      else if match insn ''-011010-------------------------'' then Some A64_cbnz
      else if match insn ''-011011-------------------------'' then Some A64_tbnz
      else if match insn ''0101010-------------------------'' then Some A64_b_cond
      else if match insn ''11010100------------------------'' then Some A64_generic
      else if match insn ''1101010100----------------------'' then Some A64_generic
      else if match insn ''1101011-------------------------'' then
        (let opc = bits insn 21 24
         in if opc = 0b0000 \<or> opc = 0b0010 then Some A64_br
            else if opc = 0b0001 then
              (if bits insn 5 9 = 30 then Some A64_blr_x30 else Some A64_blr)
            else if opc = 0b0100 \<or> opc = 0b0101 then Some A64_generic
            else None)
      else None)"

definition decode_a64_load_store :: "insn_t \<Rightarrow> a64_template option" where
  "decode_a64_load_store insn =
     (if match insn ''--011-00------------------------'' then
        (let opc = drop_bit 30 insn;
             v = insn AND 0x04000000
         in if opc = 0b11 \<and> v = 0 then None
            else if opc = 0b10 \<and> v = 0 then Some A64_ldrsw_literal
            else Some A64_ldr_literal)
      else Some A64_generic)"

definition template_select_a64 :: "insn_t \<Rightarrow> a64_template option" where
  "template_select_a64 insn =
     (if match insn ''---00---------------------------'' then None
      else if match insn ''---100--------------------------'' then decode_a64_data_processing_immediate insn
      else if match insn ''---101--------------------------'' then decode_a64_branch_exception_system insn
      else if match insn ''----1-0-------------------------'' then decode_a64_load_store insn
      else if match insn ''----101-------------------------'' then Some A64_generic
      else if match insn ''----111-------------------------'' then None
      else None)"

definition a64_template_select :: "insn_t \<Rightarrow> a64_insn_kind_t \<Rightarrow> a64_template option" where
  "a64_template_select insn kind = (if kind = INSN_KIND_A64 then template_select_a64 insn else None)"

section \<open>PC-relative instructions of A64\<close>

text \<open>
  All instructions of the A64 set that read the program counter, by the encoding index of the
  architecture manual: \<^verbatim>\<open>adr\<close>/\<^verbatim>\<open>adrp\<close>, literal loads, immediate branches of every form, and branches
  that write the link register.
\<close>

definition a64_pc_relative :: "insn_t \<Rightarrow> bool" where
  "a64_pc_relative insn \<longleftrightarrow>
     match insn ''---10000------------------------''
     \<or> match insn ''--011-00------------------------''
     \<or> match insn ''-00101--------------------------''
     \<or> match insn ''-01101--------------------------''
     \<or> match insn ''0101010-------------------------''
     \<or> match insn ''11010110001---------------------''"

lemma a64_select_pc_relative:
  "match insn ''---10000------------------------'' \<Longrightarrow> template_select_a64 insn = Some A64_adrp"
  "match insn ''--011-00------------------------'' \<Longrightarrow> template_select_a64 insn = decode_a64_load_store insn"
  "match insn ''-00101--------------------------'' \<Longrightarrow>
     template_select_a64 insn = Some (if bit insn 31 then A64_bl else A64_b)"
  "match insn ''-01101--------------------------'' \<Longrightarrow>
     template_select_a64 insn = Some (if bit insn 25 then A64_tbnz else A64_cbnz)"
  "match insn ''0101010-------------------------'' \<Longrightarrow> template_select_a64 insn = Some A64_b_cond"
  "match insn ''11010110001---------------------'' \<Longrightarrow>
     template_select_a64 insn = Some (if bits insn 5 9 = 30 then A64_blr_x30 else A64_blr)"
  by (simp_all add: template_select_a64_def decode_a64_data_processing_immediate_def
      decode_a64_branch_exception_system_def match_bits field_bits Let_def)

section \<open>Properties\<close>

text \<open>C21: an A64 instruction that gets the generic template, which executes a copy of it in the
  trampoline, does not use the program counter.\<close>

theorem a64_generic_not_pc_relative:
  assumes "template_select_a64 insn = Some A64_generic"
  shows "\<not> a64_pc_relative insn"
proof
  assume "a64_pc_relative insn"
  moreover have "match insn ''--011-00------------------------'' \<Longrightarrow> decode_a64_load_store insn \<noteq> Some A64_generic"
    by (simp add: decode_a64_load_store_def Let_def)
  ultimately show False using assms a64_select_pc_relative [of insn]
    by (auto simp: a64_pc_relative_def split: if_splits)
qed

text \<open>Witness: \<^verbatim>\<open>add x0, x1, x2\<close>.\<close>

theorem a64_generic_not_pc_relative_witness:
  "template_select_a64 0x8b020020 = Some A64_generic \<and> \<not> a64_pc_relative 0x8b020020"
proof -
  have "template_select_a64 0x8b020020 = Some A64_generic"
    by (simp add: template_select_a64_def match_bits)
  then show ?thesis using a64_generic_not_pc_relative by blast
qed

text \<open>for 32-bit tracees of the 64-bit server the two Thumb encoders are exchanged: the 16-bit kind
  gets a word that does not fit a halfword, and the 32-bit kind an offset that lacks the bits of the
  T4 encoding, so an accepted forward jump of zero bytes goes elsewhere.\<close>

theorem a64_thumb_encoders_exchanged:
  "arm64_check_relative_jump_kind INSN_KIND_T32_16 0x8000 0x7ffc
   \<and> (\<exists>i. arm64_get_relative_jump_insn INSN_KIND_T32_16 0x8000 0x7ffc = Inr i \<and> i > 0xffff)
   \<and> arm64_check_relative_jump_kind INSN_KIND_T32_32 0x8000 0x8004
   \<and> (\<exists>i. arm64_get_relative_jump_insn INSN_KIND_T32_32 0x8000 0x8004 = Inr i
        \<and> t4_target i 0x8000 \<noteq> 0x8004)"
  by (simp add: arm64_check_relative_jump_kind_def arm64_get_relative_jump_insn_def arm64_address_to_pc_def
      t32_16_branch_def BRANCH_INSN_T32_16_def BRANCH_INSN_T32_32_def t4_target_def t4_offset_def Let_def
      mask_eq_exp_minus_1)

end
