(* ===== verification/Template_A64.thy ===== *)
theory Template_A64
  imports Template Select_A64
begin

text \<open>
  Filling in the trampoline templates on 64-bit ARM, \<^verbatim>\<open>arch/arm64/template.c\<close>. The names that
  \<^verbatim>\<open>arch/arm/template.c\<close> shares carry the prefix \<open>a64_\<close>.
\<close>

section \<open>Definitions\<close>

datatype a64_field_id =
    A64_TF_NULL | A64_TF_INSN | A64_TF_HANDLER_ADDRESS | A64_TF_NEXT_PC | A64_TF_RELATIVE_IMM19_ADDR
  | A64_TF_RELATIVE_IMM26_ADDR | A64_TF_PATCH_COND | A64_TF_PATCH_SF2SF | A64_TF_PATCH_OP2OP
  | A64_TF_PATCH_RN2RN | A64_TF_PATCH_RT2RT | A64_TF_PATCH_RN2RT | A64_TF_PATCH_B40_2_B40
  | A64_TF_PATCH_LDR_SIZE_LIT2REG | A64_TF_ADRP_RESULT | A64_TF_HANDLER_RETURN
  | A64_TF_HANDLER_RETURN_TO_IMM26 | A64_TF_HANDLER_RETURN_TO_IMM19 | A64_TF_HANDLER_RETURN_TO_IMM14

record a64_template_values_t =
  a64_handler_address :: address64
  a64_trampoline_address :: address64
  a64_v_pc :: address64
  a64_v_next_pc :: address64
  a64_v_insn :: insn_t
  a64_v_insn_kind :: a64_insn_kind_t

text \<open>The switch of \<^verbatim>\<open>patch_insn_a64\<close>: the mask and the (possibly shifted) source instruction.\<close>

definition patch_a64_mask :: "a64_field_id \<Rightarrow> insn_t \<Rightarrow> (insn_t \<times> insn_t) res" where
  "patch_a64_mask f insn =
     (if f = A64_TF_PATCH_COND then
        adbi_assure (match insn ''01010100-------------------0----'') (Inr (0xf, insn))
      else if f = A64_TF_PATCH_SF2SF then Inr (0x80000000, insn)
      else if f = A64_TF_PATCH_OP2OP then Inr (0x01000000, insn)
      else if f = A64_TF_PATCH_RN2RN then Inr (0x000003e0, insn)
      else if f = A64_TF_PATCH_RT2RT then Inr (0x0000001f, insn)
      else if f = A64_TF_PATCH_RN2RT then Inr (0x000003e0, push_bit 5 insn)
      else if f = A64_TF_PATCH_B40_2_B40 then
        adbi_assure (match insn ''-011011-------------------------'') (Inr (0x80f80000, insn))
      else if f = A64_TF_PATCH_LDR_SIZE_LIT2REG then Inr (0x40000000, insn)
      else Inl Assertion)"

definition patch_insn_a64 ::
    "a64_field_id template_field_t \<Rightarrow> template_instance_t \<Rightarrow> a64_template_values_t \<Rightarrow> template_instance_t res" where
  "patch_insn_a64 f inst vals =
     adbi_assure (a64_v_insn_kind vals = INSN_KIND_A64)
     (res_bind (read_u32 inst (offset f)) (\<lambda>dst_insn.
      res_bind (patch_a64_mask (field f) (a64_v_insn vals)) (\<lambda>(m, src_insn).
      template_insert_u32 inst (offset f) ((dst_insn AND NOT m) OR (src_insn AND m)))))"

definition adrp_result :: "insn_t \<Rightarrow> address64 \<Rightarrow> address64" where
  "adrp_result insn pc =
     (let oper = insn AND 0x80000000 \<noteq> 0;
          imm = ucast (drop_bit 3 (insn AND 0x00ffffe0) OR drop_bit 29 (insn AND 0x60000000)) :: 64 word;
          imm = (if imm AND 0x100000 \<noteq> 0 then imm OR 0xfffffffffff00000 else imm)
      in if oper then (pc AND NOT 0xfff) + push_bit 12 imm else pc + imm)"

text \<open>
  The three PC-relative targets: the offset is negated and subtracted when its sign bit is set. The
  same code occurs in \<^verbatim>\<open>template_fillout\<close> and in \<^verbatim>\<open>template_iter_return_address\<close>.
\<close>

definition relative_imm19 :: "insn_t \<Rightarrow> address64 \<Rightarrow> address64" where
  "relative_imm19 insn dst =
     (let imm = ucast (drop_bit 3 (insn AND 0x00ffffe0)) :: 64 word
      in if imm AND 0x00100000 \<noteq> 0 then dst - (NOT (imm OR 0xfffffffffff00000) + 1) else dst + imm)"

definition relative_imm26 :: "insn_t \<Rightarrow> address64 \<Rightarrow> address64" where
  "relative_imm26 insn dst =
     (let imm = ucast (push_bit 2 (insn AND 0x03ffffff)) :: 64 word
      in if imm AND 0x08000000 \<noteq> 0 then dst - (NOT (imm OR 0xfffffffff8000000) + 1) else dst + imm)"

definition relative_imm14 :: "insn_t \<Rightarrow> address64 \<Rightarrow> address64" where
  "relative_imm14 insn dst =
     (let imm = ucast (drop_bit 3 (insn AND 0x0007ffe0)) :: 64 word
      in if imm AND 0x00008000 \<noteq> 0 then dst - (NOT (imm OR 0xffffffffffff8000) + 1) else dst + imm)"

text \<open>
  One iteration of \<^verbatim>\<open>template_fillout\<close>. The state is the instance and the local variable \<^verbatim>\<open>insn\<close>,
  which the insertion of a 32-bit Thumb instruction overwrites with its swapped halves.
\<close>

definition insert_address :: "a64_insn_kind_t \<Rightarrow> template_instance_t \<Rightarrow> int \<Rightarrow> u64 \<Rightarrow> template_instance_t res" where
  "insert_address kind inst off v =
     (if kind = INSN_KIND_A64 then template_insert_u64 inst off v else template_insert_u32 inst off (ucast v))"

definition a64_fillout_field ::
    "a64_template_values_t \<Rightarrow> a64_field_id template_field_t \<Rightarrow> template_instance_t \<times> insn_t
      \<Rightarrow> (template_instance_t \<times> insn_t) res" where
  "a64_fillout_field vals f s =
     (let inst = fst s;
          insn = snd s;
          off = offset f;
          kind = a64_v_insn_kind vals
      in if field f = A64_TF_HANDLER_ADDRESS then
           res_bind (insert_address kind inst off (a64_handler_address vals)) (\<lambda>i. Inr (i, insn))
         else if field f = A64_TF_NEXT_PC then
           res_bind (insert_address kind inst off
               (if kind = INSN_KIND_T32_32 \<or> kind = INSN_KIND_T32_16 then a64_v_next_pc vals OR 0x01
                else a64_v_next_pc vals)) (\<lambda>i. Inr (i, insn))
         else if field f = A64_TF_INSN then
           (case kind of
              INSN_KIND_T32_16 \<Rightarrow>
                adbi_assure (drop_bit 16 (a64_v_insn vals) = 0)
                  (res_bind (template_insert_u16 inst off (ucast (a64_v_insn vals))) (\<lambda>i. Inr (i, insn)))
            | INSN_KIND_T32_32 \<Rightarrow>
                (let insn' = t32_swap_halfwords (a64_v_insn vals)
                 in res_bind (template_insert_u32 inst off insn') (\<lambda>i. Inr (i, insn')))
            | INSN_KIND_A32 \<Rightarrow> res_bind (template_insert_u32 inst off insn) (\<lambda>i. Inr (i, insn))
            | INSN_KIND_A64 \<Rightarrow> res_bind (template_insert_u32 inst off insn) (\<lambda>i. Inr (i, insn)))
         else if field f = A64_TF_ADRP_RESULT then
           res_bind (template_insert_u64 inst off (adrp_result insn (a64_v_pc vals))) (\<lambda>i. Inr (i, insn))
         else if field f = A64_TF_RELATIVE_IMM19_ADDR then
           res_bind (template_insert_u64 inst off (relative_imm19 insn (a64_v_pc vals))) (\<lambda>i. Inr (i, insn))
         else if field f = A64_TF_RELATIVE_IMM26_ADDR then
           res_bind (template_insert_u64 inst off (relative_imm26 insn (a64_v_pc vals))) (\<lambda>i. Inr (i, insn))
         else if field f \<in> {A64_TF_PATCH_COND, A64_TF_PATCH_SF2SF, A64_TF_PATCH_OP2OP, A64_TF_PATCH_RN2RN,
             A64_TF_PATCH_RT2RT, A64_TF_PATCH_RN2RT, A64_TF_PATCH_B40_2_B40, A64_TF_PATCH_LDR_SIZE_LIT2REG} then
           (if kind = INSN_KIND_A64 then res_bind (patch_insn_a64 f inst vals) (\<lambda>i. Inr (i, insn)) else Inr s)
         else Inr s)"

definition a64_template_fillout :: "a64_field_id template_t \<Rightarrow> a64_template_values_t \<Rightarrow> template_instance_t res" where
  "a64_template_fillout t vals =
     res_bind (fields_loop (\<lambda>x. x = A64_TF_NULL) (a64_fillout_field vals) (template_fields t)
       (template_instatiate t, a64_v_insn vals)) (\<lambda>s. Inr (fst s))"

definition a64_template_get_handler ::
    "a64_field_id template_t \<Rightarrow> address64 \<Rightarrow> address64 \<Rightarrow> address64 \<Rightarrow> insn_t \<Rightarrow> a64_insn_kind_t \<Rightarrow> template_instance_t res" where
  "a64_template_get_handler t trampoline_address insn_address handler_address insn insn_kind =
     a64_template_fillout t
       \<lparr>a64_handler_address = handler_address, a64_trampoline_address = trampoline_address, a64_v_pc = insn_address,
        a64_v_next_pc = (if insn_kind = INSN_KIND_T32_16 then insn_address + 2 else insn_address + 4),
        a64_v_insn = insn, a64_v_insn_kind = insn_kind\<rparr>"

text \<open>
  The remaining loops over the fields only read them; they look at the fields before the end marker.
\<close>

definition used_fields :: "a64_field_id template_t \<Rightarrow> a64_field_id template_field_t list" where
  "used_fields t = takeWhile (\<lambda>f. field f \<noteq> A64_TF_NULL) (template_fields t)"

definition is_return_field :: "a64_field_id \<Rightarrow> bool" where
  "is_return_field f \<longleftrightarrow> f \<in> {A64_TF_HANDLER_RETURN, A64_TF_HANDLER_RETURN_TO_IMM26,
     A64_TF_HANDLER_RETURN_TO_IMM19, A64_TF_HANDLER_RETURN_TO_IMM14}"

definition template_need_return_jump :: "a64_field_id template_t \<Rightarrow> bool" where
  "template_need_return_jump t = list_ex (\<lambda>f. is_return_field (field f)) (used_fields t)"

fun return_target :: "a64_field_id \<Rightarrow> insn_t \<Rightarrow> address64 \<Rightarrow> address64" where
  "return_target A64_TF_HANDLER_RETURN insn pc = pc + 4"
| "return_target A64_TF_HANDLER_RETURN_TO_IMM26 insn pc = relative_imm26 insn pc"
| "return_target A64_TF_HANDLER_RETURN_TO_IMM19 insn pc = relative_imm19 insn pc"
| "return_target A64_TF_HANDLER_RETURN_TO_IMM14 insn pc = relative_imm14 insn pc"
| "return_target _ insn pc = pc"

text \<open>The calls of the callback, as the list of its arguments.\<close>

definition template_iter_return_address ::
    "address64 \<Rightarrow> insn_t \<Rightarrow> a64_insn_kind_t \<Rightarrow> a64_field_id template_t \<Rightarrow> address64 \<Rightarrow> (address64 \<times> address64) list" where
  "template_iter_return_address pc insn kind t trampoline_addr =
     (if kind \<noteq> INSN_KIND_A64 then []
      else map (\<lambda>f. (trampoline_addr + of_int (offset f), return_target (field f) insn pc))
             (filter (\<lambda>f. is_return_field (field f)) (used_fields t)))"

definition template_get_template_kind :: "a64_field_id template_t \<Rightarrow> a64_insn_kind_t" where
  "template_get_template_kind t =
     (if take 3 (template_name t) \<noteq> ''a64'' then INSN_KIND_A32 else INSN_KIND_A64)"

section \<open>Lemmas\<close>

text \<open>Setting the upper bits when the sign bit is set is sign extension.\<close>

lemma extend_by_or:
  fixes w :: "'a::len word"
  assumes "take_bit (Suc n) w = w" "n < LENGTH('a)"
  shows "(if bit w n then w OR NOT (mask n) else w) = signed_take_bit n w"
proof (rule bit_word_eqI)
  fix i assume i: "i < LENGTH('a)"
  have "bit w i \<Longrightarrow> i \<le> n" by (metis assms(1) bit_take_bit_iff less_Suc_eq_le)
  then show "bit (if bit w n then w OR NOT (mask n) else w) i = bit (signed_take_bit n w) i"
    using i by (cases "i \<le> n"; cases "i = n") (auto simp: bit_simps bit_signed_take_bit_iff min_def)
qed

lemma relative_by_negation:
  fixes w dst :: "'a::len word"
  assumes "take_bit (Suc n) w = w" "n < LENGTH('a)"
  shows "(if bit w n then dst - (NOT (w OR NOT (mask n)) + 1) else dst + w) = dst + signed_take_bit n w"
proof -
  have neg: "dst - (NOT x + 1) = dst + x" for x :: "'a word" by (simp flip: minus_eq_not_plus_1)
  show ?thesis unfolding neg using extend_by_or [OF assms] by (cases "bit w n") simp_all
qed

lemma a64_constants:
  "(0xfffffffffff00000 :: u64) = NOT (mask 20)" "(0xfffffffff8000000 :: u64) = NOT (mask 27)"
  "(0xffffffffffff8000 :: u64) = NOT (mask 15)" "(0xfff :: u64) = mask 12"
  "w AND 0x00100000 = 0 \<longleftrightarrow> \<not> bit (w :: u64) 20" "w AND 0x08000000 = 0 \<longleftrightarrow> \<not> bit (w :: u64) 27"
  "w AND 0x00008000 = 0 \<longleftrightarrow> \<not> bit (w :: u64) 15" "v AND 0x80000000 = 0 \<longleftrightarrow> \<not> bit (v :: u32) 31"
  using and_exp_eq_0_iff [of w 20] and_exp_eq_0_iff [of w 27] and_exp_eq_0_iff [of w 15]
    and_exp_eq_0_iff [of v 31] by (simp_all add: mask_eq_exp_minus_1)

text \<open>The immediate fields, as the architecture names them.\<close>

definition a64_imm26 :: "insn_t \<Rightarrow> u64" where
  "a64_imm26 insn = push_bit 2 (ucast (insn AND mask 26))"

definition a64_imm19 :: "insn_t \<Rightarrow> u64" where
  "a64_imm19 insn = push_bit 2 (ucast (drop_bit 5 insn AND mask 19))"

definition a64_imm14 :: "insn_t \<Rightarrow> u64" where
  "a64_imm14 insn = push_bit 2 (ucast (drop_bit 5 insn AND mask 14))"

definition a64_adr_imm :: "insn_t \<Rightarrow> u64" where
  "a64_adr_imm insn = push_bit 2 (ucast (drop_bit 5 insn AND mask 19)) OR ucast (drop_bit 29 insn AND mask 2)"

lemma field_masks:
  "(0x00ffffe0 :: u32) = push_bit 5 (mask 19)" "(0x0007ffe0 :: u32) = push_bit 5 (mask 14)"
  "(0x03ffffff :: u32) = mask 26" "(0x60000000 :: u32) = push_bit 29 (mask 2)"
  by (simp_all add: mask_eq_exp_minus_1)

lemma imm_fields:
  "(ucast (push_bit 2 (insn AND 0x03ffffff)) :: u64) = a64_imm26 insn"
  "(ucast (drop_bit 3 (insn AND 0x00ffffe0)) :: u64) = a64_imm19 insn"
  "(ucast (drop_bit 3 (insn AND 0x0007ffe0)) :: u64) = a64_imm14 insn"
  "(ucast (drop_bit 3 (insn AND 0x00ffffe0) OR drop_bit 29 (insn AND 0x60000000)) :: u64) = a64_adr_imm insn"
  unfolding field_masks a64_imm26_def a64_imm19_def a64_imm14_def a64_adr_imm_def
  by (rule bit_word_eqI; auto simp: bit_simps; fail)+

lemma imm_widths:
  "take_bit (Suc 27) (a64_imm26 insn) = a64_imm26 insn" "take_bit (Suc 20) (a64_imm19 insn) = a64_imm19 insn"
  "take_bit (Suc 15) (a64_imm14 insn) = a64_imm14 insn" "take_bit (Suc 20) (a64_adr_imm insn) = a64_adr_imm insn"
  unfolding a64_imm26_def a64_imm19_def a64_imm14_def a64_adr_imm_def
  by (rule bit_word_eqI; auto simp: bit_simps; fail)+

lemmas relative_defs = relative_imm26_def relative_imm19_def relative_imm14_def

lemma relative_targets:
  "relative_imm26 insn pc = pc + signed_take_bit 27 (a64_imm26 insn)"
  "relative_imm19 insn pc = pc + signed_take_bit 20 (a64_imm19 insn)"
  "relative_imm14 insn pc = pc + signed_take_bit 15 (a64_imm14 insn)"
  unfolding relative_defs imm_fields a64_constants Let_def not_not
  by (rule relative_by_negation [OF imm_widths(1)] relative_by_negation [OF imm_widths(2)]
      relative_by_negation [OF imm_widths(3)], simp)+

lemma insert_address_frame: "insert_address k i off v = Inr i' \<Longrightarrow> same_outside off 8 i i'"
  by (auto simp: insert_address_def dest: insert_frames split: if_splits)

lemma patch_insn_a64_frame: "patch_insn_a64 f i vals = Inr i' \<Longrightarrow> same_outside (offset f) 8 i i'"
  by (auto simp: patch_insn_a64_def res_bind_eq_Inr dest: insert_frames)

lemma same_outside_refl [simp]: "same_outside off n i i"
  by (simp add: same_outside_def)

lemma a64_fillout_field_frame:
  assumes "a64_fillout_field vals f s = Inr s'"
  shows "same_outside (offset f) 8 (fst s) (fst s')"
  using assms
  by (auto simp: a64_fillout_field_def Let_def res_bind_eq_Inr dest: insert_frames insert_address_frame
      patch_insn_a64_frame split: if_splits a64_insn_kind_t.splits)

interpretation a64_filler: template_filler "\<lambda>x. x = A64_TF_NULL" "a64_fillout_field vals" fst "\<lambda>_. 8" for vals
  by unfold_locales (rule a64_fillout_field_frame)

section \<open>Properties\<close>

text \<open>the address that \<^verbatim>\<open>adr\<close> and \<^verbatim>\<open>adrp\<close> leave in their register, computed for the trampoline, is the
  architectural one: the 21-bit immediate sign extended and, for \<^verbatim>\<open>adrp\<close>, scaled to pages and added
  to the page of the instruction.\<close>

theorem adrp_result_correct:
  "adrp_result insn pc =
     (if bit insn 31 then (pc AND NOT (mask 12)) + push_bit 12 (signed_take_bit 20 (a64_adr_imm insn))
      else pc + signed_take_bit 20 (a64_adr_imm insn))"
proof -
  have ext: "(if bit (a64_adr_imm insn) 20 then a64_adr_imm insn OR NOT (mask 20) else a64_adr_imm insn) =
      signed_take_bit 20 (a64_adr_imm insn)"
    by (rule extend_by_or [OF imm_widths(4)]) simp
  show ?thesis unfolding adrp_result_def imm_fields a64_constants Let_def not_not ext by simp
qed

text \<open>C24: the places a trampoline returns to. For every return field of a template the jump goes to the
  next instruction, or to the target the architecture defines for the 26, 19 or 14 bit offset of the
  traced branch.\<close>

theorem return_targets_correct:
  "template_iter_return_address pc insn INSN_KIND_A64 t tramp =
     map (\<lambda>f. (tramp + of_int (offset f),
            case field f of
              A64_TF_HANDLER_RETURN_TO_IMM26 \<Rightarrow> pc + signed_take_bit 27 (a64_imm26 insn)
            | A64_TF_HANDLER_RETURN_TO_IMM19 \<Rightarrow> pc + signed_take_bit 20 (a64_imm19 insn)
            | A64_TF_HANDLER_RETURN_TO_IMM14 \<Rightarrow> pc + signed_take_bit 15 (a64_imm14 insn)
            | _ \<Rightarrow> pc + 4))
       (filter (\<lambda>f. is_return_field (field f)) (used_fields t))"
  by (auto simp: template_iter_return_address_def is_return_field_def relative_targets)

text \<open>a trampoline needs a return jump exactly when the list of its return addresses is not empty.\<close>

theorem need_return_jump_iff:
  "template_need_return_jump t \<longleftrightarrow> template_iter_return_address pc insn INSN_KIND_A64 t tramp \<noteq> []"
  by (auto simp: template_need_return_jump_def template_iter_return_address_def filter_empty_conv list_ex_iff)

text \<open>a filled-in A64 trampoline has the size of its template and differs from it only within eight
  bytes of the start of a field.\<close>

theorem a64_template_get_handler_frame:
  assumes "a64_template_get_handler t tramp insn_address handler insn kind = Inr inst" "n < length (bindata t)"
    and "\<And>f. f \<in> set (template_fields t) \<Longrightarrow> field f \<noteq> A64_TF_NULL \<Longrightarrow> \<not> (offset f \<le> int n \<and> int n < offset f + 8)"
  shows "length inst = length (bindata t) \<and> inst ! n = bindata t ! n"
proof -
  obtain s where s: "fields_loop (\<lambda>x. x = A64_TF_NULL)
      (a64_fillout_field \<lparr>a64_handler_address = handler, a64_trampoline_address = tramp, a64_v_pc = insn_address,
        a64_v_next_pc = (if kind = INSN_KIND_T32_16 then insn_address + 2 else insn_address + 4),
        a64_v_insn = insn, a64_v_insn_kind = kind\<rparr>) (template_fields t) (bindata t, insn) = Inr s" "inst = fst s"
    using assms(1)
    by (auto simp: a64_template_get_handler_def a64_template_fillout_def template_instatiate_def res_bind_eq_Inr)
  then show ?thesis using a64_filler.fields_loop_frame [OF s(1)] assms(2,3) by simp
qed

text \<open>Witness: the handler address at offset 8 of a block of 24 bytes.\<close>

theorem a64_template_get_handler_frame_witness:
  "\<exists>inst. a64_template_get_handler
       \<lparr>bindata = replicate 24 7, template_fields = [\<lparr>field = A64_TF_HANDLER_ADDRESS, offset = 8\<rparr>, \<lparr>field = A64_TF_NULL, offset = 0\<rparr>],
        template_name = ''a64_t''\<rparr> 0 0x8000 0x7f12345678 0x8b020020 INSN_KIND_A64 = Inr inst
     \<and> length inst = 24 \<and> inst ! 20 = 7"
proof -
  let ?t = "\<lparr>bindata = replicate 24 (7 :: u8),
    template_fields = [\<lparr>field = A64_TF_HANDLER_ADDRESS, offset = 8\<rparr>, \<lparr>field = A64_TF_NULL, offset = 0\<rparr>], template_name = ''a64_t''\<rparr>"
  obtain inst where i: "a64_template_get_handler ?t 0 0x8000 0x7f12345678 0x8b020020 INSN_KIND_A64 = Inr inst"
    by (simp add: a64_template_get_handler_def a64_template_fillout_def template_instatiate_def a64_fillout_field_def
        insert_address_def template_insert_u64_def template_insert_bytes_def memcpy_at_def)
  moreover have "length inst = length (bindata ?t) \<and> inst ! 20 = bindata ?t ! 20"
    using i by (rule a64_template_get_handler_frame) auto
  ultimately show ?thesis by auto
qed

end
