(* ===== verification/Payload.thy ===== *)
theory Payload
  imports Adbi_Prelude
begin

text \<open>
  The payload format of the client protocol, \<^verbatim>\<open>communication/payload.c\<close>: construction of payload
  buffers, the validity check, and lookup of typed fields. A pointer into a received buffer is the
  list of the bytes from there to the end of the buffer; reading past the end is the fault
  \<open>Out_Of_Bounds\<close>. \<^verbatim>\<open>size_t\<close> is unbounded here; the 16 and 32 bit fields of the element header are
  kept at their width, with the wrap-around of their sum.
\<close>

section \<open>Definitions\<close>

datatype payload_type =
    PAYLOAD_TYPE_TERMINATOR | PAYLOAD_TYPE_U32 | PAYLOAD_TYPE_I32 | PAYLOAD_TYPE_U64 | PAYLOAD_TYPE_I64
  | PAYLOAD_TYPE_STR

fun type_code :: "payload_type \<Rightarrow> u8" where
  "type_code PAYLOAD_TYPE_TERMINATOR = 0x00"
| "type_code PAYLOAD_TYPE_U32 = 0x10"
| "type_code PAYLOAD_TYPE_I32 = 0x11"
| "type_code PAYLOAD_TYPE_U64 = 0x20"
| "type_code PAYLOAD_TYPE_I64 = 0x21"
| "type_code PAYLOAD_TYPE_STR = 0x80"

subsection \<open>Construction\<close>

text \<open>The used part of the buffer (its length is \<^verbatim>\<open>size\<close>) and the number of allocated bytes.\<close>

record payload_buffer_t =
  pb_buf :: bytes
  pb_allocated :: nat

definition payload_create :: payload_buffer_t where
  "payload_create = \<lparr>pb_buf = [], pb_allocated = 64\<rparr>"

definition payload_reset :: "payload_buffer_t \<Rightarrow> payload_buffer_t" where
  "payload_reset pb = pb\<lparr>pb_buf := []\<rparr>"

text \<open>The doubling loop; from zero it would never end.\<close>

function grow :: "nat \<Rightarrow> nat \<Rightarrow> nat res" where
  "grow allocate need =
     (if need \<le> allocate then Inr allocate
      else if allocate = 0 then Inl Diverges
      else grow (allocate * 2) need)"
  by pat_completeness auto
termination
  by (relation "measure (\<lambda>(a, n). n - a)") auto

definition payload_append_bytes :: "payload_buffer_t \<Rightarrow> bytes \<Rightarrow> payload_buffer_t res" where
  "payload_append_bytes pb data =
     res_bind (grow (pb_allocated pb) (length data + length (pb_buf pb))) (\<lambda>allocate.
       if length (pb_buf pb) + length data \<le> allocate
       then Inr \<lparr>pb_buf = pb_buf pb @ data, pb_allocated = allocate\<rparr>
       else Inl Out_Of_Bounds)"

definition element_info :: "u8 \<Rightarrow> u8 \<Rightarrow> u16 \<Rightarrow> u32 \<Rightarrow> bytes" where
  "element_info ty reserved name_size data_size = [ty, reserved] @ le_bytes 2 name_size @ le_bytes 4 data_size"

text \<open>\<open>name\<close> is a C string: its bytes without the terminator.\<close>

definition payload_add_element ::
    "payload_buffer_t \<Rightarrow> payload_type \<Rightarrow> bytes \<Rightarrow> bytes \<Rightarrow> payload_buffer_t res" where
  "payload_add_element pb ty name data =
     (let name_size = of_nat (length name + 1) :: u16;
          data_size = of_nat (length data) :: u32
      in res_bind (payload_append_bytes pb (element_info (type_code ty) 0 name_size data_size)) (\<lambda>pb.
         res_bind (payload_append_bytes pb (take (unat name_size) (name @ [0]))) (\<lambda>pb.
         payload_append_bytes pb (take (unat data_size) data))))"

definition payload_put_u64 :: "payload_buffer_t \<Rightarrow> bytes \<Rightarrow> u64 \<Rightarrow> payload_buffer_t res" where
  "payload_put_u64 pb name val = payload_add_element pb PAYLOAD_TYPE_U64 name (le_bytes 8 val)"

definition payload_put_i64 :: "payload_buffer_t \<Rightarrow> bytes \<Rightarrow> u64 \<Rightarrow> payload_buffer_t res" where
  "payload_put_i64 pb name val = payload_add_element pb PAYLOAD_TYPE_I64 name (le_bytes 8 val)"

definition payload_put_u32 :: "payload_buffer_t \<Rightarrow> bytes \<Rightarrow> u32 \<Rightarrow> payload_buffer_t res" where
  "payload_put_u32 pb name val = payload_add_element pb PAYLOAD_TYPE_U32 name (le_bytes 4 val)"

definition payload_put_i32 :: "payload_buffer_t \<Rightarrow> bytes \<Rightarrow> u32 \<Rightarrow> payload_buffer_t res" where
  "payload_put_i32 pb name val = payload_add_element pb PAYLOAD_TYPE_I32 name (le_bytes 4 val)"

definition payload_put_str :: "payload_buffer_t \<Rightarrow> bytes \<Rightarrow> bytes option \<Rightarrow> payload_buffer_t res" where
  "payload_put_str pb name val =
     payload_add_element pb PAYLOAD_TYPE_STR name (case val of Some s \<Rightarrow> s @ [0] | None \<Rightarrow> [0])"

definition payload_put_term :: "payload_buffer_t \<Rightarrow> payload_buffer_t res" where
  "payload_put_term pb = payload_add_element pb PAYLOAD_TYPE_TERMINATOR [] []"

subsection \<open>Reading\<close>

definition byte_at :: "bytes \<Rightarrow> nat \<Rightarrow> u8 res" where
  "byte_at p i = (if i < length p then Inr (p ! i) else Inl Out_Of_Bounds)"

definition element_name_size :: "bytes \<Rightarrow> u16 res" where
  "element_name_size e = (if 4 \<le> length e then Inr (le_word (take 2 (drop 2 e))) else Inl Out_Of_Bounds)"

definition element_data_size :: "bytes \<Rightarrow> u32 res" where
  "element_data_size e = (if 8 \<le> length e then Inr (le_word (take 4 (drop 4 e))) else Inl Out_Of_Bounds)"

definition payload_element_get_type :: "bytes \<Rightarrow> u8 res" where
  "payload_element_get_type e = byte_at e 0"

text \<open>\<^verbatim>\<open>name_size + data_size\<close> is computed in 32 bits.\<close>

definition payload_element_get_size :: "bytes \<Rightarrow> nat res" where
  "payload_element_get_size e =
     res_bind (element_name_size e) (\<lambda>ns.
     res_bind (element_data_size e) (\<lambda>ds.
     Inr (unat (ucast ns + ds :: u32) + 8)))"

definition payload_element_get_name :: "bytes \<Rightarrow> bytes" where
  "payload_element_get_name e = drop 8 e"

definition payload_element_get_data :: "bytes \<Rightarrow> bytes res" where
  "payload_element_get_data e = res_bind (element_name_size e) (\<lambda>ns. Inr (drop (8 + unat ns) e))"

definition payload_element_get_next :: "bytes \<Rightarrow> bytes res" where
  "payload_element_get_next e = res_bind (payload_element_get_size e) (\<lambda>n. Inr (drop n e))"

definition c_strlen :: "bytes \<Rightarrow> nat res" where
  "c_strlen p = (if 0 \<in> set p then Inr (length (takeWhile (\<lambda>b. b \<noteq> 0) p)) else Inl Out_Of_Bounds)"

text \<open>\<^verbatim>\<open>strcmp(s, p) == 0\<close> for a string \<open>s\<close> given with its terminator.\<close>

fun strcmp_eq :: "bytes \<Rightarrow> bytes \<Rightarrow> bool res" where
  "strcmp_eq (c # cs) (d # ds) =
     (if c \<noteq> d then Inr False else if c = 0 then Inr True else strcmp_eq cs ds)"
| "strcmp_eq _ _ = Inl Out_Of_Bounds"

definition payload_check_element :: "bytes \<Rightarrow> nat \<Rightarrow> bool res" where
  "payload_check_element e sz =
     (if sz < 8 then Inr False
      else res_bind (payload_element_get_size e) (\<lambda>n.
        if sz < n then Inr False
        else res_bind (element_name_size e) (\<lambda>ns.
          if ns = 0 then Inr False
          else res_bind (byte_at (payload_element_get_name e) (unat ns - 1)) (\<lambda>z.
            if z \<noteq> 0 then Inr False
            else res_bind (c_strlen (payload_element_get_name e)) (\<lambda>l.
              if l + 1 \<noteq> unat ns then Inr False
              else res_bind (payload_element_get_type e) (\<lambda>ty.
                res_bind (element_data_size e) (\<lambda>ds.
                  if ty = type_code PAYLOAD_TYPE_TERMINATOR then Inr (ds = 0)
                  else if ty = type_code PAYLOAD_TYPE_I32 \<or> ty = type_code PAYLOAD_TYPE_U32 then Inr (ds = 4)
                  else if ty = type_code PAYLOAD_TYPE_I64 \<or> ty = type_code PAYLOAD_TYPE_U64 then Inr (ds = 8)
                  else if ty = type_code PAYLOAD_TYPE_STR then
                    res_bind (payload_element_get_data e) (\<lambda>d.
                    res_bind (byte_at d (unat (ds - 1))) (\<lambda>b. Inr (b = 0)))
                  else Inr False)))))))"

lemma payload_element_get_size_ge: "payload_element_get_size e = Inr n \<Longrightarrow> 8 \<le> n \<and> 8 \<le> length e"
  by (auto simp: payload_element_get_size_def res_bind_eq_Inr element_data_size_def split: if_splits)

text \<open>The size shrinks by at least eight in every iteration.\<close>

function payload_check :: "bytes \<Rightarrow> nat \<Rightarrow> bool res" where
  "payload_check e sz =
     res_bind (payload_check_element e sz) (\<lambda>ok.
       if \<not> ok then Inr False
       else res_bind (payload_element_get_size e) (\<lambda>n.
         adbi_assure (sz \<ge> n)
         (res_bind (payload_element_get_type e) (\<lambda>ty.
           if ty = type_code PAYLOAD_TYPE_TERMINATOR then Inr (sz - n = 0)
           else payload_check (drop n e) (sz - n)))))"
  by pat_completeness auto
termination
  by (relation "measure snd") (auto dest!: payload_element_get_size_ge)

text \<open>The bytes left shrink by at least eight in every iteration.\<close>

function payload_find :: "bytes \<Rightarrow> bytes \<Rightarrow> bytes option res" where
  "payload_find e name =
     res_bind (payload_element_get_type e) (\<lambda>ty.
       if ty = type_code PAYLOAD_TYPE_TERMINATOR then Inr None
       else res_bind (strcmp_eq (name @ [0]) (payload_element_get_name e)) (\<lambda>eq.
         if eq then Inr (Some e)
         else res_bind (payload_element_get_size e) (\<lambda>n. payload_find (drop n e) name)))"
  by pat_completeness auto
termination
  by (relation "measure (\<lambda>(e, n). length e)") (auto dest!: payload_element_get_size_ge)

definition payload_find_typed :: "bytes \<Rightarrow> bytes \<Rightarrow> payload_type \<Rightarrow> bytes option res" where
  "payload_find_typed buf name ty =
     res_bind (payload_find buf name) (\<lambda>r.
       case r of None \<Rightarrow> Inr None
       | Some e \<Rightarrow> res_bind (payload_element_get_type e) (\<lambda>t.
           if t \<noteq> type_code ty then Inr None else Inr (Some e)))"

definition payload_get :: "payload_type \<Rightarrow> bytes \<Rightarrow> bytes \<Rightarrow> bytes option res" where
  "payload_get ty buf name =
     res_bind (payload_find_typed buf name ty) (\<lambda>r.
       case r of None \<Rightarrow> Inr None
       | Some e \<Rightarrow> res_bind (payload_element_get_data e) (\<lambda>d. Inr (Some d)))"

declare grow.simps [simp del] payload_check.simps [simp del] payload_find.simps [simp del]

section \<open>The abstract format\<close>

text \<open>
  What the format promises: a payload is a sequence of named, typed entries followed by a
  terminator. \<open>payload_bytes\<close> is the layout of such a sequence; the byte \<open>reserved\<close> is not looked
  at by the readers.
\<close>

record payload_entry =
  en_type :: u8
  en_reserved :: u8
  en_name :: bytes
  en_data :: bytes

definition entry_bytes :: "payload_entry \<Rightarrow> bytes" where
  "entry_bytes x =
     element_info (en_type x) (en_reserved x) (of_nat (Suc (length (en_name x)))) (of_nat (length (en_data x)))
     @ en_name x @ [0] @ en_data x"

definition data_ok :: "u8 \<Rightarrow> bytes \<Rightarrow> bool" where
  "data_ok ty d \<longleftrightarrow>
     (ty = type_code PAYLOAD_TYPE_TERMINATOR \<and> d = [])
     \<or> (ty \<in> {type_code PAYLOAD_TYPE_U32, type_code PAYLOAD_TYPE_I32} \<and> length d = 4)
     \<or> (ty \<in> {type_code PAYLOAD_TYPE_U64, type_code PAYLOAD_TYPE_I64} \<and> length d = 8)
     \<or> (ty = type_code PAYLOAD_TYPE_STR \<and> d \<noteq> [] \<and> last d = 0)"

definition wf_entry :: "payload_entry \<Rightarrow> bool" where
  "wf_entry x \<longleftrightarrow> 0 \<notin> set (en_name x) \<and> Suc (length (en_name x)) < 2 ^ 16
     \<and> Suc (length (en_name x)) + length (en_data x) < 2 ^ 32 \<and> data_ok (en_type x) (en_data x)"

definition is_term :: "payload_entry \<Rightarrow> bool" where
  "is_term x \<longleftrightarrow> en_type x = type_code PAYLOAD_TYPE_TERMINATOR"

definition payload_bytes :: "payload_entry list \<Rightarrow> payload_entry \<Rightarrow> bytes" where
  "payload_bytes es t = concat (map entry_bytes es) @ entry_bytes t"

definition wf_payload :: "payload_entry list \<Rightarrow> payload_entry \<Rightarrow> bool" where
  "wf_payload es t \<longleftrightarrow> (\<forall>x \<in> set es. wf_entry x \<and> \<not> is_term x) \<and> wf_entry t \<and> is_term t"

section \<open>Reading a well-formed element\<close>

lemma length_element_info [simp]: "length (element_info ty r ns ds) = 8"
  by (simp add: element_info_def)

lemma length_entry_bytes: "length (entry_bytes x) = 8 + (Suc (length (en_name x)) + length (en_data x))"
  by (simp add: entry_bytes_def)

lemma unat_of_nat_small: "n < 2 ^ LENGTH('a) \<Longrightarrow> unat (of_nat n :: 'a::len word) = n"
  by (simp add: unat_of_nat)

lemma element_fields:
  fixes x :: payload_entry
  defines "e \<equiv> \<lambda>post. entry_bytes x @ post"
  shows "element_name_size (e post) = Inr (of_nat (Suc (length (en_name x))))"
    and "element_data_size (e post) = Inr (of_nat (length (en_data x)))"
    and "payload_element_get_type (e post) = Inr (en_type x)"
    and "payload_element_get_name (e post) = en_name x @ 0 # en_data x @ post"
proof -
  have n: "take 2 (drop 2 (element_info ty r ns ds)) = le_bytes 2 ns"
    and d: "take 4 (drop 4 (element_info ty r ns ds)) = le_bytes 4 ds"
    and t: "element_info ty r ns ds ! 0 = ty" for ty r ns ds
    by (simp_all add: element_info_def)
  show "element_name_size (e post) = Inr (of_nat (Suc (length (en_name x))))"
    by (simp add: element_name_size_def e_def entry_bytes_def n le_word_le_bytes del: of_nat_Suc)
  show "element_data_size (e post) = Inr (of_nat (length (en_data x)))"
    by (simp add: element_data_size_def e_def entry_bytes_def d le_word_le_bytes)
  show "payload_element_get_type (e post) = Inr (en_type x)"
    by (simp add: payload_element_get_type_def byte_at_def e_def entry_bytes_def nth_append t)
  show "payload_element_get_name (e post) = en_name x @ 0 # en_data x @ post"
    by (simp add: payload_element_get_name_def e_def entry_bytes_def)
qed

lemma wf_entry_sizes:
  assumes "wf_entry x"
  shows "unat (of_nat (Suc (length (en_name x))) :: u16) = Suc (length (en_name x))"
    and "unat (of_nat (length (en_data x)) :: u32) = length (en_data x)"
    and "unat (ucast (of_nat (Suc (length (en_name x))) :: u16) + of_nat (length (en_data x)) :: u32)
      = Suc (length (en_name x)) + length (en_data x)"
proof -
  show n: "unat (of_nat (Suc (length (en_name x))) :: u16) = Suc (length (en_name x))"
    using assms by (intro unat_of_nat_small) (simp add: wf_entry_def)
  show d: "unat (of_nat (length (en_data x)) :: u32) = length (en_data x)"
    using assms by (intro unat_of_nat_small) (simp add: wf_entry_def)
  have "unat (ucast (of_nat (Suc (length (en_name x))) :: u16) :: u32) = Suc (length (en_name x))"
    using n assms by (simp add: unsigned_ucast_eq take_bit_nat_eq_self wf_entry_def del: of_nat_Suc)
  then show "unat (ucast (of_nat (Suc (length (en_name x))) :: u16) + of_nat (length (en_data x)) :: u32)
      = Suc (length (en_name x)) + length (en_data x)"
    using d assms by (simp add: unat_word_ariths wf_entry_def del: of_nat_Suc)
qed

lemma element_size:
  "wf_entry x \<Longrightarrow> payload_element_get_size (entry_bytes x @ post) = Inr (length (entry_bytes x))"
  by (simp add: payload_element_get_size_def element_fields wf_entry_sizes length_entry_bytes del: of_nat_Suc)

lemma element_data: "wf_entry x \<Longrightarrow> payload_element_get_data (entry_bytes x @ post) = Inr (en_data x @ post)"
  using wf_entry_sizes(1) [of x] unfolding payload_element_get_data_def element_fields
  by (simp add: entry_bytes_def del: of_nat_Suc)

lemma c_strlen_append: "0 \<notin> set n \<Longrightarrow> c_strlen (n @ 0 # r) = Inr (length n)"
  by (induction n) (simp_all add: c_strlen_def)

lemma strcmp_eq_append:
  "0 \<notin> set n \<Longrightarrow> 0 \<notin> set m \<Longrightarrow> strcmp_eq (n @ [0]) (m @ 0 # r) = Inr (n = m)"
proof (induction n arbitrary: m)
  case Nil
  then show ?case by (cases m) auto
next
  case (Cons c cs)
  then show ?case by (cases m) auto
qed

lemma check_element_complete:
  assumes "wf_entry x" "length (entry_bytes x) \<le> sz"
  shows "payload_check_element (entry_bytes x @ post) sz = Inr True"
proof -
  let ?n = "of_nat (Suc (length (en_name x))) :: u16" and ?d = "of_nat (length (en_data x)) :: u32"
  have n: "unat ?n = Suc (length (en_name x))" and d: "unat ?d = length (en_data x)"
    using wf_entry_sizes [OF assms(1)] by simp_all
  have "?n \<noteq> 0" using n by force
  moreover have "byte_at (en_name x @ 0 # en_data x @ post) (unat ?n - 1) = Inr 0"
    using n by (simp add: byte_at_def)
  moreover have "c_strlen (en_name x @ 0 # en_data x @ post) = Inr (length (en_name x))"
    using assms(1) by (intro c_strlen_append) (simp add: wf_entry_def)
  moreover have "byte_at (en_data x @ post) (unat (?d - 1)) = Inr 0" if "en_data x \<noteq> []" "last (en_data x) = 0"
  proof -
    have "?d \<noteq> 0" using d that(1) by force
    then have "unat (?d - 1) = length (en_data x) - 1" using d by (simp add: unat_minus_one)
    then show ?thesis using that
      by (cases "en_data x" rule: rev_cases) (simp_all add: byte_at_def nth_append del: of_nat_Suc of_nat_add)
  qed
  ultimately show ?thesis
    using assms(2) length_entry_bytes [of x] assms(1) n d
    unfolding payload_check_element_def element_size [OF assms(1)] element_fields element_data [OF assms(1)] res_bind_Inr
    by (auto simp: wf_entry_def data_ok_def simp del: of_nat_Suc)
qed

lemma payload_check_complete:
  assumes "wf_payload es t"
  shows "payload_check (payload_bytes es t @ post) (length (payload_bytes es t)) = Inr True"
  using assms
proof (induction es)
  case Nil
  then have "wf_entry t" "is_term t" by (auto simp: wf_payload_def)
  then show ?case
    by (subst payload_check.simps)
      (simp add: payload_bytes_def check_element_complete element_size element_fields is_term_def)
next
  case (Cons x es)
  have x: "wf_entry x" "\<not> is_term x" and es: "wf_payload es t" using Cons.prems by (auto simp: wf_payload_def)
  have eq: "payload_bytes (x # es) t = entry_bytes x @ payload_bytes es t" by (simp add: payload_bytes_def)
  show ?case unfolding eq append_assoc using x Cons.IH [OF es]
    by (subst payload_check.simps)
      (simp add: check_element_complete element_size element_fields is_term_def)
qed

text \<open>Lookup returns the first entry of the name.\<close>

lemma payload_find_bytes:
  assumes "wf_payload es t" "0 \<notin> set name"
  shows "payload_find (payload_bytes es t @ post) name =
    Inr (if \<exists>x \<in> set es. en_name x = name
         then Some (payload_bytes (dropWhile (\<lambda>x. en_name x \<noteq> name) es) t @ post) else None)"
  using assms
proof (induction es)
  case Nil
  then show ?case
    by (subst payload_find.simps) (simp add: payload_bytes_def wf_payload_def is_term_def element_fields)
next
  case (Cons x es)
  have x: "wf_entry x" "\<not> is_term x" and es: "wf_payload es t" using Cons.prems by (auto simp: wf_payload_def)
  have eq: "payload_bytes (x # es) t = entry_bytes x @ payload_bytes es t" by (simp add: payload_bytes_def)
  have "strcmp_eq (name @ [0]) (en_name x @ 0 # en_data x @ payload_bytes es t @ post) = Inr (name = en_name x)"
    using x(1) Cons.prems(2) by (intro strcmp_eq_append) (simp_all add: wf_entry_def)
  then show ?case unfolding eq append_assoc using x Cons.IH [OF es Cons.prems(2)]
    by (subst payload_find.simps)
      (auto simp: element_size element_fields is_term_def payload_bytes_def)
qed

lemma payload_get_bytes:
  assumes "wf_payload es t" "0 \<notin> set name"
  shows "payload_get ty (payload_bytes es t @ post) name =
    Inr (case dropWhile (\<lambda>x. en_name x \<noteq> name) es of
           [] \<Rightarrow> None
         | x # xs \<Rightarrow> if en_type x = type_code ty then Some (en_data x @ payload_bytes xs t @ post) else None)"
proof (cases "dropWhile (\<lambda>x. en_name x \<noteq> name) es")
  case Nil
  then have "\<not> (\<exists>x \<in> set es. en_name x = name)" by (simp add: dropWhile_eq_Nil_conv)
  then show ?thesis
    by (simp add: payload_get_def payload_find_typed_def payload_find_bytes [OF assms] Nil)
next
  case (Cons x xs)
  then have "x \<in> set es" using set_dropWhileD [of x "\<lambda>x. en_name x \<noteq> name" es] by simp
  moreover have "en_name x = name" using Cons hd_dropWhile [of "\<lambda>x. en_name x \<noteq> name" es] by simp
  ultimately have ex: "\<exists>x \<in> set es. en_name x = name" by blast
  have wf: "wf_entry x" using \<open>x \<in> set es\<close> assms(1) by (simp add: wf_payload_def)
  have eq: "payload_bytes (x # xs) t = entry_bytes x @ payload_bytes xs t" by (simp add: payload_bytes_def)
  show ?thesis using ex wf Cons
    by (simp add: payload_get_def payload_find_typed_def payload_find_bytes [OF assms] eq element_fields element_data)
qed

section \<open>Accepted buffers are well-formed\<close>

lemma takeWhile_then_drop:
  "0 \<in> set p \<Longrightarrow> p = takeWhile (\<lambda>b. b \<noteq> 0) p @ 0 # drop (Suc (length (takeWhile (\<lambda>b. b \<noteq> 0) p))) (p :: bytes)"
  by (induction p) auto

lemma element_info_take:
  assumes "8 \<le> length e"
  shows "take 8 e = element_info (e ! 0) (e ! 1) (le_word (take 2 (drop 2 e))) (le_word (take 4 (drop 4 e)))"
proof -
  have "take 8 e = take 2 e @ take 2 (drop 2 e) @ take 4 (drop 4 e)"
    using take_add [of 4 4 e] take_add [of 2 2 e] by simp
  moreover have "take 2 e = [e ! 0, e ! 1]" using assms
    by (cases e; cases "tl e") (auto simp: numeral_2_eq_2)
  ultimately show ?thesis using assms
    by (simp add: element_info_def le_bytes_le_word [where 'a = 16] le_bytes_le_word [where 'a = 32])
qed

lemma last_take_nth: "0 < n \<Longrightarrow> n \<le> length xs \<Longrightarrow> last (take n xs) = xs ! (n - 1)"
  by (subst last_conv_nth) auto

lemma dec_index:
  fixes d :: u32
  assumes "unat (d - 1) < n" "n < 2 ^ 32"
  shows "unat d \<noteq> 0 \<and> unat (d - 1) = unat d - 1 \<and> unat d \<le> n"
proof -
  have "unat (- 1 :: u32) = 2 ^ 32 - 1" by (simp add: unsigned_minus_1_eq_mask mask_eq_exp_minus_1)
  then have "d \<noteq> 0" using assms by auto
  moreover from this have "0 < unat d" by (simp add: unat_gt_0)
  ultimately show ?thesis using assms(1) by (simp add: unat_minus_one)
qed

text \<open>A buffer of less than 4 GB leaves no room for a wrapped size: the byte that ends a string lies inside.\<close>

lemma check_element_sound:
  assumes "payload_check_element e (length e) = Inr True" "length e < 2 ^ 32"
  shows "\<exists>x post. e = entry_bytes x @ post \<and> wf_entry x"
proof -
  define ns where "ns = (le_word (take 2 (drop 2 e)) :: u16)"
  define ds where "ds = (le_word (take 4 (drop 4 e)) :: u32)"
  let ?name = "takeWhile (\<lambda>b. b \<noteq> 0) (drop 8 e)" and ?ty = "e ! 0"
  have len: "8 \<le> length e" using assms(1) by (auto simp: payload_check_element_def split: if_splits)
  have size: "unat (ucast ns + ds :: u32) + 8 \<le> length e"
    and z: "0 \<in> set (drop 8 e)" and nl: "length ?name + 1 = unat ns"
    and ty: "(?ty = 0 \<and> ds = 0) \<or> (?ty \<in> {0x10, 0x11} \<and> ds = 4) \<or> (?ty \<in> {0x20, 0x21} \<and> ds = 8)
      \<or> (?ty = 0x80 \<and> byte_at (drop (8 + unat ns) e) (unat (ds - 1)) = Inr 0)"
    using assms(1) len
    by (auto simp: payload_check_element_def payload_element_get_size_def element_name_size_def element_data_size_def
        payload_element_get_type_def payload_element_get_name_def payload_element_get_data_def byte_at_def c_strlen_def
        ns_def ds_def split: if_splits)
  define rest where "rest = drop (8 + unat ns) e"
  define data where "data = take (unat ds) rest"
  define x where "x = \<lparr>en_type = ?ty, en_reserved = e ! 1, en_name = ?name, en_data = data\<rparr>"
  have name: "drop 8 e = ?name @ 0 # rest"
    using takeWhile_then_drop [OF z] by (simp add: rest_def flip: nl)
  have "length (drop 8 e) = length ?name + Suc (length rest)"
    using arg_cong [OF name, of length] by (simp only: length_append list.size add_Suc_right add_0_right)
  then have lr: "length e = 8 + unat ns + length rest" using nl len by simp
  have str: "unat ds \<noteq> 0 \<and> unat ds \<le> length rest \<and> rest ! (unat ds - 1) = 0" if "?ty = 0x80"
  proof -
    have b: "unat (ds - 1) < length rest" "rest ! unat (ds - 1) = 0"
      using ty that by (auto simp: byte_at_def rest_def split: if_splits)
    then show ?thesis using dec_index [of ds "length rest"] lr assms(2) by simp
  qed
  have dl: "unat ds \<le> length rest"
  proof (cases "?ty = 0x80")
    case False
    then have d: "unat ds \<le> 8" using ty by auto
    then have "unat (ucast ns + ds :: u32) = unat ns + unat ds"
      using unsigned_less [of ns, where 'a = nat] by (simp add: unat_word_ariths unsigned_ucast_eq take_bit_nat_eq_self)
    then show ?thesis using size lr by simp
  qed (use str in simp)
  have "e = entry_bytes x @ drop (unat ds) rest"
  proof -
    have "e = take 8 e @ ?name @ 0 # data @ drop (unat ds) rest" using name by (simp add: data_def flip: name)
    then show ?thesis using dl nl unfolding element_info_take [OF len] ns_def [symmetric] ds_def [symmetric]
      by (simp add: entry_bytes_def x_def data_def)
  qed
  moreover have "wf_entry x"
  proof -
    have "0 \<notin> set ?name" by (auto dest: set_takeWhileD)
    moreover have "length ?name + 1 < 2 ^ 16" using nl unsigned_less [of ns, where 'a = nat] by simp
    moreover have "data_ok ?ty data"
      using ty str dl last_take_nth [of "unat ds" rest] by (auto simp: data_ok_def data_def)
    ultimately show ?thesis using dl nl lr assms(2) by (simp add: wf_entry_def x_def data_def)
  qed
  ultimately show ?thesis by blast
qed

lemma payload_check_sound:
  "payload_check e sz = Inr True \<Longrightarrow> sz = length e \<Longrightarrow> length e < 2 ^ 32 \<Longrightarrow>
     \<exists>es t. wf_payload es t \<and> e = payload_bytes es t"
proof (induction e sz rule: payload_check.induct)
  case (1 e sz)
  have ce: "payload_check_element e (length e) = Inr True"
    using 1(2,3) by (subst (asm) payload_check.simps) (auto simp: res_bind_eq_Inr split: if_splits)
  then obtain x post where x: "e = entry_bytes x @ post" "wf_entry x" using check_element_sound 1(4) by blast
  have size: "payload_element_get_size e = Inr (length (entry_bytes x))"
    and ty: "payload_element_get_type e = Inr (en_type x)" using x by (simp_all add: element_size element_fields)
  show ?case
  proof (cases "is_term x")
    case True
    then have "post = []"
      using 1(2,3) ce size ty x(1) by (subst (asm) payload_check.simps) (simp add: is_term_def)
    then show ?thesis using x True by (intro exI [of _ "[]"] exI [of _ x]) (simp add: wf_payload_def payload_bytes_def)
  next
    case False
    then have "payload_check post (length post) = Inr True"
      using 1(2,3) ce size ty x(1) by (subst (asm) payload_check.simps) (simp add: is_term_def)
    then have "\<exists>es t. wf_payload es t \<and> post = payload_bytes es t"
      using 1(1) [of True "length (entry_bytes x)" "en_type x"] 1(3,4) ce size ty x(1) False
      by (simp add: is_term_def)
    then obtain es t where "wf_payload es t" "post = payload_bytes es t" by blast
    then show ?thesis using x False
      by (intro exI [of _ "x # es"] exI [of _ t]) (auto simp: wf_payload_def payload_bytes_def)
  qed
qed

section \<open>Writing\<close>

text \<open>The invariant of a payload buffer: the used bytes fit, and the allocation can grow.\<close>

definition pb_ok :: "payload_buffer_t \<Rightarrow> bool" where
  "pb_ok pb \<longleftrightarrow> length (pb_buf pb) \<le> pb_allocated pb \<and> 0 < pb_allocated pb"

definition name_ok :: "bytes \<Rightarrow> bool" where
  "name_ok name \<longleftrightarrow> 0 \<notin> set name \<and> length name + 1 < 2 ^ 16"

definition new_entry :: "payload_type \<Rightarrow> bytes \<Rightarrow> bytes \<Rightarrow> payload_entry" where
  "new_entry ty name data = \<lparr>en_type = type_code ty, en_reserved = 0, en_name = name, en_data = data\<rparr>"

lemma grow_total: "0 < a \<Longrightarrow> \<exists>a'. grow a n = Inr a' \<and> n \<le> a' \<and> 0 < a'"
proof (induction a n rule: grow.induct)
  case (1 a n)
  then show ?case by (subst grow.simps) auto
qed

lemma payload_append_bytes_ok:
  "pb_ok pb \<Longrightarrow> \<exists>pb'. payload_append_bytes pb data = Inr pb' \<and> pb_ok pb' \<and> pb_buf pb' = pb_buf pb @ data"
  using grow_total [of "pb_allocated pb" "length data + length (pb_buf pb)"]
  by (auto simp: pb_ok_def payload_append_bytes_def add.commute)

lemma payload_add_element_ok:
  assumes "pb_ok pb" "name_ok name" "length data < 2 ^ 32"
  shows "\<exists>pb'. payload_add_element pb ty name data = Inr pb' \<and> pb_ok pb'
    \<and> pb_buf pb' = pb_buf pb @ entry_bytes (new_entry ty name data)"
proof -
  let ?n = "of_nat (length name + 1) :: u16" and ?d = "of_nat (length data) :: u32"
  have n: "unat ?n = length name + 1" using assms(2) by (intro unat_of_nat_small) (simp add: name_ok_def)
  have d: "unat ?d = length data" using assms(3) by (intro unat_of_nat_small) simp
  obtain p1 where 1: "payload_append_bytes pb (element_info (type_code ty) 0 ?n ?d) = Inr p1" "pb_ok p1"
    "pb_buf p1 = pb_buf pb @ element_info (type_code ty) 0 ?n ?d" using payload_append_bytes_ok [OF assms(1)] by blast
  obtain p2 where 2: "payload_append_bytes p1 (name @ [0]) = Inr p2" "pb_ok p2" "pb_buf p2 = pb_buf p1 @ name @ [0]"
    using payload_append_bytes_ok [OF 1(2)] by blast
  obtain p3 where 3: "payload_append_bytes p2 data = Inr p3" "pb_ok p3" "pb_buf p3 = pb_buf p2 @ data"
    using payload_append_bytes_ok [OF 2(2)] by blast
  have "take (unat ?n) (name @ [0]) = name @ [0]" "take (unat ?d) data = data" using n d by simp_all
  then have "payload_add_element pb ty name data = Inr p3"
    unfolding payload_add_element_def Let_def using 1(1) 2(1) 3(1) by (simp del: of_nat_Suc of_nat_add)
  then show ?thesis using 1(3) 2(3) 3(2,3) by (simp add: entry_bytes_def new_entry_def del: of_nat_Suc)
qed

text \<open>
  The interface the protocol code relies on when it builds a reply field by field: a typed put
  appends one well-formed entry.
\<close>

locale payload_field =
  fixes put :: "payload_buffer_t \<Rightarrow> bytes \<Rightarrow> 'v \<Rightarrow> payload_buffer_t res"
    and ty :: payload_type
    and enc :: "'v \<Rightarrow> bytes"
    and val_ok :: "'v \<Rightarrow> bool"
  assumes put_appends: "pb_ok pb \<Longrightarrow> name_ok name \<Longrightarrow> val_ok v \<Longrightarrow>
      \<exists>pb'. put pb name v = Inr pb' \<and> pb_ok pb' \<and> pb_buf pb' = pb_buf pb @ entry_bytes (new_entry ty name (enc v))"
    and entry_wf: "name_ok name \<Longrightarrow> val_ok v \<Longrightarrow> wf_entry (new_entry ty name (enc v))"
    and not_term: "type_code ty \<noteq> type_code PAYLOAD_TYPE_TERMINATOR"
begin

text \<open>A field put into a buffer and closed by the terminator is accepted and found.\<close>

lemma put_term_get:
  assumes "pb_ok pb" "pb_buf pb = concat (map entry_bytes es)" "\<forall>x \<in> set es. wf_entry x \<and> \<not> is_term x"
    and "name_ok name" "val_ok v" "name \<notin> en_name ` set es"
  shows "\<exists>pb1 pb2. put pb name v = Inr pb1 \<and> payload_put_term pb1 = Inr pb2
    \<and> payload_check (pb_buf pb2) (length (pb_buf pb2)) = Inr True
    \<and> (\<exists>post. payload_get ty (pb_buf pb2) name = Inr (Some (enc v @ post)))"
proof -
  let ?x = "new_entry ty name (enc v)" and ?t = "new_entry PAYLOAD_TYPE_TERMINATOR [] []"
  obtain pb1 where 1: "put pb name v = Inr pb1" "pb_ok pb1" "pb_buf pb1 = pb_buf pb @ entry_bytes ?x"
    using put_appends assms(1,4,5) by blast
  have "name_ok []" by (simp add: name_ok_def)
  then obtain pb2 where 2: "payload_put_term pb1 = Inr pb2" "pb_buf pb2 = pb_buf pb1 @ entry_bytes ?t"
    using payload_add_element_ok [OF 1(2), of "[]" "[]" PAYLOAD_TYPE_TERMINATOR] by (auto simp: payload_put_term_def)
  have wf: "wf_payload (es @ [?x]) ?t"
    using assms(3) entry_wf [OF assms(4,5)] not_term
    by (auto simp: wf_payload_def wf_entry_def is_term_def new_entry_def data_ok_def)
  have bytes: "pb_buf pb2 = payload_bytes (es @ [?x]) ?t @ []"
    using 1(3) 2(2) assms(2) by (simp add: payload_bytes_def)
  have "dropWhile (\<lambda>x. en_name x \<noteq> name) (es @ [?x]) = [?x]"
    using assms(6) by (subst dropWhile_append2) (auto simp: new_entry_def)
  moreover have "0 \<notin> set name" using assms(4) by (simp add: name_ok_def)
  ultimately have "payload_get ty (pb_buf pb2) name = Inr (Some (enc v @ payload_bytes [] ?t @ []))"
    unfolding bytes payload_get_bytes [OF wf \<open>0 \<notin> set name\<close>] by (simp add: new_entry_def)
  moreover have "payload_check (pb_buf pb2) (length (pb_buf pb2)) = Inr True"
    using payload_check_complete [OF wf, of "[]"] bytes by simp
  ultimately show ?thesis using 1(1) 2(1) by blast
qed

end

lemma entry_wf_number:
  "name_ok name \<Longrightarrow> ty \<in> {PAYLOAD_TYPE_U32, PAYLOAD_TYPE_I32} \<Longrightarrow> wf_entry (new_entry ty name (le_bytes 4 v))"
  "name_ok name \<Longrightarrow> ty \<in> {PAYLOAD_TYPE_U64, PAYLOAD_TYPE_I64} \<Longrightarrow> wf_entry (new_entry ty name (le_bytes 8 w))"
  by (auto simp: wf_entry_def new_entry_def name_ok_def data_ok_def)

interpretation u32_field: payload_field payload_put_u32 PAYLOAD_TYPE_U32 "le_bytes 4" "\<lambda>_. True"
  by unfold_locales (simp_all add: payload_put_u32_def payload_add_element_ok entry_wf_number)

interpretation i32_field: payload_field payload_put_i32 PAYLOAD_TYPE_I32 "le_bytes 4" "\<lambda>_. True"
  by unfold_locales (simp_all add: payload_put_i32_def payload_add_element_ok entry_wf_number)

interpretation u64_field: payload_field payload_put_u64 PAYLOAD_TYPE_U64 "le_bytes 8" "\<lambda>_. True"
  by unfold_locales (simp_all add: payload_put_u64_def payload_add_element_ok entry_wf_number)

interpretation i64_field: payload_field payload_put_i64 PAYLOAD_TYPE_I64 "le_bytes 8" "\<lambda>_. True"
  by unfold_locales (simp_all add: payload_put_i64_def payload_add_element_ok entry_wf_number)

definition str_bytes :: "bytes option \<Rightarrow> bytes" where
  "str_bytes val = (case val of Some s \<Rightarrow> s @ [0] | None \<Rightarrow> [0])"

definition str_ok :: "bytes option \<Rightarrow> bool" where
  "str_ok val \<longleftrightarrow> length (str_bytes val) < 2 ^ 32 - 2 ^ 16"

interpretation str_field: payload_field payload_put_str PAYLOAD_TYPE_STR str_bytes str_ok
proof
  fix pb name val
  assume "pb_ok pb" "name_ok name" "str_ok val"
  then show "\<exists>pb'. payload_put_str pb name val = Inr pb' \<and> pb_ok pb'
      \<and> pb_buf pb' = pb_buf pb @ entry_bytes (new_entry PAYLOAD_TYPE_STR name (str_bytes val))"
    using payload_add_element_ok [of pb name "str_bytes val" PAYLOAD_TYPE_STR]
    by (simp add: payload_put_str_def str_bytes_def str_ok_def)
next
  fix name val
  assume "name_ok name" "str_ok val"
  then show "wf_entry (new_entry PAYLOAD_TYPE_STR name (str_bytes val))"
    by (auto simp: wf_entry_def new_entry_def name_ok_def data_ok_def str_ok_def str_bytes_def split: option.splits)
qed simp

section \<open>Properties\<close>





text \<open>round trip of a 32-bit number. Added to a buffer that holds other entries and closed with the
  terminator, the payload is accepted and the number read back under its name.\<close>

theorem payload_u32_roundtrip:
  assumes "pb_ok pb" "pb_buf pb = concat (map entry_bytes es)" "\<forall>x \<in> set es. wf_entry x \<and> \<not> is_term x"
    and "name_ok name" "name \<notin> en_name ` set es"
  shows "\<exists>pb1 pb2 p. payload_put_u32 pb name v = Inr pb1 \<and> payload_put_term pb1 = Inr pb2
    \<and> payload_check (pb_buf pb2) (length (pb_buf pb2)) = Inr True
    \<and> payload_get PAYLOAD_TYPE_U32 (pb_buf pb2) name = Inr (Some p) \<and> le_word (take 4 p) = v"
proof -
  obtain pb1 pb2 post where "payload_put_u32 pb name v = Inr pb1" "payload_put_term pb1 = Inr pb2"
    "payload_check (pb_buf pb2) (length (pb_buf pb2)) = Inr True"
    "payload_get PAYLOAD_TYPE_U32 (pb_buf pb2) name = Inr (Some (le_bytes 4 v @ post))"
    using u32_field.put_term_get [OF assms(1-4) _ assms(5), of v] by auto
  then show ?thesis by (intro exI [of _ pb1] exI [of _ pb2] exI [of _ "le_bytes 4 v @ post"]) (simp add: le_word_le_bytes)
qed

text \<open>Witness: one number in a fresh buffer.\<close>

theorem payload_u32_roundtrip_witness:
  "\<exists>pb1 pb2 p. payload_put_u32 payload_create [0x70, 0x69, 0x64] 4242 = Inr pb1 \<and> payload_put_term pb1 = Inr pb2
    \<and> payload_get PAYLOAD_TYPE_U32 (pb_buf pb2) [0x70, 0x69, 0x64] = Inr (Some p) \<and> le_word (take 4 p) = (4242 :: u32)"
  using payload_u32_roundtrip [of payload_create "[]" "[0x70, 0x69, 0x64]" 4242]
  by (auto simp: pb_ok_def payload_create_def name_ok_def)

text \<open>round trip of a string, including the absent string, which is read back as the empty one.\<close>

theorem payload_str_roundtrip:
  assumes "pb_ok pb" "pb_buf pb = concat (map entry_bytes es)" "\<forall>x \<in> set es. wf_entry x \<and> \<not> is_term x"
    and "name_ok name" "name \<notin> en_name ` set es" "str_ok val" "\<forall>s. val = Some s \<longrightarrow> 0 \<notin> set s"
  shows "\<exists>pb1 pb2 p. payload_put_str pb name val = Inr pb1 \<and> payload_put_term pb1 = Inr pb2
    \<and> payload_check (pb_buf pb2) (length (pb_buf pb2)) = Inr True
    \<and> payload_get PAYLOAD_TYPE_STR (pb_buf pb2) name = Inr (Some p)
    \<and> takeWhile (\<lambda>b. b \<noteq> 0) p = (case val of Some s \<Rightarrow> s | None \<Rightarrow> [])"
proof -
  obtain pb1 pb2 post where *: "payload_put_str pb name val = Inr pb1" "payload_put_term pb1 = Inr pb2"
    "payload_check (pb_buf pb2) (length (pb_buf pb2)) = Inr True"
    "payload_get PAYLOAD_TYPE_STR (pb_buf pb2) name = Inr (Some (str_bytes val @ post))"
    using str_field.put_term_get [OF assms(1-4) assms(6,5)] by auto
  have "takeWhile (\<lambda>b. b \<noteq> 0) (str_bytes val @ post) = (case val of Some s \<Rightarrow> s | None \<Rightarrow> [])"
    using assms(7) takeWhile_append_stop [of _ "\<lambda>b. b \<noteq> 0" 0]
    by (auto simp: str_bytes_def split: option.splits)
  with * show ?thesis by blast
qed

theorem payload_str_roundtrip_witness:
  "\<exists>pb1 pb2 p. payload_put_str payload_create [0x6e] (Some [0x78, 0x79]) = Inr pb1 \<and> payload_put_term pb1 = Inr pb2
    \<and> payload_get PAYLOAD_TYPE_STR (pb_buf pb2) [0x6e] = Inr (Some p) \<and> takeWhile (\<lambda>b. b \<noteq> 0) p = [0x78, 0x79]"
  using payload_str_roundtrip [of payload_create "[]" "[0x6e]" "Some [0x78, 0x79]"]
  by (auto simp: pb_ok_def payload_create_def name_ok_def str_ok_def str_bytes_def)

text \<open>a string element with no data makes the check itself read outside the buffer: its last byte is
  looked for at index \<open>data_size - 1\<close>, which wraps to 4 GB.\<close>

theorem payload_check_empty_string_fault:
  assumes "name_ok name" "length e < 2 ^ 32"
    and "e = element_info (type_code PAYLOAD_TYPE_STR) r (of_nat (Suc (length name))) 0 @ name @ [0] @ post"
  shows "payload_check e (length e) = Inl Out_Of_Bounds"
proof -
  let ?x = "\<lparr>en_type = 0x80, en_reserved = r, en_name = name, en_data = []\<rparr>"
  let ?n = "of_nat (Suc (length name)) :: u16"
  have e: "e = entry_bytes ?x @ post" using assms(3) by (simp add: entry_bytes_def)
  have n: "unat ?n = Suc (length name)" using assms(1) by (intro unat_of_nat_small) (simp add: name_ok_def)
  have nz: "?n \<noteq> 0" using n by force
  have "take_bit 32 (Suc (length name)) = Suc (length name)"
    using assms(1) by (intro take_bit_nat_eq_self) (simp add: name_ok_def)
  then have size: "payload_element_get_size e = Inr (9 + length name)"
    unfolding e using n by (simp add: payload_element_get_size_def element_fields unsigned_ucast_eq del: of_nat_Suc)
  have len: "length e = 9 + length name + length post" using e by (simp add: length_entry_bytes)
  have "unat (- 1 :: u32) = 2 ^ 32 - 1" by (simp add: unsigned_minus_1_eq_mask mask_eq_exp_minus_1)
  then have oob: "byte_at post (unat (0 - 1 :: u32)) = Inl Out_Of_Bounds"
    using assms(2) len by (simp add: byte_at_def)
  have data: "payload_element_get_data e = Inr post"
    unfolding e payload_element_get_data_def element_fields using n by (simp add: entry_bytes_def del: of_nat_Suc)
  have "c_strlen (name @ 0 # post) = Inr (length name)"
    using assms(1) by (intro c_strlen_append) (simp add: name_ok_def)
  then have "payload_check_element e (length e) = Inl Out_Of_Bounds"
    using n nz oob len data size
    unfolding payload_check_element_def e element_fields
    by (simp add: byte_at_def del: of_nat_Suc)
  then show ?thesis by (subst payload_check.simps) simp
qed

theorem payload_check_empty_string_fault_witness:
  "let b = [0x80, 0, 2, 0, 0, 0, 0, 0, 0x61, 0, 0, 0, 1, 0, 0, 0, 0, 0, 0]
   in payload_check b (length b) = Inl Out_Of_Bounds"
  unfolding Let_def
proof (rule payload_check_empty_string_fault [of "[0x61]"])
  show "[0x80, 0, 2, 0, 0, 0, 0, 0, 0x61, 0, 0, 0, 1, 0, 0, 0, 0, 0, 0] =
      element_info (type_code PAYLOAD_TYPE_STR) 0 (of_nat (Suc (length [0x61 :: u8]))) 0 @ [0x61] @ [0]
      @ [0, 0, 1, 0, 0, 0, 0, 0, 0]"
    by (simp add: element_info_def le_bytes_def upt_conv_Cons)
qed (simp_all add: name_ok_def)

end
