(* ===== verification/Mem.thy ===== *)
theory Mem
  imports Adbi_Prelude
begin

text \<open>
  Access to the memory of a traced process, \<^verbatim>\<open>procutil/mem.c\<close>: writes go word by word through
  \<^verbatim>\<open>ptrace\<close>, reads through \<^verbatim>\<open>/proc/pid/mem\<close>. The operating system is a parameter: the record of
  the calls the code makes, with the state \<open>'m\<close> of the traced thread. \<open>'a\<close> is the type of an
  address and of \<^verbatim>\<open>unsigned long\<close>: 32 on ARM and 64 on ARM64, where a word write still replaces four
  bytes only.
\<close>

section \<open>Definitions\<close>

record ('m, 'a) inferior_ops =
  ptrace_mem_read :: "'m \<Rightarrow> 'a \<Rightarrow> 'a option"
  ptrace_mem_write :: "'m \<Rightarrow> 'a \<Rightarrow> 'a \<Rightarrow> 'm option"
  procfs_mem_read :: "'m \<Rightarrow> 'a \<Rightarrow> nat \<Rightarrow> bytes"
  thread_dead :: "'m \<Rightarrow> bool"
  check_alive :: "'m \<Rightarrow> 'm"

definition is_word_aligned :: "'w::len word \<Rightarrow> bool" where
  "is_word_aligned addr \<longleftrightarrow> addr AND 0x03 = 0"

text \<open>\<open>None\<close> is the result \<^verbatim>\<open>false\<close>.\<close>

definition mem_write_masked_word ::
    "('m, 'w::len word) inferior_ops \<Rightarrow> 'm \<Rightarrow> 'w word \<Rightarrow> u32 \<Rightarrow> u32 \<Rightarrow> 'm option res" where
  "mem_write_masked_word ops m address v msk =
     adbi_assure (is_word_aligned address)
     (adbi_assure (NOT msk AND v = 0)
     (case ptrace_mem_read ops m address of
        None \<Rightarrow> Inr None
      | Some t \<Rightarrow> Inr (ptrace_mem_write ops m address ((t AND NOT (ucast msk)) OR ucast v))))"

text \<open>
  The pointer \<^verbatim>\<open>data\<close> of the code may point before the buffer; it is the buffer and the (possibly
  negative) index \<open>d\<close> of the byte it points to.
\<close>

definition data_at :: "bytes \<Rightarrow> int \<Rightarrow> u8 res" where
  "data_at data i = (if 0 \<le> i \<and> i < int (length data) then Inr (data ! nat i) else Inl Out_Of_Bounds)"

fun shift_word_bytes :: "bytes \<Rightarrow> int \<Rightarrow> nat \<Rightarrow> nat \<Rightarrow> nat list \<Rightarrow> (bytes \<times> bytes) res" where
  "shift_word_bytes data d start stop [] = Inr ([], [])"
| "shift_word_bytes data d start stop (offset # rest) =
     (if offset \<ge> start \<and> offset < stop then
        res_bind (data_at data (d + int offset)) (\<lambda>b.
        res_bind (shift_word_bytes data d start stop rest) (\<lambda>(ms, vs). Inr (0xff # ms, b # vs)))
      else res_bind (shift_word_bytes data d start stop rest) (\<lambda>(ms, vs). Inr (0x00 # ms, 0x00 # vs)))"

definition mem_write_shift_word ::
    "('m, 'w::len word) inferior_ops \<Rightarrow> 'm \<Rightarrow> 'w word \<Rightarrow> bytes \<Rightarrow> int \<Rightarrow> nat \<Rightarrow> nat \<Rightarrow> (nat \<times> 'm) res" where
  "mem_write_shift_word ops m address data d start stop =
     adbi_assure (is_word_aligned address)
     (adbi_assure (start < stop)
     (adbi_assure (start < 4)
     (adbi_assure (stop \<le> 4)
     (res_bind (shift_word_bytes data d start stop [0, 1, 2, 3]) (\<lambda>(ms, vs).
      res_bind (mem_write_masked_word ops m address (le_word vs) (le_word ms)) (\<lambda>r.
      case r of Some m' \<Rightarrow> Inr (stop - start, m') | None \<Rightarrow> Inr (0, m)))))))"

function mem_write_shift_loop ::
    "('m, 'w::len word) inferior_ops \<Rightarrow> 'm \<Rightarrow> 'w word \<Rightarrow> bytes \<Rightarrow> int \<Rightarrow> nat \<Rightarrow> nat \<Rightarrow> nat \<Rightarrow> (nat \<times> 'm) res" where
  "mem_write_shift_loop ops m address data d start stop written =
     res_bind (mem_write_shift_word ops m address data d start (if stop \<ge> 4 then 4 else stop)) (\<lambda>(now, m').
       if now = 0 then Inr (written + now, m')
       else if stop \<le> 4 then Inr (written + now, m')
       else mem_write_shift_loop ops m' (address + 4) data (d + 4) 0 (stop - 4) (written + now))"
  by pat_completeness auto
termination
  by (relation "measure (\<lambda>(ops, m, address, data, d, start, stop, written). stop)") auto

declare mem_write_shift_loop.simps [simp del]

text \<open>
  The offsets are \<^verbatim>\<open>unsigned int\<close> on both architectures: the caller's 64-bit offsets are cut off to 32
  bits on ARM64. The loop subtracts from the end what is still there, so it runs on their values.
\<close>

definition mem_write_shift ::
    "('m, 'w::len word) inferior_ops \<Rightarrow> 'm \<Rightarrow> 'w word \<Rightarrow> bytes \<Rightarrow> int \<Rightarrow> u32 \<Rightarrow> u32 \<Rightarrow> (nat \<times> 'm) res" where
  "mem_write_shift ops m address data d start stop =
     adbi_assure (start < 4)
     (adbi_assure (start < stop)
     (adbi_assure (is_word_aligned address)
     (mem_write_shift_loop ops m address data d (unat start) (unat stop) 0)))"

definition mem_read :: "('m, 'w::len word) inferior_ops \<Rightarrow> 'm \<Rightarrow> 'w word \<Rightarrow> nat \<Rightarrow> bytes \<times> 'm" where
  "mem_read ops m address count =
     (if thread_dead ops m then ([], m)
      else let r = procfs_mem_read ops m address count
           in if length r < count then (r, check_alive ops m) else (r, m))"

function mem_verify :: "('m, 'w::len word) inferior_ops \<Rightarrow> 'm \<Rightarrow> 'w word \<Rightarrow> nat \<Rightarrow> bytes \<Rightarrow> bool \<times> 'm" where
  "mem_verify ops m address sz data =
     (if sz = 0 then (True, m)
      else let s = min 32 sz;
               r = mem_read ops m address s
           in if length (fst r) \<noteq> s then (False, snd r)
              else if fst r \<noteq> take s data then (False, snd r)
              else mem_verify ops (snd r) (address + of_nat s) (sz - s) (drop s data))"
  by pat_completeness auto
termination
  by (relation "measure (\<lambda>(ops, m, address, sz, data). sz)") auto

declare mem_verify.simps [simp del]

definition mem_write :: "('m, 'w::len word) inferior_ops \<Rightarrow> 'm \<Rightarrow> 'w word \<Rightarrow> bytes \<Rightarrow> (nat \<times> 'm) res" where
  "mem_write ops m address data =
     (if thread_dead ops m then Inr (0, m)
      else res_bind
        (if data \<noteq> [] then
           let first_word_address = address AND NOT 0x03;
               start_offset = address - first_word_address;
               end_offset = address + of_nat (length data) - first_word_address
           in res_bind (mem_write_shift ops m first_word_address data (- uint start_offset) (ucast start_offset) (ucast end_offset))
                (\<lambda>(written, m').
                 let v = mem_verify ops m' address written data
                 in adbi_assure (fst v \<or> thread_dead ops (snd v)) (Inr (written, snd v)))
         else Inr (0, m))
        (\<lambda>(written, m'). if written < length data then Inr (written, check_alive ops m') else Inr (written, m')))"

section \<open>Words and masks of the transfer\<close>

definition in_range :: "nat \<Rightarrow> nat \<Rightarrow> nat \<Rightarrow> bool" where
  "in_range start stop i \<longleftrightarrow> start \<le> i \<and> i < stop"

lemma shift_word_bytes_eq:
  assumes "\<And>i. i \<in> set offs \<Longrightarrow> in_range start stop i \<Longrightarrow> 0 \<le> d + int i \<and> d + int i < int (length data)"
  shows "shift_word_bytes data d start stop offs =
    Inr (map (\<lambda>i. if in_range start stop i then 0xff else 0) offs,
         map (\<lambda>i. if in_range start stop i then data ! nat (d + int i) else 0) offs)"
  using assms by (induction offs) (auto simp: data_at_def in_range_def)

text \<open>Byte \<open>i\<close> of a word in memory order.\<close>

definition byte_of :: "'w::len word \<Rightarrow> nat \<Rightarrow> u8" where
  "byte_of w i = ucast (drop_bit (8 * i) w)"

lemma byte_of_le_word:
  "length bs = 4 \<Longrightarrow> byte_of (le_word bs :: u32) i = (if i < 4 then bs ! i else 0)"
proof (rule bit_word_eqI)
  fix k assume "length bs = 4" "k < LENGTH(8)"
  then show "bit (byte_of (le_word bs :: u32) i) k = bit (if i < 4 then bs ! i else 0) k"
    by (auto simp: byte_of_def bit_simps bit_le_word)
qed

lemma masked_bytes_disjoint:
  assumes "length ms = 4" "length vs = 4" "\<And>i. i < 4 \<Longrightarrow> NOT (ms ! i) AND vs ! i = 0"
  shows "NOT (le_word ms) AND le_word vs = (0 :: u32)"
proof (rule bit_word_eqI)
  fix k assume "k < LENGTH(32)"
  then have "k div 8 < 4" by auto
  then have "\<not> (\<not> bit (ms ! (k div 8)) (k mod 8) \<and> bit (vs ! (k div 8)) (k mod 8))"
    using arg_cong [OF assms(3) [of "k div 8"], of "\<lambda>w. bit w (k mod 8)"] by (auto simp: bit_simps)
  then show "bit (NOT (le_word ms) AND le_word vs :: u32) k = bit 0 k"
    using \<open>k < LENGTH(32)\<close> assms(1,2) by (auto simp: bit_simps bit_le_word)
qed

text \<open>The effect of a transfer on the contents of the memory: exactly the bytes of the range are set.\<close>

definition wrote :: "('w::len word \<Rightarrow> u8 option) \<Rightarrow> ('w word \<Rightarrow> u8 option) \<Rightarrow> 'w word \<Rightarrow> bytes \<Rightarrow> int \<Rightarrow> nat \<Rightarrow> nat \<Rightarrow> bool" where
  "wrote c c' a data d start stop \<longleftrightarrow>
     (\<forall>i. in_range start stop i \<longrightarrow> c' (a + of_nat i) = Some (data ! nat (d + int i)))
     \<and> (\<forall>x. (\<forall>i. in_range start stop i \<longrightarrow> x \<noteq> a + of_nat i) \<longrightarrow> c' x = c x)"

lemma wrote_none [simp]: "wrote c c a data d start start"
  by (auto simp: wrote_def in_range_def)

text \<open>Offsets below the size of the address space give different addresses.\<close>

lemma offsets_distinct:
  assumes "i < 2 ^ LENGTH('w)" "j < 2 ^ LENGTH('w)" "a + of_nat i = (a + of_nat j :: 'w::len word)"
  shows "i = j"
  using assms by (metis add_left_cancel unat_of_nat take_bit_eq_mod take_bit_nat_eq_self)

lemma wrote_append:
  fixes a :: "'w::len word"
  assumes w1: "wrote c c1 a data d start 4" and w2: "wrote c1 c2 (a + 4) data (d + 4) 0 n"
    and b: "start \<le> 4" "4 + n \<le> 2 ^ LENGTH('w)"
  shows "wrote c c2 a data d start (4 + n)"
  unfolding wrote_def
proof (intro conjI allI impI)
  have shift: "a + 4 + of_nat j = a + of_nat (4 + j)" for j by (simp add: add.assoc)
  fix i assume i: "in_range start (4 + n) i"
  show "c2 (a + of_nat i) = Some (data ! nat (d + int i))"
  proof (cases "i < 4")
    case True
    have "a + of_nat i \<noteq> a + 4 + of_nat j" if "j < n" for j
      unfolding shift using offsets_distinct [of i "4 + j" a] True that b(2) by fastforce
    then have "c2 (a + of_nat i) = c1 (a + of_nat i)" using w2 by (simp add: wrote_def in_range_def)
    then show ?thesis using w1 True i by (simp add: wrote_def in_range_def)
  next
    case False
    then obtain j where "i = 4 + j" by (metis le_Suc_ex not_less)
    then show ?thesis using w2 i by (simp add: wrote_def in_range_def add.assoc)
  qed
next
  fix x assume x: "\<forall>i. in_range start (4 + n) i \<longrightarrow> x \<noteq> a + of_nat i"
  have "x \<noteq> a + 4 + of_nat j" if "j < n" for j
    using x [rule_format, of "4 + j"] that b(1) by (simp add: in_range_def add.assoc)
  then have "c2 x = c1 x" using w2 by (simp add: wrote_def in_range_def)
  moreover have "c1 x = c x" using w1 x by (simp add: wrote_def in_range_def)
  ultimately show "c2 x = c x" by simp
qed

section \<open>Writes that do not fail\<close>

text \<open>
  A region of the memory and a set of states of the traced thread in which every transfer of a word that holds a byte of the
  region succeeds, and that transfers to the region do not leave. Nothing is said of the rest of the address space, which may be
  unmapped.
\<close>

definition writable_in :: "('m, 'w::len word) inferior_ops \<Rightarrow> 'w word set \<Rightarrow> ('m \<Rightarrow> bool) \<Rightarrow> bool" where
  "writable_in ops R P \<longleftrightarrow> (\<forall>m. P m \<longrightarrow> (\<forall>a \<in> R.
     ptrace_mem_read ops m (a AND NOT 3) \<noteq> None \<and> (\<forall>v. \<exists>m'. ptrace_mem_write ops m (a AND NOT 3) v = Some m' \<and> P m')))"

definition span :: "'w::len word \<Rightarrow> nat \<Rightarrow> 'w word set" where
  "span a n = (\<lambda>i. a + of_nat i) ` {..<n}"

lemma spanI: "i < n \<Longrightarrow> a + of_nat i \<in> span a n"
  by (simp add: span_def)

lemma span_mono: "n \<le> k \<Longrightarrow> span a n \<subseteq> span a k"
  by (auto simp: span_def)

lemma writable_in_write:
  assumes "writable_in ops R P" "P m" "x \<in> R" "x AND NOT 3 = a"
  shows "\<exists>t. ptrace_mem_read ops m a = Some t" "\<exists>m'. ptrace_mem_write ops m a v = Some m' \<and> P m'"
  using assms unfolding writable_in_def by blast+

lemma writable_in_subset: "writable_in ops R P \<Longrightarrow> S \<subseteq> R \<Longrightarrow> writable_in ops S P"
  unfolding writable_in_def by blast

text \<open>The memory can be written in the region, as often as the server likes.\<close>

definition can_write :: "('m, 'w::len word) inferior_ops \<Rightarrow> 'w word set \<Rightarrow> 'm \<Rightarrow> bool" where
  "can_write ops R m \<longleftrightarrow> (\<exists>P. writable_in ops R P \<and> P m)"

lemma can_write_writable: "writable_in ops R (can_write ops R)"
  unfolding writable_in_def can_write_def by metis

lemma aligned_word_of:
  fixes a :: "'w::len word"
  assumes "is_word_aligned a" "i < 4" "2 < LENGTH('w)"
  shows "(a + of_nat i) AND NOT 3 = a"
proof -
  have m: "(3 :: 'w word) = mask 2" by (simp add: mask_eq_exp_minus_1)
  have a0: "a AND 3 = 0" using assms(1) by (simp add: is_word_aligned_def)
  have im: "of_nat i AND 3 = (of_nat i :: 'w word)"
    unfolding m take_bit_eq_mask [symmetric] using assms(2) by (simp add: take_bit_of_nat take_bit_nat_eq_self)
  have z: "a AND of_nat i = 0" using a0 im by (metis and.assoc and.commute and_zero_eq)
  have "of_nat i AND NOT 3 = (0 :: 'w word)"
    using im by (metis and.assoc and.right_neutral bit.conj_cancel_right and_zero_eq)
  moreover have "a AND NOT 3 = a" using a0
    by (metis bit.conj_disj_distrib bit.disj_cancel_right and.right_neutral or.left_neutral)
  ultimately show ?thesis using z by (simp add: disjunctive_add_eq_or bit.conj_disj_distrib2)
qed

lemma masked_word_complete:
  assumes "writable_in ops R P" "P m" "x \<in> R" "x AND NOT 3 = a" "mem_write_masked_word ops m a v msk = Inr r"
  shows "\<exists>m'. r = Some m' \<and> P m'"
proof -
  obtain t where t: "ptrace_mem_read ops m a = Some t" using writable_in_write(1) [OF assms(1-4)] by blast
  have "r = ptrace_mem_write ops m a (t AND NOT (ucast msk) OR ucast v)"
    using assms(5) t by (auto simp: mem_write_masked_word_def adbi_assure_def split: if_splits)
  then show ?thesis using writable_in_write(2) [OF assms(1-4)] by simp
qed

lemma shift_word_complete:
  fixes a :: "'w::len word"
  assumes "writable_in ops R P" "P m" "a + of_nat start \<in> R" "2 < LENGTH('w)"
    "mem_write_shift_word ops m a data d start stop = Inr (n, m')"
  shows "n = stop - start \<and> 0 < n \<and> P m'"
proof -
  obtain v msk r where r: "mem_write_masked_word ops m a v msk = Inr r" "start < stop"
    "(case r of Some m' \<Rightarrow> Inr (stop - start, m') | None \<Rightarrow> Inr (0, m)) = (Inr (n, m') :: (nat \<times> 'a) res)"
    "is_word_aligned a" "start < 4"
    using assms(5) by (auto simp: mem_write_shift_word_def adbi_assure_def res_bind_def split: if_splits sum.splits)
  then show ?thesis using masked_word_complete [OF assms(1-3) aligned_word_of [OF r(4,5) assms(4)] r(1)] by auto
qed

lemma shift_loop_complete:
  fixes a :: "'w::len word"
  assumes "writable_in ops R P" "P m" "start < 4" "start < stop" "\<And>i. in_range start stop i \<Longrightarrow> a + of_nat i \<in> R" "2 < LENGTH('w)"
    "mem_write_shift_loop ops m a data d start stop w = Inr (k, m')"
  shows "k = w + (stop - start) \<and> P m'"
  using assms(2-5,7)
proof (induction stop arbitrary: m a d start w rule: less_induct)
  case (less stop)
  let ?stop1 = "if stop \<ge> 4 then 4 else stop"
  obtain n m1 where 1: "mem_write_shift_word ops m a data d start ?stop1 = Inr (n, m1)"
    "(if n = 0 then Inr (w + n, m1) else if stop \<le> 4 then Inr (w + n, m1)
      else mem_write_shift_loop ops m1 (a + 4) data (d + 4) 0 (stop - 4) (w + n)) = Inr (k, m')"
    using less.prems(5) by (subst (asm) mem_write_shift_loop.simps) (auto simp: res_bind_def split: sum.splits)
  have "a + of_nat start \<in> R" using less.prems(3,4) by (simp add: in_range_def)
  then have n: "n = ?stop1 - start" "0 < n" "P m1"
    using shift_word_complete [OF assms(1) less.prems(1) _ assms(6) 1(1)] by auto
  show ?case
  proof (cases "stop \<le> 4")
    case True
    then have "?stop1 = stop" by auto
    then show ?thesis using 1(2) n True by simp
  next
    case False
    have "a + 4 + of_nat i \<in> R" if "in_range 0 (stop - 4) i" for i
      using less.prems(4) [of "4 + i"] less.prems(2) that by (simp add: in_range_def add.assoc)
    then show ?thesis using 1(2) n False less.IH [of "stop - 4" m1 0 "a + 4" "d + 4" "w + n"] by simp
  qed
qed

section \<open>The operating system's contract\<close>

text \<open>
  \<open>contents\<close> is what the memory holds, where it is mapped. The laws are those of \<^verbatim>\<open>ptrace(2)\<close>
  (\<^verbatim>\<open>PEEKDATA\<close> and \<^verbatim>\<open>POKEDATA\<close> transfer one \<^verbatim>\<open>unsigned long\<close>) and \<^verbatim>\<open>proc(5)\<close>.
\<close>

locale inferior =
  fixes ops :: "('m, 'w::len word) inferior_ops"
    and contents :: "'m \<Rightarrow> 'w word \<Rightarrow> u8 option"
  assumes width: "LENGTH('w) = 8 * (LENGTH('w) div 8)" "4 \<le> LENGTH('w) div 8"
    and peek: "ptrace_mem_read ops m a = Some w \<Longrightarrow> i < LENGTH('w) div 8 \<Longrightarrow>
      contents m (a + of_nat i) = Some (byte_of w i)"
    and poke_in: "ptrace_mem_write ops m a w = Some m' \<Longrightarrow> i < LENGTH('w) div 8 \<Longrightarrow>
      contents m' (a + of_nat i) = Some (byte_of w i)"
    and poke_out: "ptrace_mem_write ops m a w = Some m' \<Longrightarrow> (\<And>i. i < LENGTH('w) div 8 \<Longrightarrow> x \<noteq> a + of_nat i) \<Longrightarrow>
      contents m' x = contents m x"
    and poke_dead: "ptrace_mem_write ops m a w = Some m' \<Longrightarrow> thread_dead ops m' = thread_dead ops m"
    and pread: "(\<And>i. i < n \<Longrightarrow> contents m (a + of_nat i) = Some (bs ! i)) \<Longrightarrow> length bs = n \<Longrightarrow>
      procfs_mem_read ops m a n = bs"
begin

lemma masked_word_byte:
  assumes "i < LENGTH('w) div 8"
  shows "byte_of ((t AND NOT (ucast (msk :: u32))) OR ucast v :: 'w word) i =
    (byte_of t i AND NOT (byte_of msk i)) OR byte_of v i"
proof (rule bit_word_eqI)
  fix k assume "k < LENGTH(8)"
  then have "8 * i + k < LENGTH('w)" using assms by auto
  then show "bit (byte_of ((t AND NOT (ucast msk)) OR ucast v :: 'w word) i) k =
      bit ((byte_of t i AND NOT (byte_of msk i)) OR byte_of v i) k"
    using \<open>k < LENGTH(8)\<close> by (auto simp: byte_of_def bit_simps)
qed

lemma shift_word_spec:
  assumes "is_word_aligned a" "start < stop" "stop \<le> 4"
    and "\<And>i. in_range start stop i \<Longrightarrow> 0 \<le> d + int i \<and> d + int i < int (length data)"
  shows "\<exists>n m'. mem_write_shift_word ops m a data d start stop = Inr (n, m')
    \<and> ((n = 0 \<and> m' = m)
       \<or> (n = stop - start \<and> thread_dead ops m' = thread_dead ops m
          \<and> wrote (contents m) (contents m') a data d start stop))"
proof -
  define ms where "ms = map (\<lambda>i. if in_range start stop i then 0xff else 0 :: u8) [0, 1, 2, 3]"
  define vs where "vs = map (\<lambda>i. if in_range start stop i then data ! nat (d + int i) else 0) [0, 1, 2, 3]"
  let ?msk = "le_word ms :: u32" and ?v = "le_word vs :: u32"
  have bytes: "shift_word_bytes data d start stop [0, 1, 2, 3] = Inr (ms, vs)"
    unfolding ms_def vs_def using assms(4) by (intro shift_word_bytes_eq) blast
  have len: "length ms = 4" "length vs = 4" by (simp_all add: ms_def vs_def)
  have nth: "ms ! i = (if in_range start stop i then 0xff else 0)"
    "vs ! i = (if in_range start stop i then data ! nat (d + int i) else 0)" if "i < 4" for i
    using that by (auto simp: ms_def vs_def nth_Cons' less_Suc_eq numeral_eq_Suc)
  have ff: "NOT (0xff :: u8) = 0" by simp
  have z: "NOT (if c then 0xff else 0) AND (if c then x else 0) = (0 :: u8)" for c x
    by (cases c) (simp_all only: if_True if_False ff and_zero_eq zero_and_eq)
  have dis: "NOT ?msk AND ?v = 0"
  proof (rule masked_bytes_disjoint [OF len])
    fix i :: nat assume "i < 4"
    show "NOT (ms ! i) AND vs ! i = 0" unfolding nth [OF \<open>i < 4\<close>] by (rule z)
  qed
  have b: "byte_of ?msk i = (if in_range start stop i then 0xff else 0)"
    "byte_of ?v i = (if in_range start stop i then data ! nat (d + int i) else 0)" for i
    using assms(3) nth [of i] byte_of_le_word [OF len(1)] byte_of_le_word [OF len(2)] by (auto simp: in_range_def)
  show ?thesis
  proof (cases "ptrace_mem_read ops m a")
    case None
    then show ?thesis using assms(1-3) bytes dis by (simp add: mem_write_shift_word_def mem_write_masked_word_def)
  next
    case (Some t)
    let ?w = "(t AND NOT (ucast ?msk)) OR ucast ?v :: 'w word"
    show ?thesis
    proof (cases "ptrace_mem_write ops m a ?w")
      case None
      then show ?thesis using assms(1-3) bytes dis Some
        by (simp add: mem_write_shift_word_def mem_write_masked_word_def)
    next
      case (Some m')
      have res: "mem_write_shift_word ops m a data d start stop = Inr (stop - start, m')"
        using assms(1-3) bytes dis \<open>ptrace_mem_read ops m a = Some t\<close> Some
        by (simp add: mem_write_shift_word_def mem_write_masked_word_def)
      have byte: "byte_of ?w i = (if in_range start stop i then data ! nat (d + int i) else byte_of t i)"
        if "i < LENGTH('w) div 8" for i
        unfolding masked_word_byte [OF that] b
        by (cases "in_range start stop i") (simp_all only: if_True if_False ff and_zero_eq or.left_neutral, simp)
      have inw: "contents m' (a + of_nat i) = Some (data ! nat (d + int i))" if "in_range start stop i" for i
        using poke_in [OF Some, of i] byte [of i] that width(2) assms(3) by (simp add: in_range_def)
      have out: "contents m' x = contents m x" if "\<And>i. in_range start stop i \<Longrightarrow> x \<noteq> a + of_nat i" for x
      proof (cases "\<exists>i < LENGTH('w) div 8. x = a + of_nat i")
        case True
        then obtain i where i: "i < LENGTH('w) div 8" "x = a + of_nat i" by blast
        then have "\<not> in_range start stop i" using that by blast
        then show ?thesis
          using poke_in [OF Some i(1)] byte [OF i(1)] peek [OF \<open>ptrace_mem_read ops m a = Some t\<close> i(1)] i(2) by simp
      next
        case False
        then show ?thesis using poke_out [OF Some, of x] by blast
      qed
      show ?thesis
        by (intro exI [of _ "stop - start"] exI [of _ m'] conjI disjI2)
          (use res inw out poke_dead [OF Some] in \<open>auto simp: wrote_def\<close>)
    qed
  qed
qed

lemma aligned_next: "is_word_aligned a \<Longrightarrow> is_word_aligned (a + 4 :: 'w word)"
proof -
  have m: "(3 :: 'w word) = mask 2" by (simp add: mask_eq_exp_minus_1)
  have "(4 :: 'w word) = 2 ^ 2" by simp
  then have "2 ^ 2 dvd (4 :: 'w word)" by simp
  then show "is_word_aligned a \<Longrightarrow> is_word_aligned (a + 4)"
    unfolding is_word_aligned_def m by (simp only: take_bit_eq_mask [symmetric] take_bit_eq_0_iff dvd_add)
qed

lemma shift_loop_spec:
  assumes "is_word_aligned a" "start < 4" "start < stop" "stop < 2 ^ LENGTH('w)"
    and "\<And>i. in_range start stop i \<Longrightarrow> 0 \<le> d + int i \<and> d + int i < int (length data)"
  shows "\<exists>n m'. mem_write_shift_loop ops m a data d start stop w = Inr (w + n, m') \<and> n \<le> stop - start
    \<and> thread_dead ops m' = thread_dead ops m \<and> wrote (contents m) (contents m') a data d start (start + n)"
  using assms
proof (induction stop arbitrary: m a d start w rule: less_induct)
  case (less stop)
  let ?stop1 = "if stop \<ge> 4 then 4 else stop"
  have 1: "start < ?stop1" "?stop1 \<le> 4" using less.prems(2,3) by auto
  have rg: "0 \<le> d + int i \<and> d + int i < int (length data)" if "in_range start ?stop1 i" for i
    using that less.prems(5) [of i] by (auto simp: in_range_def split: if_splits)
  obtain n1 m1 where w1: "mem_write_shift_word ops m a data d start ?stop1 = Inr (n1, m1)"
    and or1: "(n1 = 0 \<and> m1 = m) \<or> (n1 = ?stop1 - start \<and> thread_dead ops m1 = thread_dead ops m
      \<and> wrote (contents m) (contents m1) a data d start ?stop1)"
    using shift_word_spec [OF less.prems(1) 1 rg, of m] by blast
  consider "n1 = 0" | "n1 \<noteq> 0" "stop \<le> 4" | "n1 \<noteq> 0" "4 < stop" by linarith
  then show ?case
  proof cases
    case 1
    then show ?thesis using w1 or1 \<open>start < ?stop1\<close> by (subst mem_write_shift_loop.simps) auto
  next
    case 2
    then have "mem_write_shift_loop ops m a data d start stop w = Inr (w + n1, m1)"
      using w1 by (subst mem_write_shift_loop.simps) simp
    then show ?thesis using or1 2 less.prems(3) by (intro exI [of _ n1] exI [of _ m1]) auto
  next
    case 3
    then have n1: "start + n1 = 4" and o1: "thread_dead ops m1 = thread_dead ops m"
      "wrote (contents m) (contents m1) a data d start 4" using or1 less.prems(2) by auto
    have lt: "stop - 4 < 2 ^ LENGTH('w)" using less.prems(4) by linarith
    have "0 \<le> d + 4 + int i \<and> d + 4 + int i < int (length data)" if "in_range 0 (stop - 4) i" for i
    proof -
      have "in_range start stop (4 + i)" using that less.prems(2) by (auto simp: in_range_def)
      then show ?thesis using less.prems(5) [of "4 + i"] by simp
    qed
    then obtain n m' where r: "mem_write_shift_loop ops m1 (a + 4) data (d + 4) 0 (stop - 4) (w + n1) = Inr (w + n1 + n, m')"
      "n \<le> stop - 4" "thread_dead ops m' = thread_dead ops m1" "wrote (contents m1) (contents m') (a + 4) data (d + 4) 0 n"
      using less.IH [of "stop - 4" "a + 4" 0 "d + 4" m1 "w + n1"] 3 lt aligned_next [OF less.prems(1)] by auto
    have "mem_write_shift_loop ops m a data d start stop w = Inr (w + (n1 + n), m')"
      using w1 3 r(1) by (subst mem_write_shift_loop.simps) (simp add: add.assoc)
    moreover have "wrote (contents m) (contents m') a data d start (4 + n)"
      using wrote_append [OF o1(2) r(4)] less.prems(2,4) r(2) 3 by simp
    ultimately show ?thesis using r(2,3) o1(1) n1 3
      by (intro exI [of _ "n1 + n"] exI [of _ m']) (simp add: add.assoc [symmetric])
  qed
qed

lemma mem_verify_true:
  assumes "\<And>i. i < sz \<Longrightarrow> contents m (a + of_nat i) = Some (data ! i)" "sz \<le> length data" "\<not> thread_dead ops m"
  shows "mem_verify ops m a sz data = (True, m)"
  using assms
proof (induction sz arbitrary: a data rule: less_induct)
  case (less sz)
  show ?case
  proof (cases "sz = 0")
    case True
    then show ?thesis by (simp add: mem_verify.simps)
  next
    case False
    let ?s = "min 32 sz"
    have "procfs_mem_read ops m a ?s = take ?s data"
      using less.prems(1,2) by (intro pread) auto
    then have "mem_read ops m a ?s = (take ?s data, m)" using less.prems(2,3) by (auto simp: mem_read_def Let_def min_def)
    moreover have "mem_verify ops m (a + of_nat ?s) (sz - ?s) (drop ?s data) = (True, m)"
    proof (rule less.IH)
      fix i assume "i < sz - ?s"
      then show "contents m (a + of_nat ?s + of_nat i) = Some (drop ?s data ! i)"
        using less.prems(1) [of "?s + i"] less.prems(2) by (simp add: add.assoc)
    qed (use False less.prems in auto)
    ultimately show ?thesis using False less.prems(2) by (subst mem_verify.simps) simp
  qed
qed

lemma aligned_split:
  fixes a :: "'w word"
  shows "is_word_aligned (a AND NOT 3)" "unat (a - (a AND NOT 3)) < 4"
    "unat (a AND NOT 3) + unat (a - (a AND NOT 3)) = unat a"
proof -
  have m: "(3 :: 'w word) = mask 2" by (simp add: mask_eq_exp_minus_1)
  show "is_word_aligned (a AND NOT 3)" by (simp add: is_word_aligned_def and.assoc)
  have dj: "(x AND NOT k) AND (x AND k) = 0" for x k :: "'w word"
    by (rule bit_word_eqI) (simp add: bit_and_iff bit_not_iff)
  have "(a AND NOT 3) + (a AND 3) = (a AND NOT 3) OR (a AND 3)"
    by (rule disjunctive_add_eq_or) (rule dj)
  also have "\<dots> = a" by (simp only: bit.conj_disj_distrib [symmetric] bit.disj_cancel_left and.right_neutral)
  finally have sub: "a - (a AND NOT 3) = a AND 3" by (metis add_diff_cancel_left')
  have "unat (a AND 3) < 4"
    unfolding m take_bit_eq_mask [symmetric] using take_bit_nat_less_exp [of 2 "unat a"] by (simp add: unsigned_take_bit_eq)
  then show "unat (a - (a AND NOT 3)) < 4" by (simp only: sub)
  have "a AND NOT 3 \<le> a" by (rule word_and_le2)
  then show "unat (a AND NOT 3) + unat (a - (a AND NOT 3)) = unat a" by (simp add: unat_sub word_le_nat_alt)
qed

lemma wrote_shift:
  assumes "wrote c c' f data (- int s) s (s + n)" "a = f + of_nat s"
  shows "wrote c c' a data 0 0 n"
  unfolding wrote_def
proof (intro conjI allI impI)
  fix i assume "in_range 0 n i"
  then show "c' (a + of_nat i) = Some (data ! nat (0 + int i))"
    using assms(1) [unfolded wrote_def, THEN conjunct1, rule_format, of "s + i"] assms(2)
    by (simp add: in_range_def add.assoc)
next
  fix x assume x: "\<forall>i. in_range 0 n i \<longrightarrow> x \<noteq> a + of_nat i"
  have "x \<noteq> f + of_nat i" if "in_range s (s + n) i" for i
  proof -
    have "s \<le> i" using that by (simp add: in_range_def)
    then obtain j where "i = s + j" using le_Suc_ex by blast
    then show ?thesis using x [rule_format, of j] that assms(2) by (simp add: in_range_def add.assoc)
  qed
  then show "c' x = c x" using assms(1) by (simp add: wrote_def)
qed

lemma write_offsets:
  fixes a :: "'w word"
  assumes "unat a + n < 2 ^ LENGTH('w)"
  shows "unat (a + of_nat n - (a AND NOT 3)) = unat (a - (a AND NOT 3)) + n"
proof -
  define f where "f = a AND NOT 3"
  define s where "s = unat (a - f)"
  have "a - f = of_nat s" by (simp add: s_def)
  then have "a + of_nat n - f = of_nat (s + n)" by (simp add: algebra_simps)
  moreover have "s + n < 2 ^ LENGTH('w)" using assms aligned_split(3) [of a] unfolding s_def f_def by linarith
  ultimately have "unat (a + of_nat n - f) = s + n" by (simp only: unat_of_nat) (simp add: take_bit_nat_eq_self)
  then show ?thesis by (simp only: f_def s_def)
qed

lemma wide: "2 < LENGTH('w)"
  using width by linarith

lemma word_part:
  fixes a :: "'w word"
  shows "a - (a AND NOT 3) = a AND 3" "unat (a AND 3) = unat a mod 4"
proof -
  have m: "(3 :: 'w word) = mask 2" by (simp add: mask_eq_exp_minus_1)
  have dj: "(x AND NOT k) AND (x AND k) = 0" for x k :: "'w word"
    by (rule bit_word_eqI) (simp add: bit_and_iff bit_not_iff)
  have "(a AND NOT 3) + (a AND 3) = (a AND NOT 3) OR (a AND 3)"
    by (rule disjunctive_add_eq_or) (rule dj)
  also have "\<dots> = a" by (simp only: bit.conj_disj_distrib [symmetric] bit.disj_cancel_left and.right_neutral)
  finally show "a - (a AND NOT 3) = a AND 3" by (metis add_diff_cancel_left')
  show "unat (a AND 3) = unat a mod 4"
    unfolding m take_bit_eq_mask [symmetric] unsigned_take_bit_eq by (simp add: take_bit_eq_mod)
qed

lemma writable_mapped:
  assumes "writable_in ops R P" "P m" "x \<in> R"
  shows "contents m x \<noteq> None"
proof -
  let ?a = "x AND NOT 3" and ?i = "unat (x - (x AND NOT 3))"
  obtain w where w: "ptrace_mem_read ops m ?a = Some w" using writable_in_write(1) [OF assms refl] by blast
  have "?i < 4" by (rule aligned_split(2))
  then have "contents m (?a + of_nat ?i) = Some (byte_of w ?i)" using peek [OF w, of ?i] width(2) by linarith
  then show ?thesis by simp
qed

lemma alive_writable:
  assumes "writable_in ops R P"
  shows "writable_in ops R (\<lambda>m. P m \<and> \<not> thread_dead ops m)"
  using assms poke_dead unfolding writable_in_def by metis

lemma mem_write_full:
  assumes "\<not> thread_dead ops m" "data \<noteq> []" "unat a + length data < 2 ^ LENGTH('w)" "unat a mod 4 + length data < 2 ^ 32"
  shows "\<exists>n m'. mem_write ops m a data = Inr (n, if n < length data then check_alive ops m' else m')
    \<and> n \<le> length data \<and> wrote (contents m) (contents m') a data 0 0 n
    \<and> (\<forall>R P. writable_in ops R P \<longrightarrow> span a (length data) \<subseteq> R \<longrightarrow> P m \<longrightarrow> n = length data \<and> P m')"
proof -
  define f where "f = a AND NOT 3"
  define s where "s = unat (a - f)"
  have f: "is_word_aligned f" "s < 4" "unat f + s = unat a"
    using aligned_split [of a] by (simp_all only: f_def s_def)
  have af: "a = f + of_nat s" by (simp add: s_def)
  have e: "unat (a + of_nat (length data) - f) = s + length data"
    using write_offsets [OF assms(3)] by (simp only: f_def s_def)
  have lt: "s + length data < 2 ^ LENGTH('w)" using assms(3) f(3) by linarith
  have s4: "s = unat a mod 4" unfolding s_def f_def word_part(1) by (rule word_part(2))
  have u: "unat (ucast (a - f) :: u32) = s" "unat (ucast (a + of_nat (length data) - f) :: u32) = s + length data"
    "- uint (a - f) = - int s"
    using f(2) assms(4) by (simp_all add: s4 [symmetric] unsigned_ucast_eq e s_def [symmetric] take_bit_nat_eq_self) (simp add: s_def)
  from lt obtain n m' where r: "mem_write_shift_loop ops m f data (- int s) s (s + length data) 0 = Inr (0 + n, m')"
    "n \<le> length data" "thread_dead ops m' = thread_dead ops m" "wrote (contents m) (contents m') f data (- int s) s (s + n)"
    using shift_loop_spec [OF f(1,2), of "s + length data" "- int s" data m 0] assms(2) by (auto simp: in_range_def)
  have w: "wrote (contents m) (contents m') a data 0 0 n" using wrote_shift [OF r(4) af] .
  then have "mem_verify ops m' a n data = (True, m')"
    using r(2,3) assms(1) by (intro mem_verify_true) (auto simp: wrote_def in_range_def)
  moreover have "mem_write_shift ops m f data (- uint (a - f)) (ucast (a - f)) (ucast (a + of_nat (length data) - f)) = Inr (n, m')"
    using r(1) f assms(2) u by (simp add: mem_write_shift_def word_less_nat_alt)
  ultimately have "mem_write ops m a data = Inr (n, if n < length data then check_alive ops m' else m')"
    using assms(1,2) unfolding mem_write_def Let_def f_def [symmetric] by simp
  moreover have "n = length data \<and> P m'" if "writable_in ops R P" "span a (length data) \<subseteq> R" "P m" for R P
  proof -
    have "f + of_nat i \<in> R" if i: "in_range s (s + length data) i" for i
    proof -
      obtain j where j: "i = s + j" using i le_Suc_ex by (auto simp: in_range_def)
      then have "a + of_nat j \<in> R" using i \<open>span a (length data) \<subseteq> R\<close> spanI [of j "length data" a] by (auto simp: in_range_def)
      then show ?thesis by (simp add: af j add.assoc)
    qed
    then show ?thesis using shift_loop_complete [OF that(1,3) f(2) _ _ wide r(1)] assms(2) by simp
  qed
  ultimately show ?thesis using w r(2) by auto
qed

lemma mem_write_spec:
  assumes "\<not> thread_dead ops m" "data \<noteq> []" "unat a + length data < 2 ^ LENGTH('w)" "unat a mod 4 + length data < 2 ^ 32"
  shows "\<exists>n m'. mem_write ops m a data = Inr (n, if n < length data then check_alive ops m' else m')
    \<and> n \<le> length data \<and> wrote (contents m) (contents m') a data 0 0 n
    \<and> (\<forall>R P. writable_in ops R P \<longrightarrow> span a (length data) \<subseteq> R \<longrightarrow> P m \<longrightarrow> n = length data)"
  using mem_write_full [OF assms] by (elim exE conjE) (intro exI conjI, assumption+, blast)

end

section \<open>A memory of bytes\<close>

text \<open>Memory as a partial map from addresses to bytes meets the contract, for both widths.\<close>

definition word_bytes :: "('w::len word \<Rightarrow> u8 option) \<Rightarrow> 'w word \<Rightarrow> u8 option list" where
  "word_bytes m a = map (\<lambda>i. m (a + of_nat i)) [0..<LENGTH('w) div 8]"

definition byte_peek :: "('w::len word \<Rightarrow> u8 option) \<Rightarrow> 'w word \<Rightarrow> 'w word option" where
  "byte_peek m a = (if None \<in> set (word_bytes m a) then None else Some (le_word (map the (word_bytes m a))))"

definition byte_poke :: "('w::len word \<Rightarrow> u8 option) \<Rightarrow> 'w word \<Rightarrow> 'w word \<Rightarrow> ('w word \<Rightarrow> u8 option) option" where
  "byte_poke m a w =
     (if None \<in> set (word_bytes m a) then None
      else Some (\<lambda>x. if unat (x - a) < LENGTH('w) div 8 then Some (byte_of w (unat (x - a))) else m x))"

definition byte_pread :: "('w::len word \<Rightarrow> u8 option) \<Rightarrow> 'w word \<Rightarrow> nat \<Rightarrow> bytes" where
  "byte_pread m a n = map the (takeWhile (\<lambda>b. b \<noteq> None) (map (\<lambda>i. m (a + of_nat i)) [0..<n]))"

definition byte_memory :: "('w::len word \<Rightarrow> u8 option, 'w word) inferior_ops" where
  "byte_memory = \<lparr>ptrace_mem_read = byte_peek, ptrace_mem_write = byte_poke, procfs_mem_read = byte_pread,
     thread_dead = (\<lambda>m. False), check_alive = (\<lambda>m. m)\<rparr>"

lemma byte_peek_contents:
  assumes "byte_peek m a = Some w" "i < LENGTH('w) div 8"
  shows "m (a + of_nat i) = Some (byte_of (w :: 'w::len word) i)"
proof -
  have none: "None \<notin> set (word_bytes m a)" and w: "w = le_word (map the (word_bytes m a))"
    using assms(1) by (auto simp: byte_peek_def split: if_splits)
  have "m (a + of_nat i) \<in> set (word_bytes m a)" using assms(2) by (simp add: word_bytes_def)
  then have "m (a + of_nat i) \<noteq> None" using none by metis
  then obtain b where b: "m (a + of_nat i) = Some b" by blast
  have "byte_of w i = b"
  proof (rule bit_word_eqI)
    fix k assume "k < LENGTH(8)"
    moreover from this have "8 * i + k < LENGTH('w)" using assms(2) by auto
    ultimately show "bit (byte_of w i) k = bit b k"
      using assms(2) b by (simp add: byte_of_def bit_simps w bit_le_word word_bytes_def)
  qed
  then show ?thesis using b by simp
qed

lemma byte_pread_contents:
  assumes "\<And>i. i < n \<Longrightarrow> m (a + of_nat i) = Some (bs ! i)" "length bs = n"
  shows "byte_pread m a n = bs"
proof -
  have "takeWhile (\<lambda>b. b \<noteq> None) (map (\<lambda>i. m (a + of_nat i)) [0..<n]) = map (\<lambda>i. m (a + of_nat i)) [0..<n]"
    using assms(1) by (intro takeWhile_eq_all_conv [THEN iffD2]) auto
  then show ?thesis unfolding byte_pread_def using assms by (simp add: list_eq_iff_nth_eq)
qed

lemma byte_poke_contents:
  assumes "byte_poke m a w = Some m'" "i < LENGTH('w) div 8"
  shows "m' (a + of_nat i) = Some (byte_of (w :: 'w::len word) i)"
proof -
  have "LENGTH('w) div 8 \<le> LENGTH('w)" "LENGTH('w) < 2 ^ LENGTH('w)" by simp_all
  then have "i < 2 ^ LENGTH('w)" using assms(2) by linarith
  then have "unat (of_nat i :: 'w word) = i" by (simp add: unat_of_nat take_bit_nat_eq_self)
  then show ?thesis using assms by (auto simp: byte_poke_def split: if_splits)
qed

lemma byte_poke_outside:
  assumes "byte_poke m a w = Some m'" "\<And>i. i < LENGTH('w) div 8 \<Longrightarrow> x \<noteq> a + of_nat i"
  shows "m' (x :: 'w::len word) = m x"
proof -
  have "\<not> unat (x - a) < LENGTH('w) div 8" using assms(2) [of "unat (x - a)"] by auto
  then show ?thesis using assms(1) by (auto simp: byte_poke_def split: if_splits)
qed

lemma byte_memory_inferior:
  assumes "LENGTH('w) = 8 * (LENGTH('w) div 8)" "4 \<le> LENGTH('w) div 8"
  shows "inferior byte_memory (\<lambda>m :: 'w::len word \<Rightarrow> u8 option. m)"
proof
  fix n and m :: "'w word \<Rightarrow> u8 option" and a bs
  assume "\<And>i. i < n \<Longrightarrow> m (a + of_nat i) = Some (bs ! i)" "length bs = n"
  then show "procfs_mem_read byte_memory m a n = bs"
    using byte_pread_contents [of n m a bs] by (simp add: byte_memory_def)
qed (use assms in \<open>simp_all add: byte_memory_def byte_peek_contents byte_poke_contents byte_poke_outside\<close>)

text \<open>A memory that is mapped in a region of whole words stays so, and every transfer to the region succeeds.\<close>

definition mapped_in :: "'w::len word set \<Rightarrow> ('w word \<Rightarrow> u8 option) \<Rightarrow> bool" where
  "mapped_in R m \<longleftrightarrow> (\<forall>a \<in> R. \<forall>i < LENGTH('w) div 8. m ((a AND NOT 3) + of_nat i) \<noteq> None)"

lemma byte_memory_writable: "writable_in (byte_memory :: ('w::len word \<Rightarrow> u8 option, 'w word) inferior_ops) R (mapped_in R)"
proof -
  have none: "None \<notin> set (word_bytes m (a AND NOT 3))" if "mapped_in R m" "a \<in> R" for m :: "'w word \<Rightarrow> u8 option" and a
    using that by (fastforce simp: mapped_in_def word_bytes_def)
  have "\<exists>m'. byte_poke m (a AND NOT 3) v = Some m' \<and> mapped_in R m'" if "mapped_in R m" "a \<in> R"
    for m :: "'w word \<Rightarrow> u8 option" and a v
    using none [OF that] that(1) by (simp add: byte_poke_def mapped_in_def)
  then show ?thesis using none by (auto simp: writable_in_def byte_memory_def byte_peek_def)
qed

lemma byte_memory_can_write: "mapped_in R m \<Longrightarrow> can_write byte_memory R m"
  using byte_memory_writable unfolding can_write_def by blast

lemma mapped_everywhere: "(\<And>x. m x \<noteq> None) \<Longrightarrow> mapped_in R m"
  by (simp add: mapped_in_def)

lemma mapped_in_Un: "mapped_in (R \<union> S) m \<longleftrightarrow> mapped_in R m \<and> mapped_in S m"
  by (auto simp: mapped_in_def)

lemma all_below_4: "(\<forall>i < (4 :: nat). Q i) \<longleftrightarrow> Q 0 \<and> Q 1 \<and> Q 2 \<and> Q 3"
  by (auto simp: less_Suc_eq numeral_eq_Suc)

lemma mapped_in_32: "mapped_in (span a n) m \<longleftrightarrow> (\<forall>i \<in> {..<n}. let x = (a + of_nat i :: 32 word) AND NOT 3
    in m x \<noteq> None \<and> m (x + 1) \<noteq> None \<and> m (x + 2) \<noteq> None \<and> m (x + 3) \<noteq> None)"
  by (simp add: mapped_in_def span_def all_below_4 Let_def)

interpretation mem32: inferior byte_memory "\<lambda>m :: 32 word \<Rightarrow> u8 option. m"
  by (rule byte_memory_inferior) simp_all

interpretation mem64: inferior byte_memory "\<lambda>m :: 64 word \<Rightarrow> u8 option. m"
  by (rule byte_memory_inferior) simp_all

section \<open>Properties\<close>

text \<open>C27: a write into the memory of a traced process, of any alignment, on either word width: unless the range passes the end of
  the address space or its end offset does not fit into the 32-bit offsets of the code (data of four gigabytes, on ARM64), the
  function does not trip its assertions, it reports how many bytes it has written, exactly these
  bytes of the buffer are in memory afterwards, and no other byte has changed (the bytes of the first
  and the last word that are not part of the range included); if the words that hold the range are writable, all of it is
  written. The operating system's calls are hypotheses, with the laws of the locale \<open>inferior\<close>.\<close>

theorem mem_write_correct:
  fixes ops :: "('m, 'w::len word) inferior_ops"
  assumes "inferior ops contents" "\<not> thread_dead ops m" "data \<noteq> []" "unat a + length data < 2 ^ LENGTH('w)"
    and "unat a mod 4 + length data < 2 ^ 32"
  shows "\<exists>n m'. mem_write ops m a data = Inr (n, if n < length data then check_alive ops m' else m')
    \<and> n \<le> length data
    \<and> (\<forall>i < n. contents m' (a + of_nat i) = Some (data ! i))
    \<and> (\<forall>x. (\<forall>i < n. x \<noteq> a + of_nat i) \<longrightarrow> contents m' x = contents m x)
    \<and> (can_write ops (span a (length data)) m \<longrightarrow> n = length data)"
proof -
  obtain n m' where r: "mem_write ops m a data = Inr (n, if n < length data then check_alive ops m' else m')" "n \<le> length data"
    "wrote (contents m) (contents m') a data 0 0 n"
    "\<forall>R P. writable_in ops R P \<longrightarrow> span a (length data) \<subseteq> R \<longrightarrow> P m \<longrightarrow> n = length data"
    using inferior.mem_write_spec [OF assms] by blast
  have "can_write ops (span a (length data)) m \<longrightarrow> n = length data" using r(4) by (auto simp: can_write_def)
  then show ?thesis using r(1-3) by (intro exI [of _ n] exI [of _ m']) (simp add: wrote_def in_range_def)
qed

text \<open>Witness: three bytes across a word boundary of a 32-bit memory of which only two words are mapped, all of them written.\<close>

theorem mem_write_correct_witness:
  "\<exists>m'. mem_write byte_memory (\<lambda>x :: 32 word. if 0x8000 \<le> x \<and> x < 0x8008 then Some 0 else None) 0x8003 [1, 2, 3] = Inr (3, m')
    \<and> (\<forall>i < 3. m' (0x8003 + of_nat i) = Some ([1, 2, 3] ! i))"
proof -
  let ?m = "\<lambda>x :: 32 word. if 0x8000 \<le> x \<and> x < 0x8008 then Some (0 :: u8) else None" and ?d = "[1, 2, 3] :: bytes"
  have "\<not> thread_dead byte_memory ?m" by (simp add: byte_memory_def)
  moreover have "unat (0x8003 :: 32 word) + length ?d < 2 ^ LENGTH(32)" "unat (0x8003 :: 32 word) mod 4 + length ?d < 2 ^ 32"
    by simp_all
  ultimately obtain n m' where
      r: "mem_write byte_memory ?m 0x8003 ?d = Inr (n, if n < length ?d then check_alive byte_memory m' else m')"
    and "\<forall>i < n. m' (0x8003 + of_nat i) = Some (?d ! i)"
    "can_write byte_memory (span 0x8003 (length ?d)) ?m \<longrightarrow> n = length ?d"
    using mem_write_correct [OF mem32.inferior_axioms] by blast
  moreover have "mapped_in (span 0x8003 (length ?d)) ?m" by (simp add: mapped_in_32 Let_def lessThan_Suc)
  then have "n = length ?d" using calculation(3) byte_memory_can_write by blast
  ultimately show ?thesis by auto
qed

end
