(* ===== verification/Patch.thy ===== *)
theory Patch
  imports Mem Select_Thumb32 Relative_Jump
begin

text \<open>
  Reading and replacing single instructions in a traced process, \<^verbatim>\<open>arch/arm/patch.c\<close> and
  \<^verbatim>\<open>arch/arm64/patch.c\<close> (the latter with the prefix \<open>a64_\<close>). \<^verbatim>\<open>patch_insn\<close> of these files is
  \<open>mem_patch_insn\<close> here; \<^verbatim>\<open>arch/arm/template.c\<close> has a function of the same name.
\<close>

section \<open>Definitions\<close>

definition patch_check_insn :: "insn_kind_t \<Rightarrow> insn_t \<Rightarrow> bool res" where
  "patch_check_insn kind insn =
     (case kind of
        INSN_KIND_ARM \<Rightarrow> Inr True
      | INSN_KIND_THUMB2 \<Rightarrow> is_thumb2_halfword (thumb2_first_halfowrd insn)
      | INSN_KIND_THUMB \<Rightarrow> Inr (insn AND NOT 0xffff = 0))"

definition insn_bytes :: "insn_kind_t \<Rightarrow> insn_t \<Rightarrow> bytes" where
  "insn_bytes kind insn =
     (if kind = INSN_KIND_THUMB then le_bytes 2 (ucast insn :: u16)
      else le_bytes 4 (if kind = INSN_KIND_THUMB2 then thumb2_swap_halfwords insn else insn))"

definition mem_patch_insn ::
    "('m, address32) inferior_ops \<Rightarrow> 'm \<Rightarrow> address32 \<Rightarrow> insn_kind_t \<Rightarrow> insn_t \<Rightarrow> (bool \<times> 'm) res" where
  "mem_patch_insn ops m address kind insn =
     adbi_assure (arm_check_align address kind)
     (res_bind (patch_check_insn kind insn) (\<lambda>ok.
      adbi_assure ok
      (let data = insn_bytes kind insn
       in res_bind (mem_write ops m address data) (\<lambda>(n, m'). Inr (n = length data, m')))))"

definition patch_breakpoint ::
    "('m, address32) inferior_ops \<Rightarrow> 'm \<Rightarrow> address32 \<Rightarrow> insn_kind_t \<Rightarrow> 'm res" where
  "patch_breakpoint ops m address kind =
     res_bind (mem_patch_insn ops m address kind (get_breakpoint_insn kind)) (\<lambda>(_, m'). Inr m')"

definition patch_relative_jump ::
    "('m, address32) inferior_ops \<Rightarrow> 'm \<Rightarrow> address32 \<Rightarrow> address32 \<Rightarrow> insn_kind_t \<Rightarrow> 'm res" where
  "patch_relative_jump ops m insn_address dest_address kind =
     res_bind (arm_get_relative_jump_insn kind insn_address dest_address) (\<lambda>insn.
     res_bind (mem_patch_insn ops m insn_address kind insn) (\<lambda>(_, m'). Inr m'))"

definition patch_read_insn ::
    "('m, address32) inferior_ops \<Rightarrow> 'm \<Rightarrow> address32 \<Rightarrow> insn_kind_t \<Rightarrow> (insn_t option \<times> 'm) res" where
  "patch_read_insn ops m address kind =
     adbi_assure (arm_check_align address kind)
     (if kind = INSN_KIND_THUMB then
        (let (bs, m') = mem_read ops m address 2
         in Inr (if length bs \<noteq> 2 then None else Some (ucast (le_word bs :: u16)), m'))
      else
        (let (bs, m') = mem_read ops m address 4
         in Inr (if length bs \<noteq> 4 then None
                 else Some (if kind = INSN_KIND_THUMB2 then thumb2_swap_halfwords (le_word bs) else le_word bs), m')))"

definition patch_read_insn_detect_kind ::
    "('m, address32) inferior_ops \<Rightarrow> 'm \<Rightarrow> address32 \<Rightarrow> insn_kind_t \<Rightarrow> ((insn_t \<times> insn_kind_t) option \<times> 'm) res" where
  "patch_read_insn_detect_kind ops m address kind =
     (if kind = INSN_KIND_ARM then
        res_bind (patch_read_insn ops m address kind) (\<lambda>(r, m'). Inr (map_option (\<lambda>i. (i, kind)) r, m'))
      else
        res_bind (patch_read_insn ops m address INSN_KIND_THUMB) (\<lambda>(r, m').
          case r of None \<Rightarrow> Inr (None, m')
          | Some insn \<Rightarrow>
              res_bind (is_thumb2_halfword insn) (\<lambda>t2.
                if t2 then
                  res_bind (patch_read_insn ops m' address INSN_KIND_THUMB2) (\<lambda>(r2, m2).
                    Inr (map_option (\<lambda>i. (i, INSN_KIND_THUMB2)) r2, m2))
                else Inr (Some (insn, INSN_KIND_THUMB), m'))))"

subsection \<open>ARM64\<close>

definition a64_patch_check_insn :: "a64_insn_kind_t \<Rightarrow> insn_t \<Rightarrow> bool res" where
  "a64_patch_check_insn kind insn =
     (case kind of
        INSN_KIND_T32_16 \<Rightarrow> Inr (insn AND NOT 0xffff = 0)
      | INSN_KIND_T32_32 \<Rightarrow> is_t32_32_halfword (t32_first_halfowrd insn)
      | INSN_KIND_A32 \<Rightarrow> Inr True
      | INSN_KIND_A64 \<Rightarrow> Inr True)"

definition a64_insn_bytes :: "a64_insn_kind_t \<Rightarrow> insn_t \<Rightarrow> bytes" where
  "a64_insn_bytes kind insn =
     (if kind = INSN_KIND_T32_16 then le_bytes 2 (ucast insn :: u16)
      else le_bytes 4 (if kind = INSN_KIND_T32_32 then t32_swap_halfwords insn else insn))"

definition a64_mem_patch_insn ::
    "('m, address64) inferior_ops \<Rightarrow> 'm \<Rightarrow> address64 \<Rightarrow> a64_insn_kind_t \<Rightarrow> insn_t \<Rightarrow> (bool \<times> 'm) res" where
  "a64_mem_patch_insn ops m address kind insn =
     adbi_assure (arm64_check_align address kind)
     (res_bind (a64_patch_check_insn kind insn) (\<lambda>ok.
      adbi_assure ok
      (let data = a64_insn_bytes kind insn
       in res_bind (mem_write ops m address data) (\<lambda>(n, m'). Inr (n = length data, m')))))"

definition a64_patch_breakpoint ::
    "('m, address64) inferior_ops \<Rightarrow> 'm \<Rightarrow> address64 \<Rightarrow> a64_insn_kind_t \<Rightarrow> 'm res" where
  "a64_patch_breakpoint ops m address kind =
     res_bind (a64_mem_patch_insn ops m address kind (a64_get_breakpoint_insn kind)) (\<lambda>(_, m'). Inr m')"

definition a64_patch_relative_jump ::
    "('m, address64) inferior_ops \<Rightarrow> 'm \<Rightarrow> address64 \<Rightarrow> address64 \<Rightarrow> a64_insn_kind_t \<Rightarrow> 'm res" where
  "a64_patch_relative_jump ops m insn_address dest_address kind =
     res_bind (arm64_get_relative_jump_insn kind insn_address dest_address) (\<lambda>insn.
     res_bind (a64_mem_patch_insn ops m insn_address kind insn) (\<lambda>(_, m'). Inr m'))"

definition a64_patch_read_insn ::
    "('m, address64) inferior_ops \<Rightarrow> 'm \<Rightarrow> address64 \<Rightarrow> a64_insn_kind_t \<Rightarrow> (insn_t option \<times> 'm) res" where
  "a64_patch_read_insn ops m address kind =
     adbi_assure (arm64_check_align address kind)
     (if kind = INSN_KIND_T32_16 then
        (let (bs, m') = mem_read ops m address 2
         in Inr (if length bs \<noteq> 2 then None else Some (ucast (le_word bs :: u16)), m'))
      else
        (let (bs, m') = mem_read ops m address 4
         in Inr (if length bs \<noteq> 4 then None
                 else Some (if kind = INSN_KIND_T32_32 then t32_swap_halfwords (le_word bs) else le_word bs), m')))"

definition a64_patch_read_insn_detect_kind ::
    "('m, address64) inferior_ops \<Rightarrow> 'm \<Rightarrow> address64 \<Rightarrow> a64_insn_kind_t \<Rightarrow> ((insn_t \<times> a64_insn_kind_t) option \<times> 'm) res" where
  "a64_patch_read_insn_detect_kind ops m address kind =
     (if kind = INSN_KIND_A64 \<or> kind = INSN_KIND_A32 then
        res_bind (a64_patch_read_insn ops m address kind) (\<lambda>(r, m'). Inr (map_option (\<lambda>i. (i, kind)) r, m'))
      else
        res_bind (a64_patch_read_insn ops m address INSN_KIND_T32_16) (\<lambda>(r, m').
          case r of None \<Rightarrow> Inr (None, m')
          | Some insn \<Rightarrow>
              res_bind (is_t32_32_halfword insn) (\<lambda>t2.
                if t2 then
                  res_bind (a64_patch_read_insn ops m' address INSN_KIND_T32_32) (\<lambda>(r2, m2).
                    Inr (map_option (\<lambda>i. (i, INSN_KIND_T32_32)) r2, m2))
                else Inr (Some (insn, INSN_KIND_T32_16), m'))))"

section \<open>Instructions in memory\<close>

text \<open>The instruction the processor fetches: the halves of a 32-bit Thumb instruction are stored in order.\<close>

definition bytes_at :: "('w::len word \<Rightarrow> u8 option) \<Rightarrow> 'w word \<Rightarrow> nat \<Rightarrow> bytes" where
  "bytes_at c a n = map (\<lambda>i. the (c (a + of_nat i))) [0..<n]"

definition fetch_insn :: "insn_kind_t \<Rightarrow> ('w::len word \<Rightarrow> u8 option) \<Rightarrow> 'w word \<Rightarrow> insn_t" where
  "fetch_insn kind c a =
     (case kind of
        INSN_KIND_ARM \<Rightarrow> le_word (bytes_at c a 4)
      | INSN_KIND_THUMB \<Rightarrow> le_word (bytes_at c a 2)
      | INSN_KIND_THUMB2 \<Rightarrow> push_bit 16 (le_word (bytes_at c a 2)) OR le_word (bytes_at c (a + 2) 2))"

lemma bytes_at_eq: "(\<And>i. i < length d \<Longrightarrow> c (a + of_nat i) = Some (d ! i)) \<Longrightarrow> bytes_at c a (length d) = d"
  by (rule nth_equalityI) (simp_all add: bytes_at_def)

lemma le_word_halfword:
  assumes "insn AND NOT 0xffff = 0"
  shows "(le_word (le_bytes 2 (ucast insn :: u16)) :: insn_t) = insn"
proof -
  have z: "insn AND NOT (mask 16) = 0" using assms unfolding mask_numerals .
  have h: "\<not> (bit insn i \<and> \<not> i < 16)" for i
    using arg_cong [OF z, of "\<lambda>w. bit w i"] bit_imp_le_length [of insn i]
    unfolding bit_and_iff bit_not_iff bit_mask_iff bit_0_eq by auto
  show ?thesis
  proof (rule bit_word_eqI)
    fix i assume "i < LENGTH(32)"
    moreover have "i < 16 \<Longrightarrow> i div 8 < 2" by auto
    ultimately show "bit (le_word (le_bytes 2 (ucast insn :: u16)) :: insn_t) i = bit insn i"
      using h [of i] by (auto simp: bit_le_word le_bytes_nth bit_ucast_iff bit_drop_bit_eq)
  qed
qed

lemma le_word_halves:
  fixes w :: u32
  shows "(le_word (take 2 (le_bytes 4 w)) :: u32) = w AND mask 16" "(le_word (drop 2 (le_bytes 4 w)) :: u32) = drop_bit 16 w"
proof -
  show "(le_word (take 2 (le_bytes 4 w)) :: u32) = w AND mask 16"
  proof (rule bit_word_eqI)
    fix i assume "i < LENGTH(32)"
    then have "i div 8 < 2 \<longleftrightarrow> i < 16" by auto
    then show "bit (le_word (take 2 (le_bytes 4 w)) :: u32) i = bit (w AND mask 16) i" using \<open>i < LENGTH(32)\<close>
      by (auto simp: bit_le_word le_bytes_nth bit_ucast_iff bit_drop_bit_eq bit_and_iff bit_mask_iff)
  qed
  show "(le_word (drop 2 (le_bytes 4 w)) :: u32) = drop_bit 16 w"
  proof (rule bit_word_eqI)
    fix i assume "i < LENGTH(32)"
    have "8 * (2 + i div 8) + i mod 8 = 16 + i" by simp
    then show "bit (le_word (drop 2 (le_bytes 4 w)) :: u32) i = bit (drop_bit 16 w) i"
      using \<open>i < LENGTH(32)\<close> bit_imp_le_length [of w "16 + i"]
      by (auto simp: bit_le_word le_bytes_nth bit_ucast_iff bit_drop_bit_eq add.commute)
  qed
qed

lemma le_word_swapped:
  "push_bit 16 (le_word (take 2 (le_bytes 4 (thumb2_swap_halfwords insn)))) OR
   le_word (drop 2 (le_bytes 4 (thumb2_swap_halfwords insn))) = (insn :: insn_t)"
  using swap_halfwords_swap [of insn] unfolding le_word_halves
  by (simp only: thumb2_swap_halfwords_def [of "thumb2_swap_halfwords insn"] mask_numerals)

lemma bytes_at_split: "bytes_at c a 4 = bytes_at c a 2 @ bytes_at c (a + 2) 2"
  by (simp add: bytes_at_def upt_conv_Cons add.assoc)

lemma fetch_insn_bytes:
  assumes "bytes_at c a (length (insn_bytes kind insn)) = insn_bytes kind insn" "patch_check_insn kind insn = Inr True"
  shows "fetch_insn kind c a = insn"
proof (cases kind)
  case INSN_KIND_ARM
  then show ?thesis using assms(1) by (simp add: fetch_insn_def insn_bytes_def le_word_le_bytes)
next
  case INSN_KIND_THUMB
  then show ?thesis using assms by (simp add: fetch_insn_def insn_bytes_def patch_check_insn_def le_word_halfword)
next
  case INSN_KIND_THUMB2
  then have b: "bytes_at c a 2 @ bytes_at c (a + 2) 2 = le_bytes 4 (thumb2_swap_halfwords insn)"
    using assms(1) by (simp add: insn_bytes_def flip: bytes_at_split)
  have l: "length (bytes_at c a 2) = 2" by (simp add: bytes_at_def)
  then have "bytes_at c a 2 = take 2 (le_bytes 4 (thumb2_swap_halfwords insn))"
    "bytes_at c (a + 2) 2 = drop 2 (le_bytes 4 (thumb2_swap_halfwords insn))" by (simp_all flip: b)
  then show ?thesis using INSN_KIND_THUMB2 le_word_swapped [of insn] by (simp add: fetch_insn_def)
qed

text \<open>The branch the encoder returns is an instruction of its kind.\<close>

lemma jump_insn_valid:
  assumes "arm_get_relative_jump_insn kind a d = Inr insn"
  shows "patch_check_insn kind insn = Inr True"
proof (cases kind)
  case INSN_KIND_ARM
  then show ?thesis by (simp add: patch_check_insn_def)
next
  case INSN_KIND_THUMB
  then obtain j where "insn = BRANCH_INSN_THUMB OR (j AND 0x7ff)"
    using assms by (auto simp: arm_get_relative_jump_insn_def Let_def)
  moreover have "(BRANCH_INSN_THUMB OR (j AND 0x7ff)) AND NOT 0xffff = 0"
    by (simp add: bit.conj_disj_distrib2 BRANCH_INSN_THUMB_def and.assoc)
  ultimately show ?thesis using INSN_KIND_THUMB by (simp add: patch_check_insn_def)
next
  case INSN_KIND_THUMB2
  then obtain j where "insn = thumb2_branch j"
    using assms by (auto simp: arm_get_relative_jump_insn_def Let_def)
  moreover have "bit (thumb2_branch j) 31" "bit (thumb2_branch j) 30" "bit (thumb2_branch j) 29" "bit (thumb2_branch j) 28"
    by (simp_all add: thumb2_branch_def Let_def bit_simps BRANCH_INSN_THUMB2_def)
  ultimately show ?thesis using INSN_KIND_THUMB2 by (simp add: patch_check_insn_def thumb2_halfword_bits)
qed

lemma ucast_halfword:
  assumes "insn AND NOT 0xffff = (0 :: insn_t)"
  shows "ucast (ucast insn :: u16) = insn"
proof -
  have "(le_word (le_bytes 2 (ucast insn :: u16)) :: insn_t) = ucast (ucast insn :: u16)"
    by (rule bit_word_eqI) (auto simp: bit_le_word le_bytes_nth bit_ucast_iff bit_drop_bit_eq)
  then show ?thesis using le_word_halfword [OF assms] by simp
qed

lemma insn_bytes_length: "insn_bytes kind insn \<noteq> []" "length (insn_bytes kind insn) \<le> 4"
  by (simp_all add: insn_bytes_def)

subsection \<open>Writers of instructions\<close>

text \<open>
  Both architectures check an instruction, encode it and write the bytes. The interface of such a writer: its code, and that a
  processor that fetches the bytes of a checked instruction finds it.
\<close>

locale insn_writer =
  fixes check_align :: "'w::len word \<Rightarrow> 'k \<Rightarrow> bool"
    and check_insn :: "'k \<Rightarrow> insn_t \<Rightarrow> bool res"
    and encode :: "'k \<Rightarrow> insn_t \<Rightarrow> bytes"
    and fetch :: "'k \<Rightarrow> ('w word \<Rightarrow> u8 option) \<Rightarrow> 'w word \<Rightarrow> insn_t"
    and store :: "('m, 'w word) inferior_ops \<Rightarrow> 'm \<Rightarrow> 'w word \<Rightarrow> 'k \<Rightarrow> insn_t \<Rightarrow> (bool \<times> 'm) res"
  assumes encode_length: "encode k i \<noteq> []" "length (encode k i) \<le> 4"
    and fetch_encoded: "bytes_at c a (length (encode k i)) = encode k i \<Longrightarrow> check_insn k i = Inr True \<Longrightarrow> fetch k c a = i"
    and store_eq: "store ops m a k i = adbi_assure (check_align a k) (res_bind (check_insn k i) (\<lambda>ok. adbi_assure ok
      (res_bind (mem_write ops m a (encode k i)) (\<lambda>(n, m'). Inr (n = length (encode k i), m')))))"
begin

lemma store_aligned: "store ops m a k i = Inr r \<Longrightarrow> check_align a k"
  by (simp add: store_eq)

lemma store_spec:
  assumes "inferior ops contents" "\<not> thread_dead ops m" "unat a + 4 < 2 ^ LENGTH('w)"
    and "check_align a k" "check_insn k i = Inr True"
  shows "\<exists>ok m'. store ops m a k i = Inr (ok, m')
    \<and> (ok \<longrightarrow> wrote (contents m) (contents m') a (encode k i) 0 0 (length (encode k i)) \<and> fetch k (contents m') a = i)
    \<and> (\<forall>R P. writable_in ops R P \<longrightarrow> span a (length (encode k i)) \<subseteq> R \<longrightarrow> P m \<longrightarrow> ok)"
proof -
  let ?d = "encode k i"
  have "unat a mod 4 < 4" by simp
  then have "?d \<noteq> []" "unat a + length ?d < 2 ^ LENGTH('w)" "unat a mod 4 + length ?d < 2 ^ 32"
    using encode_length [of k i] assms(3) by (auto intro: le_less_trans [of _ 8])
  then obtain n m' where w: "mem_write ops m a ?d = Inr (n, if n < length ?d then check_alive ops m' else m')"
    "n \<le> length ?d" "wrote (contents m) (contents m') a ?d 0 0 n" "\<forall>R P. writable_in ops R P \<longrightarrow> span a (length ?d) \<subseteq> R \<longrightarrow> P m \<longrightarrow> n = length ?d"
    using inferior.mem_write_spec [OF assms(1,2)] by blast
  show ?thesis
  proof (cases "n = length ?d")
    case True
    then have "bytes_at (contents m') a (length ?d) = ?d"
      using w(3) by (intro bytes_at_eq) (simp add: wrote_def in_range_def)
    then have "fetch k (contents m') a = i" using fetch_encoded assms(5) by blast
    then show ?thesis using True w assms(4,5) by (auto simp: store_eq)
  next
    case False
    then show ?thesis using w assms(4,5) by (auto simp: store_eq)
  qed
qed

text \<open>What was written is what the process file gives back.\<close>

lemma store_read:
  assumes "inferior ops contents" "\<not> thread_dead ops m" "unat a + 4 < 2 ^ LENGTH('w)" "check_insn k i = Inr True"
    and "store ops m a k i = Inr (True, m')" "\<not> thread_dead ops m'"
  shows "mem_read ops m' a (length (encode k i)) = (encode k i, m')"
proof -
  let ?d = "encode k i"
  have "wrote (contents m) (contents m') a ?d 0 0 (length ?d)"
    using store_spec [OF assms(1-3) store_aligned [OF assms(5)] assms(4)] assms(5) by auto
  then have "procfs_mem_read ops m' a (length ?d) = ?d"
    by (intro inferior.pread [OF assms(1)]) (simp_all add: wrote_def in_range_def)
  then show ?thesis using assms(6) by (simp add: mem_read_def)
qed

end

text \<open>The kinds of ARM64 are those of ARM, with two of 32-bit words.\<close>

definition arm_kind :: "a64_insn_kind_t \<Rightarrow> insn_kind_t" where
  "arm_kind kind = (case kind of INSN_KIND_T32_16 \<Rightarrow> INSN_KIND_THUMB | INSN_KIND_T32_32 \<Rightarrow> INSN_KIND_THUMB2
     | INSN_KIND_A32 \<Rightarrow> INSN_KIND_ARM | INSN_KIND_A64 \<Rightarrow> INSN_KIND_ARM)"

lemma a64_as_arm:
  "a64_patch_check_insn kind insn = patch_check_insn (arm_kind kind) insn"
  "a64_insn_bytes kind insn = insn_bytes (arm_kind kind) insn"
  by (cases kind; simp add: a64_patch_check_insn_def patch_check_insn_def a64_insn_bytes_def insn_bytes_def arm_kind_def
      is_t32_32_halfword_def is_thumb2_halfword_def t32_first_halfowrd_def thumb2_first_halfowrd_def
      t32_swap_halfwords_def thumb2_swap_halfwords_def)+

interpretation arm_writer: insn_writer arm_check_align patch_check_insn insn_bytes fetch_insn mem_patch_insn
  by unfold_locales (auto simp: insn_bytes_length mem_patch_insn_def Let_def intro: fetch_insn_bytes)

interpretation a64_writer: insn_writer arm64_check_align a64_patch_check_insn a64_insn_bytes "\<lambda>k. fetch_insn (arm_kind k)"
  a64_mem_patch_insn
  by unfold_locales
    (auto simp: a64_as_arm insn_bytes_length a64_mem_patch_insn_def Let_def intro: fetch_insn_bytes)

definition insn_size :: "insn_kind_t \<Rightarrow> nat" where
  "insn_size kind = (if kind = INSN_KIND_THUMB then 2 else 4)"

lemma length_insn_bytes: "length (insn_bytes kind insn) = insn_size kind"
  by (simp add: insn_bytes_def insn_size_def)

definition insn_range :: "u32 \<Rightarrow> insn_kind_t \<Rightarrow> u32 set" where
  "insn_range a kind = span a (insn_size kind)"

lemma mem_patch_insn_spec:
  assumes "inferior ops contents" "\<not> thread_dead ops m" "unat a + 4 < 2 ^ 32"
    and "arm_check_align a kind" "patch_check_insn kind insn = Inr True"
  shows "\<exists>ok m'. mem_patch_insn ops m a kind insn = Inr (ok, m')
    \<and> (ok \<longrightarrow> wrote (contents m) (contents m') a (insn_bytes kind insn) 0 0 (length (insn_bytes kind insn))
         \<and> fetch_insn kind (contents m') a = insn)
    \<and> (\<forall>R P. writable_in ops R P \<longrightarrow> insn_range a kind \<subseteq> R \<longrightarrow> P m \<longrightarrow> ok)"
  using arm_writer.store_spec [OF assms(1,2) _ assms(4,5)] assms(3) by (simp add: length_insn_bytes insn_range_def)

section \<open>Reading an instruction\<close>

lemma first_halfword_swap:
  fixes bs :: bytes
  assumes "length bs = 4"
  shows "thumb2_first_halfowrd (thumb2_swap_halfwords (le_word bs)) = ucast (le_word (take 2 bs) :: u16)"
proof (rule bit_word_eqI)
  fix i assume "i < LENGTH(32)"
  moreover have "i < 16 \<Longrightarrow> i div 8 < 2" by auto
  ultimately show "bit (thumb2_first_halfowrd (thumb2_swap_halfwords (le_word bs))) i = bit (ucast (le_word (take 2 bs) :: u16) :: insn_t) i"
    using assms by (auto simp: thumb2_first_halfowrd_def thumb2_swap_halfwords_def mask_numerals bit_simps bit_le_word)
qed

text \<open>What was read is a valid instruction of its kind, and its bytes are those in memory.\<close>

definition insn_at :: "(u32 \<Rightarrow> u8 option) \<Rightarrow> u32 \<Rightarrow> insn_kind_t \<Rightarrow> insn_t \<Rightarrow> bool" where
  "insn_at c a kind insn \<longleftrightarrow> arm_check_align a kind \<and> patch_check_insn kind insn = Inr True
     \<and> (\<forall>i < length (insn_bytes kind insn). c (a + of_nat i) = Some (insn_bytes kind insn ! i))"

lemma mem_read_bytes:
  assumes "inferior ops contents" "\<not> thread_dead ops m" "\<forall>x \<in> span a k. contents m x \<noteq> None" "n \<le> k"
  shows "mem_read ops m a n = (bytes_at (contents m) a n, m)"
proof -
  have "procfs_mem_read ops m a n = bytes_at (contents m) a n"
    using assms(3,4) by (intro inferior.pread [OF assms(1)]) (auto simp: bytes_at_def span_def)
  then show ?thesis using assms(2) by (simp add: mem_read_def bytes_at_def)
qed

lemma insn_at_bytes:
  assumes "\<forall>x \<in> span a k. c x \<noteq> None" "arm_check_align a kind" "patch_check_insn kind insn = Inr True"
    and "insn_bytes kind insn = bytes_at c a n" "n \<le> k"
  shows "insn_at c a kind insn"
proof -
  have "c (a + of_nat i) = Some (the (c (a + of_nat i)))" if "i < n" for i using assms(1,5) spanI [of i k a] that by simp
  then have "c (a + of_nat i) = Some (bytes_at c a n ! i)" if "i < n" for i using that by (simp add: bytes_at_def)
  then show ?thesis using assms by (simp add: insn_at_def bytes_at_def)
qed

lemma patch_read_insn_at:
  assumes "inferior ops contents" "\<not> thread_dead ops m" "\<forall>x \<in> span a 4. contents m x \<noteq> None"
    and "patch_read_insn_detect_kind ops m a kind = Inr (r, m')"
  shows "m' = m \<and> (\<exists>insn k. r = Some (insn, k) \<and> insn_at (contents m) a k insn)"
proof -
  have rd: "mem_read ops m a 2 = (bytes_at (contents m) a 2, m)" "mem_read ops m a 4 = (bytes_at (contents m) a 4, m)"
    using mem_read_bytes [OF assms(1-3)] by simp_all
  let ?b = "bytes_at (contents m) a"
  have len: "length (?b n) = n" for n by (simp add: bytes_at_def)
  have b2: "take 2 (?b 4) = ?b 2" by (simp add: bytes_at_split len)
  show ?thesis
  proof (cases "kind = INSN_KIND_ARM")
    case True
    have "insn_bytes INSN_KIND_ARM (le_word (?b 4)) = ?b 4" using len [of 4] by (simp add: insn_bytes_def le_bytes_le_word)
    then have "arm_check_align a INSN_KIND_ARM \<Longrightarrow> insn_at (contents m) a INSN_KIND_ARM (le_word (?b 4))"
      using assms(3) by (intro insn_at_bytes [of a 4 _ _ _ 4]) (simp_all add: patch_check_insn_def)
    then show ?thesis using assms(4) True len [of 4]
      by (auto simp: patch_read_insn_detect_kind_def patch_read_insn_def rd res_bind_eq_Inr)
  next
    case False
    let ?i = "ucast (le_word (?b 2) :: u16) :: insn_t"
    have al: "arm_check_align a INSN_KIND_THUMB" using assms(4) False by (auto simp: patch_read_insn_detect_kind_def patch_read_insn_def res_bind_eq_Inr)
    then have al2: "arm_check_align a INSN_KIND_THUMB2" by (simp add: arm_check_align_def arm_align_bits_def)
    have lt: "?i AND NOT (mask 16) = 0" by (rule bit_word_eqI) (auto simp: bit_simps dest: bit_imp_le_length)
    then have lt': "?i AND NOT 0xffff = 0" by (simp add: mask_numerals)
    have widen: "ucast (ucast w :: insn_t) = w" for w :: u16 by (rule bit_word_eqI) (auto simp: bit_simps)
    have b1: "insn_bytes INSN_KIND_THUMB ?i = ?b 2" using len [of 2] by (simp add: insn_bytes_def le_bytes_le_word widen)
    have t1: "insn_at (contents m) a INSN_KIND_THUMB ?i"
      using assms(3) al b1 lt' by (intro insn_at_bytes [of a 4 _ _ _ 2]) (simp_all add: patch_check_insn_def)
    let ?j = "thumb2_swap_halfwords (le_word (?b 4))"
    have b4: "insn_bytes INSN_KIND_THUMB2 ?j = ?b 4" using len [of 4] by (simp add: insn_bytes_def swap_halfwords_swap le_bytes_le_word)
    have t2: "insn_at (contents m) a INSN_KIND_THUMB2 ?j" if "is_thumb2_halfword ?i = Inr True"
      using assms(3) al2 b4 that first_halfword_swap [OF len [of 4]] b2
      by (intro insn_at_bytes [of a 4 _ _ _ 4]) (simp_all add: patch_check_insn_def)
    show ?thesis using assms(4) False al al2 t1 t2 len [of 2] len [of 4]
      by (auto simp: patch_read_insn_detect_kind_def patch_read_insn_def rd res_bind_eq_Inr split: if_splits)
  qed
qed

text \<open>A patch leaves the new instruction and changes nothing else.\<close>

definition patched :: "(u32 \<Rightarrow> u8 option) \<Rightarrow> (u32 \<Rightarrow> u8 option) \<Rightarrow> u32 \<Rightarrow> insn_kind_t \<Rightarrow> insn_t \<Rightarrow> bool" where
  "patched c c' a kind insn \<longleftrightarrow> insn_at c' a kind insn \<and> (\<forall>x. x \<notin> insn_range a kind \<longrightarrow> c' x = c x)"

lemma insn_at_fetch: "insn_at c a kind insn \<Longrightarrow> fetch_insn kind c a = insn"
  using bytes_at_eq [of "insn_bytes kind insn" c a] by (intro fetch_insn_bytes) (auto simp: insn_at_def)

lemma insn_at_agree:
  assumes "insn_at c a kind insn" "insn_at c' a kind insn" "x \<in> insn_range a kind"
  shows "c x = c' x"
  using assms by (auto simp: insn_at_def insn_range_def span_def length_insn_bytes)

lemma insn_at_cong: "(\<And>x. x \<in> insn_range a kind \<Longrightarrow> c x = c' x) \<Longrightarrow> insn_at c a kind insn = insn_at c' a kind insn"
  by (auto simp: insn_at_def insn_range_def span_def length_insn_bytes)

lemma breakpoint_valid: "patch_check_insn kind (get_breakpoint_insn kind) = Inr True"
  by (cases kind) (simp_all add: patch_check_insn_def get_breakpoint_insn_def BREAKPOINT_INSN_THUMB_def BREAKPOINT_INSN_THUMB2_def
      is_thumb2_halfword_def thumb2_first_halfowrd_def)

lemma writable_patch:
  assumes "inferior ops contents" "writable_in ops R P" "P m" "\<And>m. P m \<Longrightarrow> \<not> thread_dead ops m" "unat a + 4 < 2 ^ 32"
    and "arm_check_align a kind" "patch_check_insn kind insn = Inr True" "insn_range a kind \<subseteq> R"
  shows "\<exists>m'. mem_patch_insn ops m a kind insn = Inr (True, m') \<and> P m' \<and> patched (contents m) (contents m') a kind insn"
proof -
  let ?d = "insn_bytes kind insn"
  have d: "?d \<noteq> []" "unat a + length ?d < 2 ^ LENGTH(32)" "unat a mod 4 + length ?d < 2 ^ 32"
    using assms(5) insn_bytes_length [of kind insn] mod_less_eq_dividend [of "unat a" 4] by (simp_all del: mod_less_eq_dividend)
  obtain n m' where w: "mem_write ops m a ?d = Inr (n, if n < length ?d then check_alive ops m' else m')"
      "wrote (contents m) (contents m') a ?d 0 0 n" "\<forall>R P. writable_in ops R P \<longrightarrow> span a (length ?d) \<subseteq> R \<longrightarrow> P m \<longrightarrow> n = length ?d \<and> P m'"
    using inferior.mem_write_full [OF assms(1) assms(4) [OF assms(3)] d] by blast
  then have n: "n = length ?d" "P m'" using assms(2,3,8) unfolding insn_range_def length_insn_bytes by blast+
  have "insn_at (contents m') a kind insn" using w(2) n(1) assms(6,7) by (simp add: insn_at_def wrote_def in_range_def)
  moreover have "contents m' x = contents m x" if "x \<notin> insn_range a kind" for x
    using w(2) n(1) that by (auto simp: wrote_def in_range_def insn_range_def span_def length_insn_bytes)
  ultimately show ?thesis using w(1) n assms(6,7) by (simp add: mem_patch_insn_def patched_def)
qed

text \<open>Patching an instruction and writing back the one that was there restores the memory.\<close>

lemma patched_back:
  assumes "patched c c1 a kind insn" "patched c1 c2 a kind old" "insn_at c a kind old"
  shows "c2 = c"
proof
  fix x show "c2 x = c x"
    using assms insn_at_agree [of c2 a kind old c x] by (cases "x \<in> insn_range a kind") (auto simp: patched_def)
qed

section \<open>Properties\<close>

text \<open>C25: installing a jump. For aligned addresses that the range check accepts, \<^verbatim>\<open>patch_relative_jump\<close>
  fails no assertion; when the write is complete, the processor fetching at the traced address finds
  a branch whose target is the trampoline, and nothing but the bytes of that instruction changed. The
  write is complete if the words that hold the instruction can be written. The operating system's calls are hypotheses, with the
  laws of the locale \<open>inferior\<close>; the thread is alive and the instruction does not pass the end of the address space.\<close>

theorem patch_relative_jump_installs:
  assumes "inferior ops contents" "\<not> thread_dead ops m" "unat a + 4 < 2 ^ 32"
    and "arm_check_align a kind" "arm_check_align d kind" "arm_check_relative_jump_kind kind a d"
  shows "\<exists>insn ok m'. mem_patch_insn ops m a kind insn = Inr (ok, m') \<and> patch_relative_jump ops m a d kind = Inr m'
    \<and> (ok \<longrightarrow> arm_branch kind (fetch_insn kind (contents m') a) a = Some d
         \<and> (\<forall>x. (\<forall>i < length (insn_bytes kind insn). x \<noteq> a + of_nat i) \<longrightarrow> contents m' x = contents m x))
    \<and> (can_write ops (insn_range a kind) m \<longrightarrow> ok)"
proof -
  obtain insn where i: "arm_get_relative_jump_insn kind a d = Inr insn" "arm_branch kind insn a = Some d"
    using arm_jump_reaches [OF assms(4-6)] by blast
  obtain ok m' where p: "mem_patch_insn ops m a kind insn = Inr (ok, m')"
    "ok \<longrightarrow> wrote (contents m) (contents m') a (insn_bytes kind insn) 0 0 (length (insn_bytes kind insn))
       \<and> fetch_insn kind (contents m') a = insn" "\<forall>R P. writable_in ops R P \<longrightarrow> insn_range a kind \<subseteq> R \<longrightarrow> P m \<longrightarrow> ok"
    using mem_patch_insn_spec [OF assms(1-4) jump_insn_valid [OF i(1)]] by blast
  then show ?thesis using i by (intro exI [of _ insn] exI [of _ ok] exI [of _ m'])
      (auto simp: patch_relative_jump_def wrote_def in_range_def can_write_def)
qed

text \<open>Witness: a Thumb-2 jump in a memory of zeros.\<close>

theorem patch_relative_jump_installs_witness:
  "\<exists>insn m'. mem_patch_insn byte_memory (\<lambda>_. Some 0) 0x8002 INSN_KIND_THUMB2 insn = Inr (True, m')
    \<and> patch_relative_jump byte_memory (\<lambda>_. Some 0) 0x8002 0x9000 INSN_KIND_THUMB2 = Inr m'
    \<and> arm_branch INSN_KIND_THUMB2 (fetch_insn INSN_KIND_THUMB2 m' 0x8002) 0x8002 = Some 0x9000"
proof -
  let ?m = "\<lambda>_ :: address32. Some (0 :: u8)"
  have "arm_check_align 0x8002 INSN_KIND_THUMB2" "arm_check_align 0x9000 INSN_KIND_THUMB2"
    "arm_check_relative_jump_kind INSN_KIND_THUMB2 0x8002 0x9000"
    by (simp_all add: arm_check_align_def arm_align_bits_def arm_check_relative_jump_kind_def arm_address_to_pc_def)
  moreover have "\<not> thread_dead byte_memory ?m" by (simp add: byte_memory_def)
  moreover have "unat (0x8002 :: address32) + 4 < 2 ^ 32" by simp
  ultimately obtain insn ok m' where r: "mem_patch_insn byte_memory ?m 0x8002 INSN_KIND_THUMB2 insn = Inr (ok, m')"
    "patch_relative_jump byte_memory ?m 0x8002 0x9000 INSN_KIND_THUMB2 = Inr m'"
    "ok \<longrightarrow> arm_branch INSN_KIND_THUMB2 (fetch_insn INSN_KIND_THUMB2 m' 0x8002) 0x8002 = Some 0x9000"
    "can_write byte_memory (insn_range 0x8002 INSN_KIND_THUMB2) ?m \<longrightarrow> ok"
    using patch_relative_jump_installs [OF mem32.inferior_axioms] by blast
  moreover have ok using r(4) by (simp add: mapped_everywhere byte_memory_can_write)
  ultimately show ?thesis by auto
qed

text \<open>the instruction written by a successful patch is the instruction read back.\<close>

theorem patch_read_back:
  assumes "inferior ops contents" "\<not> thread_dead ops m" "unat a + 4 < 2 ^ 32" "patch_check_insn kind insn = Inr True"
    and "mem_patch_insn ops m a kind insn = Inr (True, m')" "\<not> thread_dead ops m'"
  shows "patch_read_insn ops m' a kind = Inr (Some insn, m')"
proof -
  have "mem_read ops m' a (length (insn_bytes kind insn)) = (insn_bytes kind insn, m')"
    using arm_writer.store_read [OF assms(1,2) _ assms(4-6)] assms(3) by simp
  then show ?thesis using arm_writer.store_aligned [OF assms(5)] assms(4)
    by (cases kind) (auto simp: patch_read_insn_def insn_bytes_def le_word_le_bytes patch_check_insn_def
        swap_halfwords_swap le_word_halfword ucast_halfword)
qed

text \<open>Witness: the Thumb breakpoint, in a memory of zeros.\<close>

theorem patch_read_back_witness:
  "\<exists>m'. mem_patch_insn byte_memory (\<lambda>_. Some 0) 0x8002 INSN_KIND_THUMB 0xde01 = Inr (True, m')
    \<and> patch_read_insn byte_memory m' 0x8002 INSN_KIND_THUMB = Inr (Some 0xde01, m')"
proof -
  let ?m = "\<lambda>_ :: address32. Some (0 :: u8)"
  have pre: "arm_check_align 0x8002 INSN_KIND_THUMB" "\<not> thread_dead byte_memory ?m" "unat (0x8002 :: address32) + 4 < 2 ^ 32"
    by (simp_all add: arm_check_align_def arm_align_bits_def byte_memory_def)
  have v: "patch_check_insn INSN_KIND_THUMB 0xde01 = Inr True" by (simp add: patch_check_insn_def)
  obtain ok m' where r: "mem_patch_insn byte_memory ?m 0x8002 INSN_KIND_THUMB 0xde01 = Inr (ok, m')"
    "\<forall>R P. writable_in byte_memory R P \<longrightarrow> insn_range 0x8002 INSN_KIND_THUMB \<subseteq> R \<longrightarrow> P ?m \<longrightarrow> ok"
    using mem_patch_insn_spec [OF mem32.inferior_axioms pre(2,3,1) v] by blast
  have ok using r(2) [rule_format, OF byte_memory_writable order_refl] by (simp add: mapped_everywhere)
  then have "patch_read_insn byte_memory m' 0x8002 INSN_KIND_THUMB = Inr (Some 0xde01, m')"
    using r(1) patch_read_back [OF mem32.inferior_axioms pre(2,3) v, of m'] by (simp add: byte_memory_def)
  then show ?thesis using r(1) \<open>ok\<close> by auto
qed

text \<open>C26: the same on ARM64: for word-aligned 64-bit addresses that the range check accepts, \<^verbatim>\<open>patch_relative_jump\<close> of
  \<^verbatim>\<open>arch/arm64/patch.c\<close> fails no assertion; when the write is complete, the processor fetching at the traced address finds a \<^verbatim>\<open>b\<close>
  to the trampoline, and nothing else changed. The write is complete if the word transfer at the address, of eight bytes, succeeds. The conditions are
  those of the ARM theorem.\<close>

theorem a64_patch_relative_jump_installs:
  assumes "inferior ops contents" "\<not> thread_dead ops m" "unat a + 4 < 2 ^ 64"
    and "arm64_check_align a INSN_KIND_A64" "arm64_check_align d INSN_KIND_A64" "arm64_check_relative_jump_kind INSN_KIND_A64 a d"
  shows "\<exists>insn ok m'. a64_mem_patch_insn ops m a INSN_KIND_A64 insn = Inr (ok, m')
    \<and> a64_patch_relative_jump ops m a d INSN_KIND_A64 = Inr m'
    \<and> (ok \<longrightarrow> a64_branch (fetch_insn INSN_KIND_ARM (contents m') a) a = Some d
         \<and> (\<forall>x. (\<forall>i < 4. x \<noteq> a + of_nat i) \<longrightarrow> contents m' x = contents m x))
    \<and> (can_write ops (span a 4) m \<longrightarrow> ok)"
proof -
  let ?k = INSN_KIND_A64
  obtain insn where i: "arm64_get_relative_jump_insn ?k a d = Inr insn" "a64_branch insn a = Some d"
    using a64.jump_reaches [OF assms(4-6)] by blast
  have "a64_patch_check_insn ?k insn = Inr True" "unat a + 4 < 2 ^ LENGTH(64)"
    using assms(3) by (simp_all add: a64_patch_check_insn_def)
  from a64_writer.store_spec [OF assms(1,2) this(2) assms(4) this(1)] obtain ok m' where p: "a64_mem_patch_insn ops m a ?k insn = Inr (ok, m')"
    "ok \<longrightarrow> wrote (contents m) (contents m') a (a64_insn_bytes ?k insn) 0 0 (length (a64_insn_bytes ?k insn))
       \<and> fetch_insn (arm_kind ?k) (contents m') a = insn" "\<forall>R P. writable_in ops R P \<longrightarrow> span a (length (a64_insn_bytes ?k insn)) \<subseteq> R \<longrightarrow> P m \<longrightarrow> ok"
    by blast
  moreover have "length (a64_insn_bytes ?k insn) = 4" by (simp add: a64_insn_bytes_def)
  ultimately show ?thesis using i by (intro exI [of _ insn] exI [of _ ok] exI [of _ m'])
      (auto simp: a64_patch_relative_jump_def wrote_def in_range_def arm_kind_def can_write_def)
qed

text \<open>Witness: a backward branch over 128 MB in a memory of zeros.\<close>

theorem a64_patch_relative_jump_installs_witness:
  "\<exists>insn m'. a64_mem_patch_insn byte_memory (\<lambda>_. Some 0) 0x7f0000000000 INSN_KIND_A64 insn = Inr (True, m')
    \<and> a64_patch_relative_jump byte_memory (\<lambda>_. Some 0) 0x7f0000000000 0x7efff8000000 INSN_KIND_A64 = Inr m'
    \<and> a64_branch (fetch_insn INSN_KIND_ARM m' 0x7f0000000000) 0x7f0000000000 = Some 0x7efff8000000"
proof -
  let ?m = "\<lambda>_ :: address64. Some (0 :: u8)"
  have "arm64_check_align 0x7f0000000000 INSN_KIND_A64" "arm64_check_align 0x7efff8000000 INSN_KIND_A64"
    "arm64_check_relative_jump_kind INSN_KIND_A64 0x7f0000000000 0x7efff8000000"
    by (simp_all add: arm64_check_align_def get_align_bits_def arm64_check_relative_jump_kind_def arm64_address_to_pc_def)
  moreover have "\<not> thread_dead byte_memory ?m" by (simp add: byte_memory_def)
  moreover have "unat (0x7f0000000000 :: address64) + 4 < 2 ^ 64" by simp
  ultimately obtain insn ok m' where r: "a64_mem_patch_insn byte_memory ?m 0x7f0000000000 INSN_KIND_A64 insn = Inr (ok, m')"
    "a64_patch_relative_jump byte_memory ?m 0x7f0000000000 0x7efff8000000 INSN_KIND_A64 = Inr m'"
    "ok \<longrightarrow> a64_branch (fetch_insn INSN_KIND_ARM m' 0x7f0000000000) 0x7f0000000000 = Some 0x7efff8000000"
    "can_write byte_memory (span 0x7f0000000000 4) ?m \<longrightarrow> ok"
    using a64_patch_relative_jump_installs [OF mem64.inferior_axioms] by blast
  moreover have ok using r(4) by (simp add: mapped_everywhere byte_memory_can_write)
  ultimately show ?thesis by auto
qed

end
