(* ===== verification/Asdd_Tree.thy ===== *)
theory Asdd_Tree
  imports Adbi_Prelude "HOL-Library.Tree"
begin

text \<open>
  The search trees in which the server keeps processes, threads, segments, tracepoints and jumps:
  the inline functions of \<^verbatim>\<open>lib/asdd/include/tree.h\<close>. A node with its parent links is a position
  in the tree: the subtree below it and the path to the root. \<^verbatim>\<open>tree_try_insert_node\<close> and
  \<^verbatim>\<open>tree_remove_node\<close> are in the binary \<^verbatim>\<open>libasdd\<close>: they are parameters, with the contract of the
  locale \<open>tree_library\<close>. The height of a node is private to that library.
\<close>

section \<open>Definitions\<close>

type_synonym ('k, 'v) tree_t = "('k \<times> 'v) tree"

text \<open>A step from a node to its parent: the node was the left or the right child.\<close>

datatype ('k, 'v) link =
    Left_Of "'k \<times> 'v" "('k, 'v) tree_t"
  | Right_Of "('k, 'v) tree_t" "'k \<times> 'v"

record ('k, 'v) node_t =
  nkey :: 'k
  nval :: 'v
  links_left :: "('k, 'v) tree_t"
  links_right :: "('k, 'v) tree_t"
  links_parent :: "('k, 'v) link list"

text \<open>The node a (possibly null) child pointer points to.\<close>

fun node_at :: "('k, 'v) link list \<Rightarrow> ('k, 'v) tree_t \<Rightarrow> ('k, 'v) node_t option" where
  "node_at p Leaf = None"
| "node_at p (Node l (k, v) r) =
     Some \<lparr>nkey = k, nval = v, links_left = l, links_right = r, links_parent = p\<rparr>"

text \<open>The whole tree a node belongs to.\<close>

fun plug :: "('k, 'v) link list \<Rightarrow> ('k, 'v) tree_t \<Rightarrow> ('k, 'v) tree_t" where
  "plug [] t = t"
| "plug (Left_Of e r # p) t = plug p (Node t e r)"
| "plug (Right_Of l e # p) t = plug p (Node l e t)"

definition node_tree :: "('k, 'v) node_t \<Rightarrow> ('k, 'v) tree_t" where
  "node_tree n = plug (links_parent n) (Node (links_left n) (nkey n, nval n) (links_right n))"

subsection \<open>Search\<close>

fun tree_get_node_from :: "('k::linorder, 'v) link list \<Rightarrow> ('k, 'v) tree_t \<Rightarrow> 'k \<Rightarrow> ('k, 'v) node_t option" where
  "tree_get_node_from p Leaf key = None"
| "tree_get_node_from p (Node l (k, v) r) key =
     (if key = k then node_at p (Node l (k, v) r)
      else if key < k then tree_get_node_from (Left_Of (k, v) r # p) l key
      else tree_get_node_from (Right_Of l (k, v) # p) r key)"

definition tree_get_node :: "('k::linorder, 'v) tree_t \<Rightarrow> 'k \<Rightarrow> ('k, 'v) node_t option" where
  "tree_get_node t key = tree_get_node_from [] t key"

fun tree_get_close_node_from :: "('k::linorder, 'v) link list \<Rightarrow> ('k, 'v) tree_t \<Rightarrow> 'k \<Rightarrow> ('k, 'v) node_t option" where
  "tree_get_close_node_from p Leaf key = None"
| "tree_get_close_node_from p (Node l (k, v) r) key =
     (if key = k then node_at p (Node l (k, v) r)
      else if key < k then
        (if l \<noteq> Leaf then tree_get_close_node_from (Left_Of (k, v) r # p) l key
         else node_at p (Node l (k, v) r))
      else
        (if r \<noteq> Leaf then tree_get_close_node_from (Right_Of l (k, v) # p) r key
         else node_at p (Node l (k, v) r)))"

definition tree_get_close_node :: "('k::linorder, 'v) tree_t \<Rightarrow> 'k \<Rightarrow> ('k, 'v) node_t option" where
  "tree_get_close_node t key = tree_get_close_node_from [] t key"

fun tree_get_min :: "('k, 'v) link list \<Rightarrow> ('k, 'v) tree_t \<Rightarrow> ('k, 'v) node_t option" where
  "tree_get_min p Leaf = None"
| "tree_get_min p (Node l e r) =
     (if l \<noteq> Leaf then tree_get_min (Left_Of e r # p) l else node_at p (Node l e r))"

fun tree_get_max :: "('k, 'v) link list \<Rightarrow> ('k, 'v) tree_t \<Rightarrow> ('k, 'v) node_t option" where
  "tree_get_max p Leaf = None"
| "tree_get_max p (Node l e r) =
     (if r \<noteq> Leaf then tree_get_max (Right_Of l e # p) r else node_at p (Node l e r))"

definition tree_iter_start :: "('k, 'v) tree_t \<Rightarrow> ('k, 'v) node_t option" where
  "tree_iter_start t = tree_get_min [] t"

text \<open>The loops that climb to the first parent of which the node is not the right (left) child.\<close>

fun climb_right :: "('k, 'v) link list \<Rightarrow> ('k, 'v) tree_t \<Rightarrow> ('k, 'v) node_t option" where
  "climb_right [] t = None"
| "climb_right (Right_Of l e # p) t = climb_right p (Node l e t)"
| "climb_right (Left_Of e r # p) t = node_at p (Node t e r)"

fun climb_left :: "('k, 'v) link list \<Rightarrow> ('k, 'v) tree_t \<Rightarrow> ('k, 'v) node_t option" where
  "climb_left [] t = None"
| "climb_left (Left_Of e r # p) t = climb_left p (Node t e r)"
| "climb_left (Right_Of l e # p) t = node_at p (Node l e t)"

definition tree_iter_next :: "('k, 'v) node_t \<Rightarrow> ('k, 'v) node_t option" where
  "tree_iter_next n =
     (if links_right n \<noteq> Leaf then
        tree_get_min (Right_Of (links_left n) (nkey n, nval n) # links_parent n) (links_right n)
      else climb_right (links_parent n) (Node (links_left n) (nkey n, nval n) (links_right n)))"

definition tree_iter_prev :: "('k, 'v) node_t \<Rightarrow> ('k, 'v) node_t option" where
  "tree_iter_prev n =
     (if links_left n \<noteq> Leaf then
        tree_get_max (Right_Of (links_left n) (nkey n, nval n) # links_parent n) (links_right n)
      else climb_left (links_parent n) (Node (links_left n) (nkey n, nval n) (links_right n)))"

definition tree_get_node_le :: "('k::linorder, 'v) tree_t \<Rightarrow> 'k \<Rightarrow> ('k, 'v) node_t option" where
  "tree_get_node_le t key =
     (case tree_get_close_node t key of
        None \<Rightarrow> None
      | Some close \<Rightarrow> if nkey close \<le> key then Some close else tree_iter_prev close)"

fun tree_get_node_range_from :: "('k::linorder, 'v) link list \<Rightarrow> ('k, 'v) tree_t \<Rightarrow> 'k \<Rightarrow> 'k \<Rightarrow> ('k, 'v) node_t option" where
  "tree_get_node_range_from p Leaf a b = None"
| "tree_get_node_range_from p (Node l (k, v) r) a b =
     (if a \<le> k \<and> k < b then node_at p (Node l (k, v) r)
      else if k < a then tree_get_node_range_from (Left_Of (k, v) r # p) l a b
      else tree_get_node_range_from (Right_Of l (k, v) # p) r a b)"

definition tree_get :: "('k::linorder, 'v) tree_t \<Rightarrow> 'k \<Rightarrow> 'v option" where
  "tree_get t key = map_option nval (tree_get_node t key)"

definition tree_get_le :: "('k::linorder, 'v) tree_t \<Rightarrow> 'k \<Rightarrow> 'v option" where
  "tree_get_le t key = map_option nval (tree_get_node_le t key)"

definition tree_get_range :: "('k::linorder, 'v) tree_t \<Rightarrow> 'k \<Rightarrow> 'k \<Rightarrow> 'v option" where
  "tree_get_range t a b = map_option nval (tree_get_node_range_from [] t a b)"

definition tree_contains :: "('k::linorder, 'v) tree_t \<Rightarrow> 'k \<Rightarrow> bool" where
  "tree_contains t key \<longleftrightarrow> tree_get_node t key \<noteq> None"

definition tree_empty :: "('k, 'v) tree_t \<Rightarrow> bool" where
  "tree_empty t \<longleftrightarrow> t = Leaf"

definition tree_get_any_val :: "('k, 'v) tree_t \<Rightarrow> 'v option" where
  "tree_get_any_val t = map_option nval (node_at [] t)"

subsection \<open>Insertion and removal\<close>

text \<open>The functions of \<^verbatim>\<open>libasdd\<close>: \<^verbatim>\<open>tree_try_insert_node\<close> returns the new node, in the tree it is now part
  of and with a value that is not yet set, or null; \<^verbatim>\<open>tree_remove_node\<close> leaves the tree without the node.\<close>

record ('k, 'v) tree_lib =
  tree_try_insert_node :: "('k, 'v) tree_t \<Rightarrow> 'k \<Rightarrow> ('k, 'v) node_t option"
  tree_remove_node :: "('k, 'v) node_t \<Rightarrow> ('k, 'v) tree_t"

definition set_val :: "('k, 'v) node_t \<Rightarrow> 'v \<Rightarrow> ('k, 'v) tree_t" where
  "set_val n v = node_tree (n\<lparr>nval := v\<rparr>)"

definition tree_try_insert :: "('k, 'v) tree_lib \<Rightarrow> ('k, 'v) tree_t \<Rightarrow> 'k \<Rightarrow> 'v \<Rightarrow> bool \<times> ('k, 'v) tree_t" where
  "tree_try_insert lib t key v =
     (case tree_try_insert_node lib t key of Some n \<Rightarrow> (True, set_val n v) | None \<Rightarrow> (False, t))"

definition tree_insert :: "('k, 'v) tree_lib \<Rightarrow> ('k, 'v) tree_t \<Rightarrow> 'k \<Rightarrow> 'v \<Rightarrow> ('k, 'v) tree_t res" where
  "tree_insert lib t key v =
     (case tree_try_insert_node lib t key of Some n \<Rightarrow> Inr (set_val n v) | None \<Rightarrow> Inl Assertion)"

definition tree_update :: "('k::linorder, 'v) tree_t \<Rightarrow> 'k \<Rightarrow> 'v \<Rightarrow> ('k, 'v) tree_t res" where
  "tree_update t key v =
     (case tree_get_node t key of Some n \<Rightarrow> Inr (set_val n v) | None \<Rightarrow> Inl Null_Pointer)"

definition tree_discard :: "('k::linorder, 'v) tree_lib \<Rightarrow> ('k, 'v) tree_t \<Rightarrow> 'k \<Rightarrow> bool \<times> ('k, 'v) tree_t" where
  "tree_discard lib t key =
     (case tree_get_node t key of Some n \<Rightarrow> (True, tree_remove_node lib n) | None \<Rightarrow> (False, t))"

definition tree_remove :: "('k::linorder, 'v) tree_lib \<Rightarrow> ('k, 'v) tree_t \<Rightarrow> 'k \<Rightarrow> ('k, 'v) tree_t res" where
  "tree_remove lib t key = (let (ret, t') = tree_discard lib t key in adbi_assure ret (Inr t'))"

definition tree_pop :: "('k, 'v) tree_lib \<Rightarrow> ('k, 'v) tree_t \<Rightarrow> 'v option \<times> ('k, 'v) tree_t" where
  "tree_pop lib t =
     (case node_at [] t of Some root \<Rightarrow> (Some (nval root), tree_remove_node lib root) | None \<Rightarrow> (None, t))"

section \<open>Positions and the order of the keys\<close>

text \<open>The entries before and after a position in the order of the keys.\<close>

fun path_before :: "('k, 'v) link list \<Rightarrow> ('k \<times> 'v) list" where
  "path_before [] = []"
| "path_before (Left_Of e r # p) = path_before p"
| "path_before (Right_Of l e # p) = path_before p @ inorder l @ [e]"

fun path_after :: "('k, 'v) link list \<Rightarrow> ('k \<times> 'v) list" where
  "path_after [] = []"
| "path_after (Left_Of e r # p) = e # inorder r @ path_after p"
| "path_after (Right_Of l e # p) = path_after p"

definition entry :: "('k, 'v) node_t \<Rightarrow> 'k \<times> 'v" where
  "entry n = (nkey n, nval n)"

definition node_before :: "('k, 'v) node_t \<Rightarrow> ('k \<times> 'v) list" where
  "node_before n = path_before (links_parent n) @ inorder (links_left n)"

definition node_after :: "('k, 'v) node_t \<Rightarrow> ('k \<times> 'v) list" where
  "node_after n = inorder (links_right n) @ path_after (links_parent n)"

definition tree_ok :: "('k::linorder, 'v) tree_t \<Rightarrow> bool" where
  "tree_ok t \<longleftrightarrow> sorted_wrt (<) (map fst (inorder t))"

named_theorems position \<open>the entries around the node a tree function returns\<close>

lemma inorder_plug [simp]: "inorder (plug p t) = path_before p @ inorder t @ path_after p"
  by (induction p t rule: plug.induct) simp_all

lemma inorder_node_tree: "inorder (node_tree n) = node_before n @ entry n # node_after n"
  by (simp add: node_tree_def node_before_def node_after_def entry_def)

lemma node_at_position [position]:
  "node_at p (Node l e r) = Some n \<longleftrightarrow>
     links_left n = l \<and> links_right n = r \<and> links_parent n = p \<and> entry n = e"
  by (cases e; cases n) (auto simp: entry_def)

lemma tree_get_min_position:
  "t \<noteq> Leaf \<Longrightarrow> \<exists>n. tree_get_min p t = Some n \<and> node_before n = path_before p
     \<and> entry n # node_after n = inorder t @ path_after p"
proof (induction p t rule: tree_get_min.induct)
  case (2 p l e r)
  then show ?case
    by (cases "l = Leaf"; cases e) (auto simp: node_before_def node_after_def entry_def)
qed simp

lemma climb_right_position:
  "case path_after p of [] \<Rightarrow> climb_right p t = None
   | e # xs \<Rightarrow> \<exists>n. climb_right p t = Some n \<and> entry n = e \<and> node_after n = xs
       \<and> node_before n = path_before p @ inorder t"
proof (induction p t rule: climb_right.induct)
  case (3 e r p t)
  then show ?case by (cases e) (simp add: node_before_def node_after_def entry_def)
qed (auto split: list.splits)

lemma climb_left_position:
  "if path_before p = [] then climb_left p t = None
   else \<exists>n. climb_left p t = Some n \<and> entry n = last (path_before p)"
proof (induction p t rule: climb_left.induct)
  case (3 l e p t)
  then show ?case by (cases e) (simp add: entry_def)
qed simp_all

text \<open>\<^verbatim>\<open>tree_iter_next\<close> moves one entry on.\<close>

lemma tree_iter_next_position:
  "case node_after n of [] \<Rightarrow> tree_iter_next n = None
   | e # xs \<Rightarrow> \<exists>n'. tree_iter_next n = Some n' \<and> entry n' = e \<and> node_after n' = xs
       \<and> node_before n' = node_before n @ [entry n]"
proof (cases "links_right n = Leaf")
  case True
  then show ?thesis
    using climb_right_position [of "links_parent n" "Node (links_left n) (nkey n, nval n) (links_right n)"]
    by (auto simp: tree_iter_next_def node_after_def node_before_def entry_def split: list.splits)
next
  case False
  then obtain n' where n': "tree_iter_next n = Some n'" "node_before n' = node_before n @ [entry n]"
    "node_after n = entry n' # node_after n'"
    using tree_get_min_position [OF False, of "Right_Of (links_left n) (nkey n, nval n) # links_parent n"]
    unfolding tree_iter_next_def node_after_def node_before_def entry_def by fastforce
  then show ?thesis unfolding n'(3) by simp
qed

section \<open>Iteration\<close>

text \<open>The loop of \<^verbatim>\<open>TREE_ITER\<close>: the nodes its body is executed for. It ends, since every step leaves
  fewer entries to visit.\<close>

function tree_iter_from :: "('k, 'v) node_t option \<Rightarrow> ('k, 'v) node_t list" where
  "tree_iter_from None = []"
| "tree_iter_from (Some n) = n # tree_iter_from (tree_iter_next n)"
  by pat_completeness auto
termination
proof (relation "measure (\<lambda>x. case x of None \<Rightarrow> 0 | Some n \<Rightarrow> Suc (length (node_after n)))", goal_cases)
  case (2 n)
  then show ?case using tree_iter_next_position [of n]
    by (cases "tree_iter_next n") (auto split: list.splits)
qed simp

definition tree_iter :: "('k, 'v) tree_t \<Rightarrow> ('k, 'v) node_t list" where
  "tree_iter t = tree_iter_from (tree_iter_start t)"

definition tree_size :: "('k, 'v) tree_t \<Rightarrow> u32" where
  "tree_size t = of_nat (length (tree_iter t))"

definition tree_vals :: "('k, 'v) tree_t \<Rightarrow> 'v list" where
  "tree_vals t = map nval (tree_iter t)"

lemma tree_iter_from_position:
  "map entry (tree_iter_from x) = (case x of None \<Rightarrow> [] | Some n \<Rightarrow> entry n # node_after n)"
proof (induction x rule: tree_iter_from.induct)
  case (2 n)
  then show ?case using tree_iter_next_position [of n] by (auto split: list.splits option.splits)
qed simp

lemma tree_iter_entries: "map entry (tree_iter t) = inorder t"
  using tree_get_min_position [of t "[]"]
  by (cases "t = Leaf") (auto simp: tree_iter_def tree_iter_start_def tree_iter_from_position)

lemma tree_vals_inorder: "tree_vals t = map snd (inorder t)"
  unfolding tree_iter_entries [symmetric] by (simp add: tree_vals_def entry_def)

section \<open>Search\<close>

text \<open>The two sides of a key in the sequence of entries.\<close>

abbreviation below :: "'k::linorder \<Rightarrow> ('k \<times> 'v) list \<Rightarrow> bool" where
  "below key xs \<equiv> \<forall>e \<in> set xs. fst e < key"

abbreviation above :: "'k::linorder \<Rightarrow> ('k \<times> 'v) list \<Rightarrow> bool" where
  "above key xs \<equiv> \<forall>e \<in> set xs. key < fst e"

lemma tree_ok_Node: "tree_ok (Node l e r) \<Longrightarrow> below (fst e) (inorder l) \<and> above (fst e) (inorder r) \<and> tree_ok l \<and> tree_ok r"
  by (auto simp: tree_ok_def sorted_wrt_append)

lemma map_of_not_in: "(\<And>e. e \<in> set xs \<Longrightarrow> fst e \<noteq> k) \<Longrightarrow> map_of xs k = None"
  by (auto simp: map_of_eq_None_iff)

lemma tree_get_node_from_spec:
  "tree_ok t \<Longrightarrow> map_option nval (tree_get_node_from p t key) = map_of (inorder t) key"
proof (induction p t key rule: tree_get_node_from.induct)
  case (2 p l k v r key)
  note s = tree_ok_Node [OF 2(3)]
  have l: "map_of (inorder l) key = None" if "\<not> key < k"
    using s that by (intro map_of_not_in) force
  have r: "map_of (inorder r) key = None" if "\<not> k < key"
    using s that by (intro map_of_not_in) force
  have "map_of (inorder l) k = None" using s by (intro map_of_not_in) force
  then show ?case using 2 s l r by (auto simp: map_add_def split: option.splits)
qed simp

lemma tree_get_close_node_from_spec:
  assumes "tree_ok t" "t \<noteq> Leaf" "below key (path_before p)" "above key (path_after p)"
  shows "\<exists>n. tree_get_close_node_from p t key = Some n \<and> plug p t = node_tree n
    \<and> (nkey n = key \<or> nkey n < key \<and> above key (node_after n)
       \<or> key < nkey n \<and> links_left n = Leaf \<and> below key (node_before n))"
  using assms
proof (induction p t key rule: tree_get_close_node_from.induct)
  case (2 p l k v r key)
  note s = tree_ok_Node [OF 2(3)]
  let ?n = "\<lparr>nkey = k, nval = v, links_left = l, links_right = r, links_parent = p\<rparr>"
  have here: "plug p (Node l (k, v) r) = node_tree ?n" by (simp add: node_tree_def)
  consider "key = k" | "key < k" "l = Leaf" | "key < k" "l \<noteq> Leaf" | "k < key" "r = Leaf" | "k < key" "r \<noteq> Leaf"
    by fastforce
  then show ?case
  proof cases
    case 1
    then show ?thesis using here by auto
  next
    case 2
    then show ?thesis using here \<open>below key (path_before p)\<close> by (auto simp: node_before_def)
  next
    case 3
    then have "above key (path_after (Left_Of (k, v) r # p))"
      using s \<open>above key (path_after p)\<close> by force
    then show ?thesis using 2(1) 3 s 2(5) by auto
  next
    case 4
    then show ?thesis using here \<open>above key (path_after p)\<close> by (auto simp: node_after_def)
  next
    case 5
    then have "below key (path_before (Right_Of l (k, v) # p))"
      using s \<open>below key (path_before p)\<close> by force
    then show ?thesis using 2(2) 5 s 2(6) by auto
  qed
qed simp

text \<open>The last entry that is not above a key.\<close>

definition last_le :: "('k::linorder \<times> 'v) list \<Rightarrow> 'k \<Rightarrow> ('k \<times> 'v) option" where
  "last_le xs key = (case filter (\<lambda>e. fst e \<le> key) xs of [] \<Rightarrow> None | y # ys \<Rightarrow> Some (last (y # ys)))"

lemma last_le_at: "fst e \<le> key \<Longrightarrow> above key ys \<Longrightarrow> last_le (xs @ e # ys) key = Some e"
proof -
  assume "fst e \<le> key" "above key ys"
  then have "filter (\<lambda>e. fst e \<le> key) (xs @ e # ys) = filter (\<lambda>e. fst e \<le> key) xs @ [e]"
    by (auto simp: filter_empty_conv)
  then show ?thesis unfolding last_le_def by (metis (no_types, lifting) last_snoc list.exhaust list.simps(5) snoc_eq_iff_butlast)
qed

lemma last_le_before: "below key xs \<Longrightarrow> above key ys \<Longrightarrow> last_le (xs @ ys) key = (if xs = [] then None else Some (last xs))"
proof -
  assume "below key xs" "above key ys"
  then have "filter (\<lambda>e. fst e \<le> key) xs = xs" "filter (\<lambda>e. fst e \<le> key) ys = []"
    by (auto simp: filter_empty_conv filter_id_conv intro: less_imp_le)
  then show ?thesis unfolding last_le_def by (simp split: list.splits)
qed

lemma tree_get_node_le_spec:
  assumes "tree_ok t"
  shows "map_option entry (tree_get_node_le t key) = last_le (inorder t) key"
proof (cases "t = Leaf")
  case True
  then show ?thesis by (simp add: tree_get_node_le_def tree_get_close_node_def last_le_def)
next
  case False
  obtain n where n: "tree_get_close_node t key = Some n" "t = node_tree n"
    and c: "nkey n = key \<or> nkey n < key \<and> above key (node_after n)
       \<or> key < nkey n \<and> links_left n = Leaf \<and> below key (node_before n)"
    using tree_get_close_node_from_spec [OF assms False, of "[]" key] by (auto simp: tree_get_close_node_def)
  have after: "above (nkey n) (node_after n)"
    using assms n(2) by (auto simp: tree_ok_def inorder_node_tree sorted_wrt_append entry_def)
  have i: "inorder t = node_before n @ entry n # node_after n" using n(2) by (simp add: inorder_node_tree)
  show ?thesis
  proof (cases "nkey n \<le> key")
    case True
    then have "above key (node_after n)" using c after by auto
    then show ?thesis using n(1) True last_le_at [of "entry n" key] by (simp add: tree_get_node_le_def i entry_def)
  next
    case False
    then have l: "links_left n = Leaf" and b: "below key (node_before n)" using c by auto
    have "above key (entry n # node_after n)" using False after by (force simp: entry_def)
    then have "last_le (inorder t) key = (if node_before n = [] then None else Some (last (node_before n)))"
      unfolding i by (rule last_le_before [OF b])
    then show ?thesis
      using n(1) l False climb_left_position [of "links_parent n" "Node Leaf (nkey n, nval n) (links_right n)"]
      by (auto simp: tree_get_node_le_def tree_iter_prev_def node_before_def split: if_splits)
  qed
qed

section \<open>The contract of the library\<close>

text \<open>A tree as a finite map.\<close>

definition tree_map :: "('k, 'v) tree_t \<Rightarrow> 'k \<Rightarrow> 'v option" where
  "tree_map t = map_of (inorder t)"

lemma tree_get_map: "tree_ok t \<Longrightarrow> tree_get t = tree_map t"
  by (rule ext) (simp add: tree_get_def tree_get_node_def tree_get_node_from_spec tree_map_def)

lemma tree_ok_map_entry: "tree_ok t \<Longrightarrow> tree_map t k = Some v \<longleftrightarrow> (k, v) \<in> set (inorder t)"
  unfolding tree_map_def tree_ok_def by (intro map_of_eq_Some_iff) (simp add: strict_sorted_iff)

lemma tree_nonempty_map: "tree_ok t \<Longrightarrow> t \<noteq> Leaf \<Longrightarrow> \<exists>k v. tree_map t k = Some v"
proof -
  assume "tree_ok t" "t \<noteq> Leaf"
  then obtain l k v r where "t = Node l (k, v) r" by (cases t) auto
  then have "(k, v) \<in> set (inorder t)" by simp
  then show ?thesis using tree_ok_map_entry [OF \<open>tree_ok t\<close>] by blast
qed

lemma tree_map_card: "tree_ok t \<Longrightarrow> card (dom (tree_map t)) = size t"
  unfolding tree_ok_def tree_map_def dom_map_of_conv_image_fst
  by (metis length_inorder length_map list.set_map strict_sorted_iff distinct_card)

lemma tree_map_size:
  assumes "tree_ok t'" "tree_ok t" "tree_map t k = Some v" "tree_map t' = (tree_map t)(k := None)"
  shows "size t' < size t"
proof -
  have "finite (dom (tree_map t))" by (simp add: tree_map_def finite_dom_map_of)
  then have "card (dom (tree_map t) - {k}) < card (dom (tree_map t))" using assms(3) by (intro card_Diff1_less) auto
  then show ?thesis using tree_map_card [OF assms(1)] tree_map_card [OF assms(2)] by (simp add: assms(4))
qed

lemma tree_vals_map: "tree_ok t \<Longrightarrow> v \<in> set (tree_vals t) \<longleftrightarrow> (\<exists>k. tree_map t k = Some v)"
  by (force simp: tree_vals_inorder tree_ok_map_entry)

lemma tree_get_node_from_tree: "tree_get_node_from p t key = Some n \<Longrightarrow> node_tree n = plug p t \<and> nkey n = key"
  by (induction p t key rule: tree_get_node_from.induct) (auto simp: node_tree_def split: if_splits)

lemma tree_get_node_tree: "tree_get_node t key = Some n \<Longrightarrow> node_tree n = t \<and> nkey n = key"
  using tree_get_node_from_tree [of "[]" t key n] by (simp add: tree_get_node_def)

lemma inorder_set_val: "inorder (set_val n v) = node_before n @ (nkey n, v) # node_after n"
  by (simp add: set_val_def inorder_node_tree node_before_def node_after_def entry_def)

lemma tree_ok_set_val: "tree_ok (set_val n v) = tree_ok (node_tree n)"
  by (simp add: tree_ok_def inorder_set_val inorder_node_tree entry_def)

text \<open>In the order of the keys, the entries around a node do not have its key.\<close>

lemma tree_ok_around:
  "tree_ok (node_tree n) \<Longrightarrow> map_of (node_before n) (nkey n) = None \<and> map_of (node_after n) (nkey n) = None"
  unfolding tree_ok_def inorder_node_tree
  by (auto simp: sorted_wrt_append entry_def map_of_eq_None_iff)

lemma map_of_insert_middle: "map_of xs k = None \<Longrightarrow> map_of (xs @ (k, v) # ys) = (map_of (xs @ ys))(k \<mapsto> v)"
  by (rule ext) (auto simp: map_add_def split: option.splits)

lemma map_of_remove_middle:
  "map_of xs k = None \<Longrightarrow> map_of ys k = None \<Longrightarrow> map_of (xs @ ys) = (map_of (xs @ (k, v) # ys))(k := None)"
  by (rule ext) (auto simp: map_add_def split: option.splits)

lemma update_spec:
  assumes "tree_ok ts" "tree_map ts k \<noteq> None"
  shows "\<exists>ts'. tree_update ts k v = Inr ts' \<and> tree_ok ts' \<and> tree_map ts' = (tree_map ts)(k \<mapsto> v)"
proof -
  have "tree_get ts k \<noteq> None" using assms by (simp add: tree_get_map)
  then obtain n where n: "tree_get_node ts k = Some n" by (auto simp: tree_get_def)
  note nt = tree_get_node_tree [OF n]
  have ok: "tree_ok (node_tree n)" using nt assms(1) by simp
  have "tree_map (set_val n v) = (tree_map ts)(k \<mapsto> v)"
  proof -
    have ar: "map_of (node_before n) k = None" using tree_ok_around [OF ok] nt by simp
    have "tree_map ts = map_of (node_before n @ (k, nval n) # node_after n)"
      using nt inorder_node_tree [of n] by (simp add: tree_map_def entry_def)
    then show ?thesis using nt map_of_insert_middle [OF ar] unfolding tree_map_def inorder_set_val by (auto simp: fun_eq_iff)
  qed
  then show ?thesis using n ok by (auto simp: tree_update_def tree_ok_set_val)
qed

locale tree_library =
  fixes lib :: "('k::linorder, 'v) tree_lib"
  assumes insert_none: "tree_ok t \<Longrightarrow> tree_try_insert_node lib t k = None \<longleftrightarrow> tree_map t k \<noteq> None"
    and insert_some: "tree_ok t \<Longrightarrow> tree_try_insert_node lib t k = Some n \<Longrightarrow>
      nkey n = k \<and> inorder t = node_before n @ node_after n \<and> tree_ok (node_tree n)"
    and remove: "tree_ok (node_tree n) \<Longrightarrow> inorder (tree_remove_node lib n) = node_before n @ node_after n"
begin

lemma insert_spec:
  assumes "tree_ok t" "tree_map t k = None"
  shows "\<exists>t'. tree_insert lib t k v = Inr t' \<and> tree_ok t' \<and> tree_map t' = (tree_map t)(k \<mapsto> v)"
proof -
  obtain n where n: "tree_try_insert_node lib t k = Some n" using insert_none [OF assms(1), of k] assms(2) by auto
  note s = insert_some [OF assms(1) n]
  then have "tree_map (set_val n v) = (tree_map t)(k \<mapsto> v)"
    using tree_ok_around [of n] map_of_insert_middle [of "node_before n" k v "node_after n"]
    unfolding tree_map_def inorder_set_val by simp
  then show ?thesis using n s by (auto simp: tree_insert_def tree_ok_set_val)
qed

lemma insert_duplicate: "tree_ok t \<Longrightarrow> tree_map t k \<noteq> None \<Longrightarrow> tree_insert lib t k v = Inl Assertion"
  using insert_none [of t k] by (simp add: tree_insert_def)

lemma remove_node_spec:
  assumes "tree_ok (node_tree n)"
  shows "tree_ok (tree_remove_node lib n)" "tree_map (tree_remove_node lib n) = (tree_map (node_tree n))(nkey n := None)"
proof -
  show "tree_ok (tree_remove_node lib n)"
    using assms unfolding tree_ok_def remove [OF assms] inorder_node_tree by (auto simp: sorted_wrt_append)
  show "tree_map (tree_remove_node lib n) = (tree_map (node_tree n))(nkey n := None)"
    using tree_ok_around [OF assms] unfolding tree_map_def remove [OF assms] inorder_node_tree entry_def
    by (intro map_of_remove_middle) simp_all
qed

lemma remove_spec:
  assumes "tree_ok t" "tree_map t k \<noteq> None"
  shows "\<exists>t'. tree_remove lib t k = Inr t' \<and> tree_ok t' \<and> tree_map t' = (tree_map t)(k := None)"
proof -
  have "tree_get t k \<noteq> None" using assms by (simp add: tree_get_map)
  then obtain n where n: "tree_get_node t k = Some n" by (auto simp: tree_get_def)
  then show ?thesis using tree_get_node_tree [OF n] remove_node_spec [of n] assms(1)
    by (auto simp: tree_remove_def tree_discard_def)
qed

lemma remove_missing: "tree_ok t \<Longrightarrow> tree_map t k = None \<Longrightarrow> tree_remove lib t k = Inl Assertion"
  using tree_get_map [of t] by (auto simp: tree_remove_def tree_discard_def tree_get_def dest: fun_cong [of _ _ k])

lemma pop_spec:
  assumes "tree_ok t"
  shows "case tree_pop lib t of (None, t') \<Rightarrow> t = Leaf \<and> t' = Leaf
    | (Some v, t') \<Rightarrow> \<exists>k. tree_map t k = Some v \<and> tree_ok t' \<and> tree_map t' = (tree_map t)(k := None)"
proof (cases t)
  case Leaf
  then show ?thesis by (simp add: tree_pop_def)
next
  case (Node l e r)
  then obtain n where n: "node_at [] t = Some n" "node_tree n = t" by (cases e) (simp add: node_tree_def)
  have "(nkey n, nval n) \<in> set (inorder t)" using n(2) inorder_node_tree [of n] by (simp add: entry_def)
  then have "tree_map t (nkey n) = Some (nval n)" using tree_ok_map_entry [OF assms] by blast
  then show ?thesis using n remove_node_spec [of n] assms by (auto simp: tree_pop_def)
qed

end

text \<open>The contract can hold: insertion at a leaf and removal by joining the subtrees, without balancing.
  A new node gets the value \<open>d\<close>.\<close>

fun leaf_insert :: "'v \<Rightarrow> ('k::linorder, 'v) link list \<Rightarrow> ('k, 'v) tree_t \<Rightarrow> 'k \<Rightarrow> ('k, 'v) node_t option" where
  "leaf_insert d p Leaf key = node_at p (Node Leaf (key, d) Leaf)"
| "leaf_insert d p (Node l (k, v) r) key =
     (if key = k then None
      else if key < k then leaf_insert d (Left_Of (k, v) r # p) l key
      else leaf_insert d (Right_Of l (k, v) # p) r key)"

fun join :: "('k, 'v) tree_t \<Rightarrow> ('k, 'v) tree_t \<Rightarrow> ('k, 'v) tree_t" where
  "join Leaf t = t"
| "join (Node l e r) t = Node l e (join r t)"

definition leaf_lib :: "'v \<Rightarrow> ('k::linorder, 'v) tree_lib" where
  "leaf_lib d = \<lparr>tree_try_insert_node = leaf_insert d [],
     tree_remove_node = (\<lambda>n. plug (links_parent n) (join (links_left n) (links_right n)))\<rparr>"

lemma inorder_join: "inorder (join l r) = inorder l @ inorder r"
  by (induction l r rule: join.induct) simp_all

lemma leaf_insert_none: "tree_ok t \<Longrightarrow> leaf_insert d p t k = None \<longleftrightarrow> (\<exists>e \<in> set (inorder t). fst e = k)"
proof (induction d p t k rule: leaf_insert.induct)
  case (2 d p l k v r key)
  note s = tree_ok_Node [OF 2(3)]
  have "\<not> (\<exists>e \<in> set (inorder l). fst e = key)" if "\<not> key < k" using s that by force
  moreover have "\<not> (\<exists>e \<in> set (inorder r). fst e = key)" if "\<not> k < key" using s that by force
  ultimately show ?case using 2(1,2) s by (cases "key < k"; cases "key = k") auto
qed simp

lemma leaf_insert_some:
  assumes "leaf_insert d p t k = Some n" "sorted_wrt (<) (map fst (path_before p @ inorder t @ path_after p))"
    and "below k (path_before p)" "above k (path_after p)"
  shows "nkey n = k \<and> path_before p @ inorder t @ path_after p = node_before n @ node_after n
    \<and> below k (node_before n) \<and> above k (node_after n)"
  using assms
proof (induction d p t k rule: leaf_insert.induct)
  case (1 d p key)
  then show ?case by (auto simp: node_before_def node_after_def)
next
  case (2 d p l k v r key)
  have s: "below k (inorder l)" "above k (inorder r)" using 2(4) by (auto simp: sorted_wrt_append)
  show ?case
  proof (cases "key < k")
    case True
    then have "above key (path_after (Left_Of (k, v) r # p))" using s 2(6) by force
    then show ?thesis using 2(1) True 2(3-5) by (auto split: if_splits)
  next
    case False
    then have "k < key" using 2(3) by (simp split: if_splits)
    then have "below key (path_before (Right_Of l (k, v) # p))" using s 2(5) by force
    then show ?thesis using 2(2) \<open>k < key\<close> 2(3,4,6) by (auto split: if_splits)
  qed
qed

lemma leaf_lib_contract: "tree_library (leaf_lib d :: ('k::linorder, 'v) tree_lib)"
proof
  fix t :: "('k, 'v) tree_t" and k
  assume ok: "tree_ok t"
  then show "tree_try_insert_node (leaf_lib d) t k = None \<longleftrightarrow> tree_map t k \<noteq> None"
    by (auto simp: leaf_lib_def leaf_insert_none tree_map_def map_of_eq_None_iff image_iff)
  fix n assume "tree_try_insert_node (leaf_lib d) t k = Some n"
  then have n: "nkey n = k \<and> inorder t = node_before n @ node_after n \<and> below k (node_before n) \<and> above k (node_after n)"
    using leaf_insert_some [of d "[]" t k n] ok by (simp add: leaf_lib_def tree_ok_def)
  moreover have "tree_ok (node_tree n)"
    using n ok by (auto simp: tree_ok_def inorder_node_tree entry_def sorted_wrt_append)
  ultimately show "nkey n = k \<and> inorder t = node_before n @ node_after n \<and> tree_ok (node_tree n)" by simp
next
  fix n :: "('k, 'v) node_t"
  show "inorder (tree_remove_node (leaf_lib d) n) = node_before n @ node_after n"
    by (simp add: leaf_lib_def inorder_join node_before_def node_after_def)
qed

interpretation leaf: tree_library "leaf_lib d" for d
  by (rule leaf_lib_contract)

section \<open>Properties\<close>

text \<open>C28: \<^verbatim>\<open>tree_get_le\<close> finds the value of the greatest key that is not above the given one, although
  \<^verbatim>\<open>tree_iter_prev\<close>, which it calls, takes the wrong subtree of a node with a left child
  (\<open>tree_iter_prev_wrong\<close>): the node it starts from never has one.\<close>

theorem tree_get_le_correct:
  assumes "tree_ok t"
  shows "tree_get_le t key = map_option snd (last_le (inorder t) key)"
  unfolding tree_get_node_le_spec [OF assms, symmetric] tree_get_le_def
  by (simp add: option.map_comp o_def entry_def)

text \<open>Witness: a key between two others.\<close>

theorem tree_get_le_correct_witness:
  "tree_ok (Node (Node Leaf (1 :: u32, CHR ''a'') Leaf) (5, CHR ''b'') Leaf) \<and>
   tree_get_le (Node (Node Leaf (1 :: u32, CHR ''a'') Leaf) (5, CHR ''b'') Leaf) 4 = Some (CHR ''a'')"
  using tree_get_le_correct [of "Node (Node Leaf (1 :: u32, CHR ''a'') Leaf) (5, CHR ''b'') Leaf" 4]
  by (simp add: tree_ok_def last_le_def)

lemma tree_iter_prev_wrong:
  "\<exists>n. tree_get_node (Node (Node Leaf (1 :: u32, ()) Leaf) (5, ()) (Node Leaf (7, ()) Leaf)) 5 = Some n
    \<and> map_option nkey (tree_iter_prev n) = Some 7"
  by (simp add: tree_get_node_def tree_iter_prev_def)

text \<open>\<^verbatim>\<open>TREE_ITER\<close> ends and its body runs once for every entry, in the order of the keys; \<^verbatim>\<open>tree_size\<close>
  counts them.\<close>

theorem tree_iter_correct:
  "map (\<lambda>n. (nkey n, nval n)) (tree_iter t) = inorder t \<and> tree_size t = of_nat (size t)"
proof
  show "map (\<lambda>n. (nkey n, nval n)) (tree_iter t) = inorder t"
    using tree_iter_entries [of t] by (simp add: entry_def [abs_def])
  have "length (tree_iter t) = size t" using arg_cong [OF tree_iter_entries [of t], of length] by simp
  then show "tree_size t = of_nat (size t)" by (simp add: tree_size_def)
qed

end
