(* ===== verification/Segment.thy ===== *)
theory Segment
  imports Asdd_Tree
begin

text \<open>
  The table of memory segments of a process and the look-ups in it, \<^verbatim>\<open>process/segment.c\<close> and
  \<^verbatim>\<open>process/segment.h\<close>. \<open>'w word\<close> is \<^verbatim>\<open>address_t\<close> (32 bits on ARM, 64 on ARM64); \<open>'i\<close> and \<open>'t\<close> stand for
  references to injections and tracepoints, which the look-ups do not inspect. A null file name is
  \<open>None\<close>.
\<close>

section \<open>Definitions\<close>

datatype segment_state_t = SEGMENT_STATE_NEW | SEGMENT_STATE_OLD | SEGMENT_STATE_DELETED

definition SEGMENT_READABLE :: u32 where "SEGMENT_READABLE = 1"
definition SEGMENT_WRITEABLE :: u32 where "SEGMENT_WRITEABLE = 2"
definition SEGMENT_EXECUTABLE :: u32 where "SEGMENT_EXECUTABLE = 4"
definition SEGMENT_SHARED :: u32 where "SEGMENT_SHARED = 8"

record ('a, 'i, 't) segment_t =
  start :: 'a
  seg_end :: 'a
  filename :: "string option"
  file_offset :: 'a
  flags :: u32
  state :: segment_state_t
  injection :: "'i option"
  tracepoints :: "('a, 't) tree_t"
  trampolines :: 'a
  trampolines_size :: 'a
  trampoline_stolen :: bool

type_synonym ('a, 'i, 't) segments = "('a, ('a, 'i, 't) segment_t) tree_t"

definition segment_is_executable :: "('a, 'i, 't) segment_t \<Rightarrow> bool" where
  "segment_is_executable s \<longleftrightarrow> flags s AND SEGMENT_EXECUTABLE \<noteq> 0"

definition segment_is_readable :: "('a, 'i, 't) segment_t \<Rightarrow> bool" where
  "segment_is_readable s \<longleftrightarrow> flags s AND SEGMENT_READABLE \<noteq> 0"

definition segment_is_writeable :: "('a, 'i, 't) segment_t \<Rightarrow> bool" where
  "segment_is_writeable s \<longleftrightarrow> flags s AND SEGMENT_WRITEABLE \<noteq> 0"

definition segment_is_shared :: "('a, 'i, 't) segment_t \<Rightarrow> bool" where
  "segment_is_shared s \<longleftrightarrow> flags s AND SEGMENT_SHARED \<noteq> 0"

definition segment_contains :: "('w::len word, 'i, 't) segment_t \<Rightarrow> 'w word \<Rightarrow> bool" where
  "segment_contains s address \<longleftrightarrow> address \<ge> start s \<and> address < seg_end s"

definition segment_get :: "('w::len word, 'i, 't) segments \<Rightarrow> 'w word \<Rightarrow> ('w word, 'i, 't) segment_t option" where
  "segment_get segs address =
     (case tree_get_le segs address of
        None \<Rightarrow> None
      | Some s \<Rightarrow> if address \<ge> seg_end s then None else Some s)"

definition segment_check_address_is_code :: "('w::len word, 'i, 't) segments \<Rightarrow> 'w word \<Rightarrow> bool" where
  "segment_check_address_is_code segs address =
     (case segment_get segs address of None \<Rightarrow> False | Some s \<Rightarrow> segment_is_executable s)"

definition segment_check_address :: "('w::len word, 'i, 't) segments \<Rightarrow> 'w word \<Rightarrow> bool" where
  "segment_check_address segs address \<longleftrightarrow> segment_get segs address \<noteq> None"

definition segment_fo2addr :: "('w::len word, 'i, 't) segment_t \<Rightarrow> 'w word \<Rightarrow> 'w word res" where
  "segment_fo2addr s off =
     adbi_assure (filename s \<noteq> None)
     (let result = start s + off - file_offset s
      in if result < start s \<or> result \<ge> seg_end s then Inr 0 else Inr result)"

definition segment_addr2fo :: "('w::len word, 'i, 't) segment_t \<Rightarrow> 'w word \<Rightarrow> 'w word res" where
  "segment_addr2fo s address =
     adbi_assure (segment_contains s address) (Inr (address - start s + file_offset s))"

definition segment_translate_mem_to_file ::
    "('w::len word, 'i, 't) segments \<Rightarrow> 'w word \<Rightarrow> (string \<times> 'w word) option res" where
  "segment_translate_mem_to_file segs address =
     (case segment_get segs address of
        None \<Rightarrow> Inr None
      | Some s \<Rightarrow>
          (case filename s of
             None \<Rightarrow> Inr None
           | Some f \<Rightarrow> res_bind (segment_addr2fo s address) (\<lambda>off. Inr (Some (f, off)))))"

definition segment_get_by_file_executable ::
    "('w::len word, 'i, 't) segments \<Rightarrow> string \<Rightarrow> ('w word, 'i, 't) segment_t option" where
  "segment_get_by_file_executable segs f =
     List.find (\<lambda>s. segment_is_executable s \<and> filename s = Some f) (tree_vals segs)"

text \<open>One round of the loop of \<^verbatim>\<open>segment_get_by_file\<close>: \<open>None\<close> is \<^verbatim>\<open>continue\<close>.\<close>

definition match_by_file :: "string \<Rightarrow> 'w::len word \<Rightarrow> ('w word, 'i, 't) segment_t \<Rightarrow> 'w word option" where
  "match_by_file f off s =
     (if filename s \<noteq> Some f then None
      else if off < file_offset s then None
      else let offset_in_segment = off - file_offset s;
               address = start s + offset_in_segment
           in if address \<ge> seg_end s then None else Some address)"

fun find_by_file :: "string \<Rightarrow> 'w::len word \<Rightarrow> ('w word, 'i, 't) segment_t list \<Rightarrow> (('w word, 'i, 't) segment_t \<times> 'w word) option" where
  "find_by_file f off [] = None"
| "find_by_file f off (s # ss) =
     (case match_by_file f off s of Some a \<Rightarrow> Some (s, a) | None \<Rightarrow> find_by_file f off ss)"

definition MAX_PATH :: nat where "MAX_PATH = 256"

definition segment_get_by_file ::
    "('w::len word, 'i, 't) segments \<Rightarrow> string \<Rightarrow> 'w word \<Rightarrow> (('w word, 'i, 't) segment_t \<times> 'w word) option res" where
  "segment_get_by_file segs f off =
     adbi_assure (length f < MAX_PATH) (Inr (find_by_file f off (tree_vals segs)))"

definition segment_translate_file_to_mem ::
    "('w::len word, 'i, 't) segments \<Rightarrow> string \<Rightarrow> 'w word \<Rightarrow> 'w word option res" where
  "segment_translate_file_to_mem segs f off =
     res_bind (segment_get_by_file segs f off) (\<lambda>r. Inr (map_option snd r))"

definition segment_equal :: "('w::len word, 'i, 't) segment_t \<Rightarrow> ('w word, 'i, 't) segment_t \<Rightarrow> bool" where
  "segment_equal a b =
     (if start a \<noteq> start b \<or> seg_end a \<noteq> seg_end b then False
      else if (filename a \<noteq> None) \<noteq> (filename b \<noteq> None) then False
      else if filename a \<noteq> None then file_offset a = file_offset b \<and> filename a = filename b
      else True)"

definition segment_get_by_trampoline ::
    "('w::len word, 'i, 't) segments \<Rightarrow> 'w word \<Rightarrow> ('w word, 'i, 't) segment_t option" where
  "segment_get_by_trampoline segs address =
     List.find (\<lambda>s. trampolines s \<noteq> 0 \<and>
        (let low = trampolines s; high = low + trampolines_size s in low \<le> address \<and> address < high)) (tree_vals segs)"

definition address_is_trampoline :: "('w::len word, 'i, 't) segments \<Rightarrow> 'w word \<Rightarrow> bool" where
  "address_is_trampoline segs address \<longleftrightarrow> segment_get_by_trampoline segs address \<noteq> None"

section \<open>The segment table\<close>

text \<open>What the kernel guarantees of \<^verbatim>\<open>/proc/pid/maps\<close> and the table keeps: a segment is stored under its
  start address, is not empty, and ends where the next one starts or before.\<close>

definition segments_ok :: "('w::len word, 'i, 't) segments \<Rightarrow> bool" where
  "segments_ok segs \<longleftrightarrow> tree_ok segs \<and> (\<forall>(k, s) \<in> set (inorder segs). k = start s \<and> start s < seg_end s)
     \<and> sorted_wrt (\<lambda>e e'. seg_end (snd e) \<le> start (snd e')) (inorder segs)"

text \<open>Of two segments, the one that starts first ends before the other starts.\<close>

lemma segments_ordered:
  assumes "segments_ok segs" "(k, s) \<in> set (inorder segs)" "(k', s') \<in> set (inorder segs)"
    and "s \<noteq> s'" "start s \<le> start s'"
  shows "seg_end s \<le> start s'"
proof -
  obtain i j where i: "i < length (inorder segs)" "inorder segs ! i = (k, s)"
    and j: "j < length (inorder segs)" "inorder segs ! j = (k', s')" using assms(2,3) by (meson in_set_conv_nth)
  have w: "sorted_wrt (\<lambda>e e'. seg_end (snd e) \<le> start (snd e')) (inorder segs)" and "start s' < seg_end s'"
    using assms(1,3) by (auto simp: segments_ok_def)
  then have "\<not> j < i" using sorted_wrt_nth_less [OF w, of j i] i j assms(5) by auto
  moreover have "i \<noteq> j" using i j assms(4) by auto
  ultimately show ?thesis using sorted_wrt_nth_less [OF w, of i j] i j by simp
qed

lemma last_le_Some:
  "last_le xs key = Some e \<Longrightarrow> e \<in> set xs \<and> fst e \<le> key"
  "last_le xs key = None \<Longrightarrow> e \<in> set xs \<Longrightarrow> key < fst e"
proof -
  assume "last_le xs key = Some e"
  then have "filter (\<lambda>e. fst e \<le> key) xs \<noteq> []" "e = last (filter (\<lambda>e. fst e \<le> key) xs)"
    by (auto simp: last_le_def split: list.splits)
  then have "e \<in> set (filter (\<lambda>e. fst e \<le> key) xs)" using last_in_set by metis
  then show "e \<in> set xs \<and> fst e \<le> key" by simp
next
  assume "last_le xs key = None" "e \<in> set xs"
  then show "key < fst e" by (auto simp: last_le_def filter_empty_conv split: list.splits)
qed

text \<open>The entry found is the last one that starts at the address or before.\<close>

lemma last_le_last:
  assumes "last_le xs key = Some e" "sorted_wrt (<) (map fst xs)" "e' \<in> set xs" "fst e' \<le> key"
  shows "fst e' \<le> fst e"
proof -
  let ?ys = "filter (\<lambda>e. fst e \<le> key) xs"
  have "?ys \<noteq> []" "e = last ?ys" using assms(1) by (auto simp: last_le_def split: list.splits)
  moreover have "sorted (map fst ?ys)"
    using assms(2) by (intro sorted_filter) (simp add: strict_sorted_imp_sorted)
  moreover have "e' \<in> set ?ys" using assms(3,4) by simp
  then obtain i where "i < length ?ys" "?ys ! i = e'" unfolding in_set_conv_nth by blast
  ultimately show ?thesis using sorted_nth_mono [of "map fst ?ys" i "length ?ys - 1"] by (simp add: last_conv_nth)
qed

lemma segment_get_last: "tree_ok segs \<Longrightarrow>
  segment_get segs a = (case last_le (inorder segs) a of None \<Rightarrow> None | Some (k, s) \<Rightarrow> if a \<ge> seg_end s then None else Some s)"
  using tree_get_node_le_spec [of segs a]
  by (cases "tree_get_node_le segs a") (simp_all add: segment_get_def tree_get_le_def entry_def flip: tree_get_node_le_spec)

lemma segment_get_iff:
  assumes "segments_ok segs"
  shows "segment_get segs a = Some s \<longleftrightarrow> s \<in> set (tree_vals segs) \<and> segment_contains s a"
proof -
  have ok: "tree_ok segs" and keys: "\<And>k s. (k, s) \<in> set (inorder segs) \<Longrightarrow> k = start s"
    using assms by (auto simp: segments_ok_def)
  have sorted: "sorted_wrt (<) (map fst (inorder segs))" using ok by (simp add: tree_ok_def)
  show ?thesis
  proof
    assume "segment_get segs a = Some s"
    then obtain k where k: "last_le (inorder segs) a = Some (k, s)" "a < seg_end s"
      using segment_get_last [OF ok] by (auto split: option.splits if_splits)
    then have "(k, s) \<in> set (inorder segs)" "k \<le> a" using last_le_Some(1) [OF k(1)] by auto
    then show "s \<in> set (tree_vals segs) \<and> segment_contains s a"
      using keys k(2) by (force simp: tree_vals_inorder segment_contains_def)
  next
    assume s: "s \<in> set (tree_vals segs) \<and> segment_contains s a"
    then obtain k where k: "(k, s) \<in> set (inorder segs)" by (auto simp: tree_vals_inorder)
    have a: "start s \<le> a" "a < seg_end s" using s by (auto simp: segment_contains_def)
    obtain k' s' where e: "last_le (inorder segs) a = Some (k', s')"
      using last_le_Some(2) [of "inorder segs" a "(k, s)"] k keys [OF k] a(1)
      by (cases "last_le (inorder segs) a") auto
    have e': "(k', s') \<in> set (inorder segs)" "k' \<le> a" using last_le_Some(1) [OF e] by auto
    have "start s \<le> start s'" using last_le_last [OF e sorted k] keys [OF k] keys [OF e'(1)] a(1) by auto
    then have "s' = s" using segments_ordered [OF assms k e'(1)] keys [OF e'(1)] e'(2) a(2) by fastforce
    then show "segment_get segs a = Some s" using segment_get_last [OF ok, of a] e a(2) by simp
  qed
qed

lemma find_by_file_Some:
  "find_by_file f off ss = Some (s, a) \<Longrightarrow> s \<in> set ss \<and> match_by_file f off s = Some a"
  by (induction ss) (auto split: option.splits)

lemma find_by_file_None: "find_by_file f off ss = None \<longleftrightarrow> (\<forall>s \<in> set ss. match_by_file f off s = None)"
  by (induction ss) (auto split: option.splits)

section \<open>Properties\<close>

text \<open>An example: a code segment and a data segment of one file, in a 32-bit process.\<close>

definition example_segment :: "u32 \<Rightarrow> u32 \<Rightarrow> u32 \<Rightarrow> u32 \<Rightarrow> (u32, unit, unit) segment_t" where
  "example_segment a b off fl = \<lparr>start = a, seg_end = b, filename = Some ''/bin/x'', file_offset = off, flags = fl,
     state = SEGMENT_STATE_OLD, injection = None, tracepoints = Leaf, trampolines = 0, trampolines_size = 0,
     trampoline_stolen = False\<rparr>"

definition example_segments :: "(u32, unit, unit) segments" where
  "example_segments = Node (Node Leaf (0x8000, example_segment 0x8000 0x9000 0 5) Leaf)
     (0xa000, example_segment 0xa000 0xb000 0x1000 3) Leaf"

lemma example_segments_ok: "segments_ok example_segments"
  by (simp add: segments_ok_def tree_ok_def example_segments_def example_segment_def)

text \<open>\<^verbatim>\<open>segment_get\<close> returns a segment exactly when the segment is in the table and contains the address, so it
  finds the one segment the address is in, whatever shape the search tree has.\<close>

theorem segment_get_correct:
  assumes "segments_ok segs"
  shows "segment_get segs a = Some s \<longleftrightarrow> s \<in> set (tree_vals segs) \<and> segment_contains s a"
  by (rule segment_get_iff [OF assms])

text \<open>Witness: an address in the first of two segments.\<close>

theorem segment_get_correct_witness:
  "segments_ok example_segments \<and> segment_get example_segments 0x8ffe = Some (example_segment 0x8000 0x9000 0 5)"
proof -
  have "example_segment 0x8000 0x9000 0 5 \<in> set (tree_vals example_segments)"
    by (simp add: tree_vals_inorder example_segments_def)
  moreover have "segment_contains (example_segment 0x8000 0x9000 0 5) 0x8ffe"
    by (simp add: segment_contains_def example_segment_def)
  ultimately show ?thesis using segment_get_correct [OF example_segments_ok] example_segments_ok by blast
qed

text \<open>within a segment of a file, \<^verbatim>\<open>segment_fo2addr\<close> and \<^verbatim>\<open>segment_addr2fo\<close> are inverse to each other: a
  non-zero address computed from a file offset is in the segment and has that offset, and an address
  of the segment (other than 0, the value that says \<^verbatim>\<open>outside\<close>) is computed from its own offset.\<close>

theorem segment_offset_roundtrip:
  fixes s :: "('w::len word, 'i, 't) segment_t"
  assumes "filename s \<noteq> None"
  shows "(segment_fo2addr s off = Inr a \<and> a \<noteq> 0 \<longrightarrow> segment_contains s a \<and> segment_addr2fo s a = Inr off)
    \<and> (segment_contains s a \<longrightarrow> (\<exists>off. segment_addr2fo s a = Inr off \<and> segment_fo2addr s off = Inr a))"
  using assms by (auto simp: segment_fo2addr_def segment_addr2fo_def segment_contains_def Let_def split: if_splits)

text \<open>Witness: offset \<open>0x1234\<close> of the data segment.\<close>

theorem segment_offset_roundtrip_witness:
  "segment_fo2addr (example_segment 0xa000 0xb000 0x1000 3) 0x1234 = Inr 0xa234 \<and>
   segment_addr2fo (example_segment 0xa000 0xb000 0x1000 3) 0xa234 = Inr 0x1234"
proof -
  have "segment_fo2addr (example_segment 0xa000 0xb000 0x1000 3) 0x1234 = Inr 0xa234"
    by (simp add: segment_fo2addr_def example_segment_def)
  moreover have "filename (example_segment 0xa000 0xb000 0x1000 3) \<noteq> None" by (simp add: example_segment_def)
  ultimately show ?thesis
    using segment_offset_roundtrip [of "example_segment 0xa000 0xb000 0x1000 3" "0x1234" "0xa234"] by simp
qed

text \<open>translation of a file position to memory and back. The address found for a position in a file is
  translated back to that position exactly when it is not before the start of the segment it was
  found in. The code does not check this: where \<^verbatim>\<open>start + offset\<close> wraps around, the address
  returned is outside the segment.\<close>

theorem translate_file_roundtrip:
  fixes segs :: "('w::len word, 'i, 't) segments"
  assumes "segments_ok segs" "segment_get_by_file segs f off = Inr (Some (s, a))"
  shows "segment_translate_file_to_mem segs f off = Inr (Some a)
    \<and> (start s \<le> a \<longleftrightarrow> unat (start s) + unat (off - file_offset s) < 2 ^ LENGTH('w))
    \<and> (start s \<le> a \<longrightarrow> segment_translate_mem_to_file segs a = Inr (Some (f, off)))"
proof (intro conjI impI)
  have m: "s \<in> set (tree_vals segs)" "match_by_file f off s = Some a"
    using assms(2) find_by_file_Some [of f off "tree_vals segs" s a] by (simp_all add: segment_get_by_file_def)
  then have a: "filename s = Some f" "a = start s + (off - file_offset s)" "a < seg_end s"
    by (auto simp: match_by_file_def Let_def split: if_splits)
  show "segment_translate_file_to_mem segs f off = Inr (Some a)"
    using assms(2) by (simp add: segment_translate_file_to_mem_def)
  show "start s \<le> a \<longleftrightarrow> unat (start s) + unat (off - file_offset s) < 2 ^ LENGTH('w)"
    unfolding a(2) using no_olen_add_nat by blast
  assume "start s \<le> a"
  then have "segment_get segs a = Some s" "segment_contains s a"
    using m(1) a(3) segment_get_iff [OF assms(1)] by (auto simp: segment_contains_def)
  then show "segment_translate_mem_to_file segs a = Inr (Some (f, off))"
    using a(1,2) by (simp add: segment_translate_mem_to_file_def segment_addr2fo_def)
qed

text \<open>Witness: the same offset, through the table of segments.\<close>

theorem translate_file_roundtrip_witness:
  "segment_translate_file_to_mem example_segments ''/bin/x'' 0x1234 = Inr (Some 0xa234) \<and>
   segment_translate_mem_to_file example_segments 0xa234 = Inr (Some (''/bin/x'', 0x1234))"
proof -
  have "segment_get_by_file example_segments ''/bin/x'' 0x1234 = Inr (Some (example_segment 0xa000 0xb000 0x1000 3, 0xa234))"
    by (simp add: segment_get_by_file_def tree_vals_inorder example_segments_def match_by_file_def example_segment_def MAX_PATH_def)
  then show ?thesis using translate_file_roundtrip [OF example_segments_ok] by (simp add: example_segment_def)
qed

text \<open>An offset for which the sum wraps: the address returned is in no segment.\<close>

lemma translate_wraps:
  "segment_translate_file_to_mem example_segments ''/bin/x'' 0xffffe000 = Inr (Some 0x6000)
   \<and> segment_get example_segments 0x6000 = None"
proof
  show "segment_translate_file_to_mem example_segments ''/bin/x'' 0xffffe000 = Inr (Some 0x6000)"
    by (simp add: segment_translate_file_to_mem_def segment_get_by_file_def tree_vals_inorder example_segments_def
        match_by_file_def example_segment_def MAX_PATH_def)
  show "segment_get example_segments 0x6000 = None"
    by (simp add: segment_get_def tree_get_le_def tree_get_node_le_def tree_get_close_node_def tree_iter_prev_def
        example_segments_def)
qed

end
