(* ===== verification/Digits.thy ===== *)
theory Digits
  imports Adbi_Prelude
begin

text \<open>
  Numbers as strings of digits: the reference against which the parsers and the printers of the code are
  stated.
\<close>

definition hex_char :: "nat \<Rightarrow> char" where
  "hex_char d = ''0123456789abcdef'' ! d"

function show_base :: "nat \<Rightarrow> nat \<Rightarrow> string" where
  "show_base b n = (if b < 2 \<or> n < b then [hex_char n] else show_base b (n div b) @ [hex_char (n mod b)])"
  by pat_completeness auto
termination
  by (relation "measure snd") auto

declare show_base.simps [simp del]

abbreviation show_oct :: "nat \<Rightarrow> string" where "show_oct \<equiv> show_base 8"
abbreviation show_dec :: "nat \<Rightarrow> string" where "show_dec \<equiv> show_base 10"
abbreviation show_hex :: "nat \<Rightarrow> string" where "show_hex \<equiv> show_base 16"

definition digit_value :: "char \<Rightarrow> nat" where
  "digit_value c = (let n = of_char c
     in if n \<le> 57 then n - 48 else if n \<le> 70 then n - 55 else n - 87)"

definition base_value :: "nat \<Rightarrow> string \<Rightarrow> nat" where
  "base_value b ds = foldl (\<lambda>n c. b * n + digit_value c) 0 ds"

lemma show_base_digit: "n < b \<Longrightarrow> show_base b n = [hex_char n]"
  by (simp add: show_base.simps)

lemma show_base_step: "2 \<le> b \<Longrightarrow> b \<le> n \<Longrightarrow> show_base b n = show_base b (n div b) @ [hex_char (n mod b)]"
  by (subst show_base.simps) simp

lemma show_base_not_Nil [simp]: "show_base b n \<noteq> []"
  by (subst show_base.simps) simp

lemma digit_values: "list_all (\<lambda>d. digit_value (hex_char d) = d) [0..<16]"
  by code_simp

lemma digit_value_hex_char: "d < 16 \<Longrightarrow> digit_value (hex_char d) = d"
  using digit_values by (simp add: list_all_iff)

lemma base_value_snoc: "base_value b (ds @ [c]) = b * base_value b ds + digit_value c"
  by (simp add: base_value_def)

text \<open>Reading the digits gives the number back, so different numbers have different digits.\<close>

lemma base_value_show:
  assumes "2 \<le> b" "b \<le> 16"
  shows "base_value b (show_base b n) = n"
proof (induction n rule: less_induct)
  case (less n)
  show ?case
  proof (cases "n < b")
    case True
    then show ?thesis using assms by (simp add: show_base_digit base_value_def digit_value_hex_char)
  next
    case False
    then have "n div b < n" "n mod b < 16" using assms by (auto intro: order.strict_trans2 [of _ b])
    then show ?thesis using False assms less.IH [of "n div b"]
      by (simp add: show_base_step base_value_snoc digit_value_hex_char)
  qed
qed

lemma show_base_chars:
  assumes "2 \<le> b" "\<And>d. d < b \<Longrightarrow> P (hex_char d)"
  shows "list_all P (show_base b n)"
proof (induction n rule: less_induct)
  case (less n)
  show ?case
  proof (cases "n < b")
    case True
    then show ?thesis using assms(2) by (simp add: show_base_digit)
  next
    case False
    then show ?thesis using assms less.IH [of "n div b"] by (simp add: show_base_step)
  qed
qed

text \<open>The number of digits.\<close>

lemma show_base_length:
  assumes "2 \<le> b" "n < b ^ k" "0 < k"
  shows "length (show_base b n) \<le> k"
  using assms(2,3)
proof (induction k arbitrary: n)
  case (Suc k)
  show ?case
  proof (cases "n < b")
    case True
    then show ?thesis by (simp add: show_base_digit)
  next
    case False
    then have "0 < k" using Suc.prems by (cases k) auto
    moreover have "n div b < b ^ k" using Suc.prems(1) by (simp add: less_mult_imp_div_less mult.commute)
    ultimately show ?thesis using Suc.IH False assms(1) by (simp add: show_base_step)
  qed
qed simp

end
