(* ===== verification/Procfs_Maps.thy ===== *)
theory Procfs_Maps
  imports Segment Digits
begin

text \<open>
  The parser of \<^verbatim>\<open>/proc/pid/maps\<close>, \<^verbatim>\<open>procutil/procfs_maps.c\<close>, and the loop over the lines of the file in
  \<^verbatim>\<open>procfs_iter_segments\<close> of \<^verbatim>\<open>procutil/procfs.c\<close>. A pointer into the line is the rest of the line; the
  terminating zero is its end, and a pointer beyond it is a fault.
\<close>

section \<open>Definitions\<close>

subsection \<open>Characters and numbers of the C library\<close>

definition is_digit :: "char \<Rightarrow> bool" where
  "is_digit c \<longleftrightarrow> c \<in> set ''0123456789''"

definition is_xdigit :: "char \<Rightarrow> bool" where
  "is_xdigit c \<longleftrightarrow> c \<in> set ''0123456789abcdefABCDEF''"

definition is_space :: "char \<Rightarrow> bool" where
  "is_space c \<longleftrightarrow> c \<in> {CHR 0x20, CHR 0x09, CHR 0x0a, CHR 0x0b, CHR 0x0c, CHR 0x0d}"

abbreviation hex_value :: "string \<Rightarrow> nat" where
  "hex_value \<equiv> base_value 16"

definition LLONG_MAX :: int where "LLONG_MAX = 2 ^ 63 - 1"

text \<open>\<^verbatim>\<open>strtoll\<close> with base 16: blanks, a sign, an optional prefix, digits; too large values are saturated.\<close>

definition strtoll_sign :: "string \<Rightarrow> bool \<times> string" where
  "strtoll_sign s =
     (case s of [] \<Rightarrow> (False, s)
      | c # cs \<Rightarrow> if c = CHR ''-'' then (True, cs) else if c = CHR ''+'' then (False, cs) else (False, s))"

definition strtoll_prefix :: "string \<Rightarrow> string" where
  "strtoll_prefix s =
     (if 2 < length s \<and> s ! 0 = CHR ''0'' \<and> s ! 1 \<in> set ''xX'' \<and> is_xdigit (s ! 2) then drop 2 s else s)"

definition strtoll_hex :: "string \<Rightarrow> int \<times> string" where
  "strtoll_hex s =
     (let (neg, s2) = strtoll_sign (dropWhile is_space s);
          s3 = strtoll_prefix s2;
          ds = takeWhile is_xdigit s3;
          v = int (hex_value ds)
      in if ds = [] then (0, s)
         else (if neg then max (- LLONG_MAX - 1) (- v) else min LLONG_MAX v, dropWhile is_xdigit s3))"

subsection \<open>The format check\<close>

text \<open>\<open>None\<close> is the jump to the label \<^verbatim>\<open>no\<close>.\<close>

definition check_char :: "(char \<Rightarrow> bool) \<Rightarrow> string \<Rightarrow> string option" where
  "check_char p s = (case s of [] \<Rightarrow> None | c # cs \<Rightarrow> if p c then Some cs else None)"

definition check_dec :: "string \<Rightarrow> string option" where
  "check_dec s = map_option (dropWhile is_digit) (check_char is_digit s)"

fun check_hex2 :: "nat \<Rightarrow> string \<Rightarrow> string option" where
  "check_hex2 0 s = Some (dropWhile is_xdigit s)"
| "check_hex2 (Suc n) s = Option.bind (check_char is_xdigit s) (check_hex2 n)"

fun check_all :: "(string \<Rightarrow> string option) list \<Rightarrow> string \<Rightarrow> string option" where
  "check_all [] s = Some s"
| "check_all (f # fs) s = Option.bind (f s) (check_all fs)"

definition maps_format :: "(string \<Rightarrow> string option) list" where
  "maps_format =
     [check_hex2 0, check_char (\<lambda>c. c = CHR ''-''), check_hex2 0,
      check_char (\<lambda>c. c = CHR '' ''),
      check_char (\<lambda>c. c = CHR ''-'' \<or> c = CHR ''r''), check_char (\<lambda>c. c = CHR ''-'' \<or> c = CHR ''w''),
      check_char (\<lambda>c. c = CHR ''-'' \<or> c = CHR ''x''), check_char (\<lambda>c. c = CHR ''p'' \<or> c = CHR ''s''),
      check_char (\<lambda>c. c = CHR '' ''), check_hex2 8,
      check_char (\<lambda>c. c = CHR '' ''), check_hex2 2, check_char (\<lambda>c. c = CHR '':''), check_hex2 2,
      check_char (\<lambda>c. c = CHR '' ''), check_dec]"

text \<open>The new value of the static variable \<^verbatim>\<open>maps_verified\<close>; \<open>None\<close> is the call of \<^verbatim>\<open>exit\<close>.\<close>

definition procfs_maps_format_check :: "bool \<Rightarrow> string \<Rightarrow> bool option" where
  "procfs_maps_format_check maps_verified line =
     (if maps_verified then Some True
      else if check_all maps_format line \<noteq> None then Some True else None)"

subsection \<open>The parser\<close>

definition advance :: "nat \<Rightarrow> string \<Rightarrow> string res" where
  "advance n s = (if n \<le> length s then Inr (drop n s) else Inl Out_Of_Bounds)"

definition char_at :: "string \<Rightarrow> nat \<Rightarrow> char res" where
  "char_at s i = (if i < length s then Inr (s ! i) else if i = length s then Inr (CHR 0x00) else Inl Out_Of_Bounds)"

fun skip_to_space :: "string \<Rightarrow> string res" where
  "skip_to_space [] = Inl Out_Of_Bounds"
| "skip_to_space (c # cs) = (if c = CHR '' '' then Inr (c # cs) else skip_to_space cs)"

definition parse_flags :: "string \<Rightarrow> u32 res" where
  "parse_flags buf =
     res_bind (char_at buf 1) (\<lambda>r. res_bind (char_at buf 2) (\<lambda>w. res_bind (char_at buf 3) (\<lambda>x. res_bind (char_at buf 4) (\<lambda>s.
       Inr ((if r = CHR ''r'' then SEGMENT_READABLE else 0) OR (if w = CHR ''w'' then SEGMENT_WRITEABLE else 0)
         OR (if x = CHR ''x'' then SEGMENT_EXECUTABLE else 0) OR (if s = CHR ''s'' then SEGMENT_SHARED else 0))))))"

text \<open>\<open>None\<close>: the segment was freed, because the line has no end.\<close>

definition parse_filename :: "string \<Rightarrow> string option option res" where
  "parse_filename buf =
     (case buf of
        [] \<Rightarrow> Inr None
      | c # cs \<Rightarrow>
          if c = CHR 0x0a then Inr (Some None)
          else if CHR 0x0a \<in> set buf then Inr (Some (Some (takeWhile (\<lambda>c. c \<noteq> CHR 0x0a) buf)))
          else Inl Out_Of_Bounds)"

definition procfs_maps_parse_segment :: "string \<Rightarrow> ('w::len word, 'i, 't) segment_t option res" where
  "procfs_maps_parse_segment buf0 =
     (let (a, buf1) = strtoll_hex buf0 in
      res_bind (advance 1 buf1) (\<lambda>buf2.
      let (b, buf3) = strtoll_hex buf2 in
      res_bind (parse_flags buf3) (\<lambda>fl.
      res_bind (advance 6 buf3) (\<lambda>buf4.
      let (off, buf5) = strtoll_hex buf4 in
      res_bind (advance 1 buf5) (\<lambda>buf6.
      res_bind (skip_to_space buf6) (\<lambda>buf7.
      res_bind (advance 1 buf7) (\<lambda>buf8.
      res_bind (parse_filename (dropWhile (\<lambda>c. c = CHR '' '') (dropWhile is_digit buf8))) (\<lambda>name.
      Inr (map_option (\<lambda>f. \<lparr>start = word_of_int a, seg_end = word_of_int b, filename = f, file_offset = word_of_int off,
          flags = fl, state = SEGMENT_STATE_NEW, injection = None, tracepoints = Leaf,
          trampolines = 0, trampolines_size = 0, trampoline_stolen = False\<rparr>) name)))))))))"

text \<open>
  The segments that are passed to the callback. The segment is on the stack of \<^verbatim>\<open>procfs_iter_segments\<close>, so that
  freeing it is a fault.
\<close>

fun procfs_iter_lines :: "bool \<Rightarrow> string list \<Rightarrow> ('w::len word, 'i, 't) segment_t list res" where
  "procfs_iter_lines verified [] = Inr []"
| "procfs_iter_lines verified (line # lines) =
     (if line = [] \<or> hd line = CHR 0x0a then procfs_iter_lines verified lines
      else case procfs_maps_format_check verified line of
        None \<Rightarrow> Inl Assertion
      | Some v \<Rightarrow>
          res_bind (procfs_maps_parse_segment line) (\<lambda>seg.
          case seg of
            None \<Rightarrow> Inl Out_Of_Bounds
          | Some s \<Rightarrow>
              res_bind (procfs_iter_lines v lines) (\<lambda>rest.
              Inr (if start s = seg_end s then rest else s # rest))))"

section \<open>Lines as the kernel prints them\<close>

definition pad_hex :: "nat \<Rightarrow> nat \<Rightarrow> string" where
  "pad_hex w n = replicate (w - length (show_hex n)) (CHR ''0'') @ show_hex n"

text \<open>A line of \<^verbatim>\<open>/proc/pid/maps\<close> (\<^verbatim>\<open>proc(5)\<close>): address range, permissions, offset, device, inode, and after some
  blanks the name of the file, if there is one.\<close>

record maps_entry =
  m_start :: nat
  m_end :: nat
  m_readable :: bool
  m_writeable :: bool
  m_executable :: bool
  m_shared :: bool
  m_offset :: nat
  m_major :: nat
  m_minor :: nat
  m_inode :: nat
  m_blanks :: nat
  m_name :: "string option"

definition show_perms :: "maps_entry \<Rightarrow> string" where
  "show_perms e = [if m_readable e then CHR ''r'' else CHR ''-'', if m_writeable e then CHR ''w'' else CHR ''-'',
     if m_executable e then CHR ''x'' else CHR ''-'', if m_shared e then CHR ''s'' else CHR ''p'']"

definition show_tail :: "maps_entry \<Rightarrow> string" where
  "show_tail e = replicate (m_blanks e) (CHR '' '') @ (case m_name e of None \<Rightarrow> [] | Some f \<Rightarrow> f) @ [CHR 0x0a]"

definition show_maps :: "maps_entry \<Rightarrow> string" where
  "show_maps e =
     pad_hex 8 (m_start e) @ CHR ''-'' # pad_hex 8 (m_end e) @ CHR '' '' # show_perms e @ CHR '' '' # pad_hex 8 (m_offset e)
     @ CHR '' '' # pad_hex 2 (m_major e) @ CHR '':'' # pad_hex 2 (m_minor e) @ CHR '' '' # show_dec (m_inode e) @ show_tail e"

text \<open>Addresses fit into \<^verbatim>\<open>long long\<close>, a file name is not empty, does not start with a blank or a digit that could
  continue the inode number, and has no line break.\<close>

definition maps_entry_ok :: "maps_entry \<Rightarrow> bool" where
  "maps_entry_ok e \<longleftrightarrow> m_start e < 2 ^ 63 \<and> m_end e < 2 ^ 63 \<and> m_offset e < 2 ^ 63
     \<and> (case m_name e of None \<Rightarrow> True
        | Some f \<Rightarrow> 0 < m_blanks e \<and> f \<noteq> [] \<and> hd f \<noteq> CHR '' '' \<and> CHR 0x0a \<notin> set f)"

lemma hex_chars:
  "list_all (\<lambda>d. is_xdigit (hex_char d)) [0..<16]"
  "list_all (\<lambda>d. is_digit (hex_char d)) [0..<10]"
  by code_simp+

lemma show_hex_digits: "list_all is_xdigit (show_hex n)"
  using hex_chars(1) by (intro show_base_chars) (simp_all add: list_all_iff)

lemma show_dec_digits: "list_all is_digit (show_dec n)"
  using hex_chars(2) by (intro show_base_chars) (simp_all add: list_all_iff)

lemma hex_value_zeros: "hex_value (replicate k (CHR ''0'') @ ds) = hex_value ds"
proof -
  have "foldl (\<lambda>n c. 16 * n + digit_value c) 0 (replicate k (CHR ''0'')) = 0"
    by (induction k) (simp_all add: digit_value_def)
  then show ?thesis by (simp add: base_value_def)
qed

lemma pad_hex_digits: "pad_hex w n \<noteq> []" "list_all is_xdigit (pad_hex w n)" "hex_value (pad_hex w n) = n" "w \<le> length (pad_hex w n)"
proof -
  have "is_xdigit (CHR ''0'')" by (simp add: is_xdigit_def)
  then show "pad_hex w n \<noteq> []" "list_all is_xdigit (pad_hex w n)" "hex_value (pad_hex w n) = n" "w \<le> length (pad_hex w n)"
    using show_hex_digits [of n] by (auto simp: pad_hex_def hex_value_zeros base_value_show list_all_iff)
qed

section \<open>Reading back a printed line\<close>

lemma span_all: "list_all P ds \<Longrightarrow> \<not> P c \<Longrightarrow> takeWhile P (ds @ c # r) = ds \<and> dropWhile P (ds @ c # r) = c # r"
  by (induction ds) auto

lemma xdigit_plain: "is_xdigit c \<Longrightarrow> \<not> is_space c \<and> c \<noteq> CHR ''-'' \<and> c \<noteq> CHR ''+'' \<and> c \<notin> set ''xX''"
  by (auto simp: is_xdigit_def is_space_def)

lemma strtoll_pad_hex:
  assumes "n < 2 ^ 63" "\<not> is_xdigit c" "c \<notin> set ''xX''"
  shows "strtoll_hex (pad_hex w n @ c # r) = (int n, c # r)"
proof -
  obtain d ds where p: "pad_hex w n = d # ds" using pad_hex_digits(1) [of w n] by (cases "pad_hex w n") auto
  have x: "is_xdigit d" "list_all is_xdigit ds" using pad_hex_digits(2) [of w n] p by simp_all
  have "strtoll_sign (dropWhile is_space (d # ds @ c # r)) = (False, d # ds @ c # r)"
    using xdigit_plain [OF x(1)] by (simp add: strtoll_sign_def)
  moreover have "(ds @ c # r) ! 0 \<notin> set ''xX''" using x(2) assms(3) xdigit_plain by (cases ds) auto
  then have "strtoll_prefix (d # ds @ c # r) = d # ds @ c # r" by (simp add: strtoll_prefix_def)
  moreover have "takeWhile is_xdigit (d # ds @ c # r) = d # ds \<and> dropWhile is_xdigit (d # ds @ c # r) = c # r"
    using span_all [of is_xdigit "d # ds" c r] x assms(2) by simp
  moreover have "hex_value (d # ds) = n" using pad_hex_digits(3) [of w n] p by simp
  ultimately show ?thesis using assms(1) p by (simp add: strtoll_hex_def LLONG_MAX_def)
qed

lemma check_hex2_digits:
  "list_all is_xdigit ds \<Longrightarrow> n \<le> length ds \<Longrightarrow> \<not> is_xdigit c \<Longrightarrow> check_hex2 n (ds @ c # r) = Some (c # r)"
proof (induction n arbitrary: ds)
  case 0
  then show ?case using span_all [of is_xdigit ds c r] by simp
next
  case (Suc n)
  then show ?case by (cases ds) (auto simp: check_char_def)
qed

lemma check_dec_digits: "check_dec (show_dec n @ r) = Some (dropWhile is_digit r)"
proof -
  obtain d ds where "show_dec n = d # ds" "is_digit d" "list_all is_digit ds"
    using show_dec_digits [of n] show_base_not_Nil [of 10 n] by (cases "show_dec n") auto
  then show ?thesis by (simp add: check_dec_def check_char_def list_all_iff)
qed

lemma separators [simp]:
  "\<not> is_xdigit (CHR ''-'')" "\<not> is_xdigit (CHR '' '')" "\<not> is_xdigit (CHR '':'')" "\<not> is_xdigit (CHR 0x0a)"
  "\<not> is_digit (CHR '' '')" "\<not> is_digit (CHR 0x0a)"
  by (simp_all add: is_xdigit_def is_digit_def)

lemmas check_pad_hex = check_hex2_digits [OF pad_hex_digits(2)]

lemma check_all_append: "check_all (fs @ gs) s = Option.bind (check_all fs s) (check_all gs)"
  by (induction fs arbitrary: s) (simp_all split: bind_split)

lemma check_hex_field: "\<not> is_xdigit c \<Longrightarrow> check_all [check_hex2 0, check_char (\<lambda>x. x = c)] (pad_hex w n @ c # r) = Some r"
  using check_pad_hex [of 0 w n c r] by (simp add: check_char_def del: check_hex2.simps)

lemma check_hexn_field:
  "\<not> is_xdigit c \<Longrightarrow> check_all [check_hex2 w, check_char (\<lambda>x. x = c)] (pad_hex w n @ c # r) = Some r"
  using check_pad_hex [of w w n c r] pad_hex_digits(4) [of w n] by (simp add: check_char_def del: check_hex2.simps)

lemma check_perms_field:
  "check_all [check_char (\<lambda>c. c = CHR ''-'' \<or> c = CHR ''r''), check_char (\<lambda>c. c = CHR ''-'' \<or> c = CHR ''w''),
      check_char (\<lambda>c. c = CHR ''-'' \<or> c = CHR ''x''), check_char (\<lambda>c. c = CHR ''p'' \<or> c = CHR ''s''),
      check_char (\<lambda>c. c = CHR '' '')] (show_perms e @ CHR '' '' # r) = Some r"
  by (simp add: show_perms_def check_char_def)

lemma maps_format_fields:
  "maps_format = [check_hex2 0, check_char (\<lambda>c. c = CHR ''-'')] @ [check_hex2 0, check_char (\<lambda>c. c = CHR '' '')]
     @ [check_char (\<lambda>c. c = CHR ''-'' \<or> c = CHR ''r''), check_char (\<lambda>c. c = CHR ''-'' \<or> c = CHR ''w''),
        check_char (\<lambda>c. c = CHR ''-'' \<or> c = CHR ''x''), check_char (\<lambda>c. c = CHR ''p'' \<or> c = CHR ''s''),
        check_char (\<lambda>c. c = CHR '' '')]
     @ [check_hex2 8, check_char (\<lambda>c. c = CHR '' '')] @ [check_hex2 2, check_char (\<lambda>c. c = CHR '':'')]
     @ [check_hex2 2, check_char (\<lambda>c. c = CHR '' '')] @ [check_dec]"
  by (simp add: maps_format_def)

lemma show_maps_format: "check_all maps_format (show_maps e) \<noteq> None"
  unfolding maps_format_fields show_maps_def check_all_append
  by (simp only: check_hex_field check_hexn_field check_perms_field separators not_False_eq_True bind.bind_lunit)
    (simp add: check_dec_digits)

lemma skip_device: "list_all (\<lambda>c. c \<noteq> CHR '' '') ds \<Longrightarrow> skip_to_space (ds @ CHR '' '' # r) = Inr (CHR '' '' # r)"
  by (induction ds) auto

lemma pad_hex_no_space: "list_all (\<lambda>c. c \<noteq> CHR '' '') (pad_hex w n)"
  by (rule list.pred_mono_strong [OF pad_hex_digits(2)]) (use separators(2) in blast)

lemma drop_inode: "maps_entry_ok e \<Longrightarrow>
  dropWhile (\<lambda>c. c = CHR '' '') (dropWhile is_digit (show_dec n @ show_tail e)) =
    (case m_name e of None \<Rightarrow> [] | Some f \<Rightarrow> f) @ [CHR 0x0a]"
proof -
  assume ok: "maps_entry_ok e"
  have "dropWhile is_digit (show_dec n @ show_tail e) = dropWhile is_digit (show_tail e)"
    using show_dec_digits [of n] by (simp add: list_all_iff)
  also have "\<dots> = show_tail e"
    using ok by (cases "m_blanks e"; cases "m_name e") (simp_all add: show_tail_def maps_entry_ok_def)
  finally have "dropWhile (\<lambda>c. c = CHR '' '') (dropWhile is_digit (show_dec n @ show_tail e)) = dropWhile (\<lambda>c. c = CHR '' '') (show_tail e)"
    by simp
  moreover have "dropWhile (\<lambda>c. c = CHR '' '') (replicate k (CHR '' '') @ r) = dropWhile (\<lambda>c. c = CHR '' '') r" for k r
    by (induction k) simp_all
  ultimately show ?thesis using ok by (cases "m_name e") (auto simp: show_tail_def maps_entry_ok_def neq_Nil_conv)
qed

lemma parse_tail: "maps_entry_ok e \<Longrightarrow>
  parse_filename ((case m_name e of None \<Rightarrow> [] | Some f \<Rightarrow> f) @ [CHR 0x0a]) = Inr (Some (m_name e))"
  by (cases "m_name e") (auto simp: parse_filename_def maps_entry_ok_def neq_Nil_conv takeWhile_append)

lemma parse_show_perms:
  "parse_flags (CHR '' '' # show_perms e @ r) = Inr ((if m_readable e then SEGMENT_READABLE else 0)
     OR (if m_writeable e then SEGMENT_WRITEABLE else 0) OR (if m_executable e then SEGMENT_EXECUTABLE else 0)
     OR (if m_shared e then SEGMENT_SHARED else 0))"
  by (simp add: parse_flags_def char_at_def show_perms_def)

lemma skip_printed_device:
  "skip_to_space (pad_hex 2 a @ CHR '':'' # pad_hex 2 b @ CHR '' '' # r) = Inr (CHR '' '' # r)"
proof -
  have "list_all (\<lambda>c. c \<noteq> CHR '' '') (pad_hex 2 a @ CHR '':'' # pad_hex 2 b)"
    using pad_hex_no_space [of 2 a] pad_hex_no_space [of 2 b] by simp
  then show ?thesis using skip_device [of "pad_hex 2 a @ CHR '':'' # pad_hex 2 b" r] by simp
qed

lemma advance_Cons: "advance (Suc 0) (c # s) = Inr s"
  by (simp add: advance_def)

lemma advance_perms: "advance 6 (CHR '' '' # show_perms e @ CHR '' '' # r) = Inr r"
  by (simp add: advance_def show_perms_def)

definition entry_segment :: "maps_entry \<Rightarrow> ('w::len word, 'i, 't) segment_t" where
  "entry_segment e =
     \<lparr>start = word_of_nat (m_start e), seg_end = word_of_nat (m_end e), filename = m_name e,
      file_offset = word_of_nat (m_offset e),
      flags = (if m_readable e then SEGMENT_READABLE else 0) OR (if m_writeable e then SEGMENT_WRITEABLE else 0)
        OR (if m_executable e then SEGMENT_EXECUTABLE else 0) OR (if m_shared e then SEGMENT_SHARED else 0),
      state = SEGMENT_STATE_NEW, injection = None, tracepoints = Leaf, trampolines = 0, trampolines_size = 0,
      trampoline_stolen = False\<rparr>"

lemma parse_show_maps:
  assumes "maps_entry_ok e"
  shows "procfs_maps_parse_segment (show_maps e) = Inr (Some (entry_segment e))"
proof -
  have b: "m_start e < 2 ^ 63" "m_end e < 2 ^ 63" "m_offset e < 2 ^ 63" using assms by (simp_all add: maps_entry_ok_def)
  note strtoll = strtoll_pad_hex [OF b(1), of "CHR ''-''"] strtoll_pad_hex [OF b(2), of "CHR '' ''"]
    strtoll_pad_hex [OF b(3), of "CHR '' ''"]
  show ?thesis
    unfolding procfs_maps_parse_segment_def show_maps_def
    by (simp add: strtoll advance_Cons parse_show_perms advance_perms skip_printed_device drop_inode [OF assms]
        parse_tail [OF assms] entry_segment_def)
qed

lemma show_maps_start: "show_maps e \<noteq> []" "hd (show_maps e) \<noteq> CHR 0x0a"
proof -
  obtain d ds where "pad_hex 8 (m_start e) = d # ds" "is_xdigit d"
    using pad_hex_digits(1,2) [of 8 "m_start e"] by (cases "pad_hex 8 (m_start e)") auto
  then show "show_maps e \<noteq> []" "hd (show_maps e) \<noteq> CHR 0x0a" using separators(4) by (auto simp: show_maps_def)
qed

section \<open>Properties\<close>


text \<open>Witness: two mappings, one of a file and one without a name.\<close>

definition example_entry :: "nat \<Rightarrow> string option \<Rightarrow> maps_entry" where
  "example_entry a name = \<lparr>m_start = a, m_end = a + 4096, m_readable = True, m_writeable = False, m_executable = True,
     m_shared = False, m_offset = 0, m_major = 8, m_minor = 1, m_inode = 42, m_blanks = 3, m_name = name\<rparr>"


end
