(* ===== verification/Mutex.thy ===== *)
theory Mutex
  imports Adbi_Prelude
begin

text \<open>
  The mutex of the injected code, \<^verbatim>\<open>idk/include/mutex.h\<close>, used by any number of threads of the traced
  process at once. The atomic operations (\<^verbatim>\<open>ldrex/strex\<close> and \<^verbatim>\<open>ldxr/stxr\<close> loops) are single steps on the
  integer; \<^verbatim>\<open>mutex_lock\<close> and \<^verbatim>\<open>mutex_unlock\<close> are step relations with one step per access to it, so every
  interleaving is an execution. \<^verbatim>\<open>futex(2)\<close> is the wait queue of the kernel: a wait sleeps only if the
  value is still the expected one, a sleeper may be woken at any time, and a wake wakes one sleeper if
  there is one.
\<close>

section \<open>Definitions\<close>

text \<open>The result and the new value of \<^verbatim>\<open>*ptr\<close>.\<close>

definition atomic_dec :: "u32 \<Rightarrow> u32 \<times> u32" where
  "atomic_dec v = (v, v - 1)"

definition atomic_inc :: "u32 \<Rightarrow> u32 \<times> u32" where
  "atomic_inc v = (v, v + 1)"

definition atomic_cmpxchg :: "u32 \<Rightarrow> u32 \<Rightarrow> u32 \<Rightarrow> bool \<times> u32" where
  "atomic_cmpxchg old new v = (if v = old then (True, new) else (False, v))"

definition atomic_swap :: "u32 \<Rightarrow> u32 \<Rightarrow> u32 \<times> u32" where
  "atomic_swap new v = (v, new)"

text \<open>
  Where a thread is: outside (\<open>Out\<close>) or in the section the mutex protects (\<open>Locked\<close>); in \<^verbatim>\<open>mutex_lock\<close>
  before the \<^verbatim>\<open>atomic_cmpxchg\<close>, before the \<^verbatim>\<open>atomic_swap\<close>, before the \<^verbatim>\<open>futex\<close> call and sleeping in it; in
  \<^verbatim>\<open>mutex_unlock\<close> before the \<^verbatim>\<open>atomic_dec\<close>, before the assignment and before the \<^verbatim>\<open>futex\<close> call.
\<close>

datatype point =
    Out | Lock_Cmpxchg | Lock_Swap | Lock_Wait | Asleep
  | Locked | Unlock_Dec | Unlock_Store | Unlock_Wake

record 't system =
  mutex :: u32
  point_of :: "'t \<Rightarrow> point"

definition goto :: "'t system \<Rightarrow> 't \<Rightarrow> point \<Rightarrow> u32 \<Rightarrow> 't system" where
  "goto s t p v = \<lparr>mutex = v, point_of = (point_of s)(t := p)\<rparr>"

inductive step :: "'t system \<Rightarrow> 't system \<Rightarrow> bool" where
  lock: "point_of s t = Out \<Longrightarrow> step s (goto s t Lock_Cmpxchg (mutex s))"
| cmpxchg: "point_of s t = Lock_Cmpxchg \<Longrightarrow> atomic_cmpxchg 0 1 (mutex s) = (ok, v) \<Longrightarrow>
    step s (goto s t (if ok then Locked else Lock_Swap) v)"
| swap: "point_of s t = Lock_Swap \<Longrightarrow> atomic_swap 2 (mutex s) = (old, v) \<Longrightarrow>
    step s (goto s t (if old \<noteq> 0 then Lock_Wait else Locked) v)"
| wait: "point_of s t = Lock_Wait \<Longrightarrow>
    step s (goto s t (if mutex s = 2 then Asleep else Lock_Swap) (mutex s))"
| interrupted: "point_of s t = Asleep \<Longrightarrow> step s (goto s t Lock_Swap (mutex s))"
| unlock: "point_of s t = Locked \<Longrightarrow> step s (goto s t Unlock_Dec (mutex s))"
| dec: "point_of s t = Unlock_Dec \<Longrightarrow> atomic_dec (mutex s) = (old, v) \<Longrightarrow>
    step s (goto s t (if old \<noteq> 1 then Unlock_Store else Out) v)"
| store: "point_of s t = Unlock_Store \<Longrightarrow> step s (goto s t Unlock_Wake 0)"
| wake_one: "point_of s t = Unlock_Wake \<Longrightarrow> point_of s u = Asleep \<Longrightarrow>
    step s (goto (goto s t Out (mutex s)) u Lock_Swap (mutex s))"
| wake_none: "point_of s t = Unlock_Wake \<Longrightarrow> (\<forall>u. point_of s u \<noteq> Asleep) \<Longrightarrow>
    step s (goto s t Out (mutex s))"

definition initial :: "'t system" where
  "initial = \<lparr>mutex = 0, point_of = (\<lambda>_. Out)\<rparr>"

inductive reachable :: "'t system \<Rightarrow> bool" where
  init: "reachable initial"
| step: "reachable s \<Longrightarrow> step s s' \<Longrightarrow> reachable s'"

section \<open>The invariant\<close>

text \<open>A thread owns the mutex from the operation that acquires it to the one that frees it.\<close>

fun owning :: "point \<Rightarrow> bool" where
  "owning Locked = True"
| "owning Unlock_Dec = True"
| "owning Unlock_Store = True"
| "owning _ = False"

definition owners :: "'t system \<Rightarrow> 't set" where
  "owners s = {t. owning (point_of s t)}"

text \<open>A thread that is bound to look at the mutex again, or to wake a sleeper.\<close>

fun attentive :: "point \<Rightarrow> bool" where
  "attentive Unlock_Store = True"
| "attentive Unlock_Wake = True"
| "attentive Lock_Swap = True"
| "attentive _ = False"

definition exclusive :: "'t system \<Rightarrow> bool" where
  "exclusive s \<longleftrightarrow> (mutex s = 0 \<and> owners s = {}) \<or> (mutex s \<in> {1, 2} \<and> (\<exists>t. owners s = {t}))"

definition alert :: "'t system \<Rightarrow> bool" where
  "alert s \<longleftrightarrow> ((\<exists>t. point_of s t = Asleep) \<longrightarrow> mutex s = 2 \<or> (\<exists>t. attentive (point_of s t)))"

lemma mutex_goto [simp]: "mutex (goto s t p v) = v"
  by (simp add: goto_def)

lemma point_of_goto [simp]: "point_of (goto s t p v) u = (if u = t then p else point_of s u)"
  by (simp add: goto_def)

lemma owners_goto: "owners (goto s t p v) = (if owning p then insert t (owners s) else owners s - {t})"
  by (auto simp: owners_def)

lemma owners_iff: "t \<in> owners s \<longleftrightarrow> owning (point_of s t)"
  by (simp add: owners_def)

text \<open>The three ways in which a step changes the owner: not at all, by acquiring and by freeing the mutex.\<close>

lemma exclusive_keep:
  assumes "exclusive s" "owning p = owning (point_of s t)" "v = mutex s \<or> mutex s \<noteq> 0 \<and> v \<in> {1, 2}"
  shows "exclusive (goto s t p v)"
proof -
  have "owners (goto s t p v) = owners s" using assms(2) owners_iff [of t s] by (auto simp: owners_goto)
  then show ?thesis using assms(1,3) unfolding exclusive_def mutex_goto by auto
qed

lemma exclusive_acquire:
  "exclusive s \<Longrightarrow> mutex s = 0 \<Longrightarrow> owning p \<Longrightarrow> v \<in> {1, 2} \<Longrightarrow> exclusive (goto s t p v)"
  by (auto simp: exclusive_def owners_goto)

lemma exclusive_release:
  "exclusive s \<Longrightarrow> owning (point_of s t) \<Longrightarrow> \<not> owning p \<Longrightarrow> exclusive (goto s t p 0)"
  by (auto simp: exclusive_def owners_goto simp flip: owners_iff)

lemma alert_attentive: "attentive p \<Longrightarrow> alert (goto s t p v)"
  by (auto simp: alert_def)

lemma alert_waiters: "alert (goto s t p 2)"
  by (simp add: alert_def)

lemma alert_keep:
  "alert s \<Longrightarrow> p \<noteq> Asleep \<Longrightarrow> \<not> attentive (point_of s t) \<Longrightarrow> mutex s \<noteq> 2 \<or> v = 2 \<Longrightarrow> alert (goto s t p v)"
  unfolding alert_def by (metis mutex_goto point_of_goto)

lemma exclusive_value: "exclusive s \<Longrightarrow> owning (point_of s t) \<Longrightarrow> mutex s = 1 \<or> mutex s = 2"
  by (auto simp: exclusive_def simp flip: owners_iff)

lemma exclusive_step: "step s s' \<Longrightarrow> exclusive s \<Longrightarrow> exclusive s'"
proof (induction rule: step.induct)
  case (cmpxchg s t ok v)
  then show ?case
    by (cases "mutex s = 0") (auto simp: atomic_cmpxchg_def intro: exclusive_keep exclusive_acquire)
next
  case (swap s t old v)
  then show ?case
    by (cases "mutex s = 0") (auto simp: atomic_swap_def intro: exclusive_keep exclusive_acquire)
next
  case (dec s t old v)
  then have "mutex s = 1 \<or> mutex s = 2" using exclusive_value [of s t] by simp
  then show ?case using dec exclusive_release [of s t Out]
    by (auto simp: atomic_dec_def intro: exclusive_keep)
next
  case (store s t)
  then show ?case by (intro exclusive_release) auto
next
  case (wake_one s t u)
  then have "exclusive (goto s t Out (mutex s))" by (intro exclusive_keep) auto
  then show ?case using wake_one by (intro exclusive_keep) auto
qed (auto intro!: exclusive_keep)

lemma alert_step: "step s s' \<Longrightarrow> alert s \<Longrightarrow> alert s'"
proof (induction rule: step.induct)
  case (wait s t)
  then show ?case using alert_waiters [of s t Asleep] by (simp add: alert_attentive)
next
  case (cmpxchg s t ok v)
  then show ?case by (auto simp: atomic_cmpxchg_def alert_attentive intro: alert_keep split: if_splits)
next
  case (dec s t old v)
  then show ?case by (auto simp: atomic_dec_def alert_attentive intro: alert_keep)
next
  case (wake_none s t)
  then show ?case by (simp add: alert_def)
qed (auto simp: atomic_swap_def alert_attentive alert_waiters intro: alert_keep)

lemma reachable_inv: "reachable s \<Longrightarrow> exclusive s \<and> alert s"
proof (induction rule: reachable.induct)
  case init
  show ?case by (simp add: exclusive_def alert_def initial_def owners_def)
qed (simp add: exclusive_step alert_step)

section \<open>Properties\<close>

text \<open>C29: mutual exclusion. In every execution of \<^verbatim>\<open>mutex_lock\<close> and \<^verbatim>\<open>mutex_unlock\<close> by any number of threads, with
  the steps interleaved in any way, at most one thread is in the protected section.\<close>

theorem mutex_exclusive:
  assumes "reachable s" "point_of s t = Locked" "point_of s u = Locked"
  shows "t = u"
proof -
  have "t \<in> owners s" "u \<in> owners s" using assms(2,3) by (simp_all add: owners_iff)
  then show ?thesis using reachable_inv [OF assms(1)] by (auto simp: exclusive_def)
qed

text \<open>The threads of a run: a thread locks the mutex.\<close>

lemma reachable_locked:
  "reachable (goto (goto initial (0 :: nat) Lock_Cmpxchg 0) 0 Locked 1)"
proof -
  let ?s = "goto (initial :: nat system) 0 Lock_Cmpxchg 0"
  have "reachable ?s" using reachable.step [OF reachable.init step.lock [of initial "0 :: nat"]] by (simp add: initial_def)
  then show ?thesis using reachable.step [OF _ step.cmpxchg [of ?s 0 True 1]] by (simp add: atomic_cmpxchg_def)
qed

text \<open>Witness: the first thread has locked the mutex.\<close>

theorem mutex_exclusive_witness:
  "let s = goto (goto initial (0 :: nat) Lock_Cmpxchg 0) 0 Locked 1
   in reachable s \<and> point_of s 0 = Locked \<and> (\<forall>u. point_of s u = Locked \<longrightarrow> u = 0)"
proof -
  let ?s = "goto (goto initial (0 :: nat) Lock_Cmpxchg 0) 0 Locked 1"
  have "point_of ?s 0 = Locked" by simp
  then show ?thesis using mutex_exclusive [OF reachable_locked] reachable_locked by (simp only: Let_def) blast
qed

text \<open>C30: no lost wake-up. While a thread sleeps in \<^verbatim>\<open>mutex_lock\<close>, either the mutex is owned and marked as contended,
  so that its owner will call the kernel when it unlocks, or another thread is on its way to wake a
  sleeper or to try the mutex again.\<close>

theorem mutex_no_lost_wakeup:
  assumes "reachable s" "point_of s t = Asleep"
  shows "(mutex s = 2 \<and> (\<exists>u. owners s = {u})) \<or> (\<exists>u. attentive (point_of s u))"
  using reachable_inv [OF assms(1)] assms(2) unfolding exclusive_def alert_def by auto

text \<open>A second thread finds the mutex locked and goes to sleep.\<close>

definition locked_system :: "nat system" where
  "locked_system = goto (goto initial 0 Lock_Cmpxchg 0) 0 Locked 1"

definition contended_system :: "nat system" where
  "contended_system = goto (goto (goto (goto locked_system 1 Lock_Cmpxchg 1) 1 Lock_Swap 1) 1 Lock_Wait 2) 1 Asleep 2"

lemma reachable_contended: "reachable contended_system"
proof -
  let ?a = "goto locked_system 1 Lock_Cmpxchg 1"
  let ?b = "goto ?a 1 Lock_Swap 1"
  let ?c = "goto ?b 1 Lock_Wait 2"
  have "reachable locked_system" unfolding locked_system_def by (rule reachable_locked)
  then have "reachable ?a" using reachable.step [OF _ step.lock [of locked_system 1]] by (simp add: locked_system_def initial_def)
  then have "reachable ?b" using reachable.step [OF _ step.cmpxchg [of ?a 1 False 1]] by (simp add: atomic_cmpxchg_def)
  then have "reachable ?c" using reachable.step [OF _ step.swap [of ?b 1 1 2]] by (simp add: atomic_swap_def)
  then show ?thesis using reachable.step [OF _ step.wait [of ?c 1]] by (simp add: contended_system_def)
qed

text \<open>Witness: the state in which it sleeps.\<close>

theorem mutex_no_lost_wakeup_witness:
  "reachable contended_system \<and> point_of contended_system 1 = Asleep \<and> mutex contended_system = 2
   \<and> owners contended_system = {0}"
proof -
  have p: "point_of contended_system = (\<lambda>t. if t = 1 then Asleep else if t = 0 then Locked else Out)"
    by (simp add: contended_system_def locked_system_def initial_def goto_def fun_eq_iff)
  then have "\<not> (\<exists>u. attentive (point_of contended_system u))" by simp
  then have "mutex contended_system = 2 \<and> (\<exists>u. owners contended_system = {u})"
    using mutex_no_lost_wakeup [OF reachable_contended, of 1] p by simp
  moreover have "0 \<in> owners contended_system" by (simp add: owners_iff p)
  ultimately show ?thesis using reachable_contended p by auto
qed

end
