(* ===== verification/Division.thy ===== *)
theory Division
  imports Adbi_Prelude
begin

text \<open>
  Division in software for the injected code, \<^verbatim>\<open>idk/include/division.h\<close>: a binary search for the quotient,
  and the division by ten with which numbers are printed. The wrap-around of the products is that
  of the code: \<^verbatim>\<open>q\<close> is the lower half of a 64-bit product.
\<close>

section \<open>Definitions\<close>

text \<open>The loop that looks for the first power of two above the divisor, from \<open>shift\<close> on.\<close>

function find_shift :: "u32 \<Rightarrow> nat \<Rightarrow> nat" where
  "find_shift divisor shift =
     (if shift < 32 then
        let d = push_bit shift 1
        in if d > divisor then shift else find_shift divisor (shift + 1)
      else shift)"
  by pat_completeness auto
termination
  by (relation "measure (\<lambda>(divisor, shift). 32 - shift)") auto

declare find_shift.simps [simp del]

definition midpoint :: "u32 \<Rightarrow> u32 \<Rightarrow> u64" where
  "midpoint a b = ucast (drop_bit 1 b + drop_bit 1 a)"

lemma unat_less_32: "unat (a :: u32) < 4294967296"
  using unsigned_less [of a] by simp

lemma unat_midpoint: "unat (midpoint a b) = unat b div 2 + unat a div 2"
proof -
  have "unat (drop_bit 1 b + drop_bit 1 a) = unat b div 2 + unat a div 2"
    using unat_less_32 [of a] unat_less_32 [of b]
    by (simp add: unat_word_ariths unsigned_drop_bit_eq drop_bit_eq_div take_bit_nat_eq_self)
  then show ?thesis using unat_less_32 [of "drop_bit 1 b + drop_bit 1 a"]
    by (simp add: midpoint_def unsigned_ucast_eq take_bit_nat_eq_self)
qed

lemma half_sum_between: "(x :: nat) < y \<Longrightarrow> x \<le> y div 2 + x div 2 \<and> y div 2 + x div 2 < y"
proof -
  assume "x < y"
  moreover have "x = 2 * (x div 2) + x mod 2" "y = 2 * (y div 2) + y mod 2" by simp_all
  moreover have "x mod 2 = 0 \<or> x mod 2 = 1" "y mod 2 = 0 \<or> y mod 2 = 1" by auto
  ultimately show ?thesis by (elim disjE) linarith+
qed

lemma midpoint_between: "a < b \<Longrightarrow> unat a \<le> unat (midpoint a b) \<and> unat (midpoint a b) < unat b"
  unfolding unat_midpoint word_less_nat_alt by (rule half_sum_between)

lemma ucast_midpoint: "unat (ucast (midpoint a b) :: u32) = unat (midpoint a b)"
  using unat_less_32 [of a] unat_less_32 [of b]
  by (simp add: unsigned_ucast_eq unat_midpoint take_bit_nat_eq_self)

lemma midpoint_next:
  assumes "a < b"
  shows "unat (ucast (midpoint a b + 1) :: u32) = unat (midpoint a b) + 1"
proof -
  have "unat (midpoint a b) + 1 \<le> unat b" using midpoint_between [OF assms] by simp
  then have l: "unat (midpoint a b) + 1 < 2 ^ 32" using unat_less_32 [of b] by simp
  then have "unat (midpoint a b + 1) = unat (midpoint a b) + 1"
    by (simp add: unat_word_ariths take_bit_nat_eq_self)
  then show ?thesis using l by (simp add: unsigned_ucast_eq take_bit_nat_eq_self)
qed

lemma midpoint_prev:
  assumes "midpoint a b \<noteq> 0"
  shows "unat (ucast (midpoint a b - 1) :: u32) = unat (midpoint a b) - 1"
proof -
  have "unat (midpoint a b - 1) = unat (midpoint a b) - 1"
    using assms by (simp add: unat_sub word_le_nat_alt Suc_le_eq unat_gt_0)
  moreover have "unat (midpoint a b) - 1 < 2 ^ 32" using unat_less_32 [of a] unat_less_32 [of b] by (simp add: unat_midpoint)
  ultimately show ?thesis by (simp add: unsigned_ucast_eq take_bit_nat_eq_self)
qed

text \<open>The binary search; the variable \<^verbatim>\<open>quoutient\<close> is the middle of \<open>a\<close> and \<open>b\<close> at the head of the loop.\<close>

function div_search :: "u32 \<Rightarrow> u32 \<Rightarrow> u32 \<Rightarrow> u32 \<Rightarrow> u32" where
  "div_search dividend divisor a b =
     (if b > a then
        let quotient = midpoint a b;
            q = ucast (quotient * ucast divisor) :: u32
        in if q > dividend then div_search dividend divisor a (ucast (quotient - 1))
           else let rest = dividend - q
                in if rest < divisor then ucast quotient
                   else div_search dividend divisor (ucast (quotient + 1)) b
      else a)"
  by pat_completeness auto
termination
proof (relation "measure (\<lambda>(dividend, divisor, a, b). unat b - unat a)", goal_cases)
  case (2 dividend divisor a b quotient q)
  then have "midpoint a b \<noteq> 0" by auto
  then show ?case using 2 midpoint_prev midpoint_between [of a b] by (auto simp: word_less_nat_alt)
next
  case (3 dividend divisor a b quotient q rest)
  then show ?case using midpoint_next midpoint_between [of a b] by (auto simp: word_less_nat_alt)
qed simp

declare div_search.simps [simp del]

definition div_c :: "u32 \<Rightarrow> u32 \<Rightarrow> u32 res" where
  "div_c dividend divisor =
     (let shift = find_shift divisor 0;
          a = if shift < 32 then drop_bit shift dividend else 0xffffffff
      in if shift = 0 then Inl Undefined_Shift
         else let b = drop_bit (shift - 1) dividend
              in Inr (div_search dividend divisor a b))"

text \<open>Division by ten: the upper part of the product with \<open>0.1 * 2 ^ 35\<close>.\<close>

definition div10 :: "u32 \<Rightarrow> u32" where
  "div10 v = ucast (drop_bit 35 (ucast v * 0xcccccccd :: u64))"

definition rest_add :: "u64 list" where
  "rest_add = [0x00000000, 0x1999999a, 0x33333334, 0x4ccccccd, 0x66666667,
     0x80000001, 0x9999999a, 0xb3333334, 0xcccccccd, 0xe6666667]"

definition div10l :: "u64 \<Rightarrow> u64" where
  "div10l v =
     (let a = ucast (div10 (ucast (drop_bit 32 v))) :: u64;
          b = ucast (div10 (ucast (v AND 0xffffffff))) :: u64;
          ri = unat (drop_bit 32 v - a * 10);
          ret = push_bit 32 a + b + rest_add ! ri
      in if ret * 10 > v then ret - 1 else ret)"

definition div10s :: "u32 \<Rightarrow> u32" where
  "div10s v = (if v <s 0 then - div10 (- v) else div10 v)"

section \<open>The binary search\<close>

lemma unat_push_bit_1: "n < 32 \<Longrightarrow> unat (push_bit n (1 :: u32)) = 2 ^ n"
proof -
  assume "n < 32"
  then have "(2 :: nat) ^ n < 2 ^ 32" by (intro power_strict_increasing) simp_all
  then have "unat (of_nat (2 ^ n) :: u32) = 2 ^ n" by (simp only: unat_of_nat) (simp add: take_bit_nat_eq_self)
  then show ?thesis by (simp add: push_bit_eq_mult)
qed

lemma find_shift_spec:
  assumes "unat divisor < 2 ^ 31" "shift < 32" "shift = 0 \<or> 2 ^ (shift - 1) \<le> unat divisor"
  shows "find_shift divisor shift < 32 \<and> unat divisor < 2 ^ find_shift divisor shift
    \<and> (find_shift divisor shift = 0 \<or> 2 ^ (find_shift divisor shift - 1) \<le> unat divisor)"
  using assms
proof (induction divisor shift rule: find_shift.induct)
  case (1 divisor shift)
  have d: "divisor < push_bit shift 1 \<longleftrightarrow> unat divisor < 2 ^ shift"
    using unat_push_bit_1 [OF 1(3)] by (simp add: word_less_nat_alt)
  show ?case
  proof (cases "unat divisor < 2 ^ shift")
    case True
    then show ?thesis using 1(3,4) d by (subst (1 2 3 4) find_shift.simps) simp
  next
    case False
    then have "shift \<noteq> 31" using 1(2) by auto
    then have "find_shift divisor (shift + 1) < 32 \<and> unat divisor < 2 ^ find_shift divisor (shift + 1)
        \<and> (find_shift divisor (shift + 1) = 0 \<or> 2 ^ (find_shift divisor (shift + 1) - 1) \<le> unat divisor)"
      using 1(1) [OF 1(3) refl] 1(2,3) False d by simp
    moreover have "find_shift divisor shift = find_shift divisor (shift + 1)"
      using 1(3) False d by (subst find_shift.simps) simp
    ultimately show ?thesis by simp
  qed
qed

lemma unat_drop_bit: "unat (drop_bit n (w :: u32)) = unat w div 2 ^ n"
proof -
  have "take_bit LENGTH(32) (unat w) = unat w" using unat_less_32 [of w] by (simp add: take_bit_nat_eq_self)
  then show ?thesis unfolding unsigned_drop_bit_eq by (simp only: drop_bit_eq_div)
qed

text \<open>While the products stay below \<open>2 ^ 32\<close>, the search keeps the quotient between \<open>a\<close> and \<open>b\<close>.\<close>

lemma div_search_spec:
  assumes "unat a \<le> unat dividend div unat divisor" "unat dividend div unat divisor \<le> unat b"
    and "unat b * unat divisor < 2 ^ 32" "0 < unat divisor"
  shows "unat (div_search dividend divisor a b) = unat dividend div unat divisor"
  using assms
proof (induction dividend divisor a b rule: div_search.induct)
  case (1 dividend divisor a b)
  define m where "m = midpoint a b"
  define q where "q = (ucast (m * ucast divisor) :: u32)"
  show ?case
  proof (cases "a < b")
    case False
    then have "div_search dividend divisor a b = a" by (subst div_search.simps) simp
    then show ?thesis using 1(3,4) False by (simp add: word_less_nat_alt)
  next
    case True
    note m = midpoint_between [OF True, folded m_def]
    have "unat m * unat divisor \<le> unat b * unat divisor" using m by (intro mult_right_mono) auto
    then have prod: "unat m * unat divisor < 2 ^ 32" using 1(5) by linarith
    moreover have "unat (ucast divisor :: u64) = unat divisor"
      using unat_less_32 [of divisor] by (simp add: unsigned_ucast_eq take_bit_nat_eq_self)
    ultimately have "unat (m * ucast divisor) = unat m * unat divisor"
      by (simp add: unat_word_ariths take_bit_nat_eq_self)
    then have q: "unat q = unat m * unat divisor" using prod by (simp add: q_def unsigned_ucast_eq take_bit_nat_eq_self)
    have unfold: "div_search dividend divisor a b =
      (if q > dividend then div_search dividend divisor a (ucast (m - 1))
       else if dividend - q < divisor then ucast m else div_search dividend divisor (ucast (m + 1)) b)"
      using True by (subst div_search.simps) (simp add: m_def q_def Let_def)
    consider "q > dividend" | "\<not> q > dividend" "dividend - q < divisor" | "\<not> q > dividend" "\<not> dividend - q < divisor"
      by blast
    then show ?thesis
    proof cases
      case 1
      have lt: "unat dividend div unat divisor < unat m"
        using 1 q \<open>0 < unat divisor\<close> by (simp add: word_less_nat_alt div_less_iff_less_mult)
      then have "m \<noteq> 0" by auto
      then have b': "unat (ucast (m - 1) :: u32) = unat m - 1" unfolding m_def by (rule midpoint_prev)
      have "(unat m - 1) * unat divisor \<le> unat m * unat divisor" by (intro mult_right_mono) auto
      then have "unat (ucast (m - 1) :: u32) * unat divisor < 2 ^ 32" unfolding b' using prod by linarith
      then show ?thesis using "1.IH"(1) [OF True m_def q_def] "1.prems" 1 unfold b' lt by simp
    next
      case 2
      then have "unat m * unat divisor \<le> unat dividend" "unat dividend - unat m * unat divisor < unat divisor"
        using q by (simp_all add: word_less_nat_alt unat_sub word_le_nat_alt)
      then have "unat dividend div unat divisor = unat m" by (intro div_nat_eqI) (simp_all add: mult.commute)
      then show ?thesis using 2 unfold ucast_midpoint [of a b] by (simp add: m_def)
    next
      case 3
      then have "unat m * unat divisor \<le> unat dividend" "unat divisor \<le> unat dividend - unat m * unat divisor"
        using q by (simp_all add: word_less_nat_alt unat_sub word_le_nat_alt)
      then have "(unat m + 1) * unat divisor \<le> unat dividend" by simp
      then have "unat m + 1 \<le> unat dividend div unat divisor"
        using \<open>0 < unat divisor\<close> by (simp add: less_eq_div_iff_mult_less_eq)
      then show ?thesis using "1.IH"(2) [OF True m_def q_def _ refl] "1.prems" 3 unfold midpoint_next [OF True, folded m_def] by simp
    qed
  qed
qed

section \<open>Division by ten\<close>

lemma unat_div10: "unat (div10 v) = unat v div 10"
proof -
  have lt: "unat v * 0xcccccccd < 2 ^ 64" using unat_less_32 [of v] by simp
  have "unat (ucast v :: u64) = unat v" using unat_less_32 [of v] by (simp add: unsigned_ucast_eq take_bit_nat_eq_self)
  then have "unat (ucast v * 0xcccccccd :: u64) = unat v * 0xcccccccd"
    using lt by (simp add: unat_word_ariths take_bit_nat_eq_self)
  then have "unat (drop_bit 35 (ucast v * 0xcccccccd :: u64)) = unat v * 0xcccccccd div 2 ^ 35"
    by (simp add: unat_div drop_bit_eq_div)
  moreover have "unat v * 0xcccccccd div 2 ^ 35 = unat v div 10"
  proof (rule div_nat_eqI)
    have e: "unat v = 10 * (unat v div 10) + unat v mod 10" by simp
    have "unat v mod 10 < 10" by simp
    then show "2 ^ 35 * (unat v div 10) \<le> unat v * 0xcccccccd" "unat v * 0xcccccccd < 2 ^ 35 * Suc (unat v div 10)"
      using e unat_less_32 [of v] by auto
  qed
  moreover have "unat v div 10 < 2 ^ 32" using unat_less_32 [of v] by (simp add: div_less_dividend)
  ultimately show ?thesis unfolding div10_def by (simp add: unsigned_ucast_eq take_bit_nat_eq_self)
qed

text \<open>The sum of the quotients of the two halves and the entry of the table is the quotient or one more: \<open>429496729\<close>
  is \<open>2 ^ 32 div 10\<close>.\<close>

lemma rest_add_value:
  assumes "r < 10" "x < 10"
  shows "unat (rest_add ! r) = (r * 2 ^ 32 + x) div 10 \<or> unat (rest_add ! r) = (r * 2 ^ 32 + x) div 10 + 1"
    "r = 5 \<Longrightarrow> unat (rest_add ! r) = (r * 2 ^ 32 + x) div 10 + 1"
proof -
  have "r \<in> {0, 1, 2, 3, 4, 5, 6, 7, 8, 9}" "x \<in> {0, 1, 2, 3, 4, 5, 6, 7, 8, 9}" using assms by auto
  then show "unat (rest_add ! r) = (r * 2 ^ 32 + x) div 10 \<or> unat (rest_add ! r) = (r * 2 ^ 32 + x) div 10 + 1"
    "r = 5 \<Longrightarrow> unat (rest_add ! r) = (r * 2 ^ 32 + x) div 10 + 1"
    by (auto simp: rest_add_def)
qed

lemma div_halves:
  "(10 * a + r) * 2 ^ 32 + (10 * b + x) < 2 ^ 64 \<Longrightarrow>
   ((10 * a + r) * 2 ^ 32 + (10 * b + x)) div (10 :: nat) = a * 2 ^ 32 + b + (r * 2 ^ 32 + x) div 10"
proof -
  have "(10 * a + r) * 2 ^ 32 + (10 * b + x) = 10 * (a * 2 ^ 32 + b) + (r * 2 ^ 32 + x)" by simp
  then show ?thesis by simp
qed

definition div10l_sum :: "u64 \<Rightarrow> u64" where
  "div10l_sum v = push_bit 32 (ucast (div10 (ucast (drop_bit 32 v)))) + ucast (div10 (ucast (v AND 0xffffffff)))
     + rest_add ! unat (drop_bit 32 v - ucast (div10 (ucast (drop_bit 32 v))) * 10)"

lemma div10l_eq: "div10l v = (if div10l_sum v * 10 > v then div10l_sum v - 1 else div10l_sum v)"
  by (simp add: div10l_def div10l_sum_def Let_def)

lemma div10l_sum_value:
  "unat (div10l_sum v) = unat v div 10 \<or> unat (div10l_sum v) = unat v div 10 + 1"
  "unat v div 2 ^ 32 mod 10 = 5 \<Longrightarrow> unat (div10l_sum v) = unat v div 10 + 1"
proof -
  define h where "h = unat v div 2 ^ 32"
  define l where "l = unat v mod 2 ^ 32"
  have v: "unat v = h * 2 ^ 32 + l" "unat v < 2 ^ 64" using unsigned_less [of v] by (simp_all add: h_def l_def)
  have hl: "h < 2 ^ 32" "l < 2 ^ 32" using v(2) by (simp_all add: h_def l_def)
  have hi: "unat (drop_bit 32 v) = h" by (simp add: h_def unat_div drop_bit_eq_div)
  have "unat (ucast (drop_bit 32 v) :: u32) = h" using hl hi by (simp add: unsigned_ucast_eq take_bit_nat_eq_self)
  then have "unat (ucast (div10 (ucast (drop_bit 32 v))) :: u64) = h div 10"
    using hl by (simp add: unsigned_ucast_eq unat_div10 take_bit_nat_eq_self)
  moreover define a where "a = (ucast (div10 (ucast (drop_bit 32 v))) :: u64)"
  ultimately have a: "unat a = h div 10" by simp
  have "v AND 0xffffffff = take_bit 32 v" by (simp add: take_bit_eq_mask mask_eq_exp_minus_1)
  then have "unat (v AND 0xffffffff) = l" by (simp add: l_def take_bit_eq_mod unat_mod)
  then have "unat (ucast (v AND 0xffffffff) :: u32) = l" using hl by (simp add: unsigned_ucast_eq take_bit_nat_eq_self)
  then have "unat (ucast (div10 (ucast (v AND 0xffffffff))) :: u64) = l div 10"
    using hl by (simp add: unsigned_ucast_eq unat_div10 take_bit_nat_eq_self)
  moreover define b where "b = (ucast (div10 (ucast (v AND 0xffffffff))) :: u64)"
  ultimately have b: "unat b = l div 10" by simp
  have "unat (a * 10) = h div 10 * 10" using hl a by (simp add: unat_word_ariths)
  moreover have "a * 10 \<le> drop_bit 32 v" unfolding word_le_nat_alt hi calculation by simp
  ultimately have "unat (drop_bit 32 v - a * 10) = h - h div 10 * 10" by (simp add: unat_sub hi)
  then have ri: "unat (drop_bit 32 v - a * 10) = h mod 10" by (simp only: minus_div_mult_eq_mod)
  define c where "c = unat (rest_add ! (h mod 10))"
  have c: "c = (h mod 10 * 2 ^ 32 + l mod 10) div 10 \<or> c = (h mod 10 * 2 ^ 32 + l mod 10) div 10 + 1"
    "h mod 10 = 5 \<Longrightarrow> c = (h mod 10 * 2 ^ 32 + l mod 10) div 10 + 1"
    unfolding c_def using rest_add_value [of "h mod 10" "l mod 10"] by simp_all
  have "10 * (h div 10) + h mod 10 = h" "10 * (l div 10) + l mod 10 = l" by simp_all
  then have e: "unat v div 10 = h div 10 * 2 ^ 32 + l div 10 + (h mod 10 * 2 ^ 32 + l mod 10) div 10"
    using div_halves [of "h div 10" "h mod 10" "l div 10" "l mod 10"] v by simp
  have "unat v div 10 + 1 < 2 ^ 64" using v(2) by simp
  then have bound: "h div 10 * 2 ^ 32 + l div 10 + c < 2 ^ 64" using c(1) e by linarith
  have "div10l_sum v = of_nat (h div 10 * 2 ^ 32 + l div 10 + c)"
    unfolding div10l_sum_def a_def [symmetric] b_def [symmetric] ri
    by (simp add: push_bit_eq_mult c_def flip: a b)
  then have s: "unat (div10l_sum v) = h div 10 * 2 ^ 32 + l div 10 + c"
    using bound by (simp only: unat_of_nat) (simp add: take_bit_nat_eq_self)
  show "unat (div10l_sum v) = unat v div 10 \<or> unat (div10l_sum v) = unat v div 10 + 1"
    unfolding s e using c(1) by linarith
  show "unat v div 2 ^ 32 mod 10 = 5 \<Longrightarrow> unat (div10l_sum v) = unat v div 10 + 1"
    unfolding s e h_def [symmetric] using c(2) by linarith
qed

lemma unat_div10l: "unat (div10l v) = unat v div 10 + (if unat v < 2 ^ 64 - 6 then 0 else 1)"
proof -
  let ?r = "div10l_sum v" and ?e = "unat v div 10"
  have v: "unat v < 2 ^ 64" using unsigned_less [of v] by simp
  have ten: "unat (?r * 10) = unat ?r * 10 mod 2 ^ 64" by (simp add: unat_word_ariths)
  consider "unat ?r = ?e" | "unat ?r = ?e + 1" "unat v < 2 ^ 64 - 6" | "unat ?r = ?e + 1" "2 ^ 64 - 6 \<le> unat v"
    using div10l_sum_value(1) [of v] by linarith
  then show ?thesis
  proof cases
    case 1
    then have "\<not> unat v < unat (?r * 10)" using v by (simp add: ten)
    moreover have "unat v < 2 ^ 64 - 6"
    proof (rule ccontr)
      assume "\<not> unat v < 2 ^ 64 - 6"
      then have "unat v div 2 ^ 32 = 0xffffffff" using v by (intro div_nat_eqI) auto
      then show False using div10l_sum_value(2) [of v] 1 by simp
    qed
    ultimately show ?thesis using 1 by (simp add: div10l_eq word_less_nat_alt)
  next
    case 2
    then have "?e \<le> (2 ^ 64 - 7) div 10" by (intro div_le_mono) simp
    then have "?e * 10 + 10 < 2 ^ 64" by simp
    then have "unat v < unat (?r * 10)" using 2(1) by (simp add: ten)
    moreover have "unat (?r - 1) = ?e" using 2(1) by (simp add: unat_sub word_le_nat_alt)
    ultimately show ?thesis using 2(2) by (simp add: div10l_eq word_less_nat_alt)
  next
    case 3
    then have "?e = (2 ^ 64 - 6) div 10" using v by (intro div_nat_eqI) simp_all
    then have "unat (?r * 10) = 4" unfolding ten 3(1) by simp
    then have "\<not> unat v < unat (?r * 10)" using 3(2) by simp
    then show ?thesis using 3 by (simp add: div10l_eq word_less_nat_alt)
  qed
qed

section \<open>Properties\<close>

text \<open>the search for the quotient ends and is right as long as neither operand has its top bit set. (For larger
  dividends the product of the search may wrap around; for larger divisors no search takes place.)\<close>

theorem div_c_correct:
  assumes "dividend < 0x80000000" "divisor < 0x80000000" "divisor \<noteq> 0"
  shows "div_c dividend divisor = Inr (dividend div divisor)"
proof -
  let ?s = "find_shift divisor 0"
  have d: "unat dividend < 2 ^ 31" "unat divisor < 2 ^ 31" "0 < unat divisor"
    using assms by (simp_all add: word_less_nat_alt unat_gt_0)
  then have s: "?s < 32" "unat divisor < 2 ^ ?s" "?s = 0 \<or> 2 ^ (?s - 1) \<le> unat divisor"
    using find_shift_spec [of divisor 0] by auto
  then have s0: "?s \<noteq> 0" using d(3) by (cases "?s = 0") auto
  then have p: "2 ^ ?s = 2 * (2 :: nat) ^ (?s - 1)" by (metis power_eq_if)
  have low: "unat (drop_bit ?s dividend) \<le> unat dividend div unat divisor"
    using s(2) d(3) unfolding unat_drop_bit by (simp add: div_le_mono2)
  have high: "unat dividend div unat divisor \<le> unat (drop_bit (?s - 1) dividend)"
    using s(3) s0 unfolding unat_drop_bit by (simp add: div_le_mono2)
  have "unat (drop_bit (?s - 1) dividend) * unat divisor \<le> unat (drop_bit (?s - 1) dividend) * (2 * 2 ^ (?s - 1))"
    using s(2) p by (intro mult_left_mono) auto
  also have "\<dots> \<le> 2 * unat dividend"
    unfolding unat_drop_bit by simp
  finally have "unat (drop_bit (?s - 1) dividend) * unat divisor < 2 ^ 32" using d(1) by simp
  then have "unat (div_search dividend divisor (drop_bit ?s dividend) (drop_bit (?s - 1) dividend)) = unat (dividend div divisor)"
    using div_search_spec [OF low high] d(3) by (simp add: unat_div)
  then show ?thesis using s(1) s0 by (simp add: div_c_def Let_def word_unat_eq_iff)
qed

text \<open>Witness.\<close>

theorem div_c_correct_witness: "div_c 1000000 7 = Inr 142857"
  using div_c_correct [of 1000000 7] by simp

text \<open>division of a 64-bit number by ten is right for all but the last six numbers.\<close>

theorem div10l_correct_iff: "div10l v = v div 10 \<longleftrightarrow> v < 0xfffffffffffffffa"
  using unat_div10l [of v] by (simp add: word_unat_eq_iff unat_div word_less_nat_alt)

end
