(* ===== verification/Print.thy ===== *)
theory Print
  imports Division Digits
begin

text \<open>
  Output of the injected code, \<^verbatim>\<open>inj/adbi/print.c\<close>: the write loop, the conversion of numbers in a buffer that
  is filled from its end, and \<^verbatim>\<open>adbi_printf\<close>. The lock around the output is the mutex of the theory
  \<open>Mutex\<close>. The variable arguments are a list of typed values; fetching an argument of another type is
  undefined behaviour, a fault.
\<close>

section \<open>Definitions\<close>

subsection \<open>The write loop\<close>

text \<open>The results of the successive \<^verbatim>\<open>write\<close> system calls; a result counts at most the bytes it was given.\<close>

datatype write_result = Written nat | Interrupted | Failed

text \<open>The bytes that were written, \<open>None\<close> when the results do not suffice to end the loop.\<close>

fun adbi_write_unlocked :: "write_result list \<Rightarrow> string \<Rightarrow> string option" where
  "adbi_write_unlocked rs [] = Some []"
| "adbi_write_unlocked [] (c # cs) = None"
| "adbi_write_unlocked (r # rs) (c # cs) =
     (case r of
        Written n \<Rightarrow> map_option (\<lambda>out. take n (c # cs) @ out) (adbi_write_unlocked rs (drop n (c # cs)))
      | Interrupted \<Rightarrow> adbi_write_unlocked rs (c # cs)
      | Failed \<Rightarrow> Some [])"

subsection \<open>Numbers\<close>

text \<open>\<^verbatim>\<open>*(--p) = c\<close> in the buffer of 25 characters: \<open>buf\<close> is the part from \<^verbatim>\<open>p\<close> to its end.\<close>

definition push_char :: "char \<Rightarrow> string \<Rightarrow> string res" where
  "push_char c buf = (if length buf < 25 then Inr (c # buf) else Inl Out_Of_Bounds)"

text \<open>The loops that convert a number, with the division \<open>dv\<close> of the base \<open>b\<close> that the loop uses.\<close>

definition digit_char :: "u64 \<Rightarrow> char" where
  "digit_char d = char_of (48 + unat d)"

lemma div10l_less: "v \<noteq> 0 \<Longrightarrow> unat (div10l v) < unat v"
proof -
  assume "v \<noteq> 0"
  then have "0 < unat v" by (simp add: unat_gt_0)
  then have "unat v div 10 < unat v" by simp
  moreover have "unat v div 10 + 1 < unat v" if "2 ^ 64 - 6 \<le> unat v" using that by simp
  ultimately show ?thesis unfolding unat_div10l by (simp add: not_less)
qed

function dec_loop :: "u64 \<Rightarrow> string \<Rightarrow> string res" where
  "dec_loop val buf =
     (if val = 0 then Inr buf
      else let next_val = div10l val;
               rest = val - next_val * 10
           in res_bind (push_char (digit_char rest) buf) (dec_loop next_val))"
  by pat_completeness auto
termination
  by (relation "measure (\<lambda>(val, buf). unat val)") (auto intro: div10l_less)

declare dec_loop.simps [simp del]

text \<open>The loops of \<^verbatim>\<open>adbi_write_oct_unlocked\<close> and \<^verbatim>\<open>adbi_write_hex_unlocked\<close>: \<open>b\<close> is 8 or 16, \<open>dig\<close> the character of a digit.\<close>

function base_loop :: "u64 \<Rightarrow> (nat \<Rightarrow> char) \<Rightarrow> u64 \<Rightarrow> string \<Rightarrow> string res" where
  "base_loop b dig val buf =
     (if val = 0 \<or> b \<le> 1 then Inr buf
      else res_bind (push_char (dig (unat (val mod b))) buf) (base_loop b dig (val div b)))"
  by pat_completeness auto
termination
proof (relation "measure (\<lambda>(b, dig, val, buf). unat val)", goal_cases)
  case (2 b dig val buf c)
  then have "0 < unat val" "1 < unat b" by (auto simp: unat_gt_0 word_le_nat_alt)
  then show ?case by (simp add: unat_div)
qed simp

declare base_loop.simps [simp del]

definition adbi_write_dec_unlocked :: "u64 \<Rightarrow> string res" where
  "adbi_write_dec_unlocked val = (if val \<noteq> 0 then dec_loop val [] else Inr ''0'')"

definition adbi_write_signed_dec_unlocked :: "u64 \<Rightarrow> string res" where
  "adbi_write_signed_dec_unlocked val =
     (let minus = (val <s 0);
          val' = if minus then - val else val
      in if val' \<noteq> 0 then
           res_bind (dec_loop val' []) (\<lambda>p. if minus then push_char (CHR ''-'') p else Inr p)
         else Inr ''0'')"

definition adbi_write_oct_unlocked :: "u64 \<Rightarrow> string res" where
  "adbi_write_oct_unlocked val = (if val \<noteq> 0 then base_loop 8 (\<lambda>d. char_of (48 + d)) val [] else Inr ''0'')"

definition adbi_write_hex_unlocked :: "u64 \<Rightarrow> string res" where
  "adbi_write_hex_unlocked val = (if val \<noteq> 0 then base_loop 16 hex_char val [] else Inr ''0'')"

definition adbi_write_char_unlocked :: "u8 \<Rightarrow> string" where
  "adbi_write_char_unlocked val =
     (if val \<ge> 32 \<and> val < 127 then [char_of (unat val)]
      else [hex_char (unat (drop_bit 4 val)), hex_char (unat (val AND 0xf))])"

subsection \<open>Formatted output\<close>

datatype arg = Arg_Int u32 | Arg_Long_Long u64 | Arg_Pointer u64 | Arg_String string

text \<open>\<^verbatim>\<open>va_arg\<close> for an \<^verbatim>\<open>int\<close>, a \<^verbatim>\<open>long long\<close>, a pointer and a string.\<close>

definition va_int :: "arg list \<Rightarrow> (u32 \<times> arg list) res" where
  "va_int ap = (case ap of Arg_Int v # ap' \<Rightarrow> Inr (v, ap') | _ \<Rightarrow> Inl Out_Of_Bounds)"

definition va_long_long :: "arg list \<Rightarrow> (u64 \<times> arg list) res" where
  "va_long_long ap = (case ap of Arg_Long_Long v # ap' \<Rightarrow> Inr (v, ap') | _ \<Rightarrow> Inl Out_Of_Bounds)"

definition va_pointer :: "arg list \<Rightarrow> (u64 \<times> arg list) res" where
  "va_pointer ap = (case ap of Arg_Pointer v # ap' \<Rightarrow> Inr (v, ap') | _ \<Rightarrow> Inl Out_Of_Bounds)"

definition va_string :: "arg list \<Rightarrow> (string \<times> arg list) res" where
  "va_string ap = (case ap of Arg_String s # ap' \<Rightarrow> Inr (s, ap') | _ \<Rightarrow> Inl Out_Of_Bounds)"

definition va_unsigned :: "int \<Rightarrow> arg list \<Rightarrow> (u64 \<times> arg list) res" where
  "va_unsigned len ap =
     (if len \<ge> 5 then va_long_long ap else res_bind (va_int ap) (\<lambda>(v, ap'). Inr (ucast v, ap')))"

definition va_signed :: "int \<Rightarrow> arg list \<Rightarrow> (u64 \<times> arg list) res" where
  "va_signed len ap =
     (if len \<ge> 5 then va_long_long ap else res_bind (va_int ap) (\<lambda>(v, ap'). Inr (scast v, ap')))"

text \<open>The cases of the \<^verbatim>\<open>switch\<close> that end the inner loop: the text written and the rest of the arguments. \<open>None\<close> is any
  other character.\<close>

definition conversion :: "int \<Rightarrow> char \<Rightarrow> arg list \<Rightarrow> (string \<times> arg list) res option" where
  "conversion len c ap =
     (if c = CHR ''s'' then Some (va_string ap)
      else if c = CHR ''p'' then
        Some (res_bind (va_pointer ap) (\<lambda>(v, ap'). res_bind (adbi_write_hex_unlocked v) (\<lambda>out. Inr (out, ap'))))
      else if c \<in> {CHR ''x'', CHR ''X'', CHR ''o'', CHR ''u''} then
        Some (res_bind (va_unsigned len ap) (\<lambda>(v, ap').
          res_bind (if c = CHR ''o'' then adbi_write_oct_unlocked v
                    else if c = CHR ''u'' then adbi_write_dec_unlocked v
                    else adbi_write_hex_unlocked v) (\<lambda>out. Inr (out, ap'))))
      else if c \<in> {CHR ''i'', CHR ''d''} then
        Some (res_bind (va_signed len ap) (\<lambda>(v, ap').
          res_bind (adbi_write_signed_dec_unlocked v) (\<lambda>out. Inr (out, ap'))))
      else if c = CHR ''c'' then
        Some (res_bind (va_int ap) (\<lambda>(v, ap'). Inr (adbi_write_char_unlocked (ucast v), ap')))
      else if c \<in> set ''eEfFgGaA'' then
        Some (res_bind (va_long_long ap) (\<lambda>(_, ap'). Inr (''<float>'', ap')))
      else None)"

text \<open>The inner loop, from the character after the percent sign on.\<close>

fun convert :: "int \<Rightarrow> string \<Rightarrow> arg list \<Rightarrow> (string \<times> string \<times> arg list) res" where
  "convert len [] ap = Inr ([], [], ap)"
| "convert len (c # fmt) ap =
     (if c = CHR ''l'' then convert (len + 1) fmt ap
      else if c = CHR ''h'' then convert (len - 1) fmt ap
      else case conversion len c ap of
        Some r \<Rightarrow> res_bind r (\<lambda>(out, ap'). Inr (out, fmt, ap'))
      | None \<Rightarrow> convert len fmt ap)"

lemma convert_shorter: "convert len fmt ap = Inr (out, fmt', ap') \<Longrightarrow> length fmt' \<le> length fmt"
  by (induction len fmt ap rule: convert.induct)
    (auto simp: res_bind_eq_Inr split: if_splits option.splits intro: le_SucI)

function adbi_printf :: "string \<Rightarrow> arg list \<Rightarrow> string res" where
  "adbi_printf fmt ap =
     (let start = takeWhile (\<lambda>c. c \<noteq> CHR ''%'') fmt
      in case dropWhile (\<lambda>c. c \<noteq> CHR ''%'') fmt of
           [] \<Rightarrow> Inr start
         | _ # fmt' \<Rightarrow>
             res_bind (convert 3 fmt' ap) (\<lambda>(out, fmt'', ap').
             res_bind (adbi_printf fmt'' ap') (\<lambda>rest. Inr (start @ out @ rest))))"
  by pat_completeness auto
termination
proof (relation "measure (\<lambda>(fmt, ap). length fmt)", goal_cases)
  case (2 fmt ap start c fmt' r out fr fmt'' ap')
  then have "convert 3 fmt' ap = Inr (out, fmt'', ap')" by simp
  then have "length fmt'' \<le> length fmt'" by (rule convert_shorter)
  moreover have "Suc (length fmt') \<le> length fmt"
    using length_dropWhile_le [of "\<lambda>c. c \<noteq> CHR ''%''" fmt] 2(2) by simp
  ultimately show ?case by simp
qed simp

declare adbi_printf.simps [simp del]

section \<open>Numbers are printed in full\<close>

lemma unat_rest:
  assumes "unat v < 2 ^ 64 - 6"
  shows "unat (v - div10l v * 10) = unat v mod 10"
proof -
  have d: "unat (div10l v) = unat v div 10" using assms by (simp add: unat_div10l)
  have "unat v div 10 * 10 \<le> unat v" by simp
  then have "unat (div10l v * 10) = unat v div 10 * 10" using d assms by (simp add: unat_word_ariths)
  moreover have "div10l v * 10 \<le> v" using calculation by (simp add: word_le_nat_alt)
  ultimately show ?thesis by (simp add: unat_sub minus_div_mult_eq_mod)
qed

lemma digit_chars: "list_all (\<lambda>d. (char_of (48 + d) :: char) = hex_char d) [0..<10]"
  by code_simp

lemma digit_char_eq: "d < 10 \<Longrightarrow> (char_of (48 + d) :: char) = hex_char d"
  using digit_chars by (simp add: list_all_iff)

text \<open>What the loops leave in the buffer: nothing for zero.\<close>

definition digits :: "nat \<Rightarrow> nat \<Rightarrow> string" where
  "digits b n = (if n = 0 then [] else show_base b n)"

lemma digits_step: "2 \<le> b \<Longrightarrow> 0 < n \<Longrightarrow> digits b n = digits b (n div b) @ [hex_char (n mod b)]"
  by (cases "n < b") (simp_all add: digits_def show_base_digit show_base_step div_eq_0_iff)

lemma dec_loop_digits:
  "unat v < 2 ^ 64 - 6 \<Longrightarrow> length (digits 10 (unat v)) + length buf \<le> 25 \<Longrightarrow> dec_loop v buf = Inr (digits 10 (unat v) @ buf)"
proof (induction v buf rule: dec_loop.induct)
  case (1 v buf)
  show ?case
  proof (cases "v = 0")
    case True
    then show ?thesis by (simp add: dec_loop.simps digits_def)
  next
    case False
    then have pos: "0 < unat v" by (simp add: unat_gt_0)
    note s = digits_step [of 10, OF _ pos]
    have d: "unat (div10l v) = unat v div 10" using 1(2) by (simp add: unat_div10l)
    have c: "digit_char (v - div10l v * 10) = hex_char (unat v mod 10)"
      unfolding digit_char_def unat_rest [OF 1(2)] by (rule digit_char_eq) simp
    have "dec_loop (div10l v) (hex_char (unat v mod 10) # buf) = Inr (digits 10 (unat v div 10) @ hex_char (unat v mod 10) # buf)"
      using 1(1) [OF False refl refl, of "hex_char (unat v mod 10) # buf"] 1(2,3) c d s
      by (simp add: push_char_def)
    then show ?thesis using False c s 1(3) by (subst dec_loop.simps) (simp add: push_char_def Let_def)
  qed
qed

lemma base_loop_digits:
  assumes "\<And>d. d < unat b \<Longrightarrow> dig d = hex_char d" "1 < b"
  shows "length (digits (unat b) (unat v)) + length buf \<le> 25 \<Longrightarrow> base_loop b dig v buf = Inr (digits (unat b) (unat v) @ buf)"
  using assms
proof (induction b dig v buf rule: base_loop.induct)
  case (1 b dig v buf)
  show ?case
  proof (cases "v = 0")
    case True
    then show ?thesis by (simp add: base_loop.simps digits_def)
  next
    case False
    then have pos: "0 < unat v" by (simp add: unat_gt_0)
    have b: "2 \<le> unat b" using 1(4) by (simp add: word_less_nat_alt)
    note s = digits_step [OF b pos]
    have c: "dig (unat (v mod b)) = hex_char (unat v mod unat b)"
      using 1(3) [of "unat v mod unat b"] b by (simp add: unat_mod)
    have "base_loop b dig (v div b) (hex_char (unat v mod unat b) # buf) =
        Inr (digits (unat b) (unat v div unat b) @ hex_char (unat v mod unat b) # buf)"
      using 1(1) [of "hex_char (unat v mod unat b) # buf"] 1(2-4) c s False by (simp add: push_char_def unat_div)
    then show ?thesis using False c s 1(2,4) by (subst base_loop.simps) (simp add: push_char_def)
  qed
qed

lemma digits_eq: "v \<noteq> 0 \<Longrightarrow> digits b (unat v) = show_base b (unat (v :: u64))"
  by (simp add: digits_def unat_eq_0)

lemma digits_fit: "length (digits 8 (unat (v :: u64))) \<le> 22" "length (digits 10 (unat v)) \<le> 20" "length (digits 16 (unat v)) \<le> 16"
proof -
  have v: "unat v < 2 ^ 64" using unsigned_less [of v] by simp
  then have "unat v < 8 ^ 22" "unat v < 10 ^ 20" "unat v < 16 ^ 16" by simp_all
  then show "length (digits 8 (unat v)) \<le> 22" "length (digits 10 (unat v)) \<le> 20" "length (digits 16 (unat v)) \<le> 16"
    by (simp_all add: digits_def show_base_length del: power_numeral)
qed

lemma write_dec: "unat v < 2 ^ 64 - 6 \<Longrightarrow> adbi_write_dec_unlocked v = Inr (show_dec (unat v))"
  using dec_loop_digits [of v "[]"] digits_fit(2) [of v]
  by (cases "v = 0") (simp_all add: adbi_write_dec_unlocked_def digits_eq show_base_digit hex_char_def)

lemma write_hex: "adbi_write_hex_unlocked v = Inr (show_hex (unat v))"
  using base_loop_digits [of 16 hex_char v "[]"] digits_fit(3) [of v]
  by (cases "v = 0") (simp_all add: adbi_write_hex_unlocked_def digits_eq show_base_digit hex_char_def)

lemma write_oct: "adbi_write_oct_unlocked v = Inr (show_oct (unat v))"
  using base_loop_digits [of 8 "\<lambda>d. char_of (48 + d)" v "[]"] digits_fit(1) [of v]
  by (cases "v = 0") (simp_all add: adbi_write_oct_unlocked_def digits_eq show_base_digit hex_char_def digit_char_eq)

lemma sint_range: "- (2 ^ 63) \<le> sint v" "sint v < 2 ^ 63" for v :: u64
  using sint_greater_eq [of v] sint_less [of v] by simp_all

lemma unat_of_sint: "0 \<le> i \<Longrightarrow> i < 2 ^ 64 \<Longrightarrow> unat (word_of_int i :: u64) = nat i"
  by (simp add: unsigned_of_int take_bit_int_eq_self)

lemma sint_cases: "v <s 0 \<Longrightarrow> unat (- v) = nat (- sint v)" "\<not> v <s 0 \<Longrightarrow> unat v = nat (sint v)" for v :: u64
proof -
  have w: "word_of_int (- sint v) = - v" "word_of_int (sint v) = v" by simp_all
  show "v <s 0 \<Longrightarrow> unat (- v) = nat (- sint v)"
    using sint_range [of v] unat_of_sint [of "- sint v"] unfolding w by (simp add: word_sless_alt)
  show "\<not> v <s 0 \<Longrightarrow> unat v = nat (sint v)"
    using sint_range [of v] unat_of_sint [of "sint v"] unfolding w by (simp add: word_sless_alt)
qed

definition show_int :: "int \<Rightarrow> string" where
  "show_int i = (if i < 0 then CHR ''-'' # show_dec (nat (- i)) else show_dec (nat i))"

lemma write_signed: "adbi_write_signed_dec_unlocked v = Inr (show_int (sint v))"
proof (cases "v <s 0")
  case True
  then have u: "unat (- v) = nat (- sint v)" "sint v < 0" using sint_cases(1) by (simp_all add: word_sless_alt)
  then have "unat (- v) < 2 ^ 64 - 6" "- v \<noteq> 0" using sint_range(1) [of v] True by auto
  then have "dec_loop (- v) [] = Inr (show_dec (unat (- v)))" "length (show_dec (unat (- v))) < 25"
    using dec_loop_digits [of "- v" "[]"] digits_fit(2) [of "- v"] by (simp_all add: digits_eq)
  then show ?thesis using True u \<open>- v \<noteq> 0\<close>
    by (simp add: adbi_write_signed_dec_unlocked_def push_char_def show_int_def)
next
  case False
  then have u: "unat v = nat (sint v)" "\<not> sint v < 0" using sint_cases(2) by (simp_all add: word_sless_alt)
  then have "unat v < 2 ^ 64 - 6" using sint_range(2) [of v] by auto
  then show ?thesis using False u write_dec [of v]
    by (cases "v = 0") (simp_all add: adbi_write_signed_dec_unlocked_def adbi_write_dec_unlocked_def show_int_def)
qed

section \<open>Formats\<close>

text \<open>The formats the function is written for: literal text and conversions with their arguments, numbers either with
  or without the modifier \<^verbatim>\<open>ll\<close>.\<close>

datatype item =
    Text string
  | Str string
  | Chr u8
  | Ptr u64
  | Unsigned char u32
  | Unsigned_Long char u64
  | Signed char u32
  | Signed_Long char u64

fun item_format :: "item \<Rightarrow> string" where
  "item_format (Text s) = s"
| "item_format (Str s) = ''%s''"
| "item_format (Chr c) = ''%c''"
| "item_format (Ptr p) = ''%p''"
| "item_format (Unsigned c v) = [CHR ''%'', c]"
| "item_format (Unsigned_Long c v) = [CHR ''%'', CHR ''l'', CHR ''l'', c]"
| "item_format (Signed c v) = [CHR ''%'', c]"
| "item_format (Signed_Long c v) = [CHR ''%'', CHR ''l'', CHR ''l'', c]"

fun item_args :: "item \<Rightarrow> arg list" where
  "item_args (Text s) = []"
| "item_args (Str s) = [Arg_String s]"
| "item_args (Chr c) = [Arg_Int (ucast c)]"
| "item_args (Ptr p) = [Arg_Pointer p]"
| "item_args (Unsigned c v) = [Arg_Int v]"
| "item_args (Unsigned_Long c v) = [Arg_Long_Long v]"
| "item_args (Signed c v) = [Arg_Int v]"
| "item_args (Signed_Long c v) = [Arg_Long_Long v]"

definition show_unsigned :: "char \<Rightarrow> nat \<Rightarrow> string" where
  "show_unsigned c n = (if c = CHR ''o'' then show_oct n else if c = CHR ''u'' then show_dec n else show_hex n)"

fun item_text :: "item \<Rightarrow> string" where
  "item_text (Text s) = s"
| "item_text (Str s) = s"
| "item_text (Chr c) = adbi_write_char_unlocked c"
| "item_text (Ptr p) = show_hex (unat p)"
| "item_text (Unsigned c v) = show_unsigned c (unat v)"
| "item_text (Unsigned_Long c v) = show_unsigned c (unat v)"
| "item_text (Signed c v) = show_int (sint v)"
| "item_text (Signed_Long c v) = show_int (sint v)"

fun item_ok :: "item \<Rightarrow> bool" where
  "item_ok (Text s) = (CHR ''%'' \<notin> set s)"
| "item_ok (Unsigned c v) = (c \<in> set ''xXou'')"
| "item_ok (Unsigned_Long c v) = (c \<in> set ''xXou'' \<and> v < 0xfffffffffffffffa)"
| "item_ok (Signed c v) = (c \<in> set ''id'')"
| "item_ok (Signed_Long c v) = (c \<in> set ''id'')"
| "item_ok _ = True"

lemma printf_text:
  assumes "CHR ''%'' \<notin> set s"
  shows "adbi_printf (s @ fmt) ap = res_bind (adbi_printf fmt ap) (\<lambda>r. Inr (s @ r))"
proof -
  define w where "w = takeWhile (\<lambda>c. c \<noteq> CHR ''%'') fmt"
  define d where "d = dropWhile (\<lambda>c. c \<noteq> CHR ''%'') fmt"
  let ?rest = "\<lambda>w. case d of [] \<Rightarrow> Inr w
    | _ # fmt' \<Rightarrow> res_bind (convert 3 fmt' ap) (\<lambda>(out, fmt'', ap').
        res_bind (adbi_printf fmt'' ap') (\<lambda>rest. Inr (w @ out @ rest)))"
  have "takeWhile (\<lambda>c. c \<noteq> CHR ''%'') (s @ fmt) = s @ w" "dropWhile (\<lambda>c. c \<noteq> CHR ''%'') (s @ fmt) = d"
    using assms unfolding w_def d_def by (induction s) auto
  then have "adbi_printf (s @ fmt) ap = ?rest (s @ w)" by (subst adbi_printf.simps) (simp only: Let_def)
  moreover have "adbi_printf fmt ap = ?rest w" by (subst adbi_printf.simps) (simp only: Let_def w_def d_def)
  ultimately show ?thesis by (cases d) (simp_all add: res_bind_def split: sum.splits)
qed

lemma printf_conversion:
  assumes "convert 3 fmt ap = Inr (out, fmt', ap')"
  shows "adbi_printf (CHR ''%'' # fmt) ap = res_bind (adbi_printf fmt' ap') (\<lambda>r. Inr (out @ r))"
  using assms by (subst adbi_printf.simps) simp

lemma unsigned_conversion:
  assumes "c \<in> set ''xXou''" "c = CHR ''u'' \<longrightarrow> unat v < 2 ^ 64 - 6" "va_unsigned len ap = Inr (v, ap')"
  shows "conversion len c ap = Some (Inr (show_unsigned c (unat v), ap'))"
  using assms by (auto simp: conversion_def write_oct write_dec write_hex show_unsigned_def)

lemma signed_conversion:
  assumes "c \<in> set ''id''" "va_signed len ap = Inr (v, ap')"
  shows "conversion len c ap = Some (Inr (show_int (sint v), ap'))"
  using assms by (auto simp: conversion_def write_signed)

lemma unat_ucast_32: "unat (ucast (v :: u32) :: u64) = unat v"
  using unat_less_32 [of v] by (simp add: unsigned_ucast_eq take_bit_nat_eq_self)

lemma sint_scast_32: "sint (scast (v :: u32) :: u64) = sint v"
  by (rule sint_up_scast) (simp add: is_up)

lemma printf_item:
  assumes "item_ok i"
  shows "adbi_printf (item_format i @ fmt) (item_args i @ ap) = res_bind (adbi_printf fmt ap) (\<lambda>r. Inr (item_text i @ r))"
proof (cases i)
  case (Text s)
  then show ?thesis using assms printf_text by simp
next
  case (Str s)
  then show ?thesis by (simp add: printf_conversion conversion_def va_string_def)
next
  case (Chr c)
  moreover have "(ucast (ucast c :: u32) :: u8) = c" by (rule bit_word_eqI) (simp add: bit_ucast_iff)
  ultimately show ?thesis by (simp add: printf_conversion conversion_def va_int_def)
next
  case (Ptr p)
  then show ?thesis by (simp add: printf_conversion conversion_def va_pointer_def write_hex)
next
  case (Unsigned c v)
  then have c: "c \<in> set ''xXou''" using assms by simp
  have "unat (ucast v :: u64) < 2 ^ 64 - 6" using unat_less_32 [of v] by (simp add: unat_ucast_32)
  then have "conversion 3 c (Arg_Int v # ap) = Some (Inr (show_unsigned c (unat v), ap))"
    using unsigned_conversion [OF c, of "ucast v" 3 "Arg_Int v # ap" ap] by (simp add: va_unsigned_def va_int_def unat_ucast_32)
  then have "convert 3 (c # fmt) (Arg_Int v # ap) = Inr (show_unsigned c (unat v), fmt, ap)" using c by auto
  then show ?thesis using Unsigned by (simp add: printf_conversion del: convert.simps)
next
  case (Unsigned_Long c v)
  then have c: "c \<in> set ''xXou''" "unat v < 2 ^ 64 - 6" using assms by (simp_all add: word_less_nat_alt)
  then have "conversion 5 c (Arg_Long_Long v # ap) = Some (Inr (show_unsigned c (unat v), ap))"
    using unsigned_conversion [OF c(1), of v 5 "Arg_Long_Long v # ap" ap] by (simp add: va_unsigned_def va_long_long_def)
  then have "convert 3 (CHR ''l'' # CHR ''l'' # c # fmt) (Arg_Long_Long v # ap) = Inr (show_unsigned c (unat v), fmt, ap)"
    using c by auto
  then show ?thesis using Unsigned_Long by (simp add: printf_conversion del: convert.simps)
next
  case (Signed c v)
  then have c: "c \<in> set ''id''" using assms by simp
  have "conversion 3 c (Arg_Int v # ap) = Some (Inr (show_int (sint v), ap))"
    using signed_conversion [OF c, of 3 "Arg_Int v # ap" "scast v" ap] by (simp add: va_signed_def va_int_def sint_scast_32)
  then have "convert 3 (c # fmt) (Arg_Int v # ap) = Inr (show_int (sint v), fmt, ap)" using c by auto
  then show ?thesis using Signed by (simp add: printf_conversion del: convert.simps)
next
  case (Signed_Long c v)
  then have c: "c \<in> set ''id''" using assms by simp
  have "conversion 5 c (Arg_Long_Long v # ap) = Some (Inr (show_int (sint v), ap))"
    using signed_conversion [OF c, of 5 "Arg_Long_Long v # ap" v ap] by (simp add: va_signed_def va_long_long_def)
  then have "convert 3 (CHR ''l'' # CHR ''l'' # c # fmt) (Arg_Long_Long v # ap) = Inr (show_int (sint v), fmt, ap)"
    using c by auto
  then show ?thesis using Signed_Long by (simp add: printf_conversion del: convert.simps)
qed

section \<open>Properties\<close>



text \<open>the write loop. However the kernel splits the output into partial writes, and however often it interrupts them,
  the loop ends and the whole text has been written, in order, if no call fails and the counts of the calls
  add up to the length of the text.\<close>

theorem adbi_write_all:
  assumes "Failed \<notin> set rs" "sum_list (map (\<lambda>r. case r of Written n \<Rightarrow> n | _ \<Rightarrow> 0) rs) \<ge> length str"
  shows "adbi_write_unlocked rs str = Some str"
  using assms
proof (induction rs str rule: adbi_write_unlocked.induct)
  case (3 r rs c cs)
  show ?case
  proof (cases r)
    case (Written n)
    then have "adbi_write_unlocked rs (drop n (c # cs)) = Some (drop n (c # cs))" using 3 by auto
    then show ?thesis using Written by simp
  qed (use 3 in auto)
qed simp_all

text \<open>Witness: three calls for four characters.\<close>

theorem adbi_write_all_witness:
  "adbi_write_unlocked [Written 1, Interrupted, Written 3] ''adbi'' = Some ''adbi''"
  using adbi_write_all [of "[Written 1, Interrupted, Written 3]" "''adbi''"] by simp

end
