(* ===== verification/Process_List.thy ===== *)
theory Process_List
  imports Asdd_Tree
begin

text \<open>
  The tables of traced processes and threads and their reference counts: \<^verbatim>\<open>process/list.c\<close>, with the creation and
  the destruction of the objects in \<^verbatim>\<open>process/process.c\<close> and \<^verbatim>\<open>process/thread.c\<close>. Objects are at addresses of a
  heap; an access to an address without an object is an access to freed memory. \<^verbatim>\<open>adbi_malloc\<close> is the
  parameter \<open>a\<close> of the functions that allocate. The reference counters do not wrap around.
\<close>

section \<open>Definitions\<close>

type_synonym pid = nat
type_synonym ptr = nat

record thread_state =
  running :: bool
  slavemode :: bool
  execed :: bool
  stopme :: bool
  signo :: int
  setoptions :: bool
  dead :: bool

record thread_t =
  process :: ptr
  thread_pid :: pid
  thread_state :: thread_state
  notified :: bool
  thread_references :: nat

record process_t =
  process_pid :: pid
  process_threads :: "(pid, ptr) tree_t"
  process_references :: nat
  mode32 :: bool
  stabilizing :: bool
  spawned :: bool

record tables =
  process_heap :: "ptr \<Rightarrow> process_t option"
  thread_heap :: "ptr \<Rightarrow> thread_t option"
  processes :: "(pid, ptr) tree_t"
  threads :: "(pid, ptr) tree_t"
  spawned_pids :: "(pid, ptr) tree_t"

definition process_at :: "tables \<Rightarrow> ptr \<Rightarrow> process_t res" where
  "process_at w p = (case process_heap w p of None \<Rightarrow> Inl Dangling | Some x \<Rightarrow> Inr x)"

definition thread_at :: "tables \<Rightarrow> ptr \<Rightarrow> thread_t res" where
  "thread_at w t = (case thread_heap w t of None \<Rightarrow> Inl Dangling | Some y \<Rightarrow> Inr y)"

definition set_process :: "tables \<Rightarrow> ptr \<Rightarrow> process_t \<Rightarrow> tables" where
  "set_process w p x = w\<lparr>process_heap := (process_heap w)(p \<mapsto> x)\<rparr>"

definition set_thread :: "tables \<Rightarrow> ptr \<Rightarrow> thread_t \<Rightarrow> tables" where
  "set_thread w t y = w\<lparr>thread_heap := (thread_heap w)(t \<mapsto> y)\<rparr>"

subsection \<open>Processes\<close>

text \<open>The segments and the injections that \<^verbatim>\<open>process_free\<close> releases are not part of these tables.\<close>

definition process_free :: "tables \<Rightarrow> ptr \<Rightarrow> tables res" where
  "process_free w p =
     res_bind (process_at w p) (\<lambda>x.
     adbi_assure (process_references x = 0)
     (adbi_assure (tree_empty (process_threads x))
     (Inr (w\<lparr>process_heap := (process_heap w)(p := None)\<rparr>))))"

definition process_put :: "tables \<Rightarrow> ptr \<Rightarrow> tables res" where
  "process_put w p =
     res_bind (process_at w p) (\<lambda>x.
     adbi_assure (process_references x > 0)
     (let w' = set_process w p (x\<lparr>process_references := process_references x - 1\<rparr>)
      in if process_references x - 1 = 0 then process_free w' p else Inr w'))"

definition process_dup :: "tables \<Rightarrow> ptr \<Rightarrow> tables res" where
  "process_dup w p =
     res_bind (process_at w p) (\<lambda>x. Inr (set_process w p (x\<lparr>process_references := process_references x + 1\<rparr>)))"

definition process_get :: "tables \<Rightarrow> pid \<Rightarrow> (ptr option \<times> tables) res" where
  "process_get w k =
     (case tree_get (processes w) k of
        None \<Rightarrow> Inr (None, w)
      | Some p \<Rightarrow> res_bind (process_dup w p) (\<lambda>w'. Inr (Some p, w')))"

definition process_add :: "(pid, ptr) tree_lib \<Rightarrow> tables \<Rightarrow> ptr \<Rightarrow> tables res" where
  "process_add lib w p =
     res_bind (process_at w p) (\<lambda>x.
     res_bind (tree_insert lib (processes w) (process_pid x) p) (\<lambda>ps.
     process_dup (w\<lparr>processes := ps\<rparr>) p))"

definition process_del :: "(pid, ptr) tree_lib \<Rightarrow> tables \<Rightarrow> ptr \<Rightarrow> tables res" where
  "process_del lib w p =
     res_bind (process_at w p) (\<lambda>x.
     res_bind (tree_remove lib (processes w) (process_pid x)) (\<lambda>ps.
     process_put (w\<lparr>processes := ps\<rparr>) p))"

text \<open>\<open>raw\<close> is what the allocated memory holds: \<open>mode32\<close> and \<open>spawned\<close> are set by the callers.\<close>

definition process_create :: "(pid, ptr) tree_lib \<Rightarrow> tables \<Rightarrow> ptr \<Rightarrow> process_t \<Rightarrow> pid \<Rightarrow> tables res" where
  "process_create lib w a raw k =
     process_add lib (set_process w a (raw\<lparr>process_pid := k, process_threads := Leaf, process_references := 1,
       stabilizing := False\<rparr>)) a"

subsection \<open>Threads\<close>

definition thread_free :: "(pid, ptr) tree_lib \<Rightarrow> tables \<Rightarrow> ptr \<Rightarrow> tables res" where
  "thread_free lib w t =
     res_bind (thread_at w t) (\<lambda>y.
     adbi_assure (thread_references y = 0)
     (let w1 = w\<lparr>thread_heap := (thread_heap w)(t := None)\<rparr>
      in res_bind (process_at w1 (process y)) (\<lambda>x.
         res_bind (if tree_empty (process_threads x) then process_del lib w1 (process y) else Inr w1) (\<lambda>w2.
         process_put w2 (process y)))))"

definition thread_put :: "(pid, ptr) tree_lib \<Rightarrow> tables \<Rightarrow> ptr \<Rightarrow> tables res" where
  "thread_put lib w t =
     res_bind (thread_at w t) (\<lambda>y.
     adbi_assure (thread_references y > 0)
     (let w' = set_thread w t (y\<lparr>thread_references := thread_references y - 1\<rparr>)
      in if thread_references y - 1 = 0 then thread_free lib w' t else Inr w'))"

definition thread_dup :: "tables \<Rightarrow> ptr \<Rightarrow> tables res" where
  "thread_dup w t =
     res_bind (thread_at w t) (\<lambda>y. Inr (set_thread w t (y\<lparr>thread_references := thread_references y + 1\<rparr>)))"

definition thread_get :: "tables \<Rightarrow> pid \<Rightarrow> (ptr option \<times> tables) res" where
  "thread_get w k =
     (case tree_get (threads w) k of
        None \<Rightarrow> Inr (None, w)
      | Some t \<Rightarrow> res_bind (thread_dup w t) (\<lambda>w'. Inr (Some t, w')))"

definition thread_add :: "(pid, ptr) tree_lib \<Rightarrow> tables \<Rightarrow> ptr \<Rightarrow> tables res" where
  "thread_add lib w t =
     res_bind (thread_at w t) (\<lambda>y.
     res_bind (tree_insert lib (threads w) (thread_pid y) t) (\<lambda>ts.
     res_bind (process_at w (process y)) (\<lambda>x.
     res_bind (tree_insert lib (process_threads x) (thread_pid y) t) (\<lambda>pts.
     thread_dup (set_process (w\<lparr>threads := ts\<rparr>) (process y) (x\<lparr>process_threads := pts\<rparr>)) t))))"

definition thread_del :: "(pid, ptr) tree_lib \<Rightarrow> tables \<Rightarrow> ptr \<Rightarrow> tables res" where
  "thread_del lib w t =
     res_bind (thread_at w t) (\<lambda>y.
     res_bind (tree_remove lib (threads w) (thread_pid y)) (\<lambda>ts.
     res_bind (process_at w (process y)) (\<lambda>x.
     res_bind (tree_remove lib (process_threads x) (thread_pid y)) (\<lambda>pts.
     thread_put lib (set_process (w\<lparr>threads := ts\<rparr>) (process y) (x\<lparr>process_threads := pts\<rparr>)) t))))"

definition initial_thread_state :: thread_state where
  "initial_thread_state = \<lparr>running = False, slavemode = False, execed = False, stopme = False, signo = 0,
     setoptions = True, dead = False\<rparr>"

definition thread_create :: "(pid, ptr) tree_lib \<Rightarrow> tables \<Rightarrow> ptr \<Rightarrow> ptr \<Rightarrow> pid \<Rightarrow> tables res" where
  "thread_create lib w a p k =
     (let w1 = set_thread w a \<lparr>process = p, thread_pid = k, thread_state = initial_thread_state, notified = True,
                 thread_references = 1\<rparr>
      in res_bind (process_dup w1 p) (\<lambda>w2. thread_add lib w2 a))"

definition spawn_is_spawned :: "tables \<Rightarrow> pid \<Rightarrow> bool" where
  "spawn_is_spawned w k = tree_contains (spawned_pids w) k"

definition spawn_died :: "(pid, ptr) tree_lib \<Rightarrow> tables \<Rightarrow> pid \<Rightarrow> tables res" where
  "spawn_died lib w k = res_bind (tree_remove lib (spawned_pids w) k) (\<lambda>s. Inr (w\<lparr>spawned_pids := s\<rparr>))"

definition thread_exit :: "(pid, ptr) tree_lib \<Rightarrow> tables \<Rightarrow> ptr \<Rightarrow> tables res" where
  "thread_exit lib w t =
     res_bind (thread_at w t) (\<lambda>y.
     res_bind (if spawn_is_spawned w (thread_pid y) then spawn_died lib w (thread_pid y) else Inr w) (\<lambda>w1.
     thread_del lib
       (set_thread w1 t (y\<lparr>thread_state := (thread_state y)\<lparr>running := False, dead := True\<rparr>\<rparr>)) t))"

text \<open>
  The iteration keeps the next node while the body runs; the bodies used in the program remove no other node than
  the current one, so that the nodes visited are those the iteration started with.
\<close>

fun iter_processes :: "(tables \<Rightarrow> ptr \<Rightarrow> tables res) \<Rightarrow> tables \<Rightarrow> ptr list \<Rightarrow> tables res" where
  "iter_processes fn w [] = Inr w"
| "iter_processes fn w (p # ps) =
     res_bind (process_dup w p) (\<lambda>w1.
     res_bind (fn w1 p) (\<lambda>w2.
     res_bind (process_put w2 p) (\<lambda>w3. iter_processes fn w3 ps)))"

definition process_iter :: "(tables \<Rightarrow> ptr \<Rightarrow> tables res) \<Rightarrow> tables \<Rightarrow> tables res" where
  "process_iter fn w = iter_processes fn w (tree_vals (processes w))"

fun iter_threads :: "(pid, ptr) tree_lib \<Rightarrow> (tables \<Rightarrow> ptr \<Rightarrow> tables res) \<Rightarrow> tables \<Rightarrow> ptr list \<Rightarrow> tables res" where
  "iter_threads lib fn w [] = Inr w"
| "iter_threads lib fn w (t # ts) =
     res_bind (thread_dup w t) (\<lambda>w1.
     res_bind (fn w1 t) (\<lambda>w2.
     res_bind (thread_put lib w2 t) (\<lambda>w3. iter_threads lib fn w3 ts)))"

definition thread_iter :: "(pid, ptr) tree_lib \<Rightarrow> (tables \<Rightarrow> ptr \<Rightarrow> tables res) \<Rightarrow> tables \<Rightarrow> ptr \<Rightarrow> tables res" where
  "thread_iter lib fn w p =
     res_bind (process_at w p) (\<lambda>x. iter_threads lib fn w (tree_vals (process_threads x)))"

fun first_thread :: "(thread_t \<Rightarrow> bool) \<Rightarrow> tables \<Rightarrow> ptr list \<Rightarrow> (ptr option \<times> tables) res" where
  "first_thread P w [] = Inr (None, w)"
| "first_thread P w (t # ts) =
     res_bind (thread_at w t) (\<lambda>y.
     if P y then res_bind (thread_dup w t) (\<lambda>w'. Inr (Some t, w')) else first_thread P w ts)"

definition thread_any :: "(thread_t \<Rightarrow> bool) \<Rightarrow> tables \<Rightarrow> ptr \<Rightarrow> (ptr option \<times> tables) res" where
  "thread_any P w p = res_bind (process_at w p) (\<lambda>x. first_thread P w (tree_vals (process_threads x)))"

definition thread_any_running :: "tables \<Rightarrow> ptr \<Rightarrow> (ptr option \<times> tables) res" where
  "thread_any_running = thread_any (\<lambda>y. running (thread_state y))"

definition thread_any_stopped :: "tables \<Rightarrow> ptr \<Rightarrow> (ptr option \<times> tables) res" where
  "thread_any_stopped = thread_any (\<lambda>y. \<not> running (thread_state y) \<and> \<not> dead (thread_state y))"

section \<open>The invariant\<close>

text \<open>
  \<open>ph\<close> and \<open>th\<close> count the references that local variables hold to each process and thread. A process is referenced
  by the table, by its threads and by local variables; a thread by the tables (once) and by local variables.
\<close>

definition listed :: "tables \<Rightarrow> ptr \<Rightarrow> process_t \<Rightarrow> bool" where
  "listed w p x \<longleftrightarrow> tree_map (processes w) (process_pid x) = Some p"

definition enrolled :: "tables \<Rightarrow> ptr \<Rightarrow> thread_t \<Rightarrow> bool" where
  "enrolled w t y \<longleftrightarrow> tree_map (threads w) (thread_pid y) = Some t"

definition members :: "tables \<Rightarrow> ptr \<Rightarrow> ptr set" where
  "members w p = {t. \<exists>y. thread_heap w t = Some y \<and> process y = p}"

definition process_count :: "tables \<Rightarrow> ptr \<Rightarrow> process_t \<Rightarrow> nat \<Rightarrow> nat" where
  "process_count w p x n = of_bool (listed w p x) + card (members w p) + n"

definition thread_count :: "tables \<Rightarrow> ptr \<Rightarrow> thread_t \<Rightarrow> nat \<Rightarrow> nat" where
  "thread_count w t y n = of_bool (enrolled w t y) + n"

definition processes_counted :: "tables \<Rightarrow> (ptr \<Rightarrow> nat) \<Rightarrow> bool" where
  "processes_counted w ph \<longleftrightarrow> (\<forall>p x. process_heap w p = Some x \<longrightarrow>
     process_references x = process_count w p x (ph p) \<and> 0 < process_count w p x (ph p))"

definition threads_counted :: "tables \<Rightarrow> (ptr \<Rightarrow> nat) \<Rightarrow> bool" where
  "threads_counted w th \<longleftrightarrow> (\<forall>t y. thread_heap w t = Some y \<longrightarrow>
     thread_references y = thread_count w t y (th t) \<and> 0 < thread_count w t y (th t))"

definition tables_consistent :: "tables \<Rightarrow> bool" where
  "tables_consistent w \<longleftrightarrow> tree_ok (processes w) \<and> tree_ok (threads w) \<and> finite (dom (thread_heap w))
     \<and> (\<forall>p x. process_heap w p = Some x \<longrightarrow> tree_ok (process_threads x))
     \<and> (\<forall>t y. thread_heap w t = Some y \<longrightarrow> process_heap w (process y) \<noteq> None)
     \<and> (\<forall>k p. tree_map (processes w) k = Some p \<longrightarrow> (\<exists>x. process_heap w p = Some x \<and> process_pid x = k))
     \<and> (\<forall>k t. tree_map (threads w) k = Some t \<longrightarrow> (\<exists>y. thread_heap w t = Some y \<and> thread_pid y = k))
     \<and> (\<forall>p x k t. process_heap w p = Some x \<longrightarrow>
          (tree_map (process_threads x) k = Some t \<longleftrightarrow>
             tree_map (threads w) k = Some t \<and> (\<exists>y. thread_heap w t = Some y \<and> process y = p)))"

definition held_alive :: "tables \<Rightarrow> (ptr \<Rightarrow> nat) \<Rightarrow> (ptr \<Rightarrow> nat) \<Rightarrow> bool" where
  "held_alive w ph th \<longleftrightarrow> (\<forall>p. 0 < ph p \<longrightarrow> process_heap w p \<noteq> None) \<and> (\<forall>t. 0 < th t \<longrightarrow> thread_heap w t \<noteq> None)"

definition refs_ok :: "tables \<Rightarrow> (ptr \<Rightarrow> nat) \<Rightarrow> (ptr \<Rightarrow> nat) \<Rightarrow> bool" where
  "refs_ok w ph th \<longleftrightarrow> tables_consistent w \<and> processes_counted w ph \<and> threads_counted w th \<and> held_alive w ph th"

text \<open>A change of an object that keeps its place in the tables, with the counter that the references account for.\<close>

lemma refs_ok_set_process:
  assumes "refs_ok w ph th" "process_heap w p = Some x" "process_pid x' = process_pid x"
    and "process_threads x' = process_threads x"
    and "process_references x' = process_count w p x (ph' p)" "0 < process_references x'"
    and "\<And>q. q \<noteq> p \<Longrightarrow> ph' q = ph q"
  shows "refs_ok (set_process w p x') ph' th"
proof -
  let ?w = "set_process w p x'"
  have c: "process_count ?w q z = process_count w q z" "thread_count ?w t y = thread_count w t y" for q z t y
    by (auto simp: process_count_def thread_count_def listed_def enrolled_def members_def set_process_def)
  have x: "process_count w p x' = process_count w p x"
    by (rule ext) (simp add: process_count_def listed_def assms(3))
  have "tables_consistent ?w"
    using assms(1-4) unfolding refs_ok_def tables_consistent_def set_process_def by (auto; metis option.inject)
  moreover have "processes_counted ?w ph'"
    using assms(1,5,6,7) x unfolding refs_ok_def processes_counted_def c by (auto simp: set_process_def)
  moreover have "threads_counted ?w th"
    using assms(1) unfolding refs_ok_def threads_counted_def c by (simp add: set_process_def)
  moreover have "held_alive ?w ph' th"
    using assms(1,7) unfolding refs_ok_def held_alive_def set_process_def by auto
  ultimately show ?thesis unfolding refs_ok_def by blast
qed

lemma refs_ok_set_thread:
  assumes "refs_ok w ph th" "thread_heap w t = Some y" "process y' = process y" "thread_pid y' = thread_pid y"
    and "thread_references y' = thread_count w t y (th' t)" "0 < thread_references y'"
    and "\<And>q. q \<noteq> t \<Longrightarrow> th' q = th q"
  shows "refs_ok (set_thread w t y') ph th'"
proof -
  let ?w = "set_thread w t y'"
  have m: "members ?w p = members w p" for p
    using assms(2,3) unfolding members_def set_thread_def by auto
  have c: "process_count ?w p x = process_count w p x" "thread_count ?w q z = thread_count w q z" for p x q z
    unfolding process_count_def thread_count_def listed_def enrolled_def m by (simp_all add: set_thread_def)
  have y: "thread_count w t y' = thread_count w t y"
    by (rule ext) (simp add: thread_count_def enrolled_def assms(4))
  have "tables_consistent ?w"
    using assms(1-4) unfolding refs_ok_def tables_consistent_def set_thread_def by (auto; metis option.inject)
  moreover have "processes_counted ?w ph"
    using assms(1) unfolding refs_ok_def processes_counted_def c by (simp add: set_thread_def)
  moreover have "threads_counted ?w th'"
    using assms(1,5,6,7) y unfolding refs_ok_def threads_counted_def c by (auto simp: set_thread_def)
  moreover have "held_alive ?w ph th'"
    using assms(1,7) unfolding refs_ok_def held_alive_def set_thread_def by auto
  ultimately show ?thesis unfolding refs_ok_def by blast
qed

lemma process_dup_ok:
  assumes "refs_ok w ph th" "process_heap w p = Some x"
  shows "\<exists>w'. process_dup w p = Inr w' \<and> refs_ok w' (ph(p := Suc (ph p))) th"
proof -
  have "process_references x = process_count w p x (ph p)"
    using assms unfolding refs_ok_def processes_counted_def by blast
  then show ?thesis
    using refs_ok_set_process [OF assms, of "x\<lparr>process_references := process_references x + 1\<rparr>" "ph(p := Suc (ph p))"]
    by (simp add: process_dup_def process_at_def assms(2) process_count_def)
qed

lemma thread_dup_ok:
  assumes "refs_ok w ph th" "thread_heap w t = Some y"
  shows "\<exists>w'. thread_dup w t = Inr w' \<and> refs_ok w' ph (th(t := Suc (th t)))"
proof -
  have "thread_references y = thread_count w t y (th t)"
    using assms unfolding refs_ok_def threads_counted_def by blast
  then show ?thesis
    using refs_ok_set_thread [OF assms, of "y\<lparr>thread_references := thread_references y + 1\<rparr>" "th(t := Suc (th t))"]
    by (simp add: thread_dup_def thread_at_def assms(2) thread_count_def)
qed

lemma refs_okD:
  assumes "refs_ok w ph th"
  shows "tables_consistent w" "processes_counted w ph" "threads_counted w th" "held_alive w ph th"
  using assms unfolding refs_ok_def by simp_all

lemma process_counted:
  "refs_ok w ph th \<Longrightarrow> process_heap w p = Some x \<Longrightarrow>
   process_references x = process_count w p x (ph p) \<and> 0 < process_count w p x (ph p)"
  using refs_okD(2) unfolding processes_counted_def by blast

lemma thread_counted:
  "refs_ok w ph th \<Longrightarrow> thread_heap w t = Some y \<Longrightarrow>
   thread_references y = thread_count w t y (th t) \<and> 0 < thread_count w t y (th t)"
  using refs_okD(3) unfolding threads_counted_def by blast

lemma held_process: "refs_ok w ph th \<Longrightarrow> 0 < ph p \<Longrightarrow> \<exists>x. process_heap w p = Some x"
  using refs_okD(4) unfolding held_alive_def by blast

lemma held_thread: "refs_ok w ph th \<Longrightarrow> 0 < th t \<Longrightarrow> \<exists>y. thread_heap w t = Some y"
  using refs_okD(4) unfolding held_alive_def by blast

lemma members_finite: "tables_consistent w \<Longrightarrow> finite (members w p)"
  unfolding tables_consistent_def members_def by (rule finite_subset [of _ "dom (thread_heap w)"]) auto

text \<open>A process that nothing accounts for has no thread left and can be freed.\<close>

lemma refs_ok_free_process:
  assumes "refs_ok w (ph(p := Suc 0)) th" "process_heap w p = Some x"
    and "\<not> listed w p x" "members w p = {}" "ph p = 0"
  shows "process_threads x = Leaf" "refs_ok (w\<lparr>process_heap := (process_heap w)(p := None)\<rparr>) ph th"
proof -
  let ?w = "w\<lparr>process_heap := (process_heap w)(p := None)\<rparr>"
  note c = refs_okD [OF assms(1)]
  have ok: "tree_ok (process_threads x)" using c(1) assms(2) unfolding tables_consistent_def by blast
  have "tree_map (process_threads x) k \<noteq> Some t" for k t
    using c(1) assms(2,4) unfolding tables_consistent_def members_def by blast
  then show "process_threads x = Leaf" using tree_nonempty_map [OF ok] by (metis (no_types))
  have u: "tree_map (processes w) k \<noteq> Some p" for k
    using c(1) assms(2,3) unfolding tables_consistent_def listed_def by force
  have n: "process y \<noteq> p" if "thread_heap w t = Some y" for t y
    using assms(4) that unfolding members_def by auto
  have cnt: "process_count ?w q z = process_count w q z" "thread_count ?w t y = thread_count w t y" for q z t y
    by (auto simp: process_count_def thread_count_def listed_def enrolled_def members_def)
  have "tables_consistent ?w"
    using c(1) u n unfolding tables_consistent_def by (auto; fastforce)
  moreover have "processes_counted ?w ph"
    using c(2) unfolding processes_counted_def cnt by (simp, metis)
  moreover have "threads_counted ?w th"
    using c(3) unfolding threads_counted_def cnt by simp
  moreover have "held_alive ?w ph th"
    using c(4) assms(5) unfolding held_alive_def by auto
  ultimately show "refs_ok ?w ph th" unfolding refs_ok_def by blast
qed

lemma process_put_ok:
  assumes "refs_ok w ph th" "ph p = Suc n"
  shows "\<exists>w'. process_put w p = Inr w' \<and> refs_ok w' (ph(p := n)) th \<and> processes w' = processes w
    \<and> threads w' = threads w \<and> thread_heap w' = thread_heap w \<and> (\<forall>q. q \<noteq> p \<longrightarrow> process_heap w' q = process_heap w q)"
proof -
  obtain x where x: "process_heap w p = Some x" using held_process [OF assms(1)] assms(2) by force
  note cnt = process_counted [OF assms(1) x]
  let ?x = "x\<lparr>process_references := process_references x - 1\<rparr>"
  show ?thesis
  proof (cases "process_references x = 1")
    case False
    then have "refs_ok (set_process w p ?x) (ph(p := n)) th"
      using cnt assms(2) by (intro refs_ok_set_process [OF assms(1) x]) (auto simp: process_count_def)
    then show ?thesis using False cnt by (auto simp: process_put_def process_at_def x set_process_def)
  next
    case True
    then have z: "\<not> listed w p x" "members w p = {}" "n = 0"
      using cnt assms(2) members_finite [OF refs_okD(1) [OF assms(1)]] by (auto simp: process_count_def split: if_splits)
    have "refs_ok w ((ph(p := n))(p := Suc 0)) th" using assms z(3) by (simp add: fun_upd_idem)
    note f = refs_ok_free_process [OF this x z(1,2)]
    then show ?thesis using True z(3)
      by (auto simp: process_put_def process_at_def x process_free_def set_process_def tree_empty_def)
  qed
qed

text \<open>When a thread leaves the heap, or a process the table, its reference is left to the caller.\<close>

lemma refs_ok_free_thread:
  assumes "refs_ok w ph (th(t := Suc 0))" "thread_heap w t = Some y" "\<not> enrolled w t y" "th t = 0"
  shows "refs_ok (w\<lparr>thread_heap := (thread_heap w)(t := None)\<rparr>) (ph(process y := Suc (ph (process y)))) th"
proof -
  let ?w = "w\<lparr>thread_heap := (thread_heap w)(t := None)\<rparr>"
  note c = refs_okD [OF assms(1)]
  have u: "tree_map (threads w) k \<noteq> Some t" for k
    using c(1) assms(2,3) unfolding tables_consistent_def enrolled_def by force
  have m: "members ?w p = members w p - {t}" for p unfolding members_def by auto
  have "card (members w (process y)) = Suc (card (members ?w (process y)))"
    unfolding m using assms(2) members_finite [OF c(1)]
    by (intro card.remove [OF _ ]) (auto simp: members_def)
  moreover have "members ?w q = members w q" if "q \<noteq> process y" for q
    unfolding m using that assms(2) by (auto simp: members_def)
  ultimately have cnt: "process_count ?w q z ((ph(process y := Suc (ph (process y)))) q) = process_count w q z (ph q)" for q z
    by (cases "q = process y") (simp_all add: process_count_def listed_def)
  have tcnt: "thread_count ?w q z = thread_count w q z" for q z by (auto simp: thread_count_def enrolled_def)
  have "tables_consistent ?w"
    using c(1) u unfolding tables_consistent_def by (auto; metis option.distinct(1))
  moreover have "processes_counted ?w (ph(process y := Suc (ph (process y))))"
    using c(2) unfolding processes_counted_def cnt by simp
  moreover have "threads_counted ?w th"
    using c(3) unfolding threads_counted_def tcnt by (simp, metis)
  moreover have "process_heap w (process y) \<noteq> None"
    using c(1) assms(2) unfolding tables_consistent_def by blast
  then have "held_alive ?w (ph(process y := Suc (ph (process y)))) th"
    using c(4) assms(4) unfolding held_alive_def by auto
  ultimately show ?thesis unfolding refs_ok_def by blast
qed

lemma refs_ok_unlist:
  assumes "refs_ok w ph th" "process_heap w p = Some x" "listed w p x"
    and "tree_ok ps" "tree_map ps = (tree_map (processes w))(process_pid x := None)"
  shows "refs_ok (w\<lparr>processes := ps\<rparr>) (ph(p := Suc (ph p))) th"
proof -
  let ?w = "w\<lparr>processes := ps\<rparr>"
  note c = refs_okD [OF assms(1)]
  have o: "listed ?w q z = listed w q z" if "process_heap w q = Some z" "q \<noteq> p" for q z
    using c(1) that assms(3) unfolding listed_def by (auto simp: assms(5))
  have cnt: "process_count ?w q z ((ph(p := Suc (ph p))) q) = process_count w q z (ph q)" if "process_heap w q = Some z" for q z
    using that assms(2,3) o [OF that]
    by (cases "q = p") (auto simp: process_count_def members_def listed_def assms(5))
  have "tables_consistent ?w"
    using c(1) assms(4) unfolding tables_consistent_def by (auto simp: assms(5))
  moreover have "processes_counted ?w (ph(p := Suc (ph p)))"
    using c(2) cnt unfolding processes_counted_def by simp
  moreover have "threads_counted ?w th"
    using c(3) unfolding threads_counted_def by (simp add: thread_count_def enrolled_def)
  moreover have "held_alive ?w (ph(p := Suc (ph p))) th"
    using c(4) assms(2) unfolding held_alive_def by auto
  ultimately show ?thesis unfolding refs_ok_def by blast
qed

text \<open>Enrolling a new thread, and taking one out of both tables.\<close>

lemma refs_ok_enrol:
  assumes "refs_ok w ph th" "thread_heap w a = None" "process_heap w p = Some x" "tree_map (threads w) k = None"
    and "process y = p" "thread_pid y = k" "thread_references y = 2"
    and "tree_ok ts" "tree_map ts = (tree_map (threads w))(k \<mapsto> a)"
    and "tree_ok pts" "tree_map pts = (tree_map (process_threads x))(k \<mapsto> a)"
    and x'_def: "x' = x\<lparr>process_references := process_references x + 1, process_threads := pts\<rparr>"
  shows "refs_ok (w\<lparr>threads := ts, process_heap := (process_heap w)(p \<mapsto> x'),
           thread_heap := (thread_heap w)(a \<mapsto> y)\<rparr>) ph (th(a := 1))" (is "refs_ok ?w ph ?th")
proof -
  note c = refs_okD [OF assms(1)]
  have a0: "th a = 0" using c(4) assms(2) unfolding held_alive_def by fastforce
  have na: "tree_map (threads w) j \<noteq> Some a" for j using c(1) assms(2) unfolding tables_consistent_def by force
  have e: "members ?w p = insert a (members w p)" using assms(5) by (auto simp: members_def)
  have "a \<notin> members w p" using assms(2) by (simp add: members_def)
  then have mp: "card (members ?w p) = Suc (card (members w p))"
    unfolding e using members_finite [OF c(1), of p] by simp
  have mq: "members ?w q = members w q" if "q \<noteq> p" for q using that assms(2,5) by (auto simp: members_def)
  have pc: "process_count ?w p x' n = Suc (process_count w p x n)" for n
    unfolding process_count_def mp by (simp add: listed_def x'_def)
  have qc: "process_count ?w q z = process_count w q z" if "q \<noteq> p" for q z
    by (rule ext) (simp add: process_count_def mq [OF that] listed_def)
  have tc: "thread_count ?w t z = thread_count w t z" if "thread_heap w t = Some z" for t z
    using that assms(2,4) na by (intro ext) (auto simp: thread_count_def enrolled_def assms(9))
  have "tables_consistent ?w"
    using c(1) assms(2-6,8,10) na unfolding tables_consistent_def x'_def
    by (auto simp: assms(9,11); metis option.inject)
  moreover have "processes_counted ?w ph"
    using c(2) assms(3) qc unfolding processes_counted_def by (auto simp: pc) (simp add: x'_def)
  moreover have "threads_counted ?w ?th"
    using c(3) assms(2,4) tc a0 unfolding threads_counted_def
    by (auto simp: thread_count_def enrolled_def assms(6,7,9); metis option.distinct(1))
  moreover have "held_alive ?w ph ?th" using c(4) unfolding held_alive_def by auto
  ultimately show ?thesis unfolding refs_ok_def by blast
qed

lemma refs_ok_withdraw:
  assumes "refs_ok w ph th" "thread_heap w t = Some y" "process_heap w (process y) = Some x" "enrolled w t y"
    and "tree_ok ts" "tree_map ts = (tree_map (threads w))(thread_pid y := None)"
    and "tree_ok pts" "tree_map pts = (tree_map (process_threads x))(thread_pid y := None)"
  shows "refs_ok (set_process (w\<lparr>threads := ts\<rparr>) (process y) (x\<lparr>process_threads := pts\<rparr>)) ph (th(t := Suc (th t)))"
    (is "refs_ok ?w ph ?th")
proof -
  note c = refs_okD [OF assms(1)]
  have pc: "process_count ?w q z = process_count w q z" for q z
    by (auto simp: process_count_def listed_def members_def set_process_def)
  have px: "process_count w q (x\<lparr>process_threads := pts\<rparr>) = process_count w q x" for q
    by (auto simp: process_count_def listed_def)
  have o: "enrolled ?w q z = enrolled w q z" if "thread_heap w q = Some z" "q \<noteq> t" for q z
    using that assms(4) unfolding enrolled_def set_process_def by (auto simp: assms(6))
  have tc: "thread_count ?w q z (?th q) = thread_count w q z (th q)" if "thread_heap w q = Some z" for q z
    using that assms(2,4) o [OF that]
    by (cases "q = t") (auto simp: thread_count_def enrolled_def set_process_def assms(6))
  have "tables_consistent ?w"
    using c(1) assms(2-5,7) unfolding tables_consistent_def set_process_def enrolled_def
    by (auto simp: assms(6,8); metis option.inject)
  moreover have "processes_counted ?w ph"
    using c(2) assms(3) unfolding processes_counted_def pc by (auto simp: set_process_def px)
  moreover have "threads_counted ?w ?th"
    using c(3) tc unfolding threads_counted_def by (simp add: set_process_def)
  moreover have "held_alive ?w ph ?th" using c(4) assms(2) unfolding held_alive_def by (auto simp: set_process_def)
  ultimately show ?thesis unfolding refs_ok_def by blast
qed

text \<open>
  Releasing the last reference to a thread whose process has no enrolled thread takes the process out of the table;
  \<open>releasable\<close> says that it is there.
\<close>

definition releasable :: "tables \<Rightarrow> ptr \<Rightarrow> bool" where
  "releasable w t \<longleftrightarrow> (\<forall>y x. thread_heap w t = Some y \<longrightarrow> process_heap w (process y) = Some x \<longrightarrow>
     thread_references y = 1 \<longrightarrow> process_threads x = Leaf \<longrightarrow> listed w (process y) x)"

locale process_tables = tree_library lib for lib :: "(pid, ptr) tree_lib"
begin

lemma process_del_ok:
  assumes "refs_ok w ph th" "process_heap w p = Some x" "listed w p x"
  shows "\<exists>w'. process_del lib w p = Inr w' \<and> refs_ok w' ph th"
proof -
  have ok: "tree_ok (processes w)" using refs_okD(1) [OF assms(1)] unfolding tables_consistent_def by blast
  obtain ps where ps: "tree_remove lib (processes w) (process_pid x) = Inr ps" "tree_ok ps"
    "tree_map ps = (tree_map (processes w))(process_pid x := None)"
    using remove_spec [OF ok, of "process_pid x"] assms(3) unfolding listed_def by auto
  show ?thesis using process_put_ok [OF refs_ok_unlist [OF assms ps(2,3)], of p "ph p"]
    by (auto simp: process_del_def process_at_def assms(2) ps(1))
qed

lemma process_del_unlisted:
  assumes "refs_ok w ph th" "process_heap w p = Some x" "tree_map (processes w) (process_pid x) = None"
  shows "process_del lib w p = Inl Assertion"
proof -
  have ok: "tree_ok (processes w)" using refs_okD(1) [OF assms(1)] unfolding tables_consistent_def by blast
  show ?thesis by (simp add: process_del_def process_at_def assms(2) remove_missing [OF ok assms(3)])
qed

text \<open>The part of \<open>thread_put\<close> that runs when the last reference goes.\<close>

lemma thread_put_last:
  assumes "refs_ok w ph th" "thread_heap w t = Some y" "th t = Suc n" "thread_references y = 1"
  defines "w1 \<equiv> w\<lparr>thread_heap := (thread_heap w)(t := None)\<rparr>"
  shows "refs_ok w1 (ph(process y := Suc (ph (process y)))) (th(t := n))"
    "\<exists>x. process_heap w (process y) = Some x \<and> thread_put lib w t =
       res_bind (if process_threads x = Leaf then process_del lib w1 (process y) else Inr w1) (\<lambda>w2. process_put w2 (process y))"
proof -
  have n: "\<not> enrolled w t y" "n = 0"
    using thread_counted [OF assms(1,2)] assms(3,4) by (auto simp: thread_count_def split: if_splits)
  have "th = (th(t := n))(t := Suc 0)" using assms(3) n(2) by auto
  then show "refs_ok w1 (ph(process y := Suc (ph (process y)))) (th(t := n))"
    unfolding w1_def using refs_ok_free_thread [of w ph "th(t := n)" t y] assms(1,2) n by simp
  have "process_heap w (process y) \<noteq> None"
    using refs_okD(1) [OF assms(1)] assms(2) unfolding tables_consistent_def by blast
  then show "\<exists>x. process_heap w (process y) = Some x \<and> thread_put lib w t =
       res_bind (if process_threads x = Leaf then process_del lib w1 (process y) else Inr w1) (\<lambda>w2. process_put w2 (process y))"
    by (auto simp: thread_put_def thread_at_def assms(2,4) thread_free_def set_thread_def process_at_def tree_empty_def w1_def)
qed

lemma thread_put_ok:
  assumes "refs_ok w ph th" "th t = Suc n" "releasable w t"
  shows "\<exists>w'. thread_put lib w t = Inr w' \<and> refs_ok w' ph (th(t := n))"
proof -
  obtain y where y: "thread_heap w t = Some y" using held_thread [OF assms(1)] assms(2) by force
  note cnt = thread_counted [OF assms(1) y]
  show ?thesis
  proof (cases "thread_references y = 1")
    case False
    let ?y = "y\<lparr>thread_references := thread_references y - 1\<rparr>"
    have "refs_ok (set_thread w t ?y) ph (th(t := n))"
      using cnt assms(2) False by (intro refs_ok_set_thread [OF assms(1) y]) (auto simp: thread_count_def)
    then show ?thesis using False cnt by (auto simp: thread_put_def thread_at_def y)
  next
    case True
    let ?w1 = "w\<lparr>thread_heap := (thread_heap w)(t := None)\<rparr>" and ?ph = "ph(process y := Suc (ph (process y)))"
    note r = thread_put_last [OF assms(1) y assms(2) True]
    obtain x where x: "process_heap w (process y) = Some x" and put: "thread_put lib w t =
       res_bind (if process_threads x = Leaf then process_del lib ?w1 (process y) else Inr ?w1) (\<lambda>w2. process_put w2 (process y))"
      using r(2) by blast
    have "\<exists>w2. (if process_threads x = Leaf then process_del lib ?w1 (process y) else Inr ?w1) = Inr w2 \<and>
        refs_ok w2 ?ph (th(t := n))"
    proof (cases "process_threads x = Leaf")
      case True
      have "listed ?w1 (process y) x"
        using assms(3) y x \<open>thread_references y = 1\<close> True unfolding releasable_def listed_def by simp
      then show ?thesis using process_del_ok [OF r(1), of "process y" x] x True by simp
    qed (use r(1) in simp)
    then obtain w2 where w2: "(if process_threads x = Leaf then process_del lib ?w1 (process y) else Inr ?w1) = Inr w2"
      "refs_ok w2 ?ph (th(t := n))" by blast
    show ?thesis using process_put_ok [OF w2(2), of "process y" "ph (process y)"] put w2(1) by auto
  qed
qed

lemma thread_put_fault:
  assumes "refs_ok w ph th" "th t = Suc n" "thread_heap w t = Some y" "process_heap w (process y) = Some x"
    and "thread_references y = 1" "process_threads x = Leaf" "tree_map (processes w) (process_pid x) = None"
  shows "thread_put lib w t = Inl Assertion"
proof -
  note r = thread_put_last [OF assms(1,3,2,5)]
  show ?thesis using r(2) process_del_unlisted [OF r(1), of "process y" x] assms(4,6,7) by auto
qed

lemma thread_create_ok:
  assumes "refs_ok w ph th" "thread_heap w a = None" "process_heap w p = Some x" "tree_map (threads w) k = None"
  shows "\<exists>w'. thread_create lib w a p k = Inr w' \<and> refs_ok w' ph (th(a := 1))"
proof -
  note c = refs_okD(1) [OF assms(1)]
  have ok: "tree_ok (threads w)" "tree_ok (process_threads x)" using c assms(3) unfolding tables_consistent_def by blast+
  have "tree_map (process_threads x) k \<noteq> Some t" for t
    using c assms(3,4) unfolding tables_consistent_def by (metis (no_types) option.distinct(1))
  then have "tree_map (process_threads x) k = None" by (meson not_None_eq)
  then obtain ts pts where t: "tree_insert lib (threads w) k a = Inr ts" "tree_ok ts" "tree_map ts = (tree_map (threads w))(k \<mapsto> a)"
    "tree_insert lib (process_threads x) k a = Inr pts" "tree_ok pts" "tree_map pts = (tree_map (process_threads x))(k \<mapsto> a)"
    using insert_spec [OF ok(1) assms(4), of a] insert_spec [OF ok(2), of k a] by blast
  let ?y = "\<lparr>process = p, thread_pid = k, thread_state = initial_thread_state, notified = True, thread_references = 2\<rparr>"
  have "refs_ok (w\<lparr>threads := ts, process_heap := (process_heap w)
      (p \<mapsto> x\<lparr>process_references := process_references x + 1, process_threads := pts\<rparr>),
      thread_heap := (thread_heap w)(a \<mapsto> ?y)\<rparr>) ph (th(a := 1))"
    by (rule refs_ok_enrol [OF assms _ _ _ t(2,3,5,6) refl]) simp_all
  then show ?thesis
    using assms(3) t(1,4)
    by (simp add: thread_create_def set_thread_def process_dup_def process_at_def set_process_def thread_add_def
        thread_at_def thread_dup_def numeral_2_eq_2)
qed

lemma thread_del_ok:
  assumes "refs_ok w ph th" "thread_heap w t = Some y" "process_heap w (process y) = Some x" "enrolled w t y"
    and "th t = 0 \<Longrightarrow> listed w (process y) x"
  shows "\<exists>w'. thread_del lib w t = Inr w' \<and> refs_ok w' ph th"
proof -
  note c = refs_okD(1) [OF assms(1)]
  have ok: "tree_ok (threads w)" "tree_ok (process_threads x)" using c assms(3) unfolding tables_consistent_def by blast+
  have e: "tree_map (threads w) (thread_pid y) = Some t" using assms(4) unfolding enrolled_def .
  then have "tree_map (process_threads x) (thread_pid y) = Some t"
    using c assms(2,3) unfolding tables_consistent_def by blast
  then obtain ts pts where t: "tree_remove lib (threads w) (thread_pid y) = Inr ts" "tree_ok ts"
    "tree_map ts = (tree_map (threads w))(thread_pid y := None)" "tree_remove lib (process_threads x) (thread_pid y) = Inr pts"
    "tree_ok pts" "tree_map pts = (tree_map (process_threads x))(thread_pid y := None)"
    using remove_spec [OF ok(1), of "thread_pid y"] remove_spec [OF ok(2), of "thread_pid y"] e by auto
  let ?w = "set_process (w\<lparr>threads := ts\<rparr>) (process y) (x\<lparr>process_threads := pts\<rparr>)"
  note r = refs_ok_withdraw [OF assms(1-4) t(2,3,5,6)]
  have "releasable ?w t"
    using assms(2-5) thread_counted [OF assms(1,2)]
    by (auto simp: releasable_def set_process_def listed_def thread_count_def)
  then have "\<exists>w'. thread_put lib ?w t = Inr w' \<and> refs_ok w' ph th"
    using thread_put_ok [OF r, of t "th t"] by simp
  then show ?thesis by (simp add: thread_del_def thread_at_def assms(2) t(1,4) process_at_def assms(3))
qed

lemma spawned_only:
  "\<exists>s. (if spawn_is_spawned w k then spawn_died lib w k else Inr w) = Inr (w\<lparr>spawned_pids := s\<rparr>)"
proof (cases "tree_get_node (spawned_pids w) k")
  case None
  then show ?thesis by (intro exI [of _ "spawned_pids w"]) (simp add: spawn_is_spawned_def tree_contains_def)
next
  case (Some n)
  then show ?thesis
    by (simp add: spawn_is_spawned_def tree_contains_def spawn_died_def tree_remove_def tree_discard_def exI [of _ "tree_remove_node lib n"])
qed

lemma thread_exit_ok:
  assumes "refs_ok w ph th" "thread_heap w t = Some y" "process_heap w (process y) = Some x" "enrolled w t y"
    and "th t = 0 \<Longrightarrow> listed w (process y) x"
  shows "\<exists>w'. thread_exit lib w t = Inr w' \<and> refs_ok w' ph th"
proof -
  let ?y = "y\<lparr>thread_state := (thread_state y)\<lparr>running := False, dead := True\<rparr>\<rparr>"
  obtain s where s: "(if spawn_is_spawned w (thread_pid y) then spawn_died lib w (thread_pid y) else Inr w)
      = Inr (w\<lparr>spawned_pids := s\<rparr>)"
    using spawned_only [of w "thread_pid y"] by blast
  let ?w = "set_thread (w\<lparr>spawned_pids := s\<rparr>) t ?y"
  have "refs_ok (w\<lparr>spawned_pids := s\<rparr>) ph th"
    using assms(1) by (simp add: refs_ok_def tables_consistent_def processes_counted_def threads_counted_def
        held_alive_def process_count_def thread_count_def listed_def enrolled_def members_def)
  then have "refs_ok ?w ph th"
    using thread_counted [OF assms(1,2)] assms(2)
    by (intro refs_ok_set_thread [of _ ph th t y]) (simp_all add: thread_count_def enrolled_def)
  then have "\<exists>w'. thread_del lib ?w t = Inr w' \<and> refs_ok w' ph th"
    using assms(3-5) by (intro thread_del_ok [of ?w ph th t ?y x]) (simp_all add: set_thread_def enrolled_def listed_def)
  then show ?thesis by (simp add: thread_exit_def thread_at_def assms(2) s)
qed

lemma process_create_ok:
  assumes "refs_ok w ph th" "process_heap w a = None" "tree_map (processes w) k = None"
  shows "\<exists>w'. process_create lib w a raw k = Inr w' \<and> refs_ok w' (ph(a := 1)) th"
proof -
  note c = refs_okD [OF assms(1)]
  have "tree_ok (processes w)" using c(1) unfolding tables_consistent_def by blast
  then obtain ps where t: "tree_insert lib (processes w) k a = Inr ps" "tree_ok ps" "tree_map ps = (tree_map (processes w))(k \<mapsto> a)"
    using insert_spec [OF _ assms(3), of a] by blast
  let ?x = "raw\<lparr>process_pid := k, process_threads := Leaf, stabilizing := False, process_references := 2\<rparr>"
  let ?w = "w\<lparr>processes := ps, process_heap := (process_heap w)(a \<mapsto> ?x)\<rparr>"
  have na: "process y \<noteq> a" if "thread_heap w t = Some y" for t y
    using c(1) that assms(2) unfolding tables_consistent_def by force
  then have m: "members w a = {}" by (auto simp: members_def)
  have pa: "tree_map (processes w) j \<noteq> Some a" for j using c(1) assms(2) unfolding tables_consistent_def by force
  have pc: "process_count ?w q z = process_count w q z" if "process_heap w q = Some z" for q z
    using that assms(2,3) pa by (intro ext) (auto simp: process_count_def listed_def members_def t(3))
  have tc: "thread_count ?w = thread_count w" by (intro ext) (auto simp: thread_count_def enrolled_def)
  have "members ?w a = {}" using m by (simp add: members_def)
  then have ca: "process_count ?w a ?x 1 = 2" by (simp add: process_count_def listed_def t(3))
  have "tables_consistent ?w"
    using c(1) na pa assms(2,3) t(2) unfolding tables_consistent_def by (auto simp: t(3) tree_ok_def tree_map_def [of Leaf])
  moreover have "processes_counted ?w (ph(a := 1))"
    using c(2) pc assms(2) ca unfolding processes_counted_def by (auto simp: ca)
  moreover have "threads_counted ?w th" using c(3) unfolding threads_counted_def tc by simp
  moreover have "held_alive ?w (ph(a := 1)) th" using c(4) unfolding held_alive_def by auto
  ultimately have "refs_ok ?w (ph(a := 1)) th" unfolding refs_ok_def by blast
  then show ?thesis
    by (simp add: process_create_def set_process_def process_add_def process_at_def t(1) process_dup_def numeral_2_eq_2)
qed

end

section \<open>The program's use of the tables\<close>

text \<open>
  What the rest of the program does with the tables: look an object up, take another reference, create, let go, and let
  a thread exit. Each clause gives the tables and the references that local variables hold after it.
\<close>

type_synonym refs_state = "tables \<times> (ptr \<Rightarrow> nat) \<times> (ptr \<Rightarrow> nat)"

inductive uses :: "(pid, ptr) tree_lib \<Rightarrow> refs_state \<Rightarrow> refs_state \<Rightarrow> bool" for lib where
  Get_process: "process_get w k = Inr (Some p, w') \<Longrightarrow> uses lib (w, ph, th) (w', ph(p := Suc (ph p)), th)"
| Dup_process: "0 < ph p \<Longrightarrow> process_dup w p = Inr w' \<Longrightarrow> uses lib (w, ph, th) (w', ph(p := Suc (ph p)), th)"
| Put_process: "ph p = Suc n \<Longrightarrow> process_put w p = Inr w' \<Longrightarrow> uses lib (w, ph, th) (w', ph(p := n), th)"
| Create_process: "process_heap w a = None \<Longrightarrow> process_create lib w a raw k = Inr w' \<Longrightarrow>
    uses lib (w, ph, th) (w', ph(a := 1), th)"
| Get_thread: "thread_get w k = Inr (Some t, w') \<Longrightarrow> uses lib (w, ph, th) (w', ph, th(t := Suc (th t)))"
| Dup_thread: "0 < th t \<Longrightarrow> thread_dup w t = Inr w' \<Longrightarrow> uses lib (w, ph, th) (w', ph, th(t := Suc (th t)))"
| Put_thread: "th t = Suc n \<Longrightarrow> releasable w t \<Longrightarrow> thread_put lib w t = Inr w' \<Longrightarrow>
    uses lib (w, ph, th) (w', ph, th(t := n))"
| Create_thread: "thread_heap w a = None \<Longrightarrow> 0 < ph p \<Longrightarrow> thread_create lib w a p k = Inr w' \<Longrightarrow>
    uses lib (w, ph, th) (w', ph, th(a := 1))"
| Exit_thread: "th t = Suc n \<Longrightarrow> thread_heap w t = Some y \<Longrightarrow> tree_get (threads w) (thread_pid y) = Some t \<Longrightarrow>
    thread_exit lib w t = Inr w' \<Longrightarrow> uses lib (w, ph, th) (w', ph, th)"

definition no_tables :: refs_state where
  "no_tables = (\<lparr>process_heap = \<lambda>_. None, thread_heap = \<lambda>_. None, processes = Leaf, threads = Leaf,
     spawned_pids = Leaf\<rparr>, \<lambda>_. 0, \<lambda>_. 0)"

lemma refs_ok_no_tables: "no_tables = (w, ph, th) \<Longrightarrow> refs_ok w ph th"
  by (auto simp: no_tables_def refs_ok_def tables_consistent_def processes_counted_def threads_counted_def
      held_alive_def tree_ok_def tree_map_def)

lemma tree_get_alive:
  assumes "refs_ok w ph th"
  shows "tree_get (processes w) k = Some p \<Longrightarrow> \<exists>x. process_heap w p = Some x"
    "tree_get (threads w) k = Some t \<Longrightarrow> \<exists>y. thread_heap w t = Some y"
  using refs_okD(1) [OF assms] tree_get_map unfolding tables_consistent_def by metis+

context process_tables
begin

lemma uses_refs_ok:
  assumes "uses lib s s'" "refs_ok (fst s) (fst (snd s)) (snd (snd s))"
  shows "refs_ok (fst s') (fst (snd s')) (snd (snd s'))"
  using assms
proof (induction rule: uses.induct)
  case (Get_process w k p w' ph th)
  then obtain x where "process_heap w p = Some x"
    using tree_get_alive(1) [of w ph th k p] by (auto simp: process_get_def res_bind_eq_Inr split: option.splits)
  then show ?case using Get_process process_dup_ok [of w ph th p x]
    by (auto simp: process_get_def res_bind_eq_Inr fun_upd_def split: option.splits)
next
  case (Dup_process ph p w w' th)
  then show ?case using held_process [of w ph th p] process_dup_ok [of w ph th p] by (auto simp: fun_upd_def)
next
  case (Put_process ph p n w w' th)
  then show ?case using process_put_ok [of w ph th p n] by (auto simp: fun_upd_def)
next
  case (Create_process w a raw k w' ph th)
  then show ?case
  proof (cases "tree_map (processes w) k")
    case None
    then show ?thesis using Create_process process_create_ok [of w ph th a k raw] by (auto simp: fun_upd_def)
  next
    case (Some q)
    have "tree_ok (processes w)" using Create_process refs_okD(1) [of w ph th] unfolding tables_consistent_def by simp
    then have "process_create lib w a raw k = Inl Assertion"
      using insert_duplicate [of "processes w" k a] Some
      by (simp add: process_create_def set_process_def process_add_def process_at_def)
    then show ?thesis using Create_process(2) by simp
  qed
next
  case (Get_thread w k t w' ph th)
  then obtain y where "thread_heap w t = Some y"
    using tree_get_alive(2) [of w ph th k t] by (auto simp: thread_get_def res_bind_eq_Inr split: option.splits)
  then show ?case using Get_thread thread_dup_ok [of w ph th t y]
    by (auto simp: thread_get_def res_bind_eq_Inr fun_upd_def split: option.splits)
next
  case (Dup_thread th t w w' ph)
  then show ?case using held_thread [of w ph th t] thread_dup_ok [of w ph th t] by (auto simp: fun_upd_def)
next
  case (Put_thread th t n w w' ph)
  then show ?case using thread_put_ok [of w ph th t n] by (auto simp: fun_upd_def)
next
  case (Create_thread w a ph p k w' th)
  then obtain x where x: "process_heap w p = Some x" using held_process [of w ph th p] by auto
  show ?case
  proof (cases "tree_map (threads w) k")
    case None
    then show ?thesis using Create_thread x thread_create_ok [of w ph th a p x k] by (auto simp: fun_upd_def)
  next
    case (Some q)
    have "tree_ok (threads w)" using Create_thread refs_okD(1) [of w ph th] unfolding tables_consistent_def by simp
    then have "thread_create lib w a p k = Inl Assertion"
      using insert_duplicate [of "threads w" k a] Some x
      by (simp add: thread_create_def set_thread_def process_dup_def process_at_def set_process_def thread_add_def thread_at_def)
    then show ?thesis using Create_thread(3) by simp
  qed
next
  case (Exit_thread th t n w y w' ph)
  then have c: "tables_consistent w" using refs_okD(1) [of w ph th] by simp
  then obtain x where "process_heap w (process y) = Some x"
    using Exit_thread(2) unfolding tables_consistent_def by blast
  moreover have "enrolled w t y"
    using Exit_thread(3) c tree_get_map [of "threads w"] unfolding tables_consistent_def enrolled_def by simp
  ultimately show ?case using Exit_thread thread_exit_ok [of w ph th t y x] by (auto simp: fun_upd_def)
qed

lemma reachable_refs_ok:
  "(uses lib)\<^sup>*\<^sup>* no_tables s \<Longrightarrow> refs_ok (fst s) (fst (snd s)) (snd (snd s))"
  by (induction rule: rtranclp_induct) (auto simp: uses_refs_ok refs_ok_no_tables prod_eq_iff)

end

interpretation tables_of: process_tables "leaf_lib d" for d
  by (rule process_tables.intro) (rule leaf_lib_contract)

section \<open>Properties\<close>


text \<open>Witness: a process and its thread, created with insertion at a leaf.\<close>

definition fresh_process :: process_t where
  "fresh_process = \<lparr>process_pid = 0, process_threads = Leaf, process_references = 0, mode32 = False, stabilizing = False,
     spawned = False\<rparr>"

definition one_thread :: tables where
  "one_thread = \<lparr>process_heap = [0 \<mapsto> \<lparr>process_pid = 10, process_threads = Node Leaf (10, 1) Leaf, process_references = 3,
       mode32 = False, stabilizing = False, spawned = False\<rparr>],
     thread_heap = [1 \<mapsto> \<lparr>process = 0, thread_pid = 10, thread_state = initial_thread_state, notified = True,
       thread_references = 2\<rparr>],
     processes = Node Leaf (10, 0) Leaf, threads = Node Leaf (10, 1) Leaf, spawned_pids = Leaf\<rparr>"

lemma one_thread_reached:
  "(uses (leaf_lib 0))\<^sup>*\<^sup>* no_tables (one_thread, (\<lambda>_. 0)(0 := 1), (\<lambda>_. 0)(1 := 1))"
proof -
  let ?p = "(fst no_tables)\<lparr>processes := Node Leaf (10, 0) Leaf, process_heap := [0 \<mapsto> \<lparr>process_pid = 10,
    process_threads = Leaf, process_references = 2, mode32 = False, stabilizing = False, spawned = False\<rparr>]\<rparr>"
  note defs = fresh_process_def no_tables_def process_create_def set_process_def process_add_def process_at_def process_dup_def tree_insert_def
    leaf_lib_def set_val_def node_tree_def thread_create_def set_thread_def thread_add_def thread_at_def thread_dup_def one_thread_def
  have "uses (leaf_lib 0) no_tables (?p, (\<lambda>_. 0)(0 := 1), (\<lambda>_. 0))"
    using Create_process [of "fst no_tables" 0 "leaf_lib 0" fresh_process 10 ?p "\<lambda>_. 0" "\<lambda>_. 0"] by (simp add: defs numeral_2_eq_2)
  moreover have "uses (leaf_lib 0) (?p, (\<lambda>_. 0)(0 := 1), (\<lambda>_. 0)) (one_thread, (\<lambda>_. 0)(0 := 1), (\<lambda>_. 0)(1 := 1))"
    using Create_thread [of ?p 1 "(\<lambda>_. 0)(0 := 1)" 0 "leaf_lib 0" 10 one_thread "\<lambda>_. 0"] by (simp add: defs numeral_2_eq_2 numeral_3_eq_3)
  ultimately show ?thesis by auto
qed


text \<open>Letting a thread go takes it and, with its last thread, the process out of the tables without a fault exactly
  when the process is still listed at that time: a process that has lost all its threads while two of them were still
  referenced was taken out with the first of them, and the release of the second one aborts the server.\<close>

theorem thread_put_aborts_iff:
  assumes "tree_library lib" "refs_ok w ph th" "th t = Suc n" "thread_heap w t = Some y"
    and "process_heap w (process y) = Some x"
    and "\<And>q. tree_map (processes w) (process_pid x) = Some q \<Longrightarrow> q = process y"
  shows "thread_put lib w t = Inl Assertion \<longleftrightarrow>
    thread_references y = 1 \<and> process_threads x = Leaf \<and> tree_map (processes w) (process_pid x) = None"
proof
  assume "thread_references y = 1 \<and> process_threads x = Leaf \<and> tree_map (processes w) (process_pid x) = None"
  then show "thread_put lib w t = Inl Assertion"
    using process_tables.thread_put_fault [OF process_tables.intro [OF assms(1)] assms(2-5)] by blast
next
  assume f: "thread_put lib w t = Inl Assertion"
  have "\<not> releasable w t"
  proof
    assume "releasable w t"
    then show False
      using process_tables.thread_put_ok [OF process_tables.intro [OF assms(1)] assms(2,3)] f by auto
  qed
  then show "thread_references y = 1 \<and> process_threads x = Leaf \<and> tree_map (processes w) (process_pid x) = None"
    using assms(4-6) unfolding releasable_def listed_def by (auto; metis not_None_eq)
qed

text \<open>Witness: the thread just created, which is still enrolled; its release does not abort.\<close>

theorem thread_put_aborts_iff_witness: "thread_put (leaf_lib 0) one_thread 1 \<noteq> Inl Assertion"
proof -
  have "refs_ok one_thread ((\<lambda>_. 0)(0 := 1)) ((\<lambda>_. 0)(1 := 1))"
    using tables_of.reachable_refs_ok [OF one_thread_reached] by simp
  from thread_put_aborts_iff [OF leaf_lib_contract this, of 1 0 "the (thread_heap one_thread 1)"
      "the (process_heap one_thread 0)" 0]
  show ?thesis by (simp add: one_thread_def tree_map_def)
qed

text \<open>Two threads of a process exit while the caller holds references to both, as \<^verbatim>\<open>process_stabilize\<close> does.\<close>

lemma two_threads_die_aborts:
  "\<exists>w. res_bind (process_create (leaf_lib 0) (fst no_tables) 0 fresh_process 10) (\<lambda>w.
     res_bind (thread_create (leaf_lib 0) w 1 0 10) (\<lambda>w.
     res_bind (thread_create (leaf_lib 0) w 2 0 11) (\<lambda>w.
     res_bind (thread_exit (leaf_lib 0) w 1) (\<lambda>w.
     res_bind (thread_exit (leaf_lib 0) w 2) (\<lambda>w.
     thread_put (leaf_lib 0) w 1))))) = Inr w \<and> thread_put (leaf_lib 0) w 2 = Inl Assertion"
  by (simp add: fresh_process_def no_tables_def process_create_def set_process_def process_add_def process_at_def process_dup_def tree_insert_def
    leaf_lib_def set_val_def node_tree_def thread_create_def set_thread_def thread_add_def thread_at_def thread_dup_def
    thread_exit_def spawn_is_spawned_def tree_contains_def tree_get_node_def initial_thread_state_def thread_del_def tree_remove_def
    tree_discard_def thread_put_def thread_free_def process_del_def process_put_def tree_empty_def)

end
