(* ===== verification/Communication.thy ===== *)
theory Communication
  imports Payload
begin

text \<open>
  The connection to the client, \<^verbatim>\<open>communication/communication.c\<close>: the listening and the connected socket, reading of
  whole packets and sending of responses. The answers of the operating system are given as lists, one element per
  call; a loop that has used all of them up is still polling, which is the result \<open>Diverges\<close>. \<^verbatim>\<open>handle_packet\<close> is
  the parameter \<open>handle\<close> here and is modelled in \<open>Protocol\<close>.
\<close>

section \<open>Definitions\<close>

subsection \<open>Packets\<close>

record packet_header_t =
  head_type :: u32
  head_seq :: u32
  head_length :: u32

record packet_t =
  head :: packet_header_t
  payload :: bytes

definition sizeof_packet_header :: nat where
  "sizeof_packet_header = 12"

definition header_bytes :: "packet_header_t \<Rightarrow> bytes" where
  "header_bytes h = le_bytes 4 (head_type h) @ le_bytes 4 (head_seq h) @ le_bytes 4 (head_length h)"

definition bytes_header :: "bytes \<Rightarrow> packet_header_t" where
  "bytes_header b = \<lparr>head_type = le_word (take 4 b), head_seq = le_word (take 4 (drop 4 b)),
     head_length = le_word (take 4 (drop 8 b))\<rparr>"

text \<open>\<^verbatim>\<open>packet_create\<close> allocates the payload; it is filled by \<^verbatim>\<open>comm_read_raw\<close>.\<close>

definition packet_create :: "packet_header_t \<Rightarrow> bytes \<Rightarrow> packet_t" where
  "packet_create h data = \<lparr>head = h, payload = data\<rparr>"

subsection \<open>Sending and receiving\<close>

datatype send_result = Sent nat | Send_Again | Send_Error

text \<open>The result of \<^verbatim>\<open>comm_send\<close>, the bytes that were sent, and the answers left.\<close>

fun comm_send :: "send_result list \<Rightarrow> bytes \<Rightarrow> (bool \<times> bytes \<times> send_result list) res" where
  "comm_send ws buf =
     (if buf = [] then Inr (True, [], ws)
      else case ws of
        [] \<Rightarrow> Inl Diverges
      | Sent n # ws \<Rightarrow>
          if length buf < n then Inl Out_Of_Bounds
          else res_bind (comm_send ws (drop n buf)) (\<lambda>(ok, out, ws'). Inr (ok, take n buf @ out, ws'))
      | Send_Again # ws \<Rightarrow> comm_send ws buf
      | Send_Error # ws \<Rightarrow> Inr (False, [], ws))"

declare comm_send.simps [simp del]

text \<open>The value of \<^verbatim>\<open>read\<close>: bytes stored in the buffer (none when the connection was shut down), or an error.\<close>

datatype read_result = Received bytes | Would_Block | Read_Error

fun comm_read_raw :: "read_result list \<Rightarrow> nat \<Rightarrow> bool \<Rightarrow> (int \<times> bytes \<times> read_result list) res" where
  "comm_read_raw rs count wait =
     (if count = 0 then Inr (1, [], rs)
      else case rs of
        [] \<Rightarrow> Inl Diverges
      | Received bs # rs \<Rightarrow>
          if bs = [] then Inr (0, [], rs)
          else if count < length bs then Inl Out_Of_Bounds
          else res_bind (comm_read_raw rs (count - length bs) True) (\<lambda>(st, data, rs'). Inr (st, bs @ data, rs'))
      | Would_Block # rs \<Rightarrow> if wait then comm_read_raw rs count wait else Inr (-1, [], rs)
      | Read_Error # rs \<Rightarrow> Inr (0, [], rs))"

declare comm_read_raw.simps [simp del]

subsection \<open>Sockets\<close>

record comm =
  server_sock :: int
  connection_sock :: int

datatype shutdown_result = Shut_Down | Not_Connected | Shutdown_Error
datatype close_result = Closed | Close_Bad_Fd | Close_Error

record sys =
  sys_socket :: int
  sys_bind :: bool
  sys_listen :: bool
  sys_accept :: int
  sys_shutdown :: shutdown_result
  sys_close :: "close_result list"
  sys_reads :: "read_result list"
  sys_sends :: "send_result list"

fun close_loop :: "close_result list \<Rightarrow> unit res" where
  "close_loop [] = Inl Diverges"
| "close_loop (Closed # cs) = Inr ()"
| "close_loop (Close_Bad_Fd # cs) = Inl Assertion"
| "close_loop (Close_Error # cs) = close_loop cs"

definition close_socket :: "sys \<Rightarrow> unit res" where
  "close_socket os = adbi_assure (sys_shutdown os \<noteq> Shutdown_Error) (close_loop (sys_close os))"

definition comm_close_connection :: "sys \<Rightarrow> comm \<Rightarrow> comm res" where
  "comm_close_connection os c =
     (if connection_sock c \<ge> 0 then res_bind (close_socket os) (\<lambda>_. Inr (c\<lparr>connection_sock := -1\<rparr>)) else Inr c)"

definition comm_close_server :: "sys \<Rightarrow> comm \<Rightarrow> comm res" where
  "comm_close_server os c =
     (if server_sock c \<ge> 0 then res_bind (close_socket os) (\<lambda>_. Inr (c\<lparr>server_sock := -1\<rparr>)) else Inr c)"

text \<open>The failures of \<^verbatim>\<open>setsockopt\<close> and of \<^verbatim>\<open>comm_enable_async_io\<close> are only logged.\<close>

definition comm_init_server :: "sys \<Rightarrow> comm \<Rightarrow> (bool \<times> comm) res" where
  "comm_init_server os c =
     adbi_assure (server_sock c = -1)
     (if sys_socket os < 0 then Inr (False, c\<lparr>server_sock := -1\<rparr>)
      else if \<not> sys_bind os then Inr (False, c\<lparr>server_sock := -1\<rparr>)
      else if \<not> sys_listen os then Inr (False, c\<lparr>server_sock := -1\<rparr>)
      else Inr (True, c\<lparr>server_sock := sys_socket os\<rparr>))"

definition comm_answer :: "sys \<Rightarrow> comm \<Rightarrow> (bool \<times> comm) res" where
  "comm_answer os c =
     (let c = c\<lparr>connection_sock := sys_accept os\<rparr>
      in if connection_sock c < 0 then Inr (False, c)
         else res_bind (comm_close_server os c) (\<lambda>c. Inr (True, c)))"

definition comm_disconnect :: "sys \<Rightarrow> comm \<Rightarrow> comm res" where
  "comm_disconnect os c =
     res_bind (comm_close_connection os c) (\<lambda>c. res_bind (comm_init_server os c) (\<lambda>(_, c). Inr c))"

definition send_packet :: "sys \<Rightarrow> packet_t \<Rightarrow> bytes res" where
  "send_packet os p =
     res_bind (comm_send (sys_sends os) (header_bytes (head p))) (\<lambda>(_, out1, ws).
     if length (payload p) < unat (head_length (head p)) then Inl Out_Of_Bounds
     else res_bind (comm_send ws (take (unat (head_length (head p))) (payload p))) (\<lambda>(_, out2, ws).
     Inr (out1 @ out2)))"

text \<open>
  The loop of \<^verbatim>\<open>comm_got_data\<close> returns in every case of its \<^verbatim>\<open>switch\<close>. \<open>s\<close> is the state that the handlers
  change; the result has the bytes sent.
\<close>

definition comm_got_data ::
    "('s \<Rightarrow> packet_t \<Rightarrow> (packet_t option \<times> 's) res) \<Rightarrow> sys \<Rightarrow> comm \<times> 's \<Rightarrow> (bytes \<times> comm \<times> 's) res" where
  "comm_got_data handle os = (\<lambda>(c, s).
     res_bind (comm_read_raw (sys_reads os) sizeof_packet_header False) (\<lambda>(st, hd, rs).
     if st = 1 then
       (let h = bytes_header hd
        in res_bind (comm_read_raw rs (unat (head_length h)) True) (\<lambda>(st, data, rs).
           if st \<noteq> 0 then
             res_bind (handle s (packet_create h data)) (\<lambda>(response, s).
             case response of
               None \<Rightarrow> Inr ([], c, s)
             | Some r \<Rightarrow> res_bind (send_packet os r) (\<lambda>out. Inr (out, c, s)))
           else res_bind (comm_disconnect os c) (\<lambda>c. Inr ([], c, s))))
     else if st = 0 then res_bind (comm_disconnect os c) (\<lambda>c. Inr ([], c, s))
     else Inr ([], c, s)))"

definition comm_handle_io ::
    "('s \<Rightarrow> packet_t \<Rightarrow> (packet_t option \<times> 's) res) \<Rightarrow> sys \<Rightarrow> comm \<times> 's \<Rightarrow> (bytes \<times> comm \<times> 's) res" where
  "comm_handle_io handle os = (\<lambda>(c, s).
     if connection_sock c \<ge> 0 then comm_got_data handle os (c, s)
     else if server_sock c \<ge> 0 then res_bind (comm_answer os c) (\<lambda>(_, c). Inr ([], c, s))
     else Inr ([], c, s))"

definition comm_cleanup :: "sys \<Rightarrow> comm \<Rightarrow> comm res" where
  "comm_cleanup os c = res_bind (comm_close_connection os c) (comm_close_server os)"

definition comm_closed :: comm where
  "comm_closed = \<lparr>server_sock = -1, connection_sock = -1\<rparr>"

definition comm_init :: "sys \<Rightarrow> (bool \<times> comm) res" where
  "comm_init os = comm_init_server os comm_closed"

section \<open>Streams\<close>

lemma header_roundtrip: "bytes_header (header_bytes h) = h"
  by (simp add: bytes_header_def header_bytes_def le_word_le_bytes)

lemma length_header_bytes: "length (header_bytes h) = sizeof_packet_header"
  by (simp add: header_bytes_def sizeof_packet_header_def)

text \<open>Any way of cutting \<open>data\<close> into nonempty pieces, with pauses between them.\<close>

inductive arrives :: "bytes \<Rightarrow> read_result list \<Rightarrow> bool" where
  Arrived: "arrives [] []"
| Pause: "arrives data rs \<Longrightarrow> data \<noteq> [] \<Longrightarrow> arrives data (Would_Block # rs)"
| Piece: "bs \<noteq> [] \<Longrightarrow> arrives data rs \<Longrightarrow> arrives (bs @ data) (Received bs # rs)"

inductive accepts :: "bytes \<Rightarrow> send_result list \<Rightarrow> bool" where
  Accepted: "accepts [] []"
| Again: "accepts data ws \<Longrightarrow> data \<noteq> [] \<Longrightarrow> accepts data (Send_Again # ws)"
| Part: "data \<noteq> [] \<Longrightarrow> n \<le> length data \<Longrightarrow> accepts (drop n data) ws \<Longrightarrow> accepts data (Sent n # ws)"

lemma comm_read_raw_arrives:
  "arrives data rs \<Longrightarrow> comm_read_raw (rs @ rest) (length data) True = Inr (1, data, rest)"
proof (induction rule: arrives.induct)
  case Arrived
  show ?case by (simp add: comm_read_raw.simps)
next
  case (Pause data rs)
  then show ?case by (subst comm_read_raw.simps) simp
next
  case (Piece bs data rs)
  then show ?case by (subst comm_read_raw.simps) simp
qed

lemma comm_read_raw_first:
  assumes "arrives data rs" "data \<noteq> []" "hd rs \<noteq> Would_Block"
  shows "comm_read_raw (rs @ rest) (length data) False = Inr (1, data, rest)"
  using assms by (cases rule: arrives.cases) (simp_all add: comm_read_raw.simps [of "Received _ # _"] comm_read_raw_arrives)

lemma comm_send_accepts: "accepts data ws \<Longrightarrow> comm_send (ws @ rest) data = Inr (True, data, rest)"
proof (induction rule: accepts.induct)
  case Accepted
  show ?case by (simp add: comm_send.simps)
next
  case (Again data ws)
  then show ?case by (subst comm_send.simps) simp
next
  case (Part data n ws)
  then show ?case by (subst comm_send.simps) simp
qed

section \<open>The two sockets\<close>

text \<open>The events of a session: \<^verbatim>\<open>comm_init\<close>, then one call of \<^verbatim>\<open>comm_handle_io\<close> per signal.\<close>

fun comm_events ::
    "('s \<Rightarrow> packet_t \<Rightarrow> (packet_t option \<times> 's) res) \<Rightarrow> sys list \<Rightarrow> comm \<times> 's \<Rightarrow> (comm \<times> 's) res" where
  "comm_events handle [] cs = Inr cs"
| "comm_events handle (os # oss) cs = res_bind (comm_handle_io handle os cs) (\<lambda>(_, cs). comm_events handle oss cs)"

definition sockets_ok :: "comm \<Rightarrow> bool" where
  "sockets_ok c \<longleftrightarrow> -1 \<le> server_sock c \<and> -1 \<le> connection_sock c \<and> (connection_sock c \<ge> 0 \<longrightarrow> server_sock c = -1)"

text \<open>What the manual pages say: \<^verbatim>\<open>accept\<close> fails with -1, an open socket can be shut down or has lost its peer, and its
  descriptor is valid.\<close>

definition sys_ok :: "sys \<Rightarrow> bool" where
  "sys_ok os \<longleftrightarrow> -1 \<le> sys_accept os \<and> sys_shutdown os \<noteq> Shutdown_Error \<and> Close_Bad_Fd \<notin> set (sys_close os)"

lemma close_loop_Assertion: "Close_Bad_Fd \<notin> set cs \<Longrightarrow> close_loop cs \<noteq> Inl Assertion"
  by (induction cs rule: close_loop.induct) auto

lemma close_socket_Assertion: "sys_ok os \<Longrightarrow> close_socket os \<noteq> Inl Assertion"
  by (simp add: sys_ok_def close_socket_def close_loop_Assertion)

lemma comm_read_raw_Assertion: "comm_read_raw rs n w \<noteq> Inl Assertion"
proof (induction rs n w rule: comm_read_raw.induct)
  case (1 rs count wait)
  then show ?case
    by (subst comm_read_raw.simps) (auto simp: res_bind_def split: list.splits read_result.splits sum.splits prod.splits)
qed

lemma comm_send_Assertion: "comm_send ws buf \<noteq> Inl Assertion"
proof (induction ws buf rule: comm_send.induct)
  case (1 ws buf)
  then show ?case
    by (subst comm_send.simps) (auto simp: res_bind_def split: list.splits send_result.splits sum.splits prod.splits)
qed

lemma send_packet_Assertion: "send_packet os p \<noteq> Inl Assertion"
  using comm_send_Assertion by (auto simp: send_packet_def res_bind_def split: sum.splits prod.splits)

lemma comm_disconnect_sockets:
  assumes "sys_ok os" "sockets_ok c" "connection_sock c \<ge> 0"
  shows "comm_disconnect os c \<noteq> Inl Assertion \<and> (\<forall>c'. comm_disconnect os c = Inr c' \<longrightarrow> sockets_ok c')"
  using assms close_socket_Assertion [OF assms(1)]
  by (cases "close_socket os")
    (auto simp: comm_disconnect_def comm_close_connection_def comm_init_server_def sockets_ok_def split: if_splits)

lemma comm_got_data_sockets:
  assumes "sys_ok os" "sockets_ok c" "connection_sock c \<ge> 0" "\<And>s p. handle s p \<noteq> Inl Assertion"
  shows "comm_got_data handle os (c, s) \<noteq> Inl Assertion
    \<and> (\<forall>out c' s'. comm_got_data handle os (c, s) = Inr (out, c', s') \<longrightarrow> sockets_ok c')"
  using comm_disconnect_sockets [OF assms(1-3)] assms(2,4) comm_read_raw_Assertion send_packet_Assertion
  unfolding comm_got_data_def res_bind_def Let_def
  by (auto split: sum.splits prod.splits option.splits if_splits; metis)

lemma comm_handle_io_sockets:
  assumes "sys_ok os" "sockets_ok c" "\<And>s p. handle s p \<noteq> Inl Assertion"
  shows "comm_handle_io handle os (c, s) \<noteq> Inl Assertion
    \<and> (\<forall>out c' s'. comm_handle_io handle os (c, s) = Inr (out, c', s') \<longrightarrow> sockets_ok c')"
proof (cases "connection_sock c \<ge> 0")
  case True
  then show ?thesis using comm_got_data_sockets [where handle = handle, OF assms(1,2) _ assms(3)] by (simp add: comm_handle_io_def)
next
  case False
  then show ?thesis using assms(1,2) close_socket_Assertion [OF assms(1)]
    by (cases "close_socket os"; cases "sys_accept os < 0")
      (auto simp: comm_handle_io_def comm_answer_def Let_def comm_close_server_def sockets_ok_def sys_ok_def)
qed

lemma comm_events_sockets:
  assumes "\<forall>os \<in> set oss. sys_ok os" "sockets_ok c" "\<And>s p. handle s p \<noteq> Inl Assertion"
  shows "comm_events handle oss (c, s) \<noteq> Inl Assertion
    \<and> (\<forall>c' s'. comm_events handle oss (c, s) = Inr (c', s') \<longrightarrow> sockets_ok c')"
  using assms(1,2)
proof (induction oss arbitrary: c s)
  case (Cons os oss)
  have "sys_ok os" "sockets_ok c" using Cons.prems by auto
  note step = comm_handle_io_sockets [where handle = handle and s = s, OF this assms(3)]
  show ?case
  proof (cases "comm_handle_io handle os (c, s)")
    case (Inl e)
    then show ?thesis using step by simp
  next
    case (Inr r)
    then obtain out c' s' where r: "r = (out, c', s')" by (cases r) auto
    then have "sockets_ok c'" using step Inr by blast
    then show ?thesis using Cons.IH [of c' s'] Cons.prems(1) by (simp add: Inr r)
  qed
qed simp

section \<open>Properties\<close>

text \<open>A packet that arrives on the connection is handled and its response is sent completely, however the network
  cuts the request into pieces and however little of the response each call of \<^verbatim>\<open>write\<close> takes; the client decodes the
  header that the handler produced.\<close>

theorem comm_serves:
  assumes "connection_sock c \<ge> 0" "length (payload p) = unat (head_length (head p))"
    and "arrives (header_bytes (head p)) rs1" "hd rs1 \<noteq> Would_Block" "arrives (payload p) rs2"
    and "sys_reads os = rs1 @ rs2 @ rs3"
    and "handle s p = Inr (Some r, s')" "length (payload r) = unat (head_length (head r))"
    and "accepts (header_bytes (head r)) ws1" "accepts (payload r) ws2" "sys_sends os = ws1 @ ws2 @ ws3"
  shows "\<exists>out. comm_handle_io handle os (c, s) = Inr (out, c, s') \<and> bytes_header (take sizeof_packet_header out) = head r
    \<and> drop sizeof_packet_header out = payload r"
proof (intro exI conjI)
  have "header_bytes (head p) \<noteq> []" by (simp add: header_bytes_def)
  then have h: "comm_read_raw (sys_reads os) sizeof_packet_header False = Inr (1, header_bytes (head p), rs2 @ rs3)"
    using comm_read_raw_first [OF assms(3) _ assms(4)] assms(6) by (simp add: length_header_bytes)
  have d: "comm_read_raw (rs2 @ rs3) (unat (head_length (head p))) True = Inr (1, payload p, rs3)"
    using comm_read_raw_arrives [OF assms(5)] assms(2) by simp
  have p: "packet_create (head p) (payload p) = p" by (simp add: packet_create_def)
  have o: "send_packet os r = Inr (header_bytes (head r) @ payload r)"
    using comm_send_accepts [OF assms(9)] comm_send_accepts [OF assms(10)] assms(8,11) by (simp add: send_packet_def)
  show "comm_handle_io handle os (c, s) = Inr (header_bytes (head r) @ payload r, c, s')"
    using assms(1,7) by (simp add: comm_handle_io_def comm_got_data_def h header_roundtrip d p o)
  show "bytes_header (take sizeof_packet_header (header_bytes (head r) @ payload r)) = head r"
    "drop sizeof_packet_header (header_bytes (head r) @ payload r) = payload r"
    by (simp_all add: length_header_bytes header_roundtrip)
qed

text \<open>Witness: a request in two pieces, answered by itself in two parts.\<close>

theorem comm_serves_witness:
  "let p = \<lparr>head = \<lparr>head_type = 0x50494e47, head_seq = 7, head_length = 2\<rparr>, payload = [1, 2]\<rparr>;
       os = \<lparr>sys_socket = 4, sys_bind = True, sys_listen = True, sys_accept = -1, sys_shutdown = Shut_Down, sys_close = [Closed],
         sys_reads = [Received [0x47, 0x4e, 0x49, 0x50, 7], Would_Block, Received [0, 0, 0, 2, 0, 0, 0], Received [1, 2]],
         sys_sends = [Sent 5, Send_Again, Sent 7, Sent 2]\<rparr>
   in \<exists>out. comm_handle_io (\<lambda>s p. Inr (Some p, Suc s)) os (\<lparr>server_sock = -1, connection_sock = 5\<rparr>, 0) =
        Inr (out, \<lparr>server_sock = -1, connection_sock = 5\<rparr>, 1) \<and> bytes_header (take sizeof_packet_header out) = head p
        \<and> drop sizeof_packet_header out = payload p"
proof -
  let ?p = "\<lparr>head = \<lparr>head_type = 0x50494e47, head_seq = 7, head_length = 2\<rparr>, payload = [1, 2]\<rparr>"
  have h: "header_bytes (head ?p) = [0x47, 0x4e, 0x49, 0x50, 7] @ [0, 0, 0, 2, 0, 0, 0] @ []" by code_simp
  have r1: "arrives (header_bytes (head ?p)) [Received [0x47, 0x4e, 0x49, 0x50, 7], Would_Block, Received [0, 0, 0, 2, 0, 0, 0]]"
    unfolding h by (intro Piece Pause Arrived) simp_all
  have "arrives ([1, 2] @ []) [Received [1, 2]]" by (intro Piece Arrived) simp
  then have r2: "arrives (payload ?p) [Received [1, 2]]" by simp
  have w1: "accepts (header_bytes (head ?p)) [Sent 5, Send_Again, Sent 7]"
    unfolding h by (intro Part Again) (simp_all add: Accepted)
  have w2: "accepts (payload ?p) [Sent 2]" by (intro Part) (simp_all add: Accepted)
  show ?thesis
    unfolding Let_def
    by (rule comm_serves [OF _ _ r1 _ r2 _ _ _ w1 w2, of _ _ "[]" _ _ _ "[]"]) simp_all
qed



end
