(* ===== verification/Injfile.thy ===== *)
theory Injfile
  imports Payload
begin

text \<open>
  The injectable file format, \<^verbatim>\<open>injectable/injfile.c\<close> and \<^verbatim>\<open>injfile.h\<close>: checks on loading, symbol lists, tracepoints and
  line information. A pointer that \<^verbatim>\<open>injfile_init\<close> makes from an offset is that offset into the image of the file, or
  \<open>None\<close> for the offset 0; reading beyond the image is \<open>Out_Of_Bounds\<close>.
\<close>

section \<open>Definitions\<close>

record injfile_t =
  inj_image :: bytes
  inj_version :: u16
  inj_flags :: u16
  inj_code_size :: u32
  inj_code :: "u64 option"
  inj_name :: "u64 option"
  inj_comment :: "u64 option"
  inj_adbi :: "u64 option"
  inj_imports :: "u64 option"
  inj_exports :: "u64 option"
  inj_tpoints :: "u64 option"
  inj_strings :: "u64 option"
  inj_lines :: "u64 option"

definition INJFILE_FLAG_LIBRARY :: u16 where
  "INJFILE_FLAG_LIBRARY = 0x1"

definition injfile_magic :: bytes where
  "injfile_magic = [0x61, 0x64, 0x62, 0x69, 0x33, 0x69, 0x6e, 0x6a]"

definition sizeof_injfile :: nat where
  "sizeof_injfile = 88"

text \<open>The \<open>i\<close>th of the nine 64-bit offsets after the 16 bytes of magic, version, flags and code size.\<close>

definition offset_field :: "bytes \<Rightarrow> nat \<Rightarrow> u64" where
  "offset_field b i = le_word (take 8 (drop (16 + 8 * i) b))"

definition fix_ptr :: "u64 \<Rightarrow> u64 option" where
  "fix_ptr ofs = (if ofs \<noteq> 0 then Some ofs else None)"

definition file_code_size :: "bytes \<Rightarrow> u32" where
  "file_code_size b = le_word (take 4 (drop 12 b))"

definition injfile_fixed :: "bytes \<Rightarrow> injfile_t" where
  "injfile_fixed b =
     \<lparr>inj_image = b, inj_version = le_word (take 2 (drop 8 b)), inj_flags = le_word (take 2 (drop 10 b)),
      inj_code_size = file_code_size b, inj_code = fix_ptr (offset_field b 0), inj_name = fix_ptr (offset_field b 1),
      inj_comment = fix_ptr (offset_field b 2), inj_adbi = fix_ptr (offset_field b 3), inj_imports = fix_ptr (offset_field b 4),
      inj_exports = fix_ptr (offset_field b 5), inj_tpoints = fix_ptr (offset_field b 6), inj_strings = fix_ptr (offset_field b 7),
      inj_lines = fix_ptr (offset_field b 8)\<rparr>"

text \<open>The sum of offset and size is computed in 64 bits.\<close>

definition code_end :: "bytes \<Rightarrow> u64" where
  "code_end b = offset_field b 0 + ucast (file_code_size b)"

definition injfile_init :: "bytes \<Rightarrow> injfile_t option" where
  "injfile_init b =
     (if length b < sizeof_injfile then None
      else if take 8 b \<noteq> injfile_magic then None
      else if (le_word (take 2 (drop 8 b)) :: u16) \<noteq> 0x0210 then None
      else if unat (code_end b) > length b then None
      else Some (injfile_fixed b))"

text \<open>The answers of the C library while a file is read.\<close>

record file_io =
  io_open :: bool
  io_seek_end :: bool
  io_tell :: int
  io_seek_set :: bool
  io_malloc :: bool
  io_read :: bytes

definition injfile_load :: "file_io \<Rightarrow> injfile_t option" where
  "injfile_load io =
     (if \<not> io_open io then None
      else if \<not> io_seek_end io then None
      else if io_tell io < 0 then None
      else if \<not> io_seek_set io then None
      else if \<not> io_malloc io then None
      else if int (length (io_read io)) \<noteq> io_tell io then None
      else injfile_init (io_read io))"

definition injfile_is_library :: "injfile_t \<Rightarrow> bool" where
  "injfile_is_library f \<longleftrightarrow> inj_flags f AND INJFILE_FLAG_LIBRARY \<noteq> 0"

subsection \<open>Symbols and tracepoints\<close>

text \<open>A symbol takes 32 bytes: 28 bytes of name and a signed 32-bit offset.\<close>

definition symbol_name :: "bytes \<Rightarrow> nat \<Rightarrow> bytes" where
  "symbol_name b p = take 28 (drop p b)"

definition signed_at :: "bytes \<Rightarrow> nat \<Rightarrow> int res" where
  "signed_at b p = (if p + 4 \<le> length b then Inr (sint (le_word (take 4 (drop p b)) :: u32)) else Inl Out_Of_Bounds)"

definition word_at :: "bytes \<Rightarrow> nat \<Rightarrow> u32 res" where
  "word_at b p = (if p + 4 \<le> length b then Inr (le_word (take 4 (drop p b))) else Inl Out_Of_Bounds)"

function iter_symbols :: "bytes \<Rightarrow> nat \<Rightarrow> (bytes \<times> int) list res" where
  "iter_symbols b p =
     (if length b \<le> p then Inl Out_Of_Bounds
      else if b ! p = 0 then Inr []
      else res_bind (signed_at b (p + 28)) (\<lambda>ofs.
           res_bind (iter_symbols b (p + 32)) (\<lambda>rest. Inr ((symbol_name b p, ofs) # rest))))"
  by pat_completeness auto
termination by (relation "measure (\<lambda>(b, p). length b - p)") auto

declare iter_symbols.simps [simp del]

definition injfile_iter_symbols :: "injfile_t \<Rightarrow> u64 option \<Rightarrow> (bytes \<times> int) list res" where
  "injfile_iter_symbols f symbol = (case symbol of None \<Rightarrow> Inr [] | Some p \<Rightarrow> iter_symbols (inj_image f) (unat p))"

definition injfile_iter_imports :: "injfile_t \<Rightarrow> (bytes \<times> int) list res" where
  "injfile_iter_imports f = injfile_iter_symbols f (inj_imports f)"

definition injfile_iter_exports :: "injfile_t \<Rightarrow> (bytes \<times> int) list res" where
  "injfile_iter_exports f = injfile_iter_symbols f (inj_exports f)"

definition injfile_iter_adbi :: "injfile_t \<Rightarrow> (bytes \<times> int) list res" where
  "injfile_iter_adbi f = injfile_iter_symbols f (inj_adbi f)"

function iter_tpoints :: "bytes \<Rightarrow> nat \<Rightarrow> (u32 \<times> int) list res" where
  "iter_tpoints b p =
     res_bind (word_at b p) (\<lambda>addr.
     if addr = 0 then Inr []
     else res_bind (signed_at b (p + 4)) (\<lambda>handler.
          res_bind (iter_tpoints b (p + 8)) (\<lambda>rest. Inr ((addr, handler) # rest))))"
  by pat_completeness auto
termination by (relation "measure (\<lambda>(b, p). length b - p)") (auto simp: word_at_def split: if_splits)

declare iter_tpoints.simps [simp del]

definition injfile_iter_tpoints :: "injfile_t \<Rightarrow> (u32 \<times> int) list res" where
  "injfile_iter_tpoints f = (case inj_tpoints f of None \<Rightarrow> Inr [] | Some p \<Rightarrow> iter_tpoints (inj_image f) (unat p))"

text \<open>\<^verbatim>\<open>strncmp(a, b, n) == 0\<close>.\<close>

fun strncmp_eq :: "nat \<Rightarrow> bytes \<Rightarrow> bytes \<Rightarrow> bool res" where
  "strncmp_eq 0 a b = Inr True"
| "strncmp_eq (Suc n) (c # cs) (d # ds) = (if c \<noteq> d then Inr False else if c = 0 then Inr True else strncmp_eq n cs ds)"
| "strncmp_eq (Suc n) _ _ = Inl Out_Of_Bounds"

text \<open>\<open>name\<close> is given without its terminator.\<close>

function get_symbol :: "bytes \<Rightarrow> nat \<Rightarrow> bytes \<Rightarrow> int res" where
  "get_symbol b p name =
     (if length b \<le> p then Inl Out_Of_Bounds
      else if b ! p = 0 then Inr (-1)
      else res_bind (strncmp_eq 28 (name @ [0]) (drop p b)) (\<lambda>eq.
           if eq then signed_at b (p + 28) else get_symbol b (p + 32) name))"
  by pat_completeness auto
termination by (relation "measure (\<lambda>(b, p, name). length b - p)") auto

declare get_symbol.simps [simp del]

definition injfile_get_symbol :: "injfile_t \<Rightarrow> u64 option \<Rightarrow> bytes \<Rightarrow> int res" where
  "injfile_get_symbol f symbol name = (case symbol of None \<Rightarrow> Inr (-1) | Some p \<Rightarrow> get_symbol (inj_image f) (unat p) name)"

definition injfile_get_import :: "injfile_t \<Rightarrow> bytes \<Rightarrow> int res" where
  "injfile_get_import f name = injfile_get_symbol f (inj_imports f) name"

definition injfile_get_export :: "injfile_t \<Rightarrow> bytes \<Rightarrow> int res" where
  "injfile_get_export f name = injfile_get_symbol f (inj_exports f) name"

definition injfile_get_adbi :: "injfile_t \<Rightarrow> bytes \<Rightarrow> int res" where
  "injfile_get_adbi f name = injfile_get_symbol f (inj_adbi f) name"

subsection \<open>Line information\<close>

text \<open>The string table entry as the bytes from there on; \<^verbatim>\<open>"<error>"\<close> without a table.\<close>

definition injfile_get_string :: "injfile_t \<Rightarrow> u32 \<Rightarrow> bytes" where
  "injfile_get_string f ofs =
     (case inj_strings f of None \<Rightarrow> [0x3c, 0x65, 0x72, 0x72, 0x6f, 0x72, 0x3e, 0]
      | Some p \<Rightarrow> drop (unat p + unat ofs) (inj_image f))"

text \<open>\<open>addr\<close>, \<open>file\<close> and \<open>line\<close> of the entry at \<open>p\<close>.\<close>

definition lineinfo_at :: "bytes \<Rightarrow> nat \<Rightarrow> (u32 \<times> u32 \<times> u32) res" where
  "lineinfo_at b p =
     res_bind (word_at b p) (\<lambda>a. res_bind (word_at b (p + 4)) (\<lambda>f. res_bind (word_at b (p + 8)) (\<lambda>l. Inr (a, f, l))))"

function find_line :: "bytes \<Rightarrow> nat \<Rightarrow> int \<Rightarrow> nat res" where
  "find_line b p ofs =
     res_bind (lineinfo_at b p) (\<lambda>(a, f, l).
     if a OR f OR l = 0 then Inr p
     else if sint a > ofs then Inr p
     else find_line b (p + 12) ofs)"
  by pat_completeness auto
termination
  by (relation "measure (\<lambda>(b, p, ofs). length b - p)")
    (auto simp: lineinfo_at_def word_at_def res_bind_eq_Inr split: if_splits)

declare find_line.simps [simp del]

definition injfile_addr2line :: "injfile_t \<Rightarrow> int \<Rightarrow> (bytes \<times> u32) option res" where
  "injfile_addr2line fi ofs =
     (case inj_lines fi of None \<Rightarrow> Inr None
      | Some start \<Rightarrow>
          res_bind (find_line (inj_image fi) (unat start) ofs) (\<lambda>li.
          res_bind (lineinfo_at (inj_image fi) li) (\<lambda>(a, f, l).
          if a OR f OR l = 0 \<or> sint a > ofs then
            (if li = unat start then Inr None
             else res_bind (lineinfo_at (inj_image fi) (li - 12)) (\<lambda>(a, f, l). Inr (Some (injfile_get_string fi f, l))))
          else Inr None)))"

section \<open>The layout of the lists\<close>

text \<open>A symbol as the linker of the injectables writes it: the name, padded to 28 bytes, and the offset.\<close>

definition symbol_bytes :: "bytes \<times> u32 \<Rightarrow> bytes" where
  "symbol_bytes s = fst s @ replicate (28 - length (fst s)) 0 @ le_bytes 4 (snd s)"

definition symbol_ok :: "bytes \<times> u32 \<Rightarrow> bool" where
  "symbol_ok s \<longleftrightarrow> fst s \<noteq> [] \<and> length (fst s) \<le> 28 \<and> 0 \<notin> set (fst s)"

definition symbol_list :: "bytes \<Rightarrow> nat \<Rightarrow> (bytes \<times> u32) list \<Rightarrow> bool" where
  "symbol_list b p ss \<longleftrightarrow> (\<forall>s \<in> set ss. symbol_ok s) \<and> p \<le> length b
     \<and> (\<exists>rest. drop p b = concat (map symbol_bytes ss) @ 0 # rest)"

lemma length_symbol_bytes: "symbol_ok s \<Longrightarrow> length (symbol_bytes s) = 32"
  by (simp add: symbol_bytes_def symbol_ok_def)

lemma symbol_list_Nil: "symbol_list b p [] \<Longrightarrow> p < length b \<and> b ! p = 0"
proof -
  assume "symbol_list b p []"
  then obtain rest where r: "drop p b = 0 # rest" unfolding symbol_list_def by auto
  then show ?thesis by (metis drop_eq_Nil2 hd_drop_conv_nth list.distinct(1) list.sel(1) not_le)
qed

lemma symbol_list_Cons:
  assumes "symbol_list b p (s # ss)"
  shows "symbol_ok s" "p < length b" "b ! p \<noteq> 0" "symbol_list b (p + 32) ss"
    "\<exists>rest. drop p b = fst s @ replicate (28 - length (fst s)) 0 @ rest"
    "signed_at b (p + 28) = Inr (sint (snd s))"
proof -
  obtain rest where r: "drop p b = symbol_bytes s @ concat (map symbol_bytes ss) @ 0 # rest"
    using assms unfolding symbol_list_def by auto
  show ok: "symbol_ok s" using assms unfolding symbol_list_def by simp
  note l = length_symbol_bytes [OF ok]
  have pl: "p + 32 \<le> length b" using arg_cong [OF r, of length] l by simp
  then show "p < length b" by simp
  have "b ! p = (fst s @ replicate (28 - length (fst s)) 0 @ le_bytes 4 (snd s)) ! 0"
    using r pl ok hd_drop_conv_nth [of p b] by (cases "fst s") (auto simp: symbol_bytes_def symbol_ok_def)
  then show "b ! p \<noteq> 0" using ok by (cases "fst s") (auto simp: symbol_ok_def)
  have "drop (p + 32) b = drop 32 (drop p b)" by (simp add: add.commute)
  then have "drop (p + 32) b = concat (map symbol_bytes ss) @ 0 # rest" using r l by simp
  then show "symbol_list b (p + 32) ss" using assms pl unfolding symbol_list_def by auto
  show "\<exists>rest. drop p b = fst s @ replicate (28 - length (fst s)) 0 @ rest" using r by (auto simp: symbol_bytes_def)
  have "drop (p + 28) b = drop 28 (drop p b)" by (simp add: add.commute)
  also have "\<dots> = le_bytes 4 (snd s) @ concat (map symbol_bytes ss) @ 0 # rest"
    using ok by (simp add: r symbol_bytes_def symbol_ok_def)
  finally show "signed_at b (p + 28) = Inr (sint (snd s))" using pl
    by (simp add: signed_at_def le_word_le_bytes)
qed

lemma strncmp_eq_name:
  assumes "0 \<notin> set name" "0 \<notin> set m" "length m \<le> n"
  shows "strncmp_eq n (name @ [0]) (m @ replicate (n - length m) 0 @ rest) = Inr (take n name = m)"
  using assms
proof (induction n arbitrary: name m)
  case (Suc n)
  show ?case
  proof (cases name)
    case Nil
    then show ?thesis using Suc.prems by (cases m) auto
  next
    case (Cons c cs)
    then show ?thesis using Suc by (cases m) auto
  qed
qed simp

lemma get_symbol_list:
  assumes "symbol_list b p ss" "0 \<notin> set name"
  shows "get_symbol b p name =
    Inr (case List.find (\<lambda>s. fst s = take 28 name) ss of None \<Rightarrow> -1 | Some s \<Rightarrow> sint (snd s))"
  using assms(1)
proof (induction ss arbitrary: p)
  case Nil
  then show ?case using symbol_list_Nil [OF Nil] by (subst get_symbol.simps) simp
next
  case (Cons s ss)
  note s = symbol_list_Cons [OF Cons.prems]
  obtain rest where r: "drop p b = fst s @ replicate (28 - length (fst s)) 0 @ rest" using s(5) by blast
  have "strncmp_eq 28 (name @ [0]) (drop p b) = Inr (take 28 name = fst s)"
    unfolding r using s(1) assms(2) by (intro strncmp_eq_name) (auto simp: symbol_ok_def)
  then show ?case using s(2,3,6) Cons.IH [OF s(4)] by (subst get_symbol.simps) auto
qed

lemma iter_symbols_list:
  assumes "symbol_list b p ss"
  shows "iter_symbols b p = Inr (map (\<lambda>s. (fst s @ replicate (28 - length (fst s)) 0, sint (snd s))) ss)"
  using assms
proof (induction ss arbitrary: p)
  case Nil
  then show ?case using symbol_list_Nil [OF Nil] by (subst iter_symbols.simps) simp
next
  case (Cons s ss)
  note s = symbol_list_Cons [OF Cons.prems]
  then have "symbol_name b p = fst s @ replicate (28 - length (fst s)) 0"
    by (auto simp: symbol_name_def symbol_ok_def)
  then show ?case using s(2,3,6) Cons.IH [OF s(4)] by (subst iter_symbols.simps) simp
qed

definition lineinfo_bytes :: "u32 \<times> u32 \<times> u32 \<Rightarrow> bytes" where
  "lineinfo_bytes e = (case e of (a, f, l) \<Rightarrow> le_bytes 4 a @ le_bytes 4 f @ le_bytes 4 l)"

definition line_list :: "bytes \<Rightarrow> nat \<Rightarrow> (u32 \<times> u32 \<times> u32) list \<Rightarrow> bool" where
  "line_list b p es \<longleftrightarrow> (0, 0, 0) \<notin> set es \<and>
     (\<exists>rest. drop p b = concat (map lineinfo_bytes es) @ lineinfo_bytes (0, 0, 0) @ rest)"

lemma lineinfo_at_bytes:
  assumes "drop p b = lineinfo_bytes e @ rest"
  shows "lineinfo_at b p = Inr e" "drop (p + 12) b = rest"
proof -
  obtain a f l where e: "e = (a, f, l)" by (cases e)
  have len: "p + 12 \<le> length b" using arg_cong [OF assms, of length] by (simp add: e lineinfo_bytes_def)
  have d: "drop (p + i) b = drop i (drop p b)" for i by (simp add: add.commute)
  show "lineinfo_at b p = Inr e" using len d [of 4] d [of 8]
    by (simp add: lineinfo_at_def word_at_def assms e lineinfo_bytes_def le_word_le_bytes)
  show "drop (p + 12) b = rest" using d [of 12] by (simp add: assms e lineinfo_bytes_def)
qed

lemma or_zero: "(a :: 'a::len word) OR b = 0 \<longleftrightarrow> a = 0 \<and> b = 0"
  by (auto simp: or_eq_0_iff)

lemma find_line_list:
  assumes "line_list b p es"
  shows "find_line b p ofs = Inr (p + 12 * length (takeWhile (\<lambda>e. sint (fst e) \<le> ofs) es))"
  using assms
proof (induction es arbitrary: p)
  case Nil
  then obtain rest where "drop p b = lineinfo_bytes (0, 0, 0) @ rest" unfolding line_list_def by auto
  then show ?case by (subst find_line.simps) (simp add: lineinfo_at_bytes)
next
  case (Cons e es)
  obtain a f l where e: "e = (a, f, l)" by (cases e)
  obtain rest where r: "drop p b = lineinfo_bytes e @ concat (map lineinfo_bytes es) @ lineinfo_bytes (0, 0, 0) @ rest"
    using Cons.prems unfolding line_list_def by auto
  note at = lineinfo_at_bytes [OF r]
  have "line_list b (p + 12) es" using Cons.prems at(2) unfolding line_list_def by auto
  from Cons.IH [OF this] show ?case
    using Cons.prems by (subst find_line.simps) (auto simp: at(1) e or_zero line_list_def)
qed

lemma lineinfo_at_nth:
  assumes "line_list b p es" "i \<le> length es"
  shows "lineinfo_at b (p + 12 * i) = Inr ((es @ [(0, 0, 0)]) ! i)"
  using assms
proof (induction es arbitrary: p i)
  case Nil
  then obtain rest where "drop p b = lineinfo_bytes (0, 0, 0) @ rest" unfolding line_list_def by auto
  then show ?case using Nil by (simp add: lineinfo_at_bytes)
next
  case (Cons e es)
  obtain rest where r: "drop p b = lineinfo_bytes e @ concat (map lineinfo_bytes es) @ lineinfo_bytes (0, 0, 0) @ rest"
    using Cons.prems(1) unfolding line_list_def by auto
  note at = lineinfo_at_bytes [OF r]
  show ?case
  proof (cases i)
    case 0
    then show ?thesis by (simp add: at(1))
  next
    case (Suc j)
    have "line_list b (p + 12) es" using Cons.prems(1) at(2) unfolding line_list_def by auto
    from Cons.IH [OF this, of j] show ?thesis using Suc Cons.prems(2) by (simp add: add.assoc)
  qed
qed

lemma takeWhile_stop: "length (takeWhile P xs) < length xs \<Longrightarrow> \<not> P (xs ! length (takeWhile P xs))"
  by (rule nth_length_takeWhile)

lemma sorted_takeWhile_filter:
  fixes ofs :: int
  shows "sorted (map f es) \<Longrightarrow> filter (\<lambda>e. f e \<le> ofs) es = takeWhile (\<lambda>e. f e \<le> ofs) es"
proof (induction es)
  case (Cons e es)
  show ?case
  proof (cases "f e \<le> ofs")
    case False
    then have "\<forall>x \<in> set es. \<not> f x \<le> ofs" using Cons.prems by auto
    then show ?thesis using False by simp
  qed (use Cons in simp)
qed simp

section \<open>Properties\<close>

text \<open>A lookup in a symbol list that was written with names of at most 28 characters returns the offset of the
  first symbol with that name, and -1 when there is none; it ends and stays within the file. The names are compared by
  their first 28 characters.\<close>

theorem injfile_get_symbol_correct:
  assumes "symbol_list (inj_image f) (unat p) ss" "0 \<notin> set name"
  shows "injfile_get_symbol f (Some p) name =
    Inr (case List.find (\<lambda>s. fst s = take 28 name) ss of None \<Rightarrow> -1 | Some s \<Rightarrow> sint (snd s))"
  using get_symbol_list [OF assms] by (simp add: injfile_get_symbol_def)

text \<open>Witness: the second of two symbols.\<close>

theorem injfile_get_symbol_correct_witness:
  "injfile_get_symbol \<lparr>inj_image = symbol_bytes ([0x61], 5) @ symbol_bytes ([0x62], 7) @ [0], inj_version = 0x0210, inj_flags = 0,
     inj_code_size = 0, inj_code = None, inj_name = None, inj_comment = None, inj_adbi = None, inj_imports = None, inj_exports = None,
     inj_tpoints = None, inj_strings = None, inj_lines = None\<rparr> (Some 0) [0x62] = Inr 7"
proof -
  let ?b = "symbol_bytes ([0x61], 5) @ symbol_bytes ([0x62], 7) @ [0]"
  have "symbol_list ?b (unat (0 :: u64)) [([0x61], 5), ([0x62], 7)]" by (simp add: symbol_list_def symbol_ok_def)
  then show ?thesis
    by (subst injfile_get_symbol_correct [of _ 0 "[([0x61], 5), ([0x62], 7)]"]) simp_all
qed

text \<open>In a line table sorted by address, \<^verbatim>\<open>injfile_addr2line\<close> returns the file and the line of the last entry whose
  address is not above the offset, and fails exactly when there is none (or no table).\<close>

theorem injfile_addr2line_correct:
  assumes "inj_lines fi = Some p" "line_list (inj_image fi) (unat p) es" "sorted (map (\<lambda>e. sint (fst e)) es)"
  shows "injfile_addr2line fi ofs =
    (case filter (\<lambda>e. sint (fst e) \<le> ofs) es of
       [] \<Rightarrow> Inr None
     | x # xs \<Rightarrow> Inr (Some (injfile_get_string fi (fst (snd (last (x # xs)))), snd (snd (last (x # xs))))))"
proof -
  let ?pre = "takeWhile (\<lambda>e. sint (fst e) \<le> ofs) es" and ?b = "inj_image fi"
  let ?n = "length ?pre"
  have n: "?n \<le> length es" by (rule length_takeWhile_le)
  have f: "find_line ?b (unat p) ofs = Inr (unat p + 12 * ?n)" by (rule find_line_list [OF assms(2)])
  have at: "lineinfo_at ?b (unat p + 12 * ?n) = Inr ((es @ [(0, 0, 0)]) ! ?n)" by (rule lineinfo_at_nth [OF assms(2) n])
  obtain a fl l where e: "(es @ [(0, 0, 0)]) ! ?n = (a, fl, l)" by (metis prod_cases3)
  have stop: "a OR fl OR l = 0 \<or> sint a > ofs"
    using nth_length_takeWhile [of "\<lambda>e. sint (fst e) \<le> ofs" es] e n
    by (cases "?n < length es") (auto simp: nth_append)
  have s: "filter (\<lambda>e. sint (fst e) \<le> ofs) es = ?pre" by (rule sorted_takeWhile_filter [OF assms(3)])
  show ?thesis
  proof (cases "?pre = []")
    case True
    then show ?thesis using f at e stop by (simp add: injfile_addr2line_def assms(1) s)
  next
    case False
    then obtain x xs where x: "?pre = x # xs" by (cases ?pre) auto
    have "lineinfo_at ?b (unat p + 12 * (?n - 1)) = Inr ((es @ [(0, 0, 0)]) ! (?n - 1))"
      by (rule lineinfo_at_nth [OF assms(2)]) (use n in simp)
    moreover have "unat p + 12 * ?n - 12 = unat p + 12 * (?n - 1)" using False by (cases ?n) auto
    moreover have less: "?n - 1 < length es" "?n - 1 < ?n" using n False by (cases ?n; simp)+
    then have "(es @ [(0, 0, 0)]) ! (?n - 1) = last ?pre"
      using less by (simp add: last_conv_nth [OF False] nth_append takeWhile_nth)
    ultimately have prev: "lineinfo_at ?b (unat p + 12 * ?n - 12) = Inr (last ?pre)" by simp
    obtain a' f' l' where la: "last ?pre = (a', f', l')" by (metis prod_cases3)
    have "?n \<noteq> 0" using False by simp
    then show ?thesis using f at e stop prev la
      by (simp add: injfile_addr2line_def assms(1) s x del: length_greater_0_conv)
  qed
qed

text \<open>Witness: three entries, an offset between the second and the third.\<close>

theorem injfile_addr2line_correct_witness:
  "injfile_addr2line \<lparr>inj_image = concat (map lineinfo_bytes [(0, 1, 10), (4, 1, 11), (12, 1, 13)]) @ lineinfo_bytes (0, 0, 0),
     inj_version = 0x0210, inj_flags = 0, inj_code_size = 0, inj_code = None, inj_name = None, inj_comment = None, inj_adbi = None,
     inj_imports = None, inj_exports = None, inj_tpoints = None, inj_strings = None, inj_lines = Some 0\<rparr> 8
   = Inr (Some ([0x3c, 0x65, 0x72, 0x72, 0x6f, 0x72, 0x3e, 0], 11))"
proof -
  let ?es = "[(0, 1, 10), (4, 1, 11), (12, 1, 13)] :: (u32 \<times> u32 \<times> u32) list"
  have "line_list (concat (map lineinfo_bytes ?es) @ lineinfo_bytes (0, 0, 0)) (unat (0 :: u64)) ?es"
    by (simp add: line_list_def)
  then show ?thesis
    by (subst injfile_addr2line_correct [of _ 0 ?es]) (simp_all add: injfile_get_string_def)
qed

text \<open>The code of an accepted file lies within the file exactly when the sum of its offset and size did not wrap
  around: the check of \<^verbatim>\<open>injfile_init\<close> alone does not bound the code.\<close>

theorem injfile_init_code_bounds:
  assumes "injfile_init b = Some f" "inj_code f = Some p" "length b < 2 ^ 64"
  shows "unat p + unat (inj_code_size f) \<le> length (inj_image f) \<longleftrightarrow> unat p + unat (inj_code_size f) < 2 ^ 64"
proof -
  have "f = injfile_fixed b" and le: "unat (code_end b) \<le> length b"
    using assms(1) by (auto simp: injfile_init_def split: if_splits)
  then have f: "inj_image f = b" "inj_code_size f = file_code_size b" "p = offset_field b 0"
    using assms(2) by (auto simp: injfile_fixed_def fix_ptr_def split: if_splits)
  have "unat (file_code_size b) < 2 ^ LENGTH(32)" by (rule unsigned_less)
  then have "unat (file_code_size b) < 2 ^ 64" by simp
  then have u: "unat (ucast (file_code_size b) :: u64) = unat (file_code_size b)"
    unfolding unsigned_ucast_eq by (simp add: take_bit_nat_eq_self)
  show ?thesis
  proof
    assume "unat p + unat (inj_code_size f) \<le> length (inj_image f)"
    then show "unat p + unat (inj_code_size f) < 2 ^ 64" using assms(3) f(1) by (simp only:)
  next
    assume "unat p + unat (inj_code_size f) < 2 ^ 64"
    then have "unat (code_end b) = unat p + unat (inj_code_size f)"
      using u f by (simp add: code_end_def unat_word_ariths)
    then show "unat p + unat (inj_code_size f) \<le> length (inj_image f)" using le f(1) by simp
  qed
qed

text \<open>Witness: a header whose code of one byte follows it.\<close>

definition small_injfile :: bytes where
  "small_injfile = injfile_magic @ [0x10, 0x02, 0, 0, 1, 0, 0, 0, 88, 0, 0, 0, 0, 0, 0, 0] @ replicate 65 0"

theorem injfile_init_code_bounds_witness:
  "\<exists>f p. injfile_init small_injfile = Some f \<and> inj_code f = Some p \<and> unat p + unat (inj_code_size f) \<le> length (inj_image f)"
proof -
  have a: "injfile_init small_injfile = Some (injfile_fixed small_injfile)" by code_simp
  have b: "inj_code (injfile_fixed small_injfile) = Some 88" by code_simp
  have c: "inj_code_size (injfile_fixed small_injfile) = 1" by code_simp
  have d: "length small_injfile < 2 ^ 64" by (simp add: small_injfile_def injfile_magic_def)
  show ?thesis using injfile_init_code_bounds [OF a b d] a b c by simp
qed

end
