(* ===== verification/Injectable.thy ===== *)
theory Injectable
  imports Injfile Asdd_Tree
begin

text \<open>
  The registry of injectables, \<^verbatim>\<open>injectable/injectable.c\<close>: three trees of pointers to the same objects, the loading and
  unloading of injectables, the resolution of imports. The objects are at addresses of a heap; \<open>a\<close> is the address that
  \<^verbatim>\<open>adbi_malloc\<close> returns. What \<^verbatim>\<open>process_iter\<close> with \<^verbatim>\<open>process_attach_injectable\<close> or \<^verbatim>\<open>process_detach_injectable\<close> does
  to the registry is the parameter \<open>attach\<close> or \<open>detach\<close>. Strings are byte lists without their terminator.
\<close>

section \<open>Definitions\<close>

record injectable_t =
  iid :: u32
  filename :: bytes
  injfile :: injfile_t
  inj_references :: u32
  builtin :: bool

record registry =
  inj_heap :: "nat \<Rightarrow> injectable_t option"
  injectables :: "(u32, nat) tree_t"
  libraries :: "(u32, nat) tree_t"
  bindings :: "(u32, nat) tree_t"
  next_iid :: u32

definition injectable_at :: "registry \<Rightarrow> nat \<Rightarrow> injectable_t res" where
  "injectable_at w p = (case inj_heap w p of None \<Rightarrow> Inl Dangling | Some x \<Rightarrow> Inr x)"

definition injectable_is_library :: "injectable_t \<Rightarrow> bool" where
  "injectable_is_library x = injfile_is_library (injfile x)"

text \<open>The bytes from the name of the file on.\<close>

definition injfile_name :: "injfile_t \<Rightarrow> bytes res" where
  "injfile_name f = (case inj_name f of None \<Rightarrow> Inl Null_Pointer | Some p \<Rightarrow> Inr (drop (unat p) (inj_image f)))"

definition builtin_name :: "injfile_t \<Rightarrow> bytes res" where
  "builtin_name f =
     res_bind (injfile_name f) (\<lambda>n.
     res_bind (c_strlen n) (\<lambda>l.
     Inr ([0x3c, 0x62, 0x75, 0x69, 0x6c, 0x74, 0x2d, 0x69, 0x6e, 0x20] @ take l n @ [0x3e])))"

text \<open>The part of \<^verbatim>\<open>injectable_create\<close> after the object has been filled in.\<close>

definition injectable_register :: "(u32, nat) tree_lib \<Rightarrow> registry \<Rightarrow> nat \<Rightarrow> injectable_t \<Rightarrow> registry res" where
  "injectable_register lib w a x =
     res_bind (tree_insert lib (injectables w) (iid x) a) (\<lambda>is.
     let w = w\<lparr>inj_heap := (inj_heap w)(a \<mapsto> x), injectables := is, next_iid := iid x + 1\<rparr>
     in if injectable_is_library x
        then res_bind (tree_insert lib (libraries w) (iid x) a) (\<lambda>ls. Inr (w\<lparr>libraries := ls\<rparr>))
        else res_bind (tree_insert lib (bindings w) (iid x) a) (\<lambda>bs. Inr (w\<lparr>bindings := bs\<rparr>)))"

definition injectable_create ::
    "(u32, nat) tree_lib \<Rightarrow> registry \<Rightarrow> nat \<Rightarrow> injfile_t \<Rightarrow> bytes option \<Rightarrow> registry res" where
  "injectable_create lib w a f fn =
     res_bind (case fn of None \<Rightarrow> builtin_name f | Some n \<Rightarrow> Inr n) (\<lambda>name.
     injectable_register lib w a \<lparr>iid = next_iid w, filename = name, injfile = f, inj_references = 0, builtin = (fn = None)\<rparr>)"

definition injectable_free :: "(u32, nat) tree_lib \<Rightarrow> registry \<Rightarrow> nat \<Rightarrow> registry res" where
  "injectable_free lib w p =
     res_bind (injectable_at w p) (\<lambda>x.
     adbi_assure (inj_references x = 0)
     (res_bind (tree_remove lib (injectables w) (iid x)) (\<lambda>is.
      let w = w\<lparr>injectables := is\<rparr>
      in if injectable_is_library x
         then res_bind (tree_remove lib (libraries w) (iid x)) (\<lambda>ls. Inr (w\<lparr>libraries := ls\<rparr>))
         else res_bind (tree_remove lib (bindings w) (iid x)) (\<lambda>bs. Inr (w\<lparr>bindings := bs\<rparr>)))))"

definition injectable_init_builtin ::
    "(u32, nat) tree_lib \<Rightarrow> registry \<Rightarrow> nat \<Rightarrow> bytes \<Rightarrow> (nat option \<times> registry) res" where
  "injectable_init_builtin lib w a buffer =
     (case injfile_init buffer of
        None \<Rightarrow> Inr (None, w)
      | Some f \<Rightarrow> res_bind (injectable_create lib w a f None) (\<lambda>w. Inr (Some a, w)))"

text \<open>The first object of a list that satisfies a test.\<close>

fun first_injectable :: "(injectable_t \<Rightarrow> bool res) \<Rightarrow> registry \<Rightarrow> nat list \<Rightarrow> nat option res" where
  "first_injectable P w [] = Inr None"
| "first_injectable P w (p # ps) =
     res_bind (injectable_at w p) (\<lambda>x. res_if (P x) (Inr (Some p)) (first_injectable P w ps))"

definition has_name :: "bytes \<Rightarrow> injectable_t \<Rightarrow> bool res" where
  "has_name path x = res_bind (injfile_name (injfile x)) (strcmp_eq (path @ [0]))"

definition injectable_get_binding :: "registry \<Rightarrow> bytes \<Rightarrow> nat option res" where
  "injectable_get_binding w path = first_injectable (has_name path) w (tree_vals (bindings w))"

definition injectable_get_library :: "registry \<Rightarrow> bytes \<Rightarrow> nat option res" where
  "injectable_get_library w name = first_injectable (has_name name) w (tree_vals (libraries w))"

definition injectable_get :: "registry \<Rightarrow> u32 \<Rightarrow> nat option" where
  "injectable_get w i = tree_get (injectables w) i"

definition injectable_get_by_file :: "registry \<Rightarrow> bytes \<Rightarrow> nat option res" where
  "injectable_get_by_file w fn =
     first_injectable (\<lambda>x. Inr (\<not> builtin x \<and> filename x = fn)) w (tree_vals (injectables w))"

text \<open>The reasons that \<^verbatim>\<open>injectable_load\<close> and \<^verbatim>\<open>injectable_unload\<close> report.\<close>

datatype whynot = Already_Loaded | File_Malformed | Invalid_Binding | No_Such_Injectable | Is_Builtin | In_Use

definition c_string :: "bytes \<Rightarrow> bytes res" where
  "c_string p = (if 0 \<in> set p then Inr (takeWhile (\<lambda>b. b \<noteq> 0) p) else Inl Out_Of_Bounds)"

definition injectable_load ::
    "(u32, nat) tree_lib \<Rightarrow> (registry \<Rightarrow> nat \<Rightarrow> registry res) \<Rightarrow> registry \<Rightarrow> nat \<Rightarrow> file_io \<Rightarrow> bytes \<Rightarrow> ((whynot + nat) \<times> registry) res" where
  "injectable_load lib attach w a io fn =
     res_bind (injectable_get_by_file w fn) (\<lambda>r.
     if r \<noteq> None then Inr (Inl Already_Loaded, w)
     else case injfile_load io of
       None \<Rightarrow> Inr (Inl File_Malformed, w)
     | Some f \<Rightarrow>
         res_bind (if injfile_is_library f then Inr None
                   else res_bind (injfile_name f) (\<lambda>p. res_bind (c_string p) (injectable_get_binding w))) (\<lambda>b.
         if b \<noteq> None then Inr (Inl Invalid_Binding, w)
         else res_bind (injectable_create lib w a f (Some fn)) (\<lambda>w.
              res_bind (attach w a) (\<lambda>w. Inr (Inr a, w)))))"

definition injectable_unload ::
    "(u32, nat) tree_lib \<Rightarrow> (registry \<Rightarrow> nat \<Rightarrow> registry res) \<Rightarrow> registry \<Rightarrow> u32 \<Rightarrow> (whynot option \<times> registry) res" where
  "injectable_unload lib detach w i =
     (case tree_get (injectables w) i of
        None \<Rightarrow> Inr (Some No_Such_Injectable, w)
      | Some p \<Rightarrow>
          res_bind (injectable_at w p) (\<lambda>x.
          if builtin x then Inr (Some Is_Builtin, w)
          else if injectable_is_library x \<and> inj_references x \<noteq> 0 then Inr (Some In_Use, w)
          else res_bind (detach w p) (\<lambda>w. res_bind (injectable_free lib w p) (\<lambda>w. Inr (None, w)))))"

definition injectable_get_symbol :: "injectable_t \<Rightarrow> bytes \<Rightarrow> int res" where
  "injectable_get_symbol x name = injfile_get_adbi (injfile x) name"

definition injectable_get_exported_symbol :: "injectable_t \<Rightarrow> bytes \<Rightarrow> int res" where
  "injectable_get_exported_symbol x name = injfile_get_export (injfile x) name"

text \<open>The loop of \<^verbatim>\<open>injectable_cleanup\<close>; \<open>fuel\<close> bounds the number of iterations.\<close>

fun cleanup_loop :: "(u32, nat) tree_lib \<Rightarrow> nat \<Rightarrow> registry \<Rightarrow> registry res" where
  "cleanup_loop lib fuel w =
     (case tree_get_any_val (injectables w) of
        None \<Rightarrow> Inr w
      | Some p \<Rightarrow> (case fuel of 0 \<Rightarrow> Inl Diverges | Suc n \<Rightarrow> res_bind (injectable_free lib w p) (cleanup_loop lib n)))"

declare cleanup_loop.simps [simp del]

definition injectable_cleanup :: "(u32, nat) tree_lib \<Rightarrow> nat \<Rightarrow> registry \<Rightarrow> registry res" where
  "injectable_cleanup lib fuel w =
     res_bind (cleanup_loop lib fuel w) (\<lambda>w.
     adbi_assure (tree_empty (injectables w))
     (adbi_assure (tree_empty (libraries w))
     (adbi_assure (tree_empty (bindings w)) (Inr w))))"

text \<open>
  \<^verbatim>\<open>INJFILE_ITER_IMPORTS\<close> looks at the name of a symbol only when it goes on to it: the first one is visited even when it
  ends the list.
\<close>

function iter_imports :: "bytes \<Rightarrow> nat \<Rightarrow> (bytes \<times> int) list res" where
  "iter_imports b p =
     res_bind (signed_at b (p + 28)) (\<lambda>ofs.
     if length b \<le> p + 32 then Inl Out_Of_Bounds
     else if b ! (p + 32) = 0 then Inr [(symbol_name b p, ofs)]
     else res_bind (iter_imports b (p + 32)) (\<lambda>rest. Inr ((symbol_name b p, ofs) # rest)))"
  by pat_completeness auto
termination by (relation "measure (\<lambda>(b, p). length b - p)") auto

declare iter_imports.simps [simp del]

definition injectable_imports :: "injectable_t \<Rightarrow> (bytes \<times> int) list res" where
  "injectable_imports x =
     (case inj_imports (injfile x) of None \<Rightarrow> Inr [] | Some p \<Rightarrow> iter_imports (inj_image (injfile x)) (unat p))"

text \<open>
  The library that exports a symbol; an offset of 0 does not count. The names are compared by their first 28 characters,
  so that the name of a symbol need not be terminated.
\<close>

definition exporter :: "registry \<Rightarrow> bytes \<Rightarrow> nat option res" where
  "exporter w name =
     first_injectable (\<lambda>x. res_bind (injfile_get_export (injfile x) (takeWhile (\<lambda>b. b \<noteq> 0) name)) (\<lambda>ofs. Inr (0 < ofs))) w (tree_vals (libraries w))"

text \<open>The dependencies and the imports that no library exports.\<close>

fun get_dependencies ::
    "(u32, nat) tree_lib \<Rightarrow> registry \<Rightarrow> (bytes \<times> int) list \<Rightarrow> (u32, nat) tree_t \<Rightarrow> ((u32, nat) tree_t \<times> bytes list) res" where
  "get_dependencies lib w [] deps = Inr (deps, [])"
| "get_dependencies lib w (s # ss) deps =
     res_bind (exporter w (fst s)) (\<lambda>e.
     case e of
       Some p \<Rightarrow>
         res_bind (injectable_at w p) (\<lambda>x.
         res_bind (tree_insert lib deps (iid x) p) (\<lambda>deps. get_dependencies lib w ss deps))
     | None \<Rightarrow> res_bind (get_dependencies lib w ss deps) (\<lambda>(deps, unresolved). Inr (deps, fst s # unresolved)))"

definition injectable_get_dependencies ::
    "(u32, nat) tree_lib \<Rightarrow> registry \<Rightarrow> injectable_t \<Rightarrow> ((u32, nat) tree_t \<times> bytes list) res" where
  "injectable_get_dependencies lib w x = res_bind (injectable_imports x) (\<lambda>ss. get_dependencies lib w ss Leaf)"

text \<open>The callbacks in the order they are made: dependencies of a library before the library. The recursion follows the
  imports; \<open>fuel\<close> bounds its depth.\<close>

fun injectable_iter_dependencies :: "(u32, nat) tree_lib \<Rightarrow> registry \<Rightarrow> nat \<Rightarrow> injectable_t \<Rightarrow> nat list res"
and iter_dependency_list :: "(u32, nat) tree_lib \<Rightarrow> registry \<Rightarrow> nat \<Rightarrow> nat list \<Rightarrow> nat list res" where
  "injectable_iter_dependencies lib w 0 x = Inl Diverges"
| "injectable_iter_dependencies lib w (Suc n) x =
     res_bind (injectable_get_dependencies lib w x) (\<lambda>(deps, _). iter_dependency_list lib w n (tree_vals deps))"
| "iter_dependency_list lib w n [] = Inr []"
| "iter_dependency_list lib w n (p # ps) =
     res_bind (injectable_at w p) (\<lambda>x.
     res_bind (injectable_iter_dependencies lib w n x) (\<lambda>before.
     res_bind (iter_dependency_list lib w n ps) (\<lambda>rest. Inr (before @ p # rest))))"

section \<open>The registry as a map\<close>

definition registry_ok :: "registry \<Rightarrow> bool" where
  "registry_ok w \<longleftrightarrow> tree_ok (injectables w) \<and> tree_ok (libraries w) \<and> tree_ok (bindings w)
     \<and> (\<forall>i p. tree_map (injectables w) i = Some p \<longrightarrow> (\<exists>x. inj_heap w p = Some x \<and> iid x = i))
     \<and> (\<forall>i p. tree_map (libraries w) i = Some p \<longleftrightarrow>
          tree_map (injectables w) i = Some p \<and> (\<exists>x. inj_heap w p = Some x \<and> injectable_is_library x))
     \<and> (\<forall>i p. tree_map (bindings w) i = Some p \<longleftrightarrow>
          tree_map (injectables w) i = Some p \<and> (\<exists>x. inj_heap w p = Some x \<and> \<not> injectable_is_library x))"

text \<open>What the registry stands for: the injectables by their id, without their reference counters.\<close>

definition loaded :: "registry \<Rightarrow> u32 \<Rightarrow> injectable_t option" where
  "loaded w i = map_option (\<lambda>x. x\<lparr>inj_references := 0\<rparr>) (Option.bind (tree_map (injectables w) i) (inj_heap w))"

definition unreferenced :: "registry \<Rightarrow> bool" where
  "unreferenced w \<longleftrightarrow> (\<forall>i p x. tree_map (injectables w) i = Some p \<longrightarrow> inj_heap w p = Some x \<longrightarrow> inj_references x = 0)"

text \<open>Attaching to and detaching from processes changes no more than the reference counters.\<close>

definition only_references :: "registry \<Rightarrow> registry \<Rightarrow> bool" where
  "only_references w w' \<longleftrightarrow> injectables w' = injectables w \<and> libraries w' = libraries w \<and> bindings w' = bindings w
     \<and> next_iid w' = next_iid w
     \<and> (\<forall>p. map_option (\<lambda>x. x\<lparr>inj_references := 0\<rparr>) (inj_heap w' p) = map_option (\<lambda>x. x\<lparr>inj_references := 0\<rparr>) (inj_heap w p))"

lemma only_references_fields:
  assumes "only_references w w'" "inj_heap w' p = Some y"
  shows "\<exists>x. inj_heap w p = Some x \<and> iid y = iid x \<and> injfile y = injfile x \<and> builtin y = builtin x \<and> filename y = filename x"
proof -
  have "map_option (\<lambda>x. x\<lparr>inj_references := 0\<rparr>) (inj_heap w p) = Some (y\<lparr>inj_references := 0\<rparr>)"
    using assms unfolding only_references_def by (metis option.simps(9))
  then obtain x where x: "inj_heap w p = Some x" "x\<lparr>inj_references := 0\<rparr> = y\<lparr>inj_references := 0\<rparr>" by auto
  have "iid (x\<lparr>inj_references := 0\<rparr>) = iid (y\<lparr>inj_references := 0\<rparr>)" "injfile (x\<lparr>inj_references := 0\<rparr>) = injfile (y\<lparr>inj_references := 0\<rparr>)"
    "builtin (x\<lparr>inj_references := 0\<rparr>) = builtin (y\<lparr>inj_references := 0\<rparr>)" "filename (x\<lparr>inj_references := 0\<rparr>) = filename (y\<lparr>inj_references := 0\<rparr>)"
    unfolding x(2) by (rule refl)+
  then show ?thesis using x(1) by simp
qed

lemma only_references_sym: "only_references w w' \<Longrightarrow> only_references w' w"
  unfolding only_references_def by simp

lemma registry_ok_only_references:
  assumes "registry_ok w" "only_references w w'"
  shows "registry_ok w'" "loaded w' = loaded w"
proof -
  have t: "injectables w' = injectables w" "libraries w' = libraries w" "bindings w' = bindings w"
    using assms(2) unfolding only_references_def by simp_all
  have h: "(\<exists>x. inj_heap w' p = Some x \<and> P (iid x) (injfile x)) \<longleftrightarrow> (\<exists>x. inj_heap w p = Some x \<and> P (iid x) (injfile x))" for p P
    using only_references_fields [OF assms(2)] only_references_fields [OF only_references_sym [OF assms(2)]] by metis
  show "registry_ok w'"
    using assms(1) h [of _ "\<lambda>i f. i = _"] h [of _ "\<lambda>i f. injfile_is_library f"] h [of _ "\<lambda>i f. \<not> injfile_is_library f"]
    unfolding registry_ok_def t injectable_is_library_def by simp
  show "loaded w' = loaded w"
    using assms(2) by (intro ext) (auto simp: loaded_def t only_references_def split: option.splits bind_split)
qed

lemma first_injectable_mem: "first_injectable P w ps = Inr (Some p) \<Longrightarrow> p \<in> set ps"
  by (induction ps) (auto simp: res_bind_eq_Inr res_if_def split: if_splits)

locale registry_trees = tree_library lib for lib :: "(u32, nat) tree_lib"
begin

lemma injectable_register_ok:
  assumes "registry_ok w" "inj_heap w a = None" "tree_map (injectables w) (iid x) = None"
  shows "\<exists>w'. injectable_register lib w a x = Inr w' \<and> registry_ok w'
    \<and> loaded w' = (loaded w)(iid x \<mapsto> x\<lparr>inj_references := 0\<rparr>) \<and> inj_heap w' = (inj_heap w)(a \<mapsto> x) \<and> next_iid w' = iid x + 1
    \<and> tree_map (bindings w') = (if injectable_is_library x then tree_map (bindings w) else (tree_map (bindings w))(iid x \<mapsto> a))
    \<and> tree_map (injectables w') = (tree_map (injectables w))(iid x \<mapsto> a)"
proof -
  have ok: "tree_ok (injectables w)" "tree_ok (libraries w)" "tree_ok (bindings w)"
    using assms(1) unfolding registry_ok_def by blast+
  have n: "tree_map (libraries w) (iid x) = None" "tree_map (bindings w) (iid x) = None"
    using assms(1,3) unfolding registry_ok_def by (metis not_None_eq option.distinct(1))+
  have na: "tree_map (injectables w) i \<noteq> Some a" for i using assms(1,2) unfolding registry_ok_def by force
  obtain ss where ss: "tree_insert lib (injectables w) (iid x) a = Inr ss" "tree_ok ss" "tree_map ss = (tree_map (injectables w))(iid x \<mapsto> a)"
    using insert_spec [OF ok(1) assms(3)] by blast
  obtain ls where ls: "tree_insert lib (libraries w) (iid x) a = Inr ls" "tree_ok ls" "tree_map ls = (tree_map (libraries w))(iid x \<mapsto> a)"
    using insert_spec [OF ok(2) n(1)] by blast
  obtain bs where bs: "tree_insert lib (bindings w) (iid x) a = Inr bs" "tree_ok bs" "tree_map bs = (tree_map (bindings w))(iid x \<mapsto> a)"
    using insert_spec [OF ok(3) n(2)] by blast
  let ?w = "w\<lparr>inj_heap := (inj_heap w)(a \<mapsto> x), injectables := ss, next_iid := iid x + 1\<rparr>"
  show ?thesis
  proof (cases "injectable_is_library x")
    case True
    have "registry_ok (?w\<lparr>libraries := ls\<rparr>)"
      using assms(1,3) na True ss(2) ls(2) n unfolding registry_ok_def by (auto simp: ss(3) ls(3))
    moreover have "loaded (?w\<lparr>libraries := ls\<rparr>) = (loaded w)(iid x \<mapsto> x\<lparr>inj_references := 0\<rparr>)"
      using na by (intro ext) (auto simp: loaded_def ss(3) split: bind_split)
    ultimately show ?thesis using True by (simp add: injectable_register_def ss(1,3) ls(1))
  next
    case False
    have "registry_ok (?w\<lparr>bindings := bs\<rparr>)"
      using assms(1,3) na False ss(2) bs(2) n unfolding registry_ok_def by (auto simp: ss(3) bs(3))
    moreover have "loaded (?w\<lparr>bindings := bs\<rparr>) = (loaded w)(iid x \<mapsto> x\<lparr>inj_references := 0\<rparr>)"
      using na by (intro ext) (auto simp: loaded_def ss(3) split: bind_split)
    ultimately show ?thesis using False by (simp add: injectable_register_def ss(1,3) bs(1,3))
  qed
qed

lemma injectable_free_ok:
  assumes "registry_ok w" "tree_map (injectables w) i = Some p" "inj_heap w p = Some x" "inj_references x = 0"
  shows "\<exists>w'. injectable_free lib w p = Inr w' \<and> registry_ok w' \<and> loaded w' = (loaded w)(i := None) \<and> inj_heap w' = inj_heap w
    \<and> tree_map (injectables w') = (tree_map (injectables w))(i := None)"
proof -
  have ok: "tree_ok (injectables w)" "tree_ok (libraries w)" "tree_ok (bindings w)"
    using assms(1) unfolding registry_ok_def by blast+
  have i: "iid x = i" using assms(1-3) unfolding registry_ok_def by force
  obtain ss where ss: "tree_remove lib (injectables w) i = Inr ss" "tree_ok ss" "tree_map ss = (tree_map (injectables w))(i := None)"
    using remove_spec [OF ok(1)] assms(2) by blast
  show ?thesis
  proof (cases "injectable_is_library x")
    case True
    then have "tree_map (libraries w) i = Some p" and b: "tree_map (bindings w) i = None"
      using assms(1-3) unfolding registry_ok_def by (blast, metis not_None_eq option.inject)
    then obtain ls where ls: "tree_remove lib (libraries w) i = Inr ls" "tree_ok ls" "tree_map ls = (tree_map (libraries w))(i := None)"
      using remove_spec [OF ok(2)] by blast
    have "registry_ok (w\<lparr>injectables := ss, libraries := ls\<rparr>)"
      using assms(1-3) True ss(2) ls(2) b unfolding registry_ok_def by (auto simp: ss(3) ls(3))
    moreover have "loaded (w\<lparr>injectables := ss, libraries := ls\<rparr>) = (loaded w)(i := None)"
      by (intro ext) (auto simp: loaded_def ss(3))
    ultimately show ?thesis using True
      by (simp add: injectable_free_def injectable_at_def assms(3,4) i ss(1,3) ls(1))
  next
    case False
    then have "tree_map (bindings w) i = Some p" and b: "tree_map (libraries w) i = None"
      using assms(1-3) unfolding registry_ok_def by (blast, metis not_None_eq option.inject)
    then obtain bs where bs: "tree_remove lib (bindings w) i = Inr bs" "tree_ok bs" "tree_map bs = (tree_map (bindings w))(i := None)"
      using remove_spec [OF ok(3)] by blast
    have "registry_ok (w\<lparr>injectables := ss, bindings := bs\<rparr>)"
      using assms(1-3) False ss(2) bs(2) b unfolding registry_ok_def by (auto simp: ss(3) bs(3))
    moreover have "loaded (w\<lparr>injectables := ss, bindings := bs\<rparr>) = (loaded w)(i := None)"
      by (intro ext) (auto simp: loaded_def ss(3))
    ultimately show ?thesis using False
      by (simp add: injectable_free_def injectable_at_def assms(3,4) i ss(1,3) bs(1))
  qed
qed

lemma cleanup_loop_ok:
  assumes "registry_ok w" "size (injectables w) \<le> n" "unreferenced w"
  shows "\<exists>w'. cleanup_loop lib n w = Inr w' \<and> registry_ok w' \<and> injectables w' = Leaf"
  using assms
proof (induction n arbitrary: w)
  case 0
  then show ?case by (subst cleanup_loop.simps) (simp add: tree_get_any_val_def)
next
  case (Suc n)
  show ?case
  proof (cases "injectables w")
    case Leaf
    then show ?thesis using Suc.prems(1) by (subst cleanup_loop.simps) (simp add: tree_get_any_val_def)
  next
    case (Node l e r)
    have ok: "tree_ok (injectables w)" using Suc.prems(1) unfolding registry_ok_def by blast
    have "e \<in> set (inorder (injectables w))" by (simp add: Node)
    then have e: "tree_map (injectables w) (fst e) = Some (snd e)" using tree_ok_map_entry [OF ok] by simp
    then obtain x where x: "inj_heap w (snd e) = Some x" using Suc.prems(1) unfolding registry_ok_def by blast
    have zero: "inj_references x = 0" using Suc.prems(3) e x unfolding unreferenced_def by blast
    obtain w' where w': "injectable_free lib w (snd e) = Inr w'" "registry_ok w'" "inj_heap w' = inj_heap w"
      "tree_map (injectables w') = (tree_map (injectables w))(fst e := None)"
      using injectable_free_ok [OF Suc.prems(1) e x zero] by blast
    have "size (injectables w') < size (injectables w)"
      using w'(2) ok e w'(4) by (intro tree_map_size) (auto simp: registry_ok_def)
    then have "size (injectables w') \<le> n" using Suc.prems(2) by simp
    moreover have "unreferenced w'" using Suc.prems(3) unfolding unreferenced_def w'(3,4) by (simp split: if_splits)
    ultimately show ?thesis using Suc.IH [OF w'(2)] w'(1) Node
      by (subst cleanup_loop.simps) (cases e, simp add: tree_get_any_val_def)
  qed
qed

text \<open>The insertions of \<open>get_dependencies\<close> when no lookup faults.\<close>

lemma get_dependencies_ok:
  assumes "registry_ok w" "tree_ok deps" "\<And>s. s \<in> set ss \<Longrightarrow> exporter w (fst s) = Inr (ex s)"
    and "\<forall>s \<in> set ss. \<forall>p. ex s = Some p \<longrightarrow> (\<exists>i. tree_map (libraries w) i = Some p)"
    and "\<And>k p. tree_map deps k = Some p \<Longrightarrow> tree_map (libraries w) k = Some p"
  shows "(distinct (List.map_filter ex ss) \<and> (\<forall>p \<in> set (List.map_filter ex ss). p \<notin> ran (tree_map deps)) \<longrightarrow>
      (\<exists>deps' un. get_dependencies lib w ss deps = Inr (deps', un) \<and> tree_ok deps'
         \<and> ran (tree_map deps') = ran (tree_map deps) \<union> set (List.map_filter ex ss) \<and> un = map fst (filter (\<lambda>s. ex s = None) ss)))
    \<and> (\<not> (distinct (List.map_filter ex ss) \<and> (\<forall>p \<in> set (List.map_filter ex ss). p \<notin> ran (tree_map deps))) \<longrightarrow>
      get_dependencies lib w ss deps = Inl Assertion)" (is "?R ss deps")
  using assms(2-5)
proof (induction ss arbitrary: deps)
  case Nil
  then show ?case by (simp add: List.map_filter_simps)
next
  case (Cons s ss)
  have s: "exporter w (fst s) = Inr (ex s)" using Cons.prems(2) by simp
  have t1: "exporter w (fst u) = Inr (ex u)" if "u \<in> set ss" for u using Cons.prems(2) [of u] that by simp
  have t2: "\<forall>u \<in> set ss. \<forall>q. ex u = Some q \<longrightarrow> (\<exists>i. tree_map (libraries w) i = Some q)"
    using Cons.prems(3) by simp
  show ?case
  proof (cases "ex s")
    case None
    have "?R ss deps" by (rule Cons.IH [OF Cons.prems(1) t1 t2 Cons.prems(4)])
    then show ?thesis using s None by (auto simp: List.map_filter_simps)
  next
    case (Some p)
    obtain i where i: "tree_map (libraries w) i = Some p" using Cons.prems(3) Some by auto
    then obtain x where x: "inj_heap w p = Some x" "iid x = i" using assms(1) unfolding registry_ok_def by blast
    have u: "k = i" if "tree_map (libraries w) k = Some p" for k
      using that x assms(1) unfolding registry_ok_def by force
    have mem: "p \<in> ran (tree_map deps) \<longleftrightarrow> tree_map deps i \<noteq> None"
    proof
      assume "p \<in> ran (tree_map deps)"
      then obtain k where "tree_map deps k = Some p" by (auto simp: ran_def)
      then show "tree_map deps i \<noteq> None" using u [OF Cons.prems(4)] by auto
    next
      assume "tree_map deps i \<noteq> None"
      then obtain q where q: "tree_map deps i = Some q" by auto
      then have "q = p" using Cons.prems(4) [OF q] i by simp
      then show "p \<in> ran (tree_map deps)" using q by (auto simp: ran_def)
    qed
    show ?thesis
    proof (cases "tree_map deps i")
      case None
      obtain deps' where d: "tree_insert lib deps i p = Inr deps'" "tree_ok deps'" "tree_map deps' = (tree_map deps)(i \<mapsto> p)"
        using insert_spec [OF Cons.prems(1) None] by blast
      have l: "tree_map deps' k = Some q \<Longrightarrow> tree_map (libraries w) k = Some q" for k q
        using Cons.prems(4) i unfolding d(3) by (auto split: if_splits)
      have "ran (tree_map deps') = insert p (ran (tree_map deps))" using None unfolding d(3) by simp
      moreover have "?R ss deps'" by (rule Cons.IH [OF d(2) t1 t2 l])
      ultimately show ?thesis using s Some mem None d(1) x
        by (auto simp: List.map_filter_simps injectable_at_def)
    next
      case (Some q)
      then have "tree_insert lib deps i p = Inl Assertion" using insert_duplicate [OF Cons.prems(1)] by simp
      then show ?thesis using s \<open>ex s = Some p\<close> mem Some x
        by (auto simp: List.map_filter_simps injectable_at_def)
    qed
  qed
qed

end

interpretation registry_of: registry_trees "leaf_lib d" for d
  by (rule registry_trees.intro) (rule leaf_lib_contract)

lemma strcmp_eq_faults: "strcmp_eq a b \<noteq> Inl Assertion"
  by (induction a b rule: strcmp_eq.induct) auto

lemma has_name_faults: "has_name n x \<noteq> Inl Assertion"
  using strcmp_eq_faults by (auto simp: has_name_def res_bind_def injfile_name_def split: option.splits)

lemma first_injectable_faults:
  "(\<And>x. P x \<noteq> Inl Assertion) \<Longrightarrow> first_injectable P w ps \<noteq> Inl Assertion"
proof (induction ps)
  case (Cons p ps)
  show ?case
  proof (cases "inj_heap w p")
    case (Some x)
    then show ?thesis using Cons by (cases "P x") (auto simp: injectable_at_def res_if_def)
  qed (simp add: injectable_at_def)
qed simp

lemma first_injectable_None:
  "first_injectable P w ps = Inr None \<Longrightarrow> p \<in> set ps \<Longrightarrow> inj_heap w p = Some x \<Longrightarrow> P x = Inr False"
proof (induction ps)
  case (Cons q ps)
  obtain y b where "inj_heap w q = Some y" "P y = Inr b" "\<not> b" "first_injectable P w ps = Inr None"
    using Cons.prems(1) by (auto simp: res_bind_eq_Inr injectable_at_def res_if_def split: option.splits if_splits)
  then show ?case using Cons by auto
qed simp

lemma strcmp_eq_True: "0 \<notin> set n \<Longrightarrow> strcmp_eq (n @ [0]) p = Inr True \<Longrightarrow> c_string p = Inr n"
proof (induction n arbitrary: p)
  case Nil
  then show ?case by (cases p) (auto simp: c_string_def split: if_splits)
next
  case (Cons c n)
  then obtain d where p: "p = c # d" "c \<noteq> 0" "strcmp_eq (n @ [0]) d = Inr True" by (cases p) (auto split: if_splits)
  then have "c_string d = Inr n" using Cons by simp
  then show ?case using p by (auto simp: c_string_def split: if_splits)
qed

text \<open>No two injectables are bound to the same file, the built-in ones apart.\<close>

definition bindings_unique :: "registry \<Rightarrow> bool" where
  "bindings_unique w \<longleftrightarrow> (\<forall>i j p q x y n. tree_map (bindings w) i = Some p \<longrightarrow> tree_map (bindings w) j = Some q \<longrightarrow> i \<noteq> j \<longrightarrow>
     inj_heap w p = Some x \<longrightarrow> inj_heap w q = Some y \<longrightarrow> 0 \<notin> set n \<longrightarrow> has_name n x = Inr True \<longrightarrow> has_name n y = Inr True \<longrightarrow>
     builtin x \<and> builtin y)"

lemma strcmp_eq_c_string: "0 \<notin> set n \<Longrightarrow> c_string p = Inr m \<Longrightarrow> strcmp_eq (n @ [0]) p = Inr (n = m)"
proof (induction n arbitrary: p m)
  case Nil
  then show ?case by (cases p) (auto simp: c_string_def split: if_splits)
next
  case (Cons c n)
  obtain b d where p: "p = b # d" using Cons.prems(2) by (cases p) (auto simp: c_string_def)
  show ?case
  proof (cases "b = c")
    case True
    then have m: "c_string d = Inr (takeWhile (\<lambda>b. b \<noteq> 0) d)" "m = c # takeWhile (\<lambda>b. b \<noteq> 0) d"
      using Cons.prems p by (auto simp: c_string_def split: if_splits)
    show ?thesis using Cons.IH [OF _ m(1)] Cons.prems(1) p True m(2) by auto
  next
    case False
    then show ?thesis using Cons.prems p by (auto simp: c_string_def split: if_splits)
  qed
qed

text \<open>A search in a list of objects none of which makes the test fault.\<close>

lemma first_injectable_test:
  assumes "\<forall>p \<in> set ps. \<exists>x. inj_heap w p = Some x \<and> P x = Inr (Q x)"
  shows "\<exists>r. first_injectable P w ps = Inr r \<and> (r = None \<longleftrightarrow> \<not> (\<exists>p \<in> set ps. \<exists>x. inj_heap w p = Some x \<and> Q x))"
  using assms
proof (induction ps)
  case (Cons p ps)
  then obtain x where x: "inj_heap w p = Some x" "P x = Inr (Q x)" by auto
  then show ?case using Cons by (cases "Q x") (auto simp: injectable_at_def res_if_def)
qed simp

text \<open>The injectable that is registered under an id, with its counter; the file an injectable is bound to.\<close>

definition registered :: "registry \<Rightarrow> u32 \<Rightarrow> injectable_t option" where
  "registered w i = Option.bind (tree_map (injectables w) i) (inj_heap w)"

definition bound_to :: "injfile_t \<Rightarrow> bytes res" where
  "bound_to f = res_bind (injfile_name f) c_string"

text \<open>An injectable from the given path is loaded; a binding to the given file is loaded.\<close>

definition file_loaded :: "registry \<Rightarrow> bytes \<Rightarrow> bool" where
  "file_loaded w fn \<longleftrightarrow> (\<exists>i x. registered w i = Some x \<and> \<not> builtin x \<and> filename x = fn)"

definition name_bound :: "registry \<Rightarrow> bytes \<Rightarrow> bool" where
  "name_bound w n \<longleftrightarrow> (\<exists>i x. registered w i = Some x \<and> \<not> injectable_is_library x \<and> bound_to (injfile x) = Inr n)"

text \<open>The files of the bindings that are loaded have names.\<close>

definition all_named :: "registry \<Rightarrow> bool" where
  "all_named w \<longleftrightarrow> (\<forall>i x. registered w i = Some x \<longrightarrow> \<not> injectable_is_library x \<longrightarrow> (\<exists>n. bound_to (injfile x) = Inr n))"

lemma loaded_registered: "loaded w i = map_option (\<lambda>x. x\<lparr>inj_references := 0\<rparr>) (registered w i)"
  by (simp add: loaded_def registered_def)

lemma registered_heap:
  assumes "registry_ok w"
  shows "registered w i = Some x \<longleftrightarrow> (\<exists>p. tree_map (injectables w) i = Some p \<and> inj_heap w p = Some x)"
    and "registered w i = None \<longleftrightarrow> tree_map (injectables w) i = None"
  using assms unfolding registry_ok_def registered_def by (cases "tree_map (injectables w) i"; force)+

lemma bound_to_clean: "bound_to f = Inr n \<Longrightarrow> 0 \<notin> set n"
  by (auto simp: bound_to_def res_bind_eq_Inr c_string_def split: if_splits dest: set_takeWhileD)

text \<open>The two checks of \<^verbatim>\<open>injectable_load\<close>.\<close>

lemma injectable_get_by_file_found:
  assumes "registry_ok w"
  shows "\<exists>r. injectable_get_by_file w fn = Inr r \<and> (r = None \<longleftrightarrow> \<not> file_loaded w fn)"
proof -
  have ok: "tree_ok (injectables w)" using assms unfolding registry_ok_def by blast
  have m: "p \<in> set (tree_vals (injectables w)) \<longleftrightarrow> (\<exists>i. tree_map (injectables w) i = Some p)" for p using tree_vals_map [OF ok] by blast
  have "\<forall>p \<in> set (tree_vals (injectables w)). \<exists>x. inj_heap w p = Some x"
  proof
    fix p assume "p \<in> set (tree_vals (injectables w))"
    then obtain i where "tree_map (injectables w) i = Some p" using m by blast
    then show "\<exists>x. inj_heap w p = Some x" using assms unfolding registry_ok_def by blast
  qed
  then have t: "\<forall>p \<in> set (tree_vals (injectables w)). \<exists>x. inj_heap w p = Some x
      \<and> (Inr (\<not> builtin x \<and> filename x = fn) :: bool res) = Inr (\<not> builtin x \<and> filename x = fn)" by simp
  have l: "file_loaded w fn \<longleftrightarrow> (\<exists>p \<in> set (tree_vals (injectables w)). \<exists>x. inj_heap w p = Some x \<and> \<not> builtin x \<and> filename x = fn)"
    unfolding file_loaded_def registered_heap(1) [OF assms] Bex_def m by blast
  show ?thesis unfolding injectable_get_by_file_def l by (rule first_injectable_test [OF t])
qed

lemma injectable_get_binding_found:
  assumes "registry_ok w" "all_named w" "0 \<notin> set n"
  shows "\<exists>r. injectable_get_binding w n = Inr r \<and> (r = None \<longleftrightarrow> \<not> name_bound w n)"
proof -
  have ok: "tree_ok (bindings w)" using assms(1) unfolding registry_ok_def by blast
  have m: "p \<in> set (tree_vals (bindings w)) \<longleftrightarrow> (\<exists>i. tree_map (bindings w) i = Some p)" for p using tree_vals_map [OF ok] by blast
  have b: "(\<exists>i. tree_map (bindings w) i = Some p) \<and> inj_heap w p = Some x \<longleftrightarrow>
      (\<exists>i. tree_map (injectables w) i = Some p \<and> inj_heap w p = Some x \<and> \<not> injectable_is_library x)" for p x
    using assms(1) unfolding registry_ok_def by (metis option.inject)
  have "\<forall>p \<in> set (tree_vals (bindings w)). \<exists>x. inj_heap w p = Some x \<and> has_name n x = Inr (bound_to (injfile x) = Inr n)"
  proof
    fix p assume "p \<in> set (tree_vals (bindings w))"
    then obtain i x where x: "tree_map (injectables w) i = Some p" "inj_heap w p = Some x" "\<not> injectable_is_library x"
      using m assms(1) unfolding registry_ok_def by metis
    then obtain k where "bound_to (injfile x) = Inr k" using assms(2) registered_heap(1) [OF assms(1)] unfolding all_named_def by blast
    then have "has_name n x = Inr (bound_to (injfile x) = Inr n)"
      using strcmp_eq_c_string [OF assms(3)] by (auto simp: bound_to_def has_name_def res_bind_eq_Inr)
    then show "\<exists>x. inj_heap w p = Some x \<and> has_name n x = Inr (bound_to (injfile x) = Inr n)" using x(2) by blast
  qed
  from first_injectable_test [OF this] show ?thesis
    unfolding injectable_get_binding_def name_bound_def registered_heap(1) [OF assms(1)] using m b by metis
qed

lemma registered_register:
  assumes "registry_ok w" "inj_heap w a = None" "registry_ok w1" "inj_heap w1 = (inj_heap w)(a \<mapsto> x)"
    and "tree_map (injectables w1) = (tree_map (injectables w))(iid x \<mapsto> a)"
  shows "registered w1 = (registered w)(iid x \<mapsto> x)"
proof -
  have "tree_map (injectables w) i \<noteq> Some a" for i using assms(1,2) unfolding registry_ok_def by force
  then show ?thesis by (intro ext) (auto simp: registered_def assms(4,5) split: bind_split)
qed

lemma bindings_unique_only_references:
  assumes "bindings_unique w" "only_references w w'"
  shows "bindings_unique w'"
proof -
  have t: "bindings w' = bindings w" using assms(2) unfolding only_references_def by simp
  have h: "\<exists>x. inj_heap w p = Some x \<and> builtin y = builtin x \<and> (\<forall>n. has_name n y = has_name n x)" if "inj_heap w' p = Some y" for p y
    using only_references_fields [OF assms(2) that] by (auto simp: has_name_def)
  show ?thesis unfolding bindings_unique_def t
  proof (intro allI impI)
    fix i j p q x y n
    assume a: "tree_map (bindings w) i = Some p" "tree_map (bindings w) j = Some q" "i \<noteq> j" "inj_heap w' p = Some x"
      "inj_heap w' q = Some y" "0 \<notin> set n" "has_name n x = Inr True" "has_name n y = Inr True"
    obtain x' where x': "inj_heap w p = Some x'" "builtin x = builtin x'" "has_name n x' = Inr True" using h [OF a(4)] a(7) by metis
    obtain y' where y': "inj_heap w q = Some y'" "builtin y = builtin y'" "has_name n y' = Inr True" using h [OF a(5)] a(8) by metis
    show "builtin x \<and> builtin y" using assms(1) a(1-3,6) x' y' unfolding bindings_unique_def by metis
  qed
qed

lemma new_binding_unique:
  assumes "tree_library lib" "registry_ok w" "inj_heap w a = None" "loaded w (next_iid w) = None" "bindings_unique w"
    and "injectable_register lib w a x = Inr w1" "iid x = next_iid w"
    and "\<not> injectable_is_library x \<Longrightarrow> \<exists>p n. injfile_name (injfile x) = Inr p \<and> c_string p = Inr n \<and> injectable_get_binding w n = Inr None"
  shows "bindings_unique w1"
proof -
  have ok: "tree_ok (bindings w)" using assms(2) unfolding registry_ok_def by blast
  have "tree_map (injectables w) (next_iid w) = None"
    using assms(2,4) unfolding registry_ok_def loaded_def by (cases "tree_map (injectables w) (next_iid w)") force+
  then have w1: "inj_heap w1 = (inj_heap w)(a \<mapsto> x)"
      "tree_map (bindings w1) = (if injectable_is_library x then tree_map (bindings w) else (tree_map (bindings w))(iid x \<mapsto> a))"
    using registry_trees.injectable_register_ok [OF registry_trees.intro [OF assms(1)] assms(2,3), of x] assms(6,7) by auto
  have na: "tree_map (bindings w) i \<noteq> Some a" for i using assms(2,3) unfolding registry_ok_def by force
  have old: "has_name n y \<noteq> Inr True" if "\<not> injectable_is_library x" "tree_map (bindings w) i = Some p" "inj_heap w p = Some y"
    "0 \<notin> set n" "has_name n x = Inr True" for i p y n
  proof
    assume t: "has_name n y = Inr True"
    note nl = that(1)
    obtain b m where m: "injfile_name (injfile x) = Inr b" "c_string b = Inr m" "injectable_get_binding w m = Inr None" using assms(8) [OF nl] by blast
    have "m = n" using strcmp_eq_True [OF that(4)] that(5) m(1,2) by (simp add: has_name_def)
    moreover have "p \<in> set (tree_vals (bindings w))" using that(2) tree_vals_map [OF ok] by blast
    ultimately show False using first_injectable_None [OF _ _ that(3), of "has_name m"] m(3) t unfolding injectable_get_binding_def by force
  qed
  show ?thesis unfolding bindings_unique_def
  proof (intro allI impI)
    fix i j p q y z n
    assume h: "tree_map (bindings w1) i = Some p" "tree_map (bindings w1) j = Some q" "i \<noteq> j" "inj_heap w1 p = Some y"
      "inj_heap w1 q = Some z" "0 \<notin> set n" "has_name n y = Inr True" "has_name n z = Inr True"
    show "builtin y \<and> builtin z"
    proof (cases "tree_map (bindings w) i = Some p \<and> tree_map (bindings w) j = Some q")
      case True
      then have "p \<noteq> a" "q \<noteq> a" using na by auto
      then have "inj_heap w p = Some y" "inj_heap w q = Some z" using h(4,5) w1(1) by auto
      then show ?thesis using assms(5) True h(3,6-8) unfolding bindings_unique_def by blast
    next
      case False
      then have nl: "\<not> injectable_is_library x" and new: "i = iid x \<and> p = a \<or> j = iid x \<and> q = a"
        using h(1,2) w1(2) by (auto split: if_splits)
      then show ?thesis using h na w1 old by (auto split: if_splits)
    qed
  qed
qed

section \<open>Properties\<close>

lemma injectable_free_outcome:
  assumes "tree_library lib" "registry_ok w1" "tree_map (injectables w1) i = Some p" "loaded w1 = L"
  shows "if \<exists>y. registered w1 i = Some y \<and> inj_references y \<noteq> 0 then injectable_free lib w1 p = Inl Assertion
    else \<exists>w2. injectable_free lib w1 p = Inr w2 \<and> registry_ok w2 \<and> registered w2 = (registered w1)(i := None)
      \<and> loaded w2 = L(i := None) \<and> injectable_get w2 i = None"
proof -
  obtain y where y: "inj_heap w1 p = Some y" using assms(2,3) unfolding registry_ok_def by blast
  then have r: "registered w1 i = Some y" by (simp add: registered_def assms(3))
  show ?thesis
  proof (cases "inj_references y = 0")
    case True
    obtain w2 where w2: "injectable_free lib w1 p = Inr w2" "registry_ok w2" "loaded w2 = (loaded w1)(i := None)" "inj_heap w2 = inj_heap w1"
      "tree_map (injectables w2) = (tree_map (injectables w1))(i := None)"
      using registry_trees.injectable_free_ok [OF registry_trees.intro [OF assms(1)] assms(2,3) y True] by blast
    moreover have "registered w2 = (registered w1)(i := None)" by (intro ext) (simp add: registered_def w2(4,5))
    moreover have "injectable_get w2 i = None" using w2(2,5) tree_get_map [of "injectables w2"] by (simp add: injectable_get_def registry_ok_def)
    ultimately show ?thesis using r True assms(4) by auto
  next
    case False
    then show ?thesis using r by (auto simp: injectable_free_def injectable_at_def y)
  qed
qed

text \<open>Two functions imported from one library.\<close>

definition exporting :: injectable_t where
  "exporting = \<lparr>iid = 1, filename = [], injfile = \<lparr>inj_image = [1] @ symbol_bytes ([0x66], 4) @ symbol_bytes ([0x67], 8) @ replicate 33 0,
     inj_version = 0x0210, inj_flags = 1, inj_code_size = 0, inj_code = None, inj_name = None, inj_comment = None, inj_adbi = None,
     inj_imports = None, inj_exports = Some 1, inj_tpoints = None, inj_strings = None, inj_lines = None\<rparr>, inj_references = 0, builtin = False\<rparr>"

definition importing :: injectable_t where
  "importing = exporting\<lparr>iid := 2, injfile := (injfile exporting)\<lparr>inj_imports := Some 1, inj_exports := None, inj_flags := 0\<rparr>\<rparr>"

definition one_library :: registry where
  "one_library = \<lparr>inj_heap = [0 \<mapsto> exporting], injectables = Node Leaf (1, 0) Leaf, libraries = Node Leaf (1, 0) Leaf,
     bindings = Leaf, next_iid = 2\<rparr>"

lemma one_library_ok: "registry_ok one_library"
proof -
  have "injectable_is_library exporting" by (simp add: injectable_is_library_def injfile_is_library_def exporting_def INJFILE_FLAG_LIBRARY_def)
  then show ?thesis by (auto simp: registry_ok_def one_library_def tree_ok_def tree_map_def exporting_def)
qed

lemma injectable_create_adds:
  assumes "tree_library lib" "registry_ok w" "inj_heap w a = None" "registered w (next_iid w) = None"
  shows "\<exists>w1. injectable_create lib w a f (Some fn) = Inr w1 \<and> registry_ok w1 \<and> next_iid w1 = next_iid w + 1
    \<and> tree_map (injectables w1) (next_iid w) = Some a
    \<and> registered w1 = (registered w)(next_iid w \<mapsto> \<lparr>iid = next_iid w, filename = fn, injfile = f, inj_references = 0, builtin = False\<rparr>)"
proof -
  let ?x = "\<lparr>iid = next_iid w, filename = fn, injfile = f, inj_references = 0, builtin = False\<rparr>"
  have "tree_map (injectables w) (next_iid w) = None" using registered_heap(2) [OF assms(2)] assms(4) by simp
  then obtain w1 where w1: "injectable_register lib w a ?x = Inr w1" "registry_ok w1" "inj_heap w1 = (inj_heap w)(a \<mapsto> ?x)"
      "next_iid w1 = next_iid w + 1" "tree_map (injectables w1) = (tree_map (injectables w))(next_iid w \<mapsto> a)"
    using registry_trees.injectable_register_ok [OF registry_trees.intro [OF assms(1)] assms(2,3), of ?x] by auto
  then show ?thesis using registered_register [OF assms(2,3) w1(2,3)] by (simp add: injectable_create_def)
qed

text \<open>C38: Loading an injectable is refused as already loaded exactly when an injectable that is not built in was loaded from
  the same path; else as malformed exactly when reading the file fails; else as an invalid binding exactly when the file is
  not a library and a loaded binding has the same name. In these cases the registry is unchanged. Otherwise exactly one
  injectable is added, under the next id, with the file that was read and no references, the three trees stay consistent, and
  what is returned is what attaching it to the processes makes of that registry. A file that is not a library and has no
  readable name crashes the server. The conditions are that the next id is free (ids are 32 bits wide), that the memory
  \<^verbatim>\<open>adbi_malloc\<close> returned is not in use, and that the bindings loaded so far have names.\<close>

theorem injectable_load_refines:
  assumes "tree_library lib" "registry_ok w" "all_named w" "inj_heap w a = None" "registered w (next_iid w) = None"
  shows "\<exists>added. injectable_load lib attach w a io fn =
      (if file_loaded w fn then Inr (Inl Already_Loaded, w)
       else case injfile_load io of
         None \<Rightarrow> Inr (Inl File_Malformed, w)
       | Some f \<Rightarrow>
           if injfile_is_library f then res_bind (attach (added f) a) (\<lambda>w'. Inr (Inr a, w'))
           else case bound_to f of
             Inl e \<Rightarrow> Inl e
           | Inr n \<Rightarrow>
               if name_bound w n then Inr (Inl Invalid_Binding, w)
               else res_bind (attach (added f) a) (\<lambda>w'. Inr (Inr a, w')))
    \<and> (\<forall>f. registry_ok (added f) \<and> next_iid (added f) = next_iid w + 1 \<and> injectable_get (added f) (next_iid w) = Some a
         \<and> registered (added f) = (registered w)(next_iid w \<mapsto>
             \<lparr>iid = next_iid w, filename = fn, injfile = f, inj_references = 0, builtin = False\<rparr>))"
proof -
  have "\<forall>f. \<exists>w1. injectable_create lib w a f (Some fn) = Inr w1 \<and> registry_ok w1 \<and> next_iid w1 = next_iid w + 1
    \<and> tree_map (injectables w1) (next_iid w) = Some a
    \<and> registered w1 = (registered w)(next_iid w \<mapsto> \<lparr>iid = next_iid w, filename = fn, injfile = f, inj_references = 0, builtin = False\<rparr>)"
    using injectable_create_adds [OF assms(1,2,4,5)] by blast
  then obtain added where added: "\<And>f. injectable_create lib w a f (Some fn) = Inr (added f) \<and> registry_ok (added f)
    \<and> next_iid (added f) = next_iid w + 1 \<and> tree_map (injectables (added f)) (next_iid w) = Some a
    \<and> registered (added f) = (registered w)(next_iid w \<mapsto> \<lparr>iid = next_iid w, filename = fn, injfile = f, inj_references = 0, builtin = False\<rparr>)"
    by metis
  obtain r where r: "injectable_get_by_file w fn = Inr r" "r = None \<longleftrightarrow> \<not> file_loaded w fn"
    using injectable_get_by_file_found [OF assms(2)] by blast
  have bind: "res_bind (injfile_name f) (\<lambda>p. res_bind (c_string p) g) = res_bind (bound_to f) g" for f and g :: "bytes \<Rightarrow> nat option res"
    by (simp add: bound_to_def res_bind_def split: sum.splits)
  have get: "injectable_get (added f) (next_iid w) = Some a" for f
    using added [of f] tree_get_map [of "injectables (added f)"] by (simp add: injectable_get_def registry_ok_def)
  have "injectable_load lib attach w a io fn =
      (if file_loaded w fn then Inr (Inl Already_Loaded, w)
       else case injfile_load io of
         None \<Rightarrow> Inr (Inl File_Malformed, w)
       | Some f \<Rightarrow>
           if injfile_is_library f then res_bind (attach (added f) a) (\<lambda>w'. Inr (Inr a, w'))
           else case bound_to f of
             Inl e \<Rightarrow> Inl e
           | Inr n \<Rightarrow>
               if name_bound w n then Inr (Inl Invalid_Binding, w)
               else res_bind (attach (added f) a) (\<lambda>w'. Inr (Inr a, w')))"
    (is "_ = ?R")
  proof (cases "r = None")
    case True
    show ?thesis
    proof (cases "injfile_load io")
      case None
      then show ?thesis using True r by (simp add: injectable_load_def)
    next
      case (Some f)
      show ?thesis
      proof (cases "bound_to f")
        case (Inl e)
        then show ?thesis using True r Some added [of f] by (simp add: injectable_load_def bind)
      next
        case (Inr n)
        obtain b where "injectable_get_binding w n = Inr b" "b = None \<longleftrightarrow> \<not> name_bound w n"
          using injectable_get_binding_found [OF assms(2,3) bound_to_clean [OF Inr]] by blast
        then show ?thesis using True r Some Inr added [of f] by (cases "name_bound w n") (simp_all add: injectable_load_def bind)
      qed
    qed
  next
    case False
    then show ?thesis using r by (simp add: injectable_load_def)
  qed
  then show ?thesis using added get by blast
qed

text \<open>Witness: a library is loaded into the empty registry.\<close>

definition small_library :: bytes where
  "small_library = injfile_magic @ [0x10, 0x02, 1, 0, 1, 0, 0, 0, 88, 0, 0, 0, 0, 0, 0, 0] @ replicate 65 0"

definition no_injectables :: registry where
  "no_injectables = \<lparr>inj_heap = \<lambda>_. None, injectables = Leaf, libraries = Leaf, bindings = Leaf, next_iid = 1\<rparr>"

lemma no_injectables_ok: "registry_ok no_injectables" "registered no_injectables i = None" "all_named no_injectables" "loaded no_injectables i = None"
  by (simp_all add: registry_ok_def no_injectables_def tree_ok_def tree_map_def registered_def all_named_def loaded_def)

lemma small_library_file:
  "\<exists>f. injfile_load \<lparr>io_open = True, io_seek_end = True, io_tell = 89, io_seek_set = True, io_malloc = True, io_read = small_library\<rparr> = Some f
     \<and> injfile_is_library f"
proof -
  have "injfile_init small_library = Some (injfile_fixed small_library)" "injfile_is_library (injfile_fixed small_library)" by code_simp+
  moreover have "length small_library = 89" by (simp add: small_library_def injfile_magic_def)
  ultimately show ?thesis by (simp add: injfile_load_def)
qed

lemma small_library_loads:
  "\<exists>w'. injectable_load (leaf_lib 0) (\<lambda>w p. Inr w) no_injectables 0 \<lparr>io_open = True, io_seek_end = True, io_tell = 89,
       io_seek_set = True, io_malloc = True, io_read = small_library\<rparr> [0x61] = Inr (Inr 0, w')"
  using small_library_file
  by (auto simp: injectable_load_def injectable_get_by_file_def no_injectables_def tree_vals_inorder
      injectable_create_def injectable_register_def tree_insert_def leaf_lib_def set_val_def node_tree_def injectable_is_library_def)

theorem injectable_load_refines_witness:
  "\<exists>w' f. injectable_load (leaf_lib 0) (\<lambda>w p. Inr w) no_injectables 0 \<lparr>io_open = True, io_seek_end = True, io_tell = 89,
       io_seek_set = True, io_malloc = True, io_read = small_library\<rparr> [0x61] = Inr (Inr 0, w') \<and> registry_ok w' \<and>
     registered w' 1 = Some \<lparr>iid = 1, filename = [0x61], injfile = f, inj_references = 0, builtin = False\<rparr>"
proof -
  let ?io = "\<lparr>io_open = True, io_seek_end = True, io_tell = 89, io_seek_set = True, io_malloc = True, io_read = small_library\<rparr>"
  have h: "inj_heap no_injectables 0 = None" "next_iid no_injectables = 1" by (simp_all add: no_injectables_def)
  obtain f where f: "injfile_load ?io = Some f" "injfile_is_library f" using small_library_file by blast
  show ?thesis
    using injectable_load_refines [OF leaf_lib_contract [of 0] no_injectables_ok(1,3) h(1) no_injectables_ok(2), of "\<lambda>w p. Inr w" ?io "[0x61]"]
      by (auto simp: h(2) f no_injectables_ok(2) file_loaded_def)
qed

text \<open>At most one of the injectables that are loaded from files is bound to a given file: \<^verbatim>\<open>injectable_load\<close> keeps it so.\<close>

theorem injectable_load_binding_unique:
  assumes "tree_library lib" "registry_ok w" "inj_heap w a = None" "loaded w (next_iid w) = None"
    and "\<forall>w1 w2. attach w1 a = Inr w2 \<longrightarrow> only_references w1 w2"
    and "bindings_unique w" "injectable_load lib attach w a io fn = Inr (r, w')"
  shows "bindings_unique w'"
proof (cases r)
  case (Inl why)
  then have "w' = w" using assms(7) by (auto simp: injectable_load_def res_bind_eq_Inr split: option.splits if_splits)
  then show ?thesis using assms(6) by simp
next
  case (Inr q)
  obtain f w1 where f: "injectable_register lib w a \<lparr>iid = next_iid w, filename = fn, injfile = f, inj_references = 0, builtin = False\<rparr> = Inr w1"
    "attach w1 a = Inr w'" and nb: "\<not> injfile_is_library f \<Longrightarrow> \<exists>p n. injfile_name f = Inr p \<and> c_string p = Inr n \<and> injectable_get_binding w n = Inr None"
    using assms(7) Inr
    by (auto simp: injectable_load_def injectable_create_def res_bind_eq_Inr split: option.splits if_splits)
  let ?x = "\<lparr>iid = next_iid w, filename = fn, injfile = f, inj_references = 0, builtin = False\<rparr>"
  have u: "bindings_unique w1"
    by (rule new_binding_unique [OF assms(1-4,6) f(1)]) (use nb in \<open>simp_all add: injectable_is_library_def\<close>)
  show ?thesis using bindings_unique_only_references [OF u] f(2) assms(5) by blast
qed

text \<open>Witness: the load of the library above.\<close>

theorem injectable_load_binding_unique_witness:
  "\<exists>r w'. injectable_load (leaf_lib 0) (\<lambda>w p. Inr w) no_injectables 0 \<lparr>io_open = True, io_seek_end = True, io_tell = 89,
       io_seek_set = True, io_malloc = True, io_read = small_library\<rparr> [0x61] = Inr (r, w') \<and> bindings_unique w'"
proof -
  have u: "bindings_unique no_injectables" by (simp add: bindings_unique_def no_injectables_def tree_map_def)
  have h: "inj_heap no_injectables 0 = None" by (simp add: no_injectables_def)
  obtain w' where "injectable_load (leaf_lib 0) (\<lambda>w p. Inr w) no_injectables 0 \<lparr>io_open = True, io_seek_end = True, io_tell = 89,
       io_seek_set = True, io_malloc = True, io_read = small_library\<rparr> [0x61] = Inr (Inr 0, w')" using small_library_loads by blast
  then show ?thesis
    using injectable_load_binding_unique [OF leaf_lib_contract [of 0] no_injectables_ok(1) h no_injectables_ok(4) _ u, of "\<lambda>w p. Inr w"]
    by (auto simp: only_references_def)
qed

text \<open>C39: Unloading is refused exactly when there is no injectable with the id, when it is built in, or when it is a library
  whose reference counter is not 0; then the registry is unchanged. Otherwise the injectable is detached from the processes. A
  fault of that is the fault of the call. When it returns and has changed no more than reference counters, the call fails an
  assertion exactly if the counter of the injectable is not 0 then, and else removes exactly this injectable and keeps the
  three trees consistent.\<close>

theorem injectable_unload_refines:
  assumes "tree_library lib" "registry_ok w"
  shows "case registered w i of
      None \<Rightarrow> injectable_unload lib detach w i = Inr (Some No_Such_Injectable, w)
    | Some x \<Rightarrow>
        if builtin x then injectable_unload lib detach w i = Inr (Some Is_Builtin, w)
        else if injectable_is_library x \<and> inj_references x \<noteq> 0 then injectable_unload lib detach w i = Inr (Some In_Use, w)
        else \<exists>p. injectable_get w i = Some p \<and> (case detach w p of
            Inl e \<Rightarrow> injectable_unload lib detach w i = Inl e
          | Inr w1 \<Rightarrow> only_references w w1 \<longrightarrow>
              (if \<exists>y. registered w1 i = Some y \<and> inj_references y \<noteq> 0 then injectable_unload lib detach w i = Inl Assertion
               else \<exists>w2. injectable_unload lib detach w i = Inr (None, w2) \<and> registry_ok w2
                      \<and> registered w2 = (registered w1)(i := None) \<and> loaded w2 = (loaded w)(i := None) \<and> injectable_get w2 i = None))"
proof -
  have ok: "tree_ok (injectables w)" using assms(2) unfolding registry_ok_def by blast
  show ?thesis
  proof (cases "registered w i")
    case None
    then have "tree_map (injectables w) i = None" using registered_heap(2) [OF assms(2)] by blast
    then show ?thesis using None by (simp add: injectable_unload_def tree_get_map [OF ok])
  next
    case (Some x)
    then obtain p where p: "tree_map (injectables w) i = Some p" "inj_heap w p = Some x" using registered_heap(1) [OF assms(2)] by blast
    note unload = injectable_unload_def tree_get_map [OF ok] injectable_at_def injectable_get_def p
    have freed: "if \<exists>y. registered w1 i = Some y \<and> inj_references y \<noteq> 0 then injectable_free lib w1 p = Inl Assertion
        else \<exists>w2. injectable_free lib w1 p = Inr w2 \<and> registry_ok w2 \<and> registered w2 = (registered w1)(i := None)
          \<and> loaded w2 = (loaded w)(i := None) \<and> injectable_get w2 i = None" if r: "only_references w w1" for w1
      by (rule injectable_free_outcome [OF assms(1) registry_ok_only_references(1) [OF assms(2) r]])
        (use r p(1) registry_ok_only_references(2) [OF assms(2) r] in \<open>simp_all add: only_references_def\<close>)
    show ?thesis
    proof (cases "detach w p")
      case (Inl e)
      then show ?thesis by (simp add: Some unload)
    next
      case (Inr w1)
      then show ?thesis using freed [of w1] by (auto simp: Some unload split: if_splits)
    qed
  qed
qed

text \<open>Witness: the only library of a registry, which no process has in its memory.\<close>

theorem injectable_unload_refines_witness:
  "\<exists>w'. injectable_unload (leaf_lib 0) (\<lambda>w p. Inr w) one_library 1 = Inr (None, w') \<and> registry_ok w' \<and> loaded w' 1 = None"
proof -
  have r: "registered one_library 1 = Some exporting" by (simp add: registered_def one_library_def tree_map_def)
  have x: "\<not> builtin exporting" "inj_references exporting = 0" by (simp_all add: exporting_def)
  show ?thesis using injectable_unload_refines [OF leaf_lib_contract [of 0] one_library_ok, where i = 1 and detach = "\<lambda>w p. Inr w"] r x
    by (auto simp: only_references_def)
qed

text \<open>The set of libraries an injectable depends on is computed without a fault exactly when no two of its imports are
  exported by the same library; otherwise the insertion of that library a second time aborts the server.\<close>

theorem injectable_get_dependencies_aborts_iff:
  assumes "tree_library lib" "registry_ok w" "injectable_imports x = Inr ss"
    and "\<And>s. s \<in> set ss \<Longrightarrow> exporter w (fst s) = Inr (ex s)"
  shows "injectable_get_dependencies lib w x = Inl Assertion \<longleftrightarrow> \<not> distinct (List.map_filter ex ss)"
proof -
  have ok: "tree_ok (libraries w)" using assms(2) unfolding registry_ok_def by blast
  have l: "\<forall>s \<in> set ss. \<forall>p. ex s = Some p \<longrightarrow> (\<exists>i. tree_map (libraries w) i = Some p)"
    using first_injectable_mem assms(4) unfolding exporter_def tree_vals_map [OF ok, symmetric] by fastforce
  have "tree_ok (Leaf :: (u32, nat) tree_t)" "tree_map (Leaf :: (u32, nat) tree_t) = (\<lambda>_. None)"
    by (simp_all add: tree_ok_def tree_map_def)
  then show ?thesis
    using registry_trees.get_dependencies_ok [OF registry_trees.intro [OF assms(1)] assms(2) _ assms(4) l, where deps = Leaf]
    by (auto simp: injectable_get_dependencies_def assms(3))
qed

text \<open>Witness: the imports and exports of these two files.\<close>

theorem injectable_get_dependencies_aborts_iff_witness:
  "injectable_get_dependencies (leaf_lib 0) one_library importing = Inl Assertion"
proof -
  let ?pad = "\<lambda>c. c # replicate 27 0 :: bytes"
  have i: "injectable_imports importing = Inr [(?pad 0x66, 4), (?pad 0x67, 8)]" by code_simp
  have e: "exporter one_library (?pad 0x66) = Inr (Some 0)" "exporter one_library (?pad 0x67) = Inr (Some 0)" by code_simp+
  have "exporter one_library (fst s) = Inr (Some 0)" if "s \<in> set [(?pad 0x66, 4), (?pad 0x67, 8)]" for s :: "bytes \<times> int"
    using that e by auto
  from injectable_get_dependencies_aborts_iff [OF leaf_lib_contract [of 0] one_library_ok i this] show ?thesis
    by (simp add: List.map_filter_simps)
qed

text \<open>When no injectable is referenced any more, \<^verbatim>\<open>injectable_cleanup\<close> ends after as many iterations as there are
  injectables and leaves all three trees empty; none of its assertions fails.\<close>

theorem injectable_cleanup_empties:
  assumes "tree_library lib" "registry_ok w" "unreferenced w"
  shows "\<exists>w'. injectable_cleanup lib (size (injectables w)) w = Inr w' \<and> injectables w' = Leaf \<and> libraries w' = Leaf \<and> bindings w' = Leaf"
proof -
  obtain w' where w': "cleanup_loop lib (size (injectables w)) w = Inr w'" "registry_ok w'" "injectables w' = Leaf"
    using registry_trees.cleanup_loop_ok [OF registry_trees.intro [OF assms(1)] assms(2) order.refl assms(3)] by blast
  have n: "tree_map t k = None" if "t = Leaf" for t :: "(u32, nat) tree_t" and k using that by (simp add: tree_map_def)
  have "tree_map (libraries w') k = None" "tree_map (bindings w') k = None" for k
    using w'(2) n [OF w'(3)] unfolding registry_ok_def by (metis not_None_eq option.distinct(1))+
  moreover have "tree_ok (libraries w')" "tree_ok (bindings w')" using w'(2) unfolding registry_ok_def by blast+
  ultimately have "libraries w' = Leaf" "bindings w' = Leaf"
    using tree_nonempty_map by (metis option.distinct(1))+
  then show ?thesis using w' by (simp add: injectable_cleanup_def tree_empty_def)
qed

text \<open>Witness: the registry with one library.\<close>

theorem injectable_cleanup_empties_witness:
  "\<exists>w'. injectable_cleanup (leaf_lib 0) 1 one_library = Inr w' \<and> injectables w' = Leaf \<and> libraries w' = Leaf \<and> bindings w' = Leaf"
proof -
  have "unreferenced one_library" by (auto simp: unreferenced_def one_library_def exporting_def)
  from injectable_cleanup_empties [OF leaf_lib_contract [of 0] one_library_ok this] show ?thesis by (simp add: one_library_def)
qed

end
