(* ===== verification/Thread.thy ===== *)
theory Thread
  imports Process_List Segment
begin

text \<open>
  The state machine of a traced thread: \<^verbatim>\<open>process/thread.c\<close>, the handling of a wait status in \<^verbatim>\<open>procutil/wait.c\<close>, the
  breakpoint handling in \<^verbatim>\<open>arch/arm/trap.c\<close> and the jump table of \<^verbatim>\<open>tracepoint/jump.c\<close>. The kernel's side of the thread is
  part of the state: whether it runs, its registers, and the events that \<^verbatim>\<open>waitpid\<close> will report. A request to a thread that is
  not stopped fails with \<^verbatim>\<open>ESRCH\<close>, for which \<^verbatim>\<open>thread_handle_ptrace_error\<close> calls \<^verbatim>\<open>adbi_bug\<close>: this is the fault
  \<open>Assertion\<close>. The removal of a dead thread from the tables is in \<open>Process_List\<close>. What other components do with the thread
  (after an exec, for the child of a clone, for a new thread, for a change of the linker's list) are the hooks.
\<close>

section \<open>Definitions\<close>

text \<open>The registers \<^verbatim>\<open>uregs[18]\<close> by their number: 13 is sp, 14 lr, 15 pc, 16 cpsr.\<close>

type_synonym pt_regs = "nat \<Rightarrow> u32"

abbreviation ARM_sp :: nat where "ARM_sp \<equiv> 13"
abbreviation ARM_lr :: nat where "ARM_lr \<equiv> 14"
abbreviation ARM_pc :: nat where "ARM_pc \<equiv> 15"
abbreviation ARM_cpsr :: nat where "ARM_cpsr \<equiv> 16"

abbreviation SIGILL :: int where "SIGILL \<equiv> 4"
abbreviation SIGTRAP :: int where "SIGTRAP \<equiv> 5"
abbreviation SIGBUS :: int where "SIGBUS \<equiv> 7"
abbreviation SIGSEGV :: int where "SIGSEGV \<equiv> 11"
abbreviation SIGSTOP :: int where "SIGSTOP \<equiv> 19"

abbreviation PTRACE_EVENT_EXEC :: nat where "PTRACE_EVENT_EXEC \<equiv> 4"

text \<open>
  The results of \<^verbatim>\<open>waitpid\<close>: a stop with its signal, the event number in the upper half of the status, the registers
  and the memory of the process at that time; an exit or a death by a signal; no change; no such child.
\<close>

datatype 'm event = Ev_Stopped int nat pt_regs 'm | Ev_Exited | Ev_Signaled | Ev_None | Ev_No_Child

datatype kernel_state = K_Running | K_Stopped | K_Gone

record 'm traced =
  t_state :: thread_state
  t_notified :: bool
  t_kernel :: kernel_state
  t_regs :: pt_regs
  t_mem :: 'm
  t_future :: "'m event list"
  t_delivered :: "int list"
  t_jumps :: "(u32, u32) tree_t"
  t_bkpt :: u32
  t_stabilizing :: bool
  t_segments :: "(u32, unit, unit) segments"

record 'm hooks =
  exec_hook :: "'m traced \<Rightarrow> 'm traced res"
  clone_hook :: "'m traced \<Rightarrow> 'm traced res"
  notify_hook :: "'m traced \<Rightarrow> 'm traced res"
  linker_hook :: "'m traced \<Rightarrow> 'm traced res"

definition set_state :: "(thread_state \<Rightarrow> thread_state) \<Rightarrow> 'm traced \<Rightarrow> 'm traced" where
  "set_state f t = t\<lparr>t_state := f (t_state t)\<rparr>"

definition ptrace_request :: "'m traced \<Rightarrow> 'a res \<Rightarrow> 'a res" where
  "ptrace_request t k = (if t_kernel t = K_Stopped then k else Inl Assertion)"

subsection \<open>Jumps\<close>

definition jump_install :: "(u32, u32) tree_lib \<Rightarrow> (u32, u32) tree_t \<Rightarrow> u32 \<Rightarrow> u32 \<Rightarrow> (u32, u32) tree_t res" where
  "jump_install lib jumps from to = tree_insert lib jumps from to"

definition jump_uninstall :: "(u32, u32) tree_lib \<Rightarrow> (u32, u32) tree_t \<Rightarrow> u32 \<Rightarrow> (u32, u32) tree_t res" where
  "jump_uninstall lib jumps from = tree_remove lib jumps from"

definition jump_get :: "(u32, u32) tree_t \<Rightarrow> u32 \<Rightarrow> u32" where
  "jump_get jumps addr = (case tree_get jumps addr of None \<Rightarrow> 0 | Some to \<Rightarrow> to)"

subsection \<open>Threads\<close>

definition thread_init_options :: "'m traced \<Rightarrow> 'm traced res" where
  "thread_init_options t = ptrace_request t (Inr t)"

definition thread_get_regs :: "'m traced \<Rightarrow> pt_regs res" where
  "thread_get_regs t = adbi_assure (\<not> running (t_state t)) (ptrace_request t (Inr (t_regs t)))"

definition thread_set_regs :: "'m traced \<Rightarrow> pt_regs \<Rightarrow> 'm traced res" where
  "thread_set_regs t r = adbi_assure (\<not> running (t_state t)) (ptrace_request t (Inr (t\<lparr>t_regs := r\<rparr>)))"

text \<open>
  The result of \<^verbatim>\<open>ptrace(PTRACE_CONT, ..)\<close> is compared with -1 only after \<^verbatim>\<open>likely\<close> has turned it into 0 or 1, so that
  the thread counts as running even when the request failed.
\<close>

definition ptrace_cont :: "'m traced \<Rightarrow> int \<Rightarrow> 'm traced" where
  "ptrace_cont t sig =
     (if t_kernel t = K_Stopped then t\<lparr>t_kernel := K_Running, t_delivered := t_delivered t @ [sig]\<rparr> else t)"

definition thread_continue :: "'m traced \<Rightarrow> int \<Rightarrow> 'm traced res" where
  "thread_continue t sig =
     (if dead (t_state t) \<or> running (t_state t) then Inr t
      else res_bind (if setoptions (t_state t)
                     then res_bind (thread_init_options t) (\<lambda>t. Inr (set_state (\<lambda>s. s\<lparr>setoptions := False\<rparr>) t))
                     else Inr t) (\<lambda>t.
        let sig' = if sig = 0 then signo (t_state t) else sig;
            t' = if sig = 0 then set_state (\<lambda>s. s\<lparr>signo := 0\<rparr>) t else t
        in Inr (set_state (\<lambda>s. s\<lparr>running := True\<rparr>) (ptrace_cont t' sig'))))"

definition thread_continue_or_stop :: "'m hooks \<Rightarrow> 'm traced \<Rightarrow> int \<Rightarrow> 'm traced res" where
  "thread_continue_or_stop h t sig =
     (if dead (t_state t) \<or> running (t_state t) then Inr t
      else if stopme (t_state t) \<or> slavemode (t_state t) then
        Inr (set_state (\<lambda>s. s\<lparr>signo := if slavemode s then sig else if sig = SIGSTOP then 0 else sig, stopme := False\<rparr>) t)
      else res_bind (if \<not> t_notified t then res_bind (notify_hook h t) (\<lambda>t. Inr (t\<lparr>t_notified := True\<rparr>)) else Inr t)
             (\<lambda>t. thread_continue t sig))"

definition mark_dead :: "'m traced \<Rightarrow> 'm traced" where
  "mark_dead t = set_state (\<lambda>s. s\<lparr>running := False, dead := True\<rparr>) t"

text \<open>The removal of the other threads and the renewal of the segments and injections are the hook.\<close>

definition thread_exec :: "'m hooks \<Rightarrow> 'm traced \<Rightarrow> 'm traced res" where
  "thread_exec h t =
     res_bind (thread_init_options t) (\<lambda>t.
     res_bind (exec_hook h (set_state (\<lambda>s. s\<lparr>execed := True\<rparr>) t)) (\<lambda>t. thread_continue_or_stop h t 0))"

definition thread_trap :: "'m hooks \<Rightarrow> 'm traced \<Rightarrow> (bool \<times> 'm traced) res" where
  "thread_trap h t =
     res_bind (thread_get_regs t) (\<lambda>regs.
     let ip = regs ARM_pc;
         jump_target = jump_get (t_jumps t) ip
     in if jump_target \<noteq> 0 then
          (if \<not> t_stabilizing t then
             res_bind (thread_set_regs t (regs(ARM_pc := jump_target))) (\<lambda>t.
             res_bind (thread_continue_or_stop h t 0) (\<lambda>t. Inr (True, t)))
           else Inr (True, t))
        else if ip = t_bkpt t then
          res_bind (linker_hook h t) (\<lambda>t.
          res_bind (thread_set_regs t (regs(ARM_pc := regs ARM_lr))) (\<lambda>t.
          res_bind (thread_continue_or_stop h t 0) (\<lambda>t. Inr (True, t))))
        else Inr (False, t))"

subsection \<open>Waiting\<close>

text \<open>The part of \<^verbatim>\<open>thread_handle_status\<close> for a stop by a signal, after a breakpoint was not recognised.\<close>

definition handle_signal :: "'m hooks \<Rightarrow> 'm traced \<Rightarrow> int \<Rightarrow> 'm traced res" where
  "handle_signal h t sig =
     (if t_stabilizing t \<and> sig = SIGSEGV then
        res_bind (thread_get_regs t) (\<lambda>regs.
        if segment_check_address_is_code (t_segments t) (regs ARM_pc)
        then Inr (set_state (\<lambda>s. s\<lparr>signo := sig\<rparr>) t)
        else thread_continue_or_stop h t sig)
      else thread_continue_or_stop h t sig)"

definition handle_stop :: "'m hooks \<Rightarrow> 'm traced \<Rightarrow> int \<Rightarrow> nat \<Rightarrow> 'm traced res" where
  "handle_stop h t sig ev =
     (if sig = SIGTRAP \<and> ev mod 16 \<noteq> 0 then
        (let t = set_state (\<lambda>s. s\<lparr>setoptions := True\<rparr>) t
         in if ev = PTRACE_EVENT_EXEC then thread_exec h t
            else res_bind (clone_hook h t) (\<lambda>t. thread_continue_or_stop h t 0))
      else if \<not> slavemode (t_state t) \<and> (sig = SIGILL \<or> sig = SIGTRAP \<or> sig = SIGBUS) then
        res_bind (thread_trap h t) (\<lambda>(handled, t). if handled then Inr t else handle_signal h t sig)
      else handle_signal h t sig)"

definition thread_handle_status :: "'m hooks \<Rightarrow> 'm traced \<Rightarrow> 'm event \<Rightarrow> 'm traced res" where
  "thread_handle_status h t ev =
     (let t = set_state (\<lambda>s. s\<lparr>running := False\<rparr>) t
      in case ev of
        Ev_Stopped sig e regs m \<Rightarrow> handle_stop h t sig e
      | Ev_Exited \<Rightarrow> Inr (mark_dead t)
      | Ev_Signaled \<Rightarrow> Inr (mark_dead t)
      | _ \<Rightarrow> Inl Unreachable)"

text \<open>
  \<^verbatim>\<open>waitpid\<close>: a running thread reports the next of its events, a stopped one reports nothing, one that is gone is an
  error. Only a call with \<^verbatim>\<open>WNOHANG\<close> reports that there is no event; otherwise the call blocks.
\<close>

fun skip_none :: "'m event list \<Rightarrow> 'm event list" where
  "skip_none (Ev_None # evs) = skip_none evs"
| "skip_none evs = evs"

definition sys_waitpid :: "'m traced \<Rightarrow> bool \<Rightarrow> ('m event \<times> 'm traced) res" where
  "sys_waitpid t nohang =
     (case t_kernel t of
        K_Gone \<Rightarrow> Inr (Ev_No_Child, t)
      | K_Stopped \<Rightarrow> if nohang then Inr (Ev_None, t) else Inl Diverges
      | K_Running \<Rightarrow>
          (case (if nohang then t_future t else skip_none (t_future t)) of
             [] \<Rightarrow> if nohang then Inr (Ev_None, t) else Inl Diverges
           | ev # evs \<Rightarrow>
               let t = t\<lparr>t_future := evs\<rparr>
               in Inr (ev, case ev of
                    Ev_Stopped sig e regs m \<Rightarrow> t\<lparr>t_kernel := K_Stopped, t_regs := regs, t_mem := m\<rparr>
                  | Ev_None \<Rightarrow> t
                  | _ \<Rightarrow> t\<lparr>t_kernel := K_Gone\<rparr>)))"

definition thread_wait :: "'m hooks \<Rightarrow> 'm traced \<Rightarrow> bool \<Rightarrow> 'm traced res" where
  "thread_wait h t nohang =
     (if dead (t_state t) then Inr t
      else res_bind (sys_waitpid t nohang) (\<lambda>(ev, t).
        case ev of
          Ev_None \<Rightarrow> adbi_assure nohang (Inr t)
        | Ev_No_Child \<Rightarrow> Inr (mark_dead t)
        | _ \<Rightarrow> thread_handle_status h t ev))"

definition thread_check_alive :: "'m hooks \<Rightarrow> 'm traced \<Rightarrow> (bool \<times> 'm traced) res" where
  "thread_check_alive h t =
     (if dead (t_state t) then Inr (False, t)
      else res_bind (thread_wait h t True) (\<lambda>t. Inr (\<not> dead (t_state t), t)))"

text \<open>\<^verbatim>\<open>tgkill\<close> succeeds while the thread exists.\<close>

definition thread_signal :: "'m traced \<Rightarrow> unit res" where
  "thread_signal t = (if t_kernel t = K_Gone then Inl Assertion else Inr ())"

definition thread_stop :: "'m hooks \<Rightarrow> 'm traced \<Rightarrow> 'm traced res" where
  "thread_stop h t =
     (if dead (t_state t) \<or> \<not> running (t_state t) then Inr t
      else let t = set_state (\<lambda>s. s\<lparr>stopme := True\<rparr>) t
           in res_bind (thread_signal t) (\<lambda>_.
              res_bind (thread_wait h t False) (\<lambda>t.
              adbi_assure (\<not> running (t_state t)) (Inr t))))"

text \<open>The loop of \<^verbatim>\<open>thread_kill\<close>; \<open>fuel\<close> bounds the number of calls of \<^verbatim>\<open>thread_wait\<close>.\<close>

fun kill_loop :: "'m hooks \<Rightarrow> nat \<Rightarrow> 'm traced \<Rightarrow> 'm traced res" where
  "kill_loop h fuel t =
     (if dead (t_state t) then Inr t
      else case fuel of 0 \<Rightarrow> Inl Diverges | Suc n \<Rightarrow> res_bind (thread_wait h t False) (kill_loop h n))"

declare kill_loop.simps [simp del]

definition thread_kill :: "'m hooks \<Rightarrow> nat \<Rightarrow> 'm traced \<Rightarrow> 'm traced res" where
  "thread_kill h fuel t =
     res_bind (thread_signal t) (\<lambda>_. kill_loop h fuel (set_state (\<lambda>s. s\<lparr>stopme := False\<rparr>) t))"

definition thread_detach :: "'m traced \<Rightarrow> unit res" where
  "thread_detach t = adbi_assure (\<not> running (t_state t)) (ptrace_request t (Inr ()))"

definition address_is_artificial :: "(u32, unit, unit) segments \<Rightarrow> (u32 \<Rightarrow> bool) \<Rightarrow> u32 \<Rightarrow> bool" where
  "address_is_artificial segs in_injection a \<longleftrightarrow> in_injection a \<or> address_is_trampoline segs a"

text \<open>\<open>in_injection\<close> tells whether an address is within an injection of the process.\<close>

definition thread_is_stable :: "(u32 \<Rightarrow> bool) \<Rightarrow> 'm traced \<Rightarrow> bool res" where
  "thread_is_stable in_injection t =
     adbi_assure (\<not> running (t_state t))
     (if dead (t_state t) then Inr True
      else res_bind (thread_get_regs t) (\<lambda>regs.
        Inr (\<not> address_is_artificial (t_segments t) in_injection (regs ARM_pc AND 0xfffffffe))))"

section \<open>Agreement with the kernel\<close>

text \<open>The server takes a thread for running exactly when it runs.\<close>

definition agrees :: "'m traced \<Rightarrow> bool" where
  "agrees t \<longleftrightarrow> (if dead (t_state t) then \<not> running (t_state t)
     else t_kernel t = (if running (t_state t) then K_Running else K_Stopped))"

definition halted :: "'m traced \<Rightarrow> bool" where
  "halted t \<longleftrightarrow> \<not> dead (t_state t) \<and> \<not> running (t_state t) \<and> t_kernel t = K_Stopped"

definition settled :: "'m traced \<Rightarrow> bool" where
  "settled t \<longleftrightarrow> halted t \<or> dead (t_state t) \<and> \<not> running (t_state t)"

lemma settled_agrees: "settled t \<Longrightarrow> agrees t" "halted t \<Longrightarrow> agrees t" "halted t \<Longrightarrow> settled t"
  by (auto simp: settled_def halted_def agrees_def)

lemma skip_none_hd: "skip_none evs \<noteq> Ev_None # rest"
  by (induction evs rule: skip_none.induct) auto

lemma set_state_simps [simp]:
  "t_state (set_state f t) = f (t_state t)" "t_kernel (set_state f t) = t_kernel t" "t_regs (set_state f t) = t_regs t"
  "t_mem (set_state f t) = t_mem t" "t_future (set_state f t) = t_future t" "t_jumps (set_state f t) = t_jumps t"
  "t_bkpt (set_state f t) = t_bkpt t" "t_stabilizing (set_state f t) = t_stabilizing t" "t_segments (set_state f t) = t_segments t"
  "t_notified (set_state f t) = t_notified t" "t_delivered (set_state f t) = t_delivered t"
  by (simp_all add: set_state_def)

lemma ptrace_cont_simps [simp]:
  "t_regs (ptrace_cont t sig) = t_regs t" "t_mem (ptrace_cont t sig) = t_mem t"
  "t_delivered (ptrace_cont t sig) = (if t_kernel t = K_Stopped then t_delivered t @ [sig] else t_delivered t)"
  "t_state (ptrace_cont t sig) = t_state t" "t_future (ptrace_cont t sig) = t_future t"
  "t_kernel (ptrace_cont t sig) = (if t_kernel t = K_Stopped then K_Running else t_kernel t)"
  by (simp_all add: ptrace_cont_def)

text \<open>Continuing a thread that is stopped.\<close>

lemma thread_continue_halted:
  "halted t \<Longrightarrow> \<exists>t'. thread_continue t sig = Inr t' \<and> running (t_state t') \<and> t_kernel t' = K_Running \<and> \<not> dead (t_state t')
     \<and> t_future t' = t_future t \<and> slavemode (t_state t') = slavemode (t_state t) \<and> t_regs t' = t_regs t \<and> t_mem t' = t_mem t
     \<and> t_delivered t' = t_delivered t @ [if sig = 0 then signo (t_state t) else sig]"
  by (auto simp: halted_def thread_continue_def Let_def thread_init_options_def ptrace_request_def)

lemma thread_continue_agrees:
  assumes "agrees t"
  shows "\<exists>t'. thread_continue t sig = Inr t' \<and> agrees t'"
proof (cases "halted t")
  case True
  then show ?thesis using thread_continue_halted [OF True, of sig] by (auto simp: agrees_def)
next
  case False
  then show ?thesis using assms by (auto simp: thread_continue_def agrees_def halted_def split: if_splits)
qed

locale thread_hooks =
  fixes h :: "'m hooks"
  assumes exec: "halted t \<Longrightarrow> \<exists>t'. exec_hook h t = Inr t' \<and> settled t'"
    and clone: "halted t \<Longrightarrow> \<exists>t'. clone_hook h t = Inr t' \<and> settled t'"
    and notify: "halted t \<Longrightarrow> \<exists>t'. notify_hook h t = Inr t' \<and> settled t'"
    and linker: "halted t \<Longrightarrow> \<exists>t'. linker_hook h t = Inr t' \<and> halted t'"
begin

lemma continue_or_stop_settled:
  assumes "settled t"
  shows "\<exists>t'. thread_continue_or_stop h t sig = Inr t' \<and> agrees t'"
proof (cases "dead (t_state t) \<or> running (t_state t) \<or> stopme (t_state t) \<or> slavemode (t_state t)")
  case True
  then show ?thesis using assms
    by (auto simp: thread_continue_or_stop_def settled_def halted_def agrees_def)
next
  case False
  then have t: "halted t" using assms by (auto simp: settled_def)
  show ?thesis
  proof (cases "t_notified t")
    case True
    then show ?thesis using False thread_continue_agrees [OF settled_agrees(2) [OF t]] by (simp add: thread_continue_or_stop_def)
  next
    case n: False
    obtain t' where t': "notify_hook h t = Inr t'" "settled t'" using notify [OF t] by blast
    then have "agrees (t'\<lparr>t_notified := True\<rparr>)" using settled_agrees(1) [OF t'(2)] by (simp add: agrees_def)
    from thread_continue_agrees [OF this] show ?thesis using False n t'(1) by (simp add: thread_continue_or_stop_def)
  qed
qed

lemma trap_halted:
  assumes "halted t"
  shows "\<exists>b t'. thread_trap h t = Inr (b, t') \<and> agrees t' \<and> (\<not> b \<longrightarrow> t' = t)"
proof -
  have r: "thread_get_regs t = Inr (t_regs t)"
    using assms by (simp add: thread_get_regs_def ptrace_request_def halted_def)
  have s: "\<exists>t'. thread_set_regs u x = Inr t' \<and> settled t'" if "halted u" for u :: "'m traced" and x
    using that by (simp add: thread_set_regs_def ptrace_request_def halted_def settled_def)
  have c: "\<exists>t'. res_bind (thread_set_regs u x) (\<lambda>t. res_bind (thread_continue_or_stop h t 0) (\<lambda>t. Inr (True, t))) = Inr (True, t') \<and> agrees t'"
    if "halted u" for u x
  proof -
    note hu = that
    obtain v where v: "thread_set_regs u x = Inr v" "settled v" using s [OF hu, of x] by blast
    then show ?thesis using continue_or_stop_settled [OF v(2), of 0] by auto
  qed
  obtain u where u: "linker_hook h t = Inr u" "halted u" using linker [OF assms] by blast
  show ?thesis
    using c [OF assms, of "(t_regs t)(ARM_pc := jump_get (t_jumps t) (t_regs t ARM_pc))"]
      c [OF u(2), of "(t_regs t)(ARM_pc := t_regs t ARM_lr)"] u(1) settled_agrees(2) [OF assms]
    by (auto simp: thread_trap_def r Let_def)
qed

lemma handle_stop_halted:
  assumes "halted t"
  shows "\<exists>t'. handle_stop h t sig ev = Inr t' \<and> agrees t'"
proof -
  have r: "thread_get_regs t = Inr (t_regs t)"
    using assms by (simp add: thread_get_regs_def ptrace_request_def halted_def)
  have "agrees (set_state (\<lambda>s. s\<lparr>signo := sig\<rparr>) t)" using assms by (simp add: halted_def agrees_def)
  then have sig: "\<exists>t'. handle_signal h t sig = Inr t' \<and> agrees t'"
    using continue_or_stop_settled [OF settled_agrees(3) [OF assms], of sig] by (auto simp: handle_signal_def r)
  have o: "halted (set_state (\<lambda>s. s\<lparr>setoptions := True\<rparr>) t)" "halted (set_state (\<lambda>s. s\<lparr>setoptions := True, execed := True\<rparr>) t)"
    using assms by (simp_all add: halted_def)
  have ss: "set_state (\<lambda>s. s\<lparr>execed := True\<rparr>) (set_state (\<lambda>s. s\<lparr>setoptions := True\<rparr>) t) = set_state (\<lambda>s. s\<lparr>setoptions := True, execed := True\<rparr>) t"
    by (simp add: set_state_def)
  obtain u where u: "exec_hook h (set_state (\<lambda>s. s\<lparr>setoptions := True, execed := True\<rparr>) t) = Inr u" "settled u" using exec [OF o(2)] by blast
  have "\<exists>t'. thread_exec h (set_state (\<lambda>s. s\<lparr>setoptions := True\<rparr>) t) = Inr t' \<and> agrees t'"
    using continue_or_stop_settled [OF u(2), of 0] o(1) u(1)
    by (simp add: thread_exec_def thread_init_options_def ptrace_request_def halted_def ss)
  moreover have "\<exists>t'. res_bind (clone_hook h (set_state (\<lambda>s. s\<lparr>setoptions := True\<rparr>) t)) (\<lambda>t. thread_continue_or_stop h t 0) = Inr t' \<and> agrees t'"
    using clone [OF o(1)] continue_or_stop_settled by fastforce
  moreover obtain b v where "thread_trap h t = Inr (b, v)" "agrees v" "\<not> b \<longrightarrow> v = t" using trap_halted [OF assms] by blast
  ultimately show ?thesis using sig by (auto simp: handle_stop_def Let_def)
qed

text \<open>A wait never fails an assertion and leaves the two sides in agreement; it may block.\<close>

lemma thread_wait_agrees:
  assumes "agrees t"
  shows "thread_wait h t nohang = Inl Diverges \<or> (\<exists>t'. thread_wait h t nohang = Inr t' \<and> agrees t')"
proof (cases "dead (t_state t)")
  case True
  then show ?thesis using assms(1) by (simp add: thread_wait_def)
next
  case alive: False
  show ?thesis
  proof (cases "running (t_state t)")
    case False
    then show ?thesis using alive assms(1) by (auto simp: thread_wait_def sys_waitpid_def agrees_def)
  next
    case True
    then have k: "t_kernel t = K_Running" using alive assms(1) by (simp add: agrees_def)
    show ?thesis
    proof (cases "if nohang then t_future t else skip_none (t_future t)")
      case Nil
      then show ?thesis using alive assms(1) k by (auto simp: thread_wait_def sys_waitpid_def)
    next
      case (Cons ev evs)
      show ?thesis
      proof (cases ev)
        case (Ev_Stopped sig e regs m)
        let ?t = "t\<lparr>t_future := evs, t_kernel := K_Stopped, t_regs := regs, t_mem := m\<rparr>"
        have "halted (set_state (\<lambda>s. s\<lparr>running := False\<rparr>) ?t)" using alive by (simp add: halted_def)
        from handle_stop_halted [OF this, of sig e] show ?thesis
          using alive k Cons Ev_Stopped by (auto simp: thread_wait_def sys_waitpid_def thread_handle_status_def Let_def)
      next
        case Ev_None
        then have nohang using Cons skip_none_hd [of "t_future t" evs] by (cases nohang) auto
        then show ?thesis using alive assms(1) k Cons Ev_None
          by (auto simp: thread_wait_def sys_waitpid_def agrees_def Let_def)
      qed (use alive k Cons in \<open>auto simp: thread_wait_def sys_waitpid_def thread_handle_status_def mark_dead_def agrees_def Let_def\<close>)
    qed
  qed
qed

end

text \<open>Hooks that leave a stop request in place.\<close>

locale stop_keeping_hooks = thread_hooks h for h :: "'m hooks" +
  assumes exec_stopme: "exec_hook h t = Inr t' \<Longrightarrow> stopme (t_state t') = stopme (t_state t)"
    and clone_stopme: "clone_hook h t = Inr t' \<Longrightarrow> stopme (t_state t') = stopme (t_state t)"
    and linker_stopme: "linker_hook h t = Inr t' \<Longrightarrow> stopme (t_state t') = stopme (t_state t)"
begin

lemma continue_or_stop_stopme:
  "stopme (t_state t) \<Longrightarrow> \<not> running (t_state t) \<Longrightarrow> thread_continue_or_stop h t sig = Inr t' \<Longrightarrow> \<not> running (t_state t')"
  by (auto simp: thread_continue_or_stop_def split: if_splits)

lemma handle_signal_stopme:
  "stopme (t_state t) \<Longrightarrow> \<not> running (t_state t) \<Longrightarrow> handle_signal h t sig = Inr t' \<Longrightarrow> \<not> running (t_state t')"
  using continue_or_stop_stopme [of t sig t']
  by (auto simp: handle_signal_def res_bind_eq_Inr split: if_splits)

lemma trap_stopme:
  assumes "halted t" "stopme (t_state t)" "thread_trap h t = Inr (b, t')"
  shows "\<not> running (t_state t')"
proof -
  have r: "thread_get_regs t = Inr (t_regs t)"
    using assms(1) by (simp add: thread_get_regs_def ptrace_request_def halted_def)
  have c: "\<not> running (t_state t')"
    if "res_bind (thread_set_regs u x) (\<lambda>t. res_bind (thread_continue_or_stop h t 0) (\<lambda>t. Inr (True, t))) = Inr (b, t')" "halted u"
      "stopme (t_state u)" for u x
  proof -
    have "thread_set_regs u x = Inr (u\<lparr>t_regs := x\<rparr>)" using that(2) by (simp add: thread_set_regs_def ptrace_request_def halted_def)
    then have "thread_continue_or_stop h (u\<lparr>t_regs := x\<rparr>) 0 = Inr t'" using that(1) by (auto simp: res_bind_eq_Inr)
    then show ?thesis using continue_or_stop_stopme [of "u\<lparr>t_regs := x\<rparr>" 0 t'] that(2,3) by (simp add: halted_def)
  qed
  obtain u where u: "linker_hook h t = Inr u" "halted u" using linker [OF assms(1)] by blast
  have "stopme (t_state u)" using linker_stopme [OF u(1)] assms(2) by simp
  then show ?thesis
    using assms c [OF _ assms(1)] c [OF _ u(2)] u(1)
    by (auto simp: thread_trap_def r Let_def halted_def split: if_splits)
qed

lemma handle_stop_stopme:
  assumes "halted t" "stopme (t_state t)" "handle_stop h t sig ev = Inr t'"
  shows "\<not> running (t_state t')"
proof -
  let ?t = "set_state (\<lambda>s. s\<lparr>setoptions := True\<rparr>) t"
  have nr: "\<not> running (t_state t)" using assms(1) by (simp add: halted_def)
  have cl: "\<not> running (t_state t')" if "res_bind (clone_hook h ?t) (\<lambda>t. thread_continue_or_stop h t 0) = Inr t'"
  proof -
    note tc = that
    obtain u where u: "clone_hook h ?t = Inr u" "thread_continue_or_stop h u 0 = Inr t'" using tc by (auto simp: res_bind_eq_Inr)
    have "halted ?t" using assms(1) by (simp add: halted_def)
    then have "settled u" using clone u(1) by fastforce
    moreover have "stopme (t_state u)" using clone_stopme [OF u(1)] assms(2) by simp
    ultimately show ?thesis using continue_or_stop_stopme [OF _ _ u(2)] by (auto simp: settled_def halted_def)
  qed
  have ex: "\<not> running (t_state t')" if "thread_exec h ?t = Inr t'"
  proof -
    note te = that
    obtain u where u: "exec_hook h (set_state (\<lambda>s. s\<lparr>execed := True\<rparr>) ?t) = Inr u" "thread_continue_or_stop h u 0 = Inr t'"
      using te by (auto simp: thread_exec_def thread_init_options_def ptrace_request_def res_bind_eq_Inr split: if_splits)
    have "halted (set_state (\<lambda>s. s\<lparr>execed := True\<rparr>) ?t)" using assms(1) by (simp add: halted_def)
    then have "settled u" using exec u(1) by fastforce
    moreover have "stopme (t_state u)" using exec_stopme [OF u(1)] assms(2) by simp
    ultimately show ?thesis using continue_or_stop_stopme [OF _ _ u(2)] by (auto simp: settled_def halted_def)
  qed
  have st: "\<not> running (t_state t')" if "thread_trap h t = Inr (b, v)" "(if b then Inr v else handle_signal h v sig) = Inr t'" for b v
    using trap_stopme [OF assms(1,2) that(1)] trap_halted [OF assms(1)] handle_signal_stopme [OF assms(2) nr] that
    by (auto split: if_splits)
  consider "sig = SIGTRAP \<and> ev mod 16 \<noteq> 0"
    | "\<not> (sig = SIGTRAP \<and> ev mod 16 \<noteq> 0)" "\<not> slavemode (t_state t) \<and> (sig = SIGILL \<or> sig = SIGTRAP \<or> sig = SIGBUS)"
    | "\<not> (sig = SIGTRAP \<and> ev mod 16 \<noteq> 0)" "\<not> (\<not> slavemode (t_state t) \<and> (sig = SIGILL \<or> sig = SIGTRAP \<or> sig = SIGBUS))"
    by blast
  then show ?thesis
  proof cases
    case 1
    then have "(if ev = PTRACE_EVENT_EXEC then thread_exec h ?t else res_bind (clone_hook h ?t) (\<lambda>t. thread_continue_or_stop h t 0)) = Inr t'"
      using assms(3) unfolding handle_stop_def Let_def by simp
    then show ?thesis using cl ex by (simp split: if_splits)
  next
    case 2
    then have "res_bind (thread_trap h t) (\<lambda>(b, v). if b then Inr v else handle_signal h v sig) = Inr t'"
      using assms(3) unfolding handle_stop_def if_not_P [OF 2(1)] if_P [OF 2(2)] by simp
    then obtain b v where "thread_trap h t = Inr (b, v)" "(if b then Inr v else handle_signal h v sig) = Inr t'"
      unfolding res_bind_eq_Inr by force
    then show ?thesis by (rule st)
  next
    case 3
    then have "handle_signal h t sig = Inr t'" using assms(3) unfolding handle_stop_def if_not_P [OF 3(1)] if_not_P [OF 3(2)] by simp
    then show ?thesis by (rule handle_signal_stopme [OF assms(2) nr])
  qed
qed

lemma thread_stop_ok:
  assumes "agrees t"
  shows "thread_stop h t = Inl Diverges \<or> (\<exists>t'. thread_stop h t = Inr t' \<and> agrees t' \<and> \<not> running (t_state t'))"
proof (cases "dead (t_state t) \<or> \<not> running (t_state t)")
  case True
  then show ?thesis using assms by (auto simp: thread_stop_def agrees_def)
next
  case False
  let ?t = "set_state (\<lambda>s. s\<lparr>stopme := True\<rparr>) t"
  have k: "t_kernel t = K_Running" "agrees ?t" using False assms by (auto simp: agrees_def)
  have stop: "\<not> running (t_state t')" if "thread_wait h ?t False = Inr t'" for t'
  proof (cases "skip_none (t_future t)")
    case Nil
    then show ?thesis using that False k by (simp add: thread_wait_def sys_waitpid_def)
  next
    case (Cons ev evs)
    show ?thesis
    proof (cases ev)
      case (Ev_Stopped sig e regs m)
      let ?u = "set_state (\<lambda>s. s\<lparr>running := False\<rparr>) (?t\<lparr>t_future := evs, t_kernel := K_Stopped, t_regs := regs, t_mem := m\<rparr>)"
      have "halted ?u" "stopme (t_state ?u)" using False by (simp_all add: halted_def)
      moreover have "handle_stop h ?u sig e = Inr t'"
        using that False k Cons Ev_Stopped by (simp add: thread_wait_def sys_waitpid_def thread_handle_status_def Let_def)
      ultimately show ?thesis by (rule handle_stop_stopme)
    qed (use that False k Cons skip_none_hd [of "t_future t"] in
        \<open>auto simp: thread_wait_def sys_waitpid_def thread_handle_status_def mark_dead_def Let_def split: if_splits\<close>)
  qed
  show ?thesis using thread_wait_agrees [OF k(2), of False] stop False k(1)
    by (auto simp: thread_stop_def Let_def thread_signal_def)
qed

end

text \<open>The contract can hold: hooks that do nothing.\<close>

definition no_hooks :: "'m hooks" where
  "no_hooks = \<lparr>exec_hook = Inr, clone_hook = Inr, notify_hook = Inr, linker_hook = Inr\<rparr>"

lemma no_hooks_contract: "stop_keeping_hooks no_hooks"
  by unfold_locales (auto simp: no_hooks_def settled_def)

interpretation quiet: stop_keeping_hooks no_hooks
  by (rule no_hooks_contract)

section \<open>Properties\<close>

text \<open>What the server does with a thread that it traces.\<close>

inductive drives :: "'m hooks \<Rightarrow> 'm traced \<Rightarrow> 'm traced \<Rightarrow> bool" for h where
  Continue: "thread_continue t sig = Inr t' \<Longrightarrow> drives h t t'"
| Wait: "thread_wait h t nohang = Inr t' \<Longrightarrow> drives h t t'"
| Stop: "thread_stop h t = Inr t' \<Longrightarrow> drives h t t'"


text \<open>Witness: a stopped thread is continued.\<close>

definition stopped_thread :: "unit traced" where
  "stopped_thread = \<lparr>t_state = initial_thread_state, t_notified = True, t_kernel = K_Stopped, t_regs = (\<lambda>_. 0)(ARM_pc := 0x8000),
     t_mem = (), t_future = [Ev_Stopped SIGTRAP 0 ((\<lambda>_. 0)(ARM_pc := 0x9000)) ()], t_delivered = [], t_jumps = Leaf, t_bkpt = 0x9000,
     t_stabilizing = False, t_segments = Leaf\<rparr>"


text \<open>Stopping a running thread that hits the linker's breakpoint before the stop signal arrives aborts the server when
  the handling of the breakpoint clears the request to stop, which every call of an injected function does
  (\<^verbatim>\<open>thread_continue_or_stop\<close> in slave mode): the thread is continued and the final assertion of \<^verbatim>\<open>thread_stop\<close> fails.\<close>

theorem thread_stop_race:
  assumes "agrees t" "running (t_state t)" "\<not> slavemode (t_state t)" "\<not> t_stabilizing t"
    and "t_future t = Ev_Stopped SIGTRAP 0 regs m # evs" "tree_get (t_jumps t) (t_bkpt t) = None" "regs ARM_pc = t_bkpt t"
    and "\<And>u. halted u \<Longrightarrow> \<exists>v. linker_hook h u = Inr v \<and> halted v \<and> \<not> stopme (t_state v) \<and> \<not> slavemode (t_state v) \<and> t_notified v"
  shows "thread_stop h t = Inl Assertion"
proof -
  have d: "\<not> dead (t_state t)" and k: "t_kernel t = K_Running" using assms(1,2) by (auto simp: agrees_def split: if_splits)
  let ?u = "set_state (\<lambda>s. s\<lparr>running := False\<rparr>) (set_state (\<lambda>s. s\<lparr>stopme := True\<rparr>) t
    \<lparr>t_future := evs, t_kernel := K_Stopped, t_regs := regs, t_mem := m\<rparr>)"
  have hu: "halted ?u" using d by (simp add: halted_def)
  obtain v where v: "linker_hook h ?u = Inr v" "halted v" "\<not> stopme (t_state v)" "\<not> slavemode (t_state v)" "t_notified v"
    using assms(8) [OF hu] by blast
  let ?v = "v\<lparr>t_regs := regs(ARM_pc := regs ARM_lr)\<rparr>"
  obtain w where w: "thread_continue ?v 0 = Inr w" "running (t_state w)"
    using thread_continue_halted [of ?v 0] v(2) by (auto simp: halted_def)
  have g: "thread_get_regs ?u = Inr regs" using hu by (simp add: thread_get_regs_def ptrace_request_def halted_def)
  have j: "jump_get (t_jumps ?u) (regs ARM_pc) = 0" "regs ARM_pc = t_bkpt ?u" using assms(6,7) by (simp_all add: jump_get_def)
  have "thread_set_regs v (regs(ARM_pc := regs ARM_lr)) = Inr ?v"
    using v(2) by (simp add: thread_set_regs_def ptrace_request_def halted_def)
  moreover have "thread_continue_or_stop h ?v 0 = Inr w"
    using v(2-5) w(1) by (simp add: thread_continue_or_stop_def halted_def)
  ultimately have "thread_trap h ?u = Inr (True, w)"
    unfolding thread_trap_def g using j v(1) by (simp add: Let_def)
  then have "thread_wait h (set_state (\<lambda>s. s\<lparr>stopme := True\<rparr>) t) False = Inr w"
    using d k assms(3,5) by (simp add: thread_wait_def sys_waitpid_def thread_handle_status_def handle_stop_def Let_def)
  then show ?thesis using d assms(2) k w(2) by (simp add: thread_stop_def thread_signal_def Let_def)
qed

text \<open>Witness: the hook of an injected call that clears the request.\<close>

definition clearing_hooks :: "'m hooks" where
  "clearing_hooks = no_hooks\<lparr>linker_hook := (\<lambda>t. Inr (set_state (\<lambda>s. s\<lparr>stopme := False, slavemode := False\<rparr>) (t\<lparr>t_notified := True\<rparr>)))\<rparr>"

theorem thread_stop_race_witness:
  "thread_stop clearing_hooks (set_state (\<lambda>s. s\<lparr>running := True\<rparr>) (stopped_thread\<lparr>t_kernel := K_Running\<rparr>)) = Inl Assertion"
  by (rule thread_stop_race [of _ "(\<lambda>_. 0)(ARM_pc := 0x9000)" "()" "[]"])
    (auto simp: agrees_def stopped_thread_def initial_thread_state_def tree_get_def tree_get_node_def clearing_hooks_def no_hooks_def
      halted_def set_state_def)

text \<open>C35: A thread that hits a tracepoint goes on at its trampoline: the breakpoint signal is not delivered, the program counter
  is the target of the jump, all other registers are as they were.\<close>

theorem tracepoint_redirects:
  assumes "agrees t" "running (t_state t)" "\<not> stopme (t_state t)" "\<not> slavemode (t_state t)" "\<not> t_stabilizing t" "t_notified t"
    and "signo (t_state t) = 0" "t_future t = Ev_Stopped sig 0 regs m # evs" "sig \<in> {SIGILL, SIGTRAP, SIGBUS}"
    and "tree_get (t_jumps t) (regs ARM_pc) = Some target" "target \<noteq> 0"
  shows "\<exists>t'. thread_wait h t nohang = Inr t' \<and> running (t_state t') \<and> t_kernel t' = K_Running
    \<and> t_regs t' = regs(ARM_pc := target) \<and> t_mem t' = m \<and> t_delivered t' = t_delivered t @ [0] \<and> t_future t' = evs"
proof -
  have d: "\<not> dead (t_state t)" and k: "t_kernel t = K_Running" using assms(1,2) by (auto simp: agrees_def split: if_splits)
  let ?u = "set_state (\<lambda>s. s\<lparr>running := False\<rparr>) (t\<lparr>t_future := evs, t_kernel := K_Stopped, t_regs := regs, t_mem := m\<rparr>)"
  let ?v = "?u\<lparr>t_regs := regs(ARM_pc := target)\<rparr>"
  have f: "(if nohang then t_future t else skip_none (t_future t)) = Ev_Stopped sig 0 regs m # evs" by (simp add: assms(8))
  have g: "thread_get_regs ?u = Inr regs" "thread_set_regs ?u (regs(ARM_pc := target)) = Inr ?v"
    by (simp_all add: thread_get_regs_def thread_set_regs_def ptrace_request_def)
  have j: "jump_get (t_jumps ?u) (regs ARM_pc) = target" by (simp add: jump_get_def assms(10))
  obtain w where w: "thread_continue ?v 0 = Inr w" "running (t_state w)" "t_kernel w = K_Running" "t_regs w = regs(ARM_pc := target)"
    "t_mem w = m" "t_delivered w = t_delivered t @ [0]" "t_future w = evs"
    using thread_continue_halted [of ?v 0] d assms(7) by (auto simp: halted_def)
  have "thread_continue_or_stop h ?v 0 = Inr w" using d assms(3,4,6) w(1) by (simp add: thread_continue_or_stop_def)
  then have "thread_trap h ?u = Inr (True, w)" unfolding thread_trap_def g(1) using j g(2) assms(5,11) by (simp add: Let_def)
  then have "handle_stop h ?u sig 0 = Inr w" using assms(4,9) by (auto simp: handle_stop_def)
  then have "thread_wait h t nohang = Inr w"
    using d k f by (simp add: thread_wait_def sys_waitpid_def thread_handle_status_def Let_def)
  then show ?thesis using w by blast
qed

text \<open>Witness: a tracepoint at 0x9000 with its trampoline at 0xa000.\<close>

theorem tracepoint_redirects_witness:
  "\<exists>t'. thread_wait no_hooks (set_state (\<lambda>s. s\<lparr>running := True\<rparr>)
       (stopped_thread\<lparr>t_kernel := K_Running, t_jumps := Node Leaf (0x9000, 0xa000) Leaf\<rparr>)) False = Inr t'
     \<and> t_regs t' ARM_pc = 0xa000"
proof -
  let ?t = "set_state (\<lambda>s. s\<lparr>running := True\<rparr>) (stopped_thread\<lparr>t_kernel := K_Running, t_jumps := Node Leaf (0x9000, 0xa000) Leaf\<rparr>)"
  have "\<exists>t'. thread_wait no_hooks ?t False = Inr t' \<and> running (t_state t') \<and> t_kernel t' = K_Running
    \<and> t_regs t' = ((\<lambda>_. 0)(ARM_pc := 0x9000))(ARM_pc := 0xa000) \<and> t_mem t' = () \<and> t_delivered t' = t_delivered ?t @ [0] \<and> t_future t' = []"
    by (rule tracepoint_redirects [where sig = SIGTRAP])
      (simp_all add: agrees_def stopped_thread_def initial_thread_state_def tree_get_def tree_get_node_def)
  then show ?thesis by auto
qed

end
