(* ===== verification/Fncall.thy ===== *)
theory Fncall
  imports Thread Patch
begin

text \<open>
  Calls of functions in a traced process, \<^verbatim>\<open>arch/arm/fncall.c\<close>: the server sets the registers of a stopped thread, lets it run
  until it returns to the address 0 or to a breakpoint, and restores what it changed. \<open>b\<close> are the operations on the memory of the
  process, \<open>h\<close> the hooks of \<open>Thread\<close>; \<open>fuel\<close> bounds the number of stops that are waited for. \<^verbatim>\<open>EXEC_RESTOP\<close> is defined in the
  build.
\<close>

section \<open>Definitions\<close>

record call_context_t =
  registers :: "u32 list"
  stack :: "u32 list"

definition call_context_empty :: call_context_t where
  "call_context_empty = \<lparr>registers = [0, 0, 0, 0], stack = []\<rparr>"

text \<open>The memory of a traced thread, as \<open>Mem\<close> and \<open>Patch\<close> access it.\<close>

definition thread_mem :: "'m hooks \<Rightarrow> ('m, u32) inferior_ops \<Rightarrow> ('m traced, u32) inferior_ops" where
  "thread_mem h b =
     \<lparr>ptrace_mem_read = (\<lambda>t a. if t_kernel t = K_Stopped then ptrace_mem_read b (t_mem t) a else None),
      ptrace_mem_write = (\<lambda>t a v. if t_kernel t = K_Stopped
        then map_option (\<lambda>m. t\<lparr>t_mem := m\<rparr>) (ptrace_mem_write b (t_mem t) a v) else None),
      procfs_mem_read = (\<lambda>t a n. procfs_mem_read b (t_mem t) a n),
      thread_dead = (\<lambda>t. dead (t_state t)),
      check_alive = (\<lambda>t. case thread_check_alive h t of Inr r \<Rightarrow> snd r | Inl _ \<Rightarrow> t)\<rparr>"

text \<open>Wait until the thread stops for the expected reason, delivering other signals; the result says whether it is alive.\<close>

fun run_until :: "'m hooks \<Rightarrow> ('m traced \<Rightarrow> bool res) \<Rightarrow> nat \<Rightarrow> 'm traced \<Rightarrow> (bool \<times> 'm traced) res" where
  "run_until h P 0 t = Inl Diverges"
| "run_until h P (Suc n) t =
     res_bind (thread_wait h t False) (\<lambda>t.
     if dead (t_state t) then Inr (False, t)
     else res_bind (P t) (\<lambda>ok. if ok then Inr (True, t) else res_bind (thread_continue t 0) (run_until h P n)))"

definition set_slavemode :: "bool \<Rightarrow> 'm traced \<Rightarrow> 'm traced" where
  "set_slavemode v t = set_state (\<lambda>s. s\<lparr>slavemode := v\<rparr>) t"

definition clear_signo :: "'m traced \<Rightarrow> 'm traced" where
  "clear_signo t = set_state (\<lambda>s. s\<lparr>signo := 0\<rparr>) t"

text \<open>The label \<^verbatim>\<open>fail\<close> of \<^verbatim>\<open>fncall_restop\<close>.\<close>

definition restop_fail :: "'m traced \<Rightarrow> (bool \<times> 'm traced) res" where
  "restop_fail t = adbi_assure (dead (t_state t)) (Inr (False, t))"

definition thumb_bit :: "pt_regs \<Rightarrow> insn_kind_t" where
  "thumb_bit regs = (if bit (regs ARM_cpsr) 5 then INSN_KIND_THUMB else INSN_KIND_ARM)"

text \<open>The instruction at the program counter replaced by a breakpoint, if the address can be executed; the outer \<open>None\<close> is a
  failure.\<close>

definition restop_patch ::
    "'m hooks \<Rightarrow> ('m, u32) inferior_ops \<Rightarrow> ('m traced \<Rightarrow> u32 \<Rightarrow> bool) \<Rightarrow> 'm traced \<Rightarrow> pt_regs
     \<Rightarrow> ((insn_t \<times> insn_kind_t) option option \<times> 'm traced) res" where
  "restop_patch h b executable t regs =
     (if executable t (regs ARM_pc) then
        res_bind (patch_read_insn_detect_kind (thread_mem h b) t (regs ARM_pc) (thumb_bit regs)) (\<lambda>(r, t).
        case r of
          None \<Rightarrow> Inr (None, t)
        | Some (insn, kind) \<Rightarrow>
            res_bind (mem_patch_insn (thread_mem h b) t (regs ARM_pc) kind (get_breakpoint_insn kind)) (\<lambda>(ok, t).
            Inr (if ok then Some (Some (insn, kind)) else None, t)))
      else Inr (Some None, t))"

definition stop_signals :: "int set" where
  "stop_signals = {SIGSEGV, SIGTRAP, SIGBUS}"

definition fncall_restop ::
    "'m hooks \<Rightarrow> ('m, u32) inferior_ops \<Rightarrow> ('m traced \<Rightarrow> u32 \<Rightarrow> bool) \<Rightarrow> nat \<Rightarrow> 'm traced \<Rightarrow> (bool \<times> 'm traced) res" where
  "fncall_restop h b executable fuel t =
     adbi_assure (\<not> slavemode (t_state t))
     (let t = set_slavemode True t
      in res_bind (thread_get_regs t) (\<lambda>regs.
         res_bind (restop_patch h b executable t regs) (\<lambda>(p, t).
         case p of
           None \<Rightarrow> restop_fail t
         | Some orig \<Rightarrow>
             res_bind (thread_continue t 0) (\<lambda>t.
             res_bind (run_until h (\<lambda>t. Inr (signo (t_state t) \<in> stop_signals)) fuel t) (\<lambda>(alive, t).
             if \<not> alive then restop_fail t
             else res_bind (thread_get_regs (clear_signo t)) (\<lambda>_.
                  res_bind (thread_set_regs (clear_signo t) regs) (\<lambda>t.
                  res_bind (case orig of
                      None \<Rightarrow> Inr t
                    | Some (insn, kind) \<Rightarrow>
                        res_bind (mem_patch_insn (thread_mem h b) t (regs ARM_pc) kind insn) (\<lambda>(_, t). Inr t)) (\<lambda>t.
                  let t = set_slavemode False t
                  in if \<not> dead (t_state t) then Inr (True, t) else restop_fail t))))))))"

definition fncall_runtil :: "'m hooks \<Rightarrow> ('m, u32) inferior_ops \<Rightarrow> nat \<Rightarrow> 'm traced \<Rightarrow> u32 \<Rightarrow> (bool \<times> 'm traced) res" where
  "fncall_runtil h b fuel t stopat =
     adbi_assure (\<not> slavemode (t_state t))
     (let t = set_slavemode True t;
          fail = (\<lambda>t. Inr (False, set_slavemode False t))
      in res_bind (patch_read_insn_detect_kind (thread_mem h b) t stopat
                     (if stopat AND 1 \<noteq> 0 then INSN_KIND_THUMB else INSN_KIND_ARM)) (\<lambda>(r, t).
         case r of
           None \<Rightarrow> fail t
         | Some (insn, kind) \<Rightarrow>
             res_bind (mem_patch_insn (thread_mem h b) t stopat kind (get_breakpoint_insn kind)) (\<lambda>(ok, t).
             if \<not> ok then fail t
             else res_bind (thread_continue t 0) (\<lambda>t.
                  res_bind (run_until h (\<lambda>t. if signo (t_state t) \<in> stop_signals
                      then res_bind (thread_get_regs t) (\<lambda>regs. Inr (regs ARM_pc AND 0xfffffffe = stopat AND 0xfffffffe))
                      else Inr False) fuel t) (\<lambda>(alive, t).
                  if \<not> alive then fail t
                  else res_bind (mem_patch_insn (thread_mem h b) t stopat kind insn) (\<lambda>(ok, t).
                       if \<not> ok then fail t else Inr (True, set_slavemode False (clear_signo t))))))))"

subsection \<open>Calls\<close>

fun push_stack :: "'m hooks \<Rightarrow> ('m, u32) inferior_ops \<Rightarrow> 'm traced \<Rightarrow> pt_regs \<Rightarrow> u32 list \<Rightarrow> (bool \<times> pt_regs \<times> 'm traced) res" where
  "push_stack h b t regs [] = Inr (True, regs, t)"
| "push_stack h b t regs (v # vs) =
     (let regs = regs(ARM_sp := regs ARM_sp - 4)
      in adbi_assure (is_word_aligned (regs ARM_sp))
         (case ptrace_mem_write (thread_mem h b) t (regs ARM_sp) v of
            None \<Rightarrow> Inr (False, regs, t)
          | Some t \<Rightarrow> push_stack h b t regs vs))"

text \<open>The registers at the start of the function.\<close>

definition entry_regs :: "pt_regs \<Rightarrow> u32 \<Rightarrow> pt_regs" where
  "entry_regs regs address =
     regs(ARM_pc := address AND NOT 1,
          ARM_cpsr := if address AND 1 \<noteq> 0 then regs ARM_cpsr OR push_bit 5 1 else regs ARM_cpsr AND NOT (push_bit 5 1),
          ARM_lr := 0)"

definition param_regs :: "pt_regs \<Rightarrow> u32 list \<Rightarrow> pt_regs" where
  "param_regs regs ps = (\<lambda>i. if i < 4 then ps ! i else regs i)"

text \<open>Wait for the end of the function: stops by \<^verbatim>\<open>SIGSTOP\<close> are ignored, the signal is cleared.\<close>

fun call_wait :: "'m hooks \<Rightarrow> nat \<Rightarrow> 'm traced \<Rightarrow> (int option \<times> 'm traced) res" where
  "call_wait h 0 t = Inl Diverges"
| "call_wait h (Suc n) t =
     res_bind (thread_wait h t False) (\<lambda>t.
     if dead (t_state t) then Inr (None, t)
     else let sig = signo (t_state t);
              t = clear_signo t
          in if sig = 0 then Inl Assertion
             else if sig = SIGSTOP then res_bind (thread_continue t 0) (call_wait h n)
             else Inr (Some sig, t))"

text \<open>The label \<^verbatim>\<open>fail_restore\<close>; \<^verbatim>\<open>thread_set_regs\<close> returns only when it has succeeded.\<close>

definition call_restore :: "'m traced \<Rightarrow> pt_regs \<Rightarrow> bool \<Rightarrow> call_context_t \<Rightarrow> (bool \<times> call_context_t \<times> 'm traced) res" where
  "call_restore t old_regs ret ctx =
     res_bind (thread_set_regs t old_regs) (\<lambda>t. Inr (ret, ctx, set_slavemode False t))"

text \<open>The preparation of the thread: \<open>False\<close> if the stack cannot be written.\<close>

definition call_enter ::
    "'m hooks \<Rightarrow> ('m, u32) inferior_ops \<Rightarrow> 'm traced \<Rightarrow> pt_regs \<Rightarrow> u32 \<Rightarrow> call_context_t \<Rightarrow> (bool \<times> 'm traced) res" where
  "call_enter h b t old_regs address ctx =
     res_bind (push_stack h b t (param_regs old_regs (registers ctx)) (stack ctx)) (\<lambda>(pushed, regs, t).
     if \<not> pushed then Inr (False, t)
     else res_bind (thread_set_regs t (entry_regs regs address)) (\<lambda>t. Inr (True, t)))"

definition call_run ::
    "'m hooks \<Rightarrow> ('m, u32) inferior_ops \<Rightarrow> nat \<Rightarrow> 'm traced \<Rightarrow> u32 \<Rightarrow> call_context_t \<Rightarrow> (bool \<times> call_context_t \<times> 'm traced) res" where
  "call_run h b fuel t address ctx =
     adbi_assure (\<not> slavemode (t_state t))
     (let t = set_slavemode True t
      in res_bind (thread_get_regs t) (\<lambda>old_regs.
         res_bind (call_enter h b t old_regs address ctx) (\<lambda>(entered, t).
         if \<not> entered then call_restore t old_regs False ctx
         else res_bind (thread_continue t 0) (\<lambda>t.
              res_bind (call_wait h fuel t) (\<lambda>(sig, t).
              case sig of
                None \<Rightarrow> Inr (False, ctx, set_slavemode False t)
              | Some s \<Rightarrow>
                  res_bind (thread_get_regs t) (\<lambda>regs.
                  if s = SIGSEGV \<and> regs ARM_pc = 0
                  then call_restore t old_regs True (ctx\<lparr>registers := map regs [0..<4]\<rparr>)
                  else call_restore t old_regs False ctx))))))"

definition fncall_call ::
    "'m hooks \<Rightarrow> ('m, u32) inferior_ops \<Rightarrow> ('m traced \<Rightarrow> u32 \<Rightarrow> bool) \<Rightarrow> nat \<Rightarrow> 'm traced \<Rightarrow> u32 \<Rightarrow> call_context_t
     \<Rightarrow> (bool \<times> call_context_t \<times> 'm traced) res" where
  "fncall_call h b executable fuel t address ctx =
     (if execed (t_state t) then
        res_bind (fncall_restop h b executable fuel t) (\<lambda>(ok, t).
        if \<not> ok then Inr (False, ctx, set_slavemode False t)
        else call_run h b fuel (set_state (\<lambda>s. s\<lparr>execed := False\<rparr>) t) address ctx)
      else call_run h b fuel t address ctx)"

text \<open>The segments that \<^verbatim>\<open>/proc/pid/maps\<close> lists, and whether an address is within an injection.\<close>

definition inject_find_exec_mem :: "(u32, unit, unit) segment_t list \<Rightarrow> (u32 \<Rightarrow> bool) \<Rightarrow> u32 \<Rightarrow> u32 res" where
  "inject_find_exec_mem segs in_injection sz =
     adbi_assure (sz \<noteq> 0)
     (Inr (case List.find (\<lambda>s. start s \<noteq> 0 \<and> segment_is_executable s \<and> \<not> seg_end s - start s < sz \<and> \<not> in_injection (start s)) segs of
        None \<Rightarrow> 0 | Some s \<Rightarrow> start s))"

definition fncall_alloc_load_call ::
    "'m hooks \<Rightarrow> ('m, u32) inferior_ops \<Rightarrow> ('m traced \<Rightarrow> u32 \<Rightarrow> bool) \<Rightarrow> nat \<Rightarrow> (u32, unit, unit) segment_t list \<Rightarrow> (u32 \<Rightarrow> bool)
     \<Rightarrow> 'm traced \<Rightarrow> bytes \<Rightarrow> u32 \<Rightarrow> call_context_t \<Rightarrow> (bool \<times> call_context_t \<times> 'm traced) res" where
  "fncall_alloc_load_call h b executable fuel segs in_injection t function_text entry_ofs ctx =
     res_bind (inject_find_exec_mem segs in_injection (of_nat (length function_text))) (\<lambda>address.
     if address = 0 then Inr (False, ctx, t)
     else let (original_text, t) = mem_read (thread_mem h b) t address (length function_text)
          in if length original_text \<noteq> length function_text then Inr (False, ctx, t)
             else res_bind (mem_write (thread_mem h b) t address function_text) (\<lambda>(n, t).
                  if n = 0 then Inr (False, ctx, t)
                  else res_bind (fncall_call h b executable fuel t (address + entry_ofs) ctx) (\<lambda>(ret, ctx, t).
                       if \<not> ret then Inr (False, ctx, t)
                       else res_bind (mem_write (thread_mem h b) t address original_text) (\<lambda>(_, t). Inr (ret, ctx, t)))))"

subsection \<open>System calls in the process\<close>

definition fncall_get_errno :: "u32 \<Rightarrow> int" where
  "fncall_get_errno syscall_ret = (if sint syscall_ret < 0 \<and> sint syscall_ret > -256 then - sint syscall_ret else 0)"

definition fncall_align_to_page :: "u32 \<Rightarrow> u32 \<Rightarrow> u32" where
  "fncall_align_to_page pagesize sz = ((sz - 1) div pagesize + 1) * pagesize"

text \<open>\<open>symbol\<close> is the offset of the function in the base injectable, negative if there is none, and \<open>base\<close> its address. The
  result says whether the system call succeeded.\<close>

definition fncall_memop ::
    "'m hooks \<Rightarrow> ('m, u32) inferior_ops \<Rightarrow> ('m traced \<Rightarrow> u32 \<Rightarrow> bool) \<Rightarrow> nat \<Rightarrow> u32 \<Rightarrow> (bytes \<Rightarrow> int res) \<Rightarrow> 'm traced \<Rightarrow> bytes
     \<Rightarrow> call_context_t \<Rightarrow> (bool \<times> call_context_t \<times> 'm traced) res" where
  "fncall_memop h b executable fuel base symbol t fn_name ctx =
     res_bind (symbol fn_name) (\<lambda>ofs.
     if ofs < 0 then Inr (False, ctx, t)
     else res_bind (fncall_call h b executable fuel t (base + of_int ofs) ctx) (\<lambda>(ok, ctx, t).
          if ok then Inr (fncall_get_errno (registers ctx ! 0) = 0, ctx, t) else Inr (False, ctx, t)))"

definition adbi_mmap_name :: bytes where "adbi_mmap_name = [0x61, 0x64, 0x62, 0x69, 0x5f, 0x6d, 0x6d, 0x61, 0x70]"
definition adbi_alloc_name :: bytes where "adbi_alloc_name = [0x61, 0x64, 0x62, 0x69, 0x5f, 0x61, 0x6c, 0x6c, 0x6f, 0x63]"
definition adbi_free_name :: bytes where "adbi_free_name = [0x61, 0x64, 0x62, 0x69, 0x5f, 0x66, 0x72, 0x65, 0x65]"

definition fncall_mmap ::
    "'m hooks \<Rightarrow> ('m, u32) inferior_ops \<Rightarrow> ('m traced \<Rightarrow> u32 \<Rightarrow> bool) \<Rightarrow> nat \<Rightarrow> u32 \<Rightarrow> (bytes \<Rightarrow> int res) \<Rightarrow> u32 \<Rightarrow> 'm traced
     \<Rightarrow> u32 \<Rightarrow> u32 \<Rightarrow> u32 \<Rightarrow> u32 \<Rightarrow> u32 \<Rightarrow> u32 \<Rightarrow> (u32 option \<times> 'm traced) res" where
  "fncall_mmap h b executable fuel base symbol pagesize t addr sz prot flgs fd ofs =
     res_bind (fncall_memop h b executable fuel base symbol t adbi_mmap_name
       \<lparr>registers = [addr, fncall_align_to_page pagesize sz, prot, flgs], stack = [ofs, fd]\<rparr>) (\<lambda>(ok, ctx, t).
     Inr (if ok then Some (registers ctx ! 0) else None, t))"

definition fncall_allocate ::
    "'m hooks \<Rightarrow> ('m, u32) inferior_ops \<Rightarrow> ('m traced \<Rightarrow> u32 \<Rightarrow> bool) \<Rightarrow> nat \<Rightarrow> u32 \<Rightarrow> (bytes \<Rightarrow> int res) \<Rightarrow> u32 \<Rightarrow> 'm traced \<Rightarrow> u32
     \<Rightarrow> (u32 option \<times> 'm traced) res" where
  "fncall_allocate h b executable fuel base symbol pagesize t sz =
     res_bind (fncall_memop h b executable fuel base symbol t adbi_alloc_name
       \<lparr>registers = [fncall_align_to_page pagesize sz, 0, 0, 0], stack = []\<rparr>) (\<lambda>(ok, ctx, t).
     Inr (if ok then Some (registers ctx ! 0) else None, t))"

definition fncall_free ::
    "'m hooks \<Rightarrow> ('m, u32) inferior_ops \<Rightarrow> ('m traced \<Rightarrow> u32 \<Rightarrow> bool) \<Rightarrow> nat \<Rightarrow> u32 \<Rightarrow> (bytes \<Rightarrow> int res) \<Rightarrow> 'm traced \<Rightarrow> u32 \<Rightarrow> u32
     \<Rightarrow> (bool \<times> 'm traced) res" where
  "fncall_free h b executable fuel base symbol t address sz =
     res_bind (fncall_memop h b executable fuel base symbol t adbi_free_name
       \<lparr>registers = [address, sz, 0, 0], stack = []\<rparr>) (\<lambda>(ok, ctx, t). Inr (ok, t))"

definition fncall_call_adbi ::
    "'m hooks \<Rightarrow> ('m, u32) inferior_ops \<Rightarrow> ('m traced \<Rightarrow> u32 \<Rightarrow> bool) \<Rightarrow> nat \<Rightarrow> 'm traced \<Rightarrow> u32 \<Rightarrow> u32 \<Rightarrow> u32 \<Rightarrow> u32 \<Rightarrow> u32
     \<Rightarrow> (u32 option \<times> 'm traced) res" where
  "fncall_call_adbi h b executable fuel t address arg1 arg2 arg3 arg4 =
     res_bind (fncall_call h b executable fuel t address \<lparr>registers = [arg1, arg2, arg3, arg4], stack = []\<rparr>) (\<lambda>(ok, ctx, t).
     Inr (if ok then Some (registers ctx ! 0) else None, t))"

definition fncall_call_mprotect ::
    "'m hooks \<Rightarrow> ('m, u32) inferior_ops \<Rightarrow> ('m traced \<Rightarrow> u32 \<Rightarrow> bool) \<Rightarrow> nat \<Rightarrow> u32 \<Rightarrow> 'm traced \<Rightarrow> u32 \<Rightarrow> u32 \<Rightarrow> u32
     \<Rightarrow> (bool \<times> 'm traced) res" where
  "fncall_call_mprotect h b executable fuel fn t address sz prot =
     adbi_assure (fn \<noteq> 0)
     (res_bind (fncall_call_adbi h b executable fuel t fn address sz prot 0) (\<lambda>(r, t).
      Inr (case r of None \<Rightarrow> False | Some v \<Rightarrow> fncall_get_errno v = 0, t)))"

text \<open>The loop of \<^verbatim>\<open>fncall_runtil_seg\<close> waits for the program counter to enter the segment, which is made not executable.\<close>

definition PROT_EXEC :: u32 where "PROT_EXEC = 4"

definition fncall_runtil_seg ::
    "'m hooks \<Rightarrow> ('m, u32) inferior_ops \<Rightarrow> ('m traced \<Rightarrow> u32 \<Rightarrow> bool) \<Rightarrow> nat \<Rightarrow> u32 \<Rightarrow> 'm traced \<Rightarrow> u32 \<Rightarrow> u32 \<Rightarrow> u32
     \<Rightarrow> (bool \<times> 'm traced) res" where
  "fncall_runtil_seg h b executable fuel fn t seg_start seg_stop flgs =
     adbi_assure (\<not> slavemode (t_state t))
     (res_bind (fncall_call_mprotect h b executable fuel fn t seg_start (seg_stop - seg_start) (flgs AND NOT PROT_EXEC)) (\<lambda>(ok, t).
      if \<not> ok then Inr (False, set_slavemode False t)
      else res_bind (thread_continue (set_slavemode True t) 0) (\<lambda>t.
           res_bind (run_until h (\<lambda>t. if signo (t_state t) \<in> {SIGSEGV, SIGTRAP}
               then res_bind (thread_get_regs t) (\<lambda>regs. Inr (regs ARM_pc AND 0xfffffffe \<ge> seg_start \<and> regs ARM_pc AND 0xfffffffe < seg_stop))
               else Inr False) fuel t) (\<lambda>(alive, t).
           if \<not> alive then Inr (False, set_slavemode False t)
           else fncall_call_mprotect h b executable fuel fn (set_slavemode False t) seg_start (seg_stop - seg_start) flgs))))"

section \<open>The memory of a traced thread\<close>

lemma thread_mem_inferior:
  assumes "inferior b contents"
  shows "inferior (thread_mem h b) (\<lambda>t. contents (t_mem t))"
proof -
  note i = assms [unfolded inferior_def]
  show ?thesis
    unfolding inferior_def using i by (auto simp: thread_mem_def split: if_splits)
qed

lemma word_size_bytes: "LENGTH(32) div 8 = 4"
  by simp

definition holds_word :: "(u32 \<Rightarrow> u8 option) \<Rightarrow> u32 \<Rightarrow> u32 \<Rightarrow> bool" where
  "holds_word c a v \<longleftrightarrow> (\<forall>k < 4. c (a + of_nat k) = Some (byte_of v k))"

lemma aligned_minus_4: "is_word_aligned (a :: u32) \<Longrightarrow> is_word_aligned (a - 4)"
proof -
  have m: "(3 :: u32) = mask 2" by (simp add: mask_eq_exp_minus_1)
  have "(4 :: u32) = 2 ^ 2" by simp
  then have "2 ^ 2 dvd (4 :: u32)" by simp
  then show "is_word_aligned a \<Longrightarrow> is_word_aligned (a - 4)"
    unfolding is_word_aligned_def m by (simp only: take_bit_eq_mask [symmetric] take_bit_eq_0_iff dvd_diff)
qed

text \<open>The part of the stack that \<open>n\<close> pushed words take, below the stack pointer.\<close>

definition stack_area :: "u32 \<Rightarrow> nat \<Rightarrow> u32 set" where
  "stack_area sp n = span (sp - 4 * of_nat n) (4 * n)"

lemma stack_area_Suc: "sp - 4 \<in> stack_area sp (Suc n)" "stack_area (sp - 4) n \<subseteq> stack_area sp (Suc n)"
proof -
  have e: "sp - 4 = sp - 4 * of_nat (Suc n) + of_nat (4 * n)" "sp - 4 - 4 * of_nat n = sp - 4 * of_nat (Suc n)"
    by (simp_all add: algebra_simps)
  show "sp - 4 \<in> stack_area sp (Suc n)" unfolding stack_area_def by (subst e(1)) (rule spanI, simp)
  show "stack_area (sp - 4) n \<subseteq> stack_area sp (Suc n)" unfolding stack_area_def e(2) by (rule span_mono) simp
qed

lemma push_stack_total:
  assumes "writable_in b R P" "P (t_mem t)" "t_kernel t = K_Stopped" "is_word_aligned (regs ARM_sp)"
    and "stack_area (regs ARM_sp) (length vs) \<subseteq> R"
  shows "\<exists>m. push_stack h b t regs vs = Inr (True, regs(ARM_sp := regs ARM_sp - 4 * of_nat (length vs)), t\<lparr>t_mem := m\<rparr>) \<and> P m"
  using assms(2-)
proof (induction vs arbitrary: t regs)
  case Nil
  then show ?case by (intro exI [of _ "t_mem t"]) simp
next
  case (Cons v vs)
  let ?regs = "regs(ARM_sp := regs ARM_sp - 4)"
  have al: "is_word_aligned (regs ARM_sp - 4)" by (rule aligned_minus_4 [OF Cons.prems(3)])
  have top: "regs ARM_sp - 4 \<in> R" and area: "stack_area (regs ARM_sp - 4) (length vs) \<subseteq> R"
    using Cons.prems(4) stack_area_Suc [of "regs ARM_sp" "length vs"] by auto
  have "(regs ARM_sp - 4) AND NOT 3 = regs ARM_sp - 4" using aligned_word_of [OF al, of 0] by simp
  then obtain m where m: "ptrace_mem_write b (t_mem t) (regs ARM_sp - 4) v = Some m" "P m"
    using writable_in_write(2) [OF assms(1) Cons.prems(1) top] by blast
  obtain m' where "push_stack h b (t\<lparr>t_mem := m\<rparr>) ?regs vs = Inr (True, ?regs(ARM_sp := ?regs ARM_sp - 4 * of_nat (length vs)), t\<lparr>t_mem := m'\<rparr>)" "P m'"
    using Cons.IH [of "t\<lparr>t_mem := m\<rparr>" ?regs] m(2) Cons.prems(2) al area by (auto simp del: fun_upd_apply simp: fun_upd_same)
  then show ?case using m(1) al Cons.prems(2) by (auto simp: thread_mem_def Let_def algebra_simps)
qed

text \<open>The words of the stack are in memory order the reverse of the order in which they are pushed; nothing else is changed.\<close>

lemma push_stack_contents:
  assumes "inferior b contents" "push_stack h b t regs vs = Inr (True, regs', t')" "4 * length vs < 2 ^ 32"
  shows "regs' = regs(ARM_sp := regs ARM_sp - 4 * of_nat (length vs))
    \<and> (\<forall>i < length vs. holds_word (contents (t_mem t')) (regs' ARM_sp + of_nat (4 * i)) (rev vs ! i))
    \<and> (\<forall>x. (\<forall>j < 4 * length vs. x \<noteq> regs' ARM_sp + of_nat j) \<longrightarrow> contents (t_mem t') x = contents (t_mem t) x)"
  using assms(2,3)
proof (induction vs arbitrary: t regs)
  case Nil
  then show ?case by simp
next
  case (Cons v vs)
  let ?regs = "regs(ARM_sp := regs ARM_sp - 4)"
  define n where "n = 4 * length vs"
  define sp where "sp = regs ARM_sp - 4 - of_nat n"
  obtain u where u: "ptrace_mem_write (thread_mem h b) t (regs ARM_sp - 4) v = Some u" "push_stack h b u ?regs vs = Inr (True, regs', t')"
    using Cons.prems(1) by (auto simp: Let_def adbi_assure_def split: if_splits option.splits)
  have IH: "regs' = ?regs(ARM_sp := sp)"
    "\<forall>i < length vs. holds_word (contents (t_mem t')) (sp + of_nat (4 * i)) (rev vs ! i)"
    "\<forall>x. (\<forall>j < n. x \<noteq> sp + of_nat j) \<longrightarrow> contents (t_mem t') x = contents (t_mem u) x"
    using Cons.IH [OF u(2)] Cons.prems(2) by (auto simp: sp_def n_def fun_upd_same simp del: fun_upd_apply)
  have top: "regs ARM_sp - 4 + of_nat k = sp + of_nat (n + k)" for k by (simp add: sp_def)
  have lt: "n + 4 < 2 ^ 32" using Cons.prems(2) by (simp add: n_def)
  have far: "sp + of_nat (n + k) \<noteq> sp + of_nat j" if "j < n" "k < 4" for j k
    using offsets_distinct [of "n + k" j sp] that lt by auto
  note inf = thread_mem_inferior [OF assms(1), of h]
  have poke: "contents (t_mem u) (sp + of_nat (n + k)) = Some (byte_of v k)" if "k < 4" for k
    using inferior.poke_in [OF inf u(1), of k] that by (simp add: top del: of_nat_add)
  have v: "holds_word (contents (t_mem t')) (sp + of_nat n) v"
    unfolding holds_word_def
  proof (intro allI impI)
    fix k :: nat assume k: "k < 4"
    have "sp + of_nat n + of_nat k = sp + of_nat (n + k)" by (simp add: add.assoc)
    then show "contents (t_mem t') (sp + of_nat n + of_nat k) = Some (byte_of v k)" using IH(3) far [OF _ k] poke [OF k] by metis
  qed
  have frame: "contents (t_mem t') x = contents (t_mem t) x" if x: "\<forall>j < n + 4. x \<noteq> sp + of_nat j" for x
  proof -
    have "contents (t_mem t') x = contents (t_mem u) x" using IH(3) x by simp
    also have "\<dots> = contents (t_mem t) x"
      by (rule inferior.poke_out [OF inf u(1)]) (use x top in \<open>metis add_less_cancel_left word_size_bytes\<close>)
    finally show ?thesis .
  qed
  have len: "4 * length (v # vs) = n + 4" by (simp add: n_def)
  have sp: "regs' = regs(ARM_sp := regs ARM_sp - 4 * of_nat (length (v # vs)))" "regs' ARM_sp = sp"
    using IH(1) by (simp_all add: sp_def n_def algebra_simps)
  have nth: "holds_word (contents (t_mem t')) (sp + of_nat (4 * i)) (rev (v # vs) ! i)" if "i < length (v # vs)" for i
  proof (cases "i < length vs")
    case True
    then show ?thesis using IH(2) by (simp add: nth_append)
  next
    case False
    then have "i = length vs" using that by simp
    then show ?thesis using v by (simp add: nth_append n_def)
  qed
  show ?case unfolding sp(2) len using sp(1) nth frame by blast
qed

section \<open>The run of a called function\<close>

text \<open>In slave mode a stop is recorded, whatever the hooks.\<close>

definition slave_running :: "'m traced \<Rightarrow> bool" where
  "slave_running t \<longleftrightarrow> \<not> dead (t_state t) \<and> running (t_state t) \<and> t_kernel t = K_Running \<and> slavemode (t_state t)"

lemma slave_wait:
  assumes "slave_running t" "t_future t = Ev_Stopped sig 0 regs m # evs"
  shows "\<exists>t'. thread_wait h t False = Inr t' \<and> halted t' \<and> slavemode (t_state t') \<and> signo (t_state t') = sig
    \<and> t_regs t' = regs \<and> t_mem t' = m \<and> t_future t' = evs"
proof -
  let ?u = "set_state (\<lambda>s. s\<lparr>running := False\<rparr>) (t\<lparr>t_future := evs, t_kernel := K_Stopped, t_regs := regs, t_mem := m\<rparr>)"
  have u: "halted ?u" "slavemode (t_state ?u)" using assms(1) by (simp_all add: slave_running_def halted_def)
  have w: "thread_wait h t False = handle_signal h ?u sig"
    using assms by (simp add: slave_running_def thread_wait_def sys_waitpid_def thread_handle_status_def handle_stop_def Let_def)
  have g: "thread_get_regs ?u = Inr regs" using u(1) by (simp add: thread_get_regs_def ptrace_request_def halted_def)
  have "thread_continue_or_stop h ?u sig = Inr (set_state (\<lambda>s. s\<lparr>signo := sig, stopme := False\<rparr>) ?u)"
    using u by (simp add: thread_continue_or_stop_def halted_def set_state_def)
  then show ?thesis unfolding w handle_signal_def g using u by (auto simp: halted_def)
qed

lemma slave_continue:
  assumes "halted t" "slavemode (t_state t)"
  shows "\<exists>t'. thread_continue t 0 = Inr t' \<and> slave_running t' \<and> t_regs t' = t_regs t \<and> t_mem t' = t_mem t \<and> t_future t' = t_future t"
  using thread_continue_halted [OF assms(1), of 0] assms(2) by (auto simp: slave_running_def)

lemma halted_clear_signo: "halted (clear_signo t) = halted t" "slavemode (t_state (clear_signo t)) = slavemode (t_state t)"
    "t_regs (clear_signo t) = t_regs t" "t_mem (clear_signo t) = t_mem t" "t_future (clear_signo t) = t_future t"
  by (simp_all add: clear_signo_def halted_def)

abbreviation sigstops :: "(pt_regs \<times> 'm) list \<Rightarrow> 'm event list" where
  "sigstops stops \<equiv> map (\<lambda>(r, m). Ev_Stopped SIGSTOP 0 r m) stops"

lemma call_wait_stops:
  assumes "slave_running t" "t_future t = sigstops stops @ Ev_Stopped sig 0 regs m # evs" "sig \<noteq> 0" "sig \<noteq> SIGSTOP"
    and "length stops < fuel"
  shows "\<exists>t'. call_wait h fuel t = Inr (Some sig, t') \<and> halted t' \<and> slavemode (t_state t') \<and> t_regs t' = regs \<and> t_mem t' = m
    \<and> t_future t' = evs"
  using assms(1,2,5)
proof (induction stops arbitrary: t fuel)
  case Nil
  then obtain n where "fuel = Suc n" using less_imp_Suc_add by auto
  then show ?case using slave_wait [of t sig regs m evs h] Nil.prems assms(3,4)
    by (auto simp: clear_signo_def halted_def Let_def)
next
  case (Cons s stops)
  then obtain n where n: "fuel = Suc n" by (cases fuel) auto
  obtain r m1 where "s = (r, m1)" by fastforce
  then obtain t1 where t1: "thread_wait h t False = Inr t1" "halted t1" "slavemode (t_state t1)" "signo (t_state t1) = SIGSTOP"
      "t_future t1 = sigstops stops @ Ev_Stopped sig 0 regs m # evs"
    using slave_wait [of t SIGSTOP r m1 "sigstops stops @ Ev_Stopped sig 0 regs m # evs" h] Cons.prems(1,2) by auto
  obtain t2 where t2: "thread_continue (clear_signo t1) 0 = Inr t2" "slave_running t2" "t_future t2 = t_future t1"
    using slave_continue [of "clear_signo t1"] t1(2,3) by (auto simp: halted_clear_signo)
  have "call_wait h fuel t = call_wait h n t2" using n t1 t2(1) by (simp add: halted_def Let_def)
  then show ?case using Cons.IH [OF t2(2), of n] Cons.prems(3) n t2(3) t1(5) by simp
qed

lemma call_enter_total:
  assumes "writable_in b R P" "P (t_mem t)" "halted t" "is_word_aligned (old ARM_sp)" "stack_area (old ARM_sp) (length (stack ctx)) \<subseteq> R"
  shows "\<exists>m. call_enter h b t old address ctx = Inr (True, t\<lparr>t_mem := m,
      t_regs := entry_regs ((param_regs old (registers ctx))(ARM_sp := old ARM_sp - 4 * of_nat (length (stack ctx)))) address\<rparr>)"
proof -
  have "param_regs old (registers ctx) ARM_sp = old ARM_sp" by (simp add: param_regs_def)
  then show ?thesis
    using push_stack_total [OF assms(1,2), of "param_regs old (registers ctx)" "stack ctx" h] assms(3-5)
    by (auto simp: call_enter_def thread_set_regs_def ptrace_request_def halted_def)
qed

text \<open>Writing the memory of a stopped thread changes nothing else of it.\<close>

definition with_mem :: "'m traced \<Rightarrow> ('m \<Rightarrow> bool) \<Rightarrow> 'm traced \<Rightarrow> bool" where
  "with_mem t P t' \<longleftrightarrow> (\<exists>m. t' = t\<lparr>t_mem := m\<rparr> \<and> P m)"

lemma with_mem_writable:
  assumes "writable_in b R P" "halted t"
  shows "writable_in (thread_mem h b) R (with_mem t P)"
  unfolding writable_in_def
proof (intro allI impI conjI ballI)
  fix u a assume u: "with_mem t P u" and a: "a \<in> R"
  then obtain m where m: "u = t\<lparr>t_mem := m\<rparr>" "P m" by (auto simp: with_mem_def)
  have k: "t_kernel u = K_Stopped" using m assms(2) by (simp add: halted_def)
  then show "ptrace_mem_read (thread_mem h b) u (a AND NOT 3) \<noteq> None"
    using writable_in_write(1) [OF assms(1) m(2) a refl] m by (auto simp: thread_mem_def)
  fix v
  obtain m' where "ptrace_mem_write b m (a AND NOT 3) v = Some m'" "P m'" using writable_in_write(2) [OF assms(1) m(2) a refl] by blast
  then show "\<exists>u'. ptrace_mem_write (thread_mem h b) u (a AND NOT 3) v = Some u' \<and> with_mem t P u'"
    using m k by (auto simp: thread_mem_def with_mem_def)
qed

lemma thread_mem_write:
  assumes "inferior b contents" "writable_in b R P" "P (t_mem t)" "halted t" "data \<noteq> []" "unat a + length data < 2 ^ 32"
    and "span a (length data) \<subseteq> R"
  shows "\<exists>m. mem_write (thread_mem h b) t a data = Inr (length data, t\<lparr>t_mem := m\<rparr>) \<and> P m
    \<and> wrote (contents (t_mem t)) (contents m) a data 0 0 (length data)"
proof -
  have t: "with_mem t P t" using assms(3) by (auto simp: with_mem_def intro: exI [of _ "t_mem t"])
  have a: "unat a + length data < 2 ^ LENGTH(32)" "unat a mod 4 + length data < 2 ^ 32"
    using assms(6) mod_less_eq_dividend [of "unat a" 4] by (simp_all del: mod_less_eq_dividend)
  have d: "\<not> thread_dead (thread_mem h b) t" using assms(4) by (simp add: thread_mem_def halted_def)
  obtain n t' where w: "mem_write (thread_mem h b) t a data = Inr (n, if n < length data then check_alive (thread_mem h b) t' else t')"
      "wrote (contents (t_mem t)) (contents (t_mem t')) a data 0 0 n"
      "\<forall>R P. writable_in (thread_mem h b) R P \<longrightarrow> span a (length data) \<subseteq> R \<longrightarrow> P t \<longrightarrow> n = length data \<and> P t'"
    using inferior.mem_write_full [OF thread_mem_inferior [OF assms(1), of h] d assms(5) a] by blast
  then have n: "n = length data" "with_mem t P t'" using with_mem_writable [OF assms(2,4), of h] t assms(7) by blast+
  then obtain m where m: "t' = t\<lparr>t_mem := m\<rparr>" "P m" by (auto simp: with_mem_def)
  show ?thesis using w(1,2) m unfolding n(1) by auto
qed

lemma thread_mem_read:
  assumes "inferior b contents" "halted t" "\<forall>i < n. contents (t_mem t) (a + of_nat i) = Some (bs ! i)" "length bs = n"
  shows "mem_read (thread_mem h b) t a n = (bs, t)"
proof -
  have "procfs_mem_read (thread_mem h b) t a n = bs"
    using inferior.pread [OF thread_mem_inferior [OF assms(1), of h], of n t a bs] assms(3,4) by blast
  then show ?thesis using assms(2,4) by (simp add: mem_read_def thread_mem_def halted_def)
qed

section \<open>Properties\<close>

text \<open>A stopped thread for the witnesses: code at 0x8000, a stack at 0x10000; the page at the address 0 is not mapped; the called
  function sees a \<^verbatim>\<open>SIGSTOP\<close> and returns 7.\<close>

definition process_mem :: "u8 \<Rightarrow> u32 \<Rightarrow> u8 option" where
  "process_mem v = (\<lambda>x. if x < 0x1000 then None else Some v)"

definition ret_regs :: pt_regs where
  "ret_regs = (\<lambda>_. 0)(0 := 7)"

definition call_thread :: "(u32 \<Rightarrow> u8 option) traced" where
  "call_thread =
     \<lparr>t_state = initial_thread_state, t_notified = True, t_kernel = K_Stopped, t_regs = (\<lambda>_. 0)(ARM_sp := 0x10000, ARM_pc := 0x8000),
      t_mem = process_mem 0, t_future = sigstops [(\<lambda>_. 1, process_mem 1)] @ [Ev_Stopped SIGSEGV 0 ret_regs (process_mem 2)],
      t_delivered = [], t_jumps = Leaf, t_bkpt = 0, t_stabilizing = False, t_segments = Leaf\<rparr>"

lemma call_thread_ready:
  "halted call_thread" "\<not> slavemode (t_state call_thread)" "\<not> execed (t_state call_thread)"
  "is_word_aligned (t_regs call_thread ARM_sp)"
  "t_future call_thread = sigstops [(\<lambda>_. 1, process_mem 1)] @ Ev_Stopped SIGSEGV 0 ret_regs (process_mem 2) # []"
  "t_regs call_thread ARM_sp = 0x10000" "t_mem call_thread = process_mem 0"
  by (simp_all add: call_thread_def halted_def initial_thread_state_def is_word_aligned_def)

lemma process_mem_mapped:
  assumes "\<And>x. x \<in> R \<Longrightarrow> 0x1004 \<le> x \<and> x < 0xf0000000"
  shows "mapped_in R (process_mem v)"
proof -
  have "process_mem v ((x AND NOT 3) + of_nat i) \<noteq> None" if "x \<in> R" "i < 4" for x i
  proof -
    define a where "a = x AND NOT 3"
    have s: "unat (x - a) < 4" "unat a + unat (x - a) = unat x" unfolding a_def by (rule mem32.aligned_split(2,3))+
    have "unat x < 0xf0000000" "0x1004 \<le> unat x" using assms [OF that(1)] by (simp_all add: word_le_nat_alt word_less_nat_alt)
    then have "unat a < 0xf0000000" "0x1000 < unat a" using s by linarith+
    then have "unat (a + of_nat i) = unat a + i"
      using that(2) by (simp add: unat_word_ariths unat_of_nat take_bit_nat_eq_self)
    then have "\<not> a + of_nat i < 0x1000" using \<open>0x1000 < unat a\<close> by (simp add: word_less_nat_alt)
    then show ?thesis unfolding a_def [symmetric] by (simp add: process_mem_def)
  qed
  then show ?thesis by (simp add: mapped_in_def)
qed

lemma process_mem_stack: "mapped_in (stack_area 0x10000 (Suc (Suc 0))) (process_mem v)" "mapped_in (span 0x8000 4) (process_mem v)"
  by (simp_all add: stack_area_def mapped_in_32 process_mem_def Let_def lessThan_Suc lessThan_nat_numeral)

text \<open>A function called in a stopped thread starts with the first four parameters in r0 to r3 and the others on the stack,
  the last one pushed at the lowest address, with the return address 0, in the processor state that bit 0 of the address
  selects; nothing else of the memory and no other register is changed.\<close>

theorem call_enter_convention:
  assumes "inferior b contents" "4 * length (stack ctx) < 2 ^ 32" "call_enter h b t old address ctx = Inr (True, t')"
  shows "(\<forall>i < 4. t_regs t' i = registers ctx ! i) \<and> t_regs t' ARM_lr = 0 \<and> t_regs t' ARM_pc = address AND NOT 1
    \<and> (bit (t_regs t' ARM_cpsr) 5 \<longleftrightarrow> bit address 0) \<and> t_regs t' ARM_sp = old ARM_sp - 4 * of_nat (length (stack ctx))
    \<and> (\<forall>i. 4 \<le> i \<and> i \<notin> {ARM_sp, ARM_lr, ARM_pc, ARM_cpsr} \<longrightarrow> t_regs t' i = old i)
    \<and> (\<forall>i < length (stack ctx). holds_word (contents (t_mem t')) (t_regs t' ARM_sp + of_nat (4 * i)) (rev (stack ctx) ! i))
    \<and> (\<forall>x. (\<forall>j < 4 * length (stack ctx). x \<noteq> t_regs t' ARM_sp + of_nat j) \<longrightarrow> contents (t_mem t') x = contents (t_mem t) x)"
proof -
  let ?regs = "param_regs old (registers ctx)"
  obtain regs' u where u: "push_stack h b t ?regs (stack ctx) = Inr (True, regs', u)" "t' = u\<lparr>t_regs := entry_regs regs' address\<rparr>"
    using assms(3) by (auto simp: call_enter_def res_bind_eq_Inr thread_set_regs_def ptrace_request_def adbi_assure_def split: if_splits)
  have sp: "t_regs t' ARM_sp = regs' ARM_sp" by (simp add: u(2) entry_regs_def)
  note p = push_stack_contents [OF assms(1) u(1) assms(2)]
  then have r: "regs' = ?regs(ARM_sp := old ARM_sp - 4 * of_nat (length (stack ctx)))" by (simp add: param_regs_def)
  have "address AND 1 \<noteq> 0 \<longleftrightarrow> bit address 0" by (simp add: and_one_eq bit_0 odd_iff_mod_2_eq_one)
  then have "bit (t_regs t' ARM_cpsr) 5 \<longleftrightarrow> bit address 0" by (simp add: u(2) entry_regs_def bit_simps)
  moreover have "t_mem t' = t_mem u" by (simp add: u(2))
  ultimately show ?thesis unfolding sp using p r by (auto simp: u(2) entry_regs_def param_regs_def)
qed

text \<open>Witness: the call of \<^verbatim>\<open>mmap\<close> with two parameters on the stack.\<close>

theorem call_enter_convention_witness:
  "\<exists>t'. call_enter no_hooks byte_memory call_thread (t_regs call_thread) 0x9001 \<lparr>registers = [1, 2, 3, 4], stack = [6, 5]\<rparr> = Inr (True, t')
    \<and> t_regs t' ARM_sp = 0xfff8 \<and> holds_word (t_mem t') 0xfff8 5 \<and> holds_word (t_mem t') 0xfffc 6 \<and> bit (t_regs t' ARM_cpsr) 5"
proof -
  let ?ctx = "\<lparr>registers = [1, 2, 3, 4], stack = [6, 5]\<rparr> :: call_context_t"
  obtain t' where t': "call_enter no_hooks byte_memory call_thread (t_regs call_thread) 0x9001 ?ctx = Inr (True, t')"
    using call_enter_total [where R = "stack_area 0x10000 (Suc (Suc 0))" and t = call_thread and old = "t_regs call_thread" and ctx = ?ctx and h = no_hooks and address = "0x9001", OF byte_memory_writable]
      process_mem_stack(1) call_thread_ready(1,4,6,7) by fastforce
  have sp: "t_regs call_thread ARM_sp = 0x10000" by (simp add: call_thread_def)
  have l: "4 * length (stack ?ctx) < 2 ^ 32" by simp
  have all: "P 0 \<and> P 1" if "\<forall>i < length (stack ?ctx). P i" for P :: "nat \<Rightarrow> bool" using that by simp
  note c = call_enter_convention [OF mem32.inferior_axioms l t', unfolded sp]
  have r: "t_regs t' ARM_sp = 0xfff8" using c by simp
  have b: "bit (t_regs t' ARM_cpsr) 5" using c by (simp add: bit_0)
  have "\<forall>i < length (stack ?ctx). holds_word (t_mem t') (0xfff8 + of_nat (4 * i)) (rev (stack ?ctx) ! i)" using c unfolding r by blast
  from all [OF this] show ?thesis using t' r b by auto
qed

lemma call_correct:
  assumes "halted t" "\<not> slavemode (t_state t)" "\<not> execed (t_state t)" "is_word_aligned (t_regs t ARM_sp)"
    and "writable_in b R P" "P (t_mem t)" "stack_area (t_regs t ARM_sp) (length (stack ctx)) \<subseteq> R"
    and "t_future t = sigstops stops @ Ev_Stopped sig 0 regs m # evs" "sig \<noteq> 0" "sig \<noteq> SIGSTOP" "length stops < fuel"
  shows "\<exists>t'. fncall_call h b executable fuel t address ctx =
      (if sig = SIGSEGV \<and> regs ARM_pc = 0 then Inr (True, ctx\<lparr>registers := map regs [0..<4]\<rparr>, t') else Inr (False, ctx, t'))
    \<and> halted t' \<and> \<not> slavemode (t_state t') \<and> t_regs t' = t_regs t \<and> t_mem t' = m \<and> t_future t' = evs"
proof -
  let ?t = "set_slavemode True t"
  have s: "halted ?t" "slavemode (t_state ?t)" "t_mem ?t = t_mem t" "t_future ?t = t_future t"
    using assms(1) by (simp_all add: set_slavemode_def halted_def)
  have g: "thread_get_regs ?t = Inr (t_regs t)" using s(1) by (simp add: set_slavemode_def thread_get_regs_def ptrace_request_def halted_def)
  obtain u where u: "call_enter h b ?t (t_regs t) address ctx = Inr (True, u)" "halted u" "slavemode (t_state u)" "t_future u = t_future t"
    using call_enter_total [OF assms(5), of ?t "t_regs t" ctx h address] assms(4,6,7) s by (auto simp: halted_def)
  obtain v where v: "thread_continue u 0 = Inr v" "slave_running v" "t_future v = t_future t"
    using slave_continue [OF u(2,3)] u(4) by auto
  obtain w where w: "call_wait h fuel v = Inr (Some sig, w)" "halted w" "slavemode (t_state w)" "t_regs w = regs" "t_mem w = m" "t_future w = evs"
    using call_wait_stops [OF v(2), of stops sig regs m evs fuel h] v(3) assms(8-11) by auto
  have gw: "thread_get_regs w = Inr regs" using w(2,4) by (simp add: thread_get_regs_def ptrace_request_def halted_def)
  define t' where "t' = set_slavemode False (w\<lparr>t_regs := t_regs t\<rparr>)"
  have r: "call_restore w (t_regs t) ret c = Inr (ret, c, t')" for ret c
    using w(2) by (simp add: call_restore_def thread_set_regs_def ptrace_request_def halted_def t'_def)
  have "fncall_call h b executable fuel t address ctx = call_run h b fuel t address ctx" using assms(3) by (simp add: fncall_call_def)
  also have "\<dots> = (if sig = SIGSEGV \<and> regs ARM_pc = 0 then Inr (True, ctx\<lparr>registers := map regs [0..<4]\<rparr>, t') else Inr (False, ctx, t'))"
    using assms(2) by (simp add: call_run_def g u(1) v(1) w(1) gw r)
  finally show ?thesis using w(2,5,6) by (intro exI [of _ t']) (simp add: t'_def set_slavemode_def halted_def)
qed

text \<open>C36: A call of a function in a stopped thread ends, however often the thread is stopped by \<^verbatim>\<open>SIGSTOP\<close> meanwhile. It
  succeeds exactly when the function returns to the address 0, and then gives the registers r0 to r3 of the function; in
  every case all registers have the values from before the call, the thread is stopped and no longer in slave mode, and its
  memory is as the function left it. The conditions: the thread is alive, not in slave mode and not just after an \<^verbatim>\<open>exec\<close>, its stack
  pointer is word-aligned, the words below it that take the stack parameters can be written (nothing is asked of the rest of the
  address space), and the kernel reports a stop by a signal after a number of stops by \<^verbatim>\<open>SIGSTOP\<close> that is less than the fuel.\<close>

theorem fncall_call_correct:
  assumes "halted t" "\<not> slavemode (t_state t)" "\<not> execed (t_state t)" "is_word_aligned (t_regs t ARM_sp)"
    and "can_write b (stack_area (t_regs t ARM_sp) (length (stack ctx))) (t_mem t)"
    and "t_future t = sigstops stops @ Ev_Stopped sig 0 regs m # evs" "sig \<noteq> 0" "sig \<noteq> SIGSTOP" "length stops < fuel"
  shows "\<exists>t'. fncall_call h b executable fuel t address ctx =
      (if sig = SIGSEGV \<and> regs ARM_pc = 0 then Inr (True, ctx\<lparr>registers := map regs [0..<4]\<rparr>, t') else Inr (False, ctx, t'))
    \<and> halted t' \<and> \<not> slavemode (t_state t') \<and> t_regs t' = t_regs t \<and> t_mem t' = m \<and> t_future t' = evs"
  by (rule call_correct [OF assms(1-4) can_write_writable assms(5) order_refl assms(6-9)])

text \<open>Witness: the function, with two parameters on the stack, returns 7 after a stop.\<close>

theorem fncall_call_correct_witness:
  "\<exists>t'. fncall_call no_hooks byte_memory (\<lambda>_ _. True) 2 call_thread 0x9000 \<lparr>registers = [1, 2, 3, 4], stack = [6, 5]\<rparr> =
      Inr (True, \<lparr>registers = [7, 0, 0, 0], stack = [6, 5]\<rparr>, t') \<and> t_regs t' = t_regs call_thread \<and> t_mem t' 0 = None"
proof -
  have r: "map ret_regs [0..<4] = [7, 0, 0, 0]" "ret_regs ARM_pc = 0" by (simp_all add: ret_regs_def upt_rec)
  let ?ctx = "\<lparr>registers = [1, 2, 3, 4], stack = [6, 5]\<rparr> :: call_context_t"
  have w: "can_write byte_memory (stack_area (t_regs call_thread ARM_sp) (length (stack ?ctx))) (t_mem call_thread)"
    using process_mem_stack(1) by (simp add: byte_memory_can_write call_thread_ready(6,7))
  show ?thesis
    using fncall_call_correct [where fuel = 2 and h = no_hooks and executable = "\<lambda>_ _. True"
        and address = "0x9000" and ctx = ?ctx, OF call_thread_ready(1-4) w call_thread_ready(5)]
    by (auto simp: r process_mem_def)
qed

text \<open>Running code in a process that has no memory for it: when the code returns to the address 0, the result are its registers
  r0 to r3 and the text it was written over is back, the rest of the memory is as the code left it. When it is ended by
  another signal, the memory stays as it is then: the original text is not restored.\<close>

theorem fncall_alloc_load_call_text:
  assumes "halted t" "\<not> slavemode (t_state t)" "\<not> execed (t_state t)" "is_word_aligned (t_regs t ARM_sp)"
    and "inferior b contents" "writable_in b R P" "P (t_mem t)" "P m"
    and "t_future t = sigstops stops @ Ev_Stopped sig 0 regs m # evs" "sig \<noteq> 0" "sig \<noteq> SIGSTOP" "length stops < fuel"
    and "inject_find_exec_mem segs in_injection (of_nat (length code)) = Inr a" "a \<noteq> 0" "code \<noteq> []" "unat a + length code < 2 ^ 32"
    and "span a (length code) \<subseteq> R" "stack_area (t_regs t ARM_sp) (length (stack ctx)) \<subseteq> R"
  shows "\<exists>t'. halted t' \<and> t_regs t' = t_regs t \<and>
     (if sig = SIGSEGV \<and> regs ARM_pc = 0
      then fncall_alloc_load_call h b executable fuel segs in_injection t code entry_ofs ctx =
             Inr (True, ctx\<lparr>registers := map regs [0..<4]\<rparr>, t')
         \<and> (\<forall>i < length code. contents (t_mem t') (a + of_nat i) = contents (t_mem t) (a + of_nat i))
         \<and> (\<forall>x. (\<forall>i < length code. x \<noteq> a + of_nat i) \<longrightarrow> contents (t_mem t') x = contents m x)
      else fncall_alloc_load_call h b executable fuel segs in_injection t code entry_ofs ctx = Inr (False, ctx, t') \<and> t_mem t' = m)"
proof -
  let ?n = "length code" and ?ok = "sig = SIGSEGV \<and> regs ARM_pc = 0"
  have "contents (t_mem t) x \<noteq> None" if "x \<in> span a ?n" for x
    using inferior.writable_mapped [OF assms(5-7)] assms(17) that by blast
  then have mapped: "contents (t_mem t) (a + of_nat i) = Some (the (contents (t_mem t) (a + of_nat i)))" if "i < ?n" for i
    using spanI [OF that, of a] by simp
  define orig where "orig = map (\<lambda>i. the (contents (t_mem t) (a + of_nat i))) [0..<?n]"
  have o: "length orig = ?n" "orig \<noteq> []" "\<forall>i < ?n. contents (t_mem t) (a + of_nat i) = Some (orig ! i)"
    using assms(15) mapped by (simp_all add: orig_def)
  have rd: "mem_read (thread_mem h b) t a ?n = (orig, t)" using thread_mem_read [OF assms(5,1)] o by blast
  obtain m1 where m1: "mem_write (thread_mem h b) t a code = Inr (?n, t\<lparr>t_mem := m1\<rparr>)" "P m1"
    using thread_mem_write [OF assms(5-7,1,15-17)] by blast
  let ?t = "t\<lparr>t_mem := m1\<rparr>" and ?call = "fncall_call h b executable fuel (t\<lparr>t_mem := m1\<rparr>) (a + entry_ofs) ctx"
  have "\<exists>u. ?call = (if ?ok then Inr (True, ctx\<lparr>registers := map regs [0..<4]\<rparr>, u) else Inr (False, ctx, u))
      \<and> halted u \<and> \<not> slavemode (t_state u) \<and> t_regs u = t_regs ?t \<and> t_mem u = m \<and> t_future u = evs"
    by (rule call_correct [where P = P and stops = stops]) (use assms(1-4,6,9-12,18) m1(2) in \<open>auto simp: halted_def\<close>)
  then obtain u where u: "?call = (if ?ok then Inr (True, ctx\<lparr>registers := map regs [0..<4]\<rparr>, u) else Inr (False, ctx, u))"
      "halted u" "t_regs u = t_regs t" "t_mem u = m" by auto
  obtain m2 where m2: "mem_write (thread_mem h b) u a orig = Inr (?n, u\<lparr>t_mem := m2\<rparr>)" "wrote (contents m) (contents m2) a orig 0 0 ?n"
    using thread_mem_write [OF assms(5,6), of u orig a h] u(2,4) assms(8,16,17) o(1,2) by auto
  have n: "?n \<noteq> 0" using assms(15) by simp
  have run: "fncall_alloc_load_call h b executable fuel segs in_injection t code entry_ofs ctx =
      (if ?ok then Inr (True, ctx\<lparr>registers := map regs [0..<4]\<rparr>, u\<lparr>t_mem := m2\<rparr>) else Inr (False, ctx, u))"
    unfolding fncall_alloc_load_call_def assms(13) res_bind_Inr if_not_P [OF assms(14)] rd Let_def prod.case m1(1) u(1)
    using o(1) n m2(1) by simp
  show ?thesis
  proof (cases ?ok)
    case True
    have "halted (u\<lparr>t_mem := m2\<rparr>)" using u(2) by (simp add: halted_def)
    then show ?thesis unfolding run if_P [OF True]
      using m2(2) o(3) u(3) by (intro exI [of _ "u\<lparr>t_mem := m2\<rparr>"]) (simp add: wrote_def in_range_def)
  next
    case False
    then show ?thesis unfolding run if_not_P [OF False] using u by blast
  qed
qed

text \<open>Witness: four bytes of code in a segment at 0x8000.\<close>

definition code_segment :: "(u32, unit, unit) segment_t" where
  "code_segment = \<lparr>start = 0x8000, seg_end = 0x9000, filename = None, file_offset = 0, flags = 5, state = SEGMENT_STATE_NEW, injection = None,
     tracepoints = Leaf, trampolines = 0, trampolines_size = 0, trampoline_stolen = False\<rparr>"

theorem fncall_alloc_load_call_text_witness:
  "\<exists>t'. fncall_alloc_load_call no_hooks byte_memory (\<lambda>_ _. True) 2 [code_segment] (\<lambda>_. False) call_thread [1, 2, 3, 4] 0 call_context_empty =
       Inr (True, \<lparr>registers = [7, 0, 0, 0], stack = []\<rparr>, t')
     \<and> t_mem t' 0x8000 = Some 0 \<and> t_mem t' 0x9000 = Some 2"
proof -
  have r: "map ret_regs [0..<4] = [7, 0, 0, 0]" "ret_regs ARM_pc = 0" by (simp_all add: ret_regs_def upt_rec)
  have f: "inject_find_exec_mem [code_segment] (\<lambda>_. False) (of_nat (length [1 :: u8, 2, 3, 4])) = Inr 0x8000"
    by (simp add: inject_find_exec_mem_def code_segment_def segment_is_executable_def SEGMENT_EXECUTABLE_def)
  have four: "length [1 :: u8, 2, 3, 4] = 4" by simp
  let ?R = "span (0x8000 :: u32) 4 \<union> stack_area 0x10000 (Suc (Suc 0))"
  have mapped: "mapped_in ?R (t_mem call_thread)" "mapped_in ?R (process_mem 2)"
    using process_mem_stack by (simp_all add: mapped_in_Un call_thread_ready(7))
  obtain t' where t': "fncall_alloc_load_call no_hooks byte_memory (\<lambda>_ _. True) 2 [code_segment] (\<lambda>_. False) call_thread [1, 2, 3, 4] 0 call_context_empty =
      Inr (True, \<lparr>registers = [7, 0, 0, 0], stack = []\<rparr>, t')"
    "\<forall>i < 4. t_mem t' (0x8000 + of_nat i) = process_mem 0 (0x8000 + of_nat i)" "\<forall>x. (\<forall>i < 4. x \<noteq> 0x8000 + of_nat i) \<longrightarrow> t_mem t' x = process_mem 2 x"
    using fncall_alloc_load_call_text [where R = ?R and fuel = 2 and h = no_hooks and executable = "\<lambda>_ _. True"
        and entry_ofs = 0 and ctx = call_context_empty, OF call_thread_ready(1-4) mem32.inferior_axioms byte_memory_writable
        mapped call_thread_ready(5) _ _ _ f]
    unfolding four by (auto simp: r call_thread_ready(7) call_context_empty_def stack_area_def span_def)
  have cases: "i = 0 \<or> i = 1 \<or> i = 2 \<or> i = 3" if "i < 4" for i :: nat using that by linarith
  have "\<forall>i < 4. (0x9000 :: u32) \<noteq> 0x8000 + of_nat i" using cases by fastforce
  then show ?thesis using t' (1) t'(2) [rule_format, of 0] t'(3) by (auto simp: process_mem_def)
qed

text \<open>Running a thread until it reaches an address of Thumb code aborts the server: the address is given with bit 0 set and is
  not cleared before the instruction is read, so that the check of its alignment fails.\<close>

theorem fncall_runtil_thumb_aborts:
  "bit stopat 0 \<Longrightarrow> \<not> slavemode (t_state t) \<Longrightarrow> fncall_runtil h b fuel t stopat = Inl Assertion"
proof -
  assume a: "bit stopat 0" "\<not> slavemode (t_state t)"
  have one: "stopat AND 1 \<noteq> 0" using a(1) by (simp add: and_one_eq bit_0 odd_iff_mod_2_eq_one)
  then have "\<not> arm_check_align stopat INSN_KIND_THUMB" by (simp add: arm_check_align_def arm_align_bits_def)
  then show ?thesis using a(2) one by (simp add: fncall_runtil_def patch_read_insn_detect_kind_def patch_read_insn_def)
qed

text \<open>Witness: the address 0x8001.\<close>

theorem fncall_runtil_thumb_aborts_witness:
  "fncall_runtil no_hooks (byte_memory :: (u32 \<Rightarrow> u8 option, u32) inferior_ops) 1
     \<lparr>t_state = initial_thread_state, t_notified = True, t_kernel = K_Stopped, t_regs = \<lambda>_. 0, t_mem = \<lambda>_. Some 0, t_future = [],
      t_delivered = [], t_jumps = Leaf, t_bkpt = 0, t_stabilizing = False, t_segments = Leaf\<rparr> 0x8001 = Inl Assertion"
  by (rule fncall_runtil_thumb_aborts) (simp_all add: bit_0 initial_thread_state_def)

text \<open>C37: The size that is requested from the system for an allocation is the least multiple of the page size that is not less than
  the size asked for, if the next multiple can be represented.\<close>

theorem fncall_align_to_page_least:
  assumes "0 < pagesize" "0 < sz" "unat sz + unat pagesize \<le> 2 ^ 32"
  shows "unat pagesize dvd unat (fncall_align_to_page pagesize sz) \<and> unat sz \<le> unat (fncall_align_to_page pagesize sz)
    \<and> unat (fncall_align_to_page pagesize sz) < unat sz + unat pagesize"
proof -
  define p s where "p = unat pagesize" and "s = unat sz"
  define q where "q = (s - 1) div p"
  have p: "0 < p" "0 < s" "s + p \<le> 2 ^ 32" using assms by (simp_all add: p_def s_def word_less_nat_alt)
  have "unat (sz - 1) = s - 1" using assms(2) by (simp add: s_def unat_minus_one)
  then have "unat ((sz - 1) div pagesize) = q" by (simp add: q_def p_def unat_div)
  then have w: "fncall_align_to_page pagesize sz = of_nat ((q + 1) * p)"
    unfolding fncall_align_to_page_def p_def by (metis of_nat_1 of_nat_add of_nat_mult of_nat_unat ucast_id)
  have qp: "q * p \<le> s - 1" "s - 1 < q * p + p" unfolding q_def using p(1) dividend_less_div_times [of p "s - 1"] by (simp_all add: add.commute)
  then have lt: "(q + 1) * p < 2 ^ 32" using p by (simp add: algebra_simps)
  have "unat (fncall_align_to_page pagesize sz) = (q + 1) * p" unfolding w using lt by (simp only: unat_of_nat take_bit_nat_eq_self len_num1 len_bit0) (simp add: take_bit_nat_eq_self)
  moreover have "s \<le> (q + 1) * p" "(q + 1) * p < s + p" using qp p by auto
  ultimately show ?thesis unfolding p_def [symmetric] s_def [symmetric] by simp
qed

text \<open>Witness: 5000 bytes take two pages.\<close>

theorem fncall_align_to_page_least_witness:
  "5000 \<le> unat (fncall_align_to_page 4096 5000) \<and> fncall_align_to_page 4096 5000 = 8192"
  using fncall_align_to_page_least [of 4096 5000] by (simp add: fncall_align_to_page_def)

end
