(* ===== verification/Tracepoint.thy ===== *)
theory Tracepoint
  imports Fncall Template_Arm Injfile
begin

text \<open>
  Tracepoints, \<^verbatim>\<open>tracepoint/tracepoint.c\<close>, on 32-bit ARM: the instructions at the tracepoints of a segment are read and get a
  template, memory for their trampolines is allocated close to the segment, each instruction is replaced by a jump to its
  trampoline or, if that is too far away, by a breakpoint with an entry in the jump table, and all of it is undone when the
  segment is left. The thread carries the memory, the jump table and the segments of its process. The calls in the traced
  process are the record \<open>fncalls\<close>, which \<open>arm_fncalls\<close> gives for \<open>Fncall\<close>; the contents of the templates are generated by
  the build and are a parameter.
\<close>

section \<open>Definitions\<close>

record tracepoint_t =
  tp_address :: u32
  tp_trampoline :: u32
  tp_handler :: u32
  tp_insn :: insn_t
  tp_insn_kind :: insn_kind_t
  tp_template :: arm_template

text \<open>What the tracepoints need of an injection.\<close>

record injection_t =
  injection_address :: u32
  injection_injfile :: injfile_t

type_synonym traced_segment = "(u32, injection_t, tracepoint_t) segment_t"

record 'm fncalls =
  call_mmap :: "'m traced \<Rightarrow> u32 \<Rightarrow> u32 \<Rightarrow> u32 \<Rightarrow> u32 \<Rightarrow> u32 \<Rightarrow> u32 \<Rightarrow> (u32 option \<times> 'm traced) res"
  call_allocate :: "'m traced \<Rightarrow> u32 \<Rightarrow> (u32 option \<times> 'm traced) res"
  call_free :: "'m traced \<Rightarrow> u32 \<Rightarrow> u32 \<Rightarrow> (bool \<times> 'm traced) res"
  call_mprotect :: "'m traced \<Rightarrow> u32 \<Rightarrow> u32 \<Rightarrow> u32 \<Rightarrow> (bool \<times> 'm traced) res"

definition arm_fncalls ::
    "'m hooks \<Rightarrow> ('m, u32) inferior_ops \<Rightarrow> ('m traced \<Rightarrow> u32 \<Rightarrow> bool) \<Rightarrow> nat \<Rightarrow> u32 \<Rightarrow> (bytes \<Rightarrow> int res) \<Rightarrow> u32 \<Rightarrow> u32 \<Rightarrow> 'm fncalls" where
  "arm_fncalls h b executable fuel base symbol pagesize fn =
     \<lparr>call_mmap = fncall_mmap h b executable fuel base symbol pagesize,
      call_allocate = fncall_allocate h b executable fuel base symbol pagesize,
      call_free = fncall_free h b executable fuel base symbol,
      call_mprotect = fncall_call_mprotect h b executable fuel fn\<rparr>"

text \<open>On ARM the trampolines return by themselves.\<close>

definition arm_template_need_return_jump :: "arm_template \<Rightarrow> bool" where
  "arm_template_need_return_jump tm = False"

definition arm_template_iter_return_address :: "tracepoint_t \<Rightarrow> (u32 \<times> u32) list" where
  "arm_template_iter_return_address tp = []"

definition tracepoint_create ::
    "'m hooks \<Rightarrow> ('m, u32) inferior_ops \<Rightarrow> 'm traced \<Rightarrow> u32 \<Rightarrow> u32 \<Rightarrow> (tracepoint_t option \<times> 'm traced) res" where
  "tracepoint_create h b t address handler =
     (let kind = arm_detect_kind_from_unaligned_address address;
          address = address AND NOT 1
      in res_bind (patch_read_insn_detect_kind (thread_mem h b) t address kind) (\<lambda>(r, t).
         case r of
           None \<Rightarrow> Inr (None, t)
         | Some (insn, kind) \<Rightarrow>
             res_bind (template_select insn kind) (\<lambda>sel.
             case sel of
               None \<Rightarrow> Inr (None, t)
             | Some tm \<Rightarrow> Inr (Some \<lparr>tp_address = address, tp_trampoline = 0, tp_handler = handler, tp_insn = insn,
                              tp_insn_kind = kind, tp_template = tm\<rparr>, t))))"

subsection \<open>Removal\<close>

definition trampoline_free :: "'m fncalls \<Rightarrow> 'm traced \<Rightarrow> traced_segment \<Rightarrow> (bool \<times> 'm traced) res" where
  "trampoline_free fc t seg =
     (if trampoline_stolen seg then call_mprotect fc t (trampolines seg) (trampolines_size seg) 0
      else call_free fc t (trampolines seg) (trampolines_size seg))"

definition uninstall_jump :: "(u32, u32) tree_lib \<Rightarrow> u32 \<Rightarrow> 'm traced \<Rightarrow> 'm traced res" where
  "uninstall_jump lib from t =
     (if jump_get (t_jumps t) from \<noteq> 0
      then res_bind (jump_uninstall lib (t_jumps t) from) (\<lambda>js. Inr (t\<lparr>t_jumps := js\<rparr>)) else Inr t)"

fun uninstall_jumps :: "(u32, u32) tree_lib \<Rightarrow> u32 list \<Rightarrow> 'm traced \<Rightarrow> 'm traced res" where
  "uninstall_jumps lib [] t = Inr t"
| "uninstall_jumps lib (a # as) t = res_bind (uninstall_jump lib a t) (uninstall_jumps lib as)"

definition tracepoint_remove ::
    "(u32, u32) tree_lib \<Rightarrow> 'm hooks \<Rightarrow> ('m, u32) inferior_ops \<Rightarrow> bool \<Rightarrow> tracepoint_t \<Rightarrow> 'm traced \<Rightarrow> 'm traced res" where
  "tracepoint_remove lib h b unpatch tp t =
     res_bind (uninstall_jump lib (tp_address tp) t) (\<lambda>t.
     res_bind (if arm_template_need_return_jump (tp_template tp)
               then uninstall_jumps lib (map fst (arm_template_iter_return_address tp)) t else Inr t) (\<lambda>t.
     if unpatch
     then res_bind (mem_patch_insn (thread_mem h b) t (tp_address tp) (tp_insn_kind tp) (tp_insn tp)) (\<lambda>(_, t). Inr t)
     else Inr t))"

text \<open>The loop over the tracepoints; \<open>fuel\<close> bounds the number of iterations.\<close>

fun remove_loop ::
    "(u32, tracepoint_t) tree_lib \<Rightarrow> (u32, u32) tree_lib \<Rightarrow> 'm hooks \<Rightarrow> ('m, u32) inferior_ops \<Rightarrow> bool \<Rightarrow> nat
     \<Rightarrow> (u32, tracepoint_t) tree_t \<Rightarrow> 'm traced \<Rightarrow> 'm traced res" where
  "remove_loop tlib lib h b unpatch fuel tps t =
     (case tree_pop tlib tps of
        (None, _) \<Rightarrow> Inr t
      | (Some tp, tps) \<Rightarrow>
          (case fuel of
             0 \<Rightarrow> Inl Diverges
           | Suc n \<Rightarrow> res_bind (tracepoint_remove lib h b unpatch tp t) (remove_loop tlib lib h b unpatch n tps)))"

declare remove_loop.simps [simp del]

definition tracepoints_cleanup ::
    "(u32, tracepoint_t) tree_lib \<Rightarrow> (u32, u32) tree_lib \<Rightarrow> 'm hooks \<Rightarrow> ('m, u32) inferior_ops \<Rightarrow> 'm fncalls \<Rightarrow> nat \<Rightarrow> 'm traced
     \<Rightarrow> traced_segment \<Rightarrow> bool \<Rightarrow> bool \<Rightarrow> (traced_segment \<times> 'm traced) res" where
  "tracepoints_cleanup tlib lib h b fc fuel t seg unpatch free_trampolines =
     res_bind (if free_trampolines \<and> trampolines seg \<noteq> 0 then res_bind (trampoline_free fc t seg) (\<lambda>(_, t). Inr t) else Inr t) (\<lambda>t.
     res_bind (remove_loop tlib lib h b unpatch fuel (tracepoints seg) t) (\<lambda>t.
     Inr (seg\<lparr>tracepoints := Leaf, trampolines := 0, trampolines_size := 0\<rparr>, t)))"

definition tracepoints_reset where
  "tracepoints_reset tlib lib h b fc fuel t seg = tracepoints_cleanup tlib lib h b fc fuel t seg False False"

definition tracepoints_detach where
  "tracepoints_detach tlib lib h b fc fuel t seg = tracepoints_cleanup tlib lib h b fc fuel t seg True True"

definition tracepoints_gone where
  "tracepoints_gone tlib lib h b fc fuel t seg = tracepoints_cleanup tlib lib h b fc fuel t seg False True"

subsection \<open>Memory for the trampolines\<close>

definition segment_is_unused :: "('a, 'i, 't) segment_t \<Rightarrow> bool" where
  "segment_is_unused s \<longleftrightarrow> \<not> segment_is_readable s \<and> \<not> segment_is_writeable s \<and> \<not> segment_is_executable s \<and> \<not> segment_is_shared s
     \<and> filename s = None"

text \<open>\<^verbatim>\<open>PROT_READ | PROT_WRITE | PROT_EXEC\<close> and \<^verbatim>\<open>MAP_FIXED | MAP_PRIVATE | MAP_ANONYMOUS\<close>.\<close>

definition trampoline_mmap :: "'m fncalls \<Rightarrow> 'm traced \<Rightarrow> u32 \<Rightarrow> u32 \<Rightarrow> (u32 option \<times> 'm traced) res" where
  "trampoline_mmap fc t address sz = call_mmap fc t address sz 0x7 0x32 0xffffffff 0"

text \<open>
  The search goes down from the segment by \<open>beoff\<close> and up by \<open>aboff\<close>, the closer side first, as long as a jump reaches.
  Each free area and each unused segment is given to the callback \<open>fn\<close>, which changes the state \<open>s\<close> and may end the search.
  \<open>fuel\<close> bounds the rounds of all loops.
\<close>

record search =
  beoff :: u32
  aboff :: u32
  be_reach :: bool
  ab_reach :: bool

fun grow_below ::
    "(u32, unit, unit) segments \<Rightarrow> u32 \<Rightarrow> u32 \<Rightarrow> u32 \<Rightarrow> u32 \<Rightarrow> nat \<Rightarrow> u32 \<Rightarrow> u32 \<Rightarrow> search \<Rightarrow> (u32 \<times> u32 \<times> search) res" where
  "grow_below segs hi addr pgsize max_size 0 sz seg_start sc = Inl Diverges"
| "grow_below segs hi addr pgsize max_size (Suc n) sz seg_start sc =
     (if sz < max_size \<and> be_reach sc \<and> segment_get segs (addr - beoff sc) = None
      then let sc = sc\<lparr>beoff := beoff sc + pgsize\<rparr>
           in grow_below segs hi addr pgsize max_size n (sz + pgsize) (seg_start - pgsize)
                (sc\<lparr>be_reach := arch_check_relative_jump hi (addr - beoff sc)\<rparr>)
      else Inr (sz, seg_start, sc))"

text \<open>The upward loop tests \<^verbatim>\<open>addr - aboff\<close>, where \<^verbatim>\<open>addr + aboff\<close> is meant.\<close>

fun grow_above ::
    "(u32, unit, unit) segments \<Rightarrow> u32 \<Rightarrow> u32 \<Rightarrow> u32 \<Rightarrow> u32 \<Rightarrow> nat \<Rightarrow> u32 \<Rightarrow> search \<Rightarrow> (u32 \<times> search) res" where
  "grow_above segs low addr pgsize max_size 0 sz sc = Inl Diverges"
| "grow_above segs low addr pgsize max_size (Suc n) sz sc =
     (if sz < max_size \<and> ab_reach sc \<and> segment_get segs (addr - aboff sc) = None
      then let sc = sc\<lparr>aboff := aboff sc + pgsize\<rparr>
           in grow_above segs low addr pgsize max_size n (sz + pgsize)
                (sc\<lparr>ab_reach := arch_check_relative_jump low (addr - aboff sc + pgsize)\<rparr>)
      else Inr (sz, sc))"

type_synonym 's search_fn = "'s \<Rightarrow> u32 \<Rightarrow> u32 \<Rightarrow> (u32, unit, unit) segment_t option \<Rightarrow> (bool \<times> 's) res"

definition round_below ::
    "(u32, unit, unit) segments \<Rightarrow> u32 \<Rightarrow> u32 \<Rightarrow> u32 \<Rightarrow> u32 \<Rightarrow> nat \<Rightarrow> 's search_fn \<Rightarrow> search \<Rightarrow> 's \<Rightarrow> (bool \<times> search \<times> 's) res" where
  "round_below segs hi addr pgsize max_size fuel fn sc s =
     (case segment_get segs (addr - beoff sc) of
        None \<Rightarrow>
          (let seg_start = addr - beoff sc;
               sc = sc\<lparr>beoff := beoff sc + pgsize\<rparr>;
               sc = sc\<lparr>be_reach := arch_check_relative_jump hi (addr - beoff sc)\<rparr>
           in res_bind (grow_below segs hi addr pgsize max_size fuel pgsize seg_start sc) (\<lambda>(sz, seg_start, sc).
              res_bind (fn s seg_start sz None) (\<lambda>(r, s). Inr (r, sc, s))))
      | Some seg \<Rightarrow>
          res_bind (if segment_is_unused seg \<and> arch_check_relative_jump hi (start seg) then fn s 0 0 (Some seg) else Inr (False, s)) (\<lambda>(r, s).
          let sc = sc\<lparr>beoff := beoff sc + (seg_end seg - start seg)\<rparr>
          in Inr (r, sc\<lparr>be_reach := arch_check_relative_jump hi (addr - beoff sc)\<rparr>, s)))"

definition round_above ::
    "(u32, unit, unit) segments \<Rightarrow> u32 \<Rightarrow> u32 \<Rightarrow> u32 \<Rightarrow> u32 \<Rightarrow> nat \<Rightarrow> 's search_fn \<Rightarrow> search \<Rightarrow> 's \<Rightarrow> (bool \<times> search \<times> 's) res" where
  "round_above segs low addr pgsize max_size fuel fn sc s =
     (case segment_get segs (addr + aboff sc) of
        None \<Rightarrow>
          (let seg_start = addr + aboff sc;
               sc = sc\<lparr>aboff := aboff sc + pgsize\<rparr>;
               sc = sc\<lparr>ab_reach := arch_check_relative_jump low (addr + aboff sc + pgsize)\<rparr>
           in res_bind (grow_above segs low addr pgsize max_size fuel pgsize sc) (\<lambda>(sz, sc).
              res_bind (fn s seg_start sz None) (\<lambda>(r, s). Inr (r, sc, s))))
      | Some seg \<Rightarrow>
          res_bind (if segment_is_unused seg \<and> arch_check_relative_jump low (seg_end seg) then fn s 0 0 (Some seg) else Inr (False, s)) (\<lambda>(r, s).
          let sc = sc\<lparr>aboff := aboff sc + (seg_end seg - start seg)\<rparr>
          in Inr (r, sc\<lparr>ab_reach := arch_check_relative_jump low (addr + aboff sc)\<rparr>, s)))"

text \<open>The two inner loops, alternating until neither side can be reached.\<close>

fun search_loop ::
    "bool \<Rightarrow> (u32, unit, unit) segments \<Rightarrow> u32 \<Rightarrow> u32 \<Rightarrow> u32 \<Rightarrow> u32 \<Rightarrow> u32 \<Rightarrow> nat \<Rightarrow> 's search_fn \<Rightarrow> search \<Rightarrow> 's \<Rightarrow> (bool \<times> 's) res" where
  "search_loop down segs low hi addr pgsize max_size 0 fn sc s = Inl Diverges"
| "search_loop down segs low hi addr pgsize max_size (Suc n) fn sc s =
     (if down then
        (if be_reach sc \<and> (beoff sc \<le> aboff sc \<or> \<not> ab_reach sc) then
           res_bind (round_below segs hi addr pgsize max_size n fn sc s) (\<lambda>(r, sc, s).
           if r then Inr (True, s) else search_loop True segs low hi addr pgsize max_size n fn sc s)
         else if be_reach sc \<or> ab_reach sc then search_loop False segs low hi addr pgsize max_size n fn sc s
         else Inr (False, s))
      else
        (if ab_reach sc \<and> (aboff sc \<le> beoff sc \<or> \<not> be_reach sc) then
           res_bind (round_above segs low addr pgsize max_size n fn sc s) (\<lambda>(r, sc, s).
           if r then Inr (True, s) else search_loop False segs low hi addr pgsize max_size n fn sc s)
         else search_loop True segs low hi addr pgsize max_size n fn sc s))"

definition tracepoint_iter_free_segments_around ::
    "(u32, unit, unit) segments \<Rightarrow> u32 \<Rightarrow> u32 \<Rightarrow> u32 \<Rightarrow> u32 \<Rightarrow> u32 \<Rightarrow> u32 \<Rightarrow> nat \<Rightarrow> 's search_fn \<Rightarrow> 's \<Rightarrow> (bool \<times> 's) res" where
  "tracepoint_iter_free_segments_around segs seg_start seg_stop pagesize low hi max_size fuel fn s =
     (let pgsize = fncall_align_to_page pagesize 1;
          addr = fncall_align_to_page pagesize (low + (hi - low) div 2) - pgsize;
          be = addr - seg_start + pgsize;
          ab = seg_stop - addr
      in search_loop True segs low hi addr pgsize max_size fuel fn
           \<lparr>beoff = be, aboff = ab, be_reach = arch_check_relative_jump hi (addr - be),
            ab_reach = arch_check_relative_jump low (addr + ab + pgsize)\<rparr> s)"

definition find_coherent :: "'m fncalls \<Rightarrow> u32 \<Rightarrow> (traced_segment \<times> 'm traced) search_fn" where
  "find_coherent fc sz = (\<lambda>(seg, t) area area_size found.
     case found of
       Some f \<Rightarrow>
         if seg_end f - start f \<ge> sz then
           res_bind (trampoline_mmap fc t (start f) sz) (\<lambda>(r, t).
           case r of Some a \<Rightarrow> Inr (True, seg\<lparr>trampolines := a, trampoline_stolen := True\<rparr>, t) | None \<Rightarrow> Inr (False, seg, t))
         else if sz \<le> area_size then
           res_bind (trampoline_mmap fc t area sz) (\<lambda>(r, t).
           case r of Some a \<Rightarrow> Inr (True, seg\<lparr>trampolines := a\<rparr>, t) | None \<Rightarrow> Inr (False, seg, t))
         else Inr (False, seg, t)
     | None \<Rightarrow>
         if sz \<le> area_size then
           res_bind (trampoline_mmap fc t area sz) (\<lambda>(r, t).
           case r of Some a \<Rightarrow> Inr (True, seg\<lparr>trampolines := a\<rparr>, t) | None \<Rightarrow> Inr (False, seg, t))
         else Inr (False, seg, t))"

definition allocate_trampoline ::
    "'m fncalls \<Rightarrow> u32 \<Rightarrow> nat \<Rightarrow> 'm traced \<Rightarrow> traced_segment \<Rightarrow> (bool \<times> traced_segment \<times> 'm traced) res" where
  "allocate_trampoline fc pagesize fuel t seg =
     (let addrs = map tp_address (tree_vals (tracepoints seg));
          low = foldl min (seg_end seg) addrs;
          hi = foldl max (start seg) addrs;
          sz = fncall_align_to_page pagesize (trampolines_size seg)
      in res_bind (tracepoint_iter_free_segments_around (t_segments t) (start seg) (seg_end seg) pagesize low hi sz fuel
           (find_coherent fc sz) (seg, t)) (\<lambda>(found, seg, t).
         if found then Inr (True, seg, t)
         else res_bind (call_allocate fc t (trampolines_size seg)) (\<lambda>(r, t).
              case r of Some a \<Rightarrow> Inr (True, seg\<lparr>trampolines := a\<rparr>, t) | None \<Rightarrow> Inr (False, seg, t))))"

subsection \<open>Installation\<close>

fun create_loop ::
    "(u32, tracepoint_t) tree_lib \<Rightarrow> (arm_template \<Rightarrow> arm_field_id template_t) \<Rightarrow> 'm hooks \<Rightarrow> ('m, u32) inferior_ops \<Rightarrow> u32
     \<Rightarrow> (u32 \<times> int) list \<Rightarrow> traced_segment \<Rightarrow> 'm traced \<Rightarrow> (traced_segment \<times> 'm traced) res" where
  "create_loop tlib templates h b base [] seg t = Inr (seg, t)"
| "create_loop tlib templates h b base ((addr, handler_fn) # tps) seg t =
     res_bind (segment_fo2addr seg addr) (\<lambda>rt_addr.
     if rt_addr = 0 then create_loop tlib templates h b base tps seg t
     else res_bind (tracepoint_create h b t rt_addr (base + of_int handler_fn)) (\<lambda>(r, t).
          case r of
            None \<Rightarrow> create_loop tlib templates h b base tps seg t
          | Some tp \<Rightarrow>
              res_bind (tree_insert tlib (tracepoints seg) rt_addr (tp\<lparr>tp_trampoline := trampolines_size seg\<rparr>)) (\<lambda>ts.
              create_loop tlib templates h b base tps
                (seg\<lparr>tracepoints := ts,
                     trampolines_size := trampolines_size seg + of_nat (length (bindata (templates (tp_template tp))))\<rparr>) t)))"

text \<open>The jump at the traced instruction.\<close>

definition install_jump ::
    "(u32, u32) tree_lib \<Rightarrow> 'm hooks \<Rightarrow> ('m, u32) inferior_ops \<Rightarrow> tracepoint_t \<Rightarrow> 'm traced \<Rightarrow> 'm traced res" where
  "install_jump lib h b tp t =
     (if arm_check_relative_jump_kind (tp_insn_kind tp) (tp_address tp) (tp_trampoline tp)
      then patch_relative_jump (thread_mem h b) t (tp_address tp) (tp_trampoline tp) (tp_insn_kind tp)
      else res_bind (patch_breakpoint (thread_mem h b) t (tp_address tp) (tp_insn_kind tp)) (\<lambda>t.
           res_bind (jump_install lib (t_jumps t) (tp_address tp) (tp_trampoline tp)) (\<lambda>js. Inr (t\<lparr>t_jumps := js\<rparr>))))"

text \<open>\<open>False\<close> if the trampoline could not be written. \<^verbatim>\<open>assert(!thread->process->mode32)\<close> is the fault for a return jump.\<close>

definition tracepoint_install ::
    "(arm_template \<Rightarrow> arm_field_id template_t) \<Rightarrow> (u32, u32) tree_lib \<Rightarrow> 'm hooks \<Rightarrow> ('m, u32) inferior_ops \<Rightarrow> tracepoint_t \<Rightarrow> 'm traced
     \<Rightarrow> (bool \<times> 'm traced) res" where
  "tracepoint_install templates lib h b tp t =
     res_bind (install_jump lib h b tp t) (\<lambda>t.
     res_bind (template_get_handler (templates (tp_template tp)) (tp_address tp) (tp_handler tp) (tp_insn tp) (tp_insn_kind tp)) (\<lambda>code.
     if arm_template_need_return_jump (tp_template tp) then Inl Assertion
     else res_bind (mem_write (thread_mem h b) t (tp_trampoline tp) code) (\<lambda>(n, t). Inr (n = length code, t))))"

fun install_loop ::
    "(arm_template \<Rightarrow> arm_field_id template_t) \<Rightarrow> (u32, u32) tree_lib \<Rightarrow> 'm hooks \<Rightarrow> ('m, u32) inferior_ops
     \<Rightarrow> (u32 \<times> tracepoint_t) list \<Rightarrow> traced_segment \<Rightarrow> 'm traced \<Rightarrow> (bool \<times> traced_segment \<times> 'm traced) res" where
  "install_loop templates lib h b [] seg t = Inr (True, seg, t)"
| "install_loop templates lib h b ((key, tp) # es) seg t =
     (let tp = tp\<lparr>tp_trampoline := tp_trampoline tp + trampolines seg\<rparr>
      in res_bind (tree_update (tracepoints seg) key tp) (\<lambda>ts.
         let seg = seg\<lparr>tracepoints := ts\<rparr>
         in res_bind (tracepoint_install templates lib h b tp t) (\<lambda>(ok, t).
            if ok then install_loop templates lib h b es seg t else Inr (False, seg, t))))"

definition tracepoints_init ::
    "(u32, tracepoint_t) tree_lib \<Rightarrow> (u32, u32) tree_lib \<Rightarrow> (arm_template \<Rightarrow> arm_field_id template_t) \<Rightarrow> 'm hooks \<Rightarrow> ('m, u32) inferior_ops
     \<Rightarrow> 'm fncalls \<Rightarrow> u32 \<Rightarrow> nat \<Rightarrow> 'm traced \<Rightarrow> traced_segment \<Rightarrow> (traced_segment \<times> 'm traced) res" where
  "tracepoints_init tlib lib templates h b fc pagesize fuel t seg =
     (case injection seg of
        None \<Rightarrow> Inr (seg, t)
      | Some i \<Rightarrow>
          if inj_tpoints (injection_injfile i) = None then Inr (seg, t)
          else res_bind (injfile_iter_tpoints (injection_injfile i)) (\<lambda>tps.
               res_bind (create_loop tlib templates h b (injection_address i) tps (seg\<lparr>trampolines_size := 0\<rparr>) t) (\<lambda>(seg, t).
               if tree_empty (tracepoints seg) then Inr (seg, t)
               else res_bind (allocate_trampoline fc pagesize fuel t seg) (\<lambda>(ok, seg, t).
                    if \<not> ok then tracepoints_cleanup tlib lib h b fc fuel t (seg\<lparr>trampolines := 0\<rparr>) True True
                    else res_bind (install_loop templates lib h b (map entry (tree_iter (tracepoints seg))) seg t) (\<lambda>(ok, seg, t).
                         if ok then Inr (seg, t) else tracepoints_cleanup tlib lib h b fc fuel t seg True True)))))"

end
