(* ===== verification/Tracepoint_Correct.thy ===== *)
theory Tracepoint_Correct
  imports Tracepoint
begin

text \<open>
  What the tracepoints do to the code of a segment: the original instructions are read faithfully, after the installation every
  traced instruction leads to its trampoline, and the removal of the tracepoints restores the code and the jump table.
\<close>

section \<open>Writing the memory of the thread\<close>

text \<open>\<open>Q\<close> holds of the thread as long as the server works on it: it is stopped and its memory can be written in the region \<open>R\<close>.\<close>

definition traced_ok :: "'m hooks \<Rightarrow> ('m, u32) inferior_ops \<Rightarrow> u32 set \<Rightarrow> ('m traced \<Rightarrow> bool) \<Rightarrow> bool" where
  "traced_ok h b R Q \<longleftrightarrow> writable_in (thread_mem h b) R Q \<and> (\<forall>t. Q t \<longrightarrow> halted t) \<and> (\<forall>t js. Q t \<longrightarrow> Q (t\<lparr>t_jumps := js\<rparr>))"

definition steady :: "('m, u32) inferior_ops \<Rightarrow> u32 set \<Rightarrow> 'm traced \<Rightarrow> bool" where
  "steady b R t \<longleftrightarrow> halted t \<and> can_write b R (t_mem t)"

lemma steady_traced: "traced_ok h b R (steady b R)"
proof -
  have "writable_in (thread_mem h b) R (steady b R)"
    unfolding writable_in_def
  proof (intro allI impI ballI conjI)
    fix t a assume s: "steady b R t" and a: "a \<in> R"
    then have t: "halted t" "can_write b R (t_mem t)" by (simp_all add: steady_def)
    show "ptrace_mem_read (thread_mem h b) t (a AND NOT 3) \<noteq> None"
      using writable_in_write(1) [OF can_write_writable t(2) a refl] t(1) by (auto simp: thread_mem_def halted_def)
    fix v
    obtain m where "ptrace_mem_write b (t_mem t) (a AND NOT 3) v = Some m" "can_write b R m"
      using writable_in_write(2) [OF can_write_writable t(2) a refl] by blast
    then show "\<exists>t'. ptrace_mem_write (thread_mem h b) t (a AND NOT 3) v = Some t' \<and> steady b R t'"
      using t(1) by (intro exI [of _ "t\<lparr>t_mem := m\<rparr>"]) (simp add: thread_mem_def halted_def steady_def)
  qed
  then show ?thesis by (simp add: traced_ok_def steady_def halted_def)
qed

lemma traced_alive: "traced_ok h b R Q \<Longrightarrow> Q t \<Longrightarrow> \<not> thread_dead (thread_mem h b) t"
  by (auto simp: traced_ok_def halted_def thread_mem_def)

lemma traced_write:
  assumes "inferior b contents" "traced_ok h b R Q" "Q t" "unat a + length data < 2 ^ 32" "span a (length data) \<subseteq> R"
  shows "\<exists>t'. mem_write (thread_mem h b) t a data = Inr (length data, t') \<and> Q t' \<and> t_jumps t' = t_jumps t
    \<and> wrote (contents (t_mem t)) (contents (t_mem t')) a data 0 0 (length data)"
proof (cases "data = []")
  case True
  then show ?thesis using traced_alive [OF assms(2,3)] assms(3) by (auto simp: mem_write_def)
next
  case False
  let ?Q = "\<lambda>u. Q u \<and> t_jumps u = t_jumps t"
  have jumps: "ptrace_mem_write (thread_mem h b) u x v = Some u' \<Longrightarrow> t_jumps u' = t_jumps u" for u x v u'
    by (auto simp: thread_mem_def split: if_splits)
  have "writable_in (thread_mem h b) R Q" using assms(2) by (simp add: traced_ok_def)
  then have aw: "writable_in (thread_mem h b) R ?Q"
    unfolding writable_in_def using jumps by metis
  have a: "unat a + length data < 2 ^ LENGTH(32)" "unat a mod 4 + length data < 2 ^ 32"
    using assms(4) mod_less_eq_dividend [of "unat a" 4] by (simp_all del: mod_less_eq_dividend)
  obtain n t' where w: "mem_write (thread_mem h b) t a data = Inr (n, if n < length data then check_alive (thread_mem h b) t' else t')"
      "wrote (contents (t_mem t)) (contents (t_mem t')) a data 0 0 n"
      "\<forall>R P. writable_in (thread_mem h b) R P \<longrightarrow> span a (length data) \<subseteq> R \<longrightarrow> P t \<longrightarrow> n = length data \<and> P t'"
    using inferior.mem_write_full [OF thread_mem_inferior [OF assms(1), of h] traced_alive [OF assms(2,3)] False a] by blast
  then have "n = length data \<and> ?Q t'" using aw assms(3,5) by blast
  then show ?thesis using w(1,2) by auto
qed

lemma traced_patch:
  assumes "inferior b contents" "traced_ok h b R Q" "Q t" "unat a + 4 < 2 ^ 32"
    and "arm_check_align a kind" "patch_check_insn kind insn = Inr True" "insn_range a kind \<subseteq> R"
  shows "\<exists>t'. mem_patch_insn (thread_mem h b) t a kind insn = Inr (True, t') \<and> Q t' \<and> t_jumps t' = t_jumps t
    \<and> patched (contents (t_mem t)) (contents (t_mem t')) a kind insn"
proof -
  let ?d = "insn_bytes kind insn"
  have "unat a + length ?d < 2 ^ 32" "span a (length ?d) \<subseteq> R"
    using assms(4,7) insn_bytes_length [of kind insn] by (simp_all add: insn_range_def length_insn_bytes)
  then obtain t' where w: "mem_write (thread_mem h b) t a ?d = Inr (length ?d, t')" "Q t'" "t_jumps t' = t_jumps t"
      "wrote (contents (t_mem t)) (contents (t_mem t')) a ?d 0 0 (length ?d)"
    using traced_write [OF assms(1-3)] by blast
  have "insn_at (contents (t_mem t')) a kind insn"
    using w(4) assms(5,6) by (simp add: insn_at_def wrote_def in_range_def)
  moreover have "contents (t_mem t') x = contents (t_mem t) x" if "x \<notin> insn_range a kind" for x
    using w(4) that by (auto simp: wrote_def in_range_def insn_range_def span_def length_insn_bytes)
  ultimately show ?thesis using w(1-3) assms(5,6) by (simp add: mem_patch_insn_def patched_def)
qed

section \<open>Removal\<close>

definition tp_ok :: "(u32 \<Rightarrow> u8 option) \<Rightarrow> tracepoint_t \<Rightarrow> bool" where
  "tp_ok c tp \<longleftrightarrow> insn_at c (tp_address tp) (tp_insn_kind tp) (tp_insn tp) \<and> unat (tp_address tp) + 4 < 2 ^ 32"

definition tp_range :: "tracepoint_t \<Rightarrow> u32 set" where
  "tp_range tp = insn_range (tp_address tp) (tp_insn_kind tp)"

text \<open>The table of jumps without those at the given addresses.\<close>

definition without_jumps :: "u32 set \<Rightarrow> (u32 \<Rightarrow> u32 option) \<Rightarrow> u32 \<Rightarrow> u32 option" where
  "without_jumps A js = (\<lambda>a. if a \<in> A \<and> js a \<noteq> Some 0 then None else js a)"

lemma uninstall_jump_spec:
  assumes "tree_library lib" "tree_ok (t_jumps t)"
  shows "\<exists>js. uninstall_jump lib a t = Inr (t\<lparr>t_jumps := js\<rparr>) \<and> tree_ok js \<and> tree_map js = without_jumps {a} (tree_map (t_jumps t))"
proof (cases "jump_get (t_jumps t) a = 0")
  case True
  then have "without_jumps {a} (tree_map (t_jumps t)) = tree_map (t_jumps t)"
    using assms(2) by (auto simp: without_jumps_def jump_get_def tree_get_map split: option.splits)
  then show ?thesis using True assms(2) by (intro exI [of _ "t_jumps t"]) (simp add: uninstall_jump_def)
next
  case False
  then have m: "tree_map (t_jumps t) a \<noteq> None" "tree_map (t_jumps t) a \<noteq> Some 0"
    using assms(2) by (auto simp: jump_get_def tree_get_map split: option.splits)
  obtain js where "tree_remove lib (t_jumps t) a = Inr js" "tree_ok js" "tree_map js = (tree_map (t_jumps t))(a := None)"
    using tree_library.remove_spec [OF assms(1,2) m(1)] by blast
  then show ?thesis using False m(2)
    by (intro exI [of _ js]) (auto simp: uninstall_jump_def jump_uninstall_def without_jumps_def fun_eq_iff)
qed

lemma tracepoint_remove_spec:
  assumes "inferior b contents" "traced_ok h b R Q" "tree_library lib" "Q t" "tree_ok (t_jumps t)" "tp_ok orig tp" "tp_range tp \<subseteq> R"
  shows "\<exists>t'. tracepoint_remove lib h b True tp t = Inr t' \<and> Q t' \<and> tree_ok (t_jumps t')
    \<and> tree_map (t_jumps t') = without_jumps {tp_address tp} (tree_map (t_jumps t))
    \<and> (\<forall>x. contents (t_mem t') x = (if x \<in> tp_range tp then orig x else contents (t_mem t) x))"
proof -
  obtain js where js: "uninstall_jump lib (tp_address tp) t = Inr (t\<lparr>t_jumps := js\<rparr>)" "tree_ok js"
      "tree_map js = without_jumps {tp_address tp} (tree_map (t_jumps t))"
    using uninstall_jump_spec [OF assms(3,5)] by blast
  have q: "Q (t\<lparr>t_jumps := js\<rparr>)" using assms(2,4) by (simp add: traced_ok_def)
  have ok: "arm_check_align (tp_address tp) (tp_insn_kind tp)" "patch_check_insn (tp_insn_kind tp) (tp_insn tp) = Inr True"
    "unat (tp_address tp) + 4 < 2 ^ 32" "insn_at orig (tp_address tp) (tp_insn_kind tp) (tp_insn tp)"
    using assms(6) by (auto simp: tp_ok_def insn_at_def)
  obtain t' where t': "mem_patch_insn (thread_mem h b) (t\<lparr>t_jumps := js\<rparr>) (tp_address tp) (tp_insn_kind tp) (tp_insn tp) = Inr (True, t')"
      "Q t'" "t_jumps t' = js" "patched (contents (t_mem t)) (contents (t_mem t')) (tp_address tp) (tp_insn_kind tp) (tp_insn tp)"
    using traced_patch [OF assms(1,2) q ok(3,1,2) assms(7) [unfolded tp_range_def]] by auto
  have "contents (t_mem t') x = (if x \<in> tp_range tp then orig x else contents (t_mem t) x)" for x
    using t'(4) insn_at_agree [OF _ ok(4)] by (auto simp: patched_def tp_range_def)
  then show ?thesis using js t' by (simp add: tracepoint_remove_def arm_template_need_return_jump_def)
qed

lemma pop_vals:
  assumes "tree_library tlib" "tree_ok tps" "tree_pop tlib tps = (Some tp, tps')"
  shows "tree_ok tps'" "set (tree_vals tps) = insert tp (set (tree_vals tps'))" "size tps' < size tps"
proof -
  obtain k where k: "tree_map tps k = Some tp" "tree_ok tps'" "tree_map tps' = (tree_map tps)(k := None)"
    using tree_library.pop_spec [OF assms(1,2)] assms(3) by auto
  show "tree_ok tps'" by fact
  show "size tps' < size tps" using tree_map_size [OF k(2) assms(2) k(1,3)] .
  show "set (tree_vals tps) = insert tp (set (tree_vals tps'))"
  proof (rule set_eqI)
    fix v
    show "v \<in> set (tree_vals tps) \<longleftrightarrow> v \<in> insert tp (set (tree_vals tps'))"
      using k(1,3) unfolding insert_iff tree_vals_map [OF assms(2)] tree_vals_map [OF k(2)] by (auto split: if_splits) (metis option.inject)
  qed
qed

lemma remove_loop_restores:
  assumes "inferior b contents" "traced_ok h b R Q" "tree_library lib" "tree_library tlib"
    and "tree_ok tps" "Q t" "tree_ok (t_jumps t)" "\<forall>tp \<in> set (tree_vals tps). tp_ok orig tp \<and> tp_range tp \<subseteq> R"
    and "\<forall>x \<in> C. (\<forall>tp \<in> set (tree_vals tps). x \<notin> tp_range tp) \<longrightarrow> contents (t_mem t) x = orig x"
  shows "(size tps \<le> fuel \<longrightarrow> no_fault (remove_loop tlib lib h b True fuel tps t))
    \<and> (\<forall>t'. remove_loop tlib lib h b True fuel tps t = Inr t' \<longrightarrow> Q t' \<and> tree_ok (t_jumps t')
       \<and> (\<forall>x \<in> C. contents (t_mem t') x = orig x)
       \<and> tree_map (t_jumps t') = without_jumps (tp_address ` set (tree_vals tps)) (tree_map (t_jumps t)))"
  using assms(5-)
proof (induction fuel arbitrary: tps t)
  case 0
  show ?case
  proof (cases tps)
    case Leaf
    then show ?thesis using 0 by (auto simp: remove_loop.simps tree_pop_def tree_vals_inorder without_jumps_def)
  next
    case (Node l e r)
    then show ?thesis by (cases e) (simp add: remove_loop.simps tree_pop_def)
  qed
next
  case (Suc n)
  show ?case
  proof (cases "tree_pop tlib tps")
    case (Pair r tps')
    show ?thesis
    proof (cases r)
      case None
      then have "tps = Leaf" using tree_library.pop_spec [OF assms(4) Suc.prems(1)] Pair by simp
      then show ?thesis using Suc.prems by (auto simp: remove_loop.simps tree_pop_def tree_vals_inorder without_jumps_def)
    next
      case (Some tp)
      note pv = pop_vals [OF assms(4) Suc.prems(1) Pair [unfolded Some]]
      obtain t1 where t1: "tracepoint_remove lib h b True tp t = Inr t1" "Q t1" "tree_ok (t_jumps t1)"
          "tree_map (t_jumps t1) = without_jumps {tp_address tp} (tree_map (t_jumps t))"
          "\<forall>x. contents (t_mem t1) x = (if x \<in> tp_range tp then orig x else contents (t_mem t) x)"
        using tracepoint_remove_spec [OF assms(1-3) Suc.prems(2,3), of orig tp] Suc.prems(4) pv(2) by auto
      have run: "remove_loop tlib lib h b True (Suc n) tps t = remove_loop tlib lib h b True n tps' t1"
        using Pair Some t1(1) by (simp add: remove_loop.simps)
      have pre: "\<forall>tp \<in> set (tree_vals tps'). tp_ok orig tp \<and> tp_range tp \<subseteq> R"
          "\<forall>x \<in> C. (\<forall>tp \<in> set (tree_vals tps'). x \<notin> tp_range tp) \<longrightarrow> contents (t_mem t1) x = orig x"
        using Suc.prems(4,5) pv(2) t1(5) by auto
      have wj: "without_jumps (tp_address ` set (tree_vals tps')) (tree_map (t_jumps t1))
          = without_jumps (tp_address ` set (tree_vals tps)) (tree_map (t_jumps t))"
        unfolding t1(4) pv(2) by (rule ext) (auto simp: without_jumps_def)
      have sz: "size tps \<le> Suc n \<Longrightarrow> size tps' \<le> n" using pv(3) by simp
      show ?thesis using Suc.IH [OF pv(1) t1(2,3) pre] sz unfolding run wj by blast
    qed
  qed
qed

section \<open>Creation\<close>

lemma unat_lt32: "unat (w :: u32) < 2 ^ 32"
proof -
  have "unat w < 2 ^ LENGTH(32)" by (rule unsigned_less)
  then show ?thesis by simp
qed

lemma unat_add_nat: "unat (a :: u32) + n < 2 ^ 32 \<Longrightarrow> unat (a + of_nat n) = unat a + n"
  by (simp add: unat_word_ariths unat_of_nat take_bit_nat_eq_self)

lemma insert_vals:
  assumes "tree_library tlib" "tree_ok ts" "tree_insert tlib ts k v = Inr ts'"
  shows "tree_ok ts'" "set (tree_vals ts') = insert v (set (tree_vals ts))" "tree_map ts' = (tree_map ts)(k \<mapsto> v)"
proof -
  have n: "tree_map ts k = None" using tree_library.insert_duplicate [OF assms(1,2), of k v] assms(3) by (cases "tree_map ts k") auto
  then have r: "tree_ok ts' \<and> tree_map ts' = (tree_map ts)(k \<mapsto> v)"
    using tree_library.insert_spec [OF assms(1,2) n, of v] assms(3) by auto
  then show ok: "tree_ok ts'" and m: "tree_map ts' = (tree_map ts)(k \<mapsto> v)" by auto
  show "set (tree_vals ts') = insert v (set (tree_vals ts))"
  proof (rule set_eqI)
    fix w show "w \<in> set (tree_vals ts') \<longleftrightarrow> w \<in> insert v (set (tree_vals ts))"
      unfolding insert_iff tree_vals_map [OF ok] tree_vals_map [OF assms(2)] m using n by auto (metis option.distinct(1))
  qed
qed

lemma segment_fo2addr_bound:
  assumes "segment_fo2addr seg ofs = Inr a" "a \<noteq> 0"
  shows "start seg \<le> a \<and> a < seg_end seg"
  using assms by (auto simp: segment_fo2addr_def Let_def split: if_splits)

lemma tracepoint_create_spec:
  assumes "inferior b contents" "halted t" "unat rt_addr + 4 < 2 ^ 32" "\<forall>x \<in> span (rt_addr AND NOT 1) 4. contents (t_mem t) x \<noteq> None"
    and "tracepoint_create h b t rt_addr handler = Inr (r, t')"
  shows "t' = t \<and> (\<forall>tp. r = Some tp \<longrightarrow> tp_ok (contents (t_mem t)) tp \<and> tp_address tp = rt_addr AND NOT 1)"
proof -
  let ?a = "rt_addr AND NOT 1"
  obtain r1 t1 where p: "patch_read_insn_detect_kind (thread_mem h b) t ?a (arm_detect_kind_from_unaligned_address rt_addr) = Inr (r1, t1)"
    using assms(5) by (auto simp: tracepoint_create_def Let_def res_bind_eq_Inr)
  have "t1 = t \<and> (\<exists>insn k. r1 = Some (insn, k) \<and> insn_at (contents (t_mem t)) ?a k insn)"
    by (rule patch_read_insn_at [OF thread_mem_inferior [OF assms(1)] _ assms(4) p])
      (use assms(2) in \<open>simp add: thread_mem_def halted_def\<close>)
  then obtain insn k where i: "t1 = t" "r1 = Some (insn, k)" "insn_at (contents (t_mem t)) ?a k insn" by blast
  have "?a \<le> rt_addr" by (rule word_and_le2)
  then have bound: "unat ?a + 4 < 2 ^ 32" using assms(3) unfolding word_le_nat_alt by linarith
  have sel: "res_bind (template_select insn k) (\<lambda>sel. case sel of None \<Rightarrow> Inr (None, t)
      | Some tm \<Rightarrow> Inr (Some \<lparr>tp_address = ?a, tp_trampoline = 0, tp_handler = handler, tp_insn = insn, tp_insn_kind = k,
          tp_template = tm\<rparr>, t)) = Inr (r, t')"
    using assms(5) unfolding tracepoint_create_def Let_def p i(1,2) by (simp only: res_bind_Inr prod.case option.case)
  then obtain x where "template_select insn k = Inr x" by (auto simp: res_bind_eq_Inr)
  then show ?thesis using sel i(3) bound unfolding tp_ok_def by (cases x) auto
qed

text \<open>The place of a trampoline in the memory of all trampolines.\<close>

definition place_ok :: "(arm_template \<Rightarrow> arm_field_id template_t) \<Rightarrow> u32 \<Rightarrow> tracepoint_t \<Rightarrow> bool" where
  "place_ok templates sz tp \<longleftrightarrow> unat (tp_trampoline tp) + length (bindata (templates (tp_template tp))) \<le> unat sz
     \<and> 4 dvd unat (tp_trampoline tp)"

definition templates_ok :: "(arm_template \<Rightarrow> arm_field_id template_t) \<Rightarrow> nat \<Rightarrow> bool" where
  "templates_ok templates k \<longleftrightarrow> (\<forall>tm. length (bindata (templates tm)) \<le> k \<and> 4 dvd length (bindata (templates tm)))"

definition created :: "(arm_template \<Rightarrow> arm_field_id template_t) \<Rightarrow> (u32 \<Rightarrow> u8 option) \<Rightarrow> traced_segment \<Rightarrow> bool" where
  "created templates c seg \<longleftrightarrow> tree_ok (tracepoints seg) \<and> 4 dvd unat (trampolines_size seg)
     \<and> (\<forall>tp \<in> set (tree_vals (tracepoints seg)). tp_ok c tp \<and> place_ok templates (trampolines_size seg) tp
          \<and> start seg \<le> tp_address tp \<and> unat (tp_address tp) + 4 \<le> unat (seg_end seg))"

text \<open>The code of a segment, and that the traced addresses are not in its last three bytes.\<close>

definition code_of :: "(u32, 'i, 't) segment_t \<Rightarrow> u32 set" where
  "code_of seg = {x. start seg \<le> x \<and> x < seg_end seg}"

definition tpoints_within :: "traced_segment \<Rightarrow> (u32 \<times> int) list \<Rightarrow> bool" where
  "tpoints_within seg tps \<longleftrightarrow> (\<forall>(ofs, fn) \<in> set tps. \<forall>a. segment_fo2addr seg ofs = Inr a \<longrightarrow> a \<noteq> 0
     \<longrightarrow> unat a + 4 \<le> unat (seg_end seg))"

lemma span_within:
  assumes "unat a + n \<le> unat (seg_end seg)" "start seg \<le> a"
  shows "span a n \<subseteq> code_of seg"
proof
  fix x assume "x \<in> span a n"
  then obtain i where i: "i < n" "x = a + of_nat i" by (auto simp: span_def)
  have "unat (seg_end seg) < 2 ^ 32" by (rule unat_lt32)
  then have "unat x = unat a + i" unfolding i(2) using assms(1) i(1) by (intro unat_add_nat) simp
  then show "x \<in> code_of seg" using assms i(1) by (simp add: code_of_def word_le_nat_alt word_less_nat_alt)
qed

lemma tp_range_code:
  assumes "start seg \<le> tp_address tp" "unat (tp_address tp) + 4 \<le> unat (seg_end seg)"
  shows "tp_range tp \<subseteq> code_of seg"
  unfolding tp_range_def insn_range_def
  by (rule span_within) (use assms in \<open>auto simp: insn_size_def\<close>)

lemma even_address_le:
  assumes "s \<le> a" "even (s :: u32)"
  shows "s \<le> a AND NOT 1"
proof -
  have "unat (a AND NOT 1) + unat (a AND 1) = unat a"
  proof -
    have "(a AND NOT 1) AND (a AND 1) = 0" by (rule bit_word_eqI) (auto simp: bit_simps)
    then have "(a AND NOT 1) + (a AND 1) = (a AND NOT 1) OR (a AND 1)" by (rule disjunctive_add_eq_or)
    also have "\<dots> = a" by (simp only: bit.conj_disj_distrib [symmetric] bit.disj_cancel_left and.right_neutral)
    finally have "a AND NOT 1 = a - (a AND 1)" by (metis add_diff_cancel_right')
    then show ?thesis using word_and_le1 [of 1 a] by (metis add.commute le_add_diff_inverse2 unat_sub word_and_le2 word_le_nat_alt)
  qed
  moreover have "unat (a AND 1) \<le> 1" using word_and_le1 [of a 1] unfolding word_le_nat_alt unat_1 .
  moreover have eu: "even (unat w) \<longleftrightarrow> \<not> bit w 0" for w :: u32 using bit_0 [of "unat w"] by (simp add: bit_unsigned_iff)
  have "even (unat (a AND NOT 1))" unfolding eu bit_and_iff bit_not_iff by simp
  moreover have "even (unat s)" using assms(2) by (simp add: eu bit_0)
  moreover have "unat s \<le> unat a" using assms(1) by (simp add: word_le_nat_alt)
  ultimately show ?thesis unfolding word_le_nat_alt by presburger
qed

lemma create_loop_spec:
  assumes "inferior b contents" "halted t" "tree_library tlib" "templates_ok templates k" "\<forall>x \<in> code_of seg. contents (t_mem t) x \<noteq> None"
    and "tpoints_within seg tps" "even (start seg)" "created templates (contents (t_mem t)) seg"
    and "unat (trampolines_size seg) + length tps * k < 2 ^ 32"
    and "create_loop tlib templates h b base tps seg t = Inr (seg', t')"
  shows "t' = t \<and> created templates (contents (t_mem t)) seg' \<and> start seg' = start seg \<and> seg_end seg' = seg_end seg"
  using assms(5-)
proof (induction tps arbitrary: seg)
  case Nil
  then show ?case by simp
next
  case (Cons tpt tps)
  obtain addr fn where tpt: "tpt = (addr, fn)" by fastforce
  have lt: "unat (trampolines_size seg) + length tps * k < 2 ^ 32" using Cons.prems(5) by simp
  have tw: "tpoints_within seg tps" using Cons.prems(2) by (simp add: tpoints_within_def)
  obtain rt where rt: "segment_fo2addr seg addr = Inr rt"
    using Cons.prems(6) by (auto simp: tpt res_bind_eq_Inr)
  show ?case
  proof (cases "rt = 0")
    case True
    then show ?thesis using Cons.IH [OF Cons.prems(1) tw Cons.prems(3,4) lt] Cons.prems(6) rt by (simp add: tpt)
  next
    case False
    have top: "unat rt + 4 \<le> unat (seg_end seg)" using Cons.prems(2) rt False by (auto simp: tpoints_within_def tpt)
    have bound: "unat rt + 4 < 2 ^ 32" using top unat_lt32 [of "seg_end seg"] by simp
    have low: "start seg \<le> rt AND NOT 1" using segment_fo2addr_bound [OF rt False] even_address_le [OF _ Cons.prems(3)] by blast
    have below: "unat (rt AND NOT 1) + 4 \<le> unat (seg_end seg)" using top word_and_le2 [of rt "NOT 1"] by (simp add: word_le_nat_alt)
    have mapped: "\<forall>x \<in> span (rt AND NOT 1) 4. contents (t_mem t) x \<noteq> None"
      using span_within [OF below low] Cons.prems(1) by blast
    obtain r t1 where r: "tracepoint_create h b t rt (base + of_int fn) = Inr (r, t1)"
      using Cons.prems(6) rt False by (auto simp: tpt res_bind_eq_Inr)
    note tc = tracepoint_create_spec [OF assms(1,2) bound mapped r]
    show ?thesis
    proof (cases r)
      case None
      then show ?thesis using Cons.IH [OF Cons.prems(1) tw Cons.prems(3,4) lt] Cons.prems(6) rt False r tc by (simp add: tpt)
    next
      case (Some tp)
      let ?tp = "tp\<lparr>tp_trampoline := trampolines_size seg\<rparr>" and ?n = "length (bindata (templates (tp_template tp)))"
      let ?sz = "trampolines_size seg + of_nat ?n"
      have n: "?n \<le> k" "4 dvd ?n" using assms(4) by (simp_all add: templates_ok_def)
      obtain ts where ts: "tree_insert tlib (tracepoints seg) rt ?tp = Inr ts"
          "create_loop tlib templates h b base tps (seg\<lparr>tracepoints := ts, trampolines_size := ?sz\<rparr>) t = Inr (seg', t')"
        using Cons.prems(6) rt False r Some tc by (auto simp: tpt res_bind_eq_Inr)
      have u: "unat ?sz = unat (trampolines_size seg) + ?n"
        using Cons.prems(5) n(1) by (simp add: unat_add_nat)
      have iv: "tree_ok ts" "set (tree_vals ts) = insert ?tp (set (tree_vals (tracepoints seg)))"
        using insert_vals [OF assms(3) _ ts(1)] Cons.prems(4) by (auto simp: created_def)
      have "tp_ok (contents (t_mem t)) tp" using tc Some by blast
      then have "tp_ok (contents (t_mem t)) ?tp" by (simp add: tp_ok_def)
      moreover have "start seg \<le> tp_address tp" "unat (tp_address tp) + 4 \<le> unat (seg_end seg)" using low below tc Some by auto
      moreover have "place_ok templates ?sz ?tp" using Cons.prems(4) by (simp add: place_ok_def u created_def)
      moreover have "place_ok templates ?sz x" if "place_ok templates (trampolines_size seg) x" for x
        using that by (simp add: place_ok_def u)
      ultimately have cr: "created templates (contents (t_mem t)) (seg\<lparr>tracepoints := ts, trampolines_size := ?sz\<rparr>)"
        using Cons.prems(4) iv n(2) u unfolding created_def by auto
      have "unat ?sz + length tps * k < 2 ^ 32" "tpoints_within (seg\<lparr>tracepoints := ts, trampolines_size := ?sz\<rparr>) tps"
        using Cons.prems(5) n(1) u tw by (simp_all add: tpoints_within_def segment_fo2addr_def)
      then show ?thesis using Cons.IH [OF _ _ _ cr _ ts(2)] Cons.prems(1,3) by (simp add: code_of_def)
    qed
  qed
qed

section \<open>Installation\<close>

text \<open>The traced instruction leads to the trampoline: by a branch, or by a breakpoint with an entry in the jump table.\<close>

definition leads :: "(u32 \<Rightarrow> u8 option) \<Rightarrow> (u32 \<Rightarrow> u32 option) \<Rightarrow> tracepoint_t \<Rightarrow> bool" where
  "leads c js tp \<longleftrightarrow>
     (let a = tp_address tp; kind = tp_insn_kind tp; insn = fetch_insn kind c a
      in arm_branch kind insn a = Some (tp_trampoline tp) \<or> insn = get_breakpoint_insn kind \<and> js a = Some (tp_trampoline tp))"

lemma leads_cong:
  assumes "\<And>x. x \<in> tp_range tp \<Longrightarrow> c x = c' x" "js (tp_address tp) = js' (tp_address tp)"
  shows "leads c js tp = leads c' js' tp"
proof -
  have len: "length (bytes_at c (tp_address tp) 2) = length (bytes_at c' (tp_address tp) 2)" by (simp add: bytes_at_def)
  have b: "bytes_at c (tp_address tp) n = bytes_at c' (tp_address tp) n" if "n \<le> insn_size (tp_insn_kind tp)" for n
    using that assms(1) by (auto simp: bytes_at_def tp_range_def insn_range_def span_def)
  have "bytes_at c (tp_address tp) 4 = bytes_at c' (tp_address tp) 4 \<Longrightarrow> bytes_at c (tp_address tp + 2) 2 = bytes_at c' (tp_address tp + 2) 2"
    unfolding bytes_at_split [of c] bytes_at_split [of c'] append_eq_append_conv [OF disjI1, OF len] by simp
  then have "fetch_insn (tp_insn_kind tp) c (tp_address tp) = fetch_insn (tp_insn_kind tp) c' (tp_address tp)"
    using b by (cases "tp_insn_kind tp") (simp_all add: fetch_insn_def insn_size_def)
  then show ?thesis using assms(2) by (simp add: leads_def Let_def)
qed

lemma install_jump_spec:
  assumes "inferior b contents" "traced_ok h b R Q" "tree_library lib" "Q t" "tree_ok (t_jumps t)" "tp_ok orig tp" "tp_range tp \<subseteq> R"
    and "arm_check_align (tp_trampoline tp) (tp_insn_kind tp)" "tree_map (t_jumps t) (tp_address tp) = None"
  shows "\<exists>t'. install_jump lib h b tp t = Inr t'
    \<and> Q t' \<and> tree_ok (t_jumps t') \<and> leads (contents (t_mem t')) (tree_map (t_jumps t')) tp
    \<and> (\<forall>x. x \<notin> tp_range tp \<longrightarrow> contents (t_mem t') x = contents (t_mem t) x)
    \<and> (\<forall>a. a \<noteq> tp_address tp \<longrightarrow> tree_map (t_jumps t') a = tree_map (t_jumps t) a)
    \<and> (\<forall>a v. tree_map (t_jumps t') a = Some v \<longrightarrow> tree_map (t_jumps t) a = Some v \<or> v = tp_trampoline tp)"
proof -
  let ?a = "tp_address tp" and ?d = "tp_trampoline tp" and ?k = "tp_insn_kind tp"
  have ok: "unat ?a + 4 < 2 ^ 32" "arm_check_align ?a ?k" "insn_range ?a ?k \<subseteq> R"
    using assms(6,7) by (auto simp: tp_ok_def insn_at_def tp_range_def)
  show ?thesis
  proof (cases "arm_check_relative_jump_kind ?k ?a ?d")
    case True
    obtain insn where i: "arm_get_relative_jump_insn ?k ?a ?d = Inr insn" "arm_branch ?k insn ?a = Some ?d"
      using arm_jump_reaches [OF ok(2) assms(8) True] by blast
    obtain u where u: "mem_patch_insn (thread_mem h b) t ?a ?k insn = Inr (True, u)" "Q u" "t_jumps u = t_jumps t"
        "patched (contents (t_mem t)) (contents (t_mem u)) ?a ?k insn"
      using traced_patch [OF assms(1,2,4) ok(1,2) jump_insn_valid [OF i(1)] ok(3)] by blast
    have "install_jump lib h b tp t = Inr u" using True i(1) u(1) by (simp add: install_jump_def patch_relative_jump_def)
    then show ?thesis using u(2-4) assms(5) i(2) insn_at_fetch [of "contents (t_mem u)" ?a ?k insn]
      by (auto simp: patched_def leads_def Let_def tp_range_def)
  next
    case False
    obtain u where u: "mem_patch_insn (thread_mem h b) t ?a ?k (get_breakpoint_insn ?k) = Inr (True, u)" "Q u" "t_jumps u = t_jumps t"
        "patched (contents (t_mem t)) (contents (t_mem u)) ?a ?k (get_breakpoint_insn ?k)"
      using traced_patch [OF assms(1,2,4) ok(1,2) breakpoint_valid ok(3)] by blast
    obtain js where js: "tree_insert lib (t_jumps t) ?a ?d = Inr js" "tree_ok js" "tree_map js = (tree_map (t_jumps t))(?a \<mapsto> ?d)"
      using tree_library.insert_spec [OF assms(3,5,9), of ?d] by blast
    have r: "install_jump lib h b tp t = Inr (u\<lparr>t_jumps := js\<rparr>)"
      using False u(1,3) js(1) by (simp add: install_jump_def patch_breakpoint_def jump_install_def)
    have "Q (u\<lparr>t_jumps := js\<rparr>)" using assms(2) u(2) by (simp add: traced_ok_def)
    then show ?thesis using r u(4) js(2,3) insn_at_fetch [of "contents (t_mem u)" ?a ?k "get_breakpoint_insn ?k"]
      by (auto simp: patched_def leads_def Let_def tp_range_def)
  qed
qed

lemma fillout_length: "fields_loop (\<lambda>x. x = TF_NULL) (fillout_field vals) fs s = Inr s' \<Longrightarrow> length s' = length s"
proof (induction fs arbitrary: s)
  case (Cons f fs)
  then show ?case
    by (cases "field f = TF_NULL") (auto simp: res_bind_eq_Inr same_outside_def dest!: fillout_field_frame)
qed simp

lemma handler_length: "template_get_handler tm a handler insn kind = Inr code \<Longrightarrow> length code = length (bindata tm)"
  unfolding template_get_handler_def template_fillout_def by (drule fillout_length) (simp add: template_instatiate_def)

lemma aligned_4: "4 dvd unat (a :: u32) \<Longrightarrow> arm_check_align a kind"
proof -
  assume "4 dvd unat a"
  then have "take_bit 2 (unat a) = 0" by (simp add: take_bit_eq_mod)
  then have z: "a AND mask 2 = 0" by (simp add: unsigned_take_bit_eq [symmetric] unat_eq_0 flip: take_bit_eq_mask)
  have "\<not> bit a 0" using arg_cong [OF z, of "\<lambda>w. bit w 0"] unfolding bit_and_iff bit_mask_iff by simp
  then have "a AND 3 = 0" "a AND 1 = 0" using z by (simp_all add: mask_eq_exp_minus_1 and_one_eq bit_0 flip: even_iff_mod_2_eq_zero)
  then show ?thesis by (cases kind) (simp_all add: arm_check_align_def arm_align_bits_def)
qed

text \<open>A tracepoint that can be installed: its code is within \<open>C\<close>, its trampoline outside, both can be written, and its template can
  be filled out.\<close>

definition has_handler :: "(arm_template \<Rightarrow> arm_field_id template_t) \<Rightarrow> tracepoint_t \<Rightarrow> bool" where
  "has_handler templates tp \<longleftrightarrow>
     no_fault (template_get_handler (templates (tp_template tp)) (tp_address tp) (tp_handler tp) (tp_insn tp) (tp_insn_kind tp))"

definition installable ::
    "(arm_template \<Rightarrow> arm_field_id template_t) \<Rightarrow> (u32 \<Rightarrow> u8 option) \<Rightarrow> u32 set \<Rightarrow> u32 set \<Rightarrow> tracepoint_t \<Rightarrow> bool" where
  "installable templates orig C R tp \<longleftrightarrow> tp_ok orig tp \<and> tp_range tp \<subseteq> C \<and> tp_range tp \<subseteq> R \<and> 4 dvd unat (tp_trampoline tp)
     \<and> unat (tp_trampoline tp) + length (bindata (templates (tp_template tp))) < 2 ^ 32 \<and> has_handler templates tp
     \<and> span (tp_trampoline tp) (length (bindata (templates (tp_template tp)))) \<subseteq> R - C"

lemma tracepoint_install_spec:
  assumes "inferior b contents" "traced_ok h b R Q" "tree_library lib" "Q t" "tree_ok (t_jumps t)" "installable templates orig C R tp"
    and "tree_map (t_jumps t) (tp_address tp) = None"
  shows "\<exists>t'. tracepoint_install templates lib h b tp t = Inr (True, t')
    \<and> Q t' \<and> tree_ok (t_jumps t') \<and> leads (contents (t_mem t')) (tree_map (t_jumps t')) tp
    \<and> (\<forall>x \<in> C. x \<notin> tp_range tp \<longrightarrow> contents (t_mem t') x = contents (t_mem t) x)
    \<and> (\<forall>a. a \<noteq> tp_address tp \<longrightarrow> tree_map (t_jumps t') a = tree_map (t_jumps t) a)
    \<and> (\<forall>a v. tree_map (t_jumps t') a = Some v \<longrightarrow> tree_map (t_jumps t) a = Some v \<or> v = tp_trampoline tp)"
proof -
  note i = assms(6) [unfolded installable_def]
  obtain u where u: "install_jump lib h b tp t = Inr u" and j: "Q u" "tree_ok (t_jumps u)" "leads (contents (t_mem u)) (tree_map (t_jumps u)) tp"
    "\<forall>x. x \<notin> tp_range tp \<longrightarrow> contents (t_mem u) x = contents (t_mem t) x"
    "\<forall>a. a \<noteq> tp_address tp \<longrightarrow> tree_map (t_jumps u) a = tree_map (t_jumps t) a"
    "\<forall>a v. tree_map (t_jumps u) a = Some v \<longrightarrow> tree_map (t_jumps t) a = Some v \<or> v = tp_trampoline tp"
    using install_jump_spec [OF assms(1-5) _ _ _ assms(7), of orig] i aligned_4 by blast
  obtain code where code: "template_get_handler (templates (tp_template tp)) (tp_address tp) (tp_handler tp) (tp_insn tp) (tp_insn_kind tp) = Inr code"
    using i by (auto simp: has_handler_def no_fault_def)
  have len: "length code = length (bindata (templates (tp_template tp)))" by (rule handler_length [OF code])
  then obtain v where v: "mem_write (thread_mem h b) u (tp_trampoline tp) code = Inr (length code, v)" "Q v" "t_jumps v = t_jumps u"
      "wrote (contents (t_mem u)) (contents (t_mem v)) (tp_trampoline tp) code 0 0 (length code)"
    using traced_write [OF assms(1,2) j(1), of "tp_trampoline tp" code] i by auto
  have r: "tracepoint_install templates lib h b tp t = Inr (True, v)"
    using u code v(1) by (simp add: tracepoint_install_def arm_template_need_return_jump_def)
  have same: "contents (t_mem v) x = contents (t_mem u) x" if "x \<in> C" for x
  proof -
    have "\<forall>k. in_range 0 (length code) k \<longrightarrow> x \<noteq> tp_trampoline tp + of_nat k" using that i len by (auto simp: in_range_def span_def)
    then show ?thesis using v(4) by (simp add: wrote_def)
  qed
  have "leads (contents (t_mem v)) (tree_map (t_jumps v)) tp"
    using j(3) leads_cong [of tp "contents (t_mem v)" "contents (t_mem u)" "tree_map (t_jumps v)" "tree_map (t_jumps u)"] same i v(3) by auto
  then show ?thesis using r v(2,3) j(2,4,5,6) same by auto
qed

definition reloc :: "u32 \<Rightarrow> tracepoint_t \<Rightarrow> tracepoint_t" where
  "reloc base tp = tp\<lparr>tp_trampoline := tp_trampoline tp + base\<rparr>"

lemma reloc_simps [simp]: "tp_address (reloc base tp) = tp_address tp" "tp_range (reloc base tp) = tp_range tp"
    "tp_ok c (reloc base tp) = tp_ok c tp"
  by (simp_all add: reloc_def tp_range_def tp_ok_def)

text \<open>No two of the instructions overlap.\<close>

definition disjoint_code :: "(u32 \<times> tracepoint_t) list \<Rightarrow> bool" where
  "disjoint_code es \<longleftrightarrow> (\<forall>(k, tp) \<in> set es. \<forall>(k', tp') \<in> set es. k \<noteq> k' \<longrightarrow> tp_range tp \<inter> tp_range tp' = {})"

lemma address_in_range: "tp_address tp \<in> tp_range tp"
  by (auto simp: tp_range_def insn_range_def insn_size_def span_def intro!: image_eqI [of _ _ 0])

lemma disjoint_code_Cons:
  assumes "disjoint_code ((k, tp) # es)" "k \<notin> fst ` set es" "(k', tp') \<in> set es"
  shows "tp_range tp \<inter> tp_range tp' = {}" "tp_address tp \<noteq> tp_address tp'"
proof -
  have "k \<noteq> k'" using assms(2,3) by force
  then show "tp_range tp \<inter> tp_range tp' = {}" using assms(1,3) unfolding disjoint_code_def by force
  then show "tp_address tp \<noteq> tp_address tp'" using address_in_range [of tp] address_in_range [of tp'] by auto
qed

lemma install_loop_spec:
  assumes "inferior b contents" "traced_ok h b R Q" "tree_library lib"
    and "Q t" "tree_ok (t_jumps t)" "tree_ok (tracepoints seg)" "distinct (map fst es)" "disjoint_code es"
    and "\<forall>(k, tp) \<in> set es. tree_map (tracepoints seg) k = Some tp \<and> installable templates orig C R (reloc (trampolines seg) tp)
      \<and> tree_map (t_jumps t) (tp_address tp) = None"
  shows "\<exists>seg' t'. install_loop templates lib h b es seg t = Inr (True, seg', t')
    \<and> Q t' \<and> tree_ok (t_jumps t') \<and> tree_ok (tracepoints seg')
    \<and> seg' = seg\<lparr>tracepoints := tracepoints seg'\<rparr>
    \<and> tree_map (tracepoints seg') = (\<lambda>k. case map_of es k of None \<Rightarrow> tree_map (tracepoints seg) k | Some tp \<Rightarrow> Some (reloc (trampolines seg) tp))
    \<and> (\<forall>x \<in> C. (\<forall>(k, tp) \<in> set es. x \<notin> tp_range tp) \<longrightarrow> contents (t_mem t') x = contents (t_mem t) x)
    \<and> (\<forall>a. (\<forall>(k, tp) \<in> set es. a \<noteq> tp_address tp) \<longrightarrow> tree_map (t_jumps t') a = tree_map (t_jumps t) a)
    \<and> (\<forall>a v. tree_map (t_jumps t') a = Some v \<longrightarrow> tree_map (t_jumps t) a = Some v \<or> (\<exists>(k, tp) \<in> set es. v = tp_trampoline (reloc (trampolines seg) tp)))
    \<and> (\<forall>(k, tp) \<in> set es. leads (contents (t_mem t')) (tree_map (t_jumps t')) (reloc (trampolines seg) tp))"
  using assms(4-)
proof (induction es arbitrary: seg t)
  case Nil
  then show ?case by simp
next
  case (Cons e es)
  obtain k tp where e: "e = (k, tp)" by fastforce
  let ?T = "trampolines seg"
  let ?tp = "reloc ?T tp"
  have m: "tree_map (tracepoints seg) k = Some tp" and inst: "installable templates orig C R ?tp"
    and nj: "tree_map (t_jumps t) (tp_address ?tp) = None" using Cons.prems(6) e by auto
  have kn: "k \<notin> fst ` set es" using Cons.prems(4) e by simp
  note dj = disjoint_code_Cons [OF Cons.prems(5) [unfolded e] kn]
  obtain ts where ts: "tree_update (tracepoints seg) k ?tp = Inr ts" "tree_ok ts" "tree_map ts = (tree_map (tracepoints seg))(k \<mapsto> ?tp)"
    using update_spec [OF Cons.prems(3), of k ?tp] m by auto
  let ?seg = "seg\<lparr>tracepoints := ts\<rparr>"
  obtain u where ok: "tracepoint_install templates lib h b ?tp t = Inr (True, u)"
    and st: "Q u" "tree_ok (t_jumps u)" "leads (contents (t_mem u)) (tree_map (t_jumps u)) ?tp"
      "\<forall>x \<in> C. x \<notin> tp_range tp \<longrightarrow> contents (t_mem u) x = contents (t_mem t) x"
      "\<forall>a. a \<noteq> tp_address tp \<longrightarrow> tree_map (t_jumps u) a = tree_map (t_jumps t) a"
      "\<forall>a v. tree_map (t_jumps u) a = Some v \<longrightarrow> tree_map (t_jumps t) a = Some v \<or> v = tp_trampoline ?tp"
    using tracepoint_install_spec [OF assms(1-3) Cons.prems(1,2) inst nj] by auto
  have pre: "\<forall>(k, tp) \<in> set es. tree_map (tracepoints ?seg) k = Some tp \<and> installable templates orig C R (reloc (trampolines ?seg) tp)
      \<and> tree_map (t_jumps u) (tp_address tp) = None"
  proof (intro ballI, clarify)
    fix k' tp' assume in_es: "(k', tp') \<in> set es"
    have "k' \<noteq> k" using kn in_es by force
    then show "tree_map (tracepoints ?seg) k' = Some tp' \<and> installable templates orig C R (reloc (trampolines ?seg) tp')
        \<and> tree_map (t_jumps u) (tp_address tp') = None"
      using Cons.prems(6) in_es ts(3) st(5) dj(2) [OF in_es] by auto
  qed
  have "tree_ok (tracepoints ?seg)" "distinct (map fst es)" "disjoint_code es"
    using ts(2) Cons.prems(4,5) by (simp_all add: disjoint_code_def split_beta)
  moreover have sel: "tracepoints ?seg = ts" "trampolines ?seg = ?T" by simp_all
  ultimately obtain seg' t' where run: "install_loop templates lib h b es ?seg u = Inr (True, seg', t')"
    and IH: "Q t'" "tree_ok (t_jumps t')" "tree_ok (tracepoints seg')" "seg' = ?seg\<lparr>tracepoints := tracepoints seg'\<rparr>"
      "tree_map (tracepoints seg') = (\<lambda>k. case map_of es k of None \<Rightarrow> tree_map ts k | Some tp \<Rightarrow> Some (reloc ?T tp))"
      "\<forall>x \<in> C. (\<forall>(k, tp) \<in> set es. x \<notin> tp_range tp) \<longrightarrow> contents (t_mem t') x = contents (t_mem u) x"
      "\<forall>a. (\<forall>(k, tp) \<in> set es. a \<noteq> tp_address tp) \<longrightarrow> tree_map (t_jumps t') a = tree_map (t_jumps u) a"
      "\<forall>a v. tree_map (t_jumps t') a = Some v \<longrightarrow> tree_map (t_jumps u) a = Some v \<or> (\<exists>(k, tp) \<in> set es. v = tp_trampoline (reloc ?T tp))"
      "\<forall>(k, tp) \<in> set es. leads (contents (t_mem t')) (tree_map (t_jumps t')) (reloc ?T tp)"
    using Cons.IH [OF st(1,2) _ _ _ pre, unfolded sel] by auto
  have lead: "leads (contents (t_mem t')) (tree_map (t_jumps t')) ?tp"
  proof -
    have "contents (t_mem t') x = contents (t_mem u) x" if "x \<in> tp_range tp" for x
      using IH(6) that dj(1) inst by (auto simp: installable_def)
    moreover have "tree_map (t_jumps t') (tp_address tp) = tree_map (t_jumps u) (tp_address tp)" using IH(7) dj(2) by fastforce
    ultimately show ?thesis
      using st(3) leads_cong [of ?tp "contents (t_mem t')" "contents (t_mem u)" "tree_map (t_jumps t')" "tree_map (t_jumps u)"] by simp
  qed
  have "install_loop templates lib h b (e # es) seg t = Inr (True, seg', t')"
    using run ts(1) ok by (simp add: e Let_def reloc_def)
  moreover have "tree_map (tracepoints seg') = (\<lambda>k. case map_of (e # es) k of None \<Rightarrow> tree_map (tracepoints seg) k | Some tp \<Rightarrow> Some (reloc ?T tp))"
    using IH(5) ts(3) kn by (auto simp: fun_eq_iff e map_of_eq_None_iff split: option.splits)
  moreover have "\<forall>x \<in> C. (\<forall>(k, tp) \<in> set (e # es). x \<notin> tp_range tp) \<longrightarrow> contents (t_mem t') x = contents (t_mem t) x"
    using IH(6) st(4) e by simp
  moreover have "\<forall>a. (\<forall>(k, tp) \<in> set (e # es). a \<noteq> tp_address tp) \<longrightarrow> tree_map (t_jumps t') a = tree_map (t_jumps t) a"
    using IH(7) st(5) e by simp
  moreover have "\<forall>a v. tree_map (t_jumps t') a = Some v \<longrightarrow> tree_map (t_jumps t) a = Some v
      \<or> (\<exists>(k, tp) \<in> set (e # es). v = tp_trampoline (reloc ?T tp))"
    using IH(8) st(6) e by (auto simp: split_beta)
  moreover have "seg' = seg\<lparr>tracepoints := tracepoints seg'\<rparr>"
  proof -
    have eq: "?seg\<lparr>tracepoints := x\<rparr> = seg\<lparr>tracepoints := x\<rparr>" for x by simp
    show ?thesis using IH(4) unfolding eq by blast
  qed
  moreover have "\<forall>(k, tp) \<in> set (e # es). leads (contents (t_mem t')) (tree_map (t_jumps t')) (reloc ?T tp)"
    using IH(9) lead e by simp
  ultimately show ?case using IH(1-3) by blast
qed

section \<open>The calls in the process\<close>

text \<open>A run of code in the process that left the code in \<open>C\<close> and the jump table as they were; the thread is stopped again and its
  memory can be written in \<open>R\<close>.\<close>

definition kept :: "('m, u32) inferior_ops \<Rightarrow> ('m \<Rightarrow> u32 \<Rightarrow> u8 option) \<Rightarrow> u32 set \<Rightarrow> u32 set \<Rightarrow> 'm traced \<Rightarrow> 'm traced \<Rightarrow> bool" where
  "kept b contents C R t t' \<longleftrightarrow> steady b R t' \<and> t_jumps t' = t_jumps t \<and> (\<forall>x \<in> C. contents (t_mem t') x = contents (t_mem t) x)"

lemma round_below_inv:
  assumes "\<And>s a sz f r s'. I s \<Longrightarrow> fn s a sz f = Inr (r, s') \<Longrightarrow> I s'" "I s"
    and "round_below segs hi addr pgsize max_size fuel fn sc s = Inr (r, sc', s')"
  shows "I s'"
  using assms by (auto simp: round_below_def Let_def res_bind_eq_Inr split: option.splits if_splits)

lemma round_above_inv:
  assumes "\<And>s a sz f r s'. I s \<Longrightarrow> fn s a sz f = Inr (r, s') \<Longrightarrow> I s'" "I s"
    and "round_above segs low addr pgsize max_size fuel fn sc s = Inr (r, sc', s')"
  shows "I s'"
  using assms by (auto simp: round_above_def Let_def res_bind_eq_Inr split: option.splits if_splits)

lemma search_loop_inv:
  assumes step: "\<And>s a sz f r s'. I s \<Longrightarrow> fn s a sz f = Inr (r, s') \<Longrightarrow> I s'"
    and "I s" "search_loop down segs low hi addr pgsize max_size n fn sc s = Inr (r, s')"
  shows "I s'"
  using assms(2,3)
proof (induction n arbitrary: down sc s)
  case (Suc n)
  let ?below = "be_reach sc \<and> (beoff sc \<le> aboff sc \<or> \<not> ab_reach sc)"
  let ?above = "ab_reach sc \<and> (aboff sc \<le> beoff sc \<or> \<not> be_reach sc)"
  consider "down" "?below" | "down" "\<not> ?below" | "\<not> down" "?above" | "\<not> down" "\<not> ?above" by blast
  then show ?case
  proof cases
    case 1
    then obtain r1 sc1 s1 where r1: "round_below segs hi addr pgsize max_size n fn sc s = Inr (r1, sc1, s1)"
        "(if r1 then Inr (True, s1) else search_loop True segs low hi addr pgsize max_size n fn sc1 s1) = Inr (r, s')"
      using Suc.prems(2) by (auto simp: res_bind_eq_Inr)
    have "I s1" by (rule round_below_inv [where I = I, OF step Suc.prems(1) r1(1)])
    then show ?thesis using r1(2) Suc.IH by (cases r1) auto
  next
    case 2
    then show ?thesis using Suc by (auto split: if_splits)
  next
    case 3
    then obtain r1 sc1 s1 where r1: "round_above segs low addr pgsize max_size n fn sc s = Inr (r1, sc1, s1)"
        "(if r1 then Inr (True, s1) else search_loop False segs low hi addr pgsize max_size n fn sc1 s1) = Inr (r, s')"
      using Suc.prems(2) by (auto simp: res_bind_eq_Inr)
    have "I s1" by (rule round_above_inv [where I = I, OF step Suc.prems(1) r1(1)])
    then show ?thesis using r1(2) Suc.IH by (cases r1) auto
  next
    case 4
    then show ?thesis using Suc by auto
  qed
qed simp

text \<open>What the allocation of the trampolines keeps of the segment.\<close>

definition same_tracepoints :: "traced_segment \<Rightarrow> traced_segment \<Rightarrow> bool" where
  "same_tracepoints seg seg' \<longleftrightarrow> tracepoints seg' = tracepoints seg \<and> trampolines_size seg' = trampolines_size seg
     \<and> start seg' = start seg \<and> seg_end seg' = seg_end seg \<and> filename seg' = filename seg \<and> file_offset seg' = file_offset seg
     \<and> flags seg' = flags seg"

lemma allocate_trampoline_keeps:
  assumes "allocate_trampoline fc pagesize fuel t seg = Inr (ok, seg', t')"
  shows "same_tracepoints seg seg'"
proof -
  let ?I = "\<lambda>(sg, u :: 'a traced). same_tracepoints seg sg"
  obtain low hi sz found sg u where s: "tracepoint_iter_free_segments_around (t_segments t) (start seg) (seg_end seg) pagesize low hi sz fuel
      (find_coherent fc sz) (seg, t) = Inr (found, sg, u)"
      "(if found then Inr (True, sg, u) else res_bind (call_allocate fc u (trampolines_size sg)) (\<lambda>(r, t).
         case r of Some a \<Rightarrow> Inr (True, sg\<lparr>trampolines := a\<rparr>, t) | None \<Rightarrow> Inr (False, sg, t))) = Inr (ok, seg', t')"
    using assms by (auto simp: allocate_trampoline_def Let_def res_bind_eq_Inr)
  have i0: "?I (seg, t)" by (simp add: same_tracepoints_def)
  have "?I s'" if "?I s" "find_coherent fc sz s a n f = Inr (r, s')" for s a n f r s'
    using that by (cases s; cases s') (auto simp: find_coherent_def res_bind_eq_Inr same_tracepoints_def split: option.splits if_splits)
  from search_loop_inv [of ?I, OF this i0 s(1) [unfolded tracepoint_iter_free_segments_around_def Let_def]]
  have "same_tracepoints seg sg" by auto
  then show ?thesis using s(2) by (auto simp: res_bind_eq_Inr same_tracepoints_def split: if_splits option.splits)
qed

section \<open>Installing all tracepoints of a segment\<close>

text \<open>
  The tracepoints of the segment have been created: \<open>sg\<close> is the segment with the tracepoints of the injectable's list. The segment
  had none, no jump starts in its code, its code can be read, none of the traced addresses is in its last three bytes, the created
  instructions do not overlap and their templates, of at most \<open>k\<close> bytes, can be filled out.
\<close>

definition tracepoints_found where
  "tracepoints_found tlib templates k h b contents t seg sg \<longleftrightarrow> (\<exists>i tps.
     injection seg = Some i \<and> inj_tpoints (injection_injfile i) \<noteq> None \<and> injfile_iter_tpoints (injection_injfile i) = Inr tps
     \<and> create_loop tlib templates h b (injection_address i) tps (seg\<lparr>trampolines_size := 0\<rparr>) t = Inr (sg, t)
     \<and> length tps * k < 2 ^ 32 \<and> tpoints_within seg tps)
   \<and> tracepoints seg = Leaf \<and> tracepoints sg \<noteq> Leaf \<and> even (start seg) \<and> disjoint_code (inorder (tracepoints sg))
   \<and> (\<forall>tp \<in> set (tree_vals (tracepoints sg)). has_handler templates tp) \<and> templates_ok templates k
   \<and> halted t \<and> tree_ok (t_jumps t) \<and> (\<forall>x \<in> code_of seg. contents (t_mem t) x \<noteq> None \<and> tree_map (t_jumps t) x = None)"

text \<open>The memory of the trampolines.\<close>

definition trampoline_area :: "traced_segment \<Rightarrow> u32 set" where
  "trampoline_area seg = span (trampolines seg) (unat (trampolines_size seg))"

text \<open>
  Memory for the trampolines has been found: the search or the allocator in the process gave a word-aligned area that is apart from
  the code; after the calls that this took, the thread is stopped, the code and the jump table are as they were, and both the code
  and the area can be written.
\<close>

definition area_found where
  "area_found fc pagesize fuel b contents t sg sg1 t1 \<longleftrightarrow>
     allocate_trampoline fc pagesize fuel t sg = Inr (True, sg1, t1)
   \<and> trampolines sg1 \<noteq> 0 \<and> 4 dvd unat (trampolines sg1) \<and> unat (trampolines sg1) + unat (trampolines_size sg1) < 2 ^ 32
   \<and> trampoline_area sg1 \<inter> code_of sg = {} \<and> kept b contents (code_of sg) (code_of sg \<union> trampoline_area sg1) t t1"

text \<open>The state after the installation, beside the original contents \<open>orig\<close> and jumps \<open>js\<close>.\<close>

definition installed ::
    "('m \<Rightarrow> u32 \<Rightarrow> u8 option) \<Rightarrow> u32 set \<Rightarrow> (u32 \<Rightarrow> u8 option) \<Rightarrow> (u32 \<Rightarrow> u32 option) \<Rightarrow> traced_segment \<Rightarrow> 'm traced \<Rightarrow> bool" where
  "installed contents C orig js seg t \<longleftrightarrow> tree_ok (t_jumps t) \<and> tree_ok (tracepoints seg)
     \<and> (\<forall>tp \<in> set (tree_vals (tracepoints seg)). tp_ok orig tp \<and> tp_range tp \<subseteq> C)
     \<and> (\<forall>x \<in> C. (\<forall>tp \<in> set (tree_vals (tracepoints seg)). x \<notin> tp_range tp) \<longrightarrow> contents (t_mem t) x = orig x)
     \<and> (\<forall>a. (\<forall>tp \<in> set (tree_vals (tracepoints seg)). a \<noteq> tp_address tp) \<longrightarrow> tree_map (t_jumps t) a = js a)
     \<and> (\<forall>a v. tree_map (t_jumps t) a = Some v \<longrightarrow> js a = Some v \<or> v \<noteq> 0)"

lemma reloc_installable:
  assumes "created templates orig seg" "trampolines seg \<noteq> 0" "4 dvd unat (trampolines seg)"
    and "unat (trampolines seg) + unat (trampolines_size seg) < 2 ^ 32" "trampoline_area seg \<inter> code_of seg = {}"
    and "tp \<in> set (tree_vals (tracepoints seg))" "has_handler templates tp"
  shows "installable templates orig (code_of seg) (code_of seg \<union> trampoline_area seg) (reloc (trampolines seg) tp)
    \<and> tp_trampoline (reloc (trampolines seg) tp) \<noteq> 0"
proof -
  let ?T = "trampolines seg" and ?n = "length (bindata (templates (tp_template tp)))" and ?o = "unat (tp_trampoline tp)"
  have c: "tp_ok orig tp" "?o + ?n \<le> unat (trampolines_size seg)" "4 dvd ?o" "start seg \<le> tp_address tp"
    "unat (tp_address tp) + 4 \<le> unat (seg_end seg)"
    using assms(1,6) by (auto simp: created_def place_ok_def)
  have w: "tp_trampoline (reloc ?T tp) = ?T + of_nat ?o" by (simp add: reloc_def)
  have u: "unat (tp_trampoline (reloc ?T tp)) = unat ?T + ?o" unfolding w using assms(4) c(2) by (intro unat_add_nat) simp
  have "span (tp_trampoline (reloc ?T tp)) ?n \<subseteq> trampoline_area seg"
  proof
    fix x assume "x \<in> span (tp_trampoline (reloc ?T tp)) ?n"
    then obtain i where "i < ?n" "x = ?T + of_nat (?o + i)" by (auto simp: span_def w add.assoc)
    then show "x \<in> trampoline_area seg" using c(2) spanI [of "?o + i" "unat (trampolines_size seg)" ?T] by (simp add: trampoline_area_def)
  qed
  then have out: "span (tp_trampoline (reloc ?T tp)) ?n \<subseteq> (code_of seg \<union> trampoline_area seg) - code_of seg" using assms(5) by blast
  have "0 < unat ?T" using assms(2) by (simp add: unat_gt_0)
  then have "unat (tp_trampoline (reloc ?T tp)) \<noteq> 0" unfolding u by simp
  then have nz: "tp_trampoline (reloc ?T tp) \<noteq> 0" by (metis unat_0)
  have "tp_template (reloc ?T tp) = tp_template tp" "has_handler templates (reloc ?T tp)" using assms(7) by (simp_all add: reloc_def has_handler_def)
  then show ?thesis using c(1,3) assms(3,4) c(2) out nz tp_range_code [OF c(4,5)] u by (auto simp: installable_def)
qed

lemma created_same:
  assumes "created templates orig sg" "same_tracepoints sg sg1"
  shows "created templates orig sg1" "code_of sg1 = code_of sg" "tracepoints sg1 = tracepoints sg"
  using assms by (simp_all add: created_def same_tracepoints_def code_of_def)

lemma install_all:
  assumes "inferior b contents" "tree_library lib" "created templates orig sg"
    and "\<forall>tp \<in> set (tree_vals (tracepoints sg)). has_handler templates tp" "disjoint_code (inorder (tracepoints sg))"
    and "trampolines sg \<noteq> 0" "4 dvd unat (trampolines sg)" "unat (trampolines sg) + unat (trampolines_size sg) < 2 ^ 32"
    and "trampoline_area sg \<inter> code_of sg = {}" "steady b (code_of sg \<union> trampoline_area sg) t"
    and "tree_ok (t_jumps t)" "\<forall>x \<in> code_of sg. contents (t_mem t) x = orig x \<and> tree_map (t_jumps t) x = None"
  shows "\<exists>seg' t'. install_loop templates lib h b (map entry (tree_iter (tracepoints sg))) sg t = Inr (True, seg', t')
    \<and> steady b (code_of sg \<union> trampoline_area sg) t' \<and> installed contents (code_of sg) orig (tree_map (t_jumps t)) seg' t'
    \<and> seg' = sg\<lparr>tracepoints := tracepoints seg'\<rparr> \<and> (\<forall>k. tree_map (tracepoints seg') k = map_option (reloc (trampolines sg)) (tree_map (tracepoints sg) k))
    \<and> (\<forall>tp \<in> set (tree_vals (tracepoints seg')). leads (contents (t_mem t')) (tree_map (t_jumps t')) tp)"
proof -
  let ?ts = "tracepoints sg" and ?T = "trampolines sg" and ?C = "code_of sg" and ?R = "code_of sg \<union> trampoline_area sg"
  have ok: "tree_ok ?ts" using assms(3) by (simp add: created_def)
  have dist: "distinct (map fst (inorder ?ts))" using ok by (simp add: tree_ok_def strict_sorted_iff)
  have ent: "tree_map ?ts j = Some tp \<longleftrightarrow> (j, tp) \<in> set (inorder ?ts)" for j tp using tree_ok_map_entry [OF ok] .
  have inst: "installable templates orig ?C ?R (reloc ?T tp)" "tp_trampoline (reloc ?T tp) \<noteq> 0" "tree_map (t_jumps t) (tp_address tp) = None"
    if "(j, tp) \<in> set (inorder ?ts)" for j tp
  proof -
    have tp: "tp \<in> set (tree_vals ?ts)" using that by (force simp: tree_vals_inorder)
    then show i: "installable templates orig ?C ?R (reloc ?T tp)" "tp_trampoline (reloc ?T tp) \<noteq> 0"
      using reloc_installable [OF assms(3,6-9) tp] assms(4) by auto
    then have "tp_address tp \<in> ?C" using address_in_range [of tp] by (auto simp: installable_def)
    then show "tree_map (t_jumps t) (tp_address tp) = None" using assms(12) by blast
  qed
  then have pre: "\<forall>(j, tp) \<in> set (inorder ?ts). tree_map ?ts j = Some tp \<and> installable templates orig ?C ?R (reloc ?T tp)
      \<and> tree_map (t_jumps t) (tp_address tp) = None" using ent by auto
  obtain seg' t' where run: "install_loop templates lib h b (map entry (tree_iter ?ts)) sg t = Inr (True, seg', t')"
    and il: "steady b ?R t'" "tree_ok (t_jumps t')" "tree_ok (tracepoints seg')" "seg' = sg\<lparr>tracepoints := tracepoints seg'\<rparr>"
      "tree_map (tracepoints seg') = (\<lambda>j. case map_of (inorder ?ts) j of None \<Rightarrow> tree_map ?ts j | Some tp \<Rightarrow> Some (reloc ?T tp))"
      "\<forall>x \<in> ?C. (\<forall>(j, tp) \<in> set (inorder ?ts). x \<notin> tp_range tp) \<longrightarrow> contents (t_mem t') x = contents (t_mem t) x"
      "\<forall>a. (\<forall>(j, tp) \<in> set (inorder ?ts). a \<noteq> tp_address tp) \<longrightarrow> tree_map (t_jumps t') a = tree_map (t_jumps t) a"
      "\<forall>a v. tree_map (t_jumps t') a = Some v \<longrightarrow> tree_map (t_jumps t) a = Some v \<or> (\<exists>(j, tp) \<in> set (inorder ?ts). v = tp_trampoline (reloc ?T tp))"
      "\<forall>(j, tp) \<in> set (inorder ?ts). leads (contents (t_mem t')) (tree_map (t_jumps t')) (reloc ?T tp)"
    unfolding tree_iter_entries
    using install_loop_spec [OF assms(1) steady_traced assms(2,10,11) ok dist assms(5) pre, of h] by auto
  have m: "tree_map (tracepoints seg') j = map_option (reloc ?T) (tree_map ?ts j)" for j
    unfolding il(5) by (simp add: tree_map_def split: option.splits)
  have ent': "(j, tp') \<in> set (inorder (tracepoints seg')) \<longleftrightarrow> (\<exists>tp. (j, tp) \<in> set (inorder ?ts) \<and> tp' = reloc ?T tp)" for j tp'
    using tree_ok_map_entry [OF il(3), of j tp'] ent by (auto simp: m)
  have vals: "set (tree_vals (tracepoints seg')) = reloc ?T ` snd ` set (inorder ?ts)"
    using ent' by (force simp: tree_vals_inorder)
  have 1: "\<forall>tp \<in> set (tree_vals (tracepoints seg')). tp_ok orig tp \<and> tp_range tp \<subseteq> ?C"
    unfolding vals using inst(1) unfolding installable_def by fastforce
  have 2: "\<forall>x \<in> ?C. (\<forall>tp \<in> set (tree_vals (tracepoints seg')). x \<notin> tp_range tp) \<longrightarrow> contents (t_mem t') x = orig x"
    unfolding vals using il(6) assms(12) by (auto simp: split_beta)
  have 3: "\<forall>a. (\<forall>tp \<in> set (tree_vals (tracepoints seg')). a \<noteq> tp_address tp) \<longrightarrow> tree_map (t_jumps t') a = tree_map (t_jumps t) a"
    unfolding vals using il(7) by (auto simp: split_beta)
  have 4: "\<forall>a v. tree_map (t_jumps t') a = Some v \<longrightarrow> tree_map (t_jumps t) a = Some v \<or> v \<noteq> 0"
    using il(8) inst(2) by (fastforce split: prod.splits)
  have 5: "\<forall>tp \<in> set (tree_vals (tracepoints seg')). leads (contents (t_mem t')) (tree_map (t_jumps t')) tp"
    unfolding vals using il(9) by (auto simp: split_beta)
  show ?thesis unfolding installed_def using run il(1-4) m 1 2 3 4 5 by blast
qed

lemma tracepoints_init_installed:
  assumes "inferior b contents" "tree_library tlib" "tree_library lib" "tracepoints_found tlib templates k h b contents t seg sg"
    and "area_found fc pagesize fuel b contents t sg sg1 t1"
  shows "\<exists>seg' t'. tracepoints_init tlib lib templates h b fc pagesize fuel t seg = Inr (seg', t') \<and> steady b (code_of seg) t'
    \<and> installed contents (code_of seg) (contents (t_mem t)) (tree_map (t_jumps t)) seg' t' \<and> trampolines seg' \<noteq> 0
    \<and> (\<forall>k. tree_map (tracepoints seg') k = map_option (reloc (trampolines sg1)) (tree_map (tracepoints sg) k))
    \<and> (\<forall>tp \<in> set (tree_vals (tracepoints seg')). leads (contents (t_mem t')) (tree_map (t_jumps t')) tp)"
proof -
  note f = assms(4) [unfolded tracepoints_found_def] and a = assms(5) [unfolded area_found_def]
  let ?seg0 = "seg\<lparr>trampolines_size := 0\<rparr>" and ?orig = "contents (t_mem t)"
  obtain i tps where i: "injection seg = Some i" "inj_tpoints (injection_injfile i) \<noteq> None" "injfile_iter_tpoints (injection_injfile i) = Inr tps"
      "create_loop tlib templates h b (injection_address i) tps ?seg0 t = Inr (sg, t)" "length tps * k < 2 ^ 32" "tpoints_within seg tps"
    using f by blast
  have "created templates ?orig ?seg0" using f by (simp add: created_def tree_vals_inorder tree_ok_def)
  moreover have "tpoints_within ?seg0 tps" "\<forall>x \<in> code_of ?seg0. ?orig x \<noteq> None"
    using i(6) f by (simp_all add: tpoints_within_def segment_fo2addr_def code_of_def)
  ultimately have cl: "created templates ?orig sg" "code_of sg = code_of seg"
    using create_loop_spec [of b contents t tlib templates k ?seg0 tps h "injection_address i" sg t] assms(1,2) f i(4,5) by (auto simp: code_of_def)
  have sm: "same_tracepoints sg sg1" using a allocate_trampoline_keeps by blast
  note cr = created_same [OF cl(1) sm]
  have code: "\<forall>x \<in> code_of sg1. contents (t_mem t1) x = ?orig x \<and> tree_map (t_jumps t1) x = None"
    using a f cr(2) cl(2) by (auto simp: kept_def)
  have pre: "\<forall>tp \<in> set (tree_vals (tracepoints sg1)). has_handler templates tp" "disjoint_code (inorder (tracepoints sg1))"
    "trampolines sg1 \<noteq> 0" "4 dvd unat (trampolines sg1)" "unat (trampolines sg1) + unat (trampolines_size sg1) < 2 ^ 32"
    "trampoline_area sg1 \<inter> code_of sg1 = {}" "steady b (code_of sg1 \<union> trampoline_area sg1) t1" "tree_ok (t_jumps t1)" "t_jumps t1 = t_jumps t"
    using f a unfolding cr(2,3) by (auto simp: kept_def)
  obtain seg' t' where il: "install_loop templates lib h b (map entry (tree_iter (tracepoints sg1))) sg1 t1 = Inr (True, seg', t')"
      "steady b (code_of sg1 \<union> trampoline_area sg1) t'" "installed contents (code_of sg1) ?orig (tree_map (t_jumps t1)) seg' t'"
      "seg' = sg1\<lparr>tracepoints := tracepoints seg'\<rparr>" "\<forall>k. tree_map (tracepoints seg') k = map_option (reloc (trampolines sg1)) (tree_map (tracepoints sg1) k)"
      "\<forall>tp \<in> set (tree_vals (tracepoints seg')). leads (contents (t_mem t')) (tree_map (t_jumps t')) tp"
    using install_all [OF assms(1,3) cr(1) pre(1-8) code] by blast
  have "steady b (code_of seg) t'" using il(2) writable_in_subset unfolding steady_def can_write_def cr(2) cl(2) by blast
  moreover have "tracepoints_init tlib lib templates h b fc pagesize fuel t seg = Inr (seg', t')"
    using i(1-4) f a il(1) by (auto simp: tracepoints_init_def tree_empty_def)
  moreover have "trampolines seg' \<noteq> 0" using pre(3) by (subst il(4)) simp
  ultimately show ?thesis using il(3,5,6) pre(9) unfolding cr(2,3) cl(2) by auto
qed

lemma without_installed_jumps:
  assumes "installed contents C orig js seg t" "\<forall>a \<in> C. js a = None"
  shows "without_jumps (tp_address ` set (tree_vals (tracepoints seg))) (tree_map (t_jumps t)) = js"
proof
  fix a
  note i = assms(1) [unfolded installed_def]
  let ?A = "tp_address ` set (tree_vals (tracepoints seg))"
  show "without_jumps ?A (tree_map (t_jumps t)) a = js a"
  proof (cases "a \<in> ?A")
    case True
    then obtain tp where "tp \<in> set (tree_vals (tracepoints seg))" "a = tp_address tp" by blast
    moreover have "tp_range tp \<subseteq> C" using i calculation(1) by blast
    ultimately have "js a = None" using assms(2) address_in_range [of tp] by auto
    moreover have "tree_map (t_jumps t) a \<noteq> Some 0" using i calculation by force
    ultimately show ?thesis using True by (simp add: without_jumps_def)
  next
    case False
    then show ?thesis using i by (auto simp: without_jumps_def)
  qed
qed

lemma tracepoints_detach_installed:
  assumes "inferior b contents" "tree_library tlib" "tree_library lib" "installed contents C orig js seg t" "\<forall>a \<in> C. js a = None"
    and "trampolines seg \<noteq> 0 \<longrightarrow> trampoline_free fc t seg = Inr (r, t1)" "trampolines seg = 0 \<longrightarrow> t1 = t" "kept b contents C C t t1"
    and "size (tracepoints seg) \<le> fuel"
  shows "\<exists>seg' t'. tracepoints_detach tlib lib h b fc fuel t seg = Inr (seg', t') \<and> tracepoints seg' = Leaf \<and> trampolines seg' = 0
    \<and> (\<forall>x \<in> C. contents (t_mem t') x = orig x) \<and> tree_map (t_jumps t') = js"
proof -
  note i = assms(4) [unfolded installed_def] and k = assms(8) [unfolded kept_def]
  let ?A = "tp_address ` set (tree_vals (tracepoints seg))" and ?run = "remove_loop tlib lib h b True fuel (tracepoints seg) t1"
  have rl: "(size (tracepoints seg) \<le> fuel \<longrightarrow> no_fault ?run)
      \<and> (\<forall>t'. ?run = Inr t' \<longrightarrow> steady b C t' \<and> tree_ok (t_jumps t')
        \<and> (\<forall>x \<in> C. contents (t_mem t') x = orig x) \<and> tree_map (t_jumps t') = without_jumps ?A (tree_map (t_jumps t1)))"
    by (rule remove_loop_restores [OF assms(1) steady_traced assms(3,2)]) (use i k in auto)
  then obtain t' where "?run = Inr t'" using assms(9) by (auto simp: no_fault_def)
  moreover have "(if trampolines seg \<noteq> 0 then res_bind (trampoline_free fc t seg) (\<lambda>(_, t). Inr t) else Inr t) = Inr t1"
    using assms(6,7) by auto
  ultimately show ?thesis using rl without_installed_jumps [OF assms(4,5)] k
    by (simp add: tracepoints_detach_def tracepoints_cleanup_def)
qed

text \<open>C1: the tracepoints of a segment can be installed and removed again: under the conditions of the installation (see
  \<open>tracepoints_found\<close> and \<open>area_found\<close>), it returns; and if, after whatever the process did without changing the code of the segment
  and the jump table, the memory of the trampolines is given back (the call in the process returned, the thread is stopped, and the
  code, which can be written, and the jump table are unchanged), then the removal of the tracepoints on detaching returns, with fuel
  for as many rounds as there are tracepoints, and gives back the original code of the segment and the original jump table, and
  leaves no tracepoint and no trampoline behind.\<close>

theorem tracepoints_detach_restores:
  assumes "inferior b contents" "tree_library tlib" "tree_library lib" "tracepoints_found tlib templates k h b contents t seg sg"
    and "area_found fc pagesize fuel b contents t sg sg1 t1"
  shows "\<exists>seg' t'. tracepoints_init tlib lib templates h b fc pagesize fuel t seg = Inr (seg', t') \<and> steady b (code_of seg) t'
    \<and> (\<forall>t2 r t3 fuel'. t_jumps t2 = t_jumps t' \<and> (\<forall>x \<in> code_of seg. contents (t_mem t2) x = contents (t_mem t') x)
         \<and> trampoline_free fc t2 seg' = Inr (r, t3) \<and> kept b contents (code_of seg) (code_of seg) t2 t3
         \<and> size (tracepoints seg') \<le> fuel' \<longrightarrow>
         (\<exists>seg'' t''. tracepoints_detach tlib lib h b fc fuel' t2 seg' = Inr (seg'', t'')
           \<and> tracepoints seg'' = Leaf \<and> trampolines seg'' = 0
           \<and> (\<forall>x \<in> code_of seg. contents (t_mem t'') x = contents (t_mem t) x) \<and> tree_map (t_jumps t'') = tree_map (t_jumps t)))"
proof -
  obtain seg' t' where init: "tracepoints_init tlib lib templates h b fc pagesize fuel t seg = Inr (seg', t')"
      "installed contents (code_of seg) (contents (t_mem t)) (tree_map (t_jumps t)) seg' t'" "trampolines seg' \<noteq> 0" "steady b (code_of seg) t'"
    using tracepoints_init_installed [OF assms] by blast
  have js: "\<forall>a \<in> code_of seg. tree_map (t_jumps t) a = None" using assms(4) by (simp add: tracepoints_found_def)
  have "\<exists>seg'' t''. tracepoints_detach tlib lib h b fc fuel' t2 seg' = Inr (seg'', t'')
      \<and> tracepoints seg'' = Leaf \<and> trampolines seg'' = 0
      \<and> (\<forall>x \<in> code_of seg. contents (t_mem t'') x = contents (t_mem t) x) \<and> tree_map (t_jumps t'') = tree_map (t_jumps t)"
    if "t_jumps t2 = t_jumps t'" "\<forall>x \<in> code_of seg. contents (t_mem t2) x = contents (t_mem t') x" "trampoline_free fc t2 seg' = Inr (r, t3)"
      "kept b contents (code_of seg) (code_of seg) t2 t3" "size (tracepoints seg') \<le> fuel'" for t2 r t3 fuel'
  proof -
    have "installed contents (code_of seg) (contents (t_mem t)) (tree_map (t_jumps t)) seg' t2"
      using init(2) that(1,2) unfolding installed_def by simp
    then show ?thesis
      using tracepoints_detach_installed [OF assms(1-3) _ js _ _ that(4,5)] that(3) init(3) by blast
  qed
  then show ?thesis using init(1,4) by blast
qed

text \<open>C2: the installation of the tracepoints of a segment: if they could be created (see \<open>tracepoints_found\<close>: the traced instructions
  do not overlap and are not at the very end of the segment, no jump starts in the code, the templates can be filled out) and memory for
  the trampolines was found (see \<open>area_found\<close>: aligned, apart from the code, and the code is unchanged and can be written), then the
  installation returns; it installs exactly the created tracepoints, each with its trampoline in the area; and every traced
  instruction has become a branch to its trampoline, or a breakpoint whose address the jump table maps to it; all other code of the
  segment is unchanged.\<close>

theorem tracepoints_init_leads:
  assumes "inferior b contents" "tree_library tlib" "tree_library lib" "tracepoints_found tlib templates k h b contents t seg sg"
    and "area_found fc pagesize fuel b contents t sg sg1 t1"
  shows "\<exists>seg' t'. tracepoints_init tlib lib templates h b fc pagesize fuel t seg = Inr (seg', t') \<and> steady b (code_of seg) t'
    \<and> (\<forall>k. tree_map (tracepoints seg') k = map_option (reloc (trampolines sg1)) (tree_map (tracepoints sg) k))
    \<and> (\<forall>tp \<in> set (tree_vals (tracepoints seg')). leads (contents (t_mem t')) (tree_map (t_jumps t')) tp
        \<and> insn_at (contents (t_mem t)) (tp_address tp) (tp_insn_kind tp) (tp_insn tp))
    \<and> (\<forall>x \<in> code_of seg. (\<forall>tp \<in> set (tree_vals (tracepoints seg')). x \<notin> tp_range tp) \<longrightarrow> contents (t_mem t') x = contents (t_mem t) x)"
proof -
  obtain seg' t' where "tracepoints_init tlib lib templates h b fc pagesize fuel t seg = Inr (seg', t')" "steady b (code_of seg) t'"
      "installed contents (code_of seg) (contents (t_mem t)) (tree_map (t_jumps t)) seg' t'"
      "\<forall>k. tree_map (tracepoints seg') k = map_option (reloc (trampolines sg1)) (tree_map (tracepoints sg) k)"
      "\<forall>tp \<in> set (tree_vals (tracepoints seg')). leads (contents (t_mem t')) (tree_map (t_jumps t')) tp"
    using tracepoints_init_installed [OF assms] by blast
  then show ?thesis unfolding installed_def tp_ok_def by blast
qed

section \<open>An installation\<close>

text \<open>One Thumb tracepoint at \<open>0x8010\<close>; its trampoline at \<open>0x7000\<close> is out of the reach of a branch.\<close>

definition mmap_calls :: "'m fncalls" where
  "mmap_calls = \<lparr>call_mmap = \<lambda>t a sz p f fd ofs. Inr (Some a, t), call_allocate = \<lambda>t sz. Inr (None, t),
     call_free = \<lambda>t a sz. Inr (True, t), call_mprotect = \<lambda>t a sz p. Inr (True, t)\<rparr>"

definition short_template :: "arm_template \<Rightarrow> arm_field_id template_t" where
  "short_template = (\<lambda>_. \<lparr>bindata = [1, 2, 3, 4], template_fields = [\<lparr>field = TF_NULL, offset = 0\<rparr>], template_name = []\<rparr>)"

definition one_tpoint :: injfile_t where
  "one_tpoint = \<lparr>inj_image = [0x11, 0, 0, 0, 4, 0, 0, 0, 0, 0, 0, 0], inj_version = 0, inj_flags = 0, inj_code_size = 0, inj_code = None,
     inj_name = None, inj_comment = None, inj_adbi = None, inj_imports = None, inj_exports = None, inj_tpoints = Some 0, inj_strings = None,
     inj_lines = None\<rparr>"

definition traced_code :: traced_segment where
  "traced_code = \<lparr>start = 0x8000, seg_end = 0x9000, filename = Some [], file_offset = 0, flags = 5, state = SEGMENT_STATE_NEW,
     injection = Some \<lparr>injection_address = 0x30000, injection_injfile = one_tpoint\<rparr>, tracepoints = Leaf, trampolines = 0,
     trampolines_size = 0, trampoline_stolen = False\<rparr>"

definition one_tracepoint :: tracepoint_t where
  "one_tracepoint = \<lparr>tp_address = 0x8010, tp_trampoline = 0, tp_handler = 0x30004, tp_insn = 0, tp_insn_kind = INSN_KIND_THUMB,
     tp_template = Thumb_generic\<rparr>"

lemma one_tpoint_list: "injfile_iter_tpoints one_tpoint = Inr [(0x11, 4)]" by code_simp

lemma one_tracepoint_create: "tracepoint_create no_hooks byte_memory call_thread 0x8011 0x30004 = Inr (Some one_tracepoint, call_thread)"
proof -
  let ?m = "thread_mem no_hooks byte_memory"
  have i: "inferior ?m (\<lambda>t. t_mem t)" by (rule thread_mem_inferior [OF mem32.inferior_axioms])
  have b2: "bytes_at c a 2 = [the (c a), the (c (a + 1))]" for c and a :: u32 by (simp add: bytes_at_def upt_conv_Cons)
  have s2: "span a 2 = {a, a + 1}" for a :: u32 by (auto simp: span_def lessThan_nat_numeral lessThan_Suc)
  have "\<not> thread_dead ?m call_thread" using call_thread_ready(1) by (simp add: thread_mem_def halted_def)
  then have rd: "mem_read ?m call_thread 0x8010 2 = ([0, 0], call_thread)"
    using mem_read_bytes [OF i, where a = "0x8010" and n = 2 and k = 2 and m = call_thread]
    by (simp add: b2 s2 call_thread_ready(7) process_mem_def)
  have "template_select_thumb 0 = Inr (Some Thumb_generic)" by code_simp
  moreover have "is_thumb2_halfword 0 = Inr False" by code_simp
  ultimately show ?thesis
    by (simp add: tracepoint_create_def arm_detect_kind_from_unaligned_address_def patch_read_insn_detect_kind_def patch_read_insn_def rd
        arm_check_align_def arm_align_bits_def template_select_def one_tracepoint_def)
qed

definition created_code :: traced_segment where
  "created_code = traced_code\<lparr>tracepoints := Node Leaf (0x8011, one_tracepoint) Leaf, trampolines_size := 4\<rparr>"

lemma one_create_loop:
  "create_loop (leaf_lib one_tracepoint) short_template no_hooks byte_memory 0x30000 [(0x11, 4)] traced_code call_thread = Inr (created_code, call_thread)"
  by (simp add: segment_fo2addr_def traced_code_def one_tracepoint_create tree_insert_def leaf_lib_def set_val_def node_tree_def short_template_def created_code_def one_tracepoint_def)

lemma one_allocate:
  "allocate_trampoline mmap_calls 0x1000 3 call_thread created_code = Inr (True, created_code\<lparr>trampolines := 0x7000\<rparr>, call_thread)"
proof -
  have al: "fncall_align_to_page 0x1000 1 = 0x1000" "fncall_align_to_page 0x1000 4 = 0x1000" "fncall_align_to_page 0x1000 0x8010 = 0x9000" by code_simp+
  have rj: "arch_check_relative_jump 0x8010 0x7000" "arch_check_relative_jump 0x8010 0x6000" "arch_check_relative_jump 0x8010 0xa000" by code_simp+
  have tv: "map tp_address (tree_vals (tracepoints created_code)) = [0x8010]" by (simp add: created_code_def one_tracepoint_def tree_vals_inorder)
  have sg: "start created_code = 0x8000" "seg_end created_code = 0x9000" "trampolines_size created_code = 4" "t_segments call_thread = Leaf"
    by (simp_all add: created_code_def traced_code_def call_thread_def)
  have gt: "segment_get Leaf a = None" for a :: u32 by (simp add: segment_get_def tree_get_le_def tree_get_node_le_def tree_get_close_node_def)
  show ?thesis
    by (simp add: allocate_trampoline_def tracepoint_iter_free_segments_around_def Let_def tv sg al rj numeral_3_eq_3 round_below_def gt
        find_coherent_def trampoline_mmap_def mmap_calls_def)
qed

lemma one_hypotheses:
  "tracepoints_found (leaf_lib one_tracepoint) short_template 4 no_hooks byte_memory (\<lambda>m. m) call_thread traced_code created_code"
  "area_found mmap_calls 0x1000 3 byte_memory (\<lambda>m. m) call_thread created_code (created_code\<lparr>trampolines := 0x7000\<rparr>) call_thread"
proof -
  have sc: "start traced_code = 0x8000" "seg_end traced_code = 0x9000" "tracepoints traced_code = Leaf"
      "injection traced_code = Some \<lparr>injection_address = 0x30000, injection_injfile = one_tpoint\<rparr>"
      "traced_code\<lparr>trampolines_size := 0\<rparr> = traced_code" "inj_tpoints one_tpoint = Some 0"
    by (simp_all add: traced_code_def one_tpoint_def)
  have code: "code_of traced_code = {x. 0x8000 \<le> x \<and> x < 0x9000}" "code_of created_code = {x. 0x8000 \<le> x \<and> x < 0x9000}"
    by (simp_all add: code_of_def sc created_code_def)
  have "length (bindata (short_template x)) = 4" for x by (simp add: short_template_def)
  then have tm: "templates_ok short_template 4" by (simp only: templates_ok_def) simp
  have "segment_fo2addr traced_code 0x11 = Inr 0x8011" by (simp add: segment_fo2addr_def traced_code_def)
  then have within: "tpoints_within traced_code [(0x11, 4)]" by (simp add: tpoints_within_def sc)
  have hd: "template_get_handler (short_template Thumb_generic) 0x8010 0x30004 0 INSN_KIND_THUMB = Inr [1, 2, 3, 4]" by code_simp
  have one: "tree_vals (tracepoints created_code) = [one_tracepoint]" "disjoint_code (inorder (tracepoints created_code))"
      "tracepoints created_code \<noteq> Leaf"
    by (simp_all add: created_code_def tree_vals_inorder disjoint_code_def)
  have handler: "has_handler short_template one_tracepoint" using hd by (simp add: has_handler_def one_tracepoint_def no_fault_def)
  have mem: "\<not> x < 0x1000" if "0x8000 \<le> x" for x :: u32 using that by (simp add: word_le_nat_alt word_less_nat_alt)
  have js: "t_jumps call_thread = Leaf" by (simp add: call_thread_def)
  show "tracepoints_found (leaf_lib one_tracepoint) short_template 4 no_hooks byte_memory (\<lambda>m. m) call_thread traced_code created_code"
    unfolding tracepoints_found_def code(1)
    using one_tpoint_list one_create_loop within one handler tm call_thread_ready(1) mem
    by (auto simp: sc js call_thread_ready(7) process_mem_def tree_ok_def tree_map_def)
  let ?sg = "created_code\<lparr>trampolines := 0x7000\<rparr>"
  have tr: "trampolines ?sg = 0x7000" "trampolines_size ?sg = 4" by (simp_all add: created_code_def)
  have a: "0x7000 \<le> x \<and> x < 0x7004" if "x \<in> span 0x7000 4" for x :: u32
    using that unat_add_nat [of "0x7000 :: u32"] by (auto simp: span_def word_le_nat_alt word_less_nat_alt)
  have sp: "trampoline_area ?sg = span 0x7000 4" unfolding trampoline_area_def tr by simp
  have apart: "trampoline_area ?sg \<inter> code_of created_code = {}"
    unfolding sp code using a by (fastforce simp: word_le_nat_alt word_less_nat_alt)
  have "mapped_in (code_of created_code \<union> trampoline_area ?sg) (process_mem 0)"
    unfolding sp code by (rule process_mem_mapped) (use a in \<open>fastforce simp: word_le_nat_alt word_less_nat_alt\<close>)
  then have "steady byte_memory (code_of created_code \<union> trampoline_area ?sg) call_thread"
    using call_thread_ready(1,7) by (simp add: steady_def byte_memory_can_write)
  then show "area_found mmap_calls 0x1000 3 byte_memory (\<lambda>m. m) call_thread created_code ?sg call_thread"
    using one_allocate apart by (simp add: area_found_def kept_def tr)
qed

lemma leaf_libs: "tree_library (leaf_lib one_tracepoint)" "tree_library (leaf_lib (0 :: u32))"
  by (rule leaf_lib_contract)+

theorem tracepoints_detach_restores_witness:
  "\<exists>seg' t' seg'' t''. tracepoints_init (leaf_lib one_tracepoint) (leaf_lib 0) short_template no_hooks byte_memory mmap_calls 0x1000 3 call_thread traced_code
      = Inr (seg', t') \<and> tracepoints seg' \<noteq> Leaf
    \<and> tracepoints_detach (leaf_lib one_tracepoint) (leaf_lib 0) no_hooks byte_memory mmap_calls (size (tracepoints seg')) t' seg' = Inr (seg'', t'')
    \<and> tracepoints seg'' = Leaf \<and> t_mem t'' 0x8010 = Some 0"
proof -
  note hyp = mem32.inferior_axioms leaf_libs one_hypotheses
  have c: "0x8010 \<in> code_of traced_code" "t_mem call_thread 0x8010 = Some 0"
    by (simp_all add: code_of_def traced_code_def call_thread_ready(7) process_mem_def)
  obtain seg' t' where i: "tracepoints_init (leaf_lib one_tracepoint) (leaf_lib 0) short_template no_hooks byte_memory mmap_calls 0x1000 3 call_thread traced_code
      = Inr (seg', t')" "steady byte_memory (code_of traced_code) t'"
    and d: "\<forall>t2 r t3 fuel'. t_jumps t2 = t_jumps t' \<and> (\<forall>x \<in> code_of traced_code. t_mem t2 x = t_mem t' x)
         \<and> trampoline_free mmap_calls t2 seg' = Inr (r, t3) \<and> kept byte_memory (\<lambda>m. m) (code_of traced_code) (code_of traced_code) t2 t3
         \<and> size (tracepoints seg') \<le> fuel' \<longrightarrow>
         (\<exists>seg'' t''. tracepoints_detach (leaf_lib one_tracepoint) (leaf_lib 0) no_hooks byte_memory mmap_calls fuel' t2 seg' = Inr (seg'', t'')
           \<and> tracepoints seg'' = Leaf \<and> trampolines seg'' = 0
           \<and> (\<forall>x \<in> code_of traced_code. t_mem t'' x = t_mem call_thread x) \<and> tree_map (t_jumps t'') = tree_map (t_jumps call_thread))"
    using tracepoints_detach_restores [OF hyp] by (elim exE conjE) (rule that)
  have "tree_map (tracepoints seg') 0x8011 \<noteq> None"
    using tracepoints_init_installed [OF hyp] i(1) by (auto simp: created_code_def tree_map_def)
  then have "tracepoints seg' \<noteq> Leaf" by (auto simp: tree_map_def)
  moreover have "trampoline_free mmap_calls t' seg' = Inr (True, t')" by (simp add: trampoline_free_def mmap_calls_def)
  moreover have "kept byte_memory (\<lambda>m. m) (code_of traced_code) (code_of traced_code) t' t'" using i(2) by (simp add: kept_def)
  ultimately show ?thesis using i(1) d c by fastforce
qed

theorem tracepoints_init_leads_witness:
  "\<exists>seg' t'. tracepoints_init (leaf_lib one_tracepoint) (leaf_lib 0) short_template no_hooks byte_memory mmap_calls 0x1000 3 call_thread traced_code
      = Inr (seg', t') \<and> leads (t_mem t') (tree_map (t_jumps t')) (one_tracepoint\<lparr>tp_trampoline := 0x7000\<rparr>)"
proof -
  obtain seg' t' where i: "tracepoints_init (leaf_lib one_tracepoint) (leaf_lib 0) short_template no_hooks byte_memory mmap_calls 0x1000 3 call_thread traced_code
      = Inr (seg', t')" "\<forall>k. tree_map (tracepoints seg') k = map_option (reloc 0x7000) (tree_map (tracepoints created_code) k)"
      "\<forall>tp \<in> set (tree_vals (tracepoints seg')). leads (t_mem t') (tree_map (t_jumps t')) tp"
    using tracepoints_init_leads [OF mem32.inferior_axioms leaf_libs one_hypotheses] by auto
  have "tree_map (tracepoints seg') 0x8011 = Some (one_tracepoint\<lparr>tp_trampoline := 0x7000\<rparr>)"
    using i(2) by (simp add: created_code_def tree_map_def reloc_def one_tracepoint_def)
  then have "one_tracepoint\<lparr>tp_trampoline := 0x7000\<rparr> \<in> set (tree_vals (tracepoints seg'))"
    by (auto simp: tree_map_def tree_vals_inorder dest!: map_of_SomeD intro: rev_image_eqI)
  then show ?thesis using i(1,3) by blast
qed

end
