(* ===== verification/Trampoline_Area.thy ===== *)
theory Trampoline_Area
  imports Tracepoint
begin

text \<open>
  The memory the trampolines are put into. The areas the search offers are mapped with \<^verbatim>\<open>MAP_FIXED\<close>, which replaces whatever
  is mapped there: an area of one page is always free, a greater one above the segment need not be.
\<close>

definition page_aligned :: "u32 \<Rightarrow> bool" where
  "page_aligned a \<longleftrightarrow> 0x1000 dvd a"

lemma page_aligned_closed:
  "page_aligned a \<Longrightarrow> page_aligned b \<Longrightarrow> page_aligned (a + b)" "page_aligned a \<Longrightarrow> page_aligned b \<Longrightarrow> page_aligned (a - b)"
  "page_aligned 0x1000" "page_aligned (fncall_align_to_page 0x1000 n)"
  by (simp_all add: page_aligned_def fncall_align_to_page_def)

lemma page_aligned_unat:
  assumes "page_aligned a"
  shows "4096 dvd unat a"
proof -
  obtain k where "a = 0x1000 * k" using assms by (auto simp: page_aligned_def)
  then have "unat a = 4096 * unat k mod 2 ^ 32" by (simp add: unat_word_ariths)
  moreover have "(4096 :: nat) dvd 2 ^ 32" by (rule dvdI [of _ _ "2 ^ 20"]) simp
  ultimately show ?thesis by (simp add: dvd_mod)
qed

text \<open>The table of segments of a process: their bounds are at page boundaries.\<close>

definition pages_ok :: "(u32, unit, unit) segments \<Rightarrow> bool" where
  "pages_ok segs \<longleftrightarrow> segments_ok segs \<and> (\<forall>s \<in> set (tree_vals segs). page_aligned (start s) \<and> page_aligned (seg_end s))"

definition overlaps :: "(u32, unit, unit) segments \<Rightarrow> u32 \<Rightarrow> u32 \<Rightarrow> bool" where
  "overlaps segs a sz \<longleftrightarrow> (\<exists>s \<in> set (tree_vals segs). \<exists>j < unat sz. segment_contains s (a + of_nat j))"

lemma free_page:
  assumes "pages_ok segs" "page_aligned a" "segment_get segs a = None"
  shows "\<not> overlaps segs a 0x1000"
proof
  assume "overlaps segs a 0x1000"
  then obtain s j where s: "s \<in> set (tree_vals segs)" "j < 4096" "segment_contains s (a + of_nat j)" by (auto simp: overlaps_def)
  have al: "4096 dvd unat a" "4096 dvd unat (start s)" "4096 dvd unat (seg_end s)"
    using assms(1,2) s(1) page_aligned_unat by (auto simp: pages_ok_def)
  have "unat a < 2 ^ 32" using unsigned_less [of a] by simp
  then have "unat a + j < 2 ^ 32" using al(1) s(2) by (elim dvdE) simp
  then have u: "unat (a + of_nat j) = unat a + j" by (simp add: unat_word_ariths unat_of_nat take_bit_nat_eq_self)
  have "unat (start s) \<le> unat a + j" "unat a + j < unat (seg_end s)"
    using s(3) by (simp_all add: segment_contains_def word_le_nat_alt word_less_nat_alt u)
  then have "unat (start s) \<le> unat a" "unat a < unat (seg_end s)" using al s(2) by (auto elim!: dvdE)
  then have "segment_contains s a" by (simp add: segment_contains_def word_le_nat_alt word_less_nat_alt)
  then show False using assms(1,3) s(1) segment_get_iff [of segs a s] by (simp add: pages_ok_def)
qed

text \<open>
  What may be offered: one free page, or a segment of the table that is unused (no access rights, private, no file) and that a jump
  from the traced instructions between \<open>low\<close> and \<open>hi\<close> reaches. \<open>guarded\<close> is a callback that faults on anything else.
\<close>

definition offer_ok :: "(u32, unit, unit) segments \<Rightarrow> u32 \<Rightarrow> u32 \<Rightarrow> u32 \<Rightarrow> u32 \<Rightarrow> (u32, unit, unit) segment_t option \<Rightarrow> bool" where
  "offer_ok segs low hi a sz found \<longleftrightarrow>
     (case found of
        None \<Rightarrow> page_aligned a \<and> sz = 0x1000 \<and> \<not> overlaps segs a sz
      | Some f \<Rightarrow> f \<in> set (tree_vals segs) \<and> segment_is_unused f
          \<and> (arch_check_relative_jump hi (start f) \<or> arch_check_relative_jump low (seg_end f)))"

definition guarded :: "(u32, unit, unit) segments \<Rightarrow> u32 \<Rightarrow> u32 \<Rightarrow> 's search_fn \<Rightarrow> 's search_fn" where
  "guarded segs low hi fn s a sz found = (if offer_ok segs low hi a sz found then fn s a sz found else Inl Assertion)"

lemma segment_get_member: "pages_ok segs \<Longrightarrow> segment_get segs a = Some s \<Longrightarrow> s \<in> set (tree_vals segs)"
  using segment_get_iff [of segs a s] by (simp add: pages_ok_def)

lemma grow_one_page:
  assumes "max_size \<le> 0x1000" "0 < n"
  shows "grow_below segs hi addr pg max_size n 0x1000 ss sc = Inr (0x1000, ss, sc)"
    "grow_above segs low addr pg max_size n 0x1000 sc = Inr (0x1000, sc)"
proof -
  obtain k where "n = Suc k" using assms(2) by (cases n) auto
  moreover have "\<not> 0x1000 < max_size" using assms(1) by (simp add: not_less)
  ultimately show "grow_below segs hi addr pg max_size n 0x1000 ss sc = Inr (0x1000, ss, sc)"
    "grow_above segs low addr pg max_size n 0x1000 sc = Inr (0x1000, sc)"
    by (simp_all only: grow_below.simps grow_above.simps simp_thms if_False)
qed

lemma segment_size_aligned:
  "pages_ok segs \<Longrightarrow> segment_get segs a = Some s \<Longrightarrow> page_aligned (seg_end s - start s)"
  using segment_get_iff [of segs a s] by (auto simp: pages_ok_def intro: page_aligned_closed(2))

lemma round_below_guarded:
  assumes "pages_ok segs" "page_aligned addr" "page_aligned (beoff sc)" "max_size \<le> 0x1000"
  shows "round_below segs hi addr 0x1000 max_size n (guarded segs low hi fn) sc s = round_below segs hi addr 0x1000 max_size n fn sc s"
    and "round_below segs hi addr 0x1000 max_size n fn sc s = Inr (r, sc', s') \<Longrightarrow> page_aligned (beoff sc') \<and> aboff sc' = aboff sc"
proof -
  have f: "segment_get segs (addr - beoff sc) = None \<Longrightarrow> \<not> overlaps segs (addr - beoff sc) 0x1000"
    by (intro free_page [OF assms(1)] page_aligned_closed(2) assms(2,3))
  moreover have "page_aligned (addr - beoff sc)" by (intro page_aligned_closed(2) assms(2,3))
  ultimately show "round_below segs hi addr 0x1000 max_size n (guarded segs low hi fn) sc s = round_below segs hi addr 0x1000 max_size n fn sc s"
    using assms(4) segment_get_member [OF assms(1)]
    by (cases "n = 0") (auto simp: round_below_def Let_def grow_one_page guarded_def offer_ok_def split: option.splits)
  show "round_below segs hi addr 0x1000 max_size n fn sc s = Inr (r, sc', s') \<Longrightarrow> page_aligned (beoff sc') \<and> aboff sc' = aboff sc"
    using assms(3,4) segment_size_aligned [OF assms(1)] page_aligned_closed(3)
    by (cases "n = 0") (auto simp: round_below_def Let_def grow_one_page res_bind_eq_Inr intro!: page_aligned_closed(1) split: option.splits)
qed

lemma round_above_guarded:
  assumes "pages_ok segs" "page_aligned addr" "page_aligned (aboff sc)" "max_size \<le> 0x1000"
  shows "round_above segs low addr 0x1000 max_size n (guarded segs low hi fn) sc s = round_above segs low addr 0x1000 max_size n fn sc s"
    and "round_above segs low addr 0x1000 max_size n fn sc s = Inr (r, sc', s') \<Longrightarrow> page_aligned (aboff sc') \<and> beoff sc' = beoff sc"
proof -
  have f: "segment_get segs (addr + aboff sc) = None \<Longrightarrow> \<not> overlaps segs (addr + aboff sc) 0x1000"
    by (intro free_page [OF assms(1)] page_aligned_closed(1) assms(2,3))
  moreover have "page_aligned (addr + aboff sc)" by (intro page_aligned_closed(1) assms(2,3))
  ultimately show "round_above segs low addr 0x1000 max_size n (guarded segs low hi fn) sc s = round_above segs low addr 0x1000 max_size n fn sc s"
    using assms(4) segment_get_member [OF assms(1)]
    by (cases "n = 0") (auto simp: round_above_def Let_def grow_one_page guarded_def offer_ok_def split: option.splits)
  show "round_above segs low addr 0x1000 max_size n fn sc s = Inr (r, sc', s') \<Longrightarrow> page_aligned (aboff sc') \<and> beoff sc' = beoff sc"
    using assms(3,4) segment_size_aligned [OF assms(1)] page_aligned_closed(3)
    by (cases "n = 0") (auto simp: round_above_def Let_def grow_one_page res_bind_eq_Inr intro!: page_aligned_closed(1) split: option.splits)
qed

lemma search_loop_guarded:
  assumes "pages_ok segs" "page_aligned addr" "max_size \<le> 0x1000" "page_aligned (beoff sc)" "page_aligned (aboff sc)"
  shows "search_loop down segs low hi addr 0x1000 max_size n (guarded segs low hi fn) sc s = search_loop down segs low hi addr 0x1000 max_size n fn sc s"
  using assms(4,5)
proof (induction n arbitrary: down sc s)
  case (Suc n)
  note below = round_below_guarded [OF assms(1,2) Suc.prems(1) assms(3), where n = n and fn = fn and s = s]
  note above = round_above_guarded [OF assms(1,2) Suc.prems(2) assms(3), where n = n and fn = fn and s = s]
  have b: "res_bind (round_below segs hi addr 0x1000 max_size n (guarded segs low hi fn) sc s) (\<lambda>(r, sc, s).
        if r then Inr (True, s) else search_loop True segs low hi addr 0x1000 max_size n (guarded segs low hi fn) sc s)
      = res_bind (round_below segs hi addr 0x1000 max_size n fn sc s) (\<lambda>(r, sc, s).
        if r then Inr (True, s) else search_loop True segs low hi addr 0x1000 max_size n fn sc s)"
    unfolding below(1) using below(2) Suc.prems(2) by (intro res_bind_cong) (auto intro!: Suc.IH)
  have a: "res_bind (round_above segs low addr 0x1000 max_size n (guarded segs low hi fn) sc s) (\<lambda>(r, sc, s).
        if r then Inr (True, s) else search_loop False segs low hi addr 0x1000 max_size n (guarded segs low hi fn) sc s)
      = res_bind (round_above segs low addr 0x1000 max_size n fn sc s) (\<lambda>(r, sc, s).
        if r then Inr (True, s) else search_loop False segs low hi addr 0x1000 max_size n fn sc s)"
    unfolding above(1) using above(2) Suc.prems(1) by (intro res_bind_cong) (auto intro!: Suc.IH)
  show ?case unfolding search_loop.simps a b using Suc.IH [OF Suc.prems] by simp
qed simp

definition four_segments :: "(u32, unit, unit) segments" where
  "four_segments = Node (Node (Node Leaf (0x5000, example_segment 0x5000 0x6000 0 5) Leaf) (0x7000, example_segment 0x7000 0x8000 0 5) Leaf)
     (0x8000, example_segment 0x8000 0x9000 0 5) (Node Leaf (0xa000, example_segment 0xa000 0xb000 0 3) Leaf)"

section \<open>Properties\<close>

text \<open>C3: Trampolines that fit into one page are only offered memory that the process does not use: a page that no segment of the
  table overlaps, or a whole segment of the table that has no access rights, is private and has no file, and that a jump reaches. The
  search does the same with a callback that faults on any other offer. The segments and the traced segment are at page boundaries,
  of 4096 bytes.\<close>

theorem trampoline_page_free:
  assumes "pages_ok segs" "page_aligned seg_start" "page_aligned seg_stop" "max_size \<le> 0x1000"
  shows "tracepoint_iter_free_segments_around segs seg_start seg_stop 0x1000 low hi max_size fuel (guarded segs low hi fn) s
    = tracepoint_iter_free_segments_around segs seg_start seg_stop 0x1000 low hi max_size fuel fn s"
proof -
  have pg: "fncall_align_to_page 0x1000 1 = 0x1000" by (simp add: fncall_align_to_page_def)
  show ?thesis
    unfolding tracepoint_iter_free_segments_around_def Let_def pg
    by (rule search_loop_guarded [OF assms(1) _ assms(4)]) (simp_all add: page_aligned_closed assms)
qed

text \<open>Witness: beside the two segments of the example the page \<open>0x7000\<close> is offered.\<close>

theorem trampoline_page_free_witness:
  "tracepoint_iter_free_segments_around example_segments 0x8000 0x9000 0x1000 0x8010 0x8010 0x1000 3
     (guarded example_segments 0x8010 0x8010 (\<lambda>_ a sz _. Inr (True, (a, sz)))) (0, 0) = Inr (True, (0x7000, 0x1000))"
proof -
  have times: "page_aligned (0x1000 * k)" for k by (simp add: page_aligned_def)
  have al: "page_aligned 0x8000" "page_aligned 0x9000" "page_aligned 0xa000" "page_aligned 0xb000"
    using times [of 8] times [of 9] times [of 10] times [of 11] by simp_all
  then have ok: "pages_ok example_segments"
    using example_segments_ok by (simp add: pages_ok_def example_segments_def example_segment_def tree_vals_inorder)
  have get: "segment_get example_segments 0x7000 = None" by code_simp
  have rj: "arch_check_relative_jump 0x8010 0x7000" "arch_check_relative_jump 0x8010 0x6000" "arch_check_relative_jump 0x8010 0xa000" by code_simp+
  show ?thesis
    unfolding trampoline_page_free [OF ok al(1,2) order_refl]
    by (simp add: tracepoint_iter_free_segments_around_def Let_def fncall_align_to_page_def rj get numeral_3_eq_3 round_below_def)
qed

text \<open>A greater area above the segment can be in use: upward the search tests the addresses below the segment. Of the
  segments at \<open>0x5000\<close>, \<open>0x7000\<close>, \<open>0x8000\<close> and \<open>0xa000\<close>, with \<open>0x6000\<close> and \<open>0x9000\<close> free, two pages for the trampolines of the third
  are offered at \<open>0x9000\<close>, which overwrites the fourth.\<close>

theorem trampoline_pages_overlap:
  "tracepoint_iter_free_segments_around four_segments 0x8000 0x9000 0x1000 0x8010 0x8010 0x2000 5
     (\<lambda>_ a sz f. Inr (f = None \<and> sz = 0x2000, (a, sz))) (0, 0) = Inr (True, (0x9000, 0x2000))
   \<and> overlaps four_segments 0x9000 0x2000"
proof
  have get: "segment_get four_segments 0x7000 = Some (example_segment 0x7000 0x8000 0 5)" "segment_get four_segments 0x9000 = None"
    "segment_get four_segments 0x6000 = None" by code_simp+
  have rj: "arch_check_relative_jump 0x8010 0x7000" "arch_check_relative_jump 0x8010 0x6000" "arch_check_relative_jump 0x8010 0xa000"
    "arch_check_relative_jump 0x8010 0xb000" by code_simp+
  have five: "(5 :: nat) = Suc (Suc (Suc (Suc (Suc 0))))" by simp
  have ex: "\<not> segment_is_unused (example_segment 0x7000 0x8000 0 5)" by code_simp
  have sz: "start (example_segment 0x7000 0x8000 0 5) = 0x7000" "seg_end (example_segment 0x7000 0x8000 0 5) = 0x8000" by (simp_all add: example_segment_def)
  show "tracepoint_iter_free_segments_around four_segments 0x8000 0x9000 0x1000 0x8010 0x8010 0x2000 5
     (\<lambda>_ a sz f. Inr (f = None \<and> sz = 0x2000, (a, sz))) (0, 0) = Inr (True, (0x9000, 0x2000))"
    by (simp add: tracepoint_iter_free_segments_around_def Let_def fncall_align_to_page_def rj get ex sz five round_below_def round_above_def)
  have "segment_contains (example_segment 0xa000 0xb000 0 3) (0x9000 + of_nat 0x1000)" by code_simp
  moreover have "example_segment 0xa000 0xb000 0 3 \<in> set (tree_vals four_segments)" by (simp add: four_segments_def tree_vals_inorder)
  ultimately show "overlaps four_segments 0x9000 0x2000" unfolding overlaps_def by (intro bexI exI [of _ "0x1000"]) simp_all
qed

end
