(* ===== verification/Protocol.thy ===== *)
theory Protocol
  imports Communication Injectable Process_List Digits
begin

text \<open>
  The requests of the client, \<^verbatim>\<open>communication/protocol.c\<close>: a request is checked, the handler of its type reads the fields it needs, acts on
  the processes and injectables and writes the fields of the response into one shared buffer. The tables of processes and of
  injectables are those of \<open>Process_List\<close> and \<open>Injectable\<close>; what the handlers call of the code that attaches, detaches, kills, spawns, stops and
  continues processes, of the file system and of the kernel is the record \<open>calls\<close>. The address space has 32 bits.
\<close>

section \<open>Definitions\<close>

record 'p server =
  state_tracing :: bool
  logger_level :: u32
  signal_quit :: nat
  srv_tables :: tables
  srv_registry :: registry
  srv_procs :: 'p

text \<open>A row of the memory map: the segment with its trampolines, or an injection.\<close>

record map_segment =
  ms_start :: u32
  ms_end :: u32
  ms_filename :: "bytes option"
  ms_offset :: u32
  ms_trampolines :: u32
  ms_trampolines_size :: u32
  ms_injectable :: bytes

record map_injection =
  mi_address :: u32
  mi_code_size :: u32
  mi_filename :: bytes

record 'p calls =
  process_attach :: "u32 \<Rightarrow> 'p server \<Rightarrow> (bool \<times> 'p server) res"
  process_detach :: "ptr \<Rightarrow> 'p server \<Rightarrow> 'p server res"
  process_kill :: "ptr \<Rightarrow> 'p server \<Rightarrow> 'p server res"
  process_spawn :: "bytes list \<Rightarrow> 'p server \<Rightarrow> (u32 option \<times> 'p server) res"
  process_stop_all :: "'p server \<Rightarrow> 'p server res"
  process_continue_all :: "'p server \<Rightarrow> 'p server res"
  process_stop :: "ptr \<Rightarrow> 'p server \<Rightarrow> 'p server res"
  process_continue :: "ptr \<Rightarrow> 'p server \<Rightarrow> 'p server res"
  call_mem_read :: "ptr \<Rightarrow> u32 \<Rightarrow> nat \<Rightarrow> 'p server \<Rightarrow> (bytes \<times> 'p server) res"
  str_address :: "ptr \<Rightarrow> u64 \<Rightarrow> 'p server \<Rightarrow> bytes res"
  map_segments :: "ptr \<Rightarrow> 'p server \<Rightarrow> map_segment list"
  map_injections :: "ptr \<Rightarrow> 'p server \<Rightarrow> map_injection list"
  attach_injectable :: "registry \<Rightarrow> nat \<Rightarrow> registry res"
  detach_injectable :: "registry \<Rightarrow> nat \<Rightarrow> registry res"
  load_io :: "bytes \<Rightarrow> file_io"
  fresh_injectable :: "registry \<Rightarrow> nat"
  read_dir :: "bytes \<Rightarrow> (bytes \<times> bool) list option"
  thread_lib :: "(pid, ptr) tree_lib"
  inj_lib :: "(u32, nat) tree_lib"

subsection \<open>Text\<close>

definition ascii :: "string \<Rightarrow> bytes" where
  "ascii s = map of_char s"

text \<open>The conversions \<^verbatim>\<open>%u\<close> and \<^verbatim>\<open>%i\<close>.\<close>

definition dec :: "u32 \<Rightarrow> bytes" where
  "dec n = ascii (show_dec (unat n))"

definition sdec :: "u32 \<Rightarrow> bytes" where
  "sdec n = (if sint n < 0 then ascii (''-'' @ show_dec (nat (- sint n))) else dec n)"

text \<open>The name of an element of a list, which has to fit into 16 characters.\<close>

definition index_name :: "string \<Rightarrow> u32 \<Rightarrow> bytes res" where
  "index_name field i =
     (let name = ascii field @ ascii ''['' @ dec i @ ascii '']''
      in adbi_assure (length name < 16) (Inr name))"

definition packet_id :: "string \<Rightarrow> u32 res" where
  "packet_id ty = adbi_assure (length ty = 4) (Inr (foldl (\<lambda>r c. push_bit 8 r OR of_char c) 0 ty))"

subsection \<open>Responses\<close>

type_synonym 'p answer = "(packet_t \<times> payload_buffer_t \<times> 'p server) res"

definition respond :: "packet_t \<Rightarrow> string \<Rightarrow> payload_buffer_t \<Rightarrow> (packet_t \<times> payload_buffer_t) res" where
  "respond request ty pb =
     res_bind (payload_put_term pb) (\<lambda>pb.
     res_bind (packet_id ty) (\<lambda>id.
     res_bind (payload_check (pb_buf pb) (length (pb_buf pb))) (\<lambda>ok.
     adbi_assure ok
       (Inr (\<lparr>head = \<lparr>head_type = id, head_seq = head_seq (head request), head_length = of_nat (length (pb_buf pb))\<rparr>,
              payload = pb_buf pb\<rparr>, pb)))))"

text \<open>The message is cut to the 256 bytes of its buffer.\<close>

definition say :: "packet_t \<Rightarrow> string \<Rightarrow> bytes \<Rightarrow> payload_buffer_t \<Rightarrow> 'p server \<Rightarrow> 'p answer" where
  "say request ty msg pb s =
     res_bind (payload_put_str pb (ascii ''msg'') (Some (take 255 msg))) (\<lambda>pb.
     res_bind (respond request ty pb) (\<lambda>(r, pb). Inr (r, pb, s)))"

abbreviation say_OKAY where "say_OKAY request \<equiv> say request ''OKAY''"
abbreviation say_FAIL where "say_FAIL request \<equiv> say request ''FAIL''"
abbreviation say_MALF where "say_MALF request \<equiv> say request ''MALF''"
abbreviation say_USUP where "say_USUP request \<equiv> say request ''USUP''"

subsection \<open>Fields of the request\<close>

definition read_ptr ::
    "payload_type \<Rightarrow> packet_t \<Rightarrow> bytes \<Rightarrow> payload_buffer_t \<Rightarrow> 'p server \<Rightarrow> (bytes \<Rightarrow> 'p answer) \<Rightarrow> 'p answer" where
  "read_ptr ty request name pb s k =
     res_bind (payload_get ty (payload request) name) (\<lambda>r.
     case r of None \<Rightarrow> say_MALF request (ascii ''Field missing: '' @ [0x27] @ name @ [0x27] @ ascii ''.'') pb s | Some p \<Rightarrow> k p)"

definition read_u32 where
  "read_u32 request name pb s k =
     read_ptr PAYLOAD_TYPE_U32 request (ascii name) pb s (\<lambda>p.
     if length p < 4 then Inl Out_Of_Bounds else k (le_word (take 4 p) :: u32))"

definition read_u64 where
  "read_u64 request name pb s k =
     read_ptr PAYLOAD_TYPE_U64 request (ascii name) pb s (\<lambda>p.
     if length p < 8 then Inl Out_Of_Bounds else k (le_word (take 8 p) :: u64))"

definition read_strx where
  "read_strx request name pb s k = read_ptr PAYLOAD_TYPE_STR request name pb s (\<lambda>p. res_bind (c_string p) k)"

subsection \<open>Lists of the response\<close>

text \<open>The callbacks write the fields of one element and count it.\<close>

fun report_all :: "(u32 \<Rightarrow> 'a \<Rightarrow> payload_buffer_t \<Rightarrow> payload_buffer_t res) \<Rightarrow> u32 \<Rightarrow> 'a list \<Rightarrow> payload_buffer_t \<Rightarrow> (u32 \<times> payload_buffer_t) res" where
  "report_all fn n [] pb = Inr (n, pb)"
| "report_all fn n (x # xs) pb = res_bind (fn n x pb) (\<lambda>pb. report_all fn (n + 1) xs pb)"

definition write_u32x :: "string \<Rightarrow> u32 \<Rightarrow> u32 \<Rightarrow> payload_buffer_t \<Rightarrow> payload_buffer_t res" where
  "write_u32x field i v pb = res_bind (index_name field i) (\<lambda>name. payload_put_u32 pb name v)"

definition write_i32x :: "string \<Rightarrow> u32 \<Rightarrow> u32 \<Rightarrow> payload_buffer_t \<Rightarrow> payload_buffer_t res" where
  "write_i32x field i v pb = res_bind (index_name field i) (\<lambda>name. payload_put_i32 pb name v)"

definition write_u64x :: "string \<Rightarrow> u32 \<Rightarrow> u64 \<Rightarrow> payload_buffer_t \<Rightarrow> payload_buffer_t res" where
  "write_u64x field i v pb = res_bind (index_name field i) (\<lambda>name. payload_put_u64 pb name v)"

definition write_strx :: "string \<Rightarrow> u32 \<Rightarrow> bytes option \<Rightarrow> payload_buffer_t \<Rightarrow> payload_buffer_t res" where
  "write_strx field i v pb = res_bind (index_name field i) (\<lambda>name. payload_put_str pb name v)"

subsection \<open>Process control\<close>

definition handle_ATTC :: "'p calls \<Rightarrow> packet_t \<Rightarrow> payload_buffer_t \<Rightarrow> 'p server \<Rightarrow> 'p answer" where
  "handle_ATTC c request pb s =
     read_u32 request ''pid'' pb s (\<lambda>pid.
     res_bind (process_attach c pid s) (\<lambda>(ok, s).
     if ok then say_OKAY request (ascii ''Attached '' @ dec pid @ ascii ''.'') pb s
     else say_FAIL request (ascii ''Error attaching '' @ dec pid @ ascii ''.'') pb s))"

text \<open>The lookup of a process in the tables, and its release.\<close>

definition srv_process_get :: "u32 \<Rightarrow> 'p server \<Rightarrow> (ptr option \<times> 'p server) res" where
  "srv_process_get pid s = res_bind (process_get (srv_tables s) (unat pid)) (\<lambda>(p, w). Inr (p, s\<lparr>srv_tables := w\<rparr>))"

definition srv_process_put :: "ptr \<Rightarrow> 'p server \<Rightarrow> 'p server res" where
  "srv_process_put p s = res_bind (process_put (srv_tables s) p) (\<lambda>w. Inr (s\<lparr>srv_tables := w\<rparr>))"

definition handle_DETC :: "'p calls \<Rightarrow> packet_t \<Rightarrow> payload_buffer_t \<Rightarrow> 'p server \<Rightarrow> 'p answer" where
  "handle_DETC c request pb s =
     read_u32 request ''pid'' pb s (\<lambda>pid.
     res_bind (srv_process_get pid s) (\<lambda>(p, s).
     case p of
       None \<Rightarrow> say_FAIL request (ascii ''Process '' @ dec pid @ ascii '' not attached.'') pb s
     | Some p \<Rightarrow>
         res_bind (process_detach c p s) (\<lambda>s.
         res_bind (srv_process_put p s) (\<lambda>s.
         say_OKAY request (ascii ''Detached from process '' @ sdec pid @ ascii ''.'') pb s))))"

text \<open>
  The size of the array of arguments is computed in 32 bits. \<open>cap\<close> is its number of elements; the loop writes the element \<open>i\<close>, also when
  the field is missing, and, at the end, the terminating null pointer.
\<close>

definition argv_capacity :: "u32 \<Rightarrow> nat" where
  "argv_capacity argc = unat ((argc + 1) * 4) div 4"

function read_argv ::
    "packet_t \<Rightarrow> nat \<Rightarrow> u32 \<Rightarrow> u32 \<Rightarrow> bytes list \<Rightarrow> payload_buffer_t \<Rightarrow> 'p server \<Rightarrow> (bytes list \<Rightarrow> 'p answer) \<Rightarrow> 'p answer" where
  "read_argv request cap argc i argv pb s k =
     (if i < argc then
        res_bind (index_name ''argv'' i) (\<lambda>name.
        if cap \<le> unat i then Inl Out_Of_Bounds
        else read_strx request name pb s (\<lambda>arg. read_argv request cap argc (i + 1) (argv @ [arg]) pb s k))
      else if cap \<le> unat argc then Inl Out_Of_Bounds else k argv)"
  by pat_completeness auto
termination
proof (relation "measure (\<lambda>(request, cap, argc, i, argv, pb, s, k). unat (argc - i))", goal_cases)
  case (2 request cap argc i argv pb s k)
  then have "unat i < unat argc" "unat argc < 2 ^ 32" using unsigned_less [of argc] by (simp_all add: word_less_nat_alt)
  then show ?case by (simp add: word_less_nat_alt unat_sub_if' unat_word_ariths)
qed simp

definition handle_SPWN :: "'p calls \<Rightarrow> packet_t \<Rightarrow> payload_buffer_t \<Rightarrow> 'p server \<Rightarrow> 'p answer" where
  "handle_SPWN c request pb s =
     read_u32 request ''argc'' pb s (\<lambda>argc.
     read_argv request (argv_capacity argc) argc 0 [] pb s (\<lambda>argv.
     res_bind (process_spawn c argv s) (\<lambda>(pid, s).
     case pid of
       Some pid \<Rightarrow> say_OKAY request (ascii ''Spawned '' @ dec pid @ ascii ''.'') pb s
     | None \<Rightarrow> say_FAIL request (ascii ''Error spawning process.'') pb s)))"

definition handle_KILL :: "'p calls \<Rightarrow> packet_t \<Rightarrow> payload_buffer_t \<Rightarrow> 'p server \<Rightarrow> 'p answer" where
  "handle_KILL c request pb s =
     read_u32 request ''pid'' pb s (\<lambda>pid.
     res_bind (srv_process_get pid s) (\<lambda>(p, s).
     case p of
       None \<Rightarrow> say_FAIL request (ascii ''Process '' @ dec pid @ ascii '' not attached.'') pb s
     | Some p \<Rightarrow>
         res_bind (process_kill c p s) (\<lambda>s.
         res_bind (srv_process_put p s) (\<lambda>s.
         say_OKAY request (ascii ''Process '' @ dec pid @ ascii '' killed.'') pb s))))"

text \<open>\<^verbatim>\<open>process_iter\<close> with the callback that reports the process.\<close>

fun report_processes :: "u32 \<Rightarrow> ptr list \<Rightarrow> payload_buffer_t \<Rightarrow> tables \<Rightarrow> (u32 \<times> payload_buffer_t \<times> tables) res" where
  "report_processes n [] pb w = Inr (n, pb, w)"
| "report_processes n (p # ps) pb w =
     res_bind (process_dup w p) (\<lambda>w.
     res_bind (process_at w p) (\<lambda>x.
     res_bind (write_u32x ''procv'' n (of_nat (process_pid x)) pb) (\<lambda>pb.
     res_bind (process_put w p) (\<lambda>w. report_processes (n + 1) ps pb w))))"

definition handle_PROC :: "packet_t \<Rightarrow> payload_buffer_t \<Rightarrow> 'p server \<Rightarrow> 'p answer" where
  "handle_PROC request pb s =
     res_bind (report_processes 0 (tree_vals (processes (srv_tables s))) pb (srv_tables s)) (\<lambda>(procc, pb, w).
     res_bind (payload_put_u32 pb (ascii ''procc'') procc) (\<lambda>pb.
     say_OKAY request (ascii ''Tracing '' @ dec procc @ ascii '' process'' @ (if procc \<noteq> 0 then [] else ascii ''es'') @ ascii ''.'') pb
       (s\<lparr>srv_tables := w\<rparr>)))"

subsection \<open>Tracing\<close>

definition state_tracing_set :: "'p calls \<Rightarrow> bool \<Rightarrow> 'p server \<Rightarrow> 'p server res" where
  "state_tracing_set c st s =
     (if state_tracing s = st then Inr s
      else res_bind (if st then process_continue_all c s else process_stop_all c s) (\<lambda>s. Inr (s\<lparr>state_tracing := st\<rparr>)))"

subsection \<open>Injectables\<close>

fun whynot_text :: "whynot \<Rightarrow> bytes" where
  "whynot_text Already_Loaded = ascii ''already loaded''"
| "whynot_text File_Malformed = ascii ''i/o error or file malformed''"
| "whynot_text Invalid_Binding = ascii ''invalid binding''"
| "whynot_text No_Such_Injectable = ascii ''no such injectable''"
| "whynot_text Is_Builtin = ascii ''built-in injectables can'' @ [0x27] @ ascii ''t be unloaded''"
| "whynot_text In_Use = ascii ''injectable in use by other injectable(s), can'' @ [0x27] @ ascii ''t unload''"

text \<open>A string of the file, or the null pointer.\<close>

definition injfile_text :: "injfile_t \<Rightarrow> u64 option \<Rightarrow> bytes option res" where
  "injfile_text f p = (case p of None \<Rightarrow> Inr None | Some p \<Rightarrow> res_bind (c_string (drop (unat p) (inj_image f))) (\<lambda>t. Inr (Some t)))"

text \<open>\<^verbatim>\<open>%s\<close> of a string that may be null.\<close>

definition fmt_str :: "bytes option \<Rightarrow> bytes" where
  "fmt_str t = (case t of None \<Rightarrow> ascii ''(null)'' | Some t \<Rightarrow> t)"

text \<open>Both branches return before the code that starts the tracing again.\<close>

definition handle_INJL :: "'p calls \<Rightarrow> packet_t \<Rightarrow> payload_buffer_t \<Rightarrow> 'p server \<Rightarrow> 'p answer" where
  "handle_INJL c request pb s =
     res_bind (if state_tracing s then state_tracing_set c False s else Inr s) (\<lambda>s.
     read_strx request (ascii ''path'') pb s (\<lambda>path.
     res_bind (injectable_load (inj_lib c) (attach_injectable c) (srv_registry s) (fresh_injectable c (srv_registry s)) (load_io c path) path) (\<lambda>(r, w).
     let s = s\<lparr>srv_registry := w\<rparr>
     in case r of
          Inr p \<Rightarrow>
            res_bind (injectable_at w p) (\<lambda>x.
            res_bind (injfile_text (injfile x) (inj_name (injfile x))) (\<lambda>name.
            say_OKAY request (ascii ''Loaded injectable '' @ dec (iid x) @ ascii '' ('' @ fmt_str name @ ascii '') from '' @ path @ ascii ''.'') pb s))
        | Inl why \<Rightarrow> say_FAIL request (ascii ''Error loading injectable from '' @ path @ ascii '': '' @ whynot_text why @ ascii ''.'') pb s)))"

definition handle_INJU :: "'p calls \<Rightarrow> packet_t \<Rightarrow> payload_buffer_t \<Rightarrow> 'p server \<Rightarrow> 'p answer" where
  "handle_INJU c request pb s =
     read_u32 request ''iid'' pb s (\<lambda>i.
     let tstate = state_tracing s
     in res_bind (if tstate then state_tracing_set c False s else Inr s) (\<lambda>s.
        res_bind (injectable_unload (inj_lib c) (detach_injectable c) (srv_registry s) i) (\<lambda>(why, w).
        let s = s\<lparr>srv_registry := w\<rparr>
        in res_bind (if tstate then state_tracing_set c True s else Inr s) (\<lambda>s.
           case why of
             None \<Rightarrow> say_OKAY request (ascii ''Injectable '' @ dec i @ ascii '' unloaded.'') pb s
           | Some why \<Rightarrow> say_FAIL request (ascii ''Error unloading injectable '' @ dec i @ ascii '': '' @ whynot_text why @ ascii ''.'') pb s))))"

definition report_injectable :: "registry \<Rightarrow> u32 \<Rightarrow> nat \<Rightarrow> payload_buffer_t \<Rightarrow> payload_buffer_t res" where
  "report_injectable w n p pb =
     res_bind (injectable_at w p) (\<lambda>x.
     res_bind (write_u32x ''injid'' n (iid x) pb) (\<lambda>pb.
     res_bind (write_strx ''injfn'' n (Some (filename x)) pb) (\<lambda>pb.
     res_bind (write_strx ''injtp'' n (Some (ascii (if injectable_is_library x then ''library'' else ''handler''))) pb) (\<lambda>pb.
     res_bind (injfile_text (injfile x) (inj_name (injfile x))) (\<lambda>name.
     res_bind (write_strx ''injnm'' n name pb) (\<lambda>pb.
     res_bind (write_u32x ''injrc'' n (inj_references x) pb) (\<lambda>pb.
     res_bind (injfile_text (injfile x) (inj_comment (injfile x))) (\<lambda>comment.
     write_strx ''injcm'' n comment pb))))))))"

text \<open>The ending of a plural.\<close>

definition plural :: "u32 \<Rightarrow> bytes" where
  "plural n = (if n = 1 then [] else ascii ''s'')"

definition handle_INJQ :: "packet_t \<Rightarrow> payload_buffer_t \<Rightarrow> 'p server \<Rightarrow> 'p answer" where
  "handle_INJQ request pb s =
     res_bind (report_all (report_injectable (srv_registry s)) 0 (tree_vals (injectables (srv_registry s))) pb) (\<lambda>(injc, pb).
     res_bind (payload_put_u32 pb (ascii ''injc'') injc) (\<lambda>pb.
     say_OKAY request (dec injc @ ascii '' injectable'' @ plural injc @ ascii '' loaded.'') pb s))"

definition report_tpoint :: "u32 \<Rightarrow> u32 \<times> int \<Rightarrow> payload_buffer_t \<Rightarrow> payload_buffer_t res" where
  "report_tpoint n = (\<lambda>(addr, handler) pb.
     res_bind (write_u32x ''tpta'' n addr pb) (\<lambda>pb. write_i32x ''tpth'' n (of_int handler) pb))"

definition handle_INJT :: "packet_t \<Rightarrow> payload_buffer_t \<Rightarrow> 'p server \<Rightarrow> 'p answer" where
  "handle_INJT request pb s =
     read_u32 request ''iid'' pb s (\<lambda>i.
     case injectable_get (srv_registry s) i of
       None \<Rightarrow> say_FAIL request (ascii ''No such injectable: '' @ dec i @ ascii ''.'') pb s
     | Some p \<Rightarrow>
         res_bind (injectable_at (srv_registry s) p) (\<lambda>x.
         res_bind (injfile_iter_tpoints (injfile x)) (\<lambda>tps.
         res_bind (report_all report_tpoint 0 tps pb) (\<lambda>(tptc, pb).
         res_bind (payload_put_u32 pb (ascii ''tptc'') tptc) (\<lambda>pb.
         if tptc \<noteq> 0 then say_OKAY request (dec tptc @ ascii '' tracepoint'' @ plural tptc @ ascii '' defined.'') pb s
         else say_OKAY request (ascii ''No tracepoints defined.'') pb s)))))"

text \<open>The iterators give the 28 bytes of the name; a name without a terminator is read past them.\<close>

definition report_symbol :: "u32 \<Rightarrow> bytes \<times> int \<Rightarrow> payload_buffer_t \<Rightarrow> payload_buffer_t res" where
  "report_symbol n = (\<lambda>(symbol, ofs) pb.
     res_bind (c_string symbol) (\<lambda>name.
     res_bind (write_strx ''symnm'' n (Some name) pb) (\<lambda>pb. write_u32x ''symad'' n (of_int ofs) pb)))"

definition handle_INJ :: "(injfile_t \<Rightarrow> (bytes \<times> int) list res) \<Rightarrow> packet_t \<Rightarrow> payload_buffer_t \<Rightarrow> 'p server \<Rightarrow> 'p answer" where
  "handle_INJ fn request pb s =
     read_u32 request ''iid'' pb s (\<lambda>i.
     case injectable_get (srv_registry s) i of
       None \<Rightarrow> say_FAIL request (ascii ''No such injectable: '' @ dec i @ ascii ''.'') pb s
     | Some p \<Rightarrow>
         res_bind (injectable_at (srv_registry s) p) (\<lambda>x.
         res_bind (fn (injfile x)) (\<lambda>syms.
         res_bind (report_all report_symbol 0 syms pb) (\<lambda>(symc, pb).
         res_bind (payload_put_u32 pb (ascii ''symc'') symc) (\<lambda>pb.
         if symc \<noteq> 0 then say_OKAY request (dec symc @ ascii '' symbol'' @ plural symc @ ascii '' defined.'') pb s
         else say_OKAY request (ascii ''No symbols defined.'') pb s)))))"

subsection \<open>The server\<close>

definition handle_LLEV :: "packet_t \<Rightarrow> payload_buffer_t \<Rightarrow> 'p server \<Rightarrow> 'p answer" where
  "handle_LLEV request pb s =
     read_u32 request ''loglevel'' pb s (\<lambda>loglevel.
     say_OKAY request (ascii ''Log level set to '' @ sdec loglevel @ ascii ''.'') pb (s\<lparr>logger_level := loglevel\<rparr>))"

definition handle_STRT :: "'p calls \<Rightarrow> packet_t \<Rightarrow> payload_buffer_t \<Rightarrow> 'p server \<Rightarrow> 'p answer" where
  "handle_STRT c request pb s =
     (if state_tracing s then say_FAIL request (ascii ''Tracees are already running.'') pb s
      else res_bind (state_tracing_set c True s) (\<lambda>s. say_OKAY request (ascii ''All inferiors are now running.'') pb s))"

definition handle_STOP :: "'p calls \<Rightarrow> packet_t \<Rightarrow> payload_buffer_t \<Rightarrow> 'p server \<Rightarrow> 'p answer" where
  "handle_STOP c request pb s =
     (if \<not> state_tracing s then say_FAIL request (ascii ''Tracees are already stopped.'') pb s
      else res_bind (state_tracing_set c False s) (\<lambda>s. say_OKAY request (ascii ''All inferiors are now stopped.'') pb s))"

definition handle_PING :: "packet_t \<Rightarrow> payload_buffer_t \<Rightarrow> 'p server \<Rightarrow> 'p answer" where
  "handle_PING request pb s = say_OKAY request (ascii ''Ping-pong.'') pb s"

definition handle_QUIT :: "packet_t \<Rightarrow> payload_buffer_t \<Rightarrow> 'p server \<Rightarrow> 'p answer" where
  "handle_QUIT request pb s = say_OKAY request (ascii ''ADBI Server quitting.'') pb (s\<lparr>signal_quit := signal_quit s + 1\<rparr>)"

definition report_dirent :: "u32 \<Rightarrow> bytes \<times> bool \<Rightarrow> payload_buffer_t \<Rightarrow> payload_buffer_t res" where
  "report_dirent n = (\<lambda>(d_name, is_dir) pb.
     res_bind (write_strx ''entv'' n (Some d_name) pb) (\<lambda>pb. write_u32x ''entd'' n (of_bool is_dir) pb))"

definition handle_LDIR :: "'p calls \<Rightarrow> packet_t \<Rightarrow> payload_buffer_t \<Rightarrow> 'p server \<Rightarrow> 'p answer" where
  "handle_LDIR c request pb s =
     read_strx request (ascii ''path'') pb s (\<lambda>path.
     case read_dir c path of
       None \<Rightarrow> say_FAIL request (ascii ''No such directory: '' @ path @ ascii ''.'') pb s
     | Some es \<Rightarrow>
         res_bind (report_all report_dirent 0 es pb) (\<lambda>(entc, pb).
         res_bind (payload_put_u32 pb (ascii ''entc'') entc) (\<lambda>pb.
         say_OKAY request (ascii ''Found '' @ sdec entc @ ascii '' elements.'') pb s)))"

subsection \<open>Process diagnostics\<close>

definition handle_ADDR :: "'p calls \<Rightarrow> packet_t \<Rightarrow> payload_buffer_t \<Rightarrow> 'p server \<Rightarrow> 'p answer" where
  "handle_ADDR c request pb s =
     read_u32 request ''pid'' pb s (\<lambda>pid.
     read_u64 request ''address'' pb s (\<lambda>address.
     res_bind (srv_process_get pid s) (\<lambda>(p, s).
     case p of
       None \<Rightarrow> say_FAIL request (ascii ''Not attached to '' @ dec pid @ ascii ''.'') pb s
     | Some p \<Rightarrow>
         res_bind (str_address c p address s) (\<lambda>info.
         res_bind (payload_put_u64 pb (ascii ''address'') address) (\<lambda>pb.
         res_bind (payload_put_str pb (ascii ''info'') (Some info)) (\<lambda>pb.
         res_bind (srv_process_put p s) (\<lambda>s.
         say_OKAY request (ascii ''Address '' @ info @ ascii ''.'') pb s)))))))"

text \<open>The running flag starts as false and is only ever conjoined.\<close>

fun all_running :: "(pid, ptr) tree_lib \<Rightarrow> bool \<Rightarrow> ptr list \<Rightarrow> tables \<Rightarrow> (bool \<times> tables) res" where
  "all_running lib acc [] w = Inr (acc, w)"
| "all_running lib acc (t # ts) w =
     res_bind (thread_dup w t) (\<lambda>w.
     res_bind (thread_at w t) (\<lambda>y.
     res_bind (thread_put lib w t) (\<lambda>w. all_running lib (acc \<and> running (thread_state y)) ts w)))"

definition process_is_running :: "(pid, ptr) tree_lib \<Rightarrow> tables \<Rightarrow> ptr \<Rightarrow> (bool \<times> tables) res" where
  "process_is_running lib w p = res_bind (process_at w p) (\<lambda>x. all_running lib False (tree_vals (process_threads x)) w)"

definition words :: "bytes \<Rightarrow> u32 list" where
  "words data = map (\<lambda>i. le_word (take 4 (drop (4 * i) data))) [0..<length data div 4]"

text \<open>The thread that is found for reading is never released, and is null if no thread is stopped.\<close>

definition handle_MEMD :: "'p calls \<Rightarrow> packet_t \<Rightarrow> payload_buffer_t \<Rightarrow> 'p server \<Rightarrow> 'p answer" where
  "handle_MEMD c request pb s =
     read_u32 request ''pid'' pb s (\<lambda>pid.
     read_u64 request ''address'' pb s (\<lambda>address.
     read_u32 request ''size'' pb s (\<lambda>sz.
     let sz = sz AND NOT 3;
         sz = (if sz > 1024 * 10 then 1024 * 10 else sz)
     in res_bind (srv_process_get pid s) (\<lambda>(p, s).
        case p of
          None \<Rightarrow> say_FAIL request (ascii ''Not attached to '' @ dec pid @ ascii ''.'') pb s
        | Some p \<Rightarrow>
            res_bind (process_is_running (thread_lib c) (srv_tables s) p) (\<lambda>(is_running, w).
            res_bind (if is_running then process_stop c p (s\<lparr>srv_tables := w\<rparr>) else Inr (s\<lparr>srv_tables := w\<rparr>)) (\<lambda>s.
            res_bind (thread_any_stopped (srv_tables s) p) (\<lambda>(t, w).
            adbi_assure (t \<noteq> None)
            (res_bind (call_mem_read c (the t) (ucast address) (unat sz) (s\<lparr>srv_tables := w\<rparr>)) (\<lambda>(data, s).
            res_bind (if is_running then process_continue c p s else Inr s) (\<lambda>s.
            res_bind (report_all (write_u32x ''word'') 0 (words data) pb) (\<lambda>(n, pb).
            res_bind (payload_put_u64 pb (ascii ''address'') address) (\<lambda>pb.
            res_bind (payload_put_u32 pb (ascii ''size'') n) (\<lambda>pb.
            res_bind (srv_process_put p s) (\<lambda>s.
            say_OKAY request (ascii ''Dumped '' @ dec n @ ascii '' bytes.'') pb s))))))))))))))"

text \<open>One row of the memory map.\<close>

definition report :: "string \<Rightarrow> u32 \<Rightarrow> u32 \<Rightarrow> bytes option \<Rightarrow> u32 \<Rightarrow> u32 \<Rightarrow> payload_buffer_t \<Rightarrow> payload_buffer_t res" where
  "report ty lo hi file ofs n pb =
     res_bind (write_u64x ''seglo'' n (ucast lo) pb) (\<lambda>pb.
     res_bind (write_u64x ''seghi'' n (ucast hi) pb) (\<lambda>pb.
     res_bind (write_strx ''segtype'' n (Some (ascii ty)) pb) (\<lambda>pb.
     res_bind (write_strx ''segfile'' n (Some (case file of Some f \<Rightarrow> f | None \<Rightarrow> [])) pb) (\<lambda>pb.
     write_u32x ''segoff'' n (case file of Some f \<Rightarrow> ofs | None \<Rightarrow> 0) pb))))"

fun report_segments :: "u32 \<Rightarrow> map_segment list \<Rightarrow> payload_buffer_t \<Rightarrow> (u32 \<times> payload_buffer_t) res" where
  "report_segments n [] pb = Inr (n, pb)"
| "report_segments n (m # ms) pb =
     res_bind (report ''natural'' (ms_start m) (ms_end m) (ms_filename m) (ms_offset m) n pb) (\<lambda>pb.
     if ms_trampolines m \<noteq> 0 then
       (let name = take 127 (ascii ''<'' @ fmt_str (ms_filename m) @ ascii '' - '' @ ms_injectable m @ ascii ''>'')
        in res_bind (report ''trampoline'' (ms_trampolines m) (ms_trampolines m + ms_trampolines_size m) (Some name) 0 (n + 1) pb) (\<lambda>pb.
           report_segments (n + 2) ms pb))
     else report_segments (n + 1) ms pb)"

definition report_injection :: "u32 \<Rightarrow> map_injection \<Rightarrow> payload_buffer_t \<Rightarrow> payload_buffer_t res" where
  "report_injection n m pb = report ''injection'' (mi_address m) (mi_address m + mi_code_size m) (Some (mi_filename m)) 0 n pb"

definition handle_MAPS :: "'p calls \<Rightarrow> packet_t \<Rightarrow> payload_buffer_t \<Rightarrow> 'p server \<Rightarrow> 'p answer" where
  "handle_MAPS c request pb s =
     read_u32 request ''pid'' pb s (\<lambda>pid.
     res_bind (srv_process_get pid s) (\<lambda>(p, s).
     case p of
       None \<Rightarrow> say_FAIL request (ascii ''Not attached to '' @ dec pid @ ascii ''.'') pb s
     | Some p \<Rightarrow>
         res_bind (report_segments 0 (map_segments c p s) pb) (\<lambda>(n, pb).
         res_bind (report_all report_injection n (map_injections c p s) pb) (\<lambda>(segc, pb).
         res_bind (payload_put_u32 pb (ascii ''segc'') segc) (\<lambda>pb.
         res_bind (srv_process_put p s) (\<lambda>s.
         say_OKAY request (ascii ''Process '' @ dec pid @ ascii '' has '' @ dec segc @ ascii '' segment'' @ plural segc @ ascii ''.'') pb s))))))"

subsection \<open>Requests\<close>

text \<open>The type of a packet as text; control characters are replaced.\<close>

definition packet_str :: "u32 \<Rightarrow> bytes" where
  "packet_str ty = map (\<lambda>b. if b < 0x20 \<or> 0x7e < b then 0x2e else b) (rev (le_bytes 4 ty))"

definition handlers :: "'p calls \<Rightarrow> (string \<times> (packet_t \<Rightarrow> payload_buffer_t \<Rightarrow> 'p server \<Rightarrow> 'p answer)) list" where
  "handlers c =
     [(''ATTC'', handle_ATTC c), (''DETC'', handle_DETC c), (''SPWN'', handle_SPWN c), (''KILL'', handle_KILL c), (''PROC'', handle_PROC),
      (''INJL'', handle_INJL c), (''INJU'', handle_INJU c), (''INJQ'', handle_INJQ),
      (''INJE'', handle_INJ injfile_iter_exports), (''INJI'', handle_INJ injfile_iter_imports), (''INJA'', handle_INJ injfile_iter_adbi),
      (''INJT'', handle_INJT), (''LLEV'', handle_LLEV), (''STRT'', handle_STRT c), (''STOP'', handle_STOP c), (''QUIT'', handle_QUIT),
      (''ADDR'', handle_ADDR c), (''MEMD'', handle_MEMD c), (''MAPS'', handle_MAPS c), (''LDIR'', handle_LDIR c), (''PING'', handle_PING)]"

fun call_handler ::
    "(string \<times> (packet_t \<Rightarrow> payload_buffer_t \<Rightarrow> 'p server \<Rightarrow> 'p answer)) list \<Rightarrow> packet_t \<Rightarrow> payload_buffer_t \<Rightarrow> 'p server \<Rightarrow> 'p answer" where
  "call_handler [] request pb s =
     say_USUP request (ascii ''Unsupported packet type: '' @ packet_str (head_type (head request)) @ ascii ''.'') pb s"
| "call_handler ((what, fn) # hs) request pb s =
     res_bind (packet_id what) (\<lambda>id.
     if head_type (head request) = id then fn request pb s else call_handler hs request pb s)"

definition handle_packet :: "'p calls \<Rightarrow> payload_buffer_t \<times> 'p server \<Rightarrow> packet_t \<Rightarrow> (packet_t option \<times> payload_buffer_t \<times> 'p server) res" where
  "handle_packet c = (\<lambda>(pb, s) request.
     let pb = payload_reset pb
     in res_bind (payload_check (payload request) (unat (head_length (head request)))) (\<lambda>ok.
        res_bind (if \<not> ok then say_MALF request (ascii ''Packet payload malformed.'') pb s
                  else call_handler (handlers c) request pb s) (\<lambda>(r, pb, s).
        Inr (Some r, pb, s))))"

definition protocol_init :: payload_buffer_t where
  "protocol_init = payload_create"

end
