(* ===== verification/Protocol_Correct.thy ===== *)
theory Protocol_Correct
  imports Protocol
begin

text \<open>
  Every request is answered by one packet of a known type with the sequence number of the request; what the client reads out of
  the responses, and the requests that bring the server down or stop the tracing.
\<close>

section \<open>Writing a response\<close>

definition holds_entries :: "payload_buffer_t \<Rightarrow> payload_entry list \<Rightarrow> bool" where
  "holds_entries pb es \<longleftrightarrow> pb_ok pb \<and> pb_buf pb = concat (map entry_bytes es) \<and> (\<forall>x \<in> set es. wf_entry x \<and> \<not> is_term x)"

context payload_field
begin

lemma put_holds:
  assumes "holds_entries pb es" "name_ok name" "val_ok v"
  shows "\<exists>pb'. put pb name v = Inr pb' \<and> holds_entries pb' (es @ [new_entry ty name (enc v)])"
proof -
  obtain pb' where "put pb name v = Inr pb'" "pb_ok pb'" "pb_buf pb' = pb_buf pb @ entry_bytes (new_entry ty name (enc v))"
    using put_appends [OF _ assms(2,3)] assms(1) unfolding holds_entries_def by blast
  moreover have "\<not> is_term (new_entry ty name (enc v))" using not_term by (simp add: is_term_def new_entry_def)
  ultimately show ?thesis using assms entry_wf by (auto simp: holds_entries_def)
qed

end

abbreviation the_term :: payload_entry where
  "the_term \<equiv> new_entry PAYLOAD_TYPE_TERMINATOR [] []"

definition response_ids :: "u32 set" where
  "response_ids = {id. \<exists>ty \<in> {''OKAY'', ''FAIL'', ''MALF'', ''USUP''}. packet_id ty = Inr id}"

definition msg_entry :: "bytes \<Rightarrow> payload_entry" where
  "msg_entry msg = new_entry PAYLOAD_TYPE_STR (ascii ''msg'') (take 255 msg @ [0])"

lemma respond_holds:
  assumes "holds_entries pb es" "length ty = 4"
  shows "\<exists>r pb' id. respond request ty pb = Inr (r, pb') \<and> pb_ok pb' \<and> packet_id ty = Inr id \<and> head_type (head r) = id
    \<and> head_seq (head r) = head_seq (head request) \<and> head_length (head r) = of_nat (length (payload r))
    \<and> payload r = payload_bytes es the_term \<and> wf_payload es the_term"
proof -
  have h: "pb_ok pb" "pb_buf pb = concat (map entry_bytes es)" "\<forall>x \<in> set es. wf_entry x \<and> \<not> is_term x"
    using assms(1) by (simp_all add: holds_entries_def)
  have "name_ok []" by (simp add: name_ok_def)
  then obtain pb' where p: "payload_put_term pb = Inr pb'" "pb_ok pb'" "pb_buf pb' = pb_buf pb @ entry_bytes the_term"
    using payload_add_element_ok [OF h(1), of "[]" "[]" PAYLOAD_TYPE_TERMINATOR] by (auto simp: payload_put_term_def)
  have wf: "wf_payload es the_term"
    using h(3) by (auto simp: wf_payload_def wf_entry_def is_term_def new_entry_def data_ok_def)
  have b: "pb_buf pb' = payload_bytes es the_term" using p(3) h(2) by (simp add: payload_bytes_def)
  have "payload_check (pb_buf pb') (length (pb_buf pb')) = Inr True" using payload_check_complete [OF wf, of "[]"] b by simp
  moreover obtain id where "packet_id ty = Inr id" using assms(2) by (simp add: packet_id_def)
  ultimately show ?thesis using p(1,2) b wf by (simp add: respond_def)
qed

lemma say_holds:
  assumes "holds_entries pb es" "length ty = 4"
  shows "\<exists>r pb' id. say request ty msg pb s = Inr (r, pb', s) \<and> pb_ok pb' \<and> packet_id ty = Inr id \<and> head_type (head r) = id
    \<and> head_seq (head r) = head_seq (head request) \<and> head_length (head r) = of_nat (length (payload r))
    \<and> payload r = payload_bytes (es @ [msg_entry msg]) the_term \<and> wf_payload (es @ [msg_entry msg]) the_term"
proof -
  have n: "name_ok (ascii ''msg'')" by (simp add: name_ok_def ascii_def)
  have l: "str_ok (Some (take 255 msg))" by (simp add: str_ok_def str_bytes_def min_def)
  obtain pb1 where "payload_put_str pb (ascii ''msg'') (Some (take 255 msg)) = Inr pb1" "holds_entries pb1 (es @ [msg_entry msg])"
    using str_field.put_holds [OF assms(1) n l] by (auto simp: msg_entry_def str_bytes_def)
  then show ?thesis using respond_holds [of pb1 "es @ [msg_entry msg]" ty request] assms(2) by (auto simp: say_def)
qed

lemma say_answers: "holds_entries pb es \<Longrightarrow> length ty = 4 \<Longrightarrow> \<exists>r pb'. say request ty msg pb s = Inr (r, pb', s)"
  using say_holds by blast

section \<open>Every answer is a response to its request\<close>

definition responds :: "packet_t \<Rightarrow> packet_t \<Rightarrow> bool" where
  "responds request r \<longleftrightarrow> head_seq (head r) = head_seq (head request) \<and> head_type (head r) \<in> response_ids
     \<and> head_length (head r) = of_nat (length (payload r)) \<and> payload_check (payload r) (length (payload r)) = Inr True"

text \<open>\<open>Q\<close> holds of every response and the server after it.\<close>

definition ends :: "(packet_t \<Rightarrow> 'p server \<Rightarrow> bool) \<Rightarrow> 'p answer \<Rightarrow> bool" where
  "ends Q ans \<longleftrightarrow> (\<forall>r pb s. ans = Inr (r, pb, s) \<longrightarrow> Q r s)"

named_theorems ends_rules

lemma ends_say [ends_rules]:
  "ty \<in> {''OKAY'', ''FAIL'', ''MALF'', ''USUP''} \<Longrightarrow> (\<And>r. responds request r \<Longrightarrow> Q r s) \<Longrightarrow> ends Q (say request ty msg pb s)"
  by (auto simp: ends_def say_def respond_def res_bind_eq_Inr responds_def response_ids_def)

lemma ends_bind [ends_rules]: "(\<And>x. m = Inr x \<Longrightarrow> ends Q (k x)) \<Longrightarrow> ends Q (res_bind m k)"
  by (auto simp: ends_def res_bind_eq_Inr)

lemma ends_Inl [ends_rules]: "ends Q (Inl e)"
  by (simp add: ends_def)

lemma ends_assure [ends_rules]: "ends Q k \<Longrightarrow> ends Q (adbi_assure b k)"
  by (auto simp: ends_def adbi_assure_def split: if_splits)

lemma ends_if [ends_rules]: "(b \<Longrightarrow> ends Q x) \<Longrightarrow> (\<not> b \<Longrightarrow> ends Q y) \<Longrightarrow> ends Q (if b then x else y)"
  by simp

lemma ends_option [ends_rules]:
  "(x = None \<Longrightarrow> ends Q a) \<Longrightarrow> (\<And>y. x = Some y \<Longrightarrow> ends Q (b y)) \<Longrightarrow> ends Q (case x of None \<Rightarrow> a | Some y \<Rightarrow> b y)"
  by (cases x) simp_all

lemma ends_sum [ends_rules]:
  "(\<And>y. x = Inl y \<Longrightarrow> ends Q (a y)) \<Longrightarrow> (\<And>y. x = Inr y \<Longrightarrow> ends Q (b y)) \<Longrightarrow> ends Q (case x of Inl y \<Rightarrow> a y | Inr y \<Rightarrow> b y)"
  by (cases x) simp_all

lemma ends_prod [ends_rules]: "(\<And>a b. x = (a, b) \<Longrightarrow> ends Q (k a b)) \<Longrightarrow> ends Q (case x of (a, b) \<Rightarrow> k a b)"
  by (cases x) simp

lemma ends_let [ends_rules]: "ends Q (k x) \<Longrightarrow> ends Q (let y = x in k y)"
  by simp

lemma ends_read_ptr [ends_rules]:
  "(\<And>r. responds request r \<Longrightarrow> Q r s) \<Longrightarrow> (\<And>p. ends Q (k p)) \<Longrightarrow> ends Q (read_ptr ty request name pb s k)"
  unfolding read_ptr_def by (intro ends_rules) simp_all

lemma ends_read [ends_rules]:
  "(\<And>r. responds request r \<Longrightarrow> Q r s) \<Longrightarrow> (\<And>v. ends Q (k v)) \<Longrightarrow> ends Q (read_u32 request fld pb s k)"
  "(\<And>r. responds request r \<Longrightarrow> Q r s) \<Longrightarrow> (\<And>v. ends Q (k64 v)) \<Longrightarrow> ends Q (read_u64 request fld pb s k64)"
  "(\<And>r. responds request r \<Longrightarrow> Q r s) \<Longrightarrow> (\<And>v. ends Q (ks v)) \<Longrightarrow> ends Q (read_strx request name pb s ks)"
  unfolding read_u32_def read_u64_def read_strx_def by (intro ends_rules; assumption)+

lemma ends_read_argv [ends_rules]:
  "(\<And>r. responds request r \<Longrightarrow> Q r s) \<Longrightarrow> (\<And>v. ends Q (k v)) \<Longrightarrow> ends Q (read_argv request cap argc i argv pb s k)"
proof (induction request cap argc i argv pb s k rule: read_argv.induct)
  case (1 request cap argc i argv pb s k)
  show ?case by (subst read_argv.simps) (intro ends_rules 1; simp)
qed

lemma handlers_end: "(what, fn) \<in> set (handlers c) \<Longrightarrow> ends (\<lambda>r _. responds request r) (fn request pb s)"
  unfolding handlers_def set_simps insert_iff empty_iff prod.inject
  by (elim disjE conjE FalseE; simp only:; unfold handle_ATTC_def handle_DETC_def handle_SPWN_def handle_KILL_def handle_PROC_def handle_INJL_def
      handle_INJU_def handle_INJQ_def handle_INJ_def handle_INJT_def handle_LLEV_def handle_STRT_def handle_STOP_def handle_QUIT_def handle_ADDR_def
      handle_MEMD_def handle_MAPS_def handle_LDIR_def handle_PING_def; intro ends_rules; simp)

lemma call_handler_ends:
  "(\<And>what fn. (what, fn) \<in> set hs \<Longrightarrow> ends Q (fn request pb s)) \<Longrightarrow> (\<And>r. responds request r \<Longrightarrow> Q r s) \<Longrightarrow> ends Q (call_handler hs request pb s)"
proof (induction hs)
  case Nil
  show ?case unfolding call_handler.simps by (intro ends_rules Nil) simp_all
next
  case (Cons h hs)
  obtain what fn where h: "h = (what, fn)" by fastforce
  show ?case unfolding h call_handler.simps by (intro ends_rules Cons.IH) (use Cons.prems h in auto)
qed

lemma packet_ids:
  "packet_id ''ATTC'' = Inr 0x41545443" "packet_id ''DETC'' = Inr 0x44455443" "packet_id ''SPWN'' = Inr 0x5350574e"
  "packet_id ''KILL'' = Inr 0x4b494c4c" "packet_id ''PROC'' = Inr 0x50524f43" "packet_id ''INJL'' = Inr 0x494e4a4c"
  "packet_id ''INJU'' = Inr 0x494e4a55" "packet_id ''INJQ'' = Inr 0x494e4a51" "packet_id ''INJE'' = Inr 0x494e4a45"
  "packet_id ''INJI'' = Inr 0x494e4a49" "packet_id ''INJA'' = Inr 0x494e4a41" "packet_id ''INJT'' = Inr 0x494e4a54"
  "packet_id ''LLEV'' = Inr 0x4c4c4556" "packet_id ''STRT'' = Inr 0x53545254" "packet_id ''STOP'' = Inr 0x53544f50"
  "packet_id ''QUIT'' = Inr 0x51554954" "packet_id ''ADDR'' = Inr 0x41444452" "packet_id ''MEMD'' = Inr 0x4d454d44"
  "packet_id ''MAPS'' = Inr 0x4d415053" "packet_id ''LDIR'' = Inr 0x4c444952" "packet_id ''PING'' = Inr 0x50494e47"
  "packet_id ''USUP'' = Inr 0x55535550" "packet_id ''MALF'' = Inr 0x4d414c46" "packet_id ''OKAY'' = Inr 0x4f4b4159"
  "packet_id ''FAIL'' = Inr 0x4641494c"
  by code_simp+

section \<open>Properties\<close>

lemma packet_responds:
  assumes "handle_packet c (pb, s) request = Inr (r, pb', s')"
  shows "\<exists>p. r = Some p \<and> responds request p"
proof -
  let ?pb = "payload_reset pb"
  obtain ok p where "r = Some p" "(if \<not> ok then say_MALF request (ascii ''Packet payload malformed.'') ?pb s
      else call_handler (handlers c) request ?pb s) = Inr (p, pb', s')"
    using assms by (auto simp: handle_packet_def Let_def res_bind_eq_Inr)
  moreover have "ends (\<lambda>r _. responds request r) (if \<not> ok then say_MALF request (ascii ''Packet payload malformed.'') ?pb s
      else call_handler (handlers c) request ?pb s)"
    by (intro ends_rules call_handler_ends handlers_end) simp_all
  ultimately show ?thesis by (auto simp: ends_def)
qed


lemma reset_holds: "pb_ok pb \<Longrightarrow> holds_entries (payload_reset pb) []"
  by (simp add: holds_entries_def pb_ok_def payload_reset_def)

definition unsupported :: "u32 \<Rightarrow> bool" where
  "unsupported ty \<longleftrightarrow> (\<forall>what \<in> {''ATTC'', ''DETC'', ''SPWN'', ''KILL'', ''PROC'', ''INJL'', ''INJU'', ''INJQ'', ''INJE'', ''INJI'', ''INJA'', ''INJT'',
     ''LLEV'', ''STRT'', ''STOP'', ''QUIT'', ''ADDR'', ''MEMD'', ''MAPS'', ''LDIR'', ''PING''}. packet_id what \<noteq> Inr ty)"

lemma call_handler_unsupported:
  "(\<And>what fn. (what, fn) \<in> set hs \<Longrightarrow> packet_id what \<noteq> Inr (head_type (head request)) \<and> length what = 4) \<Longrightarrow>
   call_handler hs request pb s = say_USUP request (ascii ''Unsupported packet type: '' @ packet_str (head_type (head request)) @ ascii ''.'') pb s"
proof (induction hs)
  case (Cons h hs)
  obtain what fn where h: "h = (what, fn)" by fastforce
  then have "packet_id what \<noteq> Inr (head_type (head request))" "length what = 4" using Cons.prems by auto
  then obtain id where "packet_id what = Inr id" "id \<noteq> head_type (head request)" by (auto simp: packet_id_def)
  moreover have "call_handler hs request pb s
      = say_USUP request (ascii ''Unsupported packet type: '' @ packet_str (head_type (head request)) @ ascii ''.'') pb s"
    by (rule Cons.IH) (use Cons.prems h in auto)
  ultimately show ?case using h by simp
qed simp


lemma state_tracing_set_sets: "state_tracing_set c st s = Inr s' \<Longrightarrow> state_tracing s' = st"
  by (auto simp: state_tracing_set_def res_bind_eq_Inr split: if_splits)

text \<open>Loading an injectable leaves the tracing stopped, whether or not it succeeds: all its paths return before the code that starts it
  again. Unloading restores the state.\<close>

theorem injectable_load_stops_tracing:
  assumes "handle_INJL c request pb s = Inr (r, pb1, s1)" "handle_INJU c request pb s = Inr (r', pb2, s2)"
  shows "\<not> state_tracing s1 \<and> state_tracing s2 = state_tracing s"
proof -
  have "ends (\<lambda>_ s'. \<not> state_tracing s') (handle_INJL c request pb s)"
    unfolding handle_INJL_def by (intro ends_rules) (auto dest: state_tracing_set_sets split: if_splits)
  moreover have "ends (\<lambda>_ s'. state_tracing s' = state_tracing s) (handle_INJU c request pb s)"
    unfolding handle_INJU_def by (intro ends_rules) (auto dest: state_tracing_set_sets split: if_splits)
  ultimately show ?thesis using assms by (simp add: ends_def)
qed

text \<open>The array of the arguments of a program to be spawned is allocated with a size that wraps around: for this number of arguments
  it is empty, and the server writes past it, whatever else the request holds.\<close>

theorem spawn_overflow:
  assumes "payload_get PAYLOAD_TYPE_U32 (payload request) (ascii ''argc'') = Inr (Some p)" "4 \<le> length p" "le_word (take 4 p) = (0x3fffffff :: u32)"
  shows "handle_SPWN c request pb s = Inl Out_Of_Bounds"
proof -
  have n: "index_name ''argv'' 0 = Inr (ascii ''argv[0]'')" by code_simp
  have "argv_capacity 0x3fffffff = 0" by code_simp
  moreover have "read_argv request 0 0x3fffffff 0 [] pb s k = Inl Out_Of_Bounds" for k :: "bytes list \<Rightarrow> 'a answer"
    by (subst read_argv.simps) (simp add: n)
  ultimately show ?thesis using assms by (simp add: handle_SPWN_def read_u32_def read_ptr_def not_less)
qed

section \<open>Processes\<close>

text \<open>Taking a reference and giving it back leaves the tables as they are.\<close>

lemma process_dup_put:
  assumes "process_heap w p = Some x" "0 < process_references x"
  shows "\<exists>w'. process_dup w p = Inr w' \<and> process_at w' p = Inr (x\<lparr>process_references := process_references x + 1\<rparr>) \<and> process_put w' p = Inr w"
proof -
  let ?w = "set_process w p (x\<lparr>process_references := process_references x + 1\<rparr>)"
  have "process_dup w p = Inr ?w" using assms(1) by (simp add: process_dup_def process_at_def)
  moreover have at: "process_at ?w p = Inr (x\<lparr>process_references := process_references x + 1\<rparr>)" by (simp add: process_at_def set_process_def)
  moreover have "(process_heap w)(p \<mapsto> x) = process_heap w" using assms(1) by auto
  then have "process_put ?w p = Inr w" using assms at by (simp add: process_put_def set_process_def Let_def)
  ultimately show ?thesis by blast
qed

lemma thread_dup_put:
  assumes "thread_heap w t = Some y" "0 < thread_references y"
  shows "\<exists>w'. thread_dup w t = Inr w' \<and> thread_at w' t = Inr (y\<lparr>thread_references := thread_references y + 1\<rparr>) \<and> thread_put lib w' t = Inr w"
proof -
  let ?w = "set_thread w t (y\<lparr>thread_references := thread_references y + 1\<rparr>)"
  have "thread_dup w t = Inr ?w" using assms(1) by (simp add: thread_dup_def thread_at_def)
  moreover have at: "thread_at ?w t = Inr (y\<lparr>thread_references := thread_references y + 1\<rparr>)" by (simp add: thread_at_def set_thread_def)
  moreover have "(thread_heap w)(t \<mapsto> y) = thread_heap w" using assms(1) by auto
  then have "thread_put lib ?w t = Inr w" using assms at by (simp add: thread_put_def set_thread_def Let_def)
  ultimately show ?thesis by blast
qed

definition elem_name :: "string \<Rightarrow> nat \<Rightarrow> bytes" where
  "elem_name fld i = ascii fld @ ascii ''['' @ ascii (show_dec i) @ ascii '']''"

lemma index_name_eq:
  assumes "n < 10 ^ k" "0 < k" "length fld + k + 2 < 16" "k \<le> 9"
  shows "index_name fld (of_nat n) = Inr (elem_name fld n)" "length (elem_name fld n) < 16"
proof -
  have "n < 10 ^ 9" using assms(1) power_increasing [of k 9 "10 :: nat"] assms(4) by simp
  then have u: "unat (of_nat n :: u32) = n" by (intro unat_of_nat_small) simp
  have "length (show_dec n) \<le> k" using show_base_length [of 10 n k] assms(1,2) by simp
  then show "length (elem_name fld n) < 16" using assms(3) by (simp add: elem_name_def ascii_def)
  then show "index_name fld (of_nat n) = Inr (elem_name fld n)"
    by (simp add: index_name_def dec_def u elem_name_def Let_def)
qed

lemma ascii_inj [simp]: "ascii a = ascii b \<longleftrightarrow> a = b"
proof -
  have "inj (of_char :: char \<Rightarrow> u8)"
  proof (rule injI)
    fix c d :: char
    assume "of_char c = (of_char d :: u8)"
    then have "unat (of_nat (of_char c) :: u8) = unat (of_nat (of_char d) :: u8)" by (simp add: of_nat_of_char)
    moreover have "unat (of_nat (of_char e) :: u8) = of_char e" for e
      using nat_of_char_less_256 [of e] by (intro unat_of_nat_small) simp
    ultimately show "c = d" by simp
  qed
  then show ?thesis unfolding ascii_def by (auto simp: inj_map_eq_map)
qed

lemma elem_name_inj [simp]: "elem_name fld i = elem_name fld j \<longleftrightarrow> i = j"
proof
  assume "elem_name fld i = elem_name fld j"
  then have eq: "show_dec i = show_dec j" by (simp add: elem_name_def)
  have "base_value 10 (show_dec m) = m" for m by (rule base_value_show) simp_all
  then show "i = j" using arg_cong [OF eq, of "base_value 10"] by (simp only:)
qed simp

lemma elem_name_ok:
  assumes "n < 10 ^ k" "0 < k" "length fld + k + 2 < 16" "k \<le> 9" "0 \<notin> set (ascii fld)"
  shows "name_ok (elem_name fld n)"
proof -
  have d: "list_all (\<lambda>d. of_char (hex_char d) \<noteq> (0 :: u8)) [0..<10]" by code_simp
  have "list_all (\<lambda>c. of_char c \<noteq> (0 :: u8)) (show_dec n)" using d by (intro show_base_chars) (auto simp: list_all_iff)
  then have "0 \<notin> set (ascii (show_dec n))" by (auto simp: ascii_def list_all_iff)
  then show ?thesis using assms(5) index_name_eq(2) [OF assms(1-4)] by (simp add: name_ok_def elem_name_def) (simp add: ascii_def)
qed

definition u32_entry :: "bytes \<Rightarrow> u32 \<Rightarrow> payload_entry" where
  "u32_entry name v = new_entry PAYLOAD_TYPE_U32 name (le_bytes 4 v)"

definition pid_entries :: "tables \<Rightarrow> nat \<Rightarrow> ptr list \<Rightarrow> payload_entry list" where
  "pid_entries w n ps = map (\<lambda>i. u32_entry (elem_name ''procv'' (n + i)) (of_nat (process_pid (the (process_heap w (ps ! i)))))) [0..<length ps]"

lemma pid_entries_Cons:
  "pid_entries w n (p # ps) = u32_entry (elem_name ''procv'' n) (of_nat (process_pid (the (process_heap w p)))) # pid_entries w (Suc n) ps"
  by (simp add: pid_entries_def upt_conv_Cons map_Suc_upt [symmetric] comp_def del: upt_Suc)

lemma report_processes_holds:
  assumes "\<forall>p \<in> set ps. \<exists>x. process_heap w p = Some x \<and> 0 < process_references x" "holds_entries pb es" "n + length ps < 10 ^ 8"
  shows "\<exists>pb'. report_processes (of_nat n) ps pb w = Inr (of_nat (n + length ps), pb', w) \<and> holds_entries pb' (es @ pid_entries w n ps)"
  using assms
proof (induction ps arbitrary: n pb es)
  case Nil
  then show ?case by (simp add: pid_entries_def)
next
  case (Cons p ps)
  obtain x where x: "process_heap w p = Some x" "0 < process_references x" using Cons.prems(1) by auto
  obtain w' where w': "process_dup w p = Inr w'" "process_at w' p = Inr (x\<lparr>process_references := process_references x + 1\<rparr>)" "process_put w' p = Inr w"
    using process_dup_put [OF x] by blast
  have n: "n < 10 ^ 8" using Cons.prems(3) by simp
  have "name_ok (elem_name ''procv'' n)" using n by (intro elem_name_ok [of _ 8]) (auto simp: ascii_def)
  then obtain pb1 where pb1: "payload_put_u32 pb (elem_name ''procv'' n) (of_nat (process_pid x)) = Inr pb1"
      "holds_entries pb1 (es @ [u32_entry (elem_name ''procv'' n) (of_nat (process_pid x))])"
    using u32_field.put_holds [OF Cons.prems(2)] unfolding u32_entry_def by blast
  have i: "index_name ''procv'' (of_nat n) = Inr (elem_name ''procv'' n)" using n by (intro index_name_eq [of _ 8]) auto
  obtain pb' where "report_processes (of_nat (Suc n)) ps pb1 w = Inr (of_nat (Suc n + length ps), pb', w)"
      "holds_entries pb' ((es @ [u32_entry (elem_name ''procv'' n) (of_nat (process_pid x))]) @ pid_entries w (Suc n) ps)"
    using Cons.IH [OF _ pb1(2), of "Suc n"] Cons.prems(1,3) by auto
  then show ?case using w' i pb1(1) x(1) by (simp add: write_u32x_def pid_entries_Cons add.commute)
qed

text \<open>What a client reads out of a response.\<close>

definition reads_u32 :: "packet_t \<Rightarrow> bytes \<Rightarrow> u32 \<Rightarrow> bool" where
  "reads_u32 r name v \<longleftrightarrow> (\<exists>p. payload_get PAYLOAD_TYPE_U32 (payload r) name = Inr (Some p) \<and> 4 \<le> length p \<and> le_word (take 4 p) = v)"

lemma reads_u32_entry:
  assumes "wf_payload es the_term" "payload r = payload_bytes es the_term" "u32_entry name v \<in> set es" "0 \<notin> set name"
    and "\<forall>y \<in> set es. en_name y = name \<longrightarrow> y = u32_entry name v"
  shows "reads_u32 r name v"
proof -
  have "en_name (u32_entry name v) = name" by (simp add: u32_entry_def new_entry_def)
  then obtain z zs where z: "dropWhile (\<lambda>x. en_name x \<noteq> name) es = z # zs"
    using assms(3) by (metis (mono_tags, lifting) dropWhile_eq_Nil_conv list.exhaust)
  have "en_name z = name" using z by (metis (mono_tags, lifting) dropWhile_eq_Cons_conv)
  moreover have "z \<in> set es" using z by (metis list.set_intros(1) set_dropWhileD)
  ultimately have "z = u32_entry name v" using assms(5) by blast
  then show ?thesis
    using payload_get_bytes [OF assms(1,4), of PAYLOAD_TYPE_U32 "[]"] z assms(2)
    by (simp add: reads_u32_def u32_entry_def new_entry_def le_word_le_bytes)
qed

lemma entry_names: "en_name (u32_entry name v) = name" "en_name (msg_entry m) = ascii ''msg''"
  by (simp_all add: u32_entry_def msg_entry_def new_entry_def)

lemma elem_name_other: "elem_name ''procv'' i \<noteq> ascii ''msg''" "elem_name ''procv'' i \<noteq> ascii ''procc''"
  by (simp_all add: elem_name_def ascii_def)

lemma handle_PROC_entries:
  assumes "\<forall>p \<in> set ps. \<exists>x. process_heap (srv_tables s) p = Some x \<and> 0 < process_references x" "ps = tree_vals (processes (srv_tables s))"
    and "length ps < 10 ^ 8" "pb_ok pb"
  shows "\<exists>r pb' m. handle_PROC request (payload_reset pb) s = Inr (r, pb', s) \<and> wf_payload (pid_entries (srv_tables s) 0 ps
      @ [u32_entry (ascii ''procc'') (of_nat (length ps)), msg_entry m]) the_term
    \<and> payload r = payload_bytes (pid_entries (srv_tables s) 0 ps @ [u32_entry (ascii ''procc'') (of_nat (length ps)), msg_entry m]) the_term"
proof -
  let ?w = "srv_tables s"
  obtain pb1 where pb1: "report_processes 0 ps (payload_reset pb) ?w = Inr (of_nat (length ps), pb1, ?w)" "holds_entries pb1 (pid_entries ?w 0 ps)"
    using report_processes_holds [OF assms(1) reset_holds [OF assms(4)], of 0] assms(3) by auto
  have "name_ok (ascii ''procc'')" by (simp add: name_ok_def ascii_def)
  then obtain pb2 where pb2: "payload_put_u32 pb1 (ascii ''procc'') (of_nat (length ps)) = Inr pb2"
      "holds_entries pb2 (pid_entries ?w 0 ps @ [u32_entry (ascii ''procc'') (of_nat (length ps))])"
    using u32_field.put_holds [OF pb1(2)] unfolding u32_entry_def by blast
  define m where "m = ascii ''Tracing '' @ dec (of_nat (length ps)) @ ascii '' process'' @ (if of_nat (length ps) \<noteq> (0 :: u32) then [] else ascii ''es'') @ ascii ''.''"
  have "length ''OKAY'' = 4" by simp
  then obtain r pb3 where "say_OKAY request m pb2 s = Inr (r, pb3, s)"
      "payload r = payload_bytes ((pid_entries ?w 0 ps @ [u32_entry (ascii ''procc'') (of_nat (length ps))]) @ [msg_entry m]) the_term"
      "wf_payload ((pid_entries ?w 0 ps @ [u32_entry (ascii ''procc'') (of_nat (length ps))]) @ [msg_entry m]) the_term"
    using say_holds [OF pb2(2)] by blast
  then show ?thesis using pb1(1) pb2(1) assms(2) unfolding handle_PROC_def m_def by auto
qed

text \<open>The list of the traced processes can be read out of the response: it has the number of processes and, under each index below it,
  the identifier of a process, in the order of the table; the tables are as before.\<close>

theorem process_list_readable:
  assumes "pb_ok pb" "payload_check (payload request) (unat (head_length (head request))) = Inr True"
    and "packet_id ''PROC'' = Inr (head_type (head request))" "ps = tree_vals (processes (srv_tables s))" "length ps < 10 ^ 8"
    and "\<forall>p \<in> set ps. \<exists>x. process_heap (srv_tables s) p = Some x \<and> 0 < process_references x"
  shows "\<exists>r pb'. handle_packet c (pb, s) request = Inr (Some r, pb', s) \<and> reads_u32 r (ascii ''procc'') (of_nat (length ps))
    \<and> (\<forall>i < length ps. reads_u32 r (elem_name ''procv'' i) (of_nat (process_pid (the (process_heap (srv_tables s) (ps ! i))))))"
proof -
  let ?P = "pid_entries (srv_tables s) 0 ps" and ?n = "u32_entry (ascii ''procc'') (of_nat (length ps))"
  obtain r pb' m where r: "handle_PROC request (payload_reset pb) s = Inr (r, pb', s)" "wf_payload (?P @ [?n, msg_entry m]) the_term"
      "payload r = payload_bytes (?P @ [?n, msg_entry m]) the_term"
    using handle_PROC_entries [OF assms(6,4,5,1)] by blast
  have "handle_packet c (pb, s) request = Inr (Some r, pb', s)"
    using assms(2,3) r(1) by (simp add: handle_packet_def handlers_def packet_ids)
  moreover have "reads_u32 r (ascii ''procc'') (of_nat (length ps))"
    by (rule reads_u32_entry [OF r(2,3)]) (auto simp: entry_names elem_name_other pid_entries_def, simp_all add: ascii_def)
  moreover have "reads_u32 r (elem_name ''procv'' i) (of_nat (process_pid (the (process_heap (srv_tables s) (ps ! i)))))" if "i < length ps" for i
  proof (rule reads_u32_entry [OF r(2,3)])
    show "0 \<notin> set (elem_name ''procv'' i)"
      using elem_name_ok [of i 8 "''procv''"] that assms(5) by (simp add: name_ok_def ascii_def)
  qed (use that in \<open>auto simp: entry_names elem_name_other [symmetric] pid_entries_def\<close>)
  ultimately show ?thesis by blast
qed

lemma all_running_False:
  "\<forall>t \<in> set ts. \<exists>y. thread_heap w t = Some y \<and> 0 < thread_references y \<Longrightarrow> all_running lib False ts w = Inr (False, w)"
proof (induction ts)
  case (Cons t ts)
  then obtain y where y: "thread_heap w t = Some y" "0 < thread_references y" by auto
  then obtain w' where "thread_dup w t = Inr w'" "thread_at w' t = Inr (y\<lparr>thread_references := thread_references y + 1\<rparr>)" "thread_put lib w' t = Inr w"
    using thread_dup_put [OF y] by blast
  then show ?case using Cons by simp
qed simp

lemma first_thread_None:
  "\<forall>t \<in> set ts. \<exists>y. thread_heap w t = Some y \<and> \<not> P y \<Longrightarrow> first_thread P w ts = Inr (None, w)"
  by (induction ts) (auto simp: thread_at_def)

text \<open>A request for the memory of a process of which no thread is stopped brings the server down: the code takes every process for
  stopped, and reads with a thread that does not exist.\<close>

theorem memory_dump_aborts:
  assumes "payload_get PAYLOAD_TYPE_U32 (payload request) (ascii ''pid'') = Inr (Some d1)" "4 \<le> length d1"
    and "payload_get PAYLOAD_TYPE_U64 (payload request) (ascii ''address'') = Inr (Some d2)" "8 \<le> length d2"
    and "payload_get PAYLOAD_TYPE_U32 (payload request) (ascii ''size'') = Inr (Some d3)" "4 \<le> length d3"
    and "tree_get (processes (srv_tables s)) (unat (le_word (take 4 d1) :: u32)) = Some p" "process_heap (srv_tables s) p = Some x"
    and "\<forall>t \<in> set (tree_vals (process_threads x)). \<exists>y. thread_heap (srv_tables s) t = Some y \<and> 0 < thread_references y
           \<and> (running (thread_state y) \<or> dead (thread_state y))"
  shows "handle_MEMD c request pb s = Inl Assertion"
proof -
  let ?w = "set_process (srv_tables s) p (x\<lparr>process_references := process_references x + 1\<rparr>)"
  have g: "srv_process_get (le_word (take 4 d1)) s = Inr (Some p, s\<lparr>srv_tables := ?w\<rparr>)"
    using assms(7,8) by (simp add: srv_process_get_def process_get_def process_dup_def process_at_def)
  have at: "process_at ?w p = Inr (x\<lparr>process_references := process_references x + 1\<rparr>)" by (simp add: process_at_def set_process_def)
  have th: "thread_heap ?w = thread_heap (srv_tables s)" by (simp add: set_process_def)
  have "all_running (thread_lib c) False (tree_vals (process_threads x)) ?w = Inr (False, ?w)"
    using assms(9) by (intro all_running_False) (simp only: th, blast)
  then have run: "process_is_running (thread_lib c) ?w p = Inr (False, ?w)" unfolding process_is_running_def at by simp
  have "first_thread (\<lambda>y. \<not> running (thread_state y) \<and> \<not> dead (thread_state y)) ?w (tree_vals (process_threads x)) = Inr (None, ?w)"
    using assms(9) by (intro first_thread_None) (simp only: th, blast)
  then have "thread_any_stopped ?w p = Inr (None, ?w)" unfolding thread_any_stopped_def thread_any_def at by simp
  then show ?thesis using assms(1-6) g run by (simp add: handle_MEMD_def read_u32_def read_u64_def read_ptr_def not_less Let_def)
qed

section \<open>Examples\<close>

text \<open>A server without processes, on which nothing happens, and its calls.\<close>

definition idle_server :: "bool \<Rightarrow> unit server" where
  "idle_server st = \<lparr>state_tracing = st, logger_level = 0, signal_quit = 0, srv_tables = \<lparr>process_heap = \<lambda>_. None, thread_heap = \<lambda>_. None,
     processes = Leaf, threads = Leaf, spawned_pids = Leaf\<rparr>, srv_registry = \<lparr>inj_heap = \<lambda>_. None, injectables = Leaf, libraries = Leaf,
     bindings = Leaf, next_iid = 0\<rparr>, srv_procs = ()\<rparr>"

definition idle_calls :: "unit calls" where
  "idle_calls = \<lparr>process_attach = \<lambda>_ s. Inr (False, s), process_detach = \<lambda>_. Inr, process_kill = \<lambda>_. Inr, process_spawn = \<lambda>_ s. Inr (None, s),
     process_stop_all = Inr, process_continue_all = Inr, process_stop = \<lambda>_. Inr, process_continue = \<lambda>_. Inr, call_mem_read = \<lambda>_ _ _ s. Inr ([], s),
     str_address = \<lambda>_ _ _. Inr [], map_segments = \<lambda>_ _. [], map_injections = \<lambda>_ _. [], attach_injectable = \<lambda>w _. Inr w,
     detach_injectable = \<lambda>w _. Inr w, load_io = \<lambda>_. \<lparr>io_open = False, io_seek_end = False, io_tell = 0, io_seek_set = False, io_malloc = False, io_read = []\<rparr>,
     fresh_injectable = \<lambda>_. 0, read_dir = \<lambda>_. None, thread_lib = leaf_lib 0, inj_lib = leaf_lib 0\<rparr>"

definition empty_request :: "u32 \<Rightarrow> packet_t" where
  "empty_request ty = \<lparr>head = \<lparr>head_type = ty, head_seq = 7, head_length = 9\<rparr>, payload = [0, 0, 1, 0, 0, 0, 0, 0, 0]\<rparr>"

lemma empty_request_payload: "payload (empty_request ty) = payload_bytes [] the_term" "wf_payload [] the_term"
  by (simp_all add: empty_request_def payload_bytes_def entry_bytes_def new_entry_def element_info_def le_bytes_def upt_conv_Cons
      wf_payload_def wf_entry_def data_ok_def is_term_def)

lemma empty_request_check: "payload_check (payload (empty_request ty)) (unat (head_length (head (empty_request ty)))) = Inr True"
proof -
  have "unat (head_length (head (empty_request ty))) = length (payload (empty_request ty))" by (simp add: empty_request_def)
  then show ?thesis using payload_check_complete [OF empty_request_payload(2), of "[]"] empty_request_payload(1) [of ty] by simp
qed



theorem injectable_load_stops_tracing_witness:
  "\<exists>r pb s. handle_INJL idle_calls (empty_request 0x494e4a4c) protocol_init (idle_server True) = Inr (r, pb, s) \<and> \<not> state_tracing s"
proof -
  let ?r = "empty_request 0x494e4a4c"
  have h: "holds_entries protocol_init []" by (simp add: holds_entries_def pb_ok_def protocol_init_def payload_create_def)
  have g: "payload_get ty (payload ?r) (ascii ''path'') = Inr None" "payload_get ty (payload ?r) (ascii ''iid'') = Inr None" for ty
    using payload_get_bytes [OF empty_request_payload(2), of _ ty "[]"] by (simp_all add: empty_request_payload ascii_def)
  have "\<exists>r pb' s. handle_INJL idle_calls ?r protocol_init (idle_server True) = Inr (r, pb', s)"
    using say_answers [OF h, of "''MALF''" ?r "ascii ''Field missing: '' @ 39 # ascii ''path'' @ 39 # ascii ''.''" "idle_server False"]
    by (auto simp: handle_INJL_def read_strx_def read_ptr_def g state_tracing_set_def idle_calls_def idle_server_def)
  moreover have "\<exists>r pb' s. handle_INJU idle_calls ?r protocol_init (idle_server True) = Inr (r, pb', s)"
    using say_answers [OF h, of "''MALF''" ?r "ascii ''Field missing: '' @ 39 # ascii ''iid'' @ 39 # ascii ''.''" "idle_server True"]
    by (auto simp: handle_INJU_def read_u32_def read_ptr_def g)
  ultimately show ?thesis using injectable_load_stops_tracing [of idle_calls ?r protocol_init "idle_server True"] by blast
qed

text \<open>A request with given entries.\<close>

definition request_of :: "u32 \<Rightarrow> payload_entry list \<Rightarrow> packet_t" where
  "request_of ty es = \<lparr>head = \<lparr>head_type = ty, head_seq = 7, head_length = of_nat (length (payload_bytes es the_term))\<rparr>, payload = payload_bytes es the_term\<rparr>"

theorem spawn_overflow_witness:
  "handle_SPWN idle_calls (request_of 0x5350574e [u32_entry (ascii ''argc'') 0x3fffffff]) protocol_init (idle_server False) = Inl Out_Of_Bounds"
proof -
  let ?es = "[u32_entry (ascii ''argc'') 0x3fffffff]"
  have wf: "wf_payload ?es the_term"
    by (simp add: wf_payload_def wf_entry_def u32_entry_def new_entry_def data_ok_def is_term_def ascii_def)
  have "reads_u32 (request_of 0x5350574e ?es) (ascii ''argc'') 0x3fffffff"
    by (rule reads_u32_entry [OF wf]) (simp_all add: request_of_def, simp add: ascii_def)
  then show ?thesis using spawn_overflow by (auto simp: reads_u32_def)
qed

text \<open>A server with one process with the identifier 42, whose only thread runs.\<close>

definition one_server :: "unit server" where
  "one_server = idle_server True\<lparr>srv_tables := \<lparr>
     process_heap = [0 \<mapsto> \<lparr>process_pid = 42, process_threads = Node Leaf (42, 1) Leaf, process_references = 1, mode32 = True, stabilizing = False, spawned = False\<rparr>],
     thread_heap = [1 \<mapsto> \<lparr>process = 0, thread_pid = 42, thread_state = \<lparr>running = True, slavemode = False, execed = False, stopme = False, signo = 0,
       setoptions = True, dead = False\<rparr>, notified = True, thread_references = 1\<rparr>],
     processes = Node Leaf (42, 0) Leaf, threads = Node Leaf (42, 1) Leaf, spawned_pids = Leaf\<rparr>\<rparr>"

theorem process_list_readable_witness:
  "\<exists>r pb'. handle_packet idle_calls (protocol_init, one_server) (empty_request 0x50524f43) = Inr (Some r, pb', one_server)
     \<and> reads_u32 r (ascii ''procc'') 1 \<and> reads_u32 r (elem_name ''procv'' 0) 42"
proof -
  have pb: "pb_ok protocol_init" by (simp add: pb_ok_def protocol_init_def payload_create_def)
  have ps: "tree_vals (processes (srv_tables one_server)) = [0]" by (simp add: one_server_def tree_vals_inorder)
  have pid: "process_heap (srv_tables one_server) 0 = Some \<lparr>process_pid = 42, process_threads = Node Leaf (42, 1) Leaf, process_references = 1,
      mode32 = True, stabilizing = False, spawned = False\<rparr>" by (simp add: one_server_def)
  have ty: "packet_id ''PROC'' = Inr (head_type (head (empty_request 0x50524f43)))" by (simp add: packet_ids empty_request_def)
  show ?thesis
    using process_list_readable [OF pb empty_request_check ty ps [symmetric], of idle_calls] pid by auto
qed

theorem memory_dump_aborts_witness:
  "handle_MEMD idle_calls (request_of 0x4d454d44 [u32_entry (ascii ''pid'') 42, new_entry PAYLOAD_TYPE_U64 (ascii ''address'') (le_bytes 8 (0x8000 :: u64)),
     u32_entry (ascii ''size'') 16]) protocol_init one_server = Inl Assertion"
proof -
  let ?a = "new_entry PAYLOAD_TYPE_U64 (ascii ''address'') (le_bytes 8 (0x8000 :: u64))"
  let ?es = "[u32_entry (ascii ''pid'') 42, ?a, u32_entry (ascii ''size'') 16]"
  let ?r = "request_of 0x4d454d44 ?es"
  have wf: "wf_payload ?es the_term"
    by (simp add: wf_payload_def wf_entry_def u32_entry_def new_entry_def data_ok_def is_term_def ascii_def)
  have z: "0 \<notin> set (ascii ''pid'')" "0 \<notin> set (ascii ''address'')" "0 \<notin> set (ascii ''size'')" by (simp_all add: ascii_def)
  have n: "en_name ?a = ascii ''address''" by (simp add: new_entry_def)
  have "reads_u32 ?r (ascii ''pid'') 42" "reads_u32 ?r (ascii ''size'') 16"
    by (rule reads_u32_entry [OF wf]; simp add: request_of_def z n entry_names)+
  then obtain d1 d3 where d: "payload_get PAYLOAD_TYPE_U32 (payload ?r) (ascii ''pid'') = Inr (Some d1)" "4 \<le> length d1" "le_word (take 4 d1) = (42 :: u32)"
      "payload_get PAYLOAD_TYPE_U32 (payload ?r) (ascii ''size'') = Inr (Some d3)" "4 \<le> length d3" by (auto simp: reads_u32_def)
  obtain d2 where d2: "payload_get PAYLOAD_TYPE_U64 (payload ?r) (ascii ''address'') = Inr (Some d2)" "8 \<le> length d2"
    using payload_get_bytes [OF wf z(2), of PAYLOAD_TYPE_U64 "[]"] by (simp add: request_of_def n entry_names) (simp add: new_entry_def)
  have one: "tree_get (processes (srv_tables one_server)) (unat (le_word (take 4 d1) :: u32)) = Some 0"
    unfolding d(3) by (simp add: one_server_def tree_get_def tree_get_node_def)
  have h: "process_heap (srv_tables one_server) 0 = Some \<lparr>process_pid = 42, process_threads = Node Leaf (42, 1) Leaf, process_references = 1,
      mode32 = True, stabilizing = False, spawned = False\<rparr>" by (simp add: one_server_def)
  show ?thesis
    by (rule memory_dump_aborts [OF d(1,2) d2 d(4,5) one h]) (simp add: one_server_def tree_vals_inorder)
qed

section \<open>The connection and the requests\<close>

text \<open>C16: A request that is answered at all is answered on the wire: however the network cuts it into pieces and however little of the response
  each write takes, the bytes sent are a header with the sequence number of the request and one of the four types, followed by a
  payload of the announced length that the client's check accepts.\<close>

theorem request_served:
  assumes "connection_sock cn \<ge> 0" "length (payload p) = unat (head_length (head p))"
    and "arrives (header_bytes (head p)) rs1" "hd rs1 \<noteq> Would_Block" "arrives (payload p) rs2" "sys_reads os = rs1 @ rs2 @ rs3"
    and "handle_packet c (pb, s) p = Inr (Some r, pb', s')" "length (payload r) < 2 ^ 32"
    and "accepts (header_bytes (head r)) ws1" "accepts (payload r) ws2" "sys_sends os = ws1 @ ws2 @ ws3"
  shows "\<exists>out h. comm_handle_io (handle_packet c) os (cn, pb, s) = Inr (out, cn, pb', s') \<and> h = bytes_header (take sizeof_packet_header out)
    \<and> head_seq h = head_seq (head p) \<and> head_type h \<in> response_ids \<and> length out = sizeof_packet_header + unat (head_length h)
    \<and> payload_check (drop sizeof_packet_header out) (unat (head_length h)) = Inr True"
proof -
  have r: "responds p r" using packet_responds [OF assms(7)] by simp
  then have l: "length (payload r) = unat (head_length (head r))" using assms(8) by (simp add: responds_def unat_of_nat_small)
  obtain out where out: "comm_handle_io (handle_packet c) os (cn, pb, s) = Inr (out, cn, pb', s')"
      "bytes_header (take sizeof_packet_header out) = head r" "drop sizeof_packet_header out = payload r"
    using comm_serves [where handle = "handle_packet c", OF assms(1-6) assms(7) l assms(9-11)] by blast
  have "payload r \<noteq> []" using r by (auto simp: responds_def payload_check.simps payload_check_element_def)
  then have "length out = sizeof_packet_header + length (payload r)" using out(3) by (metis add_diff_inverse_nat drop_eq_Nil length_drop not_less_iff_gr_or_eq order.order_iff_strict)
  then show ?thesis using out r l by (auto simp: responds_def)
qed

lemma pieces: "bs \<noteq> [] \<Longrightarrow> arrives bs [Received bs]" "bs \<noteq> [] \<Longrightarrow> accepts bs [Sent (length bs)]"
  using Piece [OF _ Arrived, of bs] Part [of bs "length bs" "[]"] Accepted by simp_all

theorem request_served_witness:
  "\<exists>os out pb'. comm_handle_io (handle_packet idle_calls) os (\<lparr>server_sock = -1, connection_sock = 5\<rparr>, protocol_init, idle_server True)
      = Inr (out, \<lparr>server_sock = -1, connection_sock = 5\<rparr>, pb', idle_server True)
    \<and> head_seq (bytes_header (take sizeof_packet_header out)) = 7"
proof -
  let ?p = "empty_request 0x50494e47" and ?pb = "payload_reset protocol_init"
  have pb: "pb_ok protocol_init" by (simp add: pb_ok_def protocol_init_def payload_create_def)
  have len: "length ''OKAY'' = 4" by simp
  obtain r pb' where r: "say_OKAY ?p (ascii ''Ping-pong.'') ?pb (idle_server True) = Inr (r, pb', idle_server True)"
      "payload r = payload_bytes ([] @ [msg_entry (ascii ''Ping-pong.'')]) the_term"
    using say_holds [OF reset_holds [OF pb] len] by blast
  have "head_type (head ?p) = 0x50494e47" by (simp add: empty_request_def)
  then have h: "handle_packet idle_calls (protocol_init, idle_server True) ?p = Inr (Some r, pb', idle_server True)"
    using empty_request_check r(1) by (simp add: handle_packet_def handlers_def packet_ids handle_PING_def)
  have l: "length (payload r) < 2 ^ 32" "payload r \<noteq> []"
    using r(2) by (simp_all add: payload_bytes_def entry_bytes_def msg_entry_def new_entry_def ascii_def)
  have e: "payload ?p \<noteq> []" "length (payload ?p) = unat (head_length (head ?p))" by (simp_all add: empty_request_def)
  have hb: "header_bytes x \<noteq> []" for x by (simp add: header_bytes_def)
  define os where "os = \<lparr>sys_socket = 4, sys_bind = True, sys_listen = True, sys_accept = -1, sys_shutdown = Shut_Down, sys_close = [],
     sys_reads = [Received (header_bytes (head ?p))] @ [Received (payload ?p)] @ [],
     sys_sends = [Sent (length (header_bytes (head r)))] @ [Sent (length (payload r))] @ []\<rparr>"
  have "\<exists>out h. comm_handle_io (handle_packet idle_calls) os (\<lparr>server_sock = -1, connection_sock = 5\<rparr>, protocol_init, idle_server True)
      = Inr (out, \<lparr>server_sock = -1, connection_sock = 5\<rparr>, pb', idle_server True) \<and> h = bytes_header (take sizeof_packet_header out)
    \<and> head_seq h = head_seq (head ?p) \<and> head_type h \<in> response_ids \<and> length out = sizeof_packet_header + unat (head_length h)
    \<and> payload_check (drop sizeof_packet_header out) (unat (head_length h)) = Inr True"
    by (rule request_served [OF _ e(2) pieces(1) [OF hb] _ pieces(1) [OF e(1)] _ h l(1) pieces(2) [OF hb] pieces(2) [OF l(2)]])
      (simp_all add: os_def)
  moreover have "head_seq (head ?p) = 7" by (simp add: empty_request_def)
  ultimately show ?thesis by metis
qed

end
