(* ===== verification/Injection.thy ===== *)
theory Injection
  imports Fncall Injectable
begin

text \<open>
  Injections, \<^verbatim>\<open>injection/injection.c\<close>: the copies of injectables in the memory of the traced processes, with their
  dependencies, linking, initialization and removal. The injections are objects at addresses of a heap, as the segments and
  the trees of the processes hold pointers to them; an injection counts its users and its injectable counts the injections. The
  operations on a thread and its process are the record \<open>icalls\<close>, which \<open>arm_icalls\<close> gives for \<open>Fncall\<close> and \<open>Mem\<close>.
\<close>

section \<open>Definitions\<close>

record injection_t =
  i_process :: nat
  i_address :: u32
  i_injectable :: nat
  i_references :: u32

text \<open>What the injections use of a process.\<close>

record iprocess =
  ip_pid :: u32
  ip_mode32 :: bool
  ip_injections :: "(nat, nat) tree_t"

text \<open>\<open>s_next\<close> is the address that \<^verbatim>\<open>adbi_malloc\<close> returns next and \<open>s_adbi\<close> the global \<^verbatim>\<open>adbi_injectable\<close>.\<close>

record 't istate =
  s_registry :: registry
  s_heap :: "nat \<Rightarrow> injection_t option"
  s_next :: nat
  s_processes :: "nat \<Rightarrow> iprocess"
  s_adbi :: "nat option"
  s_thread :: 't

text \<open>
  The thread: its process and identifier, its state and the calls of functions in the process. The functions that allocate and
  free memory are in the base injection, whose address (none without that injection) and symbols are arguments. The code that
  the process runs to install the base injection is put into a segment that is not part of an injection.
\<close>

record 't icalls =
  ic_process :: nat
  ic_pid :: u32
  ic_tree :: "(nat, nat) tree_lib"
  ic_deps :: "(u32, nat) tree_lib"
  ic_fuel :: nat
  ic_pagesize :: u32
  ic_running :: "'t \<Rightarrow> bool"
  ic_dead :: "'t \<Rightarrow> bool"
  ic_stopped :: "'t \<Rightarrow> bool"
  ic_only_thread :: "'t \<Rightarrow> bool"
  ic_notified :: "'t \<Rightarrow> 't"
  ic_write :: "'t \<Rightarrow> u32 \<Rightarrow> bytes \<Rightarrow> (nat \<times> 't) res"
  ic_call :: "'t \<Rightarrow> u32 \<Rightarrow> u32 \<Rightarrow> u32 \<Rightarrow> u32 \<Rightarrow> u32 \<Rightarrow> (u32 option \<times> 't) res"
  ic_allocate :: "u32 option \<Rightarrow> (bytes \<Rightarrow> int res) \<Rightarrow> 't \<Rightarrow> u32 \<Rightarrow> (u32 option \<times> 't) res"
  ic_free :: "u32 option \<Rightarrow> (bytes \<Rightarrow> int res) \<Rightarrow> 't \<Rightarrow> u32 \<Rightarrow> u32 \<Rightarrow> (bool \<times> 't) res"
  ic_load_call :: "(u32 \<Rightarrow> bool) \<Rightarrow> 't \<Rightarrow> bytes \<Rightarrow> u32 \<Rightarrow> call_context_t \<Rightarrow> (bool \<times> call_context_t \<times> 't) res"

text \<open>\<^verbatim>\<open>fncall_memop\<close> looks up the symbol first and uses the pointer to the base injection afterwards.\<close>

definition with_base :: "u32 option \<Rightarrow> (bytes \<Rightarrow> int res) \<Rightarrow> bytes \<Rightarrow> (u32 \<Rightarrow> 'a res) \<Rightarrow> 'a \<Rightarrow> 'a res" where
  "with_base base symbol name k failed =
     (case base of
        Some a \<Rightarrow> k a
      | None \<Rightarrow> res_bind (symbol name) (\<lambda>ofs. if ofs < 0 then Inr failed else Inl Null_Pointer))"

definition arm_icalls ::
    "'m hooks \<Rightarrow> ('m, u32) inferior_ops \<Rightarrow> ('m traced \<Rightarrow> u32 \<Rightarrow> bool) \<Rightarrow> nat \<Rightarrow> ('m traced \<Rightarrow> bool) \<Rightarrow> (u32, unit, unit) segment_t list
     \<Rightarrow> u32 \<Rightarrow> nat \<Rightarrow> u32 \<Rightarrow> (nat, nat) tree_lib \<Rightarrow> (u32, nat) tree_lib \<Rightarrow> ('m traced \<Rightarrow> bool) \<Rightarrow> 'm traced icalls" where
  "arm_icalls h b executable fuel stopped segs pagesize proc pid tlib dlib only_thread =
     \<lparr>ic_process = proc, ic_pid = pid, ic_tree = tlib, ic_deps = dlib, ic_fuel = fuel, ic_pagesize = pagesize,
      ic_running = (\<lambda>t. running (t_state t)), ic_dead = (\<lambda>t. dead (t_state t)), ic_stopped = stopped, ic_only_thread = only_thread,
      ic_notified = (\<lambda>t. t\<lparr>t_notified := True\<rparr>),
      ic_write = mem_write (thread_mem h b),
      ic_call = fncall_call_adbi h b executable fuel,
      ic_allocate = (\<lambda>base symbol t sz. with_base base symbol adbi_alloc_name
         (\<lambda>a. fncall_allocate h b executable fuel a symbol pagesize t sz) (None, t)),
      ic_free = (\<lambda>base symbol t address sz. with_base base symbol adbi_free_name
         (\<lambda>a. fncall_free h b executable fuel a symbol t address sz) (False, t)),
      ic_load_call = fncall_alloc_load_call h b executable fuel segs\<rparr>"

subsection \<open>The objects\<close>

definition injection_at :: "'t istate \<Rightarrow> nat \<Rightarrow> injection_t res" where
  "injection_at s p = (case s_heap s p of None \<Rightarrow> Inl Dangling | Some i \<Rightarrow> Inr i)"

definition injections_of :: "'t istate \<Rightarrow> nat \<Rightarrow> (nat, nat) tree_t" where
  "injections_of s proc = ip_injections (s_processes s proc)"

definition set_injections :: "'t istate \<Rightarrow> nat \<Rightarrow> (nat, nat) tree_t \<Rightarrow> 't istate" where
  "set_injections s proc t = s\<lparr>s_processes := (s_processes s)(proc := (s_processes s proc)\<lparr>ip_injections := t\<rparr>)\<rparr>"

definition set_references :: "'t istate \<Rightarrow> nat \<Rightarrow> (u32 \<Rightarrow> u32) \<Rightarrow> 't istate res" where
  "set_references s p f =
     res_bind (injection_at s p) (\<lambda>i. Inr (s\<lparr>s_heap := (s_heap s)(p \<mapsto> i\<lparr>i_references := f (i_references i)\<rparr>)\<rparr>))"

definition count_injectable :: "'t istate \<Rightarrow> nat \<Rightarrow> (u32 \<Rightarrow> u32) \<Rightarrow> 't istate res" where
  "count_injectable s q f =
     res_bind (injectable_at (s_registry s) q) (\<lambda>x.
     Inr (s\<lparr>s_registry := (s_registry s)\<lparr>inj_heap := (inj_heap (s_registry s))(q \<mapsto>
       x\<lparr>inj_references := f (inj_references x)\<rparr>)\<rparr>\<rparr>))"

definition injection_create :: "'t icalls \<Rightarrow> 't istate \<Rightarrow> nat \<Rightarrow> nat \<Rightarrow> u32 \<Rightarrow> (nat \<times> 't istate) res" where
  "injection_create c s proc q address =
     (let p = s_next s;
          s = s\<lparr>s_heap := (s_heap s)(p \<mapsto> \<lparr>i_process = proc, i_address = address, i_injectable = q, i_references = 0\<rparr>), s_next := p + 1\<rparr>
      in res_bind (count_injectable s q (\<lambda>n. n + 1)) (\<lambda>s.
         res_bind (tree_insert (ic_tree c) (injections_of s proc) q p) (\<lambda>t.
         Inr (p, set_injections s proc t))))"

definition injection_free :: "'t icalls \<Rightarrow> 't istate \<Rightarrow> nat \<Rightarrow> 't istate res" where
  "injection_free c s p =
     res_bind (injection_at s p) (\<lambda>i.
     res_bind (tree_remove (ic_tree c) (injections_of s (i_process i)) (i_injectable i)) (\<lambda>t.
     res_bind (count_injectable (set_injections s (i_process i) t) (i_injectable i) (\<lambda>n. n - 1)) (\<lambda>s.
     Inr (s\<lparr>s_heap := (s_heap s)(p := None)\<rparr>))))"

definition injection_get :: "'t istate \<Rightarrow> nat \<Rightarrow> nat \<Rightarrow> nat option" where
  "injection_get s proc q = tree_get (injections_of s proc) q"

definition injection_get_adbi :: "'t istate \<Rightarrow> nat \<Rightarrow> nat option" where
  "injection_get_adbi s proc = (case s_adbi s of None \<Rightarrow> None | Some q \<Rightarrow> injection_get s proc q)"

definition injection_is_adbi :: "'t istate \<Rightarrow> injection_t \<Rightarrow> bool" where
  "injection_is_adbi s i \<longleftrightarrow> s_adbi s = Some (i_injectable i)"

definition code_size_of :: "'t istate \<Rightarrow> nat \<Rightarrow> u32 res" where
  "code_size_of s q = res_bind (injectable_at (s_registry s) q) (\<lambda>x. Inr (inj_code_size (injfile x)))"

text \<open>The end of the injection is computed in 32 bits.\<close>

definition injection_contains :: "'t istate \<Rightarrow> injection_t \<Rightarrow> u32 \<Rightarrow> bool res" where
  "injection_contains s i address =
     res_bind (code_size_of s (i_injectable i)) (\<lambda>sz. Inr (address \<ge> i_address i \<and> address < i_address i + sz))"

text \<open>The first injection, in the order of the tree, for which a test gives a result.\<close>

fun first_injection :: "(injection_t \<Rightarrow> 'a option res) \<Rightarrow> 't istate \<Rightarrow> nat list \<Rightarrow> 'a option res" where
  "first_injection f s [] = Inr None"
| "first_injection f s (p # ps) =
     res_bind (injection_at s p) (\<lambda>i. res_bind (f i) (\<lambda>r. case r of Some x \<Rightarrow> Inr (Some x) | None \<Rightarrow> first_injection f s ps))"

definition injection_get_by_address :: "'t istate \<Rightarrow> nat \<Rightarrow> u32 \<Rightarrow> injection_t option res" where
  "injection_get_by_address s proc address =
     first_injection (\<lambda>i. res_bind (injection_contains s i address) (\<lambda>r. Inr (if r then Some i else None))) s (tree_vals (injections_of s proc))"

fun injection_iter :: "(nat \<Rightarrow> 't istate \<Rightarrow> 't istate res) \<Rightarrow> nat list \<Rightarrow> 't istate \<Rightarrow> 't istate res" where
  "injection_iter f [] s = Inr s"
| "injection_iter f (p # ps) s = res_bind (f p s) (injection_iter f ps)"

subsection \<open>Symbols\<close>

definition injection_relocate_address :: "injection_t \<Rightarrow> int \<Rightarrow> u32" where
  "injection_relocate_address i ofs = (if ofs < 0 then 0 else i_address i + of_int ofs)"

definition injection_get_adbi_symbol_address :: "'t istate \<Rightarrow> injection_t \<Rightarrow> bytes \<Rightarrow> u32 res" where
  "injection_get_adbi_symbol_address s i symbol =
     res_bind (injectable_at (s_registry s) (i_injectable i)) (\<lambda>x.
     res_bind (injectable_get_symbol x symbol) (\<lambda>ofs. Inr (injection_relocate_address i ofs)))"

definition injection_get_exported_symbol_address :: "'t istate \<Rightarrow> injection_t \<Rightarrow> bytes \<Rightarrow> u32 res" where
  "injection_get_exported_symbol_address s i symbol =
     res_bind (injectable_at (s_registry s) (i_injectable i)) (\<lambda>x.
     res_bind (injectable_get_exported_symbol x symbol) (\<lambda>ofs. Inr (injection_relocate_address i ofs)))"

definition injection_get_adbi_function_address :: "'t istate \<Rightarrow> nat \<Rightarrow> bytes \<Rightarrow> u32 res" where
  "injection_get_adbi_function_address s proc symbol =
     (case injection_get_adbi s proc of
        None \<Rightarrow> Inr 0
      | Some p \<Rightarrow> res_bind (injection_at s p) (\<lambda>i. injection_get_adbi_symbol_address s i symbol))"

text \<open>What \<^verbatim>\<open>fncall_memop\<close> gets of the base injection.\<close>

definition base_address :: "'t istate \<Rightarrow> nat \<Rightarrow> u32 option" where
  "base_address s proc = map_option i_address (Option.bind (injection_get_adbi s proc) (s_heap s))"

definition base_symbol :: "'t istate \<Rightarrow> bytes \<Rightarrow> int res" where
  "base_symbol s name =
     (case s_adbi s of
        None \<Rightarrow> Inl Assertion
      | Some q \<Rightarrow> res_bind (injectable_at (s_registry s) q) (\<lambda>x. injectable_get_symbol x name))"

definition allocate :: "'t icalls \<Rightarrow> 't istate \<Rightarrow> u32 \<Rightarrow> (u32 option \<times> 't istate) res" where
  "allocate c s sz =
     res_bind (ic_allocate c (base_address s (ic_process c)) (base_symbol s) (s_thread s) sz) (\<lambda>(r, t). Inr (r, s\<lparr>s_thread := t\<rparr>))"

definition free_memory :: "'t icalls \<Rightarrow> 't istate \<Rightarrow> u32 \<Rightarrow> u32 \<Rightarrow> 't istate res" where
  "free_memory c s address sz =
     res_bind (ic_free c (base_address s (ic_process c)) (base_symbol s) (s_thread s) address sz) (\<lambda>(_, t). Inr (s\<lparr>s_thread := t\<rparr>))"

definition call_adbi :: "'t icalls \<Rightarrow> 't istate \<Rightarrow> u32 \<Rightarrow> u32 \<Rightarrow> u32 \<Rightarrow> (u32 option \<times> 't istate) res" where
  "call_adbi c s address arg1 arg2 =
     res_bind (ic_call c (s_thread s) address arg1 arg2 0 0) (\<lambda>(r, t). Inr (r, s\<lparr>s_thread := t\<rparr>))"

definition write_memory :: "'t icalls \<Rightarrow> 't istate \<Rightarrow> u32 \<Rightarrow> bytes \<Rightarrow> (nat \<times> 't istate) res" where
  "write_memory c s address bs = res_bind (ic_write c (s_thread s) address bs) (\<lambda>(n, t). Inr (n, s\<lparr>s_thread := t\<rparr>))"

subsection \<open>Functions of the injectables\<close>

definition entry_name :: bytes where "entry_name = [0x65, 0x6e, 0x74, 0x72, 0x79]"
definition exit_name :: bytes where "exit_name = [0x65, 0x78, 0x69, 0x74]"
definition new_process_name :: bytes where "new_process_name = [0x6e, 0x65, 0x77, 0x5f, 0x70, 0x72, 0x6f, 0x63, 0x65, 0x73, 0x73]"
definition new_thread_name :: bytes where "new_thread_name = [0x6e, 0x65, 0x77, 0x5f, 0x74, 0x68, 0x72, 0x65, 0x61, 0x64]"
definition adbi_munmap_name :: bytes where "adbi_munmap_name = [0x61, 0x64, 0x62, 0x69, 0x5f, 0x6d, 0x75, 0x6e, 0x6d, 0x61, 0x70]"

text \<open>
  A function of an injection that is called if there is one. \<open>None\<close> if there is none, \<open>Some r\<close> with the result \<open>r\<close> of the call.
\<close>

definition call_symbol ::
    "'t icalls \<Rightarrow> bytes \<Rightarrow> u32 \<Rightarrow> u32 \<Rightarrow> nat \<Rightarrow> 't istate \<Rightarrow> (u32 option option \<times> 't istate) res" where
  "call_symbol c name arg1 arg2 p s =
     res_bind (injection_at s p) (\<lambda>i.
     res_bind (injection_get_adbi_symbol_address s i name) (\<lambda>address.
     if address = 0 then Inr (None, s)
     else res_bind (call_adbi c s address arg1 arg2) (\<lambda>(r, s). Inr (Some r, s))))"

definition thread_tgid :: "'t icalls \<Rightarrow> 't istate \<Rightarrow> u32" where
  "thread_tgid c s = ip_pid (s_processes s (ic_process c))"

text \<open>The value that the entry function returns is not looked at.\<close>

definition injection_init :: "'t icalls \<Rightarrow> nat \<Rightarrow> 't istate \<Rightarrow> (bool \<times> 't istate) res" where
  "injection_init c p s =
     res_bind (call_symbol c entry_name (ic_pid c) (thread_tgid c s) p s) (\<lambda>(r, s). Inr (r \<noteq> Some None, s))"

definition injection_call_new_process_handlers :: "'t icalls \<Rightarrow> 't istate \<Rightarrow> 't istate res" where
  "injection_call_new_process_handlers c s =
     injection_iter (\<lambda>p s. res_bind (call_symbol c new_process_name (thread_tgid c s) 0 p s) (\<lambda>(_, s). Inr s))
       (tree_vals (injections_of s (ic_process c))) s"

definition injection_call_new_thread_handlers :: "'t icalls \<Rightarrow> 't istate \<Rightarrow> 't istate res" where
  "injection_call_new_thread_handlers c s =
     injection_iter (\<lambda>p s. res_bind (call_symbol c new_thread_name (ic_pid c) (thread_tgid c s) p s) (\<lambda>(_, s). Inr s))
       (tree_vals (injections_of s (ic_process c))) s"

definition injection_notify_new_thread :: "'t icalls \<Rightarrow> 't istate \<Rightarrow> 't istate res" where
  "injection_notify_new_thread c s =
     adbi_assure (\<not> ic_running c (s_thread s))
     (res_bind (if ic_pid c = thread_tgid c s
                then adbi_assure (ic_only_thread c (s_thread s)) (injection_call_new_process_handlers c s)
                else injection_call_new_thread_handlers c s) (\<lambda>s.
      Inr (s\<lparr>s_thread := ic_notified c (s_thread s)\<rparr>)))"

definition injection_exit :: "'t icalls \<Rightarrow> nat \<Rightarrow> 't istate \<Rightarrow> (u32 \<times> 't istate) res" where
  "injection_exit c p s =
     res_bind (call_symbol c exit_name (thread_tgid c s) 0 p s) (\<lambda>(r, s).
     Inr (case r of Some (Some v) \<Rightarrow> v | _ \<Rightarrow> 0, s))"

subsection \<open>Linking\<close>

definition injection_find_export :: "'t istate \<Rightarrow> nat \<Rightarrow> bytes \<Rightarrow> u32 res" where
  "injection_find_export s proc symbol =
     res_bind (first_injection (\<lambda>i. res_bind (injection_get_exported_symbol_address s i symbol) (\<lambda>a. Inr (if a \<noteq> 0 then Some a else None)))
       s (tree_vals (injections_of s proc))) (\<lambda>r. Inr (case r of None \<Rightarrow> 0 | Some a \<Rightarrow> a))"

definition import_slot :: "'t icalls \<Rightarrow> 't istate \<Rightarrow> injection_t \<Rightarrow> int \<Rightarrow> u32 res" where
  "import_slot c s i ofs =
     (let import_addr = injection_relocate_address i ofs
      in adbi_assure (import_addr \<noteq> 0)
         (Inr (if ip_mode32 (s_processes s (ic_process c)) then import_addr + 4 else import_addr + 8)))"

fun dlink_loop :: "'t icalls \<Rightarrow> injection_t \<Rightarrow> (bytes \<times> int) list \<Rightarrow> bool \<Rightarrow> 't istate \<Rightarrow> (bool \<times> 't istate) res" where
  "dlink_loop c i [] success s = Inr (success, s)"
| "dlink_loop c i ((name, ofs) # imports) success s =
     res_bind (injection_find_export s (ic_process c) (takeWhile (\<lambda>b. b \<noteq> 0) name)) (\<lambda>rt_addr.
     if rt_addr = 0 then dlink_loop c i imports False s
     else res_bind (import_slot c s i ofs) (\<lambda>slot.
          res_bind (write_memory c s slot (le_bytes 4 rt_addr)) (\<lambda>(n, s).
          dlink_loop c i imports (success \<and> n = 4) s)))"

definition injection_dlink :: "'t icalls \<Rightarrow> nat \<Rightarrow> 't istate \<Rightarrow> (bool \<times> 't istate) res" where
  "injection_dlink c p s =
     res_bind (injection_at s p) (\<lambda>i.
     res_bind (injectable_at (s_registry s) (i_injectable i)) (\<lambda>x.
     res_bind (injectable_imports x) (\<lambda>imports. dlink_loop c i imports True s)))"

subsection \<open>Injecting\<close>

definition uninject :: "'t icalls \<Rightarrow> nat \<Rightarrow> 't istate \<Rightarrow> 't istate res" where
  "uninject c p s =
     res_bind (injection_at s p) (\<lambda>i.
     adbi_assure (\<not> injection_is_adbi s i)
     (adbi_assure (ic_process c = i_process i)
     (adbi_assure (i_references i = 0)
     (res_bind (code_size_of s (i_injectable i)) (\<lambda>sz.
      res_bind (free_memory c s (i_address i) sz) (\<lambda>s. injection_free c s p))))))"

text \<open>The code of an injectable in its file.\<close>

definition injfile_code :: "injfile_t \<Rightarrow> bytes res" where
  "injfile_code f =
     (let n = unat (inj_code_size f)
      in case inj_code f of
           None \<Rightarrow> if n = 0 then Inr [] else Inl Null_Pointer
         | Some p \<Rightarrow> if unat p + n \<le> length (inj_image f) then Inr (take n (drop (unat p) (inj_image f))) else Inl Out_Of_Bounds)"

definition link_and_init :: "'t icalls \<Rightarrow> nat \<Rightarrow> 't istate \<Rightarrow> (bool \<times> 't istate) res" where
  "link_and_init c p s =
     res_bind (injection_dlink c p s) (\<lambda>(ok, s). if \<not> ok then Inr (False, s) else injection_init c p s)"

text \<open>The part of \<^verbatim>\<open>inject\<close> after the code has been written.\<close>

definition inject_at :: "'t icalls \<Rightarrow> nat \<Rightarrow> u32 \<Rightarrow> 't istate \<Rightarrow> (nat option \<times> 't istate) res" where
  "inject_at c q address s =
     res_bind (injection_create c s (ic_process c) q address) (\<lambda>(p, s).
     res_bind (link_and_init c p s) (\<lambda>(ok, s).
     if ok then Inr (Some p, s) else res_bind (uninject c p s) (\<lambda>s. Inr (None, s))))"

definition inject :: "'t icalls \<Rightarrow> nat \<Rightarrow> 't istate \<Rightarrow> (nat option \<times> 't istate) res" where
  "inject c q s =
     adbi_assure (s_adbi s \<noteq> Some q)
     (res_bind (injectable_at (s_registry s) q) (\<lambda>x.
      res_bind (allocate c s (inj_code_size (injfile x))) (\<lambda>(r, s).
      case r of
        None \<Rightarrow> Inr (None, s)
      | Some address \<Rightarrow>
          res_bind (injfile_code (injfile x)) (\<lambda>code.
          res_bind (write_memory c s address code) (\<lambda>(n, s).
          if n \<noteq> length code
          then if ic_dead c (s_thread s) then Inr (None, s)
               else res_bind (free_memory c s address (inj_code_size (injfile x))) (\<lambda>s. Inr (None, s))
          else inject_at c q address s)))))"

text \<open>A call of one of the two functions that are loaded only for the call. An address that is within an injection is not used;
  the lookup of the address could fail only on a dangling pointer.\<close>

definition load_call :: "'t icalls \<Rightarrow> nat \<Rightarrow> int \<Rightarrow> u32 list \<Rightarrow> 't istate \<Rightarrow> (u32 option \<times> 't istate) res" where
  "load_call c q entry_ofs args s =
     res_bind (injectable_at (s_registry s) q) (\<lambda>x.
     res_bind (injfile_code (injfile x)) (\<lambda>code.
     res_bind (ic_load_call c (\<lambda>a. injection_get_by_address s (ic_process c) a \<noteq> Inr None) (s_thread s) code (of_int entry_ofs)
       \<lparr>registers = args, stack = []\<rparr>) (\<lambda>(ok, ctx, t).
     Inr (if ok then Some (registers ctx ! 0) else None, s\<lparr>s_thread := t\<rparr>))))"

definition library_symbol :: "'t istate \<Rightarrow> bytes \<Rightarrow> (nat \<times> int) res" where
  "library_symbol s name =
     res_bind (injectable_get_library (s_registry s) name) (\<lambda>r.
     case r of
       None \<Rightarrow> Inl Assertion
     | Some q \<Rightarrow> res_bind (injectable_at (s_registry s) q) (\<lambda>x. res_bind (injectable_get_symbol x name) (\<lambda>ofs. Inr (q, ofs))))"

text \<open>The assertion of \<^verbatim>\<open>munmap_sym\<close> fails for the offset 0 and holds for -1, the value for a missing symbol.\<close>

definition uninject_adbi :: "'t icalls \<Rightarrow> 't istate \<Rightarrow> (bool \<times> 't istate) res" where
  "uninject_adbi c s =
     res_bind (library_symbol s adbi_munmap_name) (\<lambda>(munmap_inj, munmap_sym).
     adbi_assure (ic_stopped c (s_thread s))
     (case s_adbi s of
        None \<Rightarrow> Inl Assertion
      | Some q \<Rightarrow>
          adbi_assure (munmap_sym \<noteq> 0)
          (case injection_get s (ic_process c) q of
             None \<Rightarrow> Inl Assertion
           | Some p \<Rightarrow>
               res_bind (injection_exit c p s) (\<lambda>(_, s).
               res_bind (injection_at s p) (\<lambda>i.
               res_bind (code_size_of s q) (\<lambda>sz.
               res_bind (load_call c munmap_inj munmap_sym [i_address i, fncall_align_to_page (ic_pagesize c) sz, 0, 0] s) (\<lambda>(r, s).
               case r of
                 None \<Rightarrow> Inr (False, s)
               | Some v \<Rightarrow>
                   if fncall_get_errno v \<noteq> 0 then Inr (False, s)
                   else res_bind (set_references s p (\<lambda>n. n - 1)) (\<lambda>s.
                        res_bind (injection_at s p) (\<lambda>i.
                        adbi_assure (i_references i = 0)
                        (res_bind (injection_free c s p) (\<lambda>s. Inr (True, s))))))))))))"

definition inject_adbi :: "'t icalls \<Rightarrow> 't istate \<Rightarrow> (nat option \<times> 't istate) res" where
  "inject_adbi c s =
     res_bind (library_symbol s adbi_mmap_name) (\<lambda>(mmap_inj, mmap_sym).
     adbi_assure (ic_stopped c (s_thread s))
     (case s_adbi s of
        None \<Rightarrow> Inl Assertion
      | Some q \<Rightarrow>
          adbi_assure (mmap_sym \<ge> 0)
          (adbi_assure (injection_get s (ic_process c) q = None)
          (res_bind (injectable_at (s_registry s) q) (\<lambda>x.
           res_bind (load_call c mmap_inj mmap_sym [fncall_align_to_page (ic_pagesize c) (inj_code_size (injfile x)), 0, 0, 0] s) (\<lambda>(r, s).
           case r of
             None \<Rightarrow> Inr (None, s)
           | Some address \<Rightarrow>
               if fncall_get_errno address \<noteq> 0 then Inr (None, s)
               else res_bind (injfile_code (injfile x)) (\<lambda>code.
                    res_bind (write_memory c s address code) (\<lambda>(n, s).
                    if n \<noteq> length code then Inr (None, s)
                    else res_bind (injection_create c s (ic_process c) q address) (\<lambda>(p, s).
                         res_bind (set_references s p (\<lambda>n. n + 1)) (\<lambda>s.
                         res_bind (injection_init c p s) (\<lambda>(ok, s).
                         if ok then Inr (Some p, s) else res_bind (uninject_adbi c s) (\<lambda>(_, s). Inr (None, s)))))))))))))"

subsection \<open>Forgetting and copying\<close>

text \<open>
  \<^verbatim>\<open>TREE_ITER_SAFE\<close> over the injections of a process: the next node is found before the body runs. A node that the body
  removed must not be used. \<open>fuel\<close> bounds the iterations.
\<close>

fun iter_safe :: "nat \<Rightarrow> nat \<Rightarrow> (nat \<Rightarrow> 't istate \<Rightarrow> 't istate res) \<Rightarrow> nat option \<Rightarrow> 't istate \<Rightarrow> 't istate res" where
  "iter_safe fuel proc f None s = Inr s"
| "iter_safe 0 proc f (Some k) s = Inl Diverges"
| "iter_safe (Suc n) proc f (Some k) s =
     (case tree_get_node (injections_of s proc) k of
        None \<Rightarrow> Inl Dangling
      | Some node \<Rightarrow> res_bind (f (nval node) s) (iter_safe n proc f (map_option nkey (tree_iter_next node))))"

definition first_key :: "('k, 'v) tree_t \<Rightarrow> 'k option" where
  "first_key t = map_option nkey (tree_iter_start t)"

definition injection_reset :: "'t icalls \<Rightarrow> nat \<Rightarrow> 't istate \<Rightarrow> 't istate res" where
  "injection_reset c proc s =
     iter_safe (size (injections_of s proc)) proc (\<lambda>p s. injection_free c s p) (first_key (injections_of s proc)) s"

definition fork_one :: "'t icalls \<Rightarrow> nat \<Rightarrow> nat \<Rightarrow> 't istate \<Rightarrow> 't istate res" where
  "fork_one c child p s =
     res_bind (injection_at s p) (\<lambda>i.
     res_bind (injection_create c s child (i_injectable i) (i_address i)) (\<lambda>(p', s).
     if injection_is_adbi s i then set_references s p' (\<lambda>n. n + 1)
     else res_bind (injectable_at (s_registry s) (i_injectable i)) (\<lambda>x.
          if injectable_is_library x then set_references s p' (\<lambda>_. i_references i) else Inr s)))"

definition injection_fork :: "'t icalls \<Rightarrow> nat \<Rightarrow> nat \<Rightarrow> 't istate \<Rightarrow> 't istate res" where
  "injection_fork c child parent s = injection_iter (fork_one c child) (tree_vals (injections_of s parent)) s"

subsection \<open>Removing\<close>

text \<open>
  The injectables on which an injectable depends, in the order of the callbacks. The callbacks change no more of the registry
  than its counters, so that the order can be computed before the first one is made.
\<close>

definition dependencies :: "'t icalls \<Rightarrow> nat \<Rightarrow> 't istate \<Rightarrow> nat list res" where
  "dependencies c q s =
     res_bind (injectable_at (s_registry s) q) (injectable_iter_dependencies (ic_deps c) (s_registry s) (ic_fuel c))"

text \<open>Removing an injection releases its dependencies, which are removed with their dependencies when they are not used any more;
  \<open>fuel\<close> bounds the depth of the recursion.\<close>

fun injection_detach_single :: "'t icalls \<Rightarrow> nat \<Rightarrow> nat \<Rightarrow> 't istate \<Rightarrow> 't istate res"
and dep_uninject :: "'t icalls \<Rightarrow> nat \<Rightarrow> nat list \<Rightarrow> 't istate \<Rightarrow> 't istate res" where
  "injection_detach_single c 0 p s = Inl Diverges"
| "injection_detach_single c (Suc n) p s =
     res_bind (injection_at s p) (\<lambda>i.
     adbi_assure (i_process i = ic_process c)
     (adbi_assure (ic_stopped c (s_thread s))
     (adbi_assure (\<not> injection_is_adbi s i)
     (adbi_assure (i_references i = 0)
     (res_bind (injection_exit c p s) (\<lambda>(_, s).
      res_bind (dependencies c (i_injectable i) s) (\<lambda>qs.
      res_bind (dep_uninject c n qs s) (\<lambda>s.
      uninject c p s))))))))"
| "dep_uninject c n [] s = Inr s"
| "dep_uninject c n (q # qs) s =
     (case injection_get s (ic_process c) q of
        None \<Rightarrow> Inl Null_Pointer
      | Some p \<Rightarrow>
          res_bind (set_references s p (\<lambda>n. n - 1)) (\<lambda>s.
          res_bind (injection_at s p) (\<lambda>i.
          res_bind (if i_references i = 0 \<and> \<not> injection_is_adbi s i then injection_detach_single c n p s else Inr s) (\<lambda>s.
          dep_uninject c n qs s))))"

definition uninject_dependencies :: "'t icalls \<Rightarrow> nat \<Rightarrow> nat \<Rightarrow> 't istate \<Rightarrow> 't istate res" where
  "uninject_dependencies c n p s =
     res_bind (injection_at s p) (\<lambda>i. res_bind (dependencies c (i_injectable i) s) (\<lambda>qs. dep_uninject c n qs s))"

definition detach_one :: "'t icalls \<Rightarrow> nat \<Rightarrow> 't istate \<Rightarrow> 't istate res" where
  "detach_one c p s =
     res_bind (injection_at s p) (\<lambda>i.
     if injection_is_adbi s i then Inr s
     else res_bind (injectable_at (s_registry s) (i_injectable i)) (\<lambda>x.
          if injectable_is_library x then Inr s else injection_detach_single c (ic_fuel c) p s))"

definition injection_detach :: "'t icalls \<Rightarrow> 't istate \<Rightarrow> (bool \<times> 't istate) res" where
  "injection_detach c s =
     res_bind (iter_safe (size (injections_of s (ic_process c))) (ic_process c) (detach_one c) (first_key (injections_of s (ic_process c))) s)
       (uninject_adbi c)"

subsection \<open>Injecting for a segment\<close>

text \<open>The imports that no library exports, of an injectable and of its dependencies.\<close>

fun unresolved_imports :: "(u32, nat) tree_lib \<Rightarrow> registry \<Rightarrow> nat \<Rightarrow> injectable_t \<Rightarrow> bytes list res"
and unresolved_list :: "(u32, nat) tree_lib \<Rightarrow> registry \<Rightarrow> nat \<Rightarrow> nat list \<Rightarrow> bytes list res" where
  "unresolved_imports lib w 0 x = Inl Diverges"
| "unresolved_imports lib w (Suc n) x =
     res_bind (injectable_get_dependencies lib w x) (\<lambda>(deps, unresolved).
     res_bind (unresolved_list lib w n (tree_vals deps)) (\<lambda>more. Inr (unresolved @ more)))"
| "unresolved_list lib w n [] = Inr []"
| "unresolved_list lib w n (p # ps) =
     res_bind (injectable_at w p) (\<lambda>x.
     res_bind (unresolved_imports lib w n x) (\<lambda>us. res_bind (unresolved_list lib w n ps) (\<lambda>vs. Inr (us @ vs))))"

text \<open>The result of \<^verbatim>\<open>inject\<close> is used without a test.\<close>

fun inject_each :: "'t icalls \<Rightarrow> nat list \<Rightarrow> 't istate \<Rightarrow> 't istate res" where
  "inject_each c [] s = Inr s"
| "inject_each c (q # qs) s =
     res_bind (case injection_get s (ic_process c) q of
                 None \<Rightarrow> inject c q s
               | Some p \<Rightarrow> res_bind (injection_at s p) (\<lambda>i. adbi_assure (i_injectable i = q) (Inr (Some p, s)))) (\<lambda>(r, s).
     case r of
       None \<Rightarrow> Inl Null_Pointer
     | Some p \<Rightarrow> res_bind (set_references s p (\<lambda>n. n + 1)) (inject_each c qs))"

definition inject_dependencies :: "'t icalls \<Rightarrow> nat \<Rightarrow> 't istate \<Rightarrow> (bool \<times> 't istate) res" where
  "inject_dependencies c q s =
     res_bind (injectable_at (s_registry s) q) (\<lambda>x.
     res_bind (unresolved_imports (ic_deps c) (s_registry s) (ic_fuel c) x) (\<lambda>us.
     if us \<noteq> [] then Inr (False, s)
     else res_bind (dependencies c q s) (\<lambda>qs. res_bind (inject_each c qs s) (\<lambda>s. Inr (True, s)))))"

fun any_in_segment :: "(u32, 'i, 'p) segment_t \<Rightarrow> (u32 \<times> int) list \<Rightarrow> bool res" where
  "any_in_segment seg [] = Inr False"
| "any_in_segment seg (tp # tps) =
     res_bind (segment_fo2addr seg (fst tp)) (\<lambda>a. if a \<noteq> 0 then Inr True else any_in_segment seg tps)"

definition segment_name :: "string \<Rightarrow> bytes" where
  "segment_name fn = map of_char fn"

definition tracepoints_any_defined :: "(u32, 'i, 'p) segment_t \<Rightarrow> string \<Rightarrow> injectable_t \<Rightarrow> bool res" where
  "tracepoints_any_defined seg fn x =
     res_bind (has_name (segment_name fn) x) (\<lambda>same.
     adbi_assure same
     (res_bind (injfile_iter_tpoints (injfile x)) (any_in_segment seg)))"

text \<open>The injection for a segment, unless there is one already or none is needed. The counter of the injection is increased.\<close>

definition injection_for ::
    "'t icalls \<Rightarrow> nat \<Rightarrow> 't istate \<Rightarrow> (nat option \<times> 't istate) res" where
  "injection_for c q s =
     (case injection_get s (ic_process c) q of
        None \<Rightarrow> res_bind (inject_dependencies c q s) (\<lambda>(ok, s). if ok then inject c q s else Inr (None, s))
      | Some p \<Rightarrow> res_bind (injection_at s p) (\<lambda>i. adbi_assure (i_injectable i = q) (Inr (Some p, s))))"

definition injections_init ::
    "'t icalls \<Rightarrow> (u32, nat, 'p) segment_t \<Rightarrow> 't istate \<Rightarrow> ((u32, nat, 'p) segment_t \<times> 't istate) res" where
  "injections_init c seg s =
     (case segment_t.filename seg of
        None \<Rightarrow> if injection seg \<noteq> None then Inl Null_Pointer else Inr (seg, s)
      | Some fn \<Rightarrow>
          if injection seg \<noteq> None then
            res_bind (injectable_get_binding (s_registry s) (segment_name fn)) (\<lambda>r.
            adbi_assure (case r of None \<Rightarrow> False | Some q \<Rightarrow> injection_get s (ic_process c) q \<noteq> None) (Inr (seg, s)))
          else if \<not> segment_is_executable seg \<or> segment_is_writeable seg then Inr (seg, s)
          else
            res_bind (injectable_get_binding (s_registry s) (segment_name fn)) (\<lambda>r.
            case r of
              None \<Rightarrow> Inr (seg, s)
            | Some q \<Rightarrow>
                res_bind (injectable_at (s_registry s) q) (\<lambda>x.
                res_bind (tracepoints_any_defined seg fn x) (\<lambda>any.
                if \<not> any then Inr (seg, s)
                else res_bind (injection_for c q s) (\<lambda>(r, s).
                     case r of
                       None \<Rightarrow> Inr (seg, s)
                     | Some p \<Rightarrow> res_bind (set_references s p (\<lambda>n. n + 1)) (\<lambda>s. Inr (seg\<lparr>injection := Some p\<rparr>, s)))))))"

end
