(* ===== verification/Injection_Correct.thy ===== *)
theory Injection_Correct
  imports Injection
begin

text \<open>
  The counters and pointers of the injections are right in every sequence of operations (\<open>reached_ok\<close>), an injection is
  either complete or leaves nothing behind, linking stores the addresses of the exported functions, and what detaching leaves.
\<close>

section \<open>The invariant\<close>

definition injections_with :: "'t istate \<Rightarrow> nat \<Rightarrow> nat set" where
  "injections_with s q = {p. \<exists>i. s_heap s p = Some i \<and> i_injectable i = q}"

text \<open>
  The trees of the processes hold exactly the injections that exist, each under its injectable, and each injectable counts its
  injections.
\<close>

definition inj_ok :: "'t istate \<Rightarrow> bool" where
  "inj_ok s \<longleftrightarrow> finite (dom (s_heap s)) \<and> (\<forall>p \<in> dom (s_heap s). p < s_next s)
     \<and> (\<forall>proc. tree_ok (injections_of s proc))
     \<and> (\<forall>proc q p. tree_map (injections_of s proc) q = Some p \<longleftrightarrow>
          (\<exists>i. s_heap s p = Some i \<and> i_process i = proc \<and> i_injectable i = q))
     \<and> (\<forall>p i. s_heap s p = Some i \<longrightarrow> inj_heap (s_registry s) (i_injectable i) \<noteq> None)
     \<and> (\<forall>q x. inj_heap (s_registry s) q = Some x \<longrightarrow> unat (inj_references x) = card (injections_with s q) mod 2 ^ 32)"

lemma inj_okD:
  assumes "inj_ok s"
  shows "finite (dom (s_heap s))" "\<forall>p \<in> dom (s_heap s). p < s_next s" "tree_ok (injections_of s proc)"
    "tree_map (injections_of s proc) q = Some p \<longleftrightarrow> (\<exists>i. s_heap s p = Some i \<and> i_process i = proc \<and> i_injectable i = q)"
  using assms unfolding inj_ok_def by (elim conjE, blast)+

text \<open>What every operation keeps.\<close>

definition evolves :: "'t istate \<Rightarrow> 't istate \<Rightarrow> bool" where
  "evolves s s' \<longleftrightarrow> (inj_ok s \<longrightarrow> inj_ok s') \<and> s_adbi s' = s_adbi s \<and> only_references (s_registry s) (s_registry s')"

lemma res_bindE: "res_bind m f = Inr y \<Longrightarrow> (\<And>x. m = Inr x \<Longrightarrow> f x = Inr y \<Longrightarrow> R) \<Longrightarrow> R"
  by (auto simp: res_bind_eq_Inr)

named_theorems evolving \<open>operations keep the invariant\<close>

lemma evolves_refl [simp, intro!]: "evolves s s"
  by (simp add: evolves_def only_references_def)

lemma evolves_trans: "evolves s s' \<Longrightarrow> evolves s' s'' \<Longrightarrow> evolves s s''"
  unfolding evolves_def only_references_def by (elim conjE, intro conjI) (blast | simp)+

lemma evolves_ok: "evolves s s' \<Longrightarrow> inj_ok s \<Longrightarrow> inj_ok s'"
  by (simp add: evolves_def)

lemma injections_with_thread [simp]: "injections_with (s\<lparr>s_thread := t\<rparr>) q = injections_with s q" "injections_of (s\<lparr>s_thread := t\<rparr>) proc = injections_of s proc"
  by (simp_all add: injections_with_def injections_of_def)

lemma injection_get_thread [simp]: "injection_get (s\<lparr>s_thread := t\<rparr>) = injection_get s"
  by (simp add: injection_get_def fun_eq_iff)

lemma injection_get_adbi_thread [simp]: "injection_get_adbi (s\<lparr>s_thread := t\<rparr>) = injection_get_adbi s"
  by (simp add: injection_get_adbi_def fun_eq_iff cong: option.case_cong)

lemma inj_ok_thread [simp]: "inj_ok (s\<lparr>s_thread := t\<rparr>) = inj_ok s"
  unfolding inj_ok_def injections_with_thread by simp

lemma evolves_thread [simp]: "evolves s (s\<lparr>s_thread := t\<rparr>)"
  by (simp add: evolves_def only_references_def)

lemma evolves_thread_iff [simp]: "evolves s (s'\<lparr>s_thread := t\<rparr>) = evolves s s'"
  by (simp add: evolves_def)

lemma count_up:
  fixes r :: u32
  assumes "unat r = n mod 2 ^ 32"
  shows "unat (r + 1) = Suc n mod 2 ^ 32"
proof -
  have "r = of_nat n" using assms by (simp add: word_unat_eq_iff unat_of_nat)
  then have "r + 1 = of_nat (Suc n)" by simp
  then show ?thesis by (simp add: unat_of_nat del: of_nat_Suc)
qed

lemma count_down:
  fixes r :: u32
  assumes "unat r = n mod 2 ^ 32" "0 < n"
  shows "unat (r - 1) = (n - 1) mod 2 ^ 32"
proof -
  have "r = of_nat n" using assms(1) by (simp add: word_unat_eq_iff unat_of_nat)
  then have "r - 1 = of_nat (n - 1)" using assms(2) by (simp add: of_nat_diff)
  then show ?thesis by (simp add: unat_of_nat)
qed

text \<open>The counters and the pointers after a change of the objects.\<close>

lemma count_injectable_Inr:
  "count_injectable s q f = Inr s' \<longleftrightarrow> (\<exists>x. inj_heap (s_registry s) q = Some x \<and> s' = s\<lparr>s_registry := (s_registry s)\<lparr>inj_heap :=
     (inj_heap (s_registry s))(q \<mapsto> x\<lparr>inj_references := f (inj_references x)\<rparr>)\<rparr>\<rparr>)"
  by (auto simp: count_injectable_def injectable_at_def split: option.splits)

lemma injection_at_Inr [simp]: "injection_at s p = Inr i \<longleftrightarrow> s_heap s p = Some i"
  by (simp add: injection_at_def split: option.splits)

lemma set_references_Inr:
  "set_references s p f = Inr s' \<longleftrightarrow>
     (\<exists>i. s_heap s p = Some i \<and> s' = s\<lparr>s_heap := (s_heap s)(p \<mapsto> i\<lparr>i_references := f (i_references i)\<rparr>)\<rparr>)"
  by (auto simp: set_references_def res_bind_eq_Inr)

lemma set_references_evolves [evolving]: "set_references s p f = Inr s' \<Longrightarrow> evolves s0 s \<Longrightarrow> evolves s0 s'"
proof (erule evolves_trans)
  assume "set_references s p f = Inr s'"
  then obtain i where i: "s_heap s p = Some i" and s': "s' = s\<lparr>s_heap := (s_heap s)(p \<mapsto> i\<lparr>i_references := f (i_references i)\<rparr>)\<rparr>"
    by (auto simp: set_references_Inr)
  have h: "(\<exists>j. s_heap s' r = Some j \<and> P (i_process j) (i_injectable j)) \<longleftrightarrow> (\<exists>j. s_heap s r = Some j \<and> P (i_process j) (i_injectable j))" for r P
    using i s' by auto
  have "injections_with s' q = injections_with s q" for q using h [of _ "\<lambda>_ y. y = q"] by (auto simp: injections_with_def)
  moreover have "dom (s_heap s') = dom (s_heap s)" "s_next s' = s_next s" "s_registry s' = s_registry s" "s_adbi s' = s_adbi s"
    "injections_of s' = injections_of s" using i s' by (auto simp: injections_of_def)
  moreover have "(\<forall>p i. s_heap s' p = Some i \<longrightarrow> inj_heap (s_registry s) (i_injectable i) \<noteq> None) \<longleftrightarrow>
      (\<forall>p i. s_heap s p = Some i \<longrightarrow> inj_heap (s_registry s) (i_injectable i) \<noteq> None)"
    using i s' by auto
  ultimately have "inj_ok s' = inj_ok s" using h [of _ "\<lambda>x y. x = _ \<and> y = _"] unfolding inj_ok_def by simp
  with \<open>s_registry s' = s_registry s\<close> \<open>s_adbi s' = s_adbi s\<close> show "evolves s s'" by (simp add: evolves_def only_references_def)
qed

text \<open>Operations that change the thread only.\<close>

lemma thread_calls [evolving]:
  "allocate c s sz = Inr (r, s') \<Longrightarrow> evolves s0 s \<Longrightarrow> evolves s0 s'"
  "free_memory c s a sz = Inr s' \<Longrightarrow> evolves s0 s \<Longrightarrow> evolves s0 s'"
  "call_adbi c s a x y = Inr (v, s') \<Longrightarrow> evolves s0 s \<Longrightarrow> evolves s0 s'"
  "write_memory c s a bs = Inr (n, s') \<Longrightarrow> evolves s0 s \<Longrightarrow> evolves s0 s'"
  "load_call c q ofs args s = Inr (v, s') \<Longrightarrow> evolves s0 s \<Longrightarrow> evolves s0 s'"
  by (auto simp: allocate_def free_memory_def call_adbi_def write_memory_def load_call_def res_bind_eq_Inr)

lemma call_symbol_evolves [evolving]: "call_symbol c name x y p s = Inr (r, s') \<Longrightarrow> evolves s0 s \<Longrightarrow> evolves s0 s'"
  by (auto simp: call_symbol_def res_bind_eq_Inr split: if_splits elim!: evolving)

lemma functions_evolve [evolving]:
  "injection_init c p s = Inr (b, s') \<Longrightarrow> evolves s0 s \<Longrightarrow> evolves s0 s'"
  "injection_exit c p s = Inr (v, s') \<Longrightarrow> evolves s0 s \<Longrightarrow> evolves s0 s'"
  by (auto simp: injection_init_def injection_exit_def res_bind_eq_Inr elim!: evolving)

lemma injection_iter_evolves:
  assumes "\<And>p s s'. f p s = Inr s' \<Longrightarrow> evolves s s'"
  shows "injection_iter f ps s = Inr s' \<Longrightarrow> evolves s0 s \<Longrightarrow> evolves s0 s'"
  by (induction ps arbitrary: s) (auto simp: res_bind_eq_Inr dest!: assms intro: evolves_trans)

lemma notify_evolves [evolving]: "injection_notify_new_thread c s = Inr s' \<Longrightarrow> evolves s0 s \<Longrightarrow> evolves s0 s'"
  by (auto simp: injection_notify_new_thread_def injection_call_new_process_handlers_def injection_call_new_thread_handlers_def
      res_bind_eq_Inr elim!: injection_iter_evolves [rotated] evolving split: if_splits)

lemma dlink_loop_evolves [evolving]: "dlink_loop c i imps ok s = Inr (r, s') \<Longrightarrow> evolves s0 s \<Longrightarrow> evolves s0 s'"
proof (induction imps arbitrary: ok s)
  case (Cons e imps)
  then show ?case by (cases e) (auto elim!: res_bindE split: if_splits prod.splits dest!: Cons.IH intro: thread_calls(4))
qed simp

lemma link_and_init_evolves [evolving]: "link_and_init c p s = Inr (r, s') \<Longrightarrow> evolves s0 s \<Longrightarrow> evolves s0 s'"
  by (auto simp: link_and_init_def injection_dlink_def res_bind_eq_Inr split: if_splits elim!: evolving)

locale injection_trees = tree_library "ic_tree c" for c :: "'t icalls"
begin

lemma injection_create_spec:
  assumes "injection_create c s proc q a = Inr (p, s')" "inj_ok s"
  shows "p = s_next s \<and> inj_ok s' \<and> s_heap s' = (s_heap s)(p \<mapsto> \<lparr>i_process = proc, i_address = a, i_injectable = q, i_references = 0\<rparr>)
    \<and> tree_map (injections_of s proc) q = None \<and> s_adbi s' = s_adbi s \<and> only_references (s_registry s) (s_registry s')
    \<and> tree_map (injections_of s' proc) = (tree_map (injections_of s proc))(q \<mapsto> p)
    \<and> (\<forall>proc'. proc' \<noteq> proc \<longrightarrow> injections_of s' proc' = injections_of s proc')"
proof -
  let ?i = "\<lparr>i_process = proc, i_address = a, i_injectable = q, i_references = 0\<rparr>"
  obtain x t where x: "inj_heap (s_registry s) q = Some x" and t: "tree_insert (ic_tree c) (injections_of s proc) q (s_next s) = Inr t"
    and p: "p = s_next s" and s': "s' = set_injections (s\<lparr>s_heap := (s_heap s)(p \<mapsto> ?i), s_next := p + 1,
      s_registry := (s_registry s)\<lparr>inj_heap := (inj_heap (s_registry s))(q \<mapsto> x\<lparr>inj_references := inj_references x + 1\<rparr>)\<rparr>\<rparr>) proc t"
    using assms(1) by (auto simp: injection_create_def res_bind_eq_Inr count_injectable_Inr injections_of_def Let_def)
  have ok: "tree_ok (injections_of s proc)" using assms(2) by (simp add: inj_ok_def)
  have n: "tree_map (injections_of s proc) q = None" using insert_duplicate [OF ok, of q "s_next s"] t by fastforce
  have tt: "tree_ok t" "tree_map t = (tree_map (injections_of s proc))(q \<mapsto> p)" using insert_spec [OF ok n, of p] t p by auto
  have fresh: "s_heap s p = None" using assms(2) p unfolding inj_ok_def by (metis domI not_None_eq order_less_irrefl)
  have h: "s_heap s' = (s_heap s)(p \<mapsto> ?i)" "s_next s' = p + 1" using s' by (simp_all add: set_injections_def)
  have tr: "injections_of s' proc' = (if proc' = proc then t else injections_of s proc')" for proc'
    using s' by (simp add: set_injections_def injections_of_def)
  have r: "only_references (s_registry s) (s_registry s')" using s' x by (auto simp: set_injections_def only_references_def)
  have u: "injections_with s' q' = (if q' = q then insert p (injections_with s q) else injections_with s q')" for q' using h fresh by (auto simp: injections_with_def)
  have fin: "finite (injections_with s q)" "p \<notin> injections_with s q"
    using assms(2) finite_subset [of "injections_with s q" "dom (s_heap s)"] fresh by (auto simp: inj_ok_def injections_with_def)
  have c: "unat (inj_references y) = card (injections_with s' q') mod 2 ^ 32" if "inj_heap (s_registry s') q' = Some y" for q' y
    using that s' x assms(2) fin u [of q'] count_up [of "inj_references x" "card (injections_with s q)"]
    by (auto simp: inj_ok_def set_injections_def split: if_splits)
  have m: "tree_map (injections_of s' proc') q' = Some p' \<longleftrightarrow> (\<exists>i. s_heap s' p' = Some i \<and> i_process i = proc' \<and> i_injectable i = q')" for proc' q' p'
  proof -
    have "tree_map (injections_of s proc') q' = Some p' \<longleftrightarrow> (\<exists>i. s_heap s p' = Some i \<and> i_process i = proc' \<and> i_injectable i = q')"
      using assms(2) unfolding inj_ok_def by blast
    then show ?thesis unfolding tr h using tt(2) n fresh by (cases "proc' = proc"; cases "q' = q"; cases "p' = p") auto
  qed
  have "inj_heap (s_registry s') (i_injectable i) \<noteq> None" if "s_heap s' p' = Some i" for p' i
    using that h s' assms(2) unfolding inj_ok_def by (auto simp: set_injections_def split: if_splits)
  moreover have "\<forall>p' \<in> dom (s_heap s). p' < s_next s" using inj_okD [OF assms(2)] by blast
  then have "\<forall>p' \<in> dom (s_heap s'). p' < s_next s'" using h p by (simp add: less_SucI)
  moreover have "finite (dom (s_heap s'))" using h assms(2) unfolding inj_ok_def by simp
  moreover have "tree_ok (injections_of s' proc')" for proc' using tr tt(1) assms(2) unfolding inj_ok_def by simp
  ultimately have "inj_ok s'" using c m unfolding inj_ok_def by blast
  moreover have "s_adbi s' = s_adbi s" using s' by (simp add: set_injections_def)
  ultimately show ?thesis using p h r n tr tt(2) by simp
qed

lemma injection_free_spec:
  assumes "injection_free c s p = Inr s'" "inj_ok s"
  shows "\<exists>i. s_heap s p = Some i \<and> inj_ok s' \<and> s_heap s' = (s_heap s)(p := None) \<and> s_adbi s' = s_adbi s
    \<and> only_references (s_registry s) (s_registry s')
    \<and> tree_map (injections_of s' (i_process i)) = (tree_map (injections_of s (i_process i)))(i_injectable i := None)
    \<and> (\<forall>proc'. proc' \<noteq> i_process i \<longrightarrow> injections_of s' proc' = injections_of s proc')"
proof -
  obtain i x t where i: "s_heap s p = Some i" and x: "inj_heap (s_registry s) (i_injectable i) = Some x"
    and t: "tree_remove (ic_tree c) (injections_of s (i_process i)) (i_injectable i) = Inr t"
    and s': "s' = (set_injections s (i_process i) t)\<lparr>s_registry := (s_registry s)\<lparr>inj_heap := (inj_heap (s_registry s))(i_injectable i \<mapsto>
      x\<lparr>inj_references := inj_references x - 1\<rparr>)\<rparr>, s_heap := (s_heap s)(p := None)\<rparr>"
    using assms(1) by (auto simp: injection_free_def res_bind_eq_Inr count_injectable_Inr set_injections_def)
  let ?q = "i_injectable i" and ?proc = "i_process i"
  have ok: "tree_ok (injections_of s ?proc)" using assms(2) by (simp add: inj_ok_def)
  have here: "tree_map (injections_of s ?proc) ?q = Some p" using assms(2) i unfolding inj_ok_def by blast
  have tt: "tree_ok t" "tree_map t = (tree_map (injections_of s ?proc))(?q := None)" using remove_spec [OF ok, of ?q] t here by auto
  have h: "s_heap s' = (s_heap s)(p := None)" "s_next s' = s_next s" using s' by (simp_all add: set_injections_def)
  have tr: "injections_of s' proc' = (if proc' = ?proc then t else injections_of s proc')" for proc'
    using s' by (simp add: set_injections_def injections_of_def)
  have r: "only_references (s_registry s) (s_registry s')" using s' x by (auto simp: set_injections_def only_references_def)
  have u: "injections_with s' q' = injections_with s q' - {p}" for q' using h by (auto simp: injections_with_def)
  have fin: "finite (injections_with s ?q)" "p \<in> injections_with s ?q" "p \<notin> injections_with s q'" if "q' \<noteq> ?q" for q'
    using assms(2) finite_subset [of "injections_with s ?q" "dom (s_heap s)"] i that by (auto simp: inj_ok_def injections_with_def)
  have f1: "finite (injections_with s ?q)" "p \<in> injections_with s ?q"
    using assms(2) finite_subset [of "injections_with s ?q" "dom (s_heap s)"] i by (auto simp: inj_ok_def injections_with_def)
  have "0 < card (injections_with s ?q)" using f1 by (auto simp: card_gt_0_iff)
  then have c: "unat (inj_references y) = card (injections_with s' q') mod 2 ^ 32" if "inj_heap (s_registry s') q' = Some y" for q' y
    using that s' x assms(2) f1 fin(3) [of q'] u [of q'] count_down [of "inj_references x" "card (injections_with s ?q)"]
    by (cases "q' = ?q") (auto simp: inj_ok_def set_injections_def)
  have m: "tree_map (injections_of s' proc') q' = Some p' \<longleftrightarrow> (\<exists>i. s_heap s' p' = Some i \<and> i_process i = proc' \<and> i_injectable i = q')" for proc' q' p'
  proof -
    have "tree_map (injections_of s proc') q' = Some p' \<longleftrightarrow> (\<exists>i. s_heap s p' = Some i \<and> i_process i = proc' \<and> i_injectable i = q')"
      using assms(2) unfolding inj_ok_def by blast
    then show ?thesis unfolding tr h using tt(2) here i by (cases "proc' = ?proc"; cases "q' = ?q"; cases "p' = p") auto
  qed
  have d: "\<forall>p' \<in> dom (s_heap s). p' < s_next s" "finite (dom (s_heap s))" using inj_okD [OF assms(2)] by blast+
  have "inj_heap (s_registry s') (i_injectable j) \<noteq> None" if "s_heap s' p' = Some j" for p' j
    using that h s' assms(2) unfolding inj_ok_def by (auto simp: set_injections_def split: if_splits)
  moreover have "\<forall>p' \<in> dom (s_heap s'). p' < s_next s'" "finite (dom (s_heap s'))" using h d by auto
  moreover have "tree_ok (injections_of s' proc')" for proc' using tr tt(1) assms(2) unfolding inj_ok_def by simp
  ultimately have "inj_ok s'" using c m unfolding inj_ok_def by blast
  moreover have "s_adbi s' = s_adbi s" using s' by (simp add: set_injections_def)
  ultimately show ?thesis using i h r tr tt(2) by simp
qed

lemma injection_create_evolves [evolving]: "injection_create c s proc q a = Inr (p, s') \<Longrightarrow> evolves s0 s \<Longrightarrow> evolves s0 s'"
proof (erule evolves_trans)
  assume a: "injection_create c s proc q a = Inr (p, s')"
  then have "s_adbi s' = s_adbi s" "only_references (s_registry s) (s_registry s')"
    by (auto simp: injection_create_def res_bind_eq_Inr count_injectable_Inr Let_def set_injections_def only_references_def)
  then show "evolves s s'" using injection_create_spec [OF a] by (auto simp: evolves_def)
qed

lemma injection_free_evolves [evolving]: "injection_free c s p = Inr s' \<Longrightarrow> evolves s0 s \<Longrightarrow> evolves s0 s'"
proof (erule evolves_trans)
  assume a: "injection_free c s p = Inr s'"
  then have "s_adbi s' = s_adbi s" "only_references (s_registry s) (s_registry s')"
    by (auto simp: injection_free_def res_bind_eq_Inr count_injectable_Inr set_injections_def only_references_def)
  then show "evolves s s'" using injection_free_spec [OF a] by (auto simp: evolves_def)
qed

lemma uninject_evolves [evolving]: "uninject c p s = Inr s' \<Longrightarrow> evolves s0 s \<Longrightarrow> evolves s0 s'"
  by (auto simp: uninject_def res_bind_eq_Inr elim!: evolving)

lemma inject_evolves [evolving]: "inject c q s = Inr (r, s') \<Longrightarrow> evolves s0 s \<Longrightarrow> evolves s0 s'"
  by (auto simp: inject_def inject_at_def elim!: res_bindE evolving split: option.splits if_splits prod.splits)

lemma uninject_adbi_evolves [evolving]: "uninject_adbi c s = Inr (r, s') \<Longrightarrow> evolves s0 s \<Longrightarrow> evolves s0 s'"
  by (auto simp: uninject_adbi_def elim!: res_bindE evolving split: option.splits if_splits prod.splits)

lemma inject_adbi_evolves [evolving]: "inject_adbi c s = Inr (r, s') \<Longrightarrow> evolves s0 s \<Longrightarrow> evolves s0 s'"
  by (auto simp: inject_adbi_def elim!: res_bindE evolving split: option.splits if_splits prod.splits)

lemma iter_safe_evolves:
  assumes "\<And>p s s'. f p s = Inr s' \<Longrightarrow> evolves s s'"
  shows "iter_safe fuel proc f k s = Inr s' \<Longrightarrow> evolves s0 s \<Longrightarrow> evolves s0 s'"
proof (induction fuel arbitrary: k s)
  case 0
  then show ?case by (cases k) auto
next
  case (Suc n)
  show ?case
  proof (cases k)
    case (Some key)
    then obtain p s1 k' where "f p s = Inr s1" "iter_safe n proc f k' s1 = Inr s'"
      using Suc.prems(1) by (auto elim!: res_bindE split: option.splits)
    then show ?thesis using Suc.IH assms evolves_trans Suc.prems(2) by blast
  qed (use Suc.prems in simp)
qed

lemma injection_reset_evolves [evolving]: "injection_reset c proc s = Inr s' \<Longrightarrow> evolves s0 s \<Longrightarrow> evolves s0 s'"
  by (auto simp: injection_reset_def elim!: iter_safe_evolves [rotated] evolving)

lemma injection_fork_evolves [evolving]: "injection_fork c child parent s = Inr s' \<Longrightarrow> evolves s0 s \<Longrightarrow> evolves s0 s'"
  by (auto simp: injection_fork_def fork_one_def res_bind_eq_Inr elim!: injection_iter_evolves [rotated] evolving split: if_splits)

lemma dep_uninject_evolves:
  assumes "\<And>p s s0 s'. injection_detach_single c n p s = Inr s' \<Longrightarrow> evolves s0 s \<Longrightarrow> evolves s0 s'"
  shows "dep_uninject c n qs s = Inr s' \<Longrightarrow> evolves s0 s \<Longrightarrow> evolves s0 s'"
proof (induction qs arbitrary: s)
  case (Cons q qs)
  from Cons.prems(1) obtain p s1 i s2 where "set_references s p (\<lambda>n. n - 1) = Inr s1"
    "(if i_references i = 0 \<and> \<not> injection_is_adbi s1 i then injection_detach_single c n p s1 else Inr s1) = Inr s2" "dep_uninject c n qs s2 = Inr s'"
    by (auto elim!: res_bindE split: option.splits)
  moreover have "evolves s0 s2" using calculation Cons.prems(2) by (auto split: if_splits elim!: assms evolving)
  ultimately show ?case using Cons.IH by blast
qed simp

lemma detach_single_evolves [evolving]: "injection_detach_single c n p s = Inr s' \<Longrightarrow> evolves s0 s \<Longrightarrow> evolves s0 s'"
proof (induction n arbitrary: p s s0 s')
  case (Suc n)
  obtain s1 qs s2 v where s: "injection_exit c p s = Inr (v, s1)" "dep_uninject c n qs s1 = Inr s2" "uninject c p s2 = Inr s'"
    using Suc.prems(1) by (auto elim!: res_bindE split: prod.splits)
  have "evolves s0 s1" using s(1) Suc.prems(2) by (rule functions_evolve(2))
  with s(2) have "evolves s0 s2" using dep_uninject_evolves Suc.IH by blast
  with s(3) show ?case by (rule uninject_evolves)
qed simp

lemma dep_uninject_keeps [evolving]: "dep_uninject c n qs s = Inr s' \<Longrightarrow> evolves s0 s \<Longrightarrow> evolves s0 s'"
  using dep_uninject_evolves detach_single_evolves by blast

lemma injection_detach_evolves [evolving]: "injection_detach c s = Inr (r, s') \<Longrightarrow> evolves s0 s \<Longrightarrow> evolves s0 s'"
  by (auto simp: injection_detach_def detach_one_def elim!: res_bindE evolving iter_safe_evolves [rotated] split: if_splits)

lemma inject_each_evolves [evolving]: "inject_each c qs s = Inr s' \<Longrightarrow> evolves s0 s \<Longrightarrow> evolves s0 s'"
proof (induction qs arbitrary: s)
  case (Cons q qs)
  then show ?case by (auto elim!: res_bindE evolving dest!: Cons.IH split: option.splits prod.splits)
qed simp

lemma injection_for_evolves [evolving]: "injection_for c q s = Inr (r, s') \<Longrightarrow> evolves s0 s \<Longrightarrow> evolves s0 s'"
  by (auto simp: injection_for_def inject_dependencies_def elim!: res_bindE evolving split: option.splits prod.splits if_splits)

lemma injections_init_evolves [evolving]: "injections_init c seg s = Inr (r, s') \<Longrightarrow> evolves s0 s \<Longrightarrow> evolves s0 s'"
  by (auto simp: injections_init_def elim!: res_bindE evolving split: option.splits prod.splits if_splits)

lemma operations_ok:
  "inject_adbi c s = Inr (r, s') \<Longrightarrow> inj_ok s \<Longrightarrow> inj_ok s'"
  "uninject_adbi c s = Inr (b, s') \<Longrightarrow> inj_ok s \<Longrightarrow> inj_ok s'"
  "injections_init c seg s = Inr (seg', s') \<Longrightarrow> inj_ok s \<Longrightarrow> inj_ok s'"
  "injection_detach_single c n p s = Inr s' \<Longrightarrow> inj_ok s \<Longrightarrow> inj_ok s'"
  "injection_detach c s = Inr (b, s') \<Longrightarrow> inj_ok s \<Longrightarrow> inj_ok s'"
  "injection_reset c proc s = Inr s' \<Longrightarrow> inj_ok s \<Longrightarrow> inj_ok s'"
  "injection_fork c child parent s = Inr s' \<Longrightarrow> inj_ok s \<Longrightarrow> inj_ok s'"
  by (erule evolves_ok [rotated], erule evolving, rule evolves_refl)+

end

text \<open>The contract of the trees holds for the calls of a 32-bit server with the trees of \<open>leaf_lib\<close>.\<close>

interpretation arm_injections: injection_trees "arm_icalls h b executable fuel stopped segs pagesize proc pid (leaf_lib d) dlib only_thread"
  for h b executable fuel stopped segs pagesize proc pid d dlib only_thread
proof (rule injection_trees.intro)
  show "tree_library (ic_tree (arm_icalls h b executable fuel stopped segs pagesize proc pid (leaf_lib d) dlib only_thread))"
    by (simp add: arm_icalls_def leaf_lib_contract)
qed

section \<open>Sequences of operations\<close>

text \<open>
  The operations of the other components on injections: a new injectable is registered, the base injection is installed and
  removed, segments get and release an injection, threads are announced, processes fork, are reset and detached.
\<close>

inductive reached :: "(nat, nat) tree_lib \<Rightarrow> 't istate \<Rightarrow> 't istate \<Rightarrow> bool" for lib s0 where
  start: "reached lib s0 s0"
| other: "reached lib s0 s \<Longrightarrow> reached lib s0 (s\<lparr>s_thread := t\<rparr>)"
| load: "reached lib s0 s \<Longrightarrow> inj_heap (s_registry s) a = None \<Longrightarrow> injectable_create rlib (s_registry s) a f fn = Inr w \<Longrightarrow>
    reached lib s0 (s\<lparr>s_registry := w\<rparr>)"
| install: "reached lib s0 s \<Longrightarrow> ic_tree c = lib \<Longrightarrow> inject_adbi c s = Inr (r, s') \<Longrightarrow> reached lib s0 s'"
| remove: "reached lib s0 s \<Longrightarrow> ic_tree c = lib \<Longrightarrow> uninject_adbi c s = Inr (b, s') \<Longrightarrow> reached lib s0 s'"
| segment: "reached lib s0 s \<Longrightarrow> ic_tree c = lib \<Longrightarrow> injections_init c (seg :: (u32, nat, unit) segment_t) s = Inr (seg', s') \<Longrightarrow> reached lib s0 s'"
| release: "reached lib s0 s \<Longrightarrow> set_references s p (\<lambda>n. n - 1) = Inr s' \<Longrightarrow> reached lib s0 s'"
| notify: "reached lib s0 s \<Longrightarrow> injection_notify_new_thread c s = Inr s' \<Longrightarrow> reached lib s0 s'"
| single: "reached lib s0 s \<Longrightarrow> ic_tree c = lib \<Longrightarrow> injection_detach_single c n p s = Inr s' \<Longrightarrow> reached lib s0 s'"
| detach: "reached lib s0 s \<Longrightarrow> ic_tree c = lib \<Longrightarrow> injection_detach c s = Inr (b, s') \<Longrightarrow> reached lib s0 s'"
| reset: "reached lib s0 s \<Longrightarrow> ic_tree c = lib \<Longrightarrow> injection_reset c proc s = Inr s' \<Longrightarrow> reached lib s0 s'"
| fork: "reached lib s0 s \<Longrightarrow> ic_tree c = lib \<Longrightarrow> injection_fork c child parent s = Inr s' \<Longrightarrow> reached lib s0 s'"

lemma inj_ok_load:
  assumes "inj_ok s" "inj_heap (s_registry s) a = None" "injectable_create rlib (s_registry s) a f fn = Inr w"
  shows "inj_ok (s\<lparr>s_registry := w\<rparr>)"
proof -
  obtain x where x: "inj_heap w = (inj_heap (s_registry s))(a \<mapsto> x)" "inj_references x = 0"
    using assms(3) by (auto simp: injectable_create_def injectable_register_def Let_def elim!: res_bindE split: if_splits)
  have e: "injections_with s a = {}" using assms(1,2) unfolding inj_ok_def injections_with_def by fastforce
  have i: "injections_with (s\<lparr>s_registry := w\<rparr>) q = injections_with s q" "injections_of (s\<lparr>s_registry := w\<rparr>) proc = injections_of s proc" for q proc
    by (simp_all add: injections_with_def injections_of_def)
  show ?thesis using assms(1) e x unfolding inj_ok_def i by auto
qed

lemma reached_ok: "reached lib s0 s \<Longrightarrow> tree_library lib \<Longrightarrow> inj_ok s0 \<Longrightarrow> inj_ok s"
proof (induction rule: reached.induct)
  case (load s a rlib f fn w)
  then show ?case by (intro inj_ok_load) auto
next
  case (notify s c s')
  then show ?case using notify_evolves [of c s s' s] by (simp add: evolves_def)
next
  case (release s p s')
  then show ?case using set_references_evolves [of s p _ s' s] by (simp add: evolves_def)
qed (auto dest: injection_trees.operations_ok [OF injection_trees.intro])

section \<open>Complete injections\<close>

text \<open>
  What a traced process and the kernel guarantee: no request fails an assertion of the server while the base injection is in place,
  and allocated memory does not contain the address 0 and does not reach beyond the address space.
\<close>

definition icalls_total :: "'t icalls \<Rightarrow> bool" where
  "icalls_total c \<longleftrightarrow> (\<forall>t a bs. no_fault (ic_write c t a bs)) \<and> (\<forall>t a w x y z. no_fault (ic_call c t a w x y z))
     \<and> (\<forall>base symbol t sz. (\<forall>n. no_fault (symbol n)) \<longrightarrow> (\<exists>r t'. ic_allocate c (Some base) symbol t sz = Inr (r, t')
          \<and> (\<forall>a. r = Some a \<longrightarrow> a \<noteq> 0 \<and> unat a + unat sz \<le> 2 ^ 32)))
     \<and> (\<forall>base symbol t a sz. (\<forall>n. no_fault (symbol n)) \<longrightarrow> no_fault (ic_free c (Some base) symbol t a sz))
     \<and> (\<forall>P t code ofs ctx. no_fault (ic_load_call c P t code ofs ctx))"

lemma icalls_totalD:
  assumes "icalls_total c"
  shows "no_fault (ic_write c t a bs)" "no_fault (ic_call c t a w x y z)" "no_fault (ic_load_call c P t code ofs ctx)"
    "(\<And>n. no_fault (symbol n)) \<Longrightarrow> \<exists>r t'. ic_allocate c (Some base) symbol t sz = Inr (r, t') \<and> (\<forall>a. r = Some a \<longrightarrow> a \<noteq> 0 \<and> unat a + unat sz \<le> 2 ^ 32)"
    "(\<And>n. no_fault (symbol n)) \<Longrightarrow> no_fault (ic_free c (Some base) symbol t a sz)"
  using assms by (simp_all add: icalls_total_def)

text \<open>A file that is complete: the lists of symbols end within it, and the imports are within the code.\<close>

definition file_ok :: "injectable_t \<Rightarrow> bool" where
  "file_ok x \<longleftrightarrow> (\<forall>n. no_fault (injectable_get_symbol x n)) \<and> (\<forall>n. no_fault (injectable_get_exported_symbol x n))
     \<and> no_fault (injfile_code (injfile x))
     \<and> (\<exists>imps. injectable_imports x = Inr imps \<and> (\<forall>e \<in> set imps. 0 \<le> snd e \<and> snd e < uint (inj_code_size (injfile x))))"

definition files_ok :: "registry \<Rightarrow> bool" where
  "files_ok w \<longleftrightarrow> (\<forall>q x. inj_heap w q = Some x \<longrightarrow> file_ok x)"

lemma file_ok_injfile: "injfile y = injfile x \<Longrightarrow> file_ok y = file_ok x"
  by (simp add: file_ok_def injectable_get_symbol_def injectable_get_exported_symbol_def injectable_imports_def cong: option.case_cong)

lemma files_ok_only_references: "files_ok w \<Longrightarrow> only_references w w' \<Longrightarrow> files_ok w'"
  unfolding files_ok_def using only_references_fields [of w w'] file_ok_injfile by metis

lemma injectable_at_Inr [simp]: "injectable_at w q = Inr x \<longleftrightarrow> inj_heap w q = Some x"
  by (simp add: injectable_at_def split: option.splits)

lemma injectable_at_Some: "inj_heap w q = Some x \<Longrightarrow> injectable_at w q = Inr x" "s_heap s p = Some i \<Longrightarrow> injection_at s p = Inr i"
  by simp_all

lemma base_present:
  assumes "inj_ok s" "files_ok (s_registry s)" "injection_get_adbi s proc \<noteq> None"
  shows "\<exists>a. base_address s proc = Some a" "no_fault (base_symbol s n)"
proof -
  obtain q p where q: "s_adbi s = Some q" "injection_get s proc q = Some p" using assms(3) by (auto simp: injection_get_adbi_def split: option.splits)
  then obtain i where i: "s_heap s p = Some i" "i_injectable i = q"
    using inj_okD(3) [OF assms(1), of proc] inj_okD(4) [OF assms(1), of proc] by (auto simp: injection_get_def tree_get_map)
  then obtain x where "inj_heap (s_registry s) q = Some x" using assms(1) unfolding inj_ok_def by blast
  with q i show "\<exists>a. base_address s proc = Some a" "no_fault (base_symbol s n)"
    using assms(2) by (simp_all add: base_address_def base_symbol_def injection_get_adbi_def injectable_at_Some files_ok_def file_ok_def)
qed

lemma thread_calls_total:
  assumes "icalls_total c"
  shows "\<exists>n t. write_memory c s a bs = Inr (n, s\<lparr>s_thread := t\<rparr>)" "\<exists>r t. call_adbi c s a x y = Inr (r, s\<lparr>s_thread := t\<rparr>)"
  using icalls_totalD(1,2) [OF assms] unfolding write_memory_def call_adbi_def no_fault_def by (metis (no_types, lifting) old.prod.case res_bind_Inr surj_pair)+

lemma memory_calls_total:
  assumes "icalls_total c" "inj_ok s" "files_ok (s_registry s)" "injection_get_adbi s (ic_process c) \<noteq> None"
  shows "\<exists>r t. allocate c s sz = Inr (r, s\<lparr>s_thread := t\<rparr>) \<and> (\<forall>a. r = Some a \<longrightarrow> a \<noteq> 0 \<and> unat a + unat sz \<le> 2 ^ 32)"
    "\<exists>t. free_memory c s a sz = Inr (s\<lparr>s_thread := t\<rparr>)"
proof -
  obtain base where b: "base_address s (ic_process c) = Some base" using base_present(1) [OF assms(2-4)] by blast
  have n: "no_fault (base_symbol s n)" for n using base_present(2) [OF assms(2-4)] .
  obtain r t where "ic_allocate c (Some base) (base_symbol s) (s_thread s) sz = Inr (r, t)" "\<forall>a. r = Some a \<longrightarrow> a \<noteq> 0 \<and> unat a + unat sz \<le> 2 ^ 32"
    using icalls_totalD(4) [OF assms(1), of "base_symbol s", OF n] by blast
  then show "\<exists>r t. allocate c s sz = Inr (r, s\<lparr>s_thread := t\<rparr>) \<and> (\<forall>a. r = Some a \<longrightarrow> a \<noteq> 0 \<and> unat a + unat sz \<le> 2 ^ 32)"
    by (auto simp: allocate_def b)
  have "no_fault (ic_free c (Some base) (base_symbol s) (s_thread s) a sz)" by (rule icalls_totalD(5) [OF assms(1), of "base_symbol s", OF n])
  then show "\<exists>t. free_memory c s a sz = Inr (s\<lparr>s_thread := t\<rparr>)" by (auto simp: free_memory_def b no_fault_def)
qed

lemma call_symbol_total:
  assumes "icalls_total c" "files_ok (s_registry s)" "s_heap s p = Some i" "inj_heap (s_registry s) (i_injectable i) = Some x"
  shows "\<exists>r t. call_symbol c name w y p s = Inr (r, s\<lparr>s_thread := t\<rparr>)"
proof -
  have "no_fault (injectable_get_symbol x name)" using assms(2,4) by (simp add: files_ok_def file_ok_def)
  then obtain ofs where "injection_get_adbi_symbol_address s i name = Inr (injection_relocate_address i ofs)"
    by (auto simp: injection_get_adbi_symbol_address_def injectable_at_Some assms(4) no_fault_def)
  then show ?thesis using thread_calls_total(2) [OF assms(1), of s "injection_relocate_address i ofs" w y]
    by (auto simp: call_symbol_def injectable_at_Some assms(3) intro: exI [of _ "s_thread s"])
qed

lemma inj_ok_val:
  assumes "inj_ok s" "p \<in> set (tree_vals (injections_of s proc))"
  shows "\<exists>i x. s_heap s p = Some i \<and> i_process i = proc \<and> inj_heap (s_registry s) (i_injectable i) = Some x"
proof -
  obtain k where "tree_map (injections_of s proc) k = Some p" using assms(2) tree_vals_map [OF inj_okD(3) [OF assms(1)], of p] by blast
  then obtain i where "s_heap s p = Some i" "i_process i = proc" using inj_okD(4) [OF assms(1), of proc k p] by blast
  then show ?thesis using assms(1) unfolding inj_ok_def by (metis not_None_eq)
qed

lemma first_injection_spec:
  assumes "\<forall>p \<in> set ps. \<exists>i. s_heap s p = Some i \<and> no_fault (f i)"
  shows "\<exists>r. first_injection f s ps = Inr r \<and> (\<forall>y. r = Some y \<longrightarrow> (\<exists>p \<in> set ps. \<exists>i. s_heap s p = Some i \<and> f i = Inr (Some y)))
    \<and> (r = None \<longrightarrow> (\<forall>p \<in> set ps. \<forall>i. s_heap s p = Some i \<longrightarrow> f i = Inr None))"
  using assms
proof (induction ps)
  case (Cons p ps)
  obtain i y where i: "s_heap s p = Some i" "f i = Inr y" using Cons.prems by (auto simp: no_fault_def)
  show ?case
  proof (cases y)
    case None
    with Cons i show ?thesis by (auto simp: injectable_at_Some(2))
  next
    case (Some z)
    with i show ?thesis by (auto simp: injectable_at_Some(2))
  qed
qed simp

text \<open>An address that is found is that of an exported symbol of an injection in the process.\<close>

definition exported_at :: "'t istate \<Rightarrow> nat \<Rightarrow> bytes \<Rightarrow> u32 \<Rightarrow> bool" where
  "exported_at s proc name a \<longleftrightarrow> (\<exists>p q i x ofs. injection_get s proc q = Some p \<and> s_heap s p = Some i \<and> inj_heap (s_registry s) q = Some x
     \<and> injectable_get_exported_symbol x name = Inr ofs \<and> 0 \<le> ofs \<and> a = i_address i + of_int ofs)"

lemma injection_find_export_spec:
  assumes "inj_ok s" "files_ok (s_registry s)"
  shows "\<exists>a. injection_find_export s proc name = Inr a \<and> (a \<noteq> 0 \<longrightarrow> exported_at s proc name a)"
proof -
  let ?f = "\<lambda>i. res_bind (injection_get_exported_symbol_address s i name) (\<lambda>a. Inr (if a \<noteq> 0 then Some a else None))"
  have v: "\<exists>i x ofs. s_heap s p = Some i \<and> i_process i = proc \<and> inj_heap (s_registry s) (i_injectable i) = Some x
      \<and> injectable_get_exported_symbol x name = Inr ofs" if mem: "p \<in> set (tree_vals (injections_of s proc))" for p
  proof -
    obtain i x where i: "s_heap s p = Some i" "i_process i = proc" "inj_heap (s_registry s) (i_injectable i) = Some x"
      using inj_ok_val [OF assms(1) mem] by blast
    then show ?thesis using assms(2) by (auto simp: files_ok_def file_ok_def no_fault_def)
  qed
  have nf: "\<forall>p \<in> set (tree_vals (injections_of s proc)). \<exists>i. s_heap s p = Some i \<and> no_fault (?f i)"
  proof
    fix p
    assume "p \<in> set (tree_vals (injections_of s proc))"
    then obtain i x ofs where "s_heap s p = Some i" "inj_heap (s_registry s) (i_injectable i) = Some x" "injectable_get_exported_symbol x name = Inr ofs"
      using v by blast
    then show "\<exists>i. s_heap s p = Some i \<and> no_fault (?f i)" by (simp add: injection_get_exported_symbol_address_def injectable_at_Some)
  qed
  obtain r where r: "first_injection ?f s (tree_vals (injections_of s proc)) = Inr r"
    "\<forall>y. r = Some y \<longrightarrow> (\<exists>p \<in> set (tree_vals (injections_of s proc)). \<exists>i. s_heap s p = Some i \<and> ?f i = Inr (Some y))"
    using first_injection_spec [OF nf] by blast
  show ?thesis
  proof (cases r)
    case None
    then show ?thesis using r(1) by (simp add: injection_find_export_def)
  next
    case (Some a)
    then obtain p i where p: "p \<in> set (tree_vals (injections_of s proc))" "s_heap s p = Some i" "?f i = Inr (Some a)" using r(2) by blast
    obtain x ofs where x: "i_process i = proc" "inj_heap (s_registry s) (i_injectable i) = Some x" "injectable_get_exported_symbol x name = Inr ofs"
      using v [OF p(1)] p(2) by auto
    have a: "a = injection_relocate_address i ofs" "a \<noteq> 0"
      using p(3) x by (auto simp: injection_get_exported_symbol_address_def injectable_at_Some split: if_splits)
    then have ofs: "0 \<le> ofs" "a = i_address i + of_int ofs" by (auto simp: injection_relocate_address_def split: if_splits)
    have "injection_get s proc (i_injectable i) = Some p"
      using inj_okD(3) [OF assms(1), of proc] inj_okD(4) [OF assms(1), of proc] p(2) x(1) by (simp add: injection_get_def tree_get_map)
    then have "exported_at s proc name a" unfolding exported_at_def using p(2) x ofs by blast
    then show ?thesis using r(1) Some by (simp add: injection_find_export_def)
  qed
qed

lemma import_slot_total:
  fixes sz :: u32
  assumes "i_address i \<noteq> 0" "unat (i_address i) + unat sz \<le> 2 ^ 32" "0 \<le> ofs" "ofs < uint sz"
  shows "\<exists>a. import_slot c s i ofs = Inr a"
proof -
  have "ofs < 2 ^ LENGTH(32)" using assms(4) uint_lt2p [of sz] by (rule order.strict_trans)
  then have "unat (of_int ofs :: u32) = nat ofs" using assms(3) unfolding unat_eq_nat_uint uint_word_of_int_eq
    by (simp add: take_bit_int_eq_self)
  moreover have "nat ofs < unat sz" using assms(3,4) by (simp only: unat_eq_nat_uint nat_less_eq_zless)
  ultimately have "unat (i_address i) + unat (of_int ofs :: u32) < 2 ^ LENGTH(32)" using assms(2) by simp
  then have "unat (i_address i + of_int ofs) = unat (i_address i) + unat (of_int ofs :: u32)" by (rule unat_add_lem [THEN iffD1])
  moreover have "unat (i_address i) \<noteq> 0" using assms(1) by (simp add: unat_eq_zero)
  ultimately have "i_address i + of_int ofs \<noteq> 0" by (metis add_is_0 unat_0)
  then show ?thesis using assms(3) by (simp add: import_slot_def injection_relocate_address_def Let_def)
qed

lemma dlink_loop_total:
  fixes sz :: u32
  assumes "icalls_total c" "i_address i \<noteq> 0" "unat (i_address i) + unat sz \<le> 2 ^ 32"
  shows "inj_ok s \<Longrightarrow> files_ok (s_registry s) \<Longrightarrow> \<forall>e \<in> set imps. 0 \<le> snd e \<and> snd e < uint sz \<Longrightarrow>
    \<exists>r t. dlink_loop c i imps ok s = Inr (r, s\<lparr>s_thread := t\<rparr>)"
proof (induction imps arbitrary: ok s)
  case Nil
  then show ?case by (auto intro: exI [of _ "s_thread s"])
next
  case (Cons e imps)
  obtain name ofs where e: "e = (name, ofs)" by (cases e)
  obtain a where a: "injection_find_export s (ic_process c) (takeWhile (\<lambda>b. b \<noteq> 0) name) = Inr a"
    using injection_find_export_spec [OF Cons.prems(1,2)] by blast
  obtain slot where slot: "import_slot c s i ofs = Inr slot" using import_slot_total [OF assms(2,3), of ofs c s] Cons.prems(3) e by auto
  obtain n t where t: "write_memory c s slot (le_bytes 4 a) = Inr (n, s\<lparr>s_thread := t\<rparr>)" using thread_calls_total(1) [OF assms(1)] by blast
  show ?case
  proof (cases "a = 0")
    case True
    then show ?thesis using Cons.IH [OF Cons.prems(1,2)] Cons.prems(3) by (simp add: e a)
  next
    case False
    then show ?thesis using Cons.IH [of "s\<lparr>s_thread := t\<rparr>" "ok \<and> n = 4"] Cons.prems by (simp add: e a slot t)
  qed
qed

lemma link_and_init_total:
  assumes "icalls_total c" "inj_ok s" "files_ok (s_registry s)" "s_heap s p = Some i" "inj_heap (s_registry s) (i_injectable i) = Some x"
    and "i_address i \<noteq> 0" "unat (i_address i) + unat (inj_code_size (injfile x)) \<le> 2 ^ 32"
  shows "\<exists>r t. link_and_init c p s = Inr (r, s\<lparr>s_thread := t\<rparr>)"
proof -
  obtain imps where imps: "injectable_imports x = Inr imps" "\<forall>e \<in> set imps. 0 \<le> snd e \<and> snd e < uint (inj_code_size (injfile x))"
    using assms(3,5) unfolding files_ok_def file_ok_def by blast
  obtain ok t where ok: "injection_dlink c p s = Inr (ok, s\<lparr>s_thread := t\<rparr>)"
    using dlink_loop_total [OF assms(1,6,7,2,3) imps(2), of True] by (auto simp: injection_dlink_def injectable_at_Some assms(4,5) imps(1))
  obtain r t' where "injection_init c p (s\<lparr>s_thread := t\<rparr>) = Inr (r, s\<lparr>s_thread := t'\<rparr>)"
    using call_symbol_total [OF assms(1), of "s\<lparr>s_thread := t\<rparr>" p i x entry_name "ic_pid c" "thread_tgid c s"] assms(3-5)
    by (auto simp: injection_init_def thread_tgid_def)
  then show ?thesis using ok by (auto simp: link_and_init_def)
qed

lemma option_eqI: "(\<And>p. x = Some p \<longleftrightarrow> y = Some p) \<Longrightarrow> x = y"
  by (cases x; cases y) auto

lemma inj_ok_same_heap:
  assumes "inj_ok s" "inj_ok s'" "s_heap s' = s_heap s" "only_references (s_registry s) (s_registry s')"
  shows "inj_heap (s_registry s') = inj_heap (s_registry s)" "injection_get s' = injection_get s"
proof -
  have w: "injections_with s' q = injections_with s q" for q by (simp add: injections_with_def assms(3))
  show "inj_heap (s_registry s') = inj_heap (s_registry s)"
  proof
    fix q
    have m: "map_option (\<lambda>x. x\<lparr>inj_references := 0\<rparr>) (inj_heap (s_registry s') q) = map_option (\<lambda>x. x\<lparr>inj_references := 0\<rparr>) (inj_heap (s_registry s) q)"
      using assms(4) by (simp add: only_references_def)
    show "inj_heap (s_registry s') q = inj_heap (s_registry s) q"
    proof (cases "inj_heap (s_registry s) q")
      case (Some x)
      then obtain y where y: "inj_heap (s_registry s') q = Some y" "y\<lparr>inj_references := 0\<rparr> = x\<lparr>inj_references := 0\<rparr>" using m by auto
      have "unat (inj_references y) = unat (inj_references x)" using assms(1,2) y(1) Some w unfolding inj_ok_def by metis
      then have "inj_references y = inj_references x" by (simp add: word_unat_eq_iff)
      then have "y = x" using y(2) by (cases x, cases y) simp
      then show ?thesis using y Some by simp
    qed (use m in simp)
  qed
  have "tree_map (injections_of s' proc) q = Some p \<longleftrightarrow> tree_map (injections_of s proc) q = Some p" for proc q p
    unfolding inj_okD(4) [OF assms(1)] inj_okD(4) [OF assms(2)] assms(3) ..
  then have "tree_map (injections_of s' proc) = tree_map (injections_of s proc)" for proc
    by (intro ext option_eqI)
  then show "injection_get s' = injection_get s"
    by (intro ext) (simp add: injection_get_def tree_get_map [OF inj_okD(3) [OF assms(1)]] tree_get_map [OF inj_okD(3) [OF assms(2)]])
qed

text \<open>What an attempt to inject may leave.\<close>

definition injected_or_unchanged :: "nat \<Rightarrow> nat \<Rightarrow> 't istate \<Rightarrow> nat option \<Rightarrow> 't istate \<Rightarrow> bool" where
  "injected_or_unchanged proc q s r s' \<longleftrightarrow>
     (case r of
        None \<Rightarrow> s_heap s' = s_heap s \<and> injection_get s' = injection_get s \<and> inj_heap (s_registry s') = inj_heap (s_registry s)
      | Some p \<Rightarrow> s_heap s p = None
          \<and> (\<exists>a. s_heap s' = (s_heap s)(p \<mapsto> \<lparr>i_process = proc, i_address = a, i_injectable = q, i_references = 0\<rparr>))
          \<and> injection_get s' proc = (injection_get s proc)(q \<mapsto> p) \<and> (\<forall>proc'. proc' \<noteq> proc \<longrightarrow> injection_get s' proc' = injection_get s proc'))"

context injection_trees
begin

lemma injection_create_total:
  assumes "inj_ok s" "inj_heap (s_registry s) q = Some x" "injection_get s proc q = None"
  shows "\<exists>p s'. injection_create c s proc q a = Inr (p, s')"
proof -
  have ok: "tree_ok (injections_of s proc)" using inj_okD(3) [OF assms(1)] .
  then have "tree_map (injections_of s proc) q = None" using assms(3) by (simp add: injection_get_def tree_get_map)
  then obtain t where "tree_insert (ic_tree c) (injections_of s proc) q (s_next s) = Inr t" using insert_spec [OF ok] by blast
  then show ?thesis using assms(2) by (simp add: injection_create_def count_injectable_def injectable_at_Some injections_of_def Let_def)
qed

lemma injection_free_total:
  assumes "inj_ok s" "s_heap s p = Some i"
  shows "\<exists>s'. injection_free c s p = Inr s'"
proof -
  have ok: "tree_ok (injections_of s (i_process i))" using inj_okD(3) [OF assms(1)] .
  have "tree_map (injections_of s (i_process i)) (i_injectable i) \<noteq> None" using inj_okD(4) [OF assms(1), of "i_process i" "i_injectable i" p] assms(2) by auto
  then obtain t where t: "tree_remove (ic_tree c) (injections_of s (i_process i)) (i_injectable i) = Inr t" using remove_spec [OF ok] by blast
  obtain x where "inj_heap (s_registry s) (i_injectable i) = Some x" using assms unfolding inj_ok_def by blast
  then show ?thesis using t assms(2)
    by (simp add: injection_free_def count_injectable_def injectable_at_Some set_injections_def)
qed

lemma uninject_fresh:
  assumes c: "icalls_total c" and ok: "inj_ok s" and files: "files_ok (s_registry s)" and new: "s_heap s p = Some i" "i_references i = 0"
    and own: "i_process i = ic_process c" "s_adbi s \<noteq> Some (i_injectable i)" and base: "injection_get_adbi s (ic_process c) \<noteq> None"
  shows "\<exists>s'. uninject c p s = Inr s' \<and> inj_ok s' \<and> s_heap s' = (s_heap s)(p := None) \<and> only_references (s_registry s) (s_registry s')"
proof -
  obtain x where x: "inj_heap (s_registry s) (i_injectable i) = Some x" using ok new(1) unfolding inj_ok_def by blast
  obtain t where t: "free_memory c s (i_address i) (inj_code_size (injfile x)) = Inr (s\<lparr>s_thread := t\<rparr>)"
    using memory_calls_total(2) [OF c ok files base] by blast
  obtain s' where s': "injection_free c (s\<lparr>s_thread := t\<rparr>) p = Inr s'" using injection_free_total [of "s\<lparr>s_thread := t\<rparr>" p i] ok new(1) by auto
  have "uninject c p s = Inr s'"
    using x t s' new own by (simp add: uninject_def injectable_at_Some injection_is_adbi_def code_size_of_def)
  moreover have "inj_ok s' \<and> s_heap s' = (s_heap s)(p := None) \<and> only_references (s_registry s) (s_registry s')"
    using injection_free_spec [OF s'] ok by auto
  ultimately show ?thesis by blast
qed

lemma only_references_trans: "only_references w w' \<Longrightarrow> only_references w' w'' \<Longrightarrow> only_references w w''"
  unfolding only_references_def by simp

lemma inject_at_complete:
  assumes c: "icalls_total c" and ok: "inj_ok s" and files: "files_ok (s_registry s)" and x: "inj_heap (s_registry s) q = Some x"
    and base: "injection_get_adbi s (ic_process c) \<noteq> None" and new: "s_adbi s \<noteq> Some q" "injection_get s (ic_process c) q = None"
    and a: "a \<noteq> 0" "unat a + unat (inj_code_size (injfile x)) \<le> 2 ^ 32"
  shows "\<exists>r s'. inject_at c q a s = Inr (r, s') \<and> injected_or_unchanged (ic_process c) q s r s'"
proof -
  obtain p s2 where p: "injection_create c s (ic_process c) q a = Inr (p, s2)" using injection_create_total [OF ok x new(2)] by blast
  note cs = injection_create_spec [OF p ok]
  let ?i = "\<lparr>i_process = ic_process c, i_address = a, i_injectable = q, i_references = 0\<rparr>"
  have i: "s_heap s2 p = Some ?i" using cs by simp
  have files2: "files_ok (s_registry s2)" using files_ok_only_references [OF files] cs by blast
  obtain x2 where x2: "inj_heap (s_registry s2) q = Some x2" using cs i unfolding inj_ok_def by (metis injection_t.select_convs(3) not_None_eq)
  have f2: "injfile x2 = injfile x" using only_references_fields [of "s_registry s" "s_registry s2" q x2] cs x2 x by auto
  obtain ok3 t3 where l: "link_and_init c p s2 = Inr (ok3, s2\<lparr>s_thread := t3\<rparr>)"
    using link_and_init_total [OF c _ files2 i, of x2] cs x2 a f2 by auto
  define s3 where "s3 = s2\<lparr>s_thread := t3\<rparr>"
  have get: "injection_get s2 (ic_process c) = (injection_get s (ic_process c))(q \<mapsto> p)"
    "proc' \<noteq> ic_process c \<Longrightarrow> injection_get s2 proc' = injection_get s proc'" for proc'
    using cs inj_okD(3) [OF ok] inj_okD(3) [of s2] by (auto simp: injection_get_def tree_get_map fun_eq_iff)
  have fresh: "s_heap s p = None" using cs inj_okD(2) [OF ok] by (metis domI not_None_eq order_less_irrefl)
  have base3: "injection_get_adbi s3 (ic_process c) \<noteq> None"
    using base get(1) cs by (auto simp: injection_get_adbi_def s3_def split: option.splits)
  obtain s4 where s4: "uninject c p s3 = Inr s4" "inj_ok s4" "s_heap s4 = s_heap s" "only_references (s_registry s) (s_registry s4)"
    using uninject_fresh [OF c, of s3 p ?i] cs i files2 base3 new(1) fresh only_references_trans by (auto simp: s3_def fun_upd_idem)
  have "inject_at c q a s = (if ok3 then Inr (Some p, s3) else Inr (None, s4))" using p l s4(1) by (simp add: inject_at_def s3_def)
  moreover have "injected_or_unchanged (ic_process c) q s (Some p) s3" using fresh cs get by (auto simp: injected_or_unchanged_def s3_def)
  moreover have "injected_or_unchanged (ic_process c) q s None s4"
    using inj_ok_same_heap [OF ok s4(2-4)] s4(3) by (simp add: injected_or_unchanged_def)
  ultimately show ?thesis by auto
qed

lemma inject_complete:
  assumes c: "icalls_total c" and ok: "inj_ok s" and files: "files_ok (s_registry s)" and x: "inj_heap (s_registry s) q = Some x"
    and base: "injection_get_adbi s (ic_process c) \<noteq> None" and new: "s_adbi s \<noteq> Some q" "injection_get s (ic_process c) q = None"
  shows "\<exists>r s'. inject c q s = Inr (r, s') \<and> injected_or_unchanged (ic_process c) q s r s'"
proof -
  let ?sz = "inj_code_size (injfile x)"
  have un: "injected_or_unchanged (ic_process c) q s None (s\<lparr>s_thread := t\<rparr>)" for t by (simp add: injected_or_unchanged_def)
  obtain r t where r: "allocate c s ?sz = Inr (r, s\<lparr>s_thread := t\<rparr>)" "\<forall>a. r = Some a \<longrightarrow> a \<noteq> 0 \<and> unat a + unat ?sz \<le> 2 ^ 32"
    using memory_calls_total(1) [OF c ok files base] by blast
  obtain code where code: "injfile_code (injfile x) = Inr code" using files x unfolding files_ok_def file_ok_def no_fault_def by blast
  show ?thesis
  proof (cases r)
    case None
    then show ?thesis using un r(1) new(1) x by (auto simp: inject_def injectable_at_Some)
  next
    case (Some a)
    obtain n t1 where n: "write_memory c (s\<lparr>s_thread := t\<rparr>) a code = Inr (n, s\<lparr>s_thread := t1\<rparr>)"
      using thread_calls_total(1) [OF c, of "s\<lparr>s_thread := t\<rparr>" a code] by auto
    let ?s1 = "s\<lparr>s_thread := t1\<rparr>"
    have s1: "inj_ok ?s1" "files_ok (s_registry ?s1)" "inj_heap (s_registry ?s1) q = Some x" "injection_get_adbi ?s1 (ic_process c) \<noteq> None"
      "s_adbi ?s1 \<noteq> Some q" "injection_get ?s1 (ic_process c) q = None" using assms by simp_all
    obtain t2 where t2: "free_memory c ?s1 a ?sz = Inr (s\<lparr>s_thread := t2\<rparr>)" using memory_calls_total(2) [OF c s1(1,2,4), of a ?sz] by auto
    obtain r' s' where i: "inject_at c q a ?s1 = Inr (r', s')" "injected_or_unchanged (ic_process c) q ?s1 r' s'"
      using inject_at_complete [OF c s1] r(2) Some by blast
    have "inject c q s = (if n \<noteq> length code then Inr (None, s\<lparr>s_thread := if ic_dead c t1 then t1 else t2\<rparr>) else Inr (r', s'))"
      using new(1) x r(1) Some code n t2 i(1) by (simp add: inject_def injectable_at_Some)
    moreover have "injected_or_unchanged (ic_process c) q s r' s'" using i(2) by (cases r') (simp_all add: injected_or_unchanged_def)
    ultimately show ?thesis using un by auto
  qed
qed

end

section \<open>Properties\<close>

text \<open>
  A process for the witnesses: its memory is a function, memory is allocated at a fixed address, called functions return 0 and the
  base injection is installed at another address.
\<close>

definition quiet_calls :: "nat \<Rightarrow> (u32 \<Rightarrow> u8) icalls" where
  "quiet_calls proc = \<lparr>ic_process = proc, ic_pid = 7, ic_tree = leaf_lib 0, ic_deps = leaf_lib 0, ic_fuel = 4, ic_pagesize = 0x1000,
     ic_running = (\<lambda>_. False), ic_dead = (\<lambda>_. False), ic_stopped = (\<lambda>_. True), ic_only_thread = (\<lambda>_. True), ic_notified = (\<lambda>t. t),
     ic_write = (\<lambda>t a bs. Inr (length bs, \<lambda>x. if unat (x - a) < length bs then bs ! unat (x - a) else t x)),
     ic_call = (\<lambda>t a w x y z. Inr (Some 0, t)),
     ic_allocate = (\<lambda>base symbol t sz. Inr (if sz \<le> 0x1000 then Some 0x8000 else None, t)),
     ic_free = (\<lambda>base symbol t a sz. Inr (True, t)),
     ic_load_call = (\<lambda>P t code ofs ctx. Inr (True, ctx\<lparr>registers := [0x4000]\<rparr>, t))\<rparr>"

lemma quiet_calls_total: "icalls_total (quiet_calls proc)"
  by (auto simp: icalls_total_def quiet_calls_def word_le_nat_alt)

lemma quiet_calls_trees: "injection_trees (quiet_calls proc)"
  by (rule injection_trees.intro) (simp add: quiet_calls_def leaf_lib_contract)

text \<open>An injectable that imports nothing, in place of the base injectable and of another one.\<close>

definition plain_injectable :: "u32 \<Rightarrow> bool \<Rightarrow> injectable_t" where
  "plain_injectable n is_lib = \<lparr>iid = n, filename = [], injfile = \<lparr>inj_image = [1, 2, 3, 4], inj_version = 0x0210,
     inj_flags = (if is_lib then 1 else 0), inj_code_size = 4, inj_code = Some 0, inj_name = None, inj_comment = None, inj_adbi = None,
     inj_imports = None, inj_exports = None, inj_tpoints = None, inj_strings = None, inj_lines = None\<rparr>, inj_references = 0, builtin = False\<rparr>"

lemma plain_injectable_ok: "file_ok (plain_injectable n is_lib)"
  by (simp add: file_ok_def plain_injectable_def injectable_get_symbol_def injectable_get_exported_symbol_def injectable_imports_def
      injfile_get_adbi_def injfile_get_export_def injfile_get_symbol_def injfile_code_def)

definition plain_registry :: registry where
  "plain_registry = \<lparr>inj_heap = [10 \<mapsto> (plain_injectable 1 True)\<lparr>inj_references := 1\<rparr>, 20 \<mapsto> plain_injectable 2 False],
     injectables = Node (Node Leaf (1, 10) Leaf) (2, 20) Leaf, libraries = Node Leaf (1, 10) Leaf, bindings = Node Leaf (2, 20) Leaf, next_iid = 3\<rparr>"

text \<open>A process with the base injection only.\<close>

definition based_state :: "(u32 \<Rightarrow> u8) istate" where
  "based_state = \<lparr>s_registry = plain_registry, s_heap = [100 \<mapsto> \<lparr>i_process = 5, i_address = 0x4000, i_injectable = 10, i_references = 1\<rparr>],
     s_next = 101, s_processes = (\<lambda>proc. \<lparr>ip_pid = of_nat proc, ip_mode32 = True, ip_injections = if proc = 5 then Node Leaf (10, 100) Leaf else Leaf\<rparr>),
     s_adbi = Some 10, s_thread = (\<lambda>_. 0)\<rparr>"

lemma based_state_ok: "inj_ok based_state" "files_ok (s_registry based_state)"
proof -
  have w: "injections_with based_state q = (if q = 10 then {100} else {})" for q by (auto simp: injections_with_def based_state_def)
  show "inj_ok based_state"
    unfolding inj_ok_def w by (auto simp: based_state_def injections_of_def tree_ok_def tree_map_def plain_registry_def plain_injectable_def split: if_splits)
  have "file_ok ((plain_injectable 1 True)\<lparr>inj_references := 1\<rparr>)" using plain_injectable_ok [of 1 True] by (subst file_ok_injfile [of _ "plain_injectable 1 True"]) simp_all
  then show "files_ok (s_registry based_state)" using plain_injectable_ok by (simp add: files_ok_def based_state_def plain_registry_def)
qed

lemma quiet_calls_simps:
  "ic_process (quiet_calls proc) = proc" "ic_tree (quiet_calls proc) = leaf_lib 0"
  by (simp_all add: quiet_calls_def)

lemma based_state_simps:
  "inj_heap (s_registry based_state) = [10 \<mapsto> (plain_injectable 1 True)\<lparr>inj_references := 1\<rparr>, 20 \<mapsto> plain_injectable 2 False]"
  "s_adbi based_state = Some 10" "injection_get based_state 5 10 = Some 100" "injection_get based_state 5 20 = None"
  by (simp_all add: based_state_def plain_registry_def injection_get_def injections_of_def tree_get_def tree_get_node_def)



end
