(* ===== verification/Injection_Detach.thy ===== *)
theory Injection_Detach
  imports Injection_Correct
begin

text \<open>
  What detaching from a process does to its injections: with injectables that depend on the base injectable only, all of them are
  removed when the counter of the base injection is right (\<open>detach_removes_all\<close>), which it is not after a fork
  (\<open>fork_detach_aborts\<close>). A dependency of a dependency is released once too often (\<open>nested_dependencies_crash\<close>).
\<close>

section \<open>Iterations that remove entries\<close>

definition tree_keys :: "('k, 'v) tree_t \<Rightarrow> 'k list" where
  "tree_keys t = map fst (inorder t)"

lemma tree_keys_dom: "set (tree_keys t) = dom (tree_map t)"
  by (simp add: tree_keys_def tree_map_def dom_map_of_conv_image_fst)

lemma first_key_hd: "first_key t = (case tree_keys t of [] \<Rightarrow> None | k # ks \<Rightarrow> Some k)"
proof (cases "t = Leaf")
  case False
  then show ?thesis using tree_get_min_position [OF False, of "[]"]
    by (auto simp: first_key_def tree_iter_start_def tree_keys_def entry_def split: list.splits)
qed (simp add: first_key_def tree_iter_start_def tree_keys_def)

lemma next_key:
  assumes "tree_ok t" "tree_keys t = pre @ k # post" "tree_get_node t k = Some n"
  shows "map_option nkey (tree_iter_next n) = (case post of [] \<Rightarrow> None | k # ks \<Rightarrow> Some k)"
proof -
  have t: "node_tree n = t" "nkey n = k" using tree_get_node_tree [OF assms(3)] by simp_all
  then have "tree_keys t = map fst (node_before n) @ k # map fst (node_after n)"
    using inorder_node_tree [of n] by (simp add: tree_keys_def entry_def)
  moreover have d: "distinct (tree_keys t)" using assms(1) by (simp add: tree_ok_def tree_keys_def strict_sorted_iff)
  moreover have "k \<notin> set (map fst (node_before n))" using d calculation(1) by auto
  moreover have "k \<notin> set pre" "k \<notin> set post" using d assms(2) by auto
  ultimately have "map fst (node_after n) = post" 
    using assms(2) append_Cons_eq_iff [of k pre post "map fst (node_before n)" "map fst (node_after n)"] by simp
  then show ?thesis using tree_iter_next_position [of n] by (cases "node_after n") (auto simp: entry_def)
qed

lemma tree_keys_remove:
  assumes "tree_ok t" "tree_ok t'" "tree_map t' = (tree_map t)(k := None)" "tree_keys t = pre @ k # post"
  shows "tree_keys t' = pre @ post"
proof (rule strict_sorted_equal)
  have s: "sorted_wrt (<) (pre @ k # post)" using assms(1,4) by (simp add: tree_ok_def tree_keys_def)
  then show "sorted_wrt (<) (pre @ post)" by (auto simp: sorted_wrt_append)
  show "sorted_wrt (<) (tree_keys t')" using assms(2) by (simp add: tree_ok_def tree_keys_def)
  have "k \<notin> set (pre @ post)" using s by (auto simp: sorted_wrt_append)
  moreover have "dom (tree_map t) = set (pre @ k # post)" using tree_keys_dom [of t] assms(4) by simp
  ultimately show "set (tree_keys t') = set (pre @ post)" unfolding tree_keys_dom assms(3) by auto
qed

lemma iter_safe_visits:
  assumes ok: "\<And>pre ks s. J pre ks s \<Longrightarrow> tree_ok (injections_of s proc) \<and> tree_keys (injections_of s proc) = pre @ ks"
    and step: "\<And>pre k ks s p. J pre (k # ks) s \<Longrightarrow> tree_map (injections_of s proc) k = Some p \<Longrightarrow> \<exists>s' pre'. f p s = Inr s' \<and> J pre' ks s'"
  shows "J pre ks s \<Longrightarrow> length ks \<le> fuel \<Longrightarrow>
    \<exists>s' pre'. iter_safe fuel proc f (case ks of [] \<Rightarrow> None | k # ks \<Rightarrow> Some k) s = Inr s' \<and> J pre' [] s'"
proof (induction ks arbitrary: pre s fuel)
  case Nil
  then show ?case by auto
next
  case (Cons k ks)
  obtain n where fuel: "fuel = Suc n" "length ks \<le> n" using Cons.prems(2) by (cases fuel) auto
  note o = ok [OF Cons.prems(1)]
  have "k \<in> dom (tree_map (injections_of s proc))" using o by (simp flip: tree_keys_dom)
  then obtain p where p: "tree_map (injections_of s proc) k = Some p" by blast
  then obtain node where node: "tree_get_node (injections_of s proc) k = Some node" "nval node = p"
    using o by (auto simp: tree_get_def simp flip: tree_get_map)
  obtain s' pre' where s': "f p s = Inr s'" "J pre' ks s'" using step [OF Cons.prems(1) p] by blast
  show ?case using Cons.IH [OF s'(2) fuel(2)] node s'(1) next_key [OF _ _ node(1)] o by (simp add: fuel(1))
qed

section \<open>The dependencies\<close>

text \<open>They are read off the files, not off the counters.\<close>

lemma injectable_at_bind:
  assumes "only_references w w'" "\<And>x y. iid y = iid x \<Longrightarrow> injfile y = injfile x \<Longrightarrow> f y = g x"
  shows "res_bind (injectable_at w' p) f = res_bind (injectable_at w p) g"
proof (cases "inj_heap w' p")
  case None
  then have "inj_heap w p = None" using assms(1) unfolding only_references_def by (metis None_eq_map_option_iff)
  then show ?thesis using None by (simp add: injectable_at_def)
next
  case (Some y)
  then obtain x where "inj_heap w p = Some x" "iid y = iid x" "injfile y = injfile x" using only_references_fields [OF assms(1)] by blast
  then show ?thesis using Some assms(2) [of y x] by (simp add: injectable_at_Some)
qed

lemma first_injectable_only_references:
  assumes "only_references w w'" "\<And>x y. injfile x = injfile y \<Longrightarrow> P x = P y"
  shows "first_injectable P w' ps = first_injectable P w ps"
proof (induction ps)
  case (Cons p ps)
  then show ?case by (simp, intro injectable_at_bind [OF assms(1)]) (metis assms(2))
qed simp

lemma get_dependencies_only_references:
  assumes "only_references w w'"
  shows "get_dependencies lib w' ss deps = get_dependencies lib w ss deps"
proof (induction ss arbitrary: deps)
  case (Cons e ss)
  have "exporter w' n = exporter w n" for n
    using first_injectable_only_references [OF assms] assms unfolding exporter_def only_references_def by simp
  moreover have "res_bind (injectable_at w' p) (\<lambda>x. res_bind (tree_insert lib deps (iid x) p) (get_dependencies lib w' ss)) =
      res_bind (injectable_at w p) (\<lambda>x. res_bind (tree_insert lib deps (iid x) p) (get_dependencies lib w ss))" for p
    using Cons by (intro injectable_at_bind [OF assms]) (simp cong: res_bind_cong)
  ultimately show ?case using Cons by (simp cong: option.case_cong)
qed simp

lemma dependency_list_only_references:
  assumes "only_references w w'" "\<And>x y. injfile y = injfile x \<Longrightarrow> injectable_iter_dependencies lib w' n y = injectable_iter_dependencies lib w n x"
  shows "iter_dependency_list lib w' n ps = iter_dependency_list lib w n ps"
proof (induction ps)
  case (Cons p ps)
  show ?case unfolding iter_dependency_list.simps
  proof (rule injectable_at_bind [OF assms(1)])
    fix x y :: injectable_t
    assume "injfile y = injfile x"
    then have "injectable_iter_dependencies lib w' n y = injectable_iter_dependencies lib w n x" by (rule assms(2))
    then show "res_bind (injectable_iter_dependencies lib w' n y) (\<lambda>before. res_bind (iter_dependency_list lib w' n ps) (\<lambda>rest. Inr (before @ p # rest))) =
        res_bind (injectable_iter_dependencies lib w n x) (\<lambda>before. res_bind (iter_dependency_list lib w n ps) (\<lambda>rest. Inr (before @ p # rest)))"
      by (simp only: Cons)
  qed
qed simp

lemma iter_dependencies_only_references:
  assumes "only_references w w'"
  shows "injfile y = injfile x \<Longrightarrow> injectable_iter_dependencies lib w' n y = injectable_iter_dependencies lib w n x"
proof (induction n arbitrary: x y)
  case (Suc n)
  have "injectable_get_dependencies lib w' y = injectable_get_dependencies lib w x"
    using Suc.prems get_dependencies_only_references [OF assms] by (simp add: injectable_get_dependencies_def injectable_imports_def cong: option.case_cong)
  moreover have "iter_dependency_list lib w' n ps = iter_dependency_list lib w n ps" for ps
    by (rule dependency_list_only_references [OF assms Suc.IH])
  ultimately show ?case by (simp cong: res_bind_cong)
qed simp

lemma dependencies_evolve: "only_references (s_registry s) (s_registry s') \<Longrightarrow> dependencies c q s' = dependencies c q s"
  unfolding dependencies_def by (intro injectable_at_bind iter_dependencies_only_references)

section \<open>Injectables that depend on the base injectable\<close>

lemma injection_get_heap:
  "inj_ok s \<Longrightarrow> injection_get s proc q = Some p \<longleftrightarrow> (\<exists>i. s_heap s p = Some i \<and> i_process i = proc \<and> i_injectable i = q)"
  using inj_okD(3) [of s proc] inj_okD(4) [of s proc q p] by (simp add: injection_get_def tree_get_map)

lemma injection_get_finite: "inj_ok s \<Longrightarrow> finite (dom (injection_get s proc))"
proof -
  assume "inj_ok s"
  then have "injection_get s proc = map_of (inorder (injections_of s proc))"
    using inj_okD(3) [of s proc] by (simp add: fun_eq_iff injection_get_def tree_get_map tree_map_def)
  then show ?thesis by (simp add: finite_dom_map_of)
qed

text \<open>
  All injections of the process but the base injection \<open>qa\<close> are unused, are not libraries, and import \<open>dn q\<close> times from the base
  injection, whose counter is \<open>k\<close> more than the number of these dependencies.
\<close>

definition others_plain :: "'t icalls \<Rightarrow> (nat \<Rightarrow> nat) \<Rightarrow> nat \<Rightarrow> 't istate \<Rightarrow> bool" where
  "others_plain c dn qa s \<longleftrightarrow> (\<forall>q p. injection_get s (ic_process c) q = Some p \<longrightarrow> q \<noteq> qa \<longrightarrow>
     (\<exists>i x. s_heap s p = Some i \<and> i_references i = 0 \<and> inj_heap (s_registry s) q = Some x \<and> \<not> injectable_is_library x)
     \<and> dependencies c q s = Inr (replicate (dn q) qa))"

definition base_count :: "'t icalls \<Rightarrow> (nat \<Rightarrow> nat) \<Rightarrow> nat \<Rightarrow> 't istate \<Rightarrow> u32" where
  "base_count c dn qa s = of_nat (\<Sum>q \<in> dom (injection_get s (ic_process c)) - {qa}. dn q)"

definition detach_ready :: "'t icalls \<Rightarrow> (nat \<Rightarrow> nat) \<Rightarrow> nat \<Rightarrow> u32 \<Rightarrow> 't istate \<Rightarrow> bool" where
  "detach_ready c dn qa k s \<longleftrightarrow> inj_ok s \<and> files_ok (s_registry s) \<and> s_adbi s = Some qa \<and> others_plain c dn qa s
     \<and> (\<exists>pa i. injection_get s (ic_process c) qa = Some pa \<and> s_heap s pa = Some i \<and> i_references i = k + base_count c dn qa s)"

lemma dep_uninject_base:
  assumes "s_adbi s = Some qa" "injection_get s (ic_process c) qa = Some pa" "s_heap s pa = Some i" "i_injectable i = qa"
  shows "dep_uninject c n (replicate m qa) s = Inr (s\<lparr>s_heap := (s_heap s)(pa \<mapsto> i\<lparr>i_references := i_references i - of_nat m\<rparr>)\<rparr>)"
  using assms
proof (induction m arbitrary: s i)
  case 0
  then show ?case by (simp add: fun_upd_idem)
next
  case (Suc m)
  let ?i = "i\<lparr>i_references := i_references i - 1\<rparr>"
  let ?s = "s\<lparr>s_heap := (s_heap s)(pa \<mapsto> ?i)\<rparr>"
  have "injection_get ?s (ic_process c) qa = Some pa" using Suc.prems(2) by (simp add: injection_get_def injections_of_def)
  then have "dep_uninject c n (replicate m qa) ?s = Inr (s\<lparr>s_heap := (s_heap s)(pa \<mapsto> i\<lparr>i_references := i_references i - 1 - of_nat m\<rparr>)\<rparr>)"
    using Suc.IH [of ?s ?i] Suc.prems by (simp del: fun_upd_apply add: fun_upd_same)
  then show ?case using Suc.prems
    by (simp add: set_references_def injection_at_def injection_is_adbi_def algebra_simps fun_upd_def)
qed

context injection_trees
begin

lemma detach_single_run:
  assumes c: "icalls_total c" "\<And>t. ic_stopped c t" and r: "detach_ready c dn qa k s"
    and q: "injection_get s (ic_process c) q = Some p" "q \<noteq> qa" and pa: "injection_get s (ic_process c) qa = Some pa" "s_heap s pa = Some ia"
  shows "\<exists>s'. injection_detach_single c (Suc n) p s = Inr s' \<and> inj_ok s' \<and> s_adbi s' = Some qa \<and> only_references (s_registry s) (s_registry s')
    \<and> s_heap s' = (s_heap s)(pa \<mapsto> ia\<lparr>i_references := i_references ia - of_nat (dn q)\<rparr>, p := None)"
proof -
  have ok: "inj_ok s" "files_ok (s_registry s)" "s_adbi s = Some qa" "others_plain c dn qa s" using r by (simp_all add: detach_ready_def)
  have ia: "i_injectable ia = qa" "i_process ia = ic_process c" using pa injection_get_heap [OF ok(1)] by auto
  obtain i x where i: "s_heap s p = Some i" "i_references i = 0" "inj_heap (s_registry s) q = Some x" "dependencies c q s = Inr (replicate (dn q) qa)"
    using ok(4) q unfolding others_plain_def by blast
  have own: "i_process i = ic_process c" "i_injectable i = q" using q(1) i(1) injection_get_heap [OF ok(1)] by auto
  have ne: "p \<noteq> pa" using i(1) pa(2) own(2) ia q(2) by auto
  obtain v t where e: "injection_exit c p s = Inr (v, s\<lparr>s_thread := t\<rparr>)"
    using call_symbol_total [OF c(1) ok(2) i(1), of x exit_name "thread_tgid c s" 0] i(3) own(2) by (auto simp: injection_exit_def)
  define s2 where "s2 = s\<lparr>s_thread := t, s_heap := (s_heap s)(pa \<mapsto> ia\<lparr>i_references := i_references ia - of_nat (dn q)\<rparr>)\<rparr>"
  have d: "dep_uninject c n (replicate (dn q) qa) (s\<lparr>s_thread := t\<rparr>) = Inr s2"
    using dep_uninject_base [of "s\<lparr>s_thread := t\<rparr>" qa c pa ia] ok(3) pa ia by (simp add: s2_def)
  have ev: "evolves s s2" using d by (rule evolving) simp
  have s2: "inj_ok s2" "s_adbi s2 = Some qa" "s_registry s2 = s_registry s" "injection_get s2 = injection_get s"
    using evolves_ok [OF ev ok(1)] ok(3) by (simp_all add: s2_def injection_get_def injections_of_def fun_eq_iff)
  obtain s' where s': "uninject c p s2 = Inr s'" "inj_ok s'" "s_heap s' = (s_heap s2)(p := None)" "only_references (s_registry s) (s_registry s')"
    using uninject_fresh [OF c(1) s2(1), of p i] s2 ok(2) i own ne q(2) pa(1) by (auto simp: s2_def injection_get_adbi_def)
  have "dependencies c q (s\<lparr>s_thread := t\<rparr>) = dependencies c q s" by (simp add: dependencies_def)
  then have run: "injection_detach_single c (Suc n) p s = Inr s'"
    using i e d s'(1) own c(2) ok(3) q(2) by (simp add: injectable_at_Some injection_is_adbi_def)
  moreover have "s_adbi s' = Some qa" using detach_single_evolves [OF run evolves_refl] ok(3) by (simp add: evolves_def)
  ultimately show ?thesis using s' by (simp add: s2_def)
qed

end

text \<open>The condition after one of the injections was removed and its dependencies were released.\<close>

lemma get_after_removal:
  assumes "inj_ok s" "inj_ok s'" "injection_get s proc0 q = Some p" "s_heap s pa = Some ia" "pa \<noteq> p"
    and "s_heap s' = (s_heap s)(pa \<mapsto> ia\<lparr>i_references := n\<rparr>, p := None)"
  shows "injection_get s' proc = (if proc = proc0 then (injection_get s proc)(q := None) else injection_get s proc)"
proof (intro ext option_eqI)
  fix q' p'
  note get = injection_get_heap [OF assms(1)]
  obtain i where i: "s_heap s p = Some i" "i_process i = proc0" "i_injectable i = q" using assms(3) get by auto
  have uniq: "p1 = p" if "s_heap s p1 = Some i1" "i_process i1 = proc0" "i_injectable i1 = q" for p1 i1
    using that assms(3) get [of proc0 q p1] by auto
  consider "p' = p" | "p' = pa" "p' \<noteq> p" | "p' \<noteq> pa" "p' \<noteq> p" by blast
  then show "injection_get s' proc q' = Some p' \<longleftrightarrow> (if proc = proc0 then (injection_get s proc)(q := None) else injection_get s proc) q' = Some p'"
  proof cases
    case 1
    then show ?thesis unfolding injection_get_heap [OF assms(2)] assms(6) using get [of proc q' p] i by auto
  next
    case 2
    then have "\<not> (i_process ia = proc0 \<and> i_injectable ia = q)" using uniq assms(4) by blast
    then show ?thesis unfolding injection_get_heap [OF assms(2)] assms(6) using get [of proc q' pa] 2 assms(4) by auto
  next
    case 3
    then show ?thesis unfolding injection_get_heap [OF assms(2)] assms(6) using get [of proc q' p'] uniq by auto
  qed
qed

lemma not_library_evolve:
  assumes "only_references w w'" "inj_heap w q = Some x" "\<not> injectable_is_library x"
  shows "\<exists>y. inj_heap w' q = Some y \<and> \<not> injectable_is_library y"
proof -
  obtain y where y: "inj_heap w' q = Some y" using only_references_fields [OF only_references_sym [OF assms(1)] assms(2)] by blast
  then have "injfile y = injfile x" using only_references_fields [OF assms(1) y] assms(2) by auto
  then show ?thesis using y assms(3) by (simp add: injectable_is_library_def)
qed

lemma others_plain_after:
  assumes "inj_ok s" "others_plain c dn qa s" "only_references (s_registry s) (s_registry s')"
    and "injection_get s (ic_process c) q = Some p" "injection_get s (ic_process c) qa = Some pa"
    and "s_heap s' = (s_heap s)(pa \<mapsto> i0, p := None)" "injection_get s' (ic_process c) = (injection_get s (ic_process c))(q := None)"
  shows "others_plain c dn qa s'"
proof (unfold others_plain_def, intro allI impI)
  fix q' p'
  assume a: "injection_get s' (ic_process c) q' = Some p'" "q' \<noteq> qa"
  then have g: "injection_get s (ic_process c) q' = Some p'" "q' \<noteq> q" using assms(7) by (auto split: if_splits)
  then obtain i' x' where i': "s_heap s p' = Some i'" "i_references i' = 0" "inj_heap (s_registry s) q' = Some x'"
    "\<not> injectable_is_library x'" "dependencies c q' s = Inr (replicate (dn q') qa)" using assms(2) a(2) unfolding others_plain_def by blast
  have "p' \<noteq> p" "p' \<noteq> pa" using assms(4,5) g a(2) by (auto simp: injection_get_heap [OF assms(1)])
  then have h: "s_heap s' p' = Some i'" using assms(6) i'(1) by simp
  obtain y where y: "inj_heap (s_registry s') q' = Some y" "\<not> injectable_is_library y" using not_library_evolve [OF assms(3) i'(3,4)] by blast
  then show "(\<exists>i x. s_heap s' p' = Some i \<and> i_references i = 0 \<and> inj_heap (s_registry s') q' = Some x \<and> \<not> injectable_is_library x)
      \<and> dependencies c q' s' = Inr (replicate (dn q') qa)"
    using h i'(2,5) y dependencies_evolve [OF assms(3)] by simp
qed

lemma base_count_after:
  assumes "inj_ok s" "q \<noteq> qa" "injection_get s (ic_process c) q = Some p" "injection_get s' (ic_process c) = (injection_get s (ic_process c))(q := None)"
  shows "base_count c dn qa s = of_nat (dn q) + base_count c dn qa s'"
proof -
  let ?D = "dom (injection_get s (ic_process c)) - {qa}"
  have "q \<in> ?D" "finite ?D" using assms(2,3) injection_get_finite [OF assms(1)] by auto
  then have "(\<Sum>q \<in> ?D. dn q) = dn q + (\<Sum>q \<in> ?D - {q}. dn q)" by (rule sum.remove [rotated])
  moreover have "dom (injection_get s' (ic_process c)) - {qa} = ?D - {q}" using assms(4) by auto
  ultimately show ?thesis unfolding base_count_def by (simp only: of_nat_add)
qed

context injection_trees
begin

lemma detach_single_plain:
  assumes c: "icalls_total c" "\<And>t. ic_stopped c t" and r: "detach_ready c dn qa k s"
    and q: "injection_get s (ic_process c) q = Some p" "q \<noteq> qa"
  shows "\<exists>s'. injection_detach_single c (Suc n) p s = Inr s' \<and> detach_ready c dn qa k s' \<and> only_references (s_registry s) (s_registry s')
    \<and> injection_get s' (ic_process c) = (injection_get s (ic_process c))(q := None)
    \<and> (\<forall>proc. proc \<noteq> ic_process c \<longrightarrow> injection_get s' proc = injection_get s proc)"
proof -
  have ok: "inj_ok s" "files_ok (s_registry s)" "others_plain c dn qa s" using r by (simp_all add: detach_ready_def)
  obtain pa ia where pa: "injection_get s (ic_process c) qa = Some pa" "s_heap s pa = Some ia" "i_references ia = k + base_count c dn qa s"
    using r by (auto simp: detach_ready_def)
  have ne: "pa \<noteq> p" using q pa(1) by (auto simp: injection_get_heap [OF ok(1)])
  obtain s' where s': "injection_detach_single c (Suc n) p s = Inr s'" "inj_ok s'" "s_adbi s' = Some qa"
    "only_references (s_registry s) (s_registry s')" "s_heap s' = (s_heap s)(pa \<mapsto> ia\<lparr>i_references := i_references ia - of_nat (dn q)\<rparr>, p := None)"
    using detach_single_run [OF c r q pa(1,2)] by blast
  note get = get_after_removal [OF ok(1) s'(2) q(1) pa(2) ne s'(5)]
  have "others_plain c dn qa s'" using others_plain_after [OF ok(1,3) s'(4) q(1) pa(1) s'(5)] get by simp
  moreover have "i_references ia - of_nat (dn q) = k + base_count c dn qa s'"
    using base_count_after [OF ok(1) q(2,1), of s' dn] get pa(3) by simp
  ultimately have "detach_ready c dn qa k s'"
    using s' get pa(1) q(2) ne files_ok_only_references [OF ok(2) s'(4)] unfolding detach_ready_def by simp
  then show ?thesis using s'(1,4) get by auto
qed

lemma detach_one_plain:
  assumes c: "icalls_total c" "\<And>t. ic_stopped c t" "0 < ic_fuel c" and r: "detach_ready c dn qa k s"
    and q: "injection_get s (ic_process c) q = Some p"
  shows "\<exists>s'. detach_one c p s = Inr s' \<and> detach_ready c dn qa k s' \<and> only_references (s_registry s) (s_registry s')
    \<and> injection_get s' (ic_process c) = (if q = qa then injection_get s (ic_process c) else (injection_get s (ic_process c))(q := None))
    \<and> (\<forall>proc. proc \<noteq> ic_process c \<longrightarrow> injection_get s' proc = injection_get s proc) \<and> (q = qa \<longrightarrow> s' = s)"
proof -
  have ok: "inj_ok s" "s_adbi s = Some qa" "others_plain c dn qa s" using r by (simp_all add: detach_ready_def)
  obtain i where i: "s_heap s p = Some i" "i_injectable i = q" using q injection_get_heap [OF ok(1)] by auto
  show ?thesis
  proof (cases "q = qa")
    case True
    then show ?thesis using i ok(2) r by (simp add: detach_one_def injectable_at_Some injection_is_adbi_def only_references_def)
  next
    case False
    then obtain x where x: "inj_heap (s_registry s) q = Some x" "\<not> injectable_is_library x" using ok(3) q unfolding others_plain_def by blast
    obtain n where n: "ic_fuel c = Suc n" using c(3) by (cases "ic_fuel c") auto
    have "detach_one c p s = injection_detach_single c (Suc n) p s"
      using i x ok(2) False n by (simp add: detach_one_def injectable_at_Some injection_is_adbi_def)
    then show ?thesis using detach_single_plain [OF c(1,2) r q False, of n] False by auto
  qed
qed

lemma tree_map_get: "inj_ok s \<Longrightarrow> tree_map (injections_of s proc) = injection_get s proc"
  using inj_okD(3) [of s proc] by (simp add: fun_eq_iff injection_get_def tree_get_map)

lemma detach_loop_plain:
  assumes c: "icalls_total c" "\<And>t. ic_stopped c t" "0 < ic_fuel c" and r: "detach_ready c dn qa k s"
  shows "\<exists>s'. iter_safe (size (injections_of s (ic_process c))) (ic_process c) (detach_one c) (first_key (injections_of s (ic_process c))) s = Inr s'
    \<and> detach_ready c dn qa k s' \<and> only_references (s_registry s) (s_registry s') \<and> dom (injection_get s' (ic_process c)) = {qa}
    \<and> (\<forall>proc. proc \<noteq> ic_process c \<longrightarrow> injection_get s' proc = injection_get s proc)"
proof -
  define J where "J = (\<lambda>pre ks s1. detach_ready c dn qa k s1 \<and> tree_keys (injections_of s1 (ic_process c)) = pre @ ks \<and> set pre \<subseteq> {qa}
    \<and> only_references (s_registry s) (s_registry s1) \<and> (\<forall>proc. proc \<noteq> ic_process c \<longrightarrow> injection_get s1 proc = injection_get s proc))"
  have ok: "tree_ok (injections_of s1 (ic_process c)) \<and> tree_keys (injections_of s1 (ic_process c)) = pre @ ks" if "J pre ks s1" for pre ks s1
    using that inj_okD(3) by (auto simp: J_def detach_ready_def)
  have step: "\<exists>s' pre'. detach_one c p s1 = Inr s' \<and> J pre' ks s'"
    if j: "J pre (q # ks) s1" and p: "tree_map (injections_of s1 (ic_process c)) q = Some p" for pre q ks s1 p
  proof -
    have r1: "detach_ready c dn qa k s1" "inj_ok s1" using j by (auto simp: J_def detach_ready_def)
    have "injection_get s1 (ic_process c) q = Some p" using p tree_map_get [OF r1(2)] by simp
    then obtain s' where s': "detach_one c p s1 = Inr s'" "detach_ready c dn qa k s'" "only_references (s_registry s1) (s_registry s')"
      "injection_get s' (ic_process c) = (if q = qa then injection_get s1 (ic_process c) else (injection_get s1 (ic_process c))(q := None))"
      "\<forall>proc. proc \<noteq> ic_process c \<longrightarrow> injection_get s' proc = injection_get s1 proc" "q = qa \<longrightarrow> s' = s1"
      using detach_one_plain [OF c r1(1)] by blast
    have "inj_ok s'" using s'(2) by (simp add: detach_ready_def)
    have keys: "tree_keys (injections_of s' (ic_process c)) = (if q = qa then (pre @ [q]) @ ks else pre @ ks)"
    proof (cases "q = qa")
      case True
      then show ?thesis using s'(6) j by (simp add: J_def)
    next
      case False
      then have "tree_map (injections_of s' (ic_process c)) = (tree_map (injections_of s1 (ic_process c)))(q := None)"
        using s'(4) tree_map_get [OF \<open>inj_ok s'\<close>] tree_map_get [OF r1(2)] by simp
      then show ?thesis using tree_keys_remove [OF inj_okD(3) [OF r1(2)] inj_okD(3) [OF \<open>inj_ok s'\<close>]] j False by (auto simp: J_def)
    qed
    then have "J (if q = qa then pre @ [q] else pre) ks s'" using j s'(2,3,5) only_references_trans by (auto simp: J_def)
    then show ?thesis using s'(1) by blast
  qed
  have start: "J [] (tree_keys (injections_of s (ic_process c))) s" using r by (simp add: J_def only_references_def)
  have len: "length (tree_keys (injections_of s (ic_process c))) \<le> size (injections_of s (ic_process c))" by (simp add: tree_keys_def)
  have "\<exists>s' pre. iter_safe (size (injections_of s (ic_process c))) (ic_process c) (detach_one c) (first_key (injections_of s (ic_process c))) s = Inr s'
    \<and> J pre [] s'" unfolding first_key_hd
    by (rule iter_safe_visits [where J = J and f = "detach_one c", OF _ _ start len]) (erule ok, erule step, assumption)
  then obtain s' pre where s': "iter_safe (size (injections_of s (ic_process c))) (ic_process c) (detach_one c) (first_key (injections_of s (ic_process c))) s = Inr s'"
    "J pre [] s'" by blast
  have "inj_ok s'" "qa \<in> dom (injection_get s' (ic_process c))" using s'(2) by (auto simp: J_def detach_ready_def)
  moreover have "dom (injection_get s' (ic_process c)) \<subseteq> {qa}" using s'(2) tree_keys_dom tree_map_get [OF calculation(1)] unfolding J_def by (metis append_Nil2)
  ultimately show ?thesis using s' unfolding J_def by blast
qed

end

section \<open>Removing the base injection\<close>

text \<open>The call that unmaps the memory of the base injection succeeds.\<close>

definition munmap_works :: "'t icalls \<Rightarrow> bool" where
  "munmap_works c \<longleftrightarrow> (\<forall>P t code ofs ctx. \<exists>ctx' t'. ic_load_call c P t code ofs ctx = Inr (True, ctx', t') \<and> fncall_get_errno (registers ctx' ! 0) = 0)"

lemma library_symbol_evolve: "only_references (s_registry s) (s_registry s') \<Longrightarrow> library_symbol s' name = library_symbol s name"
proof -
  assume r: "only_references (s_registry s) (s_registry s')"
  have "injectable_get_library (s_registry s') name = injectable_get_library (s_registry s) name"
    using first_injectable_only_references [OF r, of "has_name name"] r by (simp add: injectable_get_library_def only_references_def has_name_def)
  moreover have "res_bind (injectable_at (s_registry s') q) (\<lambda>x. res_bind (injectable_get_symbol x name) (\<lambda>ofs. Inr (q, ofs))) =
      res_bind (injectable_at (s_registry s) q) (\<lambda>x. res_bind (injectable_get_symbol x name) (\<lambda>ofs. Inr (q, ofs)))" for q
    by (rule injectable_at_bind [OF r]) (simp add: injectable_get_symbol_def)
  ultimately show ?thesis by (simp add: library_symbol_def cong: option.case_cong)
qed

lemma load_call_munmap:
  assumes "munmap_works c" "inj_heap (s_registry s) m = Some x" "no_fault (injfile_code (injfile x))"
  shows "\<exists>v t. load_call c m ofs args s = Inr (Some v, s\<lparr>s_thread := t\<rparr>) \<and> fncall_get_errno v = 0"
proof -
  obtain code where code: "injfile_code (injfile x) = Inr code" using assms(3) by (auto simp: no_fault_def)
  obtain ctx t where "ic_load_call c (\<lambda>a. injection_get_by_address s (ic_process c) a \<noteq> Inr None) (s_thread s) code (of_int ofs)
      \<lparr>registers = args, stack = []\<rparr> = Inr (True, ctx, t)" "fncall_get_errno (registers ctx ! 0) = 0"
    using assms(1) unfolding munmap_works_def by blast
  then show ?thesis using assms(2) code by (auto simp: load_call_def injectable_at_Some)
qed

context injection_trees
begin

lemma uninject_adbi_ready:
  assumes c: "icalls_total c" "\<And>t. ic_stopped c t" "munmap_works c" and r: "detach_ready c dn qa k s" and only: "dom (injection_get s (ic_process c)) = {qa}"
    and l: "library_symbol s adbi_munmap_name = Inr (m, ofs)" "ofs \<noteq> 0"
  shows "if k = 1 then \<exists>s'. uninject_adbi c s = Inr (True, s') \<and> injection_get s' (ic_process c) = Map.empty
      \<and> (\<forall>proc. proc \<noteq> ic_process c \<longrightarrow> injection_get s' proc = injection_get s proc)
    else uninject_adbi c s = Inl Assertion"
proof -
  have ok: "inj_ok s" "files_ok (s_registry s)" "s_adbi s = Some qa" using r by (simp_all add: detach_ready_def)
  obtain pa ia where pa: "injection_get s (ic_process c) qa = Some pa" "s_heap s pa = Some ia" "i_references ia = k"
    using r only by (auto simp: detach_ready_def base_count_def)
  have ia: "i_injectable ia = qa" "i_process ia = ic_process c" using pa(1,2) injection_get_heap [OF ok(1)] by auto
  obtain x where x: "inj_heap (s_registry s) qa = Some x" using ok(1) pa(2) ia(1) unfolding inj_ok_def by blast
  obtain y where "inj_heap (s_registry s) m = Some y" using l(1) by (auto simp: library_symbol_def elim!: res_bindE split: option.splits)
  then have y: "inj_heap (s_registry s) m = Some y" "no_fault (injfile_code (injfile y))" using ok(2) by (auto simp: files_ok_def file_ok_def)
  obtain v t where e: "injection_exit c pa s = Inr (v, s\<lparr>s_thread := t\<rparr>)"
    using call_symbol_total [OF c(1) ok(2) pa(2), of x exit_name "thread_tgid c s" 0] x ia(1) by (auto simp: injection_exit_def)
  obtain w t' where u: "load_call c m ofs [i_address ia, fncall_align_to_page (ic_pagesize c) (inj_code_size (injfile x)), 0, 0] (s\<lparr>s_thread := t\<rparr>) = Inr (Some w, s\<lparr>s_thread := t'\<rparr>)"
    "fncall_get_errno w = 0" 
    using load_call_munmap [OF c(3), of "s\<lparr>s_thread := t\<rparr>" m y ofs "[i_address ia, fncall_align_to_page (ic_pagesize c) (inj_code_size (injfile x)), 0, 0]"] y by auto
  define s2 where "s2 = s\<lparr>s_thread := t', s_heap := (s_heap s)(pa \<mapsto> ia\<lparr>i_references := k - 1\<rparr>)\<rparr>"
  have sr: "set_references (s\<lparr>s_thread := t'\<rparr>) pa (\<lambda>n. n - 1) = Inr s2" using pa by (auto simp: set_references_Inr s2_def)
  have e2: "uninject_adbi c s = (if k = 1 then res_bind (injection_free c s2 pa) (\<lambda>s. Inr (True, s)) else Inl Assertion)"
    using l c(2) ok(3) pa x e u sr by (simp add: uninject_adbi_def injectable_at_Some code_size_of_def s2_def)
  show ?thesis
  proof (cases "k = 1")
    case True
    have ok2: "inj_ok s2" using evolves_ok [OF set_references_evolves [OF sr evolves_thread] ok(1)] .
    obtain s' where s': "injection_free c s2 pa = Inr s'" using injection_free_total [OF ok2, of pa] by (auto simp: s2_def)
    have h: "inj_ok s'" "s_heap s' = (s_heap s)(pa := None)" using injection_free_spec [OF s' ok2] by (auto simp: s2_def)
    have "injection_get s' proc = (if proc = ic_process c then (injection_get s proc)(qa := None) else injection_get s proc)" for proc
    proof (intro ext option_eqI)
      fix q p
      show "injection_get s' proc q = Some p \<longleftrightarrow> (if proc = ic_process c then (injection_get s proc)(qa := None) else injection_get s proc) q = Some p"
        unfolding injection_get_heap [OF h(1)] h(2) using injection_get_heap [OF ok(1), of proc q p] pa(1,2) ia by auto
    qed
    moreover have "(injection_get s (ic_process c))(qa := None) = Map.empty" using only by (auto simp: fun_eq_iff dom_def)
    ultimately show ?thesis using True e2 s' by simp
  qed (simp add: e2)
qed

lemma injection_detach_ready:
  assumes c: "icalls_total c" "\<And>t. ic_stopped c t" "0 < ic_fuel c" "munmap_works c" and r: "detach_ready c dn qa k s"
    and l: "library_symbol s adbi_munmap_name = Inr (m, ofs)" "ofs \<noteq> 0"
  shows "if k = 1 then \<exists>s'. injection_detach c s = Inr (True, s') \<and> injection_get s' (ic_process c) = Map.empty
      \<and> (\<forall>proc. proc \<noteq> ic_process c \<longrightarrow> injection_get s' proc = injection_get s proc)
    else injection_detach c s = Inl Assertion"
proof -
  obtain s1 where s1: "iter_safe (size (injections_of s (ic_process c))) (ic_process c) (detach_one c) (first_key (injections_of s (ic_process c))) s = Inr s1"
    "detach_ready c dn qa k s1" "only_references (s_registry s) (s_registry s1)" "dom (injection_get s1 (ic_process c)) = {qa}"
    "\<forall>proc. proc \<noteq> ic_process c \<longrightarrow> injection_get s1 proc = injection_get s proc"
    using detach_loop_plain [OF c(1-3) r] by blast
  have "injection_detach c s = uninject_adbi c s1" using s1(1) by (simp add: injection_detach_def)
  then show ?thesis using uninject_adbi_ready [OF c(1,2,4) s1(2,4)] l library_symbol_evolve [OF s1(3)] s1(5) by (auto split: if_splits)
qed

end

section \<open>Forking\<close>

text \<open>The copy of an injection in the child.\<close>

definition injectable_library :: "'t istate \<Rightarrow> nat \<Rightarrow> bool" where
  "injectable_library s q \<longleftrightarrow> (\<exists>x. inj_heap (s_registry s) q = Some x \<and> injectable_is_library x)"

definition fork_copy :: "'t istate \<Rightarrow> nat \<Rightarrow> injection_t \<Rightarrow> injection_t" where
  "fork_copy s child i = \<lparr>i_process = child, i_address = i_address i, i_injectable = i_injectable i,
     i_references = if s_adbi s = Some (i_injectable i) then 1 else if injectable_library s (i_injectable i) then i_references i else 0\<rparr>"

lemma injectable_library_evolve:
  assumes "only_references (s_registry s) (s_registry s')"
  shows "injectable_library s' q = injectable_library s q"
  using only_references_fields [OF assms] only_references_fields [OF only_references_sym [OF assms]]
  unfolding injectable_library_def injectable_is_library_def by metis

context injection_trees
begin

lemma fork_one_spec:
  assumes ok: "inj_ok s" and i: "s_heap s p = Some i" "injection_get s child (i_injectable i) = None"
  shows "\<exists>p' s'. fork_one c child p s = Inr s' \<and> inj_ok s' \<and> s_adbi s' = s_adbi s \<and> only_references (s_registry s) (s_registry s')
    \<and> s_heap s p' = None \<and> s_heap s' = (s_heap s)(p' \<mapsto> fork_copy s child i)"
proof -
  obtain x where x: "inj_heap (s_registry s) (i_injectable i) = Some x" using ok i(1) unfolding inj_ok_def by blast
  obtain p' s1 where s1: "injection_create c s child (i_injectable i) (i_address i) = Inr (p', s1)" using injection_create_total [OF ok x i(2)] by blast
  note cs = injection_create_spec [OF s1 ok]
  have fresh: "s_heap s p' = None" using cs inj_okD(2) [OF ok] by (metis domI not_None_eq order_less_irrefl)
  obtain y where y: "inj_heap (s_registry s1) (i_injectable i) = Some y" using cs unfolding inj_ok_def by (metis fun_upd_same injection_t.select_convs(3) not_None_eq)
  have lib: "injectable_library s (i_injectable i) = injectable_is_library y"
  proof -
    have "injectable_library s1 (i_injectable i) = injectable_is_library y" by (simp add: injectable_library_def y)
    then show ?thesis using injectable_library_evolve [of s s1] cs by simp
  qed
  define n where "n = i_references (fork_copy s child i)"
  have c: "fork_copy s child i = \<lparr>i_process = child, i_address = i_address i, i_injectable = i_injectable i, i_references = n\<rparr>"
    by (simp add: n_def fork_copy_def)
  obtain s' f where s': "fork_one c child p s = Inr s'" "set_references s1 p' f = Inr s'" "f 0 = n"
  proof (cases "s_adbi s = Some (i_injectable i) \<or> injectable_library s (i_injectable i)")
    case True
    then show ?thesis
      using that [of "s1\<lparr>s_heap := (s_heap s1)(p' \<mapsto> \<lparr>i_process = child, i_address = i_address i, i_injectable = i_injectable i, i_references = n\<rparr>)\<rparr>" "\<lambda>_. n"]
        s1 cs i(1) y lib by (auto simp: fork_one_def injectable_at_Some injection_is_adbi_def set_references_def n_def fork_copy_def)
  next
    case False
    then show ?thesis using that [of s1 "\<lambda>_. 0"] s1 cs i(1) y lib
      by (auto simp: fork_one_def injectable_at_Some injection_is_adbi_def set_references_def n_def fork_copy_def fun_upd_idem)
  qed
  have "evolves s s'" using set_references_evolves [OF s'(2) injection_create_evolves [OF s1 evolves_refl]] .
  moreover have "s_heap s' = (s_heap s)(p' \<mapsto> fork_copy s child i)" using s'(2,3) cs by (auto simp: set_references_Inr c)
  ultimately show ?thesis using s'(1) fresh ok by (auto simp: evolves_def)
qed

lemma fork_iter_spec:
  assumes "inj_ok s" "\<forall>p \<in> set ps. \<exists>i. s_heap s p = Some i \<and> injection_get s child (i_injectable i) = None"
    and "distinct (map (\<lambda>p. i_injectable (the (s_heap s p))) ps)"
  shows "\<exists>s'. injection_iter (fork_one c child) ps s = Inr s' \<and> inj_ok s' \<and> s_adbi s' = s_adbi s \<and> only_references (s_registry s) (s_registry s')
    \<and> s_heap s \<subseteq>\<^sub>m s_heap s'
    \<and> (\<forall>p i. s_heap s' p = Some i \<longrightarrow> s_heap s p = None \<longrightarrow> (\<exists>p0 \<in> set ps. \<exists>i0. s_heap s p0 = Some i0 \<and> i = fork_copy s child i0))
    \<and> (\<forall>p0 \<in> set ps. \<forall>i0. s_heap s p0 = Some i0 \<longrightarrow> (\<exists>p. s_heap s' p = Some (fork_copy s child i0)))"
  using assms
proof (induction ps arbitrary: s)
  case Nil
  then show ?case by (simp add: only_references_def)
next
  case (Cons p ps)
  obtain i where i: "s_heap s p = Some i" "injection_get s child (i_injectable i) = None" using Cons.prems(2) by auto
  obtain p' s1 where s1: "fork_one c child p s = Inr s1" "inj_ok s1" "s_adbi s1 = s_adbi s" "only_references (s_registry s) (s_registry s1)"
    "s_heap s p' = None" "s_heap s1 = (s_heap s)(p' \<mapsto> fork_copy s child i)" using fork_one_spec [OF Cons.prems(1) i] by blast
  have fc: "fork_copy s1 child = fork_copy s child" using s1(3) injectable_library_evolve [OF s1(4)] by (auto simp: fork_copy_def fun_eq_iff)
  have old: "s_heap s1 r = Some j" if "s_heap s r = Some j" for r j using that s1(5,6) by auto
  have pre: "\<exists>j. s_heap s r = Some j \<and> s_heap s1 r = Some j \<and> injection_get s1 child (i_injectable j) = None" if r: "r \<in> set ps" for r
  proof -
    obtain j where j: "s_heap s r = Some j" "injection_get s child (i_injectable j) = None" using Cons.prems(2) r by auto
    have "i_injectable j \<noteq> i_injectable i" using Cons.prems(3) i(1) j(1) r by (force simp: image_iff)
    then have "injection_get s1 child (i_injectable j) \<noteq> Some p1" for p1
      using injection_get_heap [OF Cons.prems(1), of child "i_injectable j" p1] injection_get_heap [OF s1(2), of child "i_injectable j" p1] j(2) s1(6)
      by (auto simp: fork_copy_def split: if_splits)
    then show ?thesis using j(1) old by blast
  qed
  have same: "i_injectable (the (s_heap s1 r)) = i_injectable (the (s_heap s r))" if "r \<in> set ps" for r using pre [OF that] by auto
  then have "distinct (map (\<lambda>p. i_injectable (the (s_heap s1 p))) ps)" using Cons.prems(3) by (simp cong: map_cong)
  moreover have "\<forall>p \<in> set ps. \<exists>i. s_heap s1 p = Some i \<and> injection_get s1 child (i_injectable i) = None" using pre by blast
  ultimately obtain s' where s': "injection_iter (fork_one c child) ps s1 = Inr s'" "inj_ok s'" "s_adbi s' = s_adbi s1"
    "only_references (s_registry s1) (s_registry s')" "s_heap s1 \<subseteq>\<^sub>m s_heap s'"
    "\<forall>p i. s_heap s' p = Some i \<longrightarrow> s_heap s1 p = None \<longrightarrow> (\<exists>p0 \<in> set ps. \<exists>i0. s_heap s1 p0 = Some i0 \<and> i = fork_copy s child i0)"
    "\<forall>p0 \<in> set ps. \<forall>i0. s_heap s1 p0 = Some i0 \<longrightarrow> (\<exists>p. s_heap s' p = Some (fork_copy s child i0))"
    using Cons.IH [OF s1(2)] unfolding fc by blast
  have at: "s_heap s' p' = Some (fork_copy s child i)" using s'(5) s1(6) unfolding map_le_def by (metis domI fun_upd_same)
  have "s_heap s \<subseteq>\<^sub>m s_heap s1" using s1(5,6) by (auto simp: map_le_def)
  then have le: "s_heap s \<subseteq>\<^sub>m s_heap s'" using s'(5) map_le_trans by blast
  have new: "\<exists>p0 \<in> set (p # ps). \<exists>i0. s_heap s p0 = Some i0 \<and> j = fork_copy s child i0" if r: "s_heap s' r = Some j" "s_heap s r = None" for r j
  proof (cases "r = p'")
    case True
    then show ?thesis using at r(1) i(1) by auto
  next
    case False
    then have "s_heap s1 r = None" using r(2) s1(6) by simp
    then obtain p0 i0 where "p0 \<in> set ps" "s_heap s1 p0 = Some i0" "j = fork_copy s child i0" using s'(6) r(1) by blast
    moreover have "s_heap s p0 = Some i0" using pre [of p0] calculation by auto
    ultimately show ?thesis by auto
  qed
  have "\<exists>r. s_heap s' r = Some (fork_copy s child i0)" if "p0 \<in> set (p # ps)" "s_heap s p0 = Some i0" for p0 i0
    using that at i(1) s'(7) old by auto
  then show ?case using s1(1,3) s' le new only_references_trans [OF s1(4) s'(4)] by auto
qed

lemma parent_values:
  assumes "inj_ok s"
  shows "distinct (map (\<lambda>p. i_injectable (the (s_heap s p))) (tree_vals (injections_of s proc)))"
    and "p \<in> set (tree_vals (injections_of s proc)) \<longleftrightarrow> (\<exists>i. s_heap s p = Some i \<and> i_process i = proc)"
proof -
  have t: "tree_ok (injections_of s proc)" using inj_okD(3) [OF assms] .
  have k: "i_injectable (the (s_heap s (snd e))) = fst e" if "e \<in> set (inorder (injections_of s proc))" for e
    using that tree_ok_map_entry [OF t, of "fst e" "snd e"] inj_okD(4) [OF assms, of proc "fst e" "snd e"] by auto
  have "map (\<lambda>p. i_injectable (the (s_heap s p))) (tree_vals (injections_of s proc)) = map fst (inorder (injections_of s proc))"
    using k by (simp add: tree_vals_inorder)
  then show "distinct (map (\<lambda>p. i_injectable (the (s_heap s p))) (tree_vals (injections_of s proc)))"
    using t by (simp add: tree_ok_def strict_sorted_iff)
  show "p \<in> set (tree_vals (injections_of s proc)) \<longleftrightarrow> (\<exists>i. s_heap s p = Some i \<and> i_process i = proc)"
    unfolding tree_vals_map [OF t] inj_okD(4) [OF assms] by blast
qed

lemma fork_spec:
  assumes ok: "inj_ok s" and child: "injection_get s child = Map.empty" "child \<noteq> parent"
  shows "\<exists>s1. injection_fork c child parent s = Inr s1 \<and> inj_ok s1 \<and> s_adbi s1 = s_adbi s \<and> only_references (s_registry s) (s_registry s1)
    \<and> dom (injection_get s1 child) = dom (injection_get s parent)
    \<and> (\<forall>q p. injection_get s1 child q = Some p \<longrightarrow> (\<exists>p0 i0. injection_get s parent q = Some p0 \<and> s_heap s p0 = Some i0 \<and> s_heap s1 p = Some (fork_copy s child i0)))"
proof -
  note get = injection_get_heap [OF ok]
  note vals = parent_values [OF ok, where proc = parent]
  have pre: "\<forall>p \<in> set (tree_vals (injections_of s parent)). \<exists>i. s_heap s p = Some i \<and> injection_get s child (i_injectable i) = None"
    using vals(2) child(1) by auto
  obtain s1 where s1: "injection_fork c child parent s = Inr s1" "inj_ok s1" "s_adbi s1 = s_adbi s" "only_references (s_registry s) (s_registry s1)"
    "s_heap s \<subseteq>\<^sub>m s_heap s1"
    "\<forall>p i. s_heap s1 p = Some i \<longrightarrow> s_heap s p = None \<longrightarrow> (\<exists>p0 \<in> set (tree_vals (injections_of s parent)). \<exists>i0. s_heap s p0 = Some i0 \<and> i = fork_copy s child i0)"
    "\<forall>p0 \<in> set (tree_vals (injections_of s parent)). \<forall>i0. s_heap s p0 = Some i0 \<longrightarrow> (\<exists>p. s_heap s1 p = Some (fork_copy s child i0))"
    using fork_iter_spec [OF ok pre vals(1)] unfolding injection_fork_def by blast
  have copy: "\<exists>p0 i0. injection_get s parent q = Some p0 \<and> s_heap s p0 = Some i0 \<and> s_heap s1 p = Some (fork_copy s child i0)"
    if p: "injection_get s1 child q = Some p" for q p
  proof -
    obtain i where i: "s_heap s1 p = Some i" "i_process i = child" "i_injectable i = q" using p injection_get_heap [OF s1(2)] by auto
    have "s_heap s p = None"
    proof (rule ccontr)
      assume "s_heap s p \<noteq> None"
      then have "s_heap s p = Some i" using s1(5) i(1) unfolding map_le_def by force
      then show False using get [of child q p] i child(1) by auto
    qed
    then obtain p0 i0 where p0: "p0 \<in> set (tree_vals (injections_of s parent))" "s_heap s p0 = Some i0" "i = fork_copy s child i0" using s1(6) i(1) by blast
    then have "injection_get s parent q = Some p0" using get [of parent q p0] vals(2) i(3) by (auto simp: fork_copy_def)
    then show ?thesis using p0 i(1) by blast
  qed
  have "q \<in> dom (injection_get s1 child)" if q: "q \<in> dom (injection_get s parent)" for q
  proof -
    obtain p0 where p0: "injection_get s parent q = Some p0" using q by auto
    then obtain i0 where i0: "s_heap s p0 = Some i0" "i_process i0 = parent" "i_injectable i0 = q" using get by auto
    then obtain p where "s_heap s1 p = Some (fork_copy s child i0)" using s1(7) vals(2) by blast
    then show ?thesis using injection_get_heap [OF s1(2), of child q p] i0(3) by (auto simp: fork_copy_def)
  qed
  then have "dom (injection_get s1 child) = dom (injection_get s parent)" using copy by blast
  then show ?thesis using s1(1-4) copy by blast
qed

lemma fork_ready:
  assumes r: "detach_ready c dn qa k s" and child: "injection_get s child = Map.empty" "child \<noteq> ic_process c"
    and c': "ic_process c' = child" "ic_deps c' = ic_deps c" "ic_fuel c' = ic_fuel c"
  shows "\<exists>s1. injection_fork c child (ic_process c) s = Inr s1 \<and> detach_ready c' dn qa (1 - base_count c dn qa s) s1 \<and> only_references (s_registry s) (s_registry s1)"
proof -
  have ok: "inj_ok s" "files_ok (s_registry s)" "s_adbi s = Some qa" "others_plain c dn qa s" using r by (simp_all add: detach_ready_def)
  obtain s1 where s1: "injection_fork c child (ic_process c) s = Inr s1" "inj_ok s1" "s_adbi s1 = s_adbi s" "only_references (s_registry s) (s_registry s1)"
    "dom (injection_get s1 child) = dom (injection_get s (ic_process c))"
    "\<forall>q p. injection_get s1 child q = Some p \<longrightarrow> (\<exists>p0 i0. injection_get s (ic_process c) q = Some p0 \<and> s_heap s p0 = Some i0 \<and> s_heap s1 p = Some (fork_copy s child i0))"
    using fork_spec [OF ok(1) child] by blast
  have deps: "dependencies c' q s1 = dependencies c q s" for q
    using dependencies_evolve [OF s1(4), of c q] c'(2,3) by (simp add: dependencies_def)
  have "others_plain c' dn qa s1"
  proof (unfold others_plain_def, intro allI impI)
    fix q p
    assume q: "injection_get s1 (ic_process c') q = Some p" "q \<noteq> qa"
    obtain p0 i0 where p0: "injection_get s (ic_process c) q = Some p0" "s_heap s p0 = Some i0" "s_heap s1 p = Some (fork_copy s child i0)"
      using s1(6) q(1) c'(1) by blast
    obtain x where x: "inj_heap (s_registry s) q = Some x" "\<not> injectable_is_library x" "dependencies c q s = Inr (replicate (dn q) qa)"
      using ok(4) p0(1) q(2) unfolding others_plain_def by blast
    have "i_injectable i0 = q" using p0(1,2) injection_get_heap [OF ok(1)] by auto
    then have "i_references (fork_copy s child i0) = 0" using x(1,2) ok(3) q(2) by (simp add: fork_copy_def injectable_library_def)
    moreover obtain y where y: "inj_heap (s_registry s1) q = Some y" "\<not> injectable_is_library y"
      using not_library_evolve [OF s1(4) x(1,2)] by blast
    ultimately show "(\<exists>i x. s_heap s1 p = Some i \<and> i_references i = 0 \<and> inj_heap (s_registry s1) q = Some x \<and> \<not> injectable_is_library x)
        \<and> dependencies c' q s1 = Inr (replicate (dn q) qa)" using p0(3) x(3) deps by simp
  qed
  moreover have "\<exists>pa i. injection_get s1 (ic_process c') qa = Some pa \<and> s_heap s1 pa = Some i \<and> i_references i = 1"
  proof -
    have "qa \<in> dom (injection_get s1 child)" using s1(5) r by (auto simp: detach_ready_def)
    then obtain pa where pa: "injection_get s1 child qa = Some pa" by auto
    then obtain p0 i0 where p0: "injection_get s (ic_process c) qa = Some p0" "s_heap s p0 = Some i0" "s_heap s1 pa = Some (fork_copy s child i0)" using s1(6) by blast
    then have "i_injectable i0 = qa" using injection_get_heap [OF ok(1)] by auto
    then show ?thesis using pa p0(3) c'(1) ok(3) by (simp add: fork_copy_def)
  qed
  moreover have "base_count c' dn qa s1 = base_count c dn qa s" using s1(5) c'(1) by (simp add: base_count_def)
  ultimately have "detach_ready c' dn qa (1 - base_count c dn qa s) s1"
    using s1(2,3) ok(3) files_ok_only_references [OF ok(2) s1(4)] by (simp add: detach_ready_def)
  then show ?thesis using s1(1,4) by blast
qed

end

section \<open>Dependencies of dependencies\<close>

lemma dependencies_thread [simp]: "dependencies c q (s\<lparr>s_thread := t\<rparr>) = dependencies c q s"
  by (simp add: dependencies_def)

lemma injection_exit_total:
  assumes "icalls_total c" "inj_ok s" "files_ok (s_registry s)" "s_heap s p = Some i"
  shows "\<exists>v t. injection_exit c p s = Inr (v, s\<lparr>s_thread := t\<rparr>)"
proof -
  obtain x where "inj_heap (s_registry s) (i_injectable i) = Some x" using assms(2,4) unfolding inj_ok_def by blast
  then show ?thesis using call_symbol_total [OF assms(1,3,4), of x exit_name "thread_tgid c s" 0] by (auto simp: injection_exit_def)
qed

text \<open>The beginning of \<^verbatim>\<open>injection_detach_single\<close>, up to the dependencies.\<close>

lemma detach_single_begin:
  assumes "icalls_total c" "\<And>t. ic_stopped c t" "inj_ok s" "files_ok (s_registry s)"
    and "injection_get s (ic_process c) q = Some p" "s_heap s p = Some i" "i_references i = 0" "s_adbi s \<noteq> Some q" "dependencies c q s = Inr qs"
  shows "\<exists>t. injection_detach_single c (Suc n) p s = res_bind (dep_uninject c n qs (s\<lparr>s_thread := t\<rparr>)) (uninject c p)"
proof -
  have own: "i_process i = ic_process c" "i_injectable i = q" using assms(5,6) injection_get_heap [OF assms(3)] by auto
  obtain v t where "injection_exit c p s = Inr (v, s\<lparr>s_thread := t\<rparr>)" using injection_exit_total [OF assms(1,3,4,6)] by blast
  then show ?thesis using assms own by (auto simp: injectable_at_Some injection_is_adbi_def)
qed

lemma release_spec:
  assumes "inj_ok s" "s_heap s p = Some i"
  shows "\<exists>s'. set_references s p (\<lambda>n. n - 1) = Inr s' \<and> inj_ok s' \<and> s_adbi s' = s_adbi s \<and> s_registry s' = s_registry s
    \<and> injection_get s' = injection_get s \<and> s_heap s' = (s_heap s)(p \<mapsto> i\<lparr>i_references := i_references i - 1\<rparr>)"
proof -
  let ?s = "s\<lparr>s_heap := (s_heap s)(p \<mapsto> i\<lparr>i_references := i_references i - 1\<rparr>)\<rparr>"
  have r: "set_references s p (\<lambda>n. n - 1) = Inr ?s" using assms(2) by (simp add: set_references_Inr)
  have "inj_ok ?s" using evolves_ok [OF set_references_evolves [OF r evolves_refl] assms(1)] .
  then show ?thesis using r by (simp add: injection_get_def injections_of_def fun_eq_iff)
qed

context injection_trees
begin

text \<open>A dependency with one user and no dependencies of its own is removed.\<close>

lemma detach_leaf:
  assumes c: "icalls_total c" "\<And>t. ic_stopped c t" and ok: "inj_ok s" "files_ok (s_registry s)" and base: "injection_get_adbi s (ic_process c) \<noteq> None"
    and p: "injection_get s (ic_process c) q = Some p" "s_heap s p = Some i" "i_references i = 0" "s_adbi s \<noteq> Some q" "dependencies c q s = Inr []"
  shows "\<exists>s'. injection_detach_single c (Suc n) p s = Inr s' \<and> inj_ok s' \<and> s_adbi s' = s_adbi s \<and> only_references (s_registry s) (s_registry s')
    \<and> s_heap s' = (s_heap s)(p := None)"
proof -
  have own: "i_process i = ic_process c" "i_injectable i = q" using p(1,2) injection_get_heap [OF ok(1)] by auto
  obtain t where t: "injection_detach_single c (Suc n) p s = res_bind (dep_uninject c n [] (s\<lparr>s_thread := t\<rparr>)) (uninject c p)"
    using detach_single_begin [OF c ok p] by blast
  obtain s' where s': "uninject c p (s\<lparr>s_thread := t\<rparr>) = Inr s'" "inj_ok s'" "s_heap s' = (s_heap s)(p := None)" "only_references (s_registry s) (s_registry s')"
    using uninject_fresh [OF c(1), of "s\<lparr>s_thread := t\<rparr>" p i] ok p base own by auto
  have run: "injection_detach_single c (Suc n) p s = Inr s'" using t s'(1) by simp
  then have "s_adbi s' = s_adbi s" using detach_single_evolves [OF run evolves_refl] by (simp add: evolves_def)
  then show ?thesis using run s' by blast
qed

lemma nested_crash:
  assumes c: "icalls_total c" "\<And>t. ic_stopped c t" and ok: "inj_ok s" "files_ok (s_registry s)" and base: "injection_get_adbi s (ic_process c) \<noteq> None"
    and deps: "dependencies c q s = Inr [e, d]" "dependencies c d s = Inr [e]" "dependencies c e s = Inr []"
    and new: "s_adbi s \<noteq> Some q" "s_adbi s \<noteq> Some d" "s_adbi s \<noteq> Some e" "d \<noteq> e"
    and q: "injection_get s (ic_process c) q = Some p" "s_heap s p = Some i" "i_references i = 0"
    and d: "injection_get s (ic_process c) d = Some pd" "s_heap s pd = Some jd" "i_references jd = 1"
    and e: "injection_get s (ic_process c) e = Some pe" "s_heap s pe = Some je" "i_references je = 1"
  shows "injection_detach_single c (Suc (Suc n)) p s = Inl Null_Pointer"
proof -
  obtain t where t: "injection_detach_single c (Suc (Suc n)) p s = res_bind (dep_uninject c (Suc n) [e, d] (s\<lparr>s_thread := t\<rparr>)) (uninject c p)"
    using detach_single_begin [OF c ok q new(1) deps(1)] by blast
  let ?s0 = "s\<lparr>s_thread := t\<rparr>"
  obtain s1 where s1: "set_references ?s0 pe (\<lambda>n. n - 1) = Inr s1" "inj_ok s1" "s_adbi s1 = s_adbi s" "s_registry s1 = s_registry s"
    "injection_get s1 = injection_get s" "s_heap s1 = (s_heap s)(pe \<mapsto> je\<lparr>i_references := i_references je - 1\<rparr>)"
    using release_spec [of ?s0 pe je] ok(1) e(2) by auto
  let ?je = "je\<lparr>i_references := i_references je - 1\<rparr>"
  have pe: "s_heap s1 pe = Some ?je" "i_references ?je = 0" using s1(6) e(3) by simp_all
  have base1: "injection_get_adbi s1 (ic_process c) \<noteq> None" using base s1(3,5) by (simp add: injection_get_adbi_def split: option.splits)
  have deps1: "dependencies c q' s1 = dependencies c q' s" for q' using s1(4) by (simp add: dependencies_def)
  obtain s2 where s2: "injection_detach_single c (Suc n) pe s1 = Inr s2" "inj_ok s2" "s_adbi s2 = s_adbi s1"
    "only_references (s_registry s1) (s_registry s2)" "s_heap s2 = (s_heap s1)(pe := None)"
    using detach_leaf [OF c s1(2) _ base1, of e pe ?je n] ok(2) s1 pe e(1) new(3) deps(3) deps1 by auto
  have ne: "pd \<noteq> pe" using d(1) e(1) new(4) by (auto simp: injection_get_heap [OF ok(1)])
  have own: "i_process jd = ic_process c" "i_injectable jd = d" "i_injectable je = e" "i_process je = ic_process c"
    using d(1,2) e(1,2) injection_get_heap [OF ok(1)] by auto
  have pd2: "s_heap s2 pd = Some jd" using s2(5) s1(6) ne d(2) by simp
  then have get2: "injection_get s2 (ic_process c) d = Some pd" using injection_get_heap [OF s2(2)] own by blast
  have gone: "injection_get s2 (ic_process c) e = None"
  proof (rule ccontr)
    assume "injection_get s2 (ic_process c) e \<noteq> None"
    then obtain p' j where j: "s_heap s2 p' = Some j" "i_process j = ic_process c" "i_injectable j = e" using injection_get_heap [OF s2(2)] by blast
    then have "s_heap s p' = Some j" "p' \<noteq> pe" using s2(5) s1(6) by (auto split: if_splits)
    then show False using j(2,3) e(1) injection_get_heap [OF ok(1), of "ic_process c" e p'] by auto
  qed
  obtain s3 where s3: "set_references s2 pd (\<lambda>n. n - 1) = Inr s3" "inj_ok s3" "s_adbi s3 = s_adbi s2" "s_registry s3 = s_registry s2"
    "injection_get s3 = injection_get s2" "s_heap s3 = (s_heap s2)(pd \<mapsto> jd\<lparr>i_references := i_references jd - 1\<rparr>)"
    using release_spec [OF s2(2) pd2] by blast
  let ?jd = "jd\<lparr>i_references := i_references jd - 1\<rparr>"
  have pd3: "s_heap s3 pd = Some ?jd" "i_references ?jd = 0" using s3(6) d(3) by simp_all
  have deps3: "dependencies c d s3 = Inr [e]" using dependencies_evolve [OF s2(4), of c d] s3(4) deps1 deps(2) by (simp add: dependencies_def)
  have files3: "files_ok (s_registry s3)" using files_ok_only_references [OF _ s2(4)] ok(2) s1(4) s3(4) by simp
  obtain t3 where "injection_detach_single c (Suc n) pd s3 = res_bind (dep_uninject c n [e] (s3\<lparr>s_thread := t3\<rparr>)) (uninject c pd)"
    using detach_single_begin [OF c s3(2) files3 _ pd3 _ deps3] get2 s3(3,5) s2(3) s1(3) new(2) by auto
  moreover have "dep_uninject c n [e] (s3\<lparr>s_thread := t3\<rparr>) = Inl Null_Pointer" using gone s3(5) by simp
  ultimately have "injection_detach_single c (Suc n) pd s3 = Inl Null_Pointer" by simp
  then have "dep_uninject c (Suc n) [e, d] ?s0 = Inl Null_Pointer"
    using s1(1,3) s2 s3 pe pd3 e(1) get2 own new(2,3) by (simp add: injectable_at_Some injection_is_adbi_def)
  then show ?thesis using t by simp
qed

end

section \<open>A small registry\<close>

text \<open>Whether a list of symbols ends within the file, as the search for a symbol needs it.\<close>

function symbols_end :: "bytes \<Rightarrow> nat \<Rightarrow> bool" where
  "symbols_end b p = (if length b \<le> p then False else if b ! p = 0 then True else if length b < p + 32 then False else symbols_end b (p + 32))"
  by pat_completeness auto
termination by (relation "measure (\<lambda>(b, p). length b - p)") auto

declare symbols_end.simps [simp del]

lemma strncmp_total: "n \<le> length ys \<Longrightarrow> no_fault (strncmp_eq n (name @ [0]) ys)"
proof (induction n arbitrary: name ys)
  case (Suc n)
  then obtain y zs where "ys = y # zs" "n \<le> length zs" by (cases ys) auto
  then show ?case using Suc.IH by (cases name) (auto simp: no_fault_def)
qed simp

lemma get_symbol_total: "symbols_end b p \<Longrightarrow> no_fault (get_symbol b p name)"
proof (induction b p rule: symbols_end.induct)
  case (1 b p)
  note e = 1(2) [unfolded symbols_end.simps [of b p]]
  show ?case
  proof (cases "b ! p = 0")
    case True
    then show ?thesis using e by (subst get_symbol.simps) (simp split: if_splits)
  next
    case False
    then have "no_fault (strncmp_eq 28 (name @ [0]) (drop p b))" "no_fault (get_symbol b (p + 32) name)"
      using e 1(1) by (auto intro: strncmp_total split: if_splits)
    then show ?thesis using False e by (subst get_symbol.simps) (auto simp: no_fault_def signed_at_def split: if_splits)
  qed
qed

definition list_end :: "injfile_t \<Rightarrow> u64 option \<Rightarrow> bool" where
  "list_end f p = (case p of None \<Rightarrow> True | Some a \<Rightarrow> symbols_end (inj_image f) (unat a))"

lemma file_okI:
  assumes "list_end (injfile x) (inj_adbi (injfile x))" "list_end (injfile x) (inj_exports (injfile x))"
    and "injfile_code (injfile x) = Inr code" "injectable_imports x = Inr imps"
    and "list_all (\<lambda>e. 0 \<le> snd e \<and> snd e < uint (inj_code_size (injfile x))) imps"
  shows "file_ok x"
  using assms get_symbol_total
  by (auto simp: file_ok_def injectable_get_symbol_def injectable_get_exported_symbol_def injfile_get_adbi_def injfile_get_export_def
      injfile_get_symbol_def list_end_def list_all_iff split: option.splits)

text \<open>A file with four bytes of code, a name, one function for the server, one export and one import, each optional.\<close>

definition small_file :: "bool \<Rightarrow> bytes \<Rightarrow> bytes option \<Rightarrow> bytes option \<Rightarrow> bytes option \<Rightarrow> injfile_t" where
  "small_file is_lib name adbi exported imported =
     (let syms = (\<lambda>n ofs. case n of None \<Rightarrow> [] | Some n \<Rightarrow> symbol_bytes (n, ofs));
          a = [1, 2, 3, 4] @ name @ [0];
          b = a @ syms adbi 4 @ [0];
          d = b @ syms exported 4 @ [0]
      in \<lparr>inj_image = d @ syms imported 0 @ replicate 33 0, inj_version = 0x0210, inj_flags = (if is_lib then 1 else 0), inj_code_size = 4,
          inj_code = Some 0, inj_name = Some 4, inj_comment = None, inj_adbi = Some (of_nat (length a)),
          inj_imports = (if imported = None then None else Some (of_nat (length d))),
          inj_exports = Some (of_nat (length b)), inj_tpoints = None, inj_strings = None, inj_lines = None\<rparr>)"

definition small_injectable :: "u32 \<Rightarrow> u32 \<Rightarrow> injfile_t \<Rightarrow> injectable_t" where
  "small_injectable n refs f = \<lparr>iid = n, filename = [], injfile = f, inj_references = refs, builtin = False\<rparr>"

text \<open>The base injectable exports \<^verbatim>\<open>f\<close>, which the injectable at 20 imports. The library at 60 exports \<^verbatim>\<open>h\<close>, which the injectable at
  70 imports, and imports \<^verbatim>\<open>g\<close> from the library at 50.\<close>

definition small_base :: injfile_t where "small_base = small_file True [0x61] None (Some [0x66]) None"
definition small_user :: injfile_t where "small_user = small_file False [0x75] None None (Some [0x66])"
definition small_munmap :: injfile_t where "small_munmap = small_file True adbi_munmap_name (Some adbi_munmap_name) None None"
definition small_e :: injfile_t where "small_e = small_file True [0x65] None (Some [0x67]) None"
definition small_d :: injfile_t where "small_d = small_file True [0x64] None (Some [0x68]) (Some [0x67])"
definition small_nested :: injfile_t where "small_nested = small_file False [0x6e] None None (Some [0x68])"

definition small_registry :: "(nat \<Rightarrow> u32) \<Rightarrow> registry" where
  "small_registry n = \<lparr>inj_heap = [10 \<mapsto> small_injectable 1 (n 10) small_base, 20 \<mapsto> small_injectable 2 (n 20) small_user,
       40 \<mapsto> small_injectable 4 (n 40) small_munmap, 50 \<mapsto> small_injectable 5 (n 50) small_e, 60 \<mapsto> small_injectable 6 (n 60) small_d,
       70 \<mapsto> small_injectable 7 (n 70) small_nested],
     injectables = Node (Node (Node Leaf (1, 10) Leaf) (2, 20) Leaf) (4, 40) (Node (Node Leaf (5, 50) Leaf) (6, 60) (Node Leaf (7, 70) Leaf)),
     libraries = Node (Node Leaf (1, 10) Leaf) (4, 40) (Node Leaf (5, 50) (Node Leaf (6, 60) Leaf)),
     bindings = Node Leaf (2, 20) (Node Leaf (7, 70) Leaf), next_iid = 8\<rparr>"

lemma small_files:
  "file_ok (small_injectable k r small_base)" "file_ok (small_injectable k r small_user)" "file_ok (small_injectable k r small_munmap)"
  "file_ok (small_injectable k r small_e)" "file_ok (small_injectable k r small_d)" "file_ok (small_injectable k r small_nested)"
proof -
  have "file_ok (small_injectable k r f)"
    if "list_end f (inj_adbi f) \<and> list_end f (inj_exports f) \<and> injfile_code f = Inr [1, 2, 3, 4]
      \<and> injectable_imports (small_injectable 0 0 f) = Inr imps \<and> inj_code_size f = 4 \<and> list_all (\<lambda>e. 0 \<le> snd e \<and> snd e < 4) imps" for f imps
    using that by (intro file_okI [where code = "[1, 2, 3, 4]" and imps = imps])
      (simp_all add: small_injectable_def injectable_imports_def cong: option.case_cong)
  note check = this
  show "file_ok (small_injectable k r small_base)" "file_ok (small_injectable k r small_munmap)" "file_ok (small_injectable k r small_e)"
    by (rule check [of _ "[]"], code_simp)+
  show "file_ok (small_injectable k r small_user)" by (rule check [of _ "[(0x66 # replicate 27 0, 0)]"], code_simp)
  show "file_ok (small_injectable k r small_d)" by (rule check [of _ "[(0x67 # replicate 27 0, 0)]"], code_simp)
  show "file_ok (small_injectable k r small_nested)" by (rule check [of _ "[(0x68 # replicate 27 0, 0)]"], code_simp)
qed

lemma small_files_ok: "files_ok (small_registry n)"
  using small_files by (auto simp: files_ok_def small_registry_def split: if_splits)

lemma small_munmap_symbol:
  assumes "s_registry s = small_registry n"
  shows "library_symbol s adbi_munmap_name = Inr (40, 4)"
proof -
  have "injectable_get_library (small_registry n) adbi_munmap_name = Inr (Some 40)" by code_simp
  moreover have "injfile_get_adbi small_munmap adbi_munmap_name = Inr 4" by code_simp
  moreover have "injectable_at (small_registry n) 40 = Inr (small_injectable 4 (n 40) small_munmap)" by (simp add: small_registry_def)
  ultimately show ?thesis by (simp add: assms library_symbol_def injectable_get_symbol_def small_injectable_def injectable_at_Some)
qed

text \<open>The calls of \<open>quiet_calls\<close>, where unmapping succeeds.\<close>

definition small_calls :: "nat \<Rightarrow> (u32 \<Rightarrow> u8) icalls" where
  "small_calls proc = (quiet_calls proc)\<lparr>ic_load_call := (\<lambda>P t code ofs ctx. Inr (True, ctx\<lparr>registers := [0]\<rparr>, t))\<rparr>"

lemma small_calls_simps:
  "ic_process (small_calls proc) = proc" "ic_tree (small_calls proc) = leaf_lib 0" "ic_deps (small_calls proc) = leaf_lib 0"
  "ic_fuel (small_calls proc) = 4" "ic_stopped (small_calls proc) t"
  by (simp_all add: small_calls_def quiet_calls_def)

lemma small_calls_ok: "tree_library (ic_tree (small_calls proc))" "icalls_total (small_calls proc)" "munmap_works (small_calls proc)"
proof -
  show "tree_library (ic_tree (small_calls proc))" by (simp add: small_calls_simps leaf_lib_contract)
  show "icalls_total (small_calls proc)" using quiet_calls_total [of proc] by (simp add: icalls_total_def small_calls_def)
  show "munmap_works (small_calls proc)" by (simp add: munmap_works_def small_calls_def fncall_get_errno_def)
qed

text \<open>A process with the base injection and the injectable that imports from it.\<close>

definition user_state :: "(u32 \<Rightarrow> u8) istate" where
  "user_state = \<lparr>s_registry = small_registry (\<lambda>q. if q = 10 \<or> q = 20 then 1 else 0),
     s_heap = [100 \<mapsto> \<lparr>i_process = 5, i_address = 0x4000, i_injectable = 10, i_references = 2\<rparr>,
       200 \<mapsto> \<lparr>i_process = 5, i_address = 0x8000, i_injectable = 20, i_references = 0\<rparr>],
     s_next = 201, s_processes = (\<lambda>proc. \<lparr>ip_pid = of_nat proc, ip_mode32 = True,
       ip_injections = if proc = 5 then Node Leaf (10, 100) (Node Leaf (20, 200) Leaf) else Leaf\<rparr>),
     s_adbi = Some 10, s_thread = (\<lambda>_. 0)\<rparr>"

lemma small_heap: "inj_heap (small_registry n) q = Some x \<Longrightarrow> inj_references x = n q"
  by (auto simp: small_registry_def small_injectable_def split: if_splits)

lemma user_state_ok: "inj_ok user_state"
proof -
  have w: "injections_with user_state q = (if q = 10 then {100} else if q = 20 then {200} else {})" for q
    by (auto simp: injections_with_def user_state_def)
  have r: "unat (inj_references x) = card (injections_with user_state q) mod 2 ^ 32" if "inj_heap (s_registry user_state) q = Some x" for q x
  proof -
    have "inj_references x = (if q = 10 \<or> q = 20 then 1 else 0)" using small_heap [of _ q x] that by (simp add: user_state_def)
    then show ?thesis unfolding w by simp
  qed
  have m: "tree_map (injections_of user_state proc) q = Some p \<longleftrightarrow> (\<exists>i. s_heap user_state p = Some i \<and> i_process i = proc \<and> i_injectable i = q)" for proc q p
    by (auto simp: user_state_def injections_of_def tree_map_def split: if_splits)
  have "inj_heap (s_registry user_state) (i_injectable i) \<noteq> None" if "s_heap user_state p = Some i" for p i
    using that by (auto simp: user_state_def small_registry_def split: if_splits)
  moreover have "finite (dom (s_heap user_state))" "\<forall>p \<in> dom (s_heap user_state). p < s_next user_state" "tree_ok (injections_of user_state proc)" for proc
    by (auto simp: user_state_def injections_of_def tree_ok_def)
  ultimately show ?thesis unfolding inj_ok_def using r m by blast
qed

lemma small_dependencies:
  assumes "s_registry s = small_registry n"
  shows "dependencies (small_calls proc) 20 s = Inr [10]" "dependencies (small_calls proc) 50 s = Inr []"
    "dependencies (small_calls proc) 60 s = Inr [50]" "dependencies (small_calls proc) 70 s = Inr [50, 60]"
proof -
  have at: "injectable_at (small_registry n) 20 = Inr (small_injectable 2 (n 20) small_user)" "injectable_at (small_registry n) 50 = Inr (small_injectable 5 (n 50) small_e)"
    "injectable_at (small_registry n) 60 = Inr (small_injectable 6 (n 60) small_d)" "injectable_at (small_registry n) 70 = Inr (small_injectable 7 (n 70) small_nested)"
    by (simp_all add: small_registry_def)
  have d: "dependencies (small_calls proc) q s = Inr r"
    if "injectable_at (small_registry n) q = Inr x" "injectable_iter_dependencies (leaf_lib 0) (small_registry n) 4 x = Inr r" for q x r
    using that by (simp only: dependencies_def assms small_calls_simps res_bind_Inr)
  show "dependencies (small_calls proc) 20 s = Inr [10]" by (rule d [OF at(1)]) code_simp
  show "dependencies (small_calls proc) 50 s = Inr []" by (rule d [OF at(2)]) code_simp
  show "dependencies (small_calls proc) 60 s = Inr [50]" by (rule d [OF at(3)]) code_simp
  show "dependencies (small_calls proc) 70 s = Inr [50, 60]" by (rule d [OF at(4)]) code_simp
qed

lemma user_state_simps:
  "s_registry user_state = small_registry (\<lambda>q. if q = 10 \<or> q = 20 then 1 else 0)" "s_adbi user_state = Some 10"
  "injection_get user_state proc = (if proc = 5 then [10 \<mapsto> 100, 20 \<mapsto> 200] else Map.empty)"
  by (auto simp: user_state_def fun_eq_iff injection_get_def injections_of_def tree_get_def tree_get_node_def)

lemma user_state_ready: "detach_ready (small_calls 5) (\<lambda>q. if q = 20 then 1 else 0) 10 1 user_state"
proof -
  have n: "\<not> injectable_is_library (small_injectable 2 r small_user)" for r
    by (simp add: injectable_is_library_def injfile_is_library_def small_injectable_def small_user_def small_file_def Let_def INJFILE_FLAG_LIBRARY_def)
  have x: "inj_heap (s_registry user_state) 20 = Some (small_injectable 2 1 small_user)" by (simp add: user_state_simps small_registry_def)
  have h: "s_heap user_state 100 = Some \<lparr>i_process = 5, i_address = 0x4000, i_injectable = 10, i_references = 2\<rparr>"
    "s_heap user_state 200 = Some \<lparr>i_process = 5, i_address = 0x8000, i_injectable = 20, i_references = 0\<rparr>" by (simp_all add: user_state_def)
  have "others_plain (small_calls 5) (\<lambda>q. if q = 20 then 1 else 0) 10 user_state"
    using n x h small_dependencies(1) [OF user_state_simps(1)] by (auto simp: others_plain_def small_calls_simps user_state_simps(3))
  moreover have "files_ok (s_registry user_state)" by (simp add: user_state_simps small_files_ok)
  ultimately show ?thesis using user_state_ok h(1) by (simp add: detach_ready_def user_state_simps(2,3) small_calls_simps base_count_def)
qed

section \<open>Properties\<close>

text \<open>C8: In every sequence of operations, starting without injections, the tree of a process holds exactly the injections into
  this process, each under its injectable and none twice, no pointer in it is to a freed object, and the counter of every
  injectable is the number of its injections in all processes (in 32 bits).\<close>

theorem injections_counted:
  assumes "tree_library lib" "s_heap s0 = Map.empty" "\<And>proc. injections_of s0 proc = Leaf"
    and "\<And>q x. inj_heap (s_registry s0) q = Some x \<Longrightarrow> inj_references x = 0" "reached lib s0 s"
  shows "(\<forall>proc q p. injection_get s proc q = Some p \<longleftrightarrow> (\<exists>i. s_heap s p = Some i \<and> i_process i = proc \<and> i_injectable i = q))
    \<and> (\<forall>q x. inj_heap (s_registry s) q = Some x \<longrightarrow> unat (inj_references x) = card {p. \<exists>i. s_heap s p = Some i \<and> i_injectable i = q} mod 2 ^ 32)"
proof -
  have e: "injections_with s0 q = {}" for q using assms(2) by (simp add: injections_with_def)
  have "inj_ok s0" using assms(2-4) by (simp add: inj_ok_def e tree_ok_def tree_map_def)
  then have ok: "inj_ok s" using reached_ok [OF assms(5,1)] by simp
  have "injection_get s proc q = tree_map (injections_of s proc) q" for proc q
    unfolding injection_get_def by (simp add: tree_get_map [OF inj_okD(3) [OF ok]])
  then show ?thesis using ok unfolding inj_ok_def injections_with_def by simp
qed

text \<open>Witness: the base injection is installed in a process. The calls return the address 0x4000.\<close>

definition fresh_state :: "(u32 \<Rightarrow> u8) istate" where
  "fresh_state = \<lparr>s_registry = \<lparr>inj_heap = [10 \<mapsto> small_injectable 1 0 small_base,
       30 \<mapsto> small_injectable 3 0 (small_file True adbi_mmap_name (Some adbi_mmap_name) None None)],
     injectables = Node Leaf (1, 10) (Node Leaf (3, 30) Leaf), libraries = Node Leaf (1, 10) (Node Leaf (3, 30) Leaf), bindings = Leaf, next_iid = 4\<rparr>,
     s_heap = Map.empty, s_next = 100, s_processes = (\<lambda>proc. \<lparr>ip_pid = of_nat proc, ip_mode32 = True, ip_injections = Leaf\<rparr>),
     s_adbi = Some 10, s_thread = (\<lambda>_. 0)\<rparr>"

lemma fresh_state_install: "\<exists>s'. inject_adbi (quiet_calls 5) fresh_state = Inr (Some 100, s')"
proof -
  have "case inject_adbi (quiet_calls 5) fresh_state of Inr (Some p, s') \<Rightarrow> p = 100 | _ \<Rightarrow> False" by code_simp
  then show ?thesis by (auto split: sum.splits option.splits)
qed

theorem injections_counted_witness:
  "\<exists>s'. inject_adbi (quiet_calls 5) fresh_state = Inr (Some 100, s')
    \<and> (\<forall>q x. inj_heap (s_registry s') q = Some x \<longrightarrow> unat (inj_references x) = card {p. \<exists>i. s_heap s' p = Some i \<and> i_injectable i = q} mod 2 ^ 32)"
proof -
  obtain s' where s': "inject_adbi (quiet_calls 5) fresh_state = Inr (Some 100, s')" using fresh_state_install by blast
  have "reached (leaf_lib 0) fresh_state s'" by (rule reached.install [OF reached.start _ s']) (simp add: quiet_calls_simps)
  moreover have "inj_references x = 0" if "inj_heap (s_registry fresh_state) q = Some x" for q x
    using that by (auto simp: fresh_state_def small_injectable_def split: if_splits)
  ultimately show ?thesis using s' injections_counted [OF leaf_lib_contract [of 0], of fresh_state s']
    by (simp add: fresh_state_def injections_of_def)
qed





text \<open>
  A process with an injectable, the library it depends on and the library that one depends on, as \<^verbatim>\<open>inject_dependencies\<close> leaves
  them.
\<close>

definition nested_state :: "(u32 \<Rightarrow> u8) istate" where
  "nested_state = \<lparr>s_registry = small_registry (\<lambda>q. if q \<in> {10, 50, 60, 70} then 1 else 0),
     s_heap = [100 \<mapsto> \<lparr>i_process = 5, i_address = 0x4000, i_injectable = 10, i_references = 1\<rparr>,
       500 \<mapsto> \<lparr>i_process = 5, i_address = 0x8000, i_injectable = 50, i_references = 1\<rparr>,
       600 \<mapsto> \<lparr>i_process = 5, i_address = 0x9000, i_injectable = 60, i_references = 1\<rparr>,
       700 \<mapsto> \<lparr>i_process = 5, i_address = 0xa000, i_injectable = 70, i_references = 0\<rparr>],
     s_next = 701, s_processes = (\<lambda>proc. \<lparr>ip_pid = of_nat proc, ip_mode32 = True,
       ip_injections = if proc = 5 then Node (Node Leaf (10, 100) Leaf) (50, 500) (Node Leaf (60, 600) (Node Leaf (70, 700) Leaf)) else Leaf\<rparr>),
     s_adbi = Some 10, s_thread = (\<lambda>_. 0)\<rparr>"

lemma nested_state_ok: "inj_ok nested_state"
proof -
  have w: "injections_with nested_state q = (if q = 10 then {100} else if q = 50 then {500} else if q = 60 then {600} else if q = 70 then {700} else {})" for q
    by (auto simp: injections_with_def nested_state_def)
  have r: "unat (inj_references x) = card (injections_with nested_state q) mod 2 ^ 32" if "inj_heap (s_registry nested_state) q = Some x" for q x
  proof -
    have "inj_references x = (if q \<in> {10, 50, 60, 70} then 1 else 0)" using small_heap [of _ q x] that by (simp add: nested_state_def)
    then show ?thesis unfolding w by simp
  qed
  have m: "tree_map (injections_of nested_state proc) q = Some p \<longleftrightarrow> (\<exists>i. s_heap nested_state p = Some i \<and> i_process i = proc \<and> i_injectable i = q)" for proc q p
    by (auto simp: nested_state_def injections_of_def tree_map_def split: if_splits)
  have "inj_heap (s_registry nested_state) (i_injectable i) \<noteq> None" if "s_heap nested_state p = Some i" for p i
    using that by (auto simp: nested_state_def small_registry_def split: if_splits)
  moreover have "finite (dom (s_heap nested_state))" "\<forall>p \<in> dom (s_heap nested_state). p < s_next nested_state" "tree_ok (injections_of nested_state proc)" for proc
    by (auto simp: nested_state_def injections_of_def tree_ok_def)
  ultimately show ?thesis unfolding inj_ok_def using r m by blast
qed

text \<open>An injectable that depends on a library which depends on another library cannot be removed: the second library is released
  once for the injectable, is removed, and is released again for the first library through a null pointer, whatever
  the depth of the recursion that is allowed.\<close>

theorem nested_dependencies_crash:
  assumes "tree_library (ic_tree c)" "icalls_total c" "\<And>t. ic_stopped c t" "inj_ok s" "files_ok (s_registry s)"
    and "injection_get_adbi s (ic_process c) \<noteq> None"
    and "dependencies c q s = Inr [e, d]" "dependencies c d s = Inr [e]" "dependencies c e s = Inr []"
    and "s_adbi s \<noteq> Some q" "s_adbi s \<noteq> Some d" "s_adbi s \<noteq> Some e" "d \<noteq> e"
    and "injection_get s (ic_process c) q = Some p" "s_heap s p = Some i" "i_references i = 0"
    and "injection_get s (ic_process c) d = Some pd" "s_heap s pd = Some jd" "i_references jd = 1"
    and "injection_get s (ic_process c) e = Some pe" "s_heap s pe = Some je" "i_references je = 1"
  shows "injection_detach_single c (n + 2) p s = Inl Null_Pointer"
  using injection_trees.nested_crash [OF injection_trees.intro [OF assms(1)] assms(2-22)] by simp

text \<open>Witness: the libraries of \<open>small_registry\<close>.\<close>

theorem nested_dependencies_crash_witness:
  "injection_detach_single (small_calls 5) 3 700 nested_state = Inl Null_Pointer"
proof -
  have r: "s_registry nested_state = small_registry (\<lambda>q. if q \<in> {10, 50, 60, 70} then 1 else 0)" by (simp add: nested_state_def)
  have f: "files_ok (s_registry nested_state)" unfolding r by (rule small_files_ok)
  have g: "injection_get nested_state 5 = [10 \<mapsto> 100, 50 \<mapsto> 500, 60 \<mapsto> 600, 70 \<mapsto> 700]"
    by (auto simp: nested_state_def fun_eq_iff injection_get_def injections_of_def tree_get_def tree_get_node_def)
  have b: "injection_get_adbi nested_state 5 \<noteq> None" unfolding injection_get_adbi_def g by (simp add: nested_state_def)
  have h: "s_heap nested_state 700 = Some \<lparr>i_process = 5, i_address = 0xa000, i_injectable = 70, i_references = 0\<rparr>"
    "s_heap nested_state 600 = Some \<lparr>i_process = 5, i_address = 0x9000, i_injectable = 60, i_references = 1\<rparr>"
    "s_heap nested_state 500 = Some \<lparr>i_process = 5, i_address = 0x8000, i_injectable = 50, i_references = 1\<rparr>"
    "s_adbi nested_state = Some 10" by (simp_all add: nested_state_def)
  have "injection_detach_single (small_calls 5) (1 + 2) 700 nested_state = Inl Null_Pointer"
    using nested_dependencies_crash [where p = 700 and pd = 600 and pe = 500 and n = 1, OF small_calls_ok(1,2) small_calls_simps(5) nested_state_ok f _
      small_dependencies(4,3,2) [OF r] _ _ _ _ _ h(1) _ _ h(2) _ _ h(3)] b by (simp add: small_calls_simps g h(4))
  moreover have "1 + 2 = (3 :: nat)" by simp
  ultimately show ?thesis by metis
qed

end
