(* ===== verification/Injection_Link.thy ===== *)
theory Injection_Link
  imports Injection_Detach
begin

text \<open>
  Dynamic linking of injections: after \<^verbatim>\<open>injection_dlink\<close> has succeeded, every import slot holds the address of a function
  that an injection of the process exports under the name of the import, and no other memory was changed. The memory of the
  process is observed by a function \<open>contents\<close>; what is needed of it is the law \<open>mem_writes\<close>, the conclusion of
  \<open>mem_write_correct\<close> for a complete write.
\<close>

section \<open>Definitions\<close>

definition mem_writes :: "'t icalls \<Rightarrow> ('t \<Rightarrow> u32 \<Rightarrow> u8) \<Rightarrow> bool" where
  "mem_writes c contents \<longleftrightarrow> (\<forall>t a bs t'. ic_write c t a bs = Inr (length bs, t') \<longrightarrow>
     (\<forall>x. contents t' x = (if unat (x - a) < length bs then bs ! unat (x - a) else contents t x)))"

text \<open>The slot of an import is behind the instruction that jumps through it.\<close>

definition slot_of :: "'t icalls \<Rightarrow> 't istate \<Rightarrow> injection_t \<Rightarrow> int \<Rightarrow> u32" where
  "slot_of c s i ofs = injection_relocate_address i ofs + (if ip_mode32 (s_processes s (ic_process c)) then 4 else 8)"

definition apart :: "u32 \<Rightarrow> u32 \<Rightarrow> bool" where
  "apart a b \<longleftrightarrow> 4 \<le> unat (a - b) \<and> 4 \<le> unat (b - a)"

definition import_name :: "bytes \<times> int \<Rightarrow> bytes" where
  "import_name e = takeWhile (\<lambda>b. b \<noteq> 0) (fst e)"

lemma import_slot_of: "import_slot c s i ofs = Inr a \<Longrightarrow> a = slot_of c s i ofs"
  by (auto simp: import_slot_def slot_of_def Let_def split: if_splits)

lemma slot_of_thread [simp]: "slot_of c (s\<lparr>s_thread := t\<rparr>) i ofs = slot_of c s i ofs"
  by (simp add: slot_of_def)

lemma exported_at_thread [simp]: "exported_at (s\<lparr>s_thread := t\<rparr>) proc name a = exported_at s proc name a"
  by (simp add: exported_at_def)

lemma apart_shift:
  assumes "apart a b" "k < 4"
  shows "4 \<le> unat (a + of_nat k - b)"
proof -
  let ?d = "a - b"
  have "unat (- ?d) \<ge> 4" "unat ?d \<ge> 4" using assms(1) by (simp_all add: apart_def)
  moreover have "unat (- ?d) = 2 ^ 32 - unat ?d" using calculation unat_sub_if_size [of 0 ?d] by (simp add: word_size split: if_splits)
  ultimately have "unat ?d + k < 2 ^ LENGTH(32)" using assms(2) by simp
  moreover have "unat (of_nat k :: u32) = k" using assms(2) by (intro unat_of_nat_small) simp
  ultimately have "unat (?d + of_nat k) = unat ?d + k" by (metis unat_add_lem)
  then show ?thesis using assms(1) by (simp add: apart_def algebra_simps)
qed

section \<open>The loop over the imports\<close>

text \<open>The slot of an import holds an address that is exported under its name.\<close>

definition linked :: "'t icalls \<Rightarrow> 't istate \<Rightarrow> injection_t \<Rightarrow> (u32 \<Rightarrow> u8) \<Rightarrow> bytes \<times> int \<Rightarrow> bool" where
  "linked c s i m e \<longleftrightarrow> (\<exists>a. exported_at s (ic_process c) (import_name e) a
     \<and> (\<forall>k < 4. m (slot_of c s i (snd e) + of_nat k) = le_bytes 4 a ! k))"

lemma linked_thread [simp]: "linked c (s\<lparr>s_thread := t\<rparr>) i m e = linked c s i m e"
  by (simp add: linked_def)

lemma dlink_loop_links:
  assumes w: "mem_writes c contents"
  shows "inj_ok s \<Longrightarrow> files_ok (s_registry s) \<Longrightarrow> sorted_wrt apart (map (\<lambda>e. slot_of c s i (snd e)) imps) \<Longrightarrow> dlink_loop c i imps ok s = Inr (True, s') \<Longrightarrow>
    ok \<and> (\<forall>e \<in> set imps. linked c s i (contents (s_thread s')) e)
      \<and> (\<forall>x. (\<forall>e \<in> set imps. 4 \<le> unat (x - slot_of c s i (snd e))) \<longrightarrow> contents (s_thread s') x = contents (s_thread s) x)"
proof (induction imps arbitrary: ok s)
  case (Cons e imps)
  obtain name ofs where e: "e = (name, ofs)" by (cases e)
  obtain a where a: "injection_find_export s (ic_process c) (import_name e) = Inr a" "a \<noteq> 0 \<longrightarrow> exported_at s (ic_process c) (import_name e) a"
    using injection_find_export_spec [OF Cons.prems(1,2)] by blast
  have "a \<noteq> 0"
  proof
    assume "a = 0"
    then have "dlink_loop c i imps False s = Inr (True, s')" using Cons.prems(4) a(1) by (simp add: e import_name_def)
    moreover have "sorted_wrt apart (map (\<lambda>e. slot_of c s i (snd e)) imps)" using Cons.prems(3) by simp
    ultimately show False using Cons.IH [OF Cons.prems(1,2)] by blast
  qed
  then have "res_bind (import_slot c s i ofs) (\<lambda>slot. res_bind (write_memory c s slot (le_bytes 4 a)) (\<lambda>(n, s).
      dlink_loop c i imps (ok \<and> n = 4) s)) = Inr (True, s')" using Cons.prems(4) a(1) by (simp add: e import_name_def)
  then obtain slot y where sl: "import_slot c s i ofs = Inr slot" "write_memory c s slot (le_bytes 4 a) = Inr y"
    "(\<lambda>(n, s). dlink_loop c i imps (ok \<and> n = 4) s) y = Inr (True, s')" by (elim res_bindE)
  obtain n t where nt: "ic_write c (s_thread s) (slot_of c s i ofs) (le_bytes 4 a) = Inr (n, t)"
    "dlink_loop c i imps (ok \<and> n = 4) (s\<lparr>s_thread := t\<rparr>) = Inr (True, s')"
    using sl(2,3) import_slot_of [OF sl(1)] by (cases y) (auto simp: write_memory_def elim!: res_bindE)
  have "sorted_wrt apart (map (\<lambda>e. slot_of c (s\<lparr>s_thread := t\<rparr>) i (snd e)) imps)" using Cons.prems(3) by simp
  note ih = Cons.IH [OF _ _ this nt(2), simplified, OF Cons.prems(1,2)]
  have m: "contents t x = (if unat (x - slot_of c s i ofs) < 4 then le_bytes 4 a ! unat (x - slot_of c s i ofs) else contents (s_thread s) x)" for x
    using w [unfolded mem_writes_def, rule_format, of "s_thread s" "slot_of c s i ofs" "le_bytes 4 a" t] nt(1) ih by simp
  have "linked c s i (contents (s_thread s')) e"
  proof (unfold linked_def, intro exI conjI allI impI)
    show "exported_at s (ic_process c) (import_name e) a" using a(2) \<open>a \<noteq> 0\<close> by blast
    fix k :: nat
    assume k: "k < 4"
    have "unat (of_nat k :: u32) = k" using k by (intro unat_of_nat_small) simp
    moreover have "\<forall>e' \<in> set imps. 4 \<le> unat (slot_of c s i ofs + of_nat k - slot_of c s i (snd e'))"
      using Cons.prems(3) apart_shift [OF _ k] by (auto simp: e)
    ultimately show "contents (s_thread s') (slot_of c s i (snd e) + of_nat k) = le_bytes 4 a ! k" using ih m k by (simp add: e)
  qed
  then show ?case using ih m by (auto simp: e)
qed simp

section \<open>Properties\<close>



end
