(* ===== verification/Segment_Scan.thy ===== *)
theory Segment_Scan
  imports Segment
begin

text \<open>
  The operations of \<^verbatim>\<open>process/segment.c\<close> that change the table of segments: the scan that brings it up to date with the list of the
  kernel, and its use when a process forks, executes another program or is left. The state of the process is \<open>'s\<close>; what the
  operations call, with the table, in \<^verbatim>\<open>injection.c\<close>, \<^verbatim>\<open>tracepoint.c\<close> and \<^verbatim>\<open>procfs.c\<close> is the record \<open>segment_ops\<close>. A thread is a number.
\<close>

section \<open>Definitions\<close>

record ('s, 'a, 'i, 't) segment_ops =
  so_tree :: "('a, ('a, 'i, 't) segment_t) tree_lib"
  so_listing :: "'s \<Rightarrow> ('a, 'i, 't) segment_t list res"
  so_is_injection :: "'s \<Rightarrow> 'a \<Rightarrow> bool res"
  so_injections_init :: "('a, 'i, 't) segments \<Rightarrow> 's \<Rightarrow> ('a, 'i, 't) segment_t \<Rightarrow> (('a, 'i, 't) segment_t \<times> 's) res"
  so_tracepoints_init :: "('a, 'i, 't) segments \<Rightarrow> 's \<Rightarrow> ('a, 'i, 't) segment_t \<Rightarrow> (('a, 'i, 't) segment_t \<times> 's) res"
  so_tracepoints_gone :: "('a, 'i, 't) segments \<Rightarrow> 's \<Rightarrow> ('a, 'i, 't) segment_t \<Rightarrow> (('a, 'i, 't) segment_t \<times> 's) res"
  so_tracepoints_reset :: "('a, 'i, 't) segments \<Rightarrow> 's \<Rightarrow> ('a, 'i, 't) segment_t \<Rightarrow> (('a, 'i, 't) segment_t \<times> 's) res"
  so_tracepoints_detach :: "('a, 'i, 't) segments \<Rightarrow> 's \<Rightarrow> ('a, 'i, 't) segment_t \<Rightarrow> (('a, 'i, 't) segment_t \<times> 's) res"
  so_release :: "'s \<Rightarrow> 'i \<Rightarrow> 's res"

text \<open>A loop over the segments whose body may change or remove the segment it is called with: \<^verbatim>\<open>TREE_ITER_SAFE\<close>.\<close>

type_synonym ('s, 'a, 'i, 't) segment_body =
  "('a, 'i, 't) segments \<Rightarrow> 's \<Rightarrow> ('a, 'i, 't) segment_t \<Rightarrow> (('a, 'i, 't) segments \<times> 's) res"

fun each_segment ::
    "('s, 'a::linorder, 'i, 't) segment_body \<Rightarrow> 'a list \<Rightarrow> ('a, 'i, 't) segments \<Rightarrow> 's \<Rightarrow> (('a, 'i, 't) segments \<times> 's) res" where
  "each_segment body [] segs s = Inr (segs, s)"
| "each_segment body (k # ks) segs s =
     (case tree_get segs k of
        None \<Rightarrow> Inl Dangling
      | Some seg \<Rightarrow> res_bind (body segs s seg) (\<lambda>(segs, s). each_segment body ks segs s))"

definition segment_iter :: "('s, 'a::linorder, 'i, 't) segment_body \<Rightarrow> ('a, 'i, 't) segments \<Rightarrow> 's \<Rightarrow> (('a, 'i, 't) segments \<times> 's) res" where
  "segment_iter body segs s = each_segment body (map nkey (tree_iter segs)) segs s"

definition segment_release_injection ::
    "('s, 'w::len word, 'i, 't) segment_ops \<Rightarrow> 's \<Rightarrow> ('w word, 'i, 't) segment_t \<Rightarrow> (('w word, 'i, 't) segment_t \<times> 's) res" where
  "segment_release_injection ops s seg =
     adbi_assure (tree_empty (tracepoints seg))
     (adbi_assure (trampolines seg = 0)
      (case injection seg of
         None \<Rightarrow> Inr (seg, s)
       | Some i \<Rightarrow> res_bind (so_release ops s i) (\<lambda>s. Inr (seg\<lparr>injection := None\<rparr>, s))))"

definition segment_free :: "('s, 'w::len word, 'i, 't) segment_ops \<Rightarrow> ('s, 'w word, 'i, 't) segment_body" where
  "segment_free ops segs s seg =
     adbi_assure (tree_empty (tracepoints seg))
     (adbi_assure (trampolines seg = 0)
      (res_bind (tree_remove (so_tree ops) segs (start seg)) (\<lambda>segs.
       res_bind (segment_release_injection ops s seg) (\<lambda>(seg, s). Inr (segs, s)))))"

definition blank :: "('w::len word, 'i, 't) segment_t \<Rightarrow> ('w word, 'i, 't) segment_t" where
  "blank seg = seg\<lparr>state := SEGMENT_STATE_NEW, tracepoints := Leaf, injection := None, trampolines := 0, trampolines_size := 0,
     trampoline_stolen := False\<rparr>"

definition segment_clone ::
    "('s, 'w::len word, 'i, 't) segment_ops \<Rightarrow> ('w word, 'i, 't) segments \<Rightarrow> ('w word, 'i, 't) segment_t \<Rightarrow> ('w word, 'i, 't) segments res" where
  "segment_clone ops segs seg = (let clone = blank seg in tree_insert (so_tree ops) segs (start clone) clone)"

subsection \<open>The scan\<close>

definition address_artificial ::
    "('s, 'w::len word, 'i, 't) segment_ops \<Rightarrow> 's \<Rightarrow> ('w word, 'i, 't) segments \<Rightarrow> 'w word \<Rightarrow> bool res" where
  "address_artificial ops s segs address =
     res_bind (so_is_injection ops s address) (\<lambda>b. Inr (b \<or> address_is_trampoline segs address))"

text \<open>The callback for a segment the kernel lists; \<open>again\<close> asks for another round.\<close>

definition scan_notify ::
    "('s, 'w::len word, 'i, 't) segment_ops \<Rightarrow> 's \<Rightarrow> ('w word, 'i, 't) segment_t \<Rightarrow> bool \<times> ('w word, 'i, 't) segments
     \<Rightarrow> (bool \<times> ('w word, 'i, 't) segments) res" where
  "scan_notify ops s seg = (\<lambda>(again, segs).
     case tree_get segs (start seg) of
       Some old \<Rightarrow>
         if segment_equal seg old
         then res_bind (tree_update segs (start seg) (old\<lparr>state := SEGMENT_STATE_OLD\<rparr>)) (\<lambda>segs. Inr (again, segs))
         else Inr (True, segs)
     | None \<Rightarrow>
         res_bind (address_artificial ops s segs (start seg)) (\<lambda>artificial.
         if artificial then Inr (again, segs)
         else res_bind (segment_clone ops segs seg) (\<lambda>segs. Inr (again, segs))))"

fun notify_all ::
    "('s, 'w::len word, 'i, 't) segment_ops \<Rightarrow> 's \<Rightarrow> ('w word, 'i, 't) segment_t list \<Rightarrow> bool \<times> ('w word, 'i, 't) segments
     \<Rightarrow> (bool \<times> ('w word, 'i, 't) segments) res" where
  "notify_all ops s [] r = Inr r"
| "notify_all ops s (seg # segs) r = res_bind (scan_notify ops s seg r) (notify_all ops s segs)"

definition mark_deleted :: "('a, 'i, 't) segments \<Rightarrow> ('a, 'i, 't) segments" where
  "mark_deleted segs = map_tree (\<lambda>(k, seg). (k, seg\<lparr>state := SEGMENT_STATE_DELETED\<rparr>)) segs"

definition scan_settle :: "('s, 'w::len word, 'i, 't) segment_ops \<Rightarrow> ('s, 'w word, 'i, 't) segment_body" where
  "scan_settle ops segs s seg =
     (case state seg of
        SEGMENT_STATE_NEW \<Rightarrow>
          res_bind (so_injections_init ops segs s seg) (\<lambda>(seg, s).
          res_bind (so_tracepoints_init ops segs s seg) (\<lambda>(seg, s).
          res_bind (tree_update segs (start seg) (seg\<lparr>state := SEGMENT_STATE_OLD\<rparr>)) (\<lambda>segs. Inr (segs, s))))
      | SEGMENT_STATE_DELETED \<Rightarrow>
          res_bind (so_tracepoints_gone ops segs s seg) (\<lambda>(seg, s). segment_free ops segs s seg)
      | SEGMENT_STATE_OLD \<Rightarrow> Inr (segs, s))"

definition scan_round ::
    "('s, 'w::len word, 'i, 't) segment_ops \<Rightarrow> ('w word, 'i, 't) segments \<Rightarrow> 's \<Rightarrow> (bool \<times> ('w word, 'i, 't) segments \<times> 's) res" where
  "scan_round ops segs s =
     res_bind (so_listing ops s) (\<lambda>listed.
     res_bind (notify_all ops s listed (False, mark_deleted segs)) (\<lambda>(again, segs).
     res_bind (segment_iter (scan_settle ops) segs s) (\<lambda>(segs, s). Inr (again, segs, s))))"

text \<open>\<open>fuel\<close> bounds the rounds.\<close>

fun segment_rescan ::
    "('s, 'w::len word, 'i, 't) segment_ops \<Rightarrow> nat \<Rightarrow> ('w word, 'i, 't) segments \<Rightarrow> 's \<Rightarrow> (('w word, 'i, 't) segments \<times> 's) res" where
  "segment_rescan ops 0 segs s = Inl Diverges"
| "segment_rescan ops (Suc n) segs s =
     res_bind (scan_round ops segs s) (\<lambda>(again, segs, s). if again then segment_rescan ops n segs s else Inr (segs, s))"

subsection \<open>Leaving a process\<close>

definition segment_reset ::
    "('s, 'w::len word, 'i, 't) segment_ops \<Rightarrow> ('w word, 'i, 't) segments \<Rightarrow> 's \<Rightarrow> (('w word, 'i, 't) segments \<times> 's) res" where
  "segment_reset ops =
     segment_iter (\<lambda>segs s seg. res_bind (so_tracepoints_reset ops segs s seg) (\<lambda>(seg, s). segment_free ops segs s seg))"

definition segment_detach ::
    "('s, 'w::len word, 'i, 't) segment_ops \<Rightarrow> ('w word, 'i, 't) segments \<Rightarrow> 's \<Rightarrow> (('w word, 'i, 't) segments \<times> 's) res" where
  "segment_detach ops =
     segment_iter (\<lambda>segs s seg. res_bind (so_tracepoints_detach ops segs s seg) (\<lambda>(seg, s). segment_free ops segs s seg))"

text \<open>\<open>found\<close> is the injection of the injectable in the process.\<close>

definition segment_detach_injectable ::
    "('s, 'w::len word, 'i, 't) segment_ops \<Rightarrow> 'i option \<Rightarrow> ('w word, 'i, 't) segments \<Rightarrow> 's \<Rightarrow> (('w word, 'i, 't) segments \<times> 's) res" where
  "segment_detach_injectable ops found segs s =
     (case found of
        None \<Rightarrow> Inr (segs, s)
      | Some i \<Rightarrow>
          segment_iter (\<lambda>segs s seg.
            if injection seg \<noteq> Some i then Inr (segs, s)
            else res_bind (so_tracepoints_detach ops segs s seg) (\<lambda>(seg, s).
                 res_bind (segment_release_injection ops s seg) (\<lambda>(seg, s).
                 res_bind (tree_update segs (start seg) seg) (\<lambda>segs. Inr (segs, s))))) segs s)"

definition segment_attach_injectable ::
    "('s, 'w::len word, 'i, 't) segment_ops \<Rightarrow> ('w word, 'i, 't) segments \<Rightarrow> 's \<Rightarrow> (('w word, 'i, 't) segments \<times> 's) res" where
  "segment_attach_injectable ops =
     segment_iter (\<lambda>segs s seg.
       if injection seg \<noteq> None then Inr (segs, s)
       else res_bind (so_injections_init ops segs s seg) (\<lambda>(seg, s).
            res_bind (so_tracepoints_init ops segs s seg) (\<lambda>(seg, s).
            res_bind (tree_update segs (start seg) seg) (\<lambda>segs. Inr (segs, s)))))"

text \<open>The segments of a child, \<open>fork\<close> being \<^verbatim>\<open>tracepoints_fork\<close> of a segment and its clone.\<close>

fun fork_all ::
    "('s, 'w::len word, 'i, 't) segment_ops \<Rightarrow> ('s \<Rightarrow> ('w word, 'i, 't) segment_t \<Rightarrow> ('w word, 'i, 't) segment_t \<Rightarrow> (('w word, 'i, 't) segment_t \<times> 's) res)
     \<Rightarrow> ('w word, 'i, 't) segment_t list \<Rightarrow> ('w word, 'i, 't) segments \<Rightarrow> 's \<Rightarrow> (('w word, 'i, 't) segments \<times> 's) res" where
  "fork_all ops fork [] child s = Inr (child, s)"
| "fork_all ops fork (seg # segs) child s =
     res_bind (segment_clone ops child seg) (\<lambda>child.
     res_bind (fork s seg (blank seg)) (\<lambda>(clone, s).
     res_bind (tree_update child (start clone) clone) (\<lambda>child. fork_all ops fork segs child s)))"

definition segment_fork where
  "segment_fork ops fork child parent s = fork_all ops fork (tree_vals parent) child s"

subsection \<open>Execution rights\<close>

text \<open>A call of \<^verbatim>\<open>mprotect\<close> in a thread, and the choice of a stopped thread with its reference.\<close>

record ('s, 'a) rights_ops =
  ro_any_stopped :: "'s \<Rightarrow> (nat option \<times> 's) res"
  ro_put :: "nat \<Rightarrow> 's \<Rightarrow> 's res"
  ro_dead :: "nat \<Rightarrow> 's \<Rightarrow> bool"
  ro_mprotect :: "nat \<Rightarrow> 's \<Rightarrow> 'a \<Rightarrow> 'a \<Rightarrow> u32 \<Rightarrow> (bool \<times> 's) res"

definition segment_set_executable ::
    "('s, 'w::len word) rights_ops \<Rightarrow> nat \<Rightarrow> bool \<Rightarrow> ('w word, 'i, 't) segment_t \<Rightarrow> 's \<Rightarrow> (bool \<times> 's) res" where
  "segment_set_executable ops thread executable seg s =
     (if \<not> segment_is_executable seg then Inr (True, s)
      else if (case filename seg of None \<Rightarrow> True | Some f \<Rightarrow> f = [] \<or> hd f \<noteq> CHR ''/'') then Inr (True, s)
      else let prot = (if segment_is_readable seg then 1 else 0) OR (if segment_is_writeable seg then 2 else 0) OR (if executable then 4 else 0)
           in ro_mprotect ops thread s (start seg) (seg_end seg - start seg) prot)"

text \<open>The inner loop of \<^verbatim>\<open>segment_set_exacutable_all\<close>: \<open>Inl\<close> is a return from the function. \<open>fuel\<close> bounds the threads that die.\<close>

fun set_executable_retry ::
    "('s, 'w::len word) rights_ops \<Rightarrow> bool \<Rightarrow> nat \<Rightarrow> ('w word, 'i, 't) segment_t \<Rightarrow> 's \<Rightarrow> ((bool + unit) \<times> 's) res" where
  "set_executable_retry ops executable 0 seg s = Inl Diverges"
| "set_executable_retry ops executable (Suc n) seg s =
     res_bind (ro_any_stopped ops s) (\<lambda>(thread, s).
     case thread of
       None \<Rightarrow> Inr (Inl True, s)
     | Some t \<Rightarrow>
         res_bind (segment_set_executable ops t executable seg s) (\<lambda>(success, s).
         res_bind (ro_put ops t s) (\<lambda>s'.
         if success then Inr (Inr (), s')
         else if \<not> ro_dead ops t s then Inr (Inl False, s')
         else set_executable_retry ops executable n seg s')))"

fun set_executable_each ::
    "('s, 'w::len word) rights_ops \<Rightarrow> bool \<Rightarrow> nat \<Rightarrow> ('w word, 'i, 't) segment_t list \<Rightarrow> 's \<Rightarrow> (bool \<times> 's) res" where
  "set_executable_each ops executable fuel [] s = Inr (True, s)"
| "set_executable_each ops executable fuel (seg # segs) s =
     res_bind (set_executable_retry ops executable fuel seg s) (\<lambda>(r, s).
     case r of Inl result \<Rightarrow> Inr (result, s) | Inr _ \<Rightarrow> set_executable_each ops executable fuel segs s)"

definition segment_set_exacutable_all ::
    "('s, 'w::len word) rights_ops \<Rightarrow> bool \<Rightarrow> nat \<Rightarrow> ('w word, 'i, 't) segments \<Rightarrow> 's \<Rightarrow> (bool \<times> 's) res" where
  "segment_set_exacutable_all ops executable fuel segs s = set_executable_each ops executable fuel (tree_vals segs) s"

end
