(* ===== verification/Segment_Mirror.thy ===== *)
theory Segment_Mirror
  imports Segment_Scan
begin

text \<open>
  The scan of \<open>Segment_Scan\<close> makes the table of segments a copy of the kernel's list. The laws of the operations it calls are the
  locale \<open>segment_laws\<close>: what they do to a segment when they return. They may also fail, and then the scan fails.
\<close>

section \<open>Loops over the segments\<close>

definition keyed :: "('a, 'i, 't) segments \<Rightarrow> bool" where
  "keyed segs \<longleftrightarrow> (\<forall>k seg. tree_map segs k = Some seg \<longrightarrow> start seg = k)"

lemma iter_keys: "map nkey (tree_iter segs) = map fst (inorder segs)"
  by (metis (no_types, lifting) tree_iter_entries entry_def fst_conv map_map comp_def map_eq_conv)

lemma iter_keys_distinct: "tree_ok segs \<Longrightarrow> distinct (map nkey (tree_iter segs))"
  by (simp add: iter_keys tree_ok_def strict_sorted_iff)

lemma iter_keys_dom: "set (map nkey (tree_iter segs)) = dom (tree_map segs)"
  by (simp add: iter_keys tree_map_def dom_map_of_conv_image_fst)

text \<open>A table whose segments are stored under their start.\<close>

definition seg_table :: "('a::linorder, 'i, 't) segments \<Rightarrow> bool" where
  "seg_table segs \<longleftrightarrow> tree_ok segs \<and> keyed segs"

text \<open>The body of a loop, when it returns, has changed nothing but the entry of its segment, by the relation \<open>R\<close>.\<close>

definition entry_step ::
    "(('a::linorder, 'i, 't) segment_t \<Rightarrow> ('a, 'i, 't) segment_t option \<Rightarrow> bool) \<Rightarrow> ('s, 'a, 'i, 't) segment_body \<Rightarrow> bool" where
  "entry_step R body \<longleftrightarrow> (\<forall>segs s k seg segs' s'. tree_ok segs \<longrightarrow> keyed segs \<longrightarrow> tree_map segs k = Some seg \<longrightarrow>
     body segs s seg = Inr (segs', s') \<longrightarrow>
     (\<exists>r. tree_ok segs' \<and> tree_map segs' = (tree_map segs)(k := r) \<and> R seg r \<and> (\<forall>x. r = Some x \<longrightarrow> start x = k)))"

text \<open>Then the loop changes every entry so.\<close>

lemma each_segment_spec:
  assumes "entry_step R body"
    and "tree_ok segs" "keyed segs" "distinct ks" "each_segment body ks segs s = Inr (segs', s')"
  shows "tree_ok segs' \<and> keyed segs' \<and> set ks \<subseteq> dom (tree_map segs)
    \<and> (\<forall>k. if k \<in> set ks then R (the (tree_map segs k)) (tree_map segs' k) else tree_map segs' k = tree_map segs k)"
  using assms(2-)
proof (induction ks arbitrary: segs s)
  case Nil
  then show ?case by simp
next
  case (Cons k ks)
  obtain seg segs1 s1 where seg: "tree_map segs k = Some seg" "body segs s seg = Inr (segs1, s1)" "each_segment body ks segs1 s1 = Inr (segs', s')"
    using Cons.prems(4) tree_get_map [OF Cons.prems(1)] by (auto simp: res_bind_eq_Inr split: option.splits)
  obtain r where 1: "tree_ok segs1" "tree_map segs1 = (tree_map segs)(k := r)" "R seg r" "\<forall>x. r = Some x \<longrightarrow> start x = k"
    using assms(1) [unfolded entry_step_def, rule_format, OF Cons.prems(1,2) seg(1,2)] by blast
  have k1: "keyed segs1" using Cons.prems(2) 1(2,4) by (simp add: keyed_def)
  have 2: "tree_ok segs'" "keyed segs'" "set ks \<subseteq> dom (tree_map segs1)"
    "\<forall>k. if k \<in> set ks then R (the (tree_map segs1 k)) (tree_map segs' k) else tree_map segs' k = tree_map segs1 k"
    using Cons.IH [OF 1(1) k1 _ seg(3)] Cons.prems(3) by auto
  have "if j \<in> set (k # ks) then R (the (tree_map segs j)) (tree_map segs' j) else tree_map segs' j = tree_map segs j" for j
  proof (cases "j = k")
    case True
    then have "tree_map segs' j = r" using 2(4) [THEN spec, of j] Cons.prems(3) 1(2) by auto
    then show ?thesis using True 1(3) seg(1) by simp
  next
    case False
    then show ?thesis using 2(4) [THEN spec, of j] 1(2) by auto
  qed
  moreover have "set (k # ks) \<subseteq> dom (tree_map segs)" using 2(3) 1(2) seg(1) Cons.prems(3) by (auto simp: dom_def split: if_splits)
  ultimately show ?case using 2(1,2) by blast
qed

lemma segment_iter_spec:
  assumes "entry_step R body" "seg_table segs" "segment_iter body segs s = Inr (segs', s')"
  shows "seg_table segs' \<and> (\<forall>k. case tree_map segs k of None \<Rightarrow> tree_map segs' k = None | Some seg \<Rightarrow> R seg (tree_map segs' k))"
proof -
  let ?ks = "map nkey (tree_iter segs)"
  have ok: "tree_ok segs" "keyed segs" using assms(2) by (simp_all add: seg_table_def)
  from each_segment_spec [OF assms(1) ok iter_keys_distinct [OF ok(1)] assms(3) [unfolded segment_iter_def]]
  have r: "tree_ok segs'" "keyed segs'"
    "\<forall>k. if k \<in> set ?ks then R (the (tree_map segs k)) (tree_map segs' k) else tree_map segs' k = tree_map segs k" by blast+
  have "case tree_map segs k of None \<Rightarrow> tree_map segs' k = None | Some seg \<Rightarrow> R seg (tree_map segs' k)" for k
    using r(3) [THEN spec, of k] unfolding iter_keys_dom by (cases "tree_map segs k") (auto simp: domIff)
  then show ?thesis using r(1,2) by (auto simp: seg_table_def)
qed

section \<open>A round of the scan\<close>

lemma inorder_mark_deleted: "inorder (mark_deleted segs) = map (\<lambda>(k, seg). (k, seg\<lparr>state := SEGMENT_STATE_DELETED\<rparr>)) (inorder segs)"
  by (simp add: mark_deleted_def inorder_map)

lemma mark_deleted_map: "tree_map (mark_deleted segs) k = map_option (\<lambda>seg. seg\<lparr>state := SEGMENT_STATE_DELETED\<rparr>) (tree_map segs k)"
  by (simp add: tree_map_def inorder_mark_deleted map_of_map)

lemma mark_deleted_ok: "tree_ok segs \<Longrightarrow> tree_ok (mark_deleted segs)"
  by (simp add: tree_ok_def inorder_mark_deleted comp_def split_def)

lemma address_is_trampoline_map:
  assumes "tree_ok segs"
  shows "address_is_trampoline segs a \<longleftrightarrow> (\<exists>k seg. tree_map segs k = Some seg \<and> trampolines seg \<noteq> 0
    \<and> trampolines seg \<le> a \<and> a < trampolines seg + trampolines_size seg)"
proof -
  have "address_is_trampoline segs a \<longleftrightarrow> (\<exists>seg \<in> set (tree_vals segs). trampolines seg \<noteq> 0
    \<and> trampolines seg \<le> a \<and> a < trampolines seg + trampolines_size seg)"
    unfolding address_is_trampoline_def segment_get_by_trampoline_def find_None_iff Let_def by blast
  then show ?thesis unfolding Bex_def tree_vals_map [OF assms] by blast
qed

text \<open>The entry of an address after the kernel's list has been read: old segments that are listed stay, new ones are added unless they
  are artificial.\<close>

definition notified ::
    "('w::len word \<Rightarrow> bool) \<Rightarrow> ('w word, 'i, 't) segment_t list \<Rightarrow> ('w word \<Rightarrow> ('w word, 'i, 't) segment_t option)
     \<Rightarrow> 'w word \<Rightarrow> ('w word, 'i, 't) segment_t option" where
  "notified art L m k =
     (case m k of
        Some old \<Rightarrow> Some (if \<exists>y \<in> set L. start y = k \<and> segment_equal y old then old\<lparr>state := SEGMENT_STATE_OLD\<rparr> else old)
      | None \<Rightarrow> if art k then None else map_option blank (find (\<lambda>y. start y = k) L))"

definition changed :: "('w::len word, 'i, 't) segment_t list \<Rightarrow> ('w word \<Rightarrow> ('w word, 'i, 't) segment_t option) \<Rightarrow> bool" where
  "changed L m \<longleftrightarrow> (\<exists>y \<in> set L. \<exists>old. m (start y) = Some old \<and> \<not> segment_equal y old)"

lemma segment_equal_state [simp]: "segment_equal y (x\<lparr>state := st\<rparr>) = segment_equal y x"
  by (simp add: segment_equal_def)

lemma notified_step:
  assumes "start y \<notin> start ` set L" "\<And>k. k \<noteq> start y \<Longrightarrow> m' k = m k" "m' (start y) = notified art [y] m (start y)"
  shows "notified art L m' = notified art (y # L) m"
proof
  fix k
  show "notified art L m' k = notified art (y # L) m k"
  proof (cases "k = start y")
    case True
    have n: "\<not> (\<exists>z \<in> set L. start z = start y)" using assms(1) by (metis image_eqI)
    then have "find (\<lambda>z. start z = start y) L = None" unfolding find_None_iff by blast
    then show ?thesis using assms(3) n unfolding True by (cases "m (start y)") (auto simp: notified_def)
  next
    case False
    then show ?thesis using assms(2) [OF False] by (auto simp: notified_def split: option.splits)
  qed
qed

lemma changed_step:
  assumes "start y \<notin> start ` set L" "\<And>k. k \<noteq> start y \<Longrightarrow> m' k = m k"
  shows "changed (y # L) m \<longleftrightarrow> (\<exists>old. m (start y) = Some old \<and> \<not> segment_equal y old) \<or> changed L m'"
proof -
  have "m' (start z) = m (start z)" if "z \<in> set L" for z using that assms by (metis image_eqI)
  then show ?thesis by (auto simp: changed_def)
qed

lemma find_start: "distinct (map start L) \<Longrightarrow> y \<in> set L \<Longrightarrow> find (\<lambda>z. start z = start y) L = Some y"
  by (induction L) (auto simp: image_iff)

text \<open>
  A copy of the list \<open>L\<close>, from the table \<open>before\<close>: every segment of the table is listed, with the same bounds, file and offset, and with
  the listed access rights unless it was in the table before; and every listed segment that is not artificial is in the table.
\<close>

definition copied ::
    "('w::len word, 'i, 't) segments \<Rightarrow> ('w word, 'i, 't) segment_t list \<Rightarrow> ('w word, 'i, 't) segments \<Rightarrow> bool" where
  "copied before L segs \<longleftrightarrow> (\<forall>k x. tree_map segs k = Some x \<longrightarrow> state x = SEGMENT_STATE_OLD
     \<and> (\<exists>y \<in> set L. start y = k \<and> segment_equal y x
          \<and> (case tree_map before k of None \<Rightarrow> flags x = flags y | Some old \<Rightarrow> x = old\<lparr>state := SEGMENT_STATE_OLD\<rparr>)))"

definition covers :: "('w::len word \<Rightarrow> bool) \<Rightarrow> ('w word, 'i, 't) segment_t list \<Rightarrow> ('w word, 'i, 't) segments \<Rightarrow> bool" where
  "covers art L segs \<longleftrightarrow> (\<forall>y \<in> set L. \<not> art (start y) \<longrightarrow> (\<exists>x. tree_map segs (start y) = Some x \<and> segment_equal y x))"

section \<open>The laws of the operations\<close>

text \<open>Where a segment is does not change; a segment is left without tracepoints and trampolines.\<close>

definition same_place :: "('a, 'i, 't) segment_t \<Rightarrow> ('a, 'i, 't) segment_t \<Rightarrow> bool" where
  "same_place x y \<longleftrightarrow> start x = start y \<and> seg_end x = seg_end y \<and> segment_t.filename x = segment_t.filename y \<and> file_offset x = file_offset y
     \<and> flags x = flags y"

definition untraced :: "('w::len word, 'i, 't) segment_t \<Rightarrow> bool" where
  "untraced seg \<longleftrightarrow> tracepoints seg = Leaf \<and> trampolines seg = 0"

lemma same_place_equal: "same_place x x' \<Longrightarrow> segment_equal y x' = segment_equal y x"
  by (simp add: same_place_def segment_equal_def)

lemma segment_equal_refl: "segment_equal x x"
  by (simp add: segment_equal_def)

lemma segment_equal_trans: "segment_equal x y \<Longrightarrow> segment_equal y z \<Longrightarrow> segment_equal x z"
  by (cases "segment_t.filename x"; cases "segment_t.filename y"; cases "segment_t.filename z") (auto simp: segment_equal_def split: if_splits)

lemma segment_equal_start: "segment_equal y x \<Longrightarrow> start y = start x \<and> seg_end y = seg_end x"
  by (simp add: segment_equal_def split: if_splits)

locale segment_laws =
  fixes ops :: "('s, 'w::len word, 'i, 't) segment_ops"
  assumes tree: "tree_library (so_tree ops)"
    and injections_init: "so_injections_init ops segs s seg = Inr (seg', s') \<Longrightarrow> same_place seg seg'"
    and tracepoints_init: "so_tracepoints_init ops segs s seg = Inr (seg', s') \<Longrightarrow> same_place seg seg'"
    and gone: "so_tracepoints_gone ops segs s seg = Inr (seg', s') \<Longrightarrow> same_place seg seg' \<and> untraced seg'"
    and detach: "so_tracepoints_detach ops segs s seg = Inr (seg', s') \<Longrightarrow> same_place seg seg' \<and> untraced seg'"
    and reset: "so_tracepoints_reset ops segs s seg = Inr (seg', s') \<Longrightarrow> same_place seg seg' \<and> untraced seg'"
begin

lemma segment_free_spec:
  assumes "tree_ok segs" "tree_map segs (start seg) \<noteq> None" "segment_free ops segs s seg = Inr (segs', s')"
  shows "tree_ok segs' \<and> tree_map segs' = (tree_map segs)(start seg := None)"
  using tree_library.remove_spec [OF tree assms(1,2)] assms(3) by (auto simp: segment_free_def res_bind_eq_Inr)

text \<open>Leaving: every segment is removed.\<close>

lemma leave_all:
  assumes "\<And>segs s seg seg' s'. f segs s seg = Inr (seg', s') \<Longrightarrow> same_place seg seg' \<and> untraced seg'" "seg_table segs"
    and "segment_iter (\<lambda>segs s seg. res_bind (f segs s seg) (\<lambda>(seg, s). segment_free ops segs s seg)) segs s = Inr (segs', s')"
  shows "segs' = Leaf"
proof -
  let ?body = "\<lambda>segs s seg. res_bind (f segs s seg) (\<lambda>(seg, s). segment_free ops segs s seg)"
  have "entry_step (\<lambda>_ r. r = None) ?body" unfolding entry_step_def
  proof (intro allI impI)
    fix segs s k seg segs' s' assume st: "tree_ok segs" "keyed segs" "tree_map segs k = Some seg" "?body segs s seg = Inr (segs', s')"
    then obtain seg1 s1 where f: "f segs s seg = Inr (seg1, s1)" "segment_free ops segs s1 seg1 = Inr (segs', s')"
      by (auto simp: res_bind_eq_Inr)
    then have "start seg1 = k" using st(2,3) assms(1) [OF f(1)] by (simp add: keyed_def same_place_def)
    then show "\<exists>r. tree_ok segs' \<and> tree_map segs' = (tree_map segs)(k := r) \<and> r = None \<and> (\<forall>x. r = Some x \<longrightarrow> start x = k)"
      using segment_free_spec [OF st(1) _ f(2)] st(3) by auto
  qed
  from segment_iter_spec [OF this assms(2,3)]
  have r: "tree_ok segs'" "\<forall>k. case tree_map segs k of None \<Rightarrow> tree_map segs' k = None | Some seg \<Rightarrow> tree_map segs' k = None"
    by (auto simp: seg_table_def)
  have "tree_map segs' k = None" for k using r(2) [THEN spec, of k] by (cases "tree_map segs k") auto
  then show ?thesis using tree_nonempty_map [OF r(1)] by auto
qed

lemma detach_all: "seg_table segs \<Longrightarrow> segment_detach ops segs s = Inr (segs', s') \<Longrightarrow> segs' = Leaf"
  unfolding segment_detach_def by (rule leave_all [OF detach])

lemma reset_all: "seg_table segs \<Longrightarrow> segment_reset ops segs s = Inr (segs', s') \<Longrightarrow> segs' = Leaf"
  unfolding segment_reset_def by (rule leave_all [OF reset])

text \<open>Reading the list. \<open>art\<close> are the addresses found to be artificial.\<close>

lemma scan_notify_spec:
  assumes "tree_ok segs" "keyed segs" "\<And>k. art k = (address_artificial ops s segs k = Inr True)"
    and "scan_notify ops s y (again, segs) = Inr (again', segs')"
  shows "again' = (again \<or> (\<exists>old. tree_map segs (start y) = Some old \<and> \<not> segment_equal y old))
    \<and> tree_ok segs' \<and> keyed segs' \<and> (\<forall>k. k \<noteq> start y \<longrightarrow> tree_map segs' k = tree_map segs k)
    \<and> tree_map segs' (start y) = notified art [y] (tree_map segs) (start y)"
proof (cases "tree_map segs (start y)")
  case None
  then obtain b where b: "address_artificial ops s segs (start y) = Inr b"
    using assms(1,4) by (auto simp: scan_notify_def tree_get_map res_bind_eq_Inr)
  show ?thesis
  proof (cases b)
    case True
    then show ?thesis using None assms b by (auto simp: scan_notify_def notified_def tree_get_map)
  next
    case False
    obtain u where "tree_insert (so_tree ops) segs (start y) (blank y) = Inr u" "tree_ok u"
      "tree_map u = (tree_map segs)(start y \<mapsto> blank y)"
      using tree_library.insert_spec [OF tree assms(1) None] by blast
    then show ?thesis using None False assms b
      by (auto simp: scan_notify_def notified_def tree_get_map segment_clone_def blank_def keyed_def)
  qed
next
  case (Some old)
  then obtain u where "tree_update segs (start y) (old\<lparr>state := SEGMENT_STATE_OLD\<rparr>) = Inr u" "tree_ok u"
    "tree_map u = (tree_map segs)(start y \<mapsto> old\<lparr>state := SEGMENT_STATE_OLD\<rparr>)"
    using update_spec [OF assms(1)] by blast
  then show ?thesis using Some assms by (auto simp: scan_notify_def notified_def tree_get_map keyed_def split: if_splits)
qed

lemma artificial_kept:
  assumes "tree_ok segs" "tree_ok segs'"
    and "\<And>k. k \<noteq> start y \<Longrightarrow> tree_map segs' k = tree_map segs k" "tree_map segs' (start y) = notified art [y] (tree_map segs) (start y)"
  shows "address_artificial ops s segs' k = address_artificial ops s segs k"
proof -
  let ?t = "\<lambda>seg. trampolines seg \<noteq> 0 \<and> trampolines seg \<le> k \<and> k < trampolines seg + trampolines_size seg"
  have "(\<exists>seg. tree_map segs' j = Some seg \<and> ?t seg) = (\<exists>seg. tree_map segs j = Some seg \<and> ?t seg)" for j
    using assms(3) [of j] assms(4)
    by (cases "j = start y"; cases "tree_map segs (start y)") (auto simp: notified_def blank_def)
  then have "address_is_trampoline segs' k = address_is_trampoline segs k"
    unfolding address_is_trampoline_map [OF assms(1)] address_is_trampoline_map [OF assms(2)] by blast
  then show ?thesis by (simp add: address_artificial_def)
qed

lemma notify_all_spec:
  assumes "tree_ok segs" "keyed segs" "\<And>k. art k = (address_artificial ops s segs k = Inr True)" "distinct (map start L)"
    and "notify_all ops s L (again, segs) = Inr (again', segs')"
  shows "again' = (again \<or> changed L (tree_map segs)) \<and> tree_ok segs' \<and> keyed segs' \<and> tree_map segs' = notified art L (tree_map segs)"
  using assms
proof (induction L arbitrary: again segs)
  case Nil
  have "tree_map segs = notified art [] (tree_map segs)" by (rule ext) (simp add: notified_def split: option.splits)
  then show ?case using Nil.prems(1,2,5) by (simp add: changed_def)
next
  case (Cons y L)
  let ?a = "again \<or> (\<exists>old. tree_map segs (start y) = Some old \<and> \<not> segment_equal y old)"
  obtain a1 segs1 where run: "scan_notify ops s y (again, segs) = Inr (a1, segs1)" "notify_all ops s L (a1, segs1) = Inr (again', segs')"
    using Cons.prems(5) by (auto simp: res_bind_eq_Inr)
  have 1: "a1 = ?a" "tree_ok segs1" "keyed segs1"
    "\<And>k. k \<noteq> start y \<Longrightarrow> tree_map segs1 k = tree_map segs k" "tree_map segs1 (start y) = notified art [y] (tree_map segs) (start y)"
    using scan_notify_spec [OF Cons.prems(1-3) run(1)] by blast+
  have y: "start y \<notin> start ` set L" "distinct (map start L)" using Cons.prems(4) by auto
  have "art k = (address_artificial ops s segs1 k = Inr True)" for k
    using Cons.prems(3) [of k] artificial_kept [OF Cons.prems(1) 1(2,4,5)] by simp
  from Cons.IH [OF 1(2,3) this y(2) run(2)]
  have 2: "again' = (?a \<or> changed L (tree_map segs1))" "tree_ok segs'" "keyed segs'" "tree_map segs' = notified art L (tree_map segs1)"
    unfolding 1(1) by blast+
  have "tree_map segs' = notified art (y # L) (tree_map segs)" using notified_step [OF y(1) 1(4,5)] 2(4) by simp
  moreover have "(again \<or> changed (y # L) (tree_map segs)) = (?a \<or> changed L (tree_map segs1))"
    using changed_step [where m = "tree_map segs" and m' = "tree_map segs1", OF y(1) 1(4)] by blast
  ultimately show ?case using 2(1-3) by simp
qed

text \<open>The second pass.\<close>

definition settled :: "('w word, 'i, 't) segment_t \<Rightarrow> ('w word, 'i, 't) segment_t option \<Rightarrow> bool" where
  "settled seg r = (case state seg of
     SEGMENT_STATE_OLD \<Rightarrow> r = Some seg
   | SEGMENT_STATE_DELETED \<Rightarrow> r = None
   | SEGMENT_STATE_NEW \<Rightarrow> (\<exists>x. r = Some x \<and> same_place seg x \<and> state x = SEGMENT_STATE_OLD))"

lemma settle_step: "entry_step settled (scan_settle ops)"
  unfolding entry_step_def
proof (intro allI impI)
  fix segs s k seg segs' s'
  assume st: "tree_ok segs" "keyed segs" "tree_map segs k = Some seg" "scan_settle ops segs s seg = Inr (segs', s')"
  have k: "start seg = k" using st(2,3) by (simp add: keyed_def)
  show "\<exists>r. tree_ok segs' \<and> tree_map segs' = (tree_map segs)(k := r) \<and> settled seg r \<and> (\<forall>x. r = Some x \<longrightarrow> start x = k)"
  proof (cases "state seg")
    case SEGMENT_STATE_NEW
    obtain seg1 s1 seg2 where 1: "so_injections_init ops segs s seg = Inr (seg1, s1)" "so_tracepoints_init ops segs s1 seg1 = Inr (seg2, s')"
        "tree_update segs (start seg2) (seg2\<lparr>state := SEGMENT_STATE_OLD\<rparr>) = Inr segs'"
      using st(4) SEGMENT_STATE_NEW by (auto simp: scan_settle_def res_bind_eq_Inr)
    have p: "same_place seg seg2" using injections_init [OF 1(1)] tracepoints_init [OF 1(2)] by (simp add: same_place_def)
    then have k2: "start seg2 = k" using k by (simp add: same_place_def)
    let ?x = "seg2\<lparr>state := SEGMENT_STATE_OLD\<rparr>"
    have "tree_ok segs'" "tree_map segs' = (tree_map segs)(k \<mapsto> ?x)"
      using update_spec [OF st(1), of k ?x] st(3) 1(3) k2 by auto
    moreover have "settled seg (Some ?x)" using SEGMENT_STATE_NEW p by (simp add: settled_def same_place_def)
    ultimately show ?thesis using k2 by (intro exI [of _ "Some ?x"]) simp
  next
    case SEGMENT_STATE_OLD
    then show ?thesis using st k by (intro exI [of _ "Some seg"]) (auto simp: scan_settle_def settled_def)
  next
    case SEGMENT_STATE_DELETED
    obtain seg1 s1 where 1: "so_tracepoints_gone ops segs s seg = Inr (seg1, s1)" "segment_free ops segs s1 seg1 = Inr (segs', s')"
      using st(4) SEGMENT_STATE_DELETED by (auto simp: scan_settle_def res_bind_eq_Inr)
    have "start seg1 = k" using gone [OF 1(1)] k by (simp add: same_place_def)
    then show ?thesis using segment_free_spec [OF st(1) _ 1(2)] st(3) SEGMENT_STATE_DELETED by (auto simp: settled_def)
  qed
qed

text \<open>What the entries are before the second pass.\<close>

lemma notified_cases:
  assumes "notified art L (tree_map (mark_deleted segs)) k = Some seg"
  obtains (old) old y where "tree_map segs k = Some old" "y \<in> set L" "start y = k" "segment_equal y old" "seg = old\<lparr>state := SEGMENT_STATE_OLD\<rparr>"
  | (deleted) old where "tree_map segs k = Some old" "seg = old\<lparr>state := SEGMENT_STATE_DELETED\<rparr>"
      "\<And>y. y \<in> set L \<Longrightarrow> start y = k \<Longrightarrow> \<not> segment_equal y old"
  | (new) y where "tree_map segs k = None" "y \<in> set L" "start y = k" "seg = blank y"
proof (cases "tree_map segs k")
  case None
  then have f: "map_option blank (find (\<lambda>y. start y = k) L) = Some seg"
    using assms by (simp add: notified_def mark_deleted_map split: if_splits)
  then obtain y where y: "find (\<lambda>y. start y = k) L = Some y" "seg = blank y" by auto
  then have "y \<in> set L" "start y = k" unfolding find_Some_iff by auto
  then show ?thesis using new None y(2) by blast
next
  case (Some old)
  then show ?thesis using assms old [OF Some] deleted [OF Some]
    by (auto simp: notified_def mark_deleted_map split: if_splits)
qed

lemma settled_copied:
  assumes "tree_map mid = notified art L (tree_map (mark_deleted segs))"
    and "\<And>k. case tree_map mid k of None \<Rightarrow> tree_map segs' k = None | Some seg \<Rightarrow> settled seg (tree_map segs' k)"
    and "distinct (map start L)"
  shows "copied segs L segs'" "\<not> changed L (tree_map segs) \<Longrightarrow> covers art L segs'"
proof -
  show "copied segs L segs'" unfolding copied_def
  proof (intro allI impI)
    fix k x assume x: "tree_map segs' k = Some x"
    then obtain seg where seg: "tree_map mid k = Some seg" "settled seg (Some x)" using assms(2) [of k] by (cases "tree_map mid k") auto
    have "notified art L (tree_map (mark_deleted segs)) k = Some seg" using seg(1) assms(1) by simp
    then show "state x = SEGMENT_STATE_OLD \<and> (\<exists>y \<in> set L. start y = k \<and> segment_equal y x
        \<and> (case tree_map segs k of None \<Rightarrow> flags x = flags y | Some old \<Rightarrow> x = old\<lparr>state := SEGMENT_STATE_OLD\<rparr>))"
    proof (cases rule: notified_cases)
      case (new y)
      then have "same_place (blank y) x" "state x = SEGMENT_STATE_OLD" using seg(2) by (auto simp: settled_def blank_def)
      then have "segment_equal y x" "flags x = flags y" by (simp_all add: same_place_def segment_equal_def blank_def)
      then show ?thesis using new \<open>state x = SEGMENT_STATE_OLD\<close> by auto
    qed (use seg(2) in \<open>auto simp: settled_def\<close>)
  qed
next
  assume nc: "\<not> changed L (tree_map segs)"
  show "covers art L segs'" unfolding covers_def
  proof (intro ballI impI)
    fix y assume y: "y \<in> set L" "\<not> art (start y)"
    show "\<exists>x. tree_map segs' (start y) = Some x \<and> segment_equal y x"
    proof (cases "tree_map segs (start y)")
      case None
      then have "tree_map mid (start y) = Some (blank y)"
        using y find_start [OF assms(3) y(1)] assms(1) by (simp add: notified_def mark_deleted_map)
      then obtain x where "tree_map segs' (start y) = Some x" "same_place (blank y) x"
        using assms(2) [of "start y"] by (auto simp: settled_def blank_def)
      then show ?thesis by (simp add: same_place_def segment_equal_def blank_def)
    next
      case (Some old)
      then have e: "segment_equal y old" using nc y(1) by (auto simp: changed_def)
      then have "tree_map mid (start y) = Some (old\<lparr>state := SEGMENT_STATE_OLD\<rparr>)"
        using y(1) Some assms(1) by (auto simp: notified_def mark_deleted_map)
      then show ?thesis using assms(2) [of "start y"] e by (simp add: settled_def)
    qed
  qed
qed

lemma scan_round_spec:
  assumes "seg_table segs" "so_listing ops s = Inr L" "distinct (map start L)" "scan_round ops segs s = Inr (again, segs', s')"
  shows "again = changed L (tree_map segs)" "seg_table segs'" "copied segs L segs'"
    "\<not> again \<Longrightarrow> covers (\<lambda>a. address_artificial ops s segs a = Inr True) L segs'"
proof -
  let ?m = "mark_deleted segs" and ?art = "\<lambda>a. address_artificial ops s segs a = Inr True"
  have t: "tree_ok segs" "keyed segs" using assms(1) by (simp_all add: seg_table_def)
  have m: "tree_ok ?m" "keyed ?m" using t mark_deleted_ok by (auto simp: keyed_def mark_deleted_map)
  have c: "changed L (tree_map ?m) = changed L (tree_map segs)" by (fastforce simp: changed_def mark_deleted_map)
  have "(\<exists>seg. tree_map ?m j = Some seg \<and> trampolines seg \<noteq> 0 \<and> trampolines seg \<le> k \<and> k < trampolines seg + trampolines_size seg) =
      (\<exists>seg. tree_map segs j = Some seg \<and> trampolines seg \<noteq> 0 \<and> trampolines seg \<le> k \<and> k < trampolines seg + trampolines_size seg)" for j k
    by (cases "tree_map segs j") (auto simp: mark_deleted_map)
  then have "address_is_trampoline ?m k = address_is_trampoline segs k" for k
    unfolding address_is_trampoline_map [OF m(1)] address_is_trampoline_map [OF t(1)] by blast
  then have art: "?art k = (address_artificial ops s ?m k = Inr True)" for k by (simp add: address_artificial_def)
  obtain mid where run: "notify_all ops s L (False, ?m) = Inr (again, mid)" "segment_iter (scan_settle ops) mid s = Inr (segs', s')"
    using assms(2,4) by (auto simp: scan_round_def res_bind_eq_Inr)
  have n: "again = changed L (tree_map segs)" "tree_ok mid" "keyed mid" "tree_map mid = notified ?art L (tree_map ?m)"
    using notify_all_spec [OF m art assms(3) run(1)] unfolding c by auto
  have "seg_table mid" using n(2,3) by (simp add: seg_table_def)
  then have r: "seg_table segs'"
    "\<And>k. case tree_map mid k of None \<Rightarrow> tree_map segs' k = None | Some seg \<Rightarrow> settled seg (tree_map segs' k)"
    using segment_iter_spec [OF settle_step _ run(2)] by blast+
  show "again = changed L (tree_map segs)" "seg_table segs'" by (fact n(1), fact r(1))
  show "copied segs L segs'" "\<not> again \<Longrightarrow> covers ?art L segs'"
    using settled_copied [OF n(4) r(2) assms(3)] n(1) by blast+
qed

end

text \<open>A round after which the list shows the same segments is the last one.\<close>

lemma copied_unchanged:
  assumes "copied before L segs" "\<And>x y. x \<in> set L \<Longrightarrow> y \<in> set L' \<Longrightarrow> start x = start y \<Longrightarrow> segment_equal y x"
  shows "\<not> changed L' (tree_map segs)"
proof
  assume "changed L' (tree_map segs)"
  then obtain y old where y: "y \<in> set L'" "tree_map segs (start y) = Some old" "\<not> segment_equal y old" by (auto simp: changed_def)
  then obtain x where "x \<in> set L" "start x = start y" "segment_equal x old" using assms(1) by (fastforce simp: copied_def)
  then show False using assms(2) [OF _ y(1)] segment_equal_trans [of y x old] y(3) by blast
qed

section \<open>The order of the list\<close>

text \<open>The list as the kernel writes it: segments that are not empty, in the order of their addresses.\<close>

definition listing_ok :: "('w::len word, 'i, 't) segment_t list \<Rightarrow> bool" where
  "listing_ok L \<longleftrightarrow> sorted_wrt (\<lambda>x y. seg_end x \<le> start y) L \<and> (\<forall>x \<in> set L. start x < seg_end x)"

lemma listing_distinct: "listing_ok L \<Longrightarrow> distinct (map start L)"
proof (induction L)
  case (Cons x L)
  then have "start x < start y" if "y \<in> set L" for y using that by (auto simp: listing_ok_def intro: less_le_trans)
  then show ?case using Cons by (force simp: listing_ok_def)
qed simp

lemma listing_ordered:
  assumes "listing_ok L" "x \<in> set L" "y \<in> set L" "start x < start y"
  shows "seg_end x \<le> start y"
proof -
  obtain i j where ij: "i < length L" "L ! i = x" "j < length L" "L ! j = y" using assms(2,3) by (meson in_set_conv_nth)
  have w: "sorted_wrt (\<lambda>x y. seg_end x \<le> start y) L" and "start y < seg_end y" using assms(1,3) by (auto simp: listing_ok_def)
  then have "\<not> j < i" using sorted_wrt_nth_less [OF w, of j i] ij assms(4) by auto
  moreover have "i \<noteq> j" using ij assms(4) by auto
  ultimately show ?thesis using sorted_wrt_nth_less [OF w, of i j] ij by simp
qed

lemma copied_segments_ok:
  assumes "tree_ok segs" "copied before L segs" "listing_ok L"
  shows "segments_ok segs"
proof -
  have e: "\<exists>y \<in> set L. start y = k \<and> start s = k \<and> seg_end y = seg_end s" if "(k, s) \<in> set (inorder segs)" for k s
    using assms(2) that segment_equal_start unfolding copied_def tree_ok_map_entry [OF assms(1)] by metis
  have "\<forall>(k, s) \<in> set (inorder segs). k = start s \<and> start s < seg_end s"
    using e assms(3) by (fastforce simp: listing_ok_def)
  moreover have "sorted_wrt (\<lambda>e e'. fst e < fst e') (inorder segs)"
    using assms(1) by (simp add: tree_ok_def sorted_wrt_map)
  then have "sorted_wrt (\<lambda>e e'. seg_end (snd e) \<le> start (snd e')) (inorder segs)"
  proof (rule sorted_wrt_mono_rel [rotated])
    fix a b assume ab: "a \<in> set (inorder segs)" "b \<in> set (inorder segs)" "fst a < fst b"
    obtain x y where "x \<in> set L" "start x = fst a" "seg_end x = seg_end (snd a)" "y \<in> set L" "start y = fst b" "start (snd b) = fst b"
      using e [of "fst a" "snd a"] e [of "fst b" "snd b"] ab by auto
    then show "seg_end (snd a) \<le> start (snd b)" using listing_ordered [OF assms(3), of x y] ab(3) by simp
  qed
  ultimately show ?thesis using assms(1) by (simp add: segments_ok_def)
qed

end
