(* ===== verification/Segment_Arm.thy ===== *)
theory Segment_Arm
  imports Segment_Mirror Injection Tracepoint_Correct Procfs_Maps
begin

text \<open>
  The segments of a process on 32-bit ARM: the operations of \<open>Segment_Scan\<close> on the injections of \<open>Injection\<close> and the tracepoints of
  \<open>Tracepoint\<close>, with the kernel's list read by \<open>Procfs_Maps\<close>, and the copies of tracepoints after a fork. A segment holds the
  pointer to its injection; the tracepoints use what it points to.
\<close>

section \<open>Definitions\<close>

type_synonym arm_segment = "(u32, nat, tracepoint_t) segment_t"

definition with_pointer :: "'j option \<Rightarrow> (u32, 'i, 't) segment_t \<Rightarrow> (u32, 'j, 't) segment_t" where
  "with_pointer i seg = \<lparr>start = start seg, seg_end = seg_end seg, filename = segment_t.filename seg, file_offset = file_offset seg,
     flags = flags seg, state = state seg, injection = i, tracepoints = tracepoints seg, trampolines = trampolines seg,
     trampolines_size = trampolines_size seg, trampoline_stolen = trampoline_stolen seg\<rparr>"

definition injection_view :: "'t istate \<Rightarrow> nat option \<Rightarrow> Tracepoint.injection_t option res" where
  "injection_view s i =
     (case i of
        None \<Rightarrow> Inr None
      | Some p \<Rightarrow>
          res_bind (injection_at s p) (\<lambda>i.
          res_bind (injectable_at (s_registry s) (i_injectable i)) (\<lambda>x.
          Inr (Some \<lparr>injection_address = i_address i, injection_injfile = injfile x\<rparr>))))"

text \<open>The table as the thread sees it.\<close>

definition thread_view :: "arm_segment \<Rightarrow> (u32, unit, unit) segment_t" where
  "thread_view seg = \<lparr>start = start seg, seg_end = seg_end seg, filename = segment_t.filename seg, file_offset = file_offset seg,
     flags = flags seg, state = state seg, injection = None, tracepoints = Leaf, trampolines = trampolines seg,
     trampolines_size = trampolines_size seg, trampoline_stolen = trampoline_stolen seg\<rparr>"

definition on_thread ::
    "('m traced \<Rightarrow> traced_segment \<Rightarrow> (traced_segment \<times> 'm traced) res) \<Rightarrow> (u32, arm_segment) tree_t \<Rightarrow> 'm traced istate \<Rightarrow> arm_segment
     \<Rightarrow> (arm_segment \<times> 'm traced istate) res" where
  "on_thread f segs s seg =
     res_bind (injection_view s (injection seg)) (\<lambda>i.
     res_bind (f ((s_thread s)\<lparr>t_segments := map_tree (\<lambda>(k, seg). (k, thread_view seg)) segs\<rparr>) (with_pointer i seg)) (\<lambda>(seg', t).
     Inr (with_pointer (injection seg) seg', s\<lparr>s_thread := t\<rparr>)))"

definition arm_segment_ops ::
    "(u32, arm_segment) tree_lib \<Rightarrow> 'm traced icalls \<Rightarrow> ('m \<Rightarrow> string list) \<Rightarrow> (u32, tracepoint_t) tree_lib \<Rightarrow> (u32, u32) tree_lib
     \<Rightarrow> (arm_template \<Rightarrow> arm_field_id template_t) \<Rightarrow> 'm hooks \<Rightarrow> ('m, u32) inferior_ops \<Rightarrow> 'm fncalls \<Rightarrow> u32 \<Rightarrow> nat
     \<Rightarrow> ('m traced istate, u32, nat, tracepoint_t) segment_ops" where
  "arm_segment_ops slib c maps tlib lib templates h b fc pagesize fuel =
     \<lparr>so_tree = slib,
      so_listing = (\<lambda>s. procfs_iter_lines False (maps (t_mem (s_thread s)))),
      so_is_injection = (\<lambda>s a. res_bind (injection_get_by_address s (ic_process c) a) (\<lambda>i. Inr (i \<noteq> None))),
      so_injections_init = (\<lambda>_ s seg. injections_init c seg s),
      so_tracepoints_init = on_thread (tracepoints_init tlib lib templates h b fc pagesize fuel),
      so_tracepoints_gone = on_thread (tracepoints_gone tlib lib h b fc fuel),
      so_tracepoints_reset = on_thread (tracepoints_reset tlib lib h b fc fuel),
      so_tracepoints_detach = on_thread (tracepoints_detach tlib lib h b fc fuel),
      so_release = (\<lambda>s p. set_references s p (\<lambda>n. n - 1))\<rparr>"

subsection \<open>Fork\<close>

text \<open>The tracepoints of a child: each is copied with its key, and the jumps that the parent has are installed.\<close>

definition tracepoint_clone :: "(u32, u32) tree_lib \<Rightarrow> (u32, u32) tree_t \<Rightarrow> tracepoint_t \<Rightarrow> bool \<Rightarrow> (tracepoint_t \<times> (u32, u32) tree_t) res" where
  "tracepoint_clone lib jumps tp with_jump =
     (if with_jump then res_bind (jump_install lib jumps (tp_address tp) (tp_trampoline tp)) (\<lambda>jumps. Inr (tp, jumps)) else Inr (tp, jumps))"

fun fork_return_jumps :: "(u32, u32) tree_lib \<Rightarrow> (u32, u32) tree_t \<Rightarrow> (u32 \<times> u32) list \<Rightarrow> (u32, u32) tree_t \<Rightarrow> (u32, u32) tree_t res" where
  "fork_return_jumps lib parent [] jumps = Inr jumps"
| "fork_return_jumps lib parent ((from, to) # js) jumps =
     res_bind (if jump_get parent from \<noteq> 0 then jump_install lib jumps from to else Inr jumps) (fork_return_jumps lib parent js)"

fun fork_tracepoints ::
    "(u32, tracepoint_t) tree_lib \<Rightarrow> (u32, u32) tree_lib \<Rightarrow> (u32, u32) tree_t \<Rightarrow> (u32 \<times> tracepoint_t) list
     \<Rightarrow> (u32, tracepoint_t) tree_t \<Rightarrow> (u32, u32) tree_t \<Rightarrow> ((u32, tracepoint_t) tree_t \<times> (u32, u32) tree_t) res" where
  "fork_tracepoints tlib lib parent [] ts jumps = Inr (ts, jumps)"
| "fork_tracepoints tlib lib parent ((key, tp) # es) ts jumps =
     (let with_jump = jump_get parent (tp_address tp) \<noteq> 0
      in res_bind (fork_return_jumps lib parent (arm_template_iter_return_address tp) jumps) (\<lambda>jumps.
         res_bind (tracepoint_clone lib jumps tp with_jump) (\<lambda>(tp, jumps).
         res_bind (tree_insert tlib ts key tp) (\<lambda>ts. fork_tracepoints tlib lib parent es ts jumps))))"

text \<open>\<open>proc\<close> is the child, \<open>jumps\<close> its jump table and \<open>pjumps\<close> that of the parent.\<close>

definition tracepoints_fork ::
    "(u32, tracepoint_t) tree_lib \<Rightarrow> (u32, u32) tree_lib \<Rightarrow> nat \<Rightarrow> (u32, u32) tree_t \<Rightarrow> 'm istate \<times> (u32, u32) tree_t \<Rightarrow> arm_segment \<Rightarrow> arm_segment
     \<Rightarrow> (arm_segment \<times> 'm istate \<times> (u32, u32) tree_t) res" where
  "tracepoints_fork tlib lib proc pjumps = (\<lambda>(s, jumps) parent child.
     res_bind (case injection parent of
                 None \<Rightarrow> Inr (child, s)
               | Some p \<Rightarrow>
                   res_bind (injection_at s p) (\<lambda>i.
                   case injection_get s proc (i_injectable i) of
                     None \<Rightarrow> Inl Assertion
                   | Some q \<Rightarrow> res_bind (set_references s q (\<lambda>n. n + 1)) (\<lambda>s. Inr (child\<lparr>injection := Some q\<rparr>, s)))) (\<lambda>(child, s).
     let child = child\<lparr>trampolines := trampolines parent, trampolines_size := trampolines_size parent,
                        trampoline_stolen := trampoline_stolen parent\<rparr>
     in res_bind (fork_tracepoints tlib lib pjumps (map entry (tree_iter (tracepoints parent))) (tracepoints child) jumps) (\<lambda>(ts, jumps).
        Inr (child\<lparr>tracepoints := ts\<rparr>, s, jumps))))"

subsection \<open>Look-ups\<close>

definition tracepoint_get_by_trampoline_address ::
    "(arm_template \<Rightarrow> arm_field_id template_t) \<Rightarrow> (u32, 'i, tracepoint_t) segment_t \<Rightarrow> u32 \<Rightarrow> tracepoint_t option" where
  "tracepoint_get_by_trampoline_address templates seg address =
     find (\<lambda>tp. let low = tp_trampoline tp; high = low + of_nat (length (bindata (templates (tp_template tp))))
                in low \<le> address \<and> address < high) (tree_vals (tracepoints seg))"

definition tracepoint_get_by_runtime_address :: "(u32, 'i, tracepoint_t) segments \<Rightarrow> u32 \<Rightarrow> tracepoint_t option" where
  "tracepoint_get_by_runtime_address segs address =
     (case segment_get segs address of None \<Rightarrow> None | Some seg \<Rightarrow> tree_get (tracepoints seg) address)"

section \<open>The laws of the operations\<close>

text \<open>Whatever the injections and the tracepoints of a segment do, the segment stays where it is.\<close>

lemma create_loop_place: "create_loop tlib templates h b base tps seg t = Inr (seg', t') \<Longrightarrow> same_place seg seg'"
proof (induction tps arbitrary: seg t)
  case Nil
  then show ?case by (simp add: same_place_def)
next
  case (Cons x tps)
  then show ?case by (cases x) (fastforce simp: res_bind_eq_Inr same_place_def split: if_splits option.splits)
qed

lemma install_loop_place: "install_loop templates lib h b es seg t = Inr (r, seg', t') \<Longrightarrow> same_place seg seg'"
proof (induction es arbitrary: seg t)
  case Nil
  then show ?case by (simp add: same_place_def)
next
  case (Cons x es)
  then show ?case by (cases x) (fastforce simp: res_bind_eq_Inr same_place_def Let_def split: if_splits)
qed

lemma cleanup_place: "tracepoints_cleanup tlib lib h b fc fuel t seg u f = Inr (seg', t') \<Longrightarrow> same_place seg seg' \<and> untraced seg'"
  by (auto simp: tracepoints_cleanup_def res_bind_eq_Inr same_place_def untraced_def)

lemma allocate_place: "allocate_trampoline fc pagesize fuel t seg = Inr (ok, seg', t') \<Longrightarrow> same_place seg seg'"
  using allocate_trampoline_keeps [of fc pagesize fuel t seg ok seg' t'] by (simp add: same_tracepoints_def same_place_def)

lemma same_place_trans: "same_place x y \<Longrightarrow> same_place y z \<Longrightarrow> same_place x z"
  by (simp add: same_place_def)

lemma tracepoints_init_place:
  assumes "tracepoints_init tlib lib templates h b fc pagesize fuel t seg = Inr (seg', t')"
  shows "same_place seg seg'"
proof (cases "injection seg = None \<or> (\<exists>i. injection seg = Some i \<and> inj_tpoints (injection_injfile i) = None)")
  case True
  then show ?thesis using assms by (auto simp: tracepoints_init_def same_place_def)
next
  case False
  then obtain i tps sg u where c: "injection seg = Some i" "create_loop tlib templates h b (injection_address i) tps (seg\<lparr>trampolines_size := 0\<rparr>) t = Inr (sg, u)"
      "(if tree_empty (tracepoints sg) then Inr (sg, u)
        else res_bind (allocate_trampoline fc pagesize fuel u sg) (\<lambda>(ok, seg, t).
          if \<not> ok then tracepoints_cleanup tlib lib h b fc fuel t (seg\<lparr>trampolines := 0\<rparr>) True True
          else res_bind (install_loop templates lib h b (map entry (tree_iter (tracepoints seg))) seg t) (\<lambda>(ok, seg, t).
               if ok then Inr (seg, t) else tracepoints_cleanup tlib lib h b fc fuel t seg True True))) = Inr (seg', t')"
    using assms by (auto simp: tracepoints_init_def res_bind_eq_Inr)
  have sg: "same_place seg sg" using create_loop_place [OF c(2)] by (simp add: same_place_def)
  show ?thesis
  proof (cases "tree_empty (tracepoints sg)")
    case True
    then show ?thesis using c(3) sg by simp
  next
    case False
    then obtain ok sg1 t1 where a: "allocate_trampoline fc pagesize fuel u sg = Inr (ok, sg1, t1)"
        "(if \<not> ok then tracepoints_cleanup tlib lib h b fc fuel t1 (sg1\<lparr>trampolines := 0\<rparr>) True True
          else res_bind (install_loop templates lib h b (map entry (tree_iter (tracepoints sg1))) sg1 t1) (\<lambda>(ok, seg, t).
               if ok then Inr (seg, t) else tracepoints_cleanup tlib lib h b fc fuel t seg True True)) = Inr (seg', t')"
      using c(3) by (auto simp: res_bind_eq_Inr simp del: if_not_P)
    note p = same_place_trans [OF sg allocate_place [OF a(1)]]
    show ?thesis
    proof (cases ok)
      case True
      then obtain ok2 sg2 t2 where il: "install_loop templates lib h b (map entry (tree_iter (tracepoints sg1))) sg1 t1 = Inr (ok2, sg2, t2)"
          "(if ok2 then Inr (sg2, t2) else tracepoints_cleanup tlib lib h b fc fuel t2 sg2 True True) = Inr (seg', t')"
        using a(2) by (auto simp: res_bind_eq_Inr)
      note q = same_place_trans [OF p install_loop_place [OF il(1)]]
      show ?thesis
      proof (cases ok2)
        case True
        then show ?thesis using il(2) q by simp
      next
        case False
        then have "same_place sg2 seg'" using il(2) cleanup_place [of tlib lib h b fc fuel t2 sg2 True True seg' t'] by simp
        then show ?thesis by (rule same_place_trans [OF q])
      qed
    next
      case False
      then have "same_place (sg1\<lparr>trampolines := 0\<rparr>) seg'"
        using a(2) cleanup_place [of tlib lib h b fc fuel t1 "sg1\<lparr>trampolines := 0\<rparr>" True True seg' t'] by simp
      then show ?thesis using p by (simp add: same_place_def)
    qed
  qed
qed

lemma on_thread_place:
  assumes "on_thread f segs s seg = Inr (seg', s')"
  shows "(\<And>t sg sg' t'. f t sg = Inr (sg', t') \<Longrightarrow> same_place sg sg') \<Longrightarrow> same_place seg seg'"
    and "(\<And>t sg sg' t'. f t sg = Inr (sg', t') \<Longrightarrow> same_place sg sg' \<and> untraced sg') \<Longrightarrow> same_place seg seg' \<and> untraced seg'"
proof -
  obtain t i sg' t' where f: "f t (with_pointer i seg) = Inr (sg', t')" "seg' = with_pointer (injection seg) sg'"
    using assms by (auto simp: on_thread_def res_bind_eq_Inr)
  show "(\<And>t sg sg' t'. f t sg = Inr (sg', t') \<Longrightarrow> same_place sg sg') \<Longrightarrow> same_place seg seg'"
    using f by (fastforce simp: same_place_def with_pointer_def)
  show "(\<And>t sg sg' t'. f t sg = Inr (sg', t') \<Longrightarrow> same_place sg sg' \<and> untraced sg') \<Longrightarrow> same_place seg seg' \<and> untraced seg'"
    using f by (fastforce simp: same_place_def untraced_def with_pointer_def)
qed

lemma injections_init_place: "injections_init c seg s = Inr (seg', s') \<Longrightarrow> same_place seg seg'"
  by (auto simp: injections_init_def res_bind_eq_Inr same_place_def split: option.splits if_splits)

lemma arm_segment_laws:
  assumes "tree_library slib"
  shows "segment_laws (arm_segment_ops slib c maps tlib lib templates h b fc pagesize fuel)"
proof (rule segment_laws.intro, goal_cases)
  case 1
  then show ?case using assms by (simp add: arm_segment_ops_def)
next
  case 2
  then show ?case by (simp add: arm_segment_ops_def injections_init_place)
next
  case 3
  then show ?case unfolding arm_segment_ops_def segment_ops.simps by (rule on_thread_place(1)) (rule tracepoints_init_place)
next
  case 4
  then show ?case unfolding arm_segment_ops_def segment_ops.simps
    by (rule on_thread_place(2)) (rule cleanup_place, simp only: tracepoints_gone_def)
next
  case 5
  then show ?case unfolding arm_segment_ops_def segment_ops.simps
    by (rule on_thread_place(2)) (rule cleanup_place, simp only: tracepoints_detach_def)
next
  case 6
  then show ?case unfolding arm_segment_ops_def segment_ops.simps
    by (rule on_thread_place(2)) (rule cleanup_place, simp only: tracepoints_reset_def)
qed

interpretation arm_segments: segment_laws "arm_segment_ops (leaf_lib d) c maps tlib lib templates h b fc pagesize fuel"
  by (rule arm_segment_laws [OF leaf_lib_contract])

section \<open>Fork\<close>

lemma fork_tracepoints_spec:
  assumes "tree_library tlib" "tree_library lib" "tree_ok ts" "tree_ok jumps" "distinct (map fst es)" "distinct (map (tp_address \<circ> snd) es)"
    and "\<And>k tp. (k, tp) \<in> set es \<Longrightarrow> tree_map ts k = None \<and> tree_map jumps (tp_address tp) = None"
  shows "\<exists>ts' jumps'. fork_tracepoints tlib lib parent es ts jumps = Inr (ts', jumps') \<and> tree_ok ts' \<and> tree_ok jumps'
    \<and> tree_map ts' = (tree_map ts) ++ map_of es
    \<and> (\<forall>(k, tp) \<in> set es. jump_get parent (tp_address tp) \<noteq> 0 \<longrightarrow> tree_map jumps' (tp_address tp) = Some (tp_trampoline tp))
    \<and> (\<forall>a. (\<forall>(k, tp) \<in> set es. tp_address tp = a \<longrightarrow> jump_get parent a = 0) \<longrightarrow> tree_map jumps' a = tree_map jumps a)"
  using assms(3-)
proof (induction es arbitrary: ts jumps)
  case Nil
  then show ?case by simp
next
  case (Cons e es)
  obtain key tp where e: "e = (key, tp)" by (cases e)
  have n: "tree_map ts key = None" "tree_map jumps (tp_address tp) = None" using Cons.prems(5) [of key tp] e by auto
  obtain ts1 where t: "tree_insert tlib ts key tp = Inr ts1" "tree_ok ts1" "tree_map ts1 = (tree_map ts)(key \<mapsto> tp)"
    using tree_library.insert_spec [OF assms(1) Cons.prems(1) n(1)] by blast
  obtain jn where jn: "jump_install lib jumps (tp_address tp) (tp_trampoline tp) = Inr jn" "tree_ok jn"
    "tree_map jn = (tree_map jumps)(tp_address tp \<mapsto> tp_trampoline tp)"
    using tree_library.insert_spec [OF assms(2) Cons.prems(2) n(2)] unfolding jump_install_def by blast
  define j1 where "j1 = (if jump_get parent (tp_address tp) \<noteq> 0 then jn else jumps)"
  have j: "tracepoint_clone lib jumps tp (jump_get parent (tp_address tp) \<noteq> 0) = Inr (tp, j1)" "tree_ok j1"
    "tree_map j1 = (if jump_get parent (tp_address tp) \<noteq> 0 then (tree_map jumps)(tp_address tp \<mapsto> tp_trampoline tp) else tree_map jumps)"
    using jn Cons.prems(2) by (simp_all add: tracepoint_clone_def j1_def)
  have a: "tp_address tp \<noteq> tp_address tp'" "key \<noteq> k'" if "(k', tp') \<in> set es" for k' tp'
    using that Cons.prems(3,4) e by (force simp: image_iff)+
  have "tree_map ts1 k' = None \<and> tree_map j1 (tp_address tp') = None" if "(k', tp') \<in> set es" for k' tp'
    using Cons.prems(5) [of k' tp'] a [OF that] that t(3) j(3) by auto
  from Cons.IH [OF t(2) j(2) _ _ this] obtain ts2 j2 where 2: "fork_tracepoints tlib lib parent es ts1 j1 = Inr (ts2, j2)"
    "tree_ok ts2" "tree_ok j2" "tree_map ts2 = (tree_map ts1) ++ map_of es"
    "\<forall>(k, tp) \<in> set es. jump_get parent (tp_address tp) \<noteq> 0 \<longrightarrow> tree_map j2 (tp_address tp) = Some (tp_trampoline tp)"
    "\<forall>a. (\<forall>(k, tp) \<in> set es. tp_address tp = a \<longrightarrow> jump_get parent a = 0) \<longrightarrow> tree_map j2 a = tree_map j1 a"
    using Cons.prems(3,4) by auto
  have "map_of es key = None" using a(2) by (force simp: map_of_eq_None_iff)
  then have m: "tree_map ts2 = (tree_map ts) ++ map_of (e # es)"
    using 2(4) t(3) e by (auto simp: fun_eq_iff map_add_def split: option.splits)
  have o: "tree_map j2 (tp_address tp) = tree_map j1 (tp_address tp)"
    by (rule 2(6) [rule_format]) (use a(1) in force)
  have "fork_tracepoints tlib lib parent (e # es) ts jumps = Inr (ts2, j2)"
    using t(1) j(1) 2(1) e by (simp add: arm_template_iter_return_address_def)
  moreover have "\<forall>(k, tp) \<in> set (e # es). jump_get parent (tp_address tp) \<noteq> 0 \<longrightarrow> tree_map j2 (tp_address tp) = Some (tp_trampoline tp)"
    using 2(5) o j(3) e by simp
  moreover have "\<forall>a. (\<forall>(k, tp) \<in> set (e # es). tp_address tp = a \<longrightarrow> jump_get parent a = 0) \<longrightarrow> tree_map j2 a = tree_map jumps a"
    using 2(6) j(3) e by auto
  ultimately show ?case using 2(2,3) m by blast
qed

text \<open>C5: a forked process keeps its tracepoints. If the parent's segment has no injection or the child has an injection of the same
  injectable, no two tracepoints of the segment have one address and the child's jump table has none of these addresses yet,
  \<^verbatim>\<open>tracepoints_fork\<close> returns. The child's segment has the same bounds, file and rights, the same tracepoints, the same trampolines with
  their size and their origin; its injection is the child's own, whose counter is one greater, and nothing else of the state of the
  injections changes. The child's jump table gets an entry from the address to the trampoline for exactly those tracepoints at whose
  address the parent has a jump; every other entry is as it was.\<close>

theorem tracepoints_fork_copies:
  assumes "tree_library tlib" "tree_library lib" "tree_ok (tracepoints parent)" "tree_ok jumps"
    and "injection parent = None \<or> (\<exists>p i q. injection parent = Some p \<and> s_heap s p = Some i \<and> injection_get s proc (i_injectable i) = Some q
      \<and> s_heap s q \<noteq> None)"
    and "distinct (map tp_address (tree_vals (tracepoints parent)))"
    and "\<forall>tp \<in> set (tree_vals (tracepoints parent)). tree_map jumps (tp_address tp) = None"
  shows "\<exists>child s' jumps'. tracepoints_fork tlib lib proc pjumps (s, jumps) parent (blank parent) = Inr (child, s', jumps')
    \<and> tree_map (tracepoints child) = tree_map (tracepoints parent) \<and> same_place parent child
    \<and> trampolines child = trampolines parent \<and> trampolines_size child = trampolines_size parent
    \<and> trampoline_stolen child = trampoline_stolen parent
    \<and> (case injection parent of
         None \<Rightarrow> injection child = None \<and> s' = s
       | Some p \<Rightarrow> \<exists>i q x. s_heap s p = Some i \<and> injection_get s proc (i_injectable i) = Some q \<and> s_heap s q = Some x
           \<and> injection child = Some q \<and> s' = s\<lparr>s_heap := (s_heap s)(q \<mapsto> x\<lparr>i_references := i_references x + 1\<rparr>)\<rparr>)
    \<and> (\<forall>tp \<in> set (tree_vals (tracepoints parent)). tree_map jumps' (tp_address tp) =
         (if jump_get pjumps (tp_address tp) \<noteq> 0 then Some (tp_trampoline tp) else None))
    \<and> (\<forall>a. a \<notin> tp_address ` set (tree_vals (tracepoints parent)) \<longrightarrow> tree_map jumps' a = tree_map jumps a)"
proof -
  let ?es = "map entry (tree_iter (tracepoints parent))"
  have es: "?es = inorder (tracepoints parent)" by (rule tree_iter_entries)
  have v: "tp \<in> set (tree_vals (tracepoints parent)) \<longleftrightarrow> (\<exists>k. (k, tp) \<in> set ?es)" for tp
    unfolding es tree_vals_inorder by force
  have "distinct (map fst ?es)" using assms(3) unfolding es tree_ok_def by (simp add: strict_sorted_iff)
  moreover have da: "distinct (map (tp_address \<circ> snd) ?es)" using assms(6) unfolding es tree_vals_inorder by simp
  moreover have "tree_map Leaf k = None \<and> tree_map jumps (tp_address tp) = None" if "(k, tp) \<in> set ?es" for k tp
    using that assms(7) v by (auto simp: tree_map_def)
  moreover have "tree_ok Leaf" by (simp add: tree_ok_def)
  ultimately obtain ts' jumps' where f: "fork_tracepoints tlib lib pjumps ?es Leaf jumps = Inr (ts', jumps')" "tree_ok jumps'"
    "tree_map ts' = tree_map Leaf ++ map_of ?es"
    "\<forall>(k, tp) \<in> set ?es. jump_get pjumps (tp_address tp) \<noteq> 0 \<longrightarrow> tree_map jumps' (tp_address tp) = Some (tp_trampoline tp)"
    "\<forall>a. (\<forall>(k, tp) \<in> set ?es. tp_address tp = a \<longrightarrow> jump_get pjumps a = 0) \<longrightarrow> tree_map jumps' a = tree_map jumps a"
    using fork_tracepoints_spec [OF assms(1,2) _ assms(4)] by blast
  have m: "tree_map ts' = tree_map (tracepoints parent)" using f(3) unfolding es by (simp add: tree_map_def)
  have j1: "\<forall>tp \<in> set (tree_vals (tracepoints parent)). tree_map jumps' (tp_address tp) =
      (if jump_get pjumps (tp_address tp) \<noteq> 0 then Some (tp_trampoline tp) else None)"
  proof
    fix tp assume tp: "tp \<in> set (tree_vals (tracepoints parent))"
    show "tree_map jumps' (tp_address tp) = (if jump_get pjumps (tp_address tp) \<noteq> 0 then Some (tp_trampoline tp) else None)"
    proof (cases "jump_get pjumps (tp_address tp) = 0")
      case True
      then have "tree_map jumps' (tp_address tp) = tree_map jumps (tp_address tp)" using f(5) by fastforce
      then show ?thesis using True assms(7) tp by simp
    next
      case False
      then show ?thesis using f(4) tp v by fastforce
    qed
  qed
  have j2: "\<forall>a. a \<notin> tp_address ` set (tree_vals (tracepoints parent)) \<longrightarrow> tree_map jumps' a = tree_map jumps a"
  proof (intro allI impI)
    fix a assume "a \<notin> tp_address ` set (tree_vals (tracepoints parent))"
    then show "tree_map jumps' a = tree_map jumps a" using v by (intro f(5) [rule_format]) auto
  qed
  show ?thesis
  proof (cases "injection parent")
    case None
    then show ?thesis using f(1) m j1 j2 by (simp add: tracepoints_fork_def blank_def same_place_def Let_def)
  next
    case (Some p)
    then obtain i q x where "s_heap s p = Some i" "injection_get s proc (i_injectable i) = Some q" "s_heap s q = Some x"
      using assms(5) by auto
    then show ?thesis using Some f(1) m j1 j2
      by (simp add: tracepoints_fork_def blank_def same_place_def Let_def injection_at_def set_references_def)
  qed
qed

text \<open>Witness: a segment with one tracepoint that is caught by a breakpoint.\<close>

definition fork_tp :: tracepoint_t where
  "fork_tp = \<lparr>tp_address = 0x8010, tp_trampoline = 0x20000, tp_handler = 0x30004, tp_insn = 0, tp_insn_kind = INSN_KIND_THUMB, tp_template = Thumb_generic\<rparr>"

definition fork_segment :: arm_segment where
  "fork_segment = \<lparr>start = 0x8000, seg_end = 0x9000, filename = Some ''/bin/x'', file_offset = 0, flags = 5, state = SEGMENT_STATE_OLD,
     injection = None, tracepoints = Node Leaf (0x8011, fork_tp) Leaf, trampolines = 0x20000, trampolines_size = 8, trampoline_stolen = False\<rparr>"

theorem tracepoints_fork_copies_witness:
  "\<exists>child s' jumps'. tracepoints_fork (leaf_lib fork_tp) (leaf_lib 0) 1 (Node Leaf (0x8010, 0x20000) Leaf)
      (\<lparr>s_registry = \<lparr>inj_heap = Map.empty, injectables = Leaf, libraries = Leaf, bindings = Leaf, next_iid = 1\<rparr>, s_heap = Map.empty, s_next = 0,
        s_processes = (\<lambda>_. \<lparr>ip_pid = 1, ip_mode32 = True, ip_injections = Leaf\<rparr>), s_adbi = None, s_thread = ()\<rparr>, Leaf)
      fork_segment (blank fork_segment) = Inr (child, s', jumps')
    \<and> tree_map (tracepoints child) 0x8011 = Some fork_tp \<and> tree_map jumps' 0x8010 = Some 0x20000"
proof -
  let ?s = "\<lparr>s_registry = \<lparr>inj_heap = Map.empty, injectables = Leaf, libraries = Leaf, bindings = Leaf, next_iid = 1\<rparr>, s_heap = Map.empty, s_next = 0,
        s_processes = (\<lambda>_. \<lparr>ip_pid = 1, ip_mode32 = True, ip_injections = Leaf\<rparr>), s_adbi = None, s_thread = ()\<rparr>"
  let ?j = "Node Leaf (0x8010, 0x20000) Leaf :: (u32, u32) tree_t"
  have v: "tree_vals (tracepoints fork_segment) = [fork_tp]" by (simp add: tree_vals_inorder fork_segment_def)
  have "tree_ok (tracepoints fork_segment)" "tree_ok (Leaf :: (u32, u32) tree_t)" by (simp_all add: tree_ok_def fork_segment_def)
  moreover have "injection fork_segment = None" by (simp add: fork_segment_def)
  moreover have "tree_map (Leaf :: (u32, u32) tree_t) a = None" for a by (simp add: tree_map_def)
  ultimately obtain child s' jumps' where "tracepoints_fork (leaf_lib fork_tp) (leaf_lib 0) 1 ?j (?s, Leaf) fork_segment (blank fork_segment) = Inr (child, s', jumps')"
    "tree_map (tracepoints child) = tree_map (tracepoints fork_segment)"
    "\<forall>tp \<in> set [fork_tp]. tree_map jumps' (tp_address tp) = (if jump_get ?j (tp_address tp) \<noteq> 0 then Some (tp_trampoline tp) else None)"
    using tracepoints_fork_copies [OF leaf_lib_contract leaf_lib_contract, of fork_segment Leaf ?s 1 fork_tp 0 ?j] unfolding v by auto
  moreover have "tree_map (tracepoints fork_segment) 0x8011 = Some fork_tp" by (simp add: tree_map_def fork_segment_def)
  moreover have "jump_get ?j (tp_address fork_tp) \<noteq> 0" by (simp add: jump_get_def tree_get_def tree_get_node_def fork_tp_def)
  ultimately show ?thesis by (auto simp: fork_tp_def)
qed

section \<open>Properties\<close>

text \<open>An example: a process with two segments, of whose table one entry is out of date and one is gone.\<close>

definition example_state :: "(u32 \<Rightarrow> u8 option) traced istate" where
  "example_state = \<lparr>s_registry = \<lparr>inj_heap = Map.empty, injectables = Leaf, libraries = Leaf, bindings = Leaf, next_iid = 1\<rparr>,
     s_heap = Map.empty, s_next = 0, s_processes = (\<lambda>_. \<lparr>ip_pid = 1, ip_mode32 = True, ip_injections = Leaf\<rparr>), s_adbi = None,
     s_thread = call_thread\<rparr>"

definition example_icalls :: "(u32 \<Rightarrow> u8 option) traced icalls" where
  "example_icalls = arm_icalls no_hooks byte_memory (\<lambda>_ _. True) 1 (\<lambda>_. True) [] 4096 0 1 (leaf_lib 0) (leaf_lib 0) (\<lambda>_. True)"

definition example_ops :: "maps_entry list \<Rightarrow> ((u32 \<Rightarrow> u8 option) traced istate, u32, nat, tracepoint_t) segment_ops" where
  "example_ops es = arm_segment_ops (leaf_lib (entry_segment (example_entry 0 None))) example_icalls (\<lambda>_. map show_maps es)
     (leaf_lib \<lparr>tp_address = 0, tp_trampoline = 0, tp_handler = 0, tp_insn = 0, tp_insn_kind = INSN_KIND_ARM, tp_template = Arm_generic\<rparr>) (leaf_lib 0)
     (\<lambda>_. \<lparr>bindata = [], template_fields = [\<lparr>field = TF_NULL, offset = 0\<rparr>], template_name = []\<rparr>) no_hooks byte_memory
     (arm_fncalls no_hooks byte_memory (\<lambda>_ _. True) 1 0 (\<lambda>_. Inr 0) 4096 0) 4096 1"

definition new_file :: maps_entry where
  "new_file = example_entry 0x8000 (Some ''/bin/x'')"

definition old_file :: arm_segment where
  "old_file = entry_segment (example_entry 0x8000 (Some ''/bin/y''))"

text \<open>A segment without injection and tracepoints in a process without injectables.\<close>

definition no_bindings :: "'m traced icalls \<Rightarrow> 'm traced istate \<Rightarrow> bool" where
  "no_bindings c s \<longleftrightarrow> bindings (s_registry s) = Leaf \<and> injections_of s (ic_process c) = Leaf"

definition plain :: "arm_segment \<Rightarrow> bool" where
  "plain seg \<longleftrightarrow> injection seg = None \<and> untraced seg"

definition seen :: "(u32, arm_segment) tree_t \<Rightarrow> 'm traced istate \<Rightarrow> 'm traced istate" where
  "seen segs s = s\<lparr>s_thread := (s_thread s)\<lparr>t_segments := map_tree (\<lambda>(k, seg). (k, thread_view seg)) segs\<rparr>\<rparr>"

lemma plain_ops:
  assumes "plain seg" "no_bindings c s"
  shows "injections_init c seg s = Inr (seg, s)"
    and "on_thread (tracepoints_init tlib lib templates h b fc pagesize fuel) segs s seg = Inr (seg, seen segs s)"
    and "on_thread (tracepoints_gone tlib lib h b fc fuel) segs s seg = Inr (seg\<lparr>trampolines_size := 0\<rparr>, seen segs s)"
    and "injection_get_by_address s (ic_process c) a = Inr None"
proof -
  have r: "remove_loop tlib lib h b False fuel Leaf t = Inr t" for t by (subst remove_loop.simps) (simp add: tree_pop_def)
  show "injections_init c seg s = Inr (seg, s)"
    using assms by (auto simp: injections_init_def plain_def no_bindings_def injectable_get_binding_def tree_vals_inorder split: option.splits)
  show "on_thread (tracepoints_init tlib lib templates h b fc pagesize fuel) segs s seg = Inr (seg, seen segs s)"
    using assms by (simp add: on_thread_def injection_view_def plain_def with_pointer_def tracepoints_init_def seen_def)
  show "on_thread (tracepoints_gone tlib lib h b fc fuel) segs s seg = Inr (seg\<lparr>trampolines_size := 0\<rparr>, seen segs s)"
    using assms by (simp add: on_thread_def injection_view_def plain_def untraced_def with_pointer_def tracepoints_gone_def tracepoints_cleanup_def r seen_def)
  show "injection_get_by_address s (ic_process c) a = Inr None"
    using assms by (simp add: no_bindings_def injection_get_by_address_def tree_vals_inorder)
qed

lemma seen_no_bindings: "no_bindings c (seen segs s) = no_bindings c s"
  by (simp add: no_bindings_def seen_def injections_of_def)

lemma example_listing: "so_listing (example_ops [new_file]) s = Inr [entry_segment new_file]"
proof -
  have "maps_entry_ok new_file" by (auto simp: new_file_def example_entry_def maps_entry_ok_def)
  then show ?thesis
    by (simp add: example_ops_def arm_segment_ops_def procfs_maps_format_check_def show_maps_format show_maps_start parse_show_maps)
      (simp add: entry_segment_def new_file_def example_entry_def)
qed

lemma example_listing_ok: "listing_ok [entry_segment new_file :: arm_segment]"
  by (simp add: listing_ok_def new_file_def entry_segment_def example_entry_def)


text \<open>Witness: the segment of another file is removed in the first round and the listed one added in the second.\<close>

lemma example_tree:
  "tree_insert (so_tree (example_ops es)) Leaf k v = Inr (Node Leaf (k, v) Leaf)"
  "tree_remove (so_tree (example_ops es)) (Node Leaf (k, v) Leaf) k = Inr Leaf"
  by (simp_all add: example_ops_def arm_segment_ops_def tree_insert_def leaf_lib_def set_val_def node_tree_def tree_remove_def
      tree_discard_def tree_get_node_def)

lemma example_plain:
  assumes "plain seg" "no_bindings example_icalls s"
  shows "so_injections_init (example_ops es) segs s seg = Inr (seg, s)" "so_tracepoints_init (example_ops es) segs s seg = Inr (seg, seen segs s)"
    "so_tracepoints_gone (example_ops es) segs s seg = Inr (seg\<lparr>trampolines_size := 0\<rparr>, seen segs s)" "so_is_injection (example_ops es) s a = Inr False"
  by (simp_all add: example_ops_def arm_segment_ops_def plain_ops [OF assms])

lemma one_segment: "tree_get (Node Leaf (k, v) Leaf) k = Some v" "tree_update (Node Leaf (k, v) Leaf) k w = Inr (Node Leaf (k, w) Leaf)"
    "tree_get Leaf k = None"
  by (simp_all add: tree_get_def tree_get_node_def tree_update_def set_val_def node_tree_def)

lemma example_rounds:
  "scan_round (example_ops [new_file]) (Node Leaf (0x8000, old_file) Leaf) example_state =
     Inr (True, Leaf, seen (mark_deleted (Node Leaf (0x8000, old_file) Leaf)) example_state)"
  "no_bindings example_icalls s \<Longrightarrow> \<exists>x s'. scan_round (example_ops [new_file]) Leaf s = Inr (False, Node Leaf (0x8000, x) Leaf, s')"
proof -
  let ?x = "entry_segment new_file :: arm_segment"
  have nb: "no_bindings example_icalls example_state" by (simp add: no_bindings_def example_state_def injections_of_def)
  have pl: "plain (old_file\<lparr>state := st\<rparr>)" "plain (blank ?x)" for st
    by (simp_all add: plain_def untraced_def old_file_def entry_segment_def blank_def)
  have st: "start old_file = 0x8000" "start ?x = 0x8000" "\<not> segment_equal ?x old_file" "start (blank ?x) = 0x8000"
      "state (blank ?x) = SEGMENT_STATE_NEW"
      "injection old_file = None" "tracepoints old_file = Leaf" "trampolines old_file = 0"
    by (simp_all add: old_file_def new_file_def entry_segment_def example_entry_def segment_equal_def blank_def)
  have tr: "address_is_trampoline Leaf a = False" for a :: u32
    by (simp add: address_is_trampoline_def segment_get_by_trampoline_def tree_vals_inorder)
  show "scan_round (example_ops [new_file]) (Node Leaf (0x8000, old_file) Leaf) example_state =
     Inr (True, Leaf, seen (mark_deleted (Node Leaf (0x8000, old_file) Leaf)) example_state)"
    unfolding scan_round_def example_listing
    using example_plain [OF pl(1) nb]
    by (simp add: mark_deleted_def scan_notify_def scan_settle_def segment_iter_def iter_keys st one_segment segment_free_def example_tree
        segment_release_injection_def tree_empty_def)
  show "\<exists>x s'. scan_round (example_ops [new_file]) Leaf s = Inr (False, Node Leaf (0x8000, x) Leaf, s')" if "no_bindings example_icalls s"
    unfolding scan_round_def example_listing
    using example_plain [OF pl(2) that]
    by (simp add: mark_deleted_def scan_notify_def scan_settle_def segment_iter_def iter_keys st one_segment segment_clone_def Let_def example_tree
        address_artificial_def tr)
qed


text \<open>Leaving a process empties its table: when \<^verbatim>\<open>segment_detach\<close> and \<^verbatim>\<open>segment_reset\<close> return, they have freed every segment.\<close>

theorem segment_leave_empties:
  assumes "tree_library slib" "seg_table segs"
  shows "segment_detach (arm_segment_ops slib c maps tlib lib templates h b fc pagesize n) segs s = Inr (segs1, s1) \<Longrightarrow> segs1 = Leaf"
    and "segment_reset (arm_segment_ops slib c maps tlib lib templates h b fc pagesize n) segs s = Inr (segs2, s2) \<Longrightarrow> segs2 = Leaf"
  by (rule segment_laws.detach_all [OF arm_segment_laws [OF assms(1)] assms(2)] segment_laws.reset_all [OF arm_segment_laws [OF assms(1)] assms(2)],
      assumption)+

text \<open>A list that cannot be read counts as empty. \<^verbatim>\<open>segment_rescan\<close> does not look at the result of \<^verbatim>\<open>procfs_iter_segments\<close>: with no
  segment listed it removes all of them, as if they were unmapped, so that their trampolines are freed under running code.\<close>

theorem rescan_unreadable_list:
  assumes "tree_library slib" "seg_table segs" "so_listing (arm_segment_ops slib c maps tlib lib templates h b fc pagesize n) s = Inr []"
    and "segment_rescan (arm_segment_ops slib c maps tlib lib templates h b fc pagesize n) fuel segs s = Inr (segs', s')"
  shows "segs' = Leaf"
proof -
  let ?o = "arm_segment_ops slib c maps tlib lib templates h b fc pagesize n"
  obtain k where "fuel = Suc k" using assms(4) by (cases fuel) auto
  then obtain again segs1 s1 where r: "scan_round ?o segs s = Inr (again, segs1, s1)"
      "(if again then segment_rescan ?o k segs1 s1 else Inr (segs1, s1)) = Inr (segs', s')"
    using assms(4) by (auto simp: res_bind_eq_Inr)
  have d: "distinct (map start ([] :: arm_segment list))" by simp
  note sp = segment_laws.scan_round_spec [OF arm_segment_laws [OF assms(1)] assms(2,3) d r(1)]
  have "\<not> again" using sp(1) by (simp add: changed_def)
  moreover have "segs1 = Leaf" using sp(2,3) tree_nonempty_map [of segs1] by (auto simp: copied_def seg_table_def)
  ultimately show ?thesis using r(2) by simp
qed

end
