(* ===== verification/Elf.thy ===== *)
theory Elf
  imports Patch Segment
begin

text \<open>
  The readers of ELF files in \<^verbatim>\<open>procutil/elf.c\<close>, which find the place where the dynamic linker of a process keeps its \<^verbatim>\<open>r_debug\<close> structure, and
  from it the address of the linker's breakpoint. The functions for the two classes have the prefixes \<open>elf32_\<close> and \<open>elf64_\<close> as in
  the code. An ELF file is its bytes; \<open>lm\<close> is the number of file offsets that the type \<^verbatim>\<open>long\<close> of the server can express, beyond which
  \<^verbatim>\<open>fseek\<close> fails (\<^verbatim>\<open>2^31\<close> on ARM). The layouts are those of \<^verbatim>\<open><elf.h>\<close> and \<^verbatim>\<open><link.h>\<close>.
\<close>

section \<open>Definitions\<close>

text \<open>\<^verbatim>\<open>fseek\<close> followed by \<^verbatim>\<open>fread\<close> of one object.\<close>

definition read_at :: "nat \<Rightarrow> bytes \<Rightarrow> u32 \<Rightarrow> nat \<Rightarrow> bytes option" where
  "read_at lm file ofs n = (if unat ofs < lm \<and> unat ofs + n \<le> length file then Some (take n (drop (unat ofs) file)) else None)"

definition field_at :: "bytes \<Rightarrow> nat \<Rightarrow> nat \<Rightarrow> 'w::len word" where
  "field_at b ofs n = le_word (take n (drop ofs b))"

record 'w elf_header =
  e_entry :: 'w
  e_shoff :: 'w
  e_shentsize :: u16
  e_shnum :: u16
  e_shstrndx :: u16

record 'w section_header =
  sh_name :: u32
  sh_type :: u32
  sh_addr :: 'w
  sh_offset :: 'w
  sh_size :: 'w

definition ELFMAG :: bytes where "ELFMAG = [0x7f, 0x45, 0x4c, 0x46]"

definition elf_get_ident :: "nat \<Rightarrow> bytes \<Rightarrow> bytes option" where
  "elf_get_ident lm file =
     (case read_at lm file 0 16 of None \<Rightarrow> None | Some b \<Rightarrow> if take 4 b = ELFMAG then Some b else None)"

definition elf_get_class :: "nat \<Rightarrow> bytes \<Rightarrow> u8" where
  "elf_get_class lm file = (case elf_get_ident lm file of None \<Rightarrow> 0 | Some b \<Rightarrow> b ! 4)"

definition elf_is_elf64 :: "nat \<Rightarrow> bytes \<Rightarrow> bool" where
  "elf_is_elf64 lm file \<longleftrightarrow> elf_get_class lm file = 2"

definition elf32_get_elf_header :: "nat \<Rightarrow> bytes \<Rightarrow> u32 elf_header option" where
  "elf32_get_elf_header lm file =
     (case read_at lm file 0 52 of
        None \<Rightarrow> None
      | Some b \<Rightarrow>
          if take 4 b = ELFMAG
          then Some \<lparr>e_entry = field_at b 24 4, e_shoff = field_at b 32 4, e_shentsize = field_at b 46 2, e_shnum = field_at b 48 2,
                     e_shstrndx = field_at b 50 2\<rparr>
          else None)"

definition elf64_get_elf_header :: "nat \<Rightarrow> bytes \<Rightarrow> u64 elf_header option" where
  "elf64_get_elf_header lm file =
     (case read_at lm file 0 64 of
        None \<Rightarrow> None
      | Some b \<Rightarrow>
          if take 4 b = ELFMAG
          then Some \<lparr>e_entry = field_at b 24 8, e_shoff = field_at b 40 8, e_shentsize = field_at b 58 2, e_shnum = field_at b 60 2,
                     e_shstrndx = field_at b 62 2\<rparr>
          else None)"

subsection \<open>Sections\<close>

definition elf32_get_section_header :: "nat \<Rightarrow> bytes \<Rightarrow> u32 elf_header \<Rightarrow> u32 \<Rightarrow> u32 section_header option" where
  "elf32_get_section_header lm file eh index =
     (case read_at lm file (e_shoff eh + ucast (e_shentsize eh) * index) 40 of
        None \<Rightarrow> None
      | Some b \<Rightarrow> Some \<lparr>sh_name = field_at b 0 4, sh_type = field_at b 4 4, sh_addr = field_at b 12 4, sh_offset = field_at b 16 4,
                        sh_size = field_at b 20 4\<rparr>)"

definition elf64_get_section_header :: "nat \<Rightarrow> bytes \<Rightarrow> u64 elf_header \<Rightarrow> u32 \<Rightarrow> u64 section_header option" where
  "elf64_get_section_header lm file eh index =
     (case read_at lm file (ucast (e_shoff eh + ucast (ucast (e_shentsize eh) * index))) 64 of
        None \<Rightarrow> None
      | Some b \<Rightarrow> Some \<lparr>sh_name = field_at b 0 4, sh_type = field_at b 4 4, sh_addr = field_at b 16 8, sh_offset = field_at b 24 8,
                        sh_size = field_at b 32 8\<rparr>)"

text \<open>At most 255 bytes, up to the first NUL.\<close>

definition string_at :: "nat \<Rightarrow> bytes \<Rightarrow> u32 \<Rightarrow> bytes option" where
  "string_at lm file ofs = (if unat ofs < lm then Some (takeWhile (\<lambda>b. b \<noteq> 0) (take 255 (drop (unat ofs) file))) else None)"

definition elf32_get_string :: "nat \<Rightarrow> bytes \<Rightarrow> u32 elf_header \<Rightarrow> u32 \<Rightarrow> bytes option" where
  "elf32_get_string lm file eh ofs =
     (case elf32_get_section_header lm file eh (ucast (e_shstrndx eh)) of
        None \<Rightarrow> None
      | Some h \<Rightarrow> string_at lm file (ofs + sh_offset h))"

definition elf64_get_string :: "nat \<Rightarrow> bytes \<Rightarrow> u64 elf_header \<Rightarrow> u32 \<Rightarrow> bytes option" where
  "elf64_get_string lm file eh ofs =
     (case elf64_get_section_header lm file eh (ucast (e_shstrndx eh)) of
        None \<Rightarrow> None
      | Some h \<Rightarrow> string_at lm file (ucast (ucast ofs + sh_offset h)))"

text \<open>The loop over the sections: \<^verbatim>\<open>strcmp\<close> gets the result of \<^verbatim>\<open>elf32_get_string\<close>, which may be null.\<close>

fun find_section ::
    "(u32 \<Rightarrow> 'w section_header option) \<Rightarrow> (u32 \<Rightarrow> bytes option) \<Rightarrow> bytes \<Rightarrow> nat list \<Rightarrow> 'w section_header option res" where
  "find_section header str name [] = Inr None"
| "find_section header str name (i # is) =
     (case header (of_nat i) of
        None \<Rightarrow> Inr None
      | Some h \<Rightarrow>
          (case str (sh_name h) of
             None \<Rightarrow> Inl Null_Pointer
           | Some n \<Rightarrow> if name = n then Inr (Some h) else find_section header str name is))"

definition elf32_get_section_header_by_name :: "nat \<Rightarrow> bytes \<Rightarrow> u32 elf_header \<Rightarrow> bytes \<Rightarrow> u32 section_header option res" where
  "elf32_get_section_header_by_name lm file eh name =
     find_section (elf32_get_section_header lm file eh) (elf32_get_string lm file eh) name [0..<unat (e_shnum eh)]"

definition elf64_get_section_header_by_name :: "nat \<Rightarrow> bytes \<Rightarrow> u64 elf_header \<Rightarrow> bytes \<Rightarrow> u64 section_header option res" where
  "elf64_get_section_header_by_name lm file eh name =
     find_section (elf64_get_section_header lm file eh) (elf64_get_string lm file eh) name [0..<unat (e_shnum eh)]"

text \<open>\<^verbatim>\<open>".dynamic"\<close> and \<^verbatim>\<open>SHT_DYNAMIC\<close>.\<close>

definition dynamic_name :: bytes where "dynamic_name = [0x2e, 0x64, 0x79, 0x6e, 0x61, 0x6d, 0x69, 0x63]"

definition elf32_get_dynamic_section :: "nat \<Rightarrow> bytes \<Rightarrow> u32 elf_header \<Rightarrow> u32 section_header option res" where
  "elf32_get_dynamic_section lm file eh =
     res_bind (elf32_get_section_header_by_name lm file eh dynamic_name) (\<lambda>h.
     Inr (case h of None \<Rightarrow> None | Some h \<Rightarrow> if sh_type h = 6 then Some h else None))"

definition elf64_get_dynamic_section :: "nat \<Rightarrow> bytes \<Rightarrow> u64 elf_header \<Rightarrow> u64 section_header option res" where
  "elf64_get_dynamic_section lm file eh =
     res_bind (elf64_get_section_header_by_name lm file eh dynamic_name) (\<lambda>h.
     Inr (case h of None \<Rightarrow> None | Some h \<Rightarrow> if sh_type h = 6 then Some h else None))"

subsection \<open>Dynamic entries\<close>

text \<open>
  The entry with a tag, from the index \<open>idx\<close> on: its index, its value and the file offset of the value. The index and the offset are \<^verbatim>\<open>unsigned int\<close>;
  the list of entries is closed by the tag 0, but the loop ends at the end of the file if it is not. \<open>fuel\<close> bounds the rounds. For
  the class 64 the value is cut to 32 bits and the offset is that of a 4-byte tag.
\<close>

fun elf32_get_dynamic_entry ::
    "nat \<Rightarrow> nat \<Rightarrow> bytes \<Rightarrow> u32 section_header \<Rightarrow> u32 \<Rightarrow> u32 \<Rightarrow> (u32 \<times> u32 \<times> u32) option res" where
  "elf32_get_dynamic_entry 0 lm file dynamic tag idx = Inl Diverges"
| "elf32_get_dynamic_entry (Suc n) lm file dynamic tag idx =
     (let ofs = sh_offset dynamic + idx * 8
      in case read_at lm file ofs 8 of
           None \<Rightarrow> Inr None
         | Some b \<Rightarrow>
             let d_tag = field_at b 0 4 :: u32
             in if d_tag = tag then Inr (Some (idx, field_at b 4 4, ofs + 4))
                else if d_tag \<noteq> 0 then elf32_get_dynamic_entry n lm file dynamic tag (idx + 1)
                else Inr None)"

fun elf64_get_dynamic_entry ::
    "nat \<Rightarrow> nat \<Rightarrow> bytes \<Rightarrow> u64 section_header \<Rightarrow> u32 \<Rightarrow> u32 \<Rightarrow> (u32 \<times> u32 \<times> u32) option res" where
  "elf64_get_dynamic_entry 0 lm file dynamic tag idx = Inl Diverges"
| "elf64_get_dynamic_entry (Suc n) lm file dynamic tag idx =
     (let ofs = ucast (sh_offset dynamic + ucast idx * 16) :: u32
      in case read_at lm file ofs 16 of
           None \<Rightarrow> Inr None
         | Some b \<Rightarrow>
             let d_tag = field_at b 0 8 :: u64
             in if d_tag = scast tag then Inr (Some (idx, ucast (field_at b 8 8 :: u64), ofs + 4))
                else if d_tag \<noteq> 0 then elf64_get_dynamic_entry n lm file dynamic tag (idx + 1)
                else Inr None)"

subsection \<open>Addresses\<close>

text \<open>The file offset of an address: that of the first section that contains it, or 0.\<close>

fun section_of :: "(u32 \<Rightarrow> 'w::len word section_header option) \<Rightarrow> 'w word \<Rightarrow> nat list \<Rightarrow> 'w word" where
  "section_of header addr [] = 0"
| "section_of header addr (i # is) =
     (case header (of_nat i) of
        None \<Rightarrow> 0
      | Some h \<Rightarrow>
          if \<not> (addr \<ge> sh_addr h \<and> addr < sh_addr h + sh_size h) then section_of header addr is
          else sh_offset h + (addr - sh_addr h))"

definition elf32_addr2fo :: "nat \<Rightarrow> bytes \<Rightarrow> u32 elf_header \<Rightarrow> u32 \<Rightarrow> u32" where
  "elf32_addr2fo lm file eh addr = section_of (elf32_get_section_header lm file eh) addr [0..<unat (e_shnum eh)]"

definition elf64_addr2fo :: "nat \<Rightarrow> bytes \<Rightarrow> u64 elf_header \<Rightarrow> u64 \<Rightarrow> u64" where
  "elf64_addr2fo lm file eh addr = section_of (elf64_get_section_header lm file eh) addr [0..<unat (e_shnum eh)]"

definition elf_get_r_data_offset :: "nat \<Rightarrow> nat \<Rightarrow> bytes option \<Rightarrow> u32 res" where
  "elf_get_r_data_offset fuel lm f =
     (case f of
        None \<Rightarrow> Inr 0
      | Some file \<Rightarrow>
          (case elf32_get_elf_header lm file of
             None \<Rightarrow> Inr 0
           | Some eh \<Rightarrow>
               res_bind (elf32_get_dynamic_section lm file eh) (\<lambda>d.
               case d of
                 None \<Rightarrow> Inr 0
               | Some dynamic \<Rightarrow>
                   res_bind (elf32_get_dynamic_entry fuel lm file dynamic 21 0) (\<lambda>r.
                   Inr (case r of None \<Rightarrow> 0 | Some (_, _, ofs) \<Rightarrow> ofs)))))"

text \<open>The file offsets of the value of \<^verbatim>\<open>DT_DEBUG\<close> and of the entry point; \<open>None\<close> is the result 0, with the entry point not set.\<close>

definition elf64_get_r_debug_address :: "nat \<Rightarrow> nat \<Rightarrow> bytes \<Rightarrow> (u64 \<times> u64) option res" where
  "elf64_get_r_debug_address fuel lm file =
     (case elf64_get_elf_header lm file of
        None \<Rightarrow> Inr None
      | Some eh \<Rightarrow>
          res_bind (elf64_get_dynamic_section lm file eh) (\<lambda>d.
          case d of
            None \<Rightarrow> Inr None
          | Some dynamic \<Rightarrow>
              res_bind (elf64_get_dynamic_entry fuel lm file dynamic 21 0) (\<lambda>r.
              case r of
                None \<Rightarrow> Inr None
              | Some (idx, _, _) \<Rightarrow>
                  Inr (Some (elf64_addr2fo lm file eh (sh_addr dynamic + ucast idx * 16 + 8), elf64_addr2fo lm file eh (e_entry eh))))))"

definition elf32_get_r_debug_address :: "nat \<Rightarrow> nat \<Rightarrow> bytes \<Rightarrow> (u32 \<times> u32) option res" where
  "elf32_get_r_debug_address fuel lm file =
     (case elf32_get_elf_header lm file of
        None \<Rightarrow> Inr None
      | Some eh \<Rightarrow>
          res_bind (elf32_get_dynamic_section lm file eh) (\<lambda>d.
          case d of
            None \<Rightarrow> Inr None
          | Some dynamic \<Rightarrow>
              res_bind (elf32_get_dynamic_entry fuel lm file dynamic 21 0) (\<lambda>r.
              case r of
                None \<Rightarrow> Inr None
              | Some (idx, _, _) \<Rightarrow>
                  Inr (Some (elf32_addr2fo lm file eh (sh_addr dynamic + idx * 8 + 4), elf32_addr2fo lm file eh (e_entry eh))))))"

end
