(* ===== verification/Linker.thy ===== *)
theory Linker
  imports Elf
begin

text \<open>
  The breakpoint in the dynamic linker: \<^verbatim>\<open>elf_get_remote_linker_breakpoint_address\<close> of \<^verbatim>\<open>procutil/elf.c\<close> and, on 32-bit ARM, \<^verbatim>\<open>process/linker.c\<close>. The
  state of the process is \<open>'s\<close>; its memory, its executable, the files, the segments, and the calls \<^verbatim>\<open>fncall_runtil\<close> and \<^verbatim>\<open>segment_rescan\<close> are
  the record \<open>linker_env\<close>. The width of a word is that of the server.
\<close>

section \<open>Definitions\<close>

record ('s, 'a, 'i, 't) linker_env =
  le_mem :: "('s, 'a) inferior_ops"
  le_mode32 :: bool
  le_exe :: "'s \<Rightarrow> string option"
  le_open :: "'s \<Rightarrow> string \<Rightarrow> bytes option"
  le_segments :: "'s \<Rightarrow> ('a, 'i, 't) segments"
  le_runtil :: "'s \<Rightarrow> 'a \<Rightarrow> (bool \<times> 's) res"
  le_rescan :: "'s \<Rightarrow> 's res"

text \<open>The offsets of \<^verbatim>\<open>DT_DEBUG\<close> and of the entry point in the executable, with its name.\<close>

definition get_r_debug_address ::
    "('s, 'w::len word, 'i, 't) linker_env \<Rightarrow> nat \<Rightarrow> nat \<Rightarrow> 's \<Rightarrow> ('w word \<times> 'w word \<times> string) option res" where
  "get_r_debug_address env fuel lm s =
     (case le_exe env s of
        None \<Rightarrow> Inr None
      | Some name \<Rightarrow>
          (case le_open env s name of
             None \<Rightarrow> Inr None
           | Some file \<Rightarrow>
               if elf_get_class lm file = 2
               then res_bind (elf64_get_r_debug_address fuel lm file) (\<lambda>r. Inr (map_option (\<lambda>(a, e). (ucast a, ucast e, name)) r))
               else res_bind (elf32_get_r_debug_address fuel lm file) (\<lambda>r. Inr (map_option (\<lambda>(a, e). (ucast a, ucast e, name)) r))))"

definition mapped_at :: "string \<Rightarrow> 'w::len word \<Rightarrow> ('w word, 'i, 't) segment_t \<Rightarrow> 'w word option" where
  "mapped_at executable ofs seg =
     (if filename seg \<noteq> Some executable then None
      else let lo = file_offset seg; hi = lo + seg_end seg - start seg
           in if \<not> (lo \<le> ofs \<and> ofs < hi) then None else Some (start seg + ofs - file_offset seg))"

definition segment_iter_mapped :: "('w::len word, 'i, 't) segments \<Rightarrow> string \<Rightarrow> 'w word \<Rightarrow> 'w word list" where
  "segment_iter_mapped segs executable ofs = List.map_filter (mapped_at executable ofs) (tree_vals segs)"

fun read_first :: "('s, 'w::len word) inferior_ops \<Rightarrow> nat \<Rightarrow> 'w word list \<Rightarrow> 'w word \<Rightarrow> 's \<Rightarrow> 'w word \<times> 's" where
  "read_first ops sz [] r s = (r, s)"
| "read_first ops sz (a # as) r s =
     (if r \<noteq> 0 then read_first ops sz as r s
      else let (bs, s) = mem_read ops s a sz
           in read_first ops sz as (if length bs \<noteq> sz then 0 else le_word bs) s)"

text \<open>Eight bytes do not fit into the result on a 32-bit server.\<close>

definition elf_get_rdebug_ptr ::
    "('s, 'w::len word, 'i, 't) linker_env \<Rightarrow> 's \<Rightarrow> string \<Rightarrow> 'w word \<Rightarrow> ('w word \<times> 's) res" where
  "elf_get_rdebug_ptr env s executable ofs =
     (let addr_size = if le_mode32 env then 4 else 8;
          addrs = segment_iter_mapped (le_segments env s) executable ofs
      in if addrs \<noteq> [] \<and> LENGTH('w) div 8 < addr_size then Inl Out_Of_Bounds
         else Inr (read_first (le_mem env) addr_size addrs 0 s))"

text \<open>\<^verbatim>\<open>struct r_debug\<close> of the server: a version, a pointer, the address \<^verbatim>\<open>r_brk\<close>, a state and the load address \<^verbatim>\<open>r_ldbase\<close>, each in a word.\<close>

definition read_r_brk :: "('s, 'w::len word, 'i, 't) linker_env \<Rightarrow> 'w word \<Rightarrow> 's \<Rightarrow> 'w word \<times> 's" where
  "read_r_brk env r_debug_ptr s =
     (let word_size = LENGTH('w) div 8;
          (bs, s) = mem_read (le_mem env) s r_debug_ptr (5 * word_size)
      in (if length bs \<noteq> 5 * word_size then 0 else field_at bs (2 * word_size) word_size, s))"

definition elf_get_remote_linker_breakpoint_address ::
    "('s, 'w::len word, 'i, 't) linker_env \<Rightarrow> nat \<Rightarrow> nat \<Rightarrow> 's \<Rightarrow> ('w word \<times> 's) res" where
  "elf_get_remote_linker_breakpoint_address env fuel lm s =
     res_bind (get_r_debug_address env fuel lm s) (\<lambda>r.
     case r of
       None \<Rightarrow> Inr (0, s)
     | Some (r_debug_ptrptr, entry_ofs, executable) \<Rightarrow>
         if r_debug_ptrptr = 0 then Inr (0, s)
         else res_bind (elf_get_rdebug_ptr env s executable r_debug_ptrptr) (\<lambda>(r_debug_ptr, s).
              if r_debug_ptr \<noteq> 0 then Inr (read_r_brk env r_debug_ptr s)
              else res_bind (segment_translate_file_to_mem (le_segments env s) executable entry_ofs) (\<lambda>r.
                   case r of
                     None \<Rightarrow> Inr (0, s)
                   | Some entry_address \<Rightarrow>
                       if \<not> segment_check_address_is_code (le_segments env s) entry_address then Inr (0, s)
                       else res_bind (le_runtil env s entry_address) (\<lambda>(ok, s).
                            if \<not> ok then Inr (0, s)
                            else res_bind (le_rescan env s) (\<lambda>s.
                                 res_bind (elf_get_rdebug_ptr env s executable r_debug_ptrptr) (\<lambda>(r_debug_ptr, s).
                                 if r_debug_ptr = 0 then Inr (0, s) else Inr (read_r_brk env r_debug_ptr s)))))))"

subsection \<open>The breakpoint\<close>

record linker_t =
  bkpt :: u32
  lk_insn :: insn_t
  lk_kind :: insn_kind_t

text \<open>The table has one entry: there is no comma between its two literals.\<close>

definition linker_files :: "string list" where
  "linker_files = [''/system/bin/linker'' @ ''/system/bin/linker64'']"

definition is_linker_filename :: "string \<Rightarrow> bool" where
  "is_linker_filename name \<longleftrightarrow> List.member linker_files name"

definition linker_attach ::
    "('s, u32, 'i, 't) linker_env \<Rightarrow> nat \<Rightarrow> nat \<Rightarrow> linker_t \<Rightarrow> 's \<Rightarrow> (linker_t \<times> 's) res" where
  "linker_attach env fuel lm l s =
     adbi_assure (bkpt l = 0)
     (res_bind (elf_get_remote_linker_breakpoint_address env fuel lm s) (\<lambda>(address, s).
      let l = l\<lparr>bkpt := address\<rparr>
      in if bkpt l = 0 then Inr (l, s)
         else let l = l\<lparr>lk_kind := arm_detect_kind_from_unaligned_address (bkpt l)\<rparr>;
                  l = l\<lparr>bkpt := bkpt l AND NOT 1\<rparr>
              in case segment_get (le_segments env s) (bkpt l) of
                   None \<Rightarrow> Inr (l\<lparr>bkpt := 0\<rparr>, s)
                 | Some seg \<Rightarrow>
                     if \<not> (segment_is_executable seg \<and> (case filename seg of None \<Rightarrow> False | Some name \<Rightarrow> \<not> is_linker_filename name))
                     then Inr (l\<lparr>bkpt := 0\<rparr>, s)
                     else res_bind (patch_read_insn_detect_kind (le_mem env) s (bkpt l) (lk_kind l)) (\<lambda>(r, s).
                          case r of
                            None \<Rightarrow> Inr (l\<lparr>bkpt := 0\<rparr>, s)
                          | Some (insn, kind) \<Rightarrow>
                              let l = l\<lparr>lk_insn := insn, lk_kind := kind\<rparr>
                              in res_bind (mem_patch_insn (le_mem env) s (bkpt l) kind (get_breakpoint_insn kind)) (\<lambda>(ok, s).
                                 Inr (if ok then l else l\<lparr>bkpt := 0\<rparr>, s)))))"

definition linker_detach :: "('s, u32, 'i, 't) linker_env \<Rightarrow> linker_t \<Rightarrow> 's \<Rightarrow> (linker_t \<times> 's) res" where
  "linker_detach env l s =
     (if bkpt l \<noteq> 0
      then res_bind (mem_patch_insn (le_mem env) s (bkpt l) (lk_kind l) (lk_insn l)) (\<lambda>(_, s). Inr (l\<lparr>bkpt := 0\<rparr>, s))
      else Inr (l, s))"

definition linker_fork :: "linker_t \<Rightarrow> linker_t \<Rightarrow> linker_t" where
  "linker_fork child parent = parent"

definition linker_reset :: "('s, u32, 'i, 't) linker_env \<Rightarrow> nat \<Rightarrow> nat \<Rightarrow> linker_t \<Rightarrow> 's \<Rightarrow> (linker_t \<times> 's) res" where
  "linker_reset env fuel lm l s = linker_attach env fuel lm (l\<lparr>bkpt := 0\<rparr>) s"

definition linker_notify :: "('s, 'a, 'i, 't) linker_env \<Rightarrow> 's \<Rightarrow> 's res" where
  "linker_notify env s = le_rescan env s"

section \<open>The search in the executable\<close>

text \<open>The reference: the entries of the dynamic section that the file has, of which the first with the tag or with the tag 0 counts.\<close>

definition dyn_tag :: "bytes \<Rightarrow> u32 \<Rightarrow> nat \<Rightarrow> u32" where
  "dyn_tag file ofs j = field_at file (unat ofs + 8 * j) 4"

definition dyn_count :: "bytes \<Rightarrow> u32 \<Rightarrow> nat" where
  "dyn_count file ofs = (length file - unat ofs) div 8"

definition dyn_lookup :: "bytes \<Rightarrow> u32 \<Rightarrow> u32 \<Rightarrow> nat \<Rightarrow> (u32 \<times> u32 \<times> u32) option" where
  "dyn_lookup file ofs tag i =
     (case find (\<lambda>j. dyn_tag file ofs j = tag \<or> dyn_tag file ofs j = 0) [i..<dyn_count file ofs] of
        None \<Rightarrow> None
      | Some j \<Rightarrow>
          if dyn_tag file ofs j = tag then Some (of_nat j, field_at file (unat ofs + 8 * j + 4) 4, ofs + 8 * of_nat j + 4) else None)"

lemma field_of_read: "k + m \<le> n \<Longrightarrow> field_at (take n (drop p file)) k m = field_at file (p + k) m"
  by (simp add: field_at_def take_drop min_def add.commute)

lemma dyn_offset:
  assumes "unat ofs + 8 * i < 2 ^ 32"
  shows "unat (ofs + of_nat i * 8 :: u32) = unat ofs + 8 * i"
proof -
  have "ofs + of_nat i * 8 = (of_nat (unat ofs + 8 * i) :: u32)" by (simp add: mult.commute)
  then show ?thesis using assms by (simp only: unat_of_nat) (simp add: take_bit_nat_eq_self)
qed

lemma dynamic_entry_from:
  assumes "length file < 2 ^ 32" "length file \<le> lm" "0 < n" "unat (sh_offset d) + 8 * i < 2 ^ 32" "length file < unat (sh_offset d) + 8 * i + 8 * n"
  shows "elf32_get_dynamic_entry n lm file d tag (of_nat i) = Inr (dyn_lookup file (sh_offset d) tag i)"
  using assms(3-)
proof (induction n arbitrary: i)
  case 0
  then show ?case by simp
next
  case (Suc n)
  let ?o = "sh_offset d" and ?c = "dyn_count file (sh_offset d)"
  have u: "unat (?o + of_nat i * 8) = unat ?o + 8 * i" using dyn_offset Suc.prems(2) by simp
  show ?case
  proof (cases "unat ?o + 8 * i + 8 \<le> length file")
    case False
    then have "?c \<le> i" unfolding dyn_count_def by linarith
    then show ?thesis using False u by (simp add: read_at_def dyn_lookup_def)
  next
    case True
    then have c: "i < ?c" unfolding dyn_count_def by linarith
    have rd: "read_at lm file (?o + of_nat i * 8) 8 = Some (take 8 (drop (unat ?o + 8 * i) file))"
      using True u assms(2) by (simp add: read_at_def)
    have n: "0 < n" using True Suc.prems(3) by (cases n) auto
    have "elf32_get_dynamic_entry n lm file d tag (of_nat (Suc i)) = Inr (dyn_lookup file ?o tag (Suc i))"
      using True assms(1) Suc.prems(3) by (intro Suc.IH [OF n]) auto
    then show ?thesis using rd c
      by (simp add: Let_def field_of_read dyn_tag_def dyn_lookup_def upt_conv_Cons add.commute [of 1] mult.commute)
  qed
qed

section \<open>The breakpoint in memory\<close>

text \<open>An attachment that leaves a breakpoint went through every step.\<close>

lemma linker_attach_steps:
  assumes "linker_attach env fuel lm l s = Inr (l', s2)" "bkpt l' \<noteq> 0" "elf_get_remote_linker_breakpoint_address env fuel lm s = Inr (a, s1)"
  shows "\<exists>insn kind s1'. patch_read_insn_detect_kind (le_mem env) s1 (a AND NOT 1) (arm_detect_kind_from_unaligned_address a) = Inr (Some (insn, kind), s1')
    \<and> mem_patch_insn (le_mem env) s1' (a AND NOT 1) kind (get_breakpoint_insn kind) = Inr (True, s2)
    \<and> l' = l\<lparr>bkpt := a AND NOT 1, lk_insn := insn, lk_kind := kind\<rparr>"
  using assms
  by (auto simp: linker_attach_def Let_def res_bind_eq_Inr split: if_splits option.splits)

section \<open>Properties\<close>

text \<open>C7: the search for an entry of the dynamic section ends and is equivalent to the reference: in a file of less than 4 GB whose
  offsets the server can express, it gives the first entry with the tag, if none with the tag 0 comes before it and the file does not end.\<close>

theorem elf32_dynamic_entry_correct:
  assumes "length file < 2 ^ 32" "length file \<le> lm" "length file < 8 * fuel"
  shows "elf32_get_dynamic_entry fuel lm file d tag 0 = Inr (dyn_lookup file (sh_offset d) tag 0)"
proof -
  have "unat (sh_offset d) < 2 ^ LENGTH(32)" by (rule unsigned_less)
  then have "unat (sh_offset d) + 8 * 0 < 2 ^ 32" by simp
  moreover have "0 < fuel" "length file < unat (sh_offset d) + 8 * 0 + 8 * fuel" using assms(3) by auto
  ultimately show ?thesis using dynamic_entry_from [OF assms(1,2), of fuel d 0 tag] by simp
qed

text \<open>Witness: \<^verbatim>\<open>DT_DEBUG\<close> as the second entry.\<close>

definition two_entries :: bytes where
  "two_entries = [1, 0, 0, 0, 9, 0, 0, 0, 21, 0, 0, 0, 7, 0, 0, 0, 0, 0, 0, 0, 0, 0, 0, 0]"

theorem elf32_dynamic_entry_correct_witness:
  "elf32_get_dynamic_entry 4 (2 ^ 31) two_entries \<lparr>sh_name = 0, sh_type = 6, sh_addr = 0, sh_offset = 0, sh_size = 24\<rparr> 21 0 = Inr (Some (1, 7, 12))"
proof -
  let ?d = "\<lparr>sh_name = 0, sh_type = 6, sh_addr = 0, sh_offset = 0, sh_size = 24\<rparr> :: u32 section_header"
  have "elf32_get_dynamic_entry 4 (2 ^ 31) two_entries ?d 21 0 = Inr (dyn_lookup two_entries (sh_offset ?d) 21 0)"
    by (rule elf32_dynamic_entry_correct) (simp_all add: two_entries_def)
  moreover have "dyn_lookup two_entries 0 21 0 = Some (1, 7, 12)" by code_simp
  ultimately show ?thesis by simp
qed

text \<open>C6: the breakpoint in the dynamic linker. When it is installed, the processor finds a breakpoint instruction of the kind of the
  replaced instruction, which is kept; removing it succeeds and restores the memory as it was before. The conditions: the attachment
  returned and installed a breakpoint, the thread was alive when its address had been found, the four bytes at the address can be
  written (nothing is asked of the rest of the address space) and are not at its end; the operating system's calls have the laws of
  the locale \<open>inferior\<close>.\<close>

theorem linker_breakpoint_roundtrip:
  assumes "inferior (le_mem env) contents" "elf_get_remote_linker_breakpoint_address env fuel lm s = Inr (a, s1)"
    and "can_write (le_mem env) (span (a AND NOT 1) 4) s1" "\<not> thread_dead (le_mem env) s1" "unat (a AND NOT 1) + 4 < 2 ^ 32"
    and "linker_attach env fuel lm l s = Inr (l', s2)" "bkpt l' \<noteq> 0"
  shows "fetch_insn (lk_kind l') (contents s1) (bkpt l') = lk_insn l'
    \<and> fetch_insn (lk_kind l') (contents s2) (bkpt l') = get_breakpoint_insn (lk_kind l')
    \<and> (\<exists>s3. linker_detach env l' s2 = Inr (l'\<lparr>bkpt := 0\<rparr>, s3) \<and> contents s3 = contents s1)"
proof -
  let ?a = "a AND NOT 1" and ?R = "span (a AND NOT 1) 4"
  let ?P = "\<lambda>m. can_write (le_mem env) ?R m \<and> \<not> thread_dead (le_mem env) m"
  have wr: "writable_in (le_mem env) ?R ?P" by (rule inferior.alive_writable [OF assms(1) can_write_writable])
  have P: "?P s1" "\<And>m. ?P m \<Longrightarrow> \<not> thread_dead (le_mem env) m" using assms(3,4) by auto
  obtain insn kind s1' where r: "patch_read_insn_detect_kind (le_mem env) s1 ?a (arm_detect_kind_from_unaligned_address a) = Inr (Some (insn, kind), s1')"
    "mem_patch_insn (le_mem env) s1' ?a kind (get_breakpoint_insn kind) = Inr (True, s2)"
    "l' = l\<lparr>bkpt := ?a, lk_insn := insn, lk_kind := kind\<rparr>"
    using linker_attach_steps [OF assms(6,7,2)] by blast
  have mapped: "\<forall>x \<in> ?R. contents s1 x \<noteq> None" using inferior.writable_mapped [OF assms(1) can_write_writable assms(3)] by blast
  have at: "s1' = s1" "insn_at (contents s1) ?a kind insn"
    using patch_read_insn_at [OF assms(1,4) mapped r(1)] by auto
  then have ok: "arm_check_align ?a kind" "patch_check_insn kind insn = Inr True" by (simp_all add: insn_at_def)
  have sub: "insn_range ?a kind \<subseteq> ?R" unfolding insn_range_def by (rule span_mono) (simp add: insn_size_def)
  have w: "?P s2" "patched (contents s1) (contents s2) ?a kind (get_breakpoint_insn kind)"
    using writable_patch [OF assms(1) wr P(1,2) assms(5) ok(1) breakpoint_valid sub] r(2) at(1) by auto
  obtain s3 where d: "mem_patch_insn (le_mem env) s2 ?a kind insn = Inr (True, s3)"
    "patched (contents s2) (contents s3) ?a kind insn"
    using writable_patch [OF assms(1) wr w(1) P(2) assms(5) ok sub] by blast
  have "contents s3 = contents s1" using patched_back [OF w(2) d(2) at(2)] .
  moreover have "linker_detach env l' s2 = Inr (l'\<lparr>bkpt := 0\<rparr>, s3)" using d(1) r(3) assms(7) by (simp add: linker_detach_def)
  ultimately show ?thesis using insn_at_fetch [OF at(2)] insn_at_fetch w(2) r(3) by (auto simp: patched_def)
qed

text \<open>Witness: a process that maps an executable with a dynamic section whose \<^verbatim>\<open>DT_DEBUG\<close> entry leads to \<^verbatim>\<open>r_brk = 0x8100\<close>.\<close>

definition elf_section :: "u32 \<Rightarrow> u32 \<Rightarrow> u32 \<Rightarrow> u32 \<Rightarrow> bytes" where
  "elf_section typ addr ofs sz = concat (map (le_bytes 4) [0, typ, 0, addr, ofs, sz, 0, 0, 0, 0])"

definition elf_example :: bytes where
  "elf_example = ELFMAG @ [1, 1, 1] @ replicate 9 0 @ concat (map (le_bytes 4) [0x280002 :: u32, 1, 0x8000, 0, 52, 0])
     @ concat (map (le_bytes 2) [52 :: u16, 0, 0, 40, 2, 1]) @ elf_section 6 0x8090 144 16 @ elf_section 3 0 132 9
     @ dynamic_name @ replicate 4 0 @ concat (map (le_bytes 4) [21 :: u32, 0, 0, 0])"

definition example_memory :: "u32 \<Rightarrow> u8 option" where
  "example_memory = (\<lambda>x. if x < 0x1000 then None else Some (if x = 0x8096 then 1 else if x = 0x10009 then 0x81 else 0))"

definition example_code :: "(u32, unit, unit) segment_t" where
  "example_code = \<lparr>start = 0x8000, seg_end = 0x9000, filename = Some ''/x'', file_offset = 0, flags = 5, state = SEGMENT_STATE_OLD,
     injection = None, tracepoints = Leaf, trampolines = 0, trampolines_size = 0, trampoline_stolen = False\<rparr>"

definition example_env :: "(u32 \<Rightarrow> u8 option, u32, unit, unit) linker_env" where
  "example_env = \<lparr>le_mem = byte_memory, le_mode32 = True, le_exe = (\<lambda>_. Some ''/x''), le_open = (\<lambda>_ _. Some elf_example),
     le_segments = (\<lambda>_. Node Leaf (0x8000, example_code) Leaf), le_runtil = (\<lambda>s _. Inr (True, s)), le_rescan = Inr\<rparr>"

lemma example_r_debug: "elf_get_class 200 elf_example = 1" "elf32_get_r_debug_address 30 200 elf_example = Inr (Some (148, 0))"
  by code_simp+

lemma example_breakpoint: "elf_get_remote_linker_breakpoint_address example_env 30 200 example_memory = Inr (0x8100, example_memory)"
proof -
  have d: "get_r_debug_address example_env 30 200 example_memory = Inr (Some (148, 0, ''/x''))"
    using example_r_debug by (simp add: get_r_debug_address_def example_env_def)
  have p: "elf_get_rdebug_ptr example_env example_memory ''/x'' 148 = Inr (0x10000, example_memory)"
    by (simp add: elf_get_rdebug_ptr_def example_env_def segment_iter_mapped_def tree_vals_inorder map_filter_simps mapped_at_def
        example_code_def mem_read_def byte_memory_def byte_pread_def example_memory_def upt_conv_Cons)
  have "read_r_brk example_env 0x10000 example_memory = (0x8100, example_memory)"
    by (simp add: read_r_brk_def example_env_def mem_read_def byte_memory_def byte_pread_def example_memory_def upt_conv_Cons field_at_def)
  then show ?thesis using d p by (simp add: elf_get_remote_linker_breakpoint_address_def)
qed

lemma example_mapped: "mapped_in (span 0x8100 4) example_memory" "\<forall>x \<in> span 0x8100 4. example_memory x \<noteq> None"
proof -
  show "mapped_in (span 0x8100 4) example_memory"
    by (simp add: mapped_in_32 example_memory_def Let_def lessThan_Suc lessThan_nat_numeral)
  show "\<forall>x \<in> span 0x8100 4. example_memory x \<noteq> None"
    by (simp add: span_def example_memory_def lessThan_Suc lessThan_nat_numeral)
qed

lemma example_attach:
  "\<exists>insn s2. linker_attach example_env 30 200 \<lparr>bkpt = 0, lk_insn = 0, lk_kind = INSN_KIND_ARM\<rparr> example_memory
     = Inr (\<lparr>bkpt = 0x8100, lk_insn = insn, lk_kind = INSN_KIND_ARM\<rparr>, s2)"
proof -
  let ?b = "byte_memory :: (u32 \<Rightarrow> u8 option, u32) inferior_ops"
  have m: "mapped_in (span 0x8100 4) example_memory" "\<forall>x \<in> span 0x8100 4. example_memory x \<noteq> None" by (fact example_mapped)+
  have g: "segment_get (le_segments example_env example_memory) 0x8100 = Some example_code"
    by (simp add: segment_get_def example_env_def tree_get_le_def tree_get_node_le_def tree_get_close_node_def example_code_def)
  have al: "arm_check_align 0x8100 INSN_KIND_ARM" by (simp add: arm_check_align_def arm_align_bits_def)
  have "mem_read ?b example_memory 0x8100 4 = (bytes_at example_memory 0x8100 4, example_memory)"
    using m(2) by (intro mem_read_bytes [OF mem32.inferior_axioms, where k = 4]) (simp_all add: byte_memory_def)
  then obtain insn where r: "patch_read_insn_detect_kind ?b example_memory 0x8100 INSN_KIND_ARM = Inr (Some (insn, INSN_KIND_ARM), example_memory)"
    using al by (simp add: patch_read_insn_detect_kind_def patch_read_insn_def bytes_at_def)
  have "\<exists>m'. mem_patch_insn ?b example_memory 0x8100 INSN_KIND_ARM (get_breakpoint_insn INSN_KIND_ARM) = Inr (True, m')"
    using writable_patch [where R = "span 0x8100 4" and P = "mapped_in (span 0x8100 4)", OF mem32.inferior_axioms byte_memory_writable m(1) _ _ al breakpoint_valid]
    by (auto simp: byte_memory_def insn_range_def insn_size_def)
  then show ?thesis using r g example_breakpoint
    by (auto simp: linker_attach_def arm_detect_kind_from_unaligned_address_def example_code_def segment_is_executable_def SEGMENT_EXECUTABLE_def
        is_linker_filename_def linker_files_def example_env_def)
qed

theorem linker_breakpoint_roundtrip_witness:
  "\<exists>l s2 s3. linker_attach example_env 30 200 \<lparr>bkpt = 0, lk_insn = 0, lk_kind = INSN_KIND_ARM\<rparr> example_memory = Inr (l, s2)
    \<and> bkpt l = 0x8100 \<and> fetch_insn INSN_KIND_ARM s2 0x8100 = get_breakpoint_insn INSN_KIND_ARM
    \<and> linker_detach example_env l s2 = Inr (l\<lparr>bkpt := 0\<rparr>, s3) \<and> s3 = example_memory"
proof -
  obtain insn s2 where a: "linker_attach example_env 30 200 \<lparr>bkpt = 0, lk_insn = 0, lk_kind = INSN_KIND_ARM\<rparr> example_memory
     = Inr (\<lparr>bkpt = 0x8100, lk_insn = insn, lk_kind = INSN_KIND_ARM\<rparr>, s2)" using example_attach by blast
  have e: "le_mem example_env = byte_memory" by (simp add: example_env_def)
  have pre: "inferior (le_mem example_env) (\<lambda>m. m)" "can_write (le_mem example_env) (span (0x8100 AND NOT 1) 4) example_memory"
      "\<not> thread_dead (le_mem example_env) example_memory" "unat (0x8100 AND NOT 1 :: u32) + 4 < 2 ^ 32"
    using mem32.inferior_axioms byte_memory_can_write [OF example_mapped(1)] by (simp_all add: e, simp add: byte_memory_def)
  show ?thesis using linker_breakpoint_roundtrip [OF pre(1) example_breakpoint pre(2-4) a] a by auto
qed

text \<open>a traced process can abort the server. If its \<^verbatim>\<open>r_brk\<close> points into executable code at an address that is even but no multiple of
  four, \<^verbatim>\<open>linker_attach\<close> takes it for an ARM instruction and fails the assertion on its alignment.\<close>

theorem linker_attach_aborts:
  assumes "bkpt l = 0" "elf_get_remote_linker_breakpoint_address env fuel lm s = Inr (a, s1)" "\<not> bit a 0" "bit a 1"
    and "segment_get (le_segments env s1) a = Some seg" "segment_is_executable seg" "filename seg = Some name" "\<not> is_linker_filename name"
  shows "linker_attach env fuel lm l s = Inl Assertion"
proof -
  have a: "a \<noteq> 0" "a AND NOT 1 = a" "a AND 1 = 0"
  proof -
    show "a \<noteq> 0" using assms(4) by auto
    show "a AND NOT 1 = a"
    proof (rule bit_word_eqI)
      fix n assume "n < LENGTH(32)"
      then show "bit (a AND NOT 1) n = bit a n" using assms(3) by (cases n) (simp_all add: bit_and_iff bit_not_iff bit_1_iff)
    qed
    show "a AND 1 = 0"
    proof (rule bit_word_eqI)
      fix n
      show "bit (a AND 1) n = bit (0 :: u32) n" using assms(3) by (cases n) (simp_all add: bit_and_iff bit_1_iff)
    qed
  qed
  have "a AND 3 \<noteq> 0" using assms(4) by (auto simp: bit_eq_iff [of "a AND 3"] bit_simps intro!: exI [of _ 1])
  then have "\<not> arm_check_align a INSN_KIND_ARM" by (simp add: arm_check_align_def arm_align_bits_def)
  then show ?thesis using assms a
    by (simp add: linker_attach_def arm_detect_kind_from_unaligned_address_def patch_read_insn_detect_kind_def patch_read_insn_def Let_def)
qed

text \<open>the name of the linker is not recognized: the table has the concatenation of the two names.\<close>

theorem linker_never_recognized:
  "\<not> is_linker_filename ''/system/bin/linker''" "\<not> is_linker_filename ''/system/bin/linker64''"
  by (simp_all add: is_linker_filename_def linker_files_def)

text \<open>a server with 64-bit words reads the \<^verbatim>\<open>r_debug\<close> structure of a 32-bit process with its own layout: instead of \<^verbatim>\<open>r_brk\<close>, at the offset 8,
  it takes \<^verbatim>\<open>r_ldbase\<close>, at the offset 16, for the lower half of the address of the breakpoint.\<close>

theorem mode32_reads_r_ldbase:
  fixes env :: "('s, 64 word, 'i, 't) linker_env"
  assumes "mem_read (le_mem env) s p 40 = (bs, s')" "length bs = 40"
  shows "ucast (fst (read_r_brk env p s)) = (field_at bs 16 4 :: u32)"
proof (rule bit_word_eqI)
  fix i assume i: "i < LENGTH(32)"
  then have "i div 8 < 4" by auto
  then show "bit (ucast (fst (read_r_brk env p s)) :: u32) i = bit (field_at bs 16 4 :: u32) i"
    using assms i by (simp add: read_r_brk_def field_at_def bit_ucast_iff bit_le_word)
qed

text \<open>an executable whose section names cannot be read crashes the server: \<^verbatim>\<open>strcmp\<close> is called with a null pointer.\<close>

theorem section_name_null:
  assumes "0 < unat (e_shnum eh)" "elf32_get_section_header lm file eh 0 = Some h"
    and "elf32_get_section_header lm file eh (ucast (e_shstrndx eh)) = None"
  shows "elf32_get_section_header_by_name lm file eh name = Inl Null_Pointer"
  using assms by (simp add: elf32_get_section_header_by_name_def upt_conv_Cons elf32_get_string_def)

end
