(* ===== verification/Spec2Isabelle.thy ===== *)
theory Spec2Isabelle
  imports Template_Arm Template_A64 Payload Patch Procfs_Maps Mutex Print Process_List Communication Injectable Tracepoint_Correct Trampoline_Area Protocol_Correct Injection_Link Segment_Arm Linker
begin

text \<open>
  A verification of ADBI, a server that instruments running Linux programs on ARM. The server attaches to processes with ptrace, loads
  injectables (libraries of handler functions) into them, and replaces instructions by jumps to trampolines that call a handler, execute
  the replaced instruction at another place and jump back. A client controls it through a socket.

  \<^bold>\<open>Conventions.\<close> Machine integers are words of their width. An operation that can abort (\<^verbatim>\<open>assert\<close>, \<^verbatim>\<open>adbi_bug\<close>), read out of bounds, use a null
  pointer, or not end, has a result of the sum type \<open>'a res\<close> of \<open>Adbi_Prelude\<close>, whose left side names the fault. Loops that the measure of
  the data bounds are total functions; loops whose length depends on the environment have fuel, and using it up is the fault
  \<open>Diverges\<close>, so that a theorem about a result \<open>Inr\<close> also says that the loop ended. System calls are explicit inputs (the list of results
  of \<^verbatim>\<open>read\<close> and \<^verbatim>\<open>write\<close>, the list of future events of a thread) or records of operations with laws stated as locales.

  \<^bold>\<open>Instructions.\<close> \<open>Bitops\<close> (\<^verbatim>\<open>util/bitops.h\<close>) and \<open>Match\<close> (\<^verbatim>\<open>arch/arm/match.h\<close>) are the bit operations and patterns. \<open>Arch_Arm\<close> and \<open>Arch_A64\<close> are
  the headers \<^verbatim>\<open>arch.h\<close> of the two architectures; \<open>Relative_Jump\<close> shows that the branch instructions they encode reach their destination,
  by a locale of one branch format that is interpreted for each instruction set. \<open>Select_Arm\<close>, \<open>Select_Thumb\<close>, \<open>Select_Thumb32\<close> and \<open>Select_A64\<close>
  are the decoders \<^verbatim>\<open>template_select*.c\<close>; they show that the generic template, which moves the instruction, is only selected for
  instructions that do not depend on their address, with the exceptions named there. \<open>Template\<close>, \<open>Template_Arm\<close> and \<open>Template_A64\<close>
  (\<^verbatim>\<open>template.c\<close>) fill in the trampolines: branch targets, patched registers, and that nothing else of a template changes. The contents
  of the templates are assembled by the build and are a parameter.

  \<^bold>\<open>Traced processes.\<close> \<open>Mem\<close> (\<^verbatim>\<open>procutil/mem.c\<close>) writes bytes at any alignment with word transfers, over the locale \<open>inferior\<close> of the memory of a
  process; \<open>Patch\<close> (\<^verbatim>\<open>arch/arm/patch.c\<close>, \<^verbatim>\<open>arch/arm64/patch.c\<close>) replaces instructions, by a locale of writers that both architectures interpret. \<open>Asdd_Tree\<close> is the header \<^verbatim>\<open>tree.h\<close> of the search trees, whose balancing
  library is the locale \<open>tree_library\<close>; \<open>Segment\<close> (\<^verbatim>\<open>process/segment.c\<close>) keeps the memory segments in such a tree, and \<open>Procfs_Maps\<close> (with
  \<open>Digits\<close>) parses the kernel's list of them. \<open>Segment_Scan\<close> has the operations of that file that change the table; \<open>Segment_Mirror\<close> shows,
  under the laws \<open>segment_laws\<close> of what they call, that the scan makes the table a copy of the kernel's list, and \<open>Segment_Arm\<close> puts them
  together with the injections and tracepoints, with \<^verbatim>\<open>tracepoints_fork\<close> and the look-ups of tracepoints. \<open>Elf\<close> and \<open>Linker\<close> (\<^verbatim>\<open>procutil/elf.c\<close>,
  \<^verbatim>\<open>process/linker.c\<close>) find the breakpoint of the dynamic linker in the executable and the process, install and remove it. \<open>Thread\<close> (\<^verbatim>\<open>process/thread.c\<close>, \<^verbatim>\<open>procutil/wait.c\<close>, \<^verbatim>\<open>arch/arm/trap.c\<close>, \<^verbatim>\<open>tracepoint/jump.c\<close>) follows one
  thread and the events the kernel reports of it: the server's view agrees with the kernel's in every sequence of operations.
  \<open>Process_List\<close> (\<^verbatim>\<open>process/list.c\<close>) counts references. \<open>Fncall\<close> (\<^verbatim>\<open>arch/arm/fncall.c\<close>) calls functions in a stopped thread. \<open>Tracepoint\<close>
  (\<^verbatim>\<open>tracepoint/tracepoint.c\<close>) brings these parts together; \<open>Tracepoint_Correct\<close> shows that every traced instruction leads to its trampoline
  and that removing the tracepoints restores the code, \<open>Trampoline_Area\<close> which memory the trampolines get. The hypotheses \<open>env_ok\<close> there
  are the laws of the memory, the trees, the sizes of the templates and of the calls in the process.

  \<^bold>\<open>Injectables.\<close> \<open>Injfile\<close> (\<^verbatim>\<open>injectable/injfile.c\<close>) reads the file format, \<open>Injectable\<close> (\<^verbatim>\<open>injectable/injectable.c\<close>) keeps the loaded ones; loading and
  unloading refine updates of one abstract table. \<open>Injection\<close> (\<^verbatim>\<open>injection/injection.c\<close>) puts them into processes: \<open>Injection_Correct\<close> shows
  that trees, objects and counters agree in every sequence of operations and that injecting is complete or leaves nothing, \<open>Injection_Link\<close>
  that the imports get the addresses of the exports, and \<open>Injection_Detach\<close> what detaching removes and when it aborts.

  \<^bold>\<open>Client.\<close> \<open>Payload\<close> (\<^verbatim>\<open>communication/payload.c\<close>) is the format of requests and responses, \<open>Communication\<close> (\<^verbatim>\<open>communication/communication.c\<close>) the
  sockets, with packets that arrive and leave in arbitrary pieces. \<open>Protocol\<close> (\<^verbatim>\<open>communication/protocol.c\<close>) has the handlers of all requests, with the
  operations of the server they call as a record; \<open>Protocol_Correct\<close> shows that every answer is a well-formed response to its request,
  on the wire too, that malformed and unknown requests change nothing, and which requests abort the server.

  \<^bold>\<open>Library of the handlers.\<close> \<open>Print\<close> (\<^verbatim>\<open>inj/adbi/print.c\<close>), \<open>Division\<close> (\<^verbatim>\<open>idk/include/division.h\<close>) and \<open>Mutex\<close> (\<^verbatim>\<open>idk/include/mutex.h\<close>, as steps of
  interleaved threads) are used by the handlers in the traced process.

  \<^bold>\<open>Bounds and fuel.\<close> The rounds of the scan of the segments need the fuel 2 if the second list agrees with the first, the search in a
  dynamic section an eighth of the length of the file; the other theorems on loops with fuel say how much is enough, too.

  \<^bold>\<open>Not modelled.\<close> The Python tools, the build, the third-party disassembler and the code that only makes text for messages; the ARM64
  variants of traps and calls, which repeat the ARM ones on 64-bit registers; the other procfs readers, ptrace wrappers, attaching and
  spawning, which are sequences of system calls.
\<close>

end
